(* ===== verification/Prelude.thy ===== *)
theory Prelude
  imports Main "HOL-Library.AList" "HOL-Library.Word" "HOL-Library.Multiset"
begin

text \<open>
  Shared vocabulary of the development.

  \<^item> Machine integers of the Rust sources are words of their width.
  \<^item> Strings are character lists, durations are natural numbers (milliseconds), and an
    \<^verbatim>\<open>anyhow::Error\<close> is its message.
  \<^item> The sources keep their dictionaries in insertion-ordered maps (\<^verbatim>\<open>IndexMap\<close>) and
    insertion-ordered sets (\<^verbatim>\<open>IndexSet\<close>). Order is observable in the program, so both are
    lists here: an association list with distinct keys and a list without repetition.
    The contract the program relies on is the locale \<open>ordered_map\<close> below, which the
    association-list operations interpret.
  \<^item> A call that can fail returns a sum: \<open>Inl\<close> is the error, \<open>Inr\<close> the value.
\<close>

section \<open>Basic types\<close>

type_synonym u16 = "16 word"
type_synonym u32 = "32 word"
type_synonym u64 = "64 word"
type_synonym Duration = nat
type_synonym anyhow = string

named_theorems imap_simps \<open>rewrite rules for insertion-ordered maps and sets\<close>

section \<open>Insertion-ordered maps\<close>

type_synonym ('k, 'v) index_map = "('k \<times> 'v) list"

abbreviation im_get :: "('k, 'v) index_map \<Rightarrow> 'k \<Rightarrow> 'v option" where
  "im_get m k \<equiv> map_of m k"

abbreviation im_insert :: "'k \<Rightarrow> 'v \<Rightarrow> ('k, 'v) index_map \<Rightarrow> ('k, 'v) index_map" where
  "im_insert k v m \<equiv> AList.update k v m"

abbreviation im_shift_remove :: "'k \<Rightarrow> ('k, 'v) index_map \<Rightarrow> ('k, 'v) index_map" where
  "im_shift_remove k m \<equiv> AList.delete k m"

abbreviation im_keys :: "('k, 'v) index_map \<Rightarrow> 'k list" where
  "im_keys m \<equiv> map fst m"

abbreviation im_values :: "('k, 'v) index_map \<Rightarrow> 'v list" where
  "im_values m \<equiv> map snd m"

definition im_contains_key :: "'k \<Rightarrow> ('k, 'v) index_map \<Rightarrow> bool" where
  "im_contains_key k m = (map_of m k \<noteq> None)"

definition im_wf :: "('k, 'v) index_map \<Rightarrow> bool" where
  "im_wf m = distinct (map fst m)"

text \<open>The position of a key, as \<^verbatim>\<open>IndexMap::get_index_of\<close>.\<close>

fun im_get_index_of :: "'k \<Rightarrow> ('k, 'v) index_map \<Rightarrow> nat option" where
  "im_get_index_of k [] = None"
| "im_get_index_of k (kv # m) =
     (if k = fst kv then Some 0 else map_option Suc (im_get_index_of k m))"

text \<open>Taking the element at one position of a list out and putting it back at another,
  as \<^verbatim>\<open>Vec::remove\<close> followed by \<^verbatim>\<open>Vec::insert\<close>, and as \<^verbatim>\<open>IndexMap::move_index\<close>.
  Both panic out of range; the callers check the range first.\<close>

definition remove_nth :: "nat \<Rightarrow> 'a list \<Rightarrow> 'a list" where
  "remove_nth i xs = take i xs @ drop (Suc i) xs"

definition insert_nth :: "nat \<Rightarrow> 'a \<Rightarrow> 'a list \<Rightarrow> 'a list" where
  "insert_nth i x xs = take i xs @ x # drop i xs"

definition move_nth :: "nat \<Rightarrow> nat \<Rightarrow> 'a list \<Rightarrow> 'a list" where
  "move_nth i j xs = insert_nth j (xs ! i) (remove_nth i xs)"

section \<open>Insertion-ordered sets\<close>

type_synonym 'a index_set = "'a list"

definition is_insert :: "'a \<Rightarrow> 'a index_set \<Rightarrow> 'a index_set" where
  "is_insert x xs = (if x \<in> set xs then xs else xs @ [x])"

definition is_extend :: "'a index_set \<Rightarrow> 'a list \<Rightarrow> 'a index_set" where
  "is_extend xs ys = fold is_insert ys xs"

text \<open>Collecting an iterator into an \<^verbatim>\<open>IndexSet\<close>.\<close>

definition is_collect :: "'a list \<Rightarrow> 'a index_set" where
  "is_collect ys = is_extend [] ys"

section \<open>Fallible loops\<close>

text \<open>A loop over a list that stops at the first error.\<close>

fun result_fold :: "('a \<Rightarrow> 's \<Rightarrow> 'e + 's) \<Rightarrow> 'a list \<Rightarrow> 's \<Rightarrow> 'e + 's" where
  "result_fold f [] s = Inr s"
| "result_fold f (x # xs) s =
     (case f x s of Inl e \<Rightarrow> Inl e | Inr s' \<Rightarrow> result_fold f xs s')"

text \<open>Collecting the results of a fallible map, as \<^verbatim>\<open>collect::<Result<Vec<_>, _>>\<close>.\<close>

fun result_map :: "('a \<Rightarrow> 'e + 'b) \<Rightarrow> 'a list \<Rightarrow> 'e + 'b list" where
  "result_map f [] = Inr []"
| "result_map f (x # xs) =
     (case f x of Inl e \<Rightarrow> Inl e
      | Inr y \<Rightarrow> (case result_map f xs of Inl e \<Rightarrow> Inl e | Inr ys \<Rightarrow> Inr (y # ys)))"

lemma result_map_cong [fundef_cong]:
  "xs = ys \<Longrightarrow> (\<And>x. x \<in> set ys \<Longrightarrow> f x = g x) \<Longrightarrow> result_map f xs = result_map g ys"
  by (induction xs arbitrary: ys) (auto split: sum.splits)

text \<open>A result as the pair or triple it is.\<close>

lemma pair_eta: "x = (fst x, snd x)"
  by simp

lemma triple_eta: "x = (fst x, fst (snd x), snd (snd x))"
  by simp

text \<open>\<^verbatim>\<open>[str]::join\<close>\<close>

fun join :: "string \<Rightarrow> string list \<Rightarrow> string" where
  "join sep [] = []"
| "join sep [s] = s"
| "join sep (s # t # r) = s @ sep @ join sep (t # r)"

section \<open>Lemmas on insertion-ordered maps\<close>

lemma im_wf_Nil [simp]: "im_wf []"
  by (simp add: im_wf_def)

lemma im_wf_insert [simp, intro]: "im_wf m \<Longrightarrow> im_wf (im_insert k v m)"
  by (simp add: im_wf_def distinct_update)

lemma im_wf_remove [simp, intro]: "im_wf m \<Longrightarrow> im_wf (im_shift_remove k m)"
  by (simp add: im_wf_def distinct_delete)

lemma im_get_insert [imap_simps]:
  "im_get (im_insert k v m) k' = (if k' = k then Some v else im_get m k')"
  by (simp add: update_conv')

lemma im_get_remove [imap_simps]:
  "im_get (im_shift_remove k m) k' = (if k' = k then None else im_get m k')"
  by (simp add: delete_conv')

lemma im_keys_insert_vacant [imap_simps]:
  "im_get m k = None \<Longrightarrow> im_insert k v m = m @ [(k, v)]"
  by (induction m) (auto split: if_splits)

lemma im_keys_insert_present [imap_simps]:
  "im_get m k \<noteq> None \<Longrightarrow> im_keys (im_insert k v m) = im_keys m"
  by (induction m) (auto split: if_splits)

lemma im_get_in_keys: "(im_get m k \<noteq> None) = (k \<in> set (im_keys m))"
  by (induction m) auto

lemma im_contains_key_iff [simp]: "im_contains_key k m = (k \<in> set (im_keys m))"
  using im_get_in_keys [of m k] by (simp add: im_contains_key_def)

lemma im_get_Some_in: "im_get m k = Some v \<Longrightarrow> (k, v) \<in> set m"
  by (rule map_of_SomeD)

lemma im_get_wf: "im_wf m \<Longrightarrow> (k, v) \<in> set m \<Longrightarrow> im_get m k = Some v"
  by (simp add: im_wf_def)

lemma im_get_index_of_Some:
  "im_get_index_of k m = Some i \<Longrightarrow> i < length m \<and> fst (m ! i) = k"
  by (induction m arbitrary: i) (auto split: if_splits)

lemma im_get_index_of_None: "(im_get_index_of k m = None) = (k \<notin> set (im_keys m))"
  by (induction m) auto

lemma im_keys_filter_distinct: "distinct (im_keys m) \<Longrightarrow> distinct (im_keys (filter P m))"
  by (induction m) auto

lemma im_get_filter_key:
  "im_get (filter (\<lambda>(k, v). P k) m) k = (if P k then im_get m k else None)"
  by (induction m) auto

lemma map_of_rev_distinct: "distinct (map fst xs) \<Longrightarrow> map_of (rev xs) = map_of xs"
  by (subst map_of_inject_set) (simp_all add: rev_map [symmetric])

text \<open>Marking a node shrinks the set of unmarked nodes: the measure of the graph searches.\<close>

lemma card_unmarked:
  "i < (n :: nat) \<Longrightarrow> i \<notin> set marked \<Longrightarrow> card ({..<n} - insert i (set marked)) < card ({..<n} - set marked)"
proof -
  assume "i < n" "i \<notin> set marked"
  moreover have "{..<n} - insert i (set marked) = ({..<n} - set marked) - {i}" by blast
  ultimately show ?thesis using card_Diff1_less [of "{..<n} - set marked" i] by simp
qed

section \<open>Loops that may stop with an error\<close>

lemma result_fold_Inr:
  "(\<And>x s. x \<in> set xs \<Longrightarrow> \<exists>s'. f x s = Inr s') \<Longrightarrow> \<exists>s'. result_fold f xs s = Inr s'"
proof (induction xs arbitrary: s)
  case (Cons x xs)
  obtain s' where "f x s = Inr s'" using Cons.prems by fastforce
  then show ?case using Cons.IH [of s'] Cons.prems by simp
qed simp

lemma result_fold_append:
  "result_fold f (xs @ ys) s = (case result_fold f xs s of Inl e \<Rightarrow> Inl e | Inr s' \<Rightarrow> result_fold f ys s')"
  by (induction xs arbitrary: s) (auto split: sum.splits)

lemma result_fold_snoc:
  "result_fold f (xs @ [x]) s = (case result_fold f xs s of Inl e \<Rightarrow> Inl e | Inr s' \<Rightarrow> f x s')"
  by (auto simp: result_fold_append split: sum.splits)

lemma result_fold_invariant:
  assumes "result_fold f xs s = Inr s'" and "P s"
    and "\<And>x t t'. x \<in> set xs \<Longrightarrow> P t \<Longrightarrow> f x t = Inr t' \<Longrightarrow> P t'"
  shows "P s'"
  using assms
proof (induction xs arbitrary: s)
  case (Cons x xs)
  then obtain t where "f x s = Inr t" "result_fold f xs t = Inr s'" by (auto split: sum.splits)
  with Cons show ?case by (metis list.set_intros)
qed simp

text \<open>A loop whose every step succeeds, keeps \<open>P\<close>, only extends the state and establishes \<open>Q\<close> for its element.\<close>

lemma result_fold_collect:
  assumes "\<And>x s. x \<in> set xs \<Longrightarrow> P s \<Longrightarrow> \<exists>s'. f x s = Inr s' \<and> P s' \<and> le s s' \<and> Q x s'"
    and "\<And>s. le s s" and "\<And>s t u. le s t \<Longrightarrow> le t u \<Longrightarrow> le s u"
    and "\<And>x s s'. Q x s \<Longrightarrow> le s s' \<Longrightarrow> Q x s'" and "P s"
  shows "\<exists>s'. result_fold f xs s = Inr s' \<and> P s' \<and> le s s' \<and> (\<forall>x \<in> set xs. Q x s')"
  using assms(1,5)
proof (induction xs arbitrary: s)
  case Nil
  then show ?case using assms(2) by auto
next
  case (Cons x xs)
  obtain s1 where s1: "f x s = Inr s1" "P s1" "le s s1" "Q x s1"
    using Cons.prems(1) [of x s] Cons.prems(2) by auto
  obtain s2 where "result_fold f xs s1 = Inr s2" "P s2" "le s1 s2" "\<forall>x \<in> set xs. Q x s2"
    using Cons.IH [OF Cons.prems(1) s1(2)] by auto
  with s1 show ?case using assms(3,4) by auto
qed

section \<open>Lemmas on positions\<close>

lemma mset_remove_nth: "i < length xs \<Longrightarrow> mset xs = add_mset (xs ! i) (mset (remove_nth i xs))"
  by (subst (1) id_take_nth_drop [of i xs]) (auto simp: remove_nth_def)

lemma mset_insert_nth: "mset (insert_nth i x xs) = add_mset x (mset xs)"
proof -
  have "mset (insert_nth i x xs) = add_mset x (mset (take i xs @ drop i xs))"
    unfolding insert_nth_def mset_append by simp
  then show ?thesis by simp
qed

lemma mset_move_nth: "i < length xs \<Longrightarrow> mset (move_nth i j xs) = mset xs"
  by (simp add: move_nth_def mset_insert_nth mset_remove_nth)

lemma move_nth_nth:
  "i < length xs \<Longrightarrow> j < length xs \<Longrightarrow> move_nth i j xs ! j = xs ! i"
  by (auto simp: move_nth_def insert_nth_def remove_nth_def nth_append)

text \<open>A class of equal elements looks the same in every permutation of a list.\<close>

lemma filter_replicate_const:
  "(\<And>x. x \<in> set xs \<Longrightarrow> P x \<Longrightarrow> x = e) \<Longrightarrow> filter P xs = replicate (length (filter P xs)) e"
  by (induction xs) auto

lemma filter_mset_const:
  assumes "mset xs = mset ys" and "\<And>x. x \<in> set xs \<Longrightarrow> P x \<Longrightarrow> x = e"
  shows "filter P xs = filter P ys"
proof -
  have "\<And>x. x \<in> set ys \<Longrightarrow> P x \<Longrightarrow> x = e"
    using assms by (metis mset_eq_setD)
  then have "filter P ys = replicate (length (filter P ys)) e"
    by (rule filter_replicate_const)
  moreover have "filter P xs = replicate (length (filter P xs)) e"
    using assms(2) by (rule filter_replicate_const)
  moreover have "length (filter P xs) = length (filter P ys)"
    using assms(1) by (metis mset_filter size_mset)
  ultimately show ?thesis by metis
qed

section \<open>Lemmas on insertion-ordered sets\<close>

lemma set_is_insert [simp]: "set (is_insert x xs) = insert x (set xs)"
  by (auto simp: is_insert_def)

lemma distinct_is_insert [simp]: "distinct (is_insert x xs) = distinct xs"
  by (auto simp: is_insert_def)

lemma set_is_extend [simp]: "set (is_extend xs ys) = set xs \<union> set ys"
  unfolding is_extend_def by (induction ys arbitrary: xs) auto

lemma distinct_is_extend [simp]: "distinct (is_extend xs ys) = distinct xs"
  unfolding is_extend_def by (induction ys arbitrary: xs) auto

lemma set_is_collect [simp]: "set (is_collect xs) = set xs"
  by (simp add: is_collect_def)

lemma distinct_is_collect [simp]: "distinct (is_collect xs)"
  by (simp add: is_collect_def)

section \<open>The contract of an insertion-ordered map\<close>

text \<open>
  What the program relies on of \<^verbatim>\<open>IndexMap\<close>: a lookup after an insertion or a removal, and
  where an insertion puts a key. \<open>entries\<close> is the iteration order.
\<close>

locale ordered_map =
  fixes get :: "'m \<Rightarrow> 'k \<Rightarrow> 'v option"
    and ins :: "'k \<Rightarrow> 'v \<Rightarrow> 'm \<Rightarrow> 'm"
    and del :: "'k \<Rightarrow> 'm \<Rightarrow> 'm"
    and entries :: "'m \<Rightarrow> ('k \<times> 'v) list"
    and invar :: "'m \<Rightarrow> bool"
  assumes get_entries: "invar m \<Longrightarrow> get m k = map_of (entries m) k"
    and entries_distinct: "invar m \<Longrightarrow> distinct (map fst (entries m))"
    and entries_ins_vacant: "invar m \<Longrightarrow> get m k = None \<Longrightarrow> entries (ins k v m) = entries m @ [(k, v)]"
    and keys_ins_present: "invar m \<Longrightarrow> get m k \<noteq> None \<Longrightarrow>
      map fst (entries (ins k v m)) = map fst (entries m)"
    and get_ins: "invar m \<Longrightarrow> get (ins k v m) k' = (if k' = k then Some v else get m k')"
    and get_del: "invar m \<Longrightarrow> get (del k m) k' = (if k' = k then None else get m k')"
    and invar_ins: "invar m \<Longrightarrow> invar (ins k v m)"
    and invar_del: "invar m \<Longrightarrow> invar (del k m)"
begin

lemma ins_all_invar: "invar m \<Longrightarrow> invar (fold (\<lambda>(k, v). ins k v) kvs m)"
  by (induction kvs arbitrary: m) (auto simp: invar_ins)

lemma get_ins_all:
  "invar m \<Longrightarrow> get (fold (\<lambda>(k, v). ins k v) kvs m) k =
     (case map_of (rev kvs) k of Some v \<Rightarrow> Some v | None \<Rightarrow> get m k)"
proof (induction kvs arbitrary: m)
  case Nil
  then show ?case by simp
next
  case (Cons kv kvs)
  obtain k' v' where kv: "kv = (k', v')" by (cases kv)
  from Cons.prems have "invar (ins k' v' m)" by (rule invar_ins)
  from Cons.IH [OF this] Cons.prems kv show ?case
    by (auto simp: get_ins map_add_def split: option.splits)
qed

lemma keys_ins_all:
  "invar m \<Longrightarrow> set (map fst (entries (fold (\<lambda>(k, v). ins k v) kvs m))) =
     set (map fst (entries m)) \<union> set (map fst kvs)"
proof (induction kvs arbitrary: m)
  case Nil
  then show ?case by simp
next
  case (Cons kv kvs)
  obtain k' v' where kv: "kv = (k', v')" by (cases kv)
  have inv': "invar (ins k' v' m)" using Cons.prems by (rule invar_ins)
  have keys: "set (map fst (entries (ins k' v' m))) = insert k' (set (map fst (entries m)))"
  proof (cases "get m k' = None")
    case True
    with Cons.prems show ?thesis by (simp add: entries_ins_vacant)
  next
    case False
    then have "k' \<in> set (map fst (entries m))"
      using Cons.prems im_get_in_keys [of "entries m" k'] by (simp add: get_entries)
    with False Cons.prems show ?thesis using keys_ins_present [of m k' v'] by auto
  qed
  from Cons.IH [OF inv'] keys kv show ?case by auto
qed

end

interpretation imap: ordered_map im_get im_insert im_shift_remove "\<lambda>m. m" im_wf
proof unfold_locales
  fix m :: "('k, 'v) index_map" and k :: 'k
  show "im_wf m \<Longrightarrow> im_get m k = map_of m k" by simp
qed (auto simp: imap_simps im_wf_def distinct_update distinct_delete)

lemmas im_get_insert_all = imap.get_ins_all
lemmas im_keys_insert_all = imap.keys_ins_all

end
