(* ===== verification/State_Ack.thy ===== *)
theory State_Ack
  imports Prelude
begin

text \<open>
  Versions, state changes and subscriber acknowledgements of \<^verbatim>\<open>nyanpasu-core\<close>
  (\<^verbatim>\<open>state/version.rs\<close>, \<^verbatim>\<open>state/mod.rs\<close>, \<^verbatim>\<open>state/ack.rs\<close>, \<^verbatim>\<open>state/error.rs\<close>).

  A published state is an \<^verbatim>\<open>Arc<VersionedState<T>>\<close> inside an \<^verbatim>\<open>ArcSwap\<close>, and commits
  compare the pointer. A pointer is therefore a value with an identity: \<open>arc_ptr\<close> names the
  allocation, \<open>arc_val\<close> is what it points to.
\<close>

section \<open>Versions\<close>

datatype Version = Version (version_raw: u64)

datatype StateChangeId = StateChangeId (change_version: Version)

text \<open>\<^verbatim>\<open>checked_add(1).expect(..)\<close>: \<open>None\<close> is the panic.\<close>

definition version_next :: "Version \<Rightarrow> Version option" where
  "version_next v =
     (if version_raw v = - 1 then None else Some (Version (version_raw v + 1)))"

definition change_id_next :: "StateChangeId \<Rightarrow> StateChangeId option" where
  "change_id_next i = map_option StateChangeId (version_next (change_version i))"

definition version_default :: Version where
  "version_default = Version 0"

record 'T VersionedState =
  vs_version :: Version
  vs_state :: 'T

record 'T arc =
  arc_ptr :: nat
  arc_val :: "'T VersionedState"

record 'T StateChange =
  change_id :: StateChangeId
  change_previous :: "'T arc option"
  change_current :: 'T

section \<open>Acknowledgements\<close>

datatype AckPolicy = Required | Advisory

record AckOptions =
  opt_timeout :: Duration
  opt_policy :: AckPolicy

definition ack_options_default :: AckOptions where
  "ack_options_default = \<lparr>opt_timeout = 30000, opt_policy = Required\<rparr>"

datatype Ack = AckOk | AckDegraded string | AckRejected string | AckFailed anyhow

datatype AckStatus =
    Acked
  | Degraded string
  | Rejected string
  | Failed anyhow
  | TimedOut
  | SkippedShutdown

fun ack_status_of :: "Ack \<Rightarrow> AckStatus" where
  "ack_status_of AckOk = Acked"
| "ack_status_of (AckDegraded m) = Degraded m"
| "ack_status_of (AckRejected m) = Rejected m"
| "ack_status_of (AckFailed e) = Failed e"

record SubscriberAck =
  sa_name :: string
  sa_policy :: AckPolicy
  sa_timeout :: Duration
  sa_elapsed :: Duration
  sa_status :: AckStatus

fun is_failure_status :: "AckStatus \<Rightarrow> bool" where
  "is_failure_status (Rejected r) = True"
| "is_failure_status (Failed e) = True"
| "is_failure_status TimedOut = True"
| "is_failure_status _ = False"

definition is_required_failure :: "SubscriberAck \<Rightarrow> bool" where
  "is_required_failure a = (sa_policy a = Required \<and> is_failure_status (sa_status a))"

record PrepareReport =
  subscriber_acks :: "SubscriberAck list"

definition report_push :: "PrepareReport \<Rightarrow> SubscriberAck \<Rightarrow> PrepareReport" where
  "report_push r a = r\<lparr>subscriber_acks := subscriber_acks r @ [a]\<rparr>"

definition has_required_failures :: "PrepareReport \<Rightarrow> bool" where
  "has_required_failures r = list_ex is_required_failure (subscriber_acks r)"

definition has_advisory_failures :: "PrepareReport \<Rightarrow> bool" where
  "has_advisory_failures r =
     list_ex (\<lambda>a. sa_policy a = Advisory \<and> is_failure_status (sa_status a)) (subscriber_acks r)"

fun is_degraded_status :: "AckStatus \<Rightarrow> bool" where
  "is_degraded_status (Degraded m) = True"
| "is_degraded_status _ = False"

definition is_degraded :: "PrepareReport \<Rightarrow> bool" where
  "is_degraded r = list_ex (\<lambda>a. is_degraded_status (sa_status a)) (subscriber_acks r)"

datatype SubscriberFailureKind = FailRejected string | FailFailed anyhow | FailTimedOut

record SubscriberFailure =
  sf_name :: string
  sf_kind :: SubscriberFailureKind

datatype RollbackReason =
    Timeout
  | SubscriberFailed "SubscriberFailure list"
  | CoordinatorError anyhow
  | StoreStateCasMismatch Version Version

section \<open>Errors\<close>

datatype StateChangedError =
    Validation anyhow
  | PrepareAck PrepareReport
  | StateCasMismatch Version Version

fun is_precommit :: "StateChangedError \<Rightarrow> bool" where
  "is_precommit (PrepareAck r) = True"
| "is_precommit _ = False"

datatype UpsertError = UpsertState StateChangedError | WriteConfig anyhow

fun upsert_is_precommit :: "UpsertError \<Rightarrow> bool" where
  "upsert_is_precommit (UpsertState e) = is_precommit e"
| "upsert_is_precommit (WriteConfig e) = False"

datatype 'e WithEffectError =
    EffectState StateChangedError
  | Effect 'e
  | EffectTimedOut Duration

section \<open>Lemmas\<close>

definition version_nat :: "Version \<Rightarrow> nat" where
  "version_nat v = unat (version_raw v)"

abbreviation version_limit :: nat where
  "version_limit \<equiv> 2 ^ 64"

lemma version_nat_less: "version_nat v < version_limit"
  using unsigned_less [of "version_raw v"] by (simp add: version_nat_def)

lemma unat_max_u64: "unat (- 1 :: u64) = version_limit - 1"
  by (simp add: unsigned_minus_1_eq_mask mask_eq_exp_minus_1)

lemma version_next_None: "(version_next v = None) = (Suc (version_nat v) = version_limit)"
proof -
  have "(version_raw v = - 1) = (unat (version_raw v) = version_limit - 1)"
    using unat_max_u64 by (metis unsigned_word_eqI)
  then show ?thesis
    using version_nat_less [of v] by (auto simp: version_next_def version_nat_def)
qed

lemma version_next_Some:
  assumes "version_next v = Some v'"
  shows "version_nat v' = Suc (version_nat v)"
proof -
  from assms have ne: "version_raw v \<noteq> - 1" and v': "v' = Version (version_raw v + 1)"
    by (auto simp: version_next_def split: if_splits)
  then have "Suc (version_nat v) \<noteq> version_limit"
    using version_next_None [of v] assms by auto
  with version_nat_less [of v] have "Suc (unat (version_raw v)) < version_limit"
    by (simp add: version_nat_def)
  then show ?thesis
    by (simp add: v' version_nat_def unat_word_ariths)
qed

lemma version_next_ok: "Suc (version_nat v) < version_limit \<Longrightarrow> \<exists>v'. version_next v = Some v'"
  using version_next_None [of v] by auto

lemma version_nat_inject: "(version_nat v = version_nat v') = (v = v')"
  by (cases v; cases v') (auto simp: version_nat_def intro: unsigned_word_eqI)

lemma version_next_inject:
  "version_next v = Some w \<Longrightarrow> version_next v' = Some w \<Longrightarrow> v = v'"
  using version_next_Some [of v w] version_next_Some [of v' w] version_nat_inject by fastforce

lemma change_id_next_Some:
  "(change_id_next i = Some j) = (version_next (change_version i) = Some (change_version j))"
  by (cases j) (auto simp: change_id_next_def)

text \<open>Required and advisory failures partition the failing acknowledgements.\<close>

lemma has_required_failures_filter:
  "has_required_failures r = (filter is_required_failure (subscriber_acks r) \<noteq> [])"
  by (simp add: has_required_failures_def filter_empty_conv list_ex_iff)

lemma failing_ack_policy:
  "list_ex (\<lambda>a. is_failure_status (sa_status a)) (subscriber_acks r) =
     (has_required_failures r \<or> has_advisory_failures r)"
proof -
  have "is_failure_status (sa_status a) =
      (is_required_failure a \<or> (sa_policy a = Advisory \<and> is_failure_status (sa_status a)))" for a
    by (cases "sa_policy a") (auto simp: is_required_failure_def)
  then show ?thesis
    unfolding has_required_failures_def has_advisory_failures_def list_ex_iff by blast
qed

end
