(* ===== verification/State_Notify.thy ===== *)
theory State_Notify
  imports State_Ack
begin

text \<open>
  Dispatching a state change to its subscribers (\<^verbatim>\<open>state/transaction/notify.rs\<close>, and the
  subscriber trait of \<^verbatim>\<open>state/ack.rs\<close>).

  A subscriber is code outside the coordinator: a record of the functions its trait has. Its
  hooks are asynchronous, so a hook gives a \<open>future\<close>: it is ready after some time with some
  value, or never. Whether a subscriber reports itself shut down may differ between the phases
  of one transaction.

  In the parallel strategy every subscriber gets a task of its own. The runtime decides when
  each task completes and whether joining it fails (a panicked or cancelled task); a
  \<open>schedule\<close> is one such decision, and the theorems quantify over all of them. Every hook call
  leaves an event, in dispatch order.
\<close>

section \<open>Subscribers\<close>

datatype 'a future = Ready Duration 'a | Pending

text \<open>\<^verbatim>\<open>tokio::time::timeout\<close>: the future is polled before the deadline is.\<close>

fun timeout :: "Duration \<Rightarrow> 'a future \<Rightarrow> 'a option" where
  "timeout t (Ready d v) = (if d \<le> t then Some v else None)"
| "timeout t Pending = None"

fun elapsed :: "Duration \<Rightarrow> 'a future \<Rightarrow> Duration" where
  "elapsed t (Ready d v) = min d t"
| "elapsed t Pending = t"

datatype phase = PreparePhase | CommittedPhase | RolledBackPhase

record 'T Subscriber =
  sub_name :: string
  sub_ack_options :: AckOptions
  sub_is_shutdown :: "phase \<Rightarrow> bool"
  sub_on_prepare :: "'T StateChange \<Rightarrow> Ack future"
  sub_on_committed :: "'T StateChange \<Rightarrow> Ack future"
  sub_on_rolled_back :: "'T StateChange \<Rightarrow> RollbackReason \<Rightarrow> unit future"

datatype 'T event =
    PermitAcquired
  | PermitReleased
  | PrepareSent string "'T StateChange"
  | CommittedSent string "'T StateChange"
  | RolledBackSent string "'T StateChange" RollbackReason
  | Stored Version
  | EffectRun
  | RecoveryRun

datatype NotifyStrategy = Parallel | Sequential

record schedule =
  completes_at :: "nat \<Rightarrow> nat"
  join_error :: "nat \<Rightarrow> bool"

section \<open>One subscriber\<close>

definition notify_one_prepare ::
    "'T StateChange \<Rightarrow> 'T Subscriber \<Rightarrow> SubscriberAck \<times> 'T event list" where
  "notify_one_prepare change s =
     (let opt = sub_ack_options s in
      if sub_is_shutdown s PreparePhase then
        (\<lparr>sa_name = sub_name s, sa_policy = opt_policy opt, sa_timeout = opt_timeout opt,
          sa_elapsed = 0, sa_status = SkippedShutdown\<rparr>, [])
      else
        let reply = sub_on_prepare s change;
            status = (case timeout (opt_timeout opt) reply of
                        Some AckOk \<Rightarrow> Acked
                      | Some (AckDegraded m) \<Rightarrow> Degraded m
                      | Some (AckRejected r) \<Rightarrow> Rejected r
                      | Some (AckFailed e) \<Rightarrow> Failed e
                      | None \<Rightarrow> TimedOut)
        in (\<lparr>sa_name = sub_name s, sa_policy = opt_policy opt, sa_timeout = opt_timeout opt,
             sa_elapsed = elapsed (opt_timeout opt) reply, sa_status = status\<rparr>,
            [PrepareSent (sub_name s) change]))"

text \<open>The reply of a post-commit hook is only logged, in every case.\<close>

definition notify_one_committed :: "'T StateChange \<Rightarrow> 'T Subscriber \<Rightarrow> 'T event list" where
  "notify_one_committed change s =
     (if sub_is_shutdown s CommittedPhase then [] else [CommittedSent (sub_name s) change])"

definition notify_one_rolled_back ::
    "'T StateChange \<Rightarrow> RollbackReason \<Rightarrow> 'T Subscriber \<Rightarrow> 'T event list" where
  "notify_one_rolled_back change reason s =
     (if sub_is_shutdown s RolledBackPhase then []
      else [RolledBackSent (sub_name s) change reason])"

section \<open>All subscribers\<close>

definition usize_max :: nat where
  "usize_max = 2 ^ 64 - 1"

definition join_failure_ack :: SubscriberAck where
  "join_failure_ack =
     \<lparr>sa_name = ''<notify task join failure>'', sa_policy = Required, sa_timeout = 0,
      sa_elapsed = 0, sa_status = Failed ''failed to join notify task''\<rparr>"

text \<open>What joining task \<open>i\<close> pushes: the indexed acknowledgement, or a failure at the end.\<close>

definition join_result ::
    "schedule \<Rightarrow> 'T StateChange \<Rightarrow> 'T Subscriber list \<Rightarrow> nat \<Rightarrow> nat \<times> SubscriberAck" where
  "join_result sch change subs i =
     (if join_error sch i then (usize_max, join_failure_ack)
      else (i, fst (notify_one_prepare change (subs ! i))))"

definition notify_all_prepare_parallel ::
    "schedule \<Rightarrow> 'T StateChange \<Rightarrow> 'T Subscriber list \<Rightarrow> SubscriberAck list \<times> 'T event list" where
  "notify_all_prepare_parallel sch change subs =
     (let completed = sort_key (completes_at sch) [0..<length subs];
          acks = map (join_result sch change subs) completed
      in (map snd (sort_key fst acks), concat (map (snd \<circ> notify_one_prepare change) subs)))"

fun notify_all_prepare_sequential ::
    "'T StateChange \<Rightarrow> 'T Subscriber list \<Rightarrow> SubscriberAck list \<times> 'T event list" where
  "notify_all_prepare_sequential change [] = ([], [])"
| "notify_all_prepare_sequential change (s # ss) =
     (let (ack, ev) = notify_one_prepare change s in
      if is_required_failure ack then ([ack], ev)
      else let (acks, evs) = notify_all_prepare_sequential change ss in (ack # acks, ev @ evs))"

definition notify_all_committed_parallel ::
    "'T StateChange \<Rightarrow> 'T Subscriber list \<Rightarrow> 'T event list" where
  "notify_all_committed_parallel change subs = concat (map (notify_one_committed change) subs)"

fun notify_all_committed_sequential ::
    "'T StateChange \<Rightarrow> 'T Subscriber list \<Rightarrow> 'T event list" where
  "notify_all_committed_sequential change [] = []"
| "notify_all_committed_sequential change (s # ss) =
     notify_one_committed change s @ notify_all_committed_sequential change ss"

definition notify_all_rolled_back_parallel ::
    "'T StateChange \<Rightarrow> RollbackReason \<Rightarrow> 'T Subscriber list \<Rightarrow> 'T event list" where
  "notify_all_rolled_back_parallel change reason subs =
     concat (map (notify_one_rolled_back change reason) subs)"

fun notify_all_rolled_back_sequential ::
    "'T StateChange \<Rightarrow> RollbackReason \<Rightarrow> 'T Subscriber list \<Rightarrow> 'T event list" where
  "notify_all_rolled_back_sequential change reason [] = []"
| "notify_all_rolled_back_sequential change reason (s # ss) =
     notify_one_rolled_back change reason s @ notify_all_rolled_back_sequential change reason ss"

section \<open>Lemmas\<close>

lemma notify_one_prepare_name [simp]:
  "sa_name (fst (notify_one_prepare change s)) = sub_name s"
  by (simp add: notify_one_prepare_def Let_def)

lemma notify_one_prepare_skipped:
  "(sa_status (fst (notify_one_prepare change s)) = SkippedShutdown) = sub_is_shutdown s PreparePhase"
  by (simp add: notify_one_prepare_def Let_def split: option.splits Ack.splits)

lemma notify_one_prepare_events:
  "snd (notify_one_prepare change s) =
     (if sub_is_shutdown s PreparePhase then [] else [PrepareSent (sub_name s) change])"
  by (simp add: notify_one_prepare_def Let_def)

lemma committed_sequential_eq:
  "notify_all_committed_sequential change subs = notify_all_committed_parallel change subs"
  by (induction subs) (auto simp: notify_all_committed_parallel_def)

lemma rolled_back_sequential_eq:
  "notify_all_rolled_back_sequential change reason subs =
     notify_all_rolled_back_parallel change reason subs"
  by (induction subs) (auto simp: notify_all_rolled_back_parallel_def)

text \<open>The order in which the tasks of the parallel strategy complete does not show: joined
  acknowledgements come out in subscriber order, failures to join after them.\<close>

definition joined_in_order ::
    "schedule \<Rightarrow> 'T StateChange \<Rightarrow> 'T Subscriber list \<Rightarrow> (nat \<times> SubscriberAck) list" where
  "joined_in_order sch change subs =
     map (join_result sch change subs) (filter (\<lambda>i. \<not> join_error sch i) [0..<length subs]) @
     map (join_result sch change subs) (filter (join_error sch) [0..<length subs])"

lemma mset_joined_in_order:
  "mset (joined_in_order sch change subs) =
     mset (map (join_result sch change subs) [0..<length subs])"
proof -
  have "mset xs = mset (filter (\<lambda>i. \<not> join_error sch i) xs @ filter (join_error sch) xs)" for xs
    by (induction xs) auto
  then show ?thesis
    unfolding joined_in_order_def map_append [symmetric] by (metis mset_map)
qed

lemma sorted_joined_in_order:
  assumes "length subs < usize_max"
  shows "sorted (map fst (joined_in_order sch change subs))"
proof -
  have keys: "map fst (joined_in_order sch change subs) =
      filter (\<lambda>i. \<not> join_error sch i) [0..<length subs] @
      map (\<lambda>_. usize_max) (filter (join_error sch) [0..<length subs])"
    by (auto simp: joined_in_order_def join_result_def intro: map_idI)
  have "sorted (map (\<lambda>_. usize_max) xs)" for xs :: "nat list"
    by (induction xs) auto
  with assms show ?thesis
    unfolding keys by (auto simp: sorted_append sorted_wrt_filter)
qed

lemma join_result_class:
  assumes "length subs < usize_max" and "i < length subs" and "j < length subs"
    and "fst (join_result sch change subs i) = fst (join_result sch change subs j)"
  shows "join_result sch change subs i = join_result sch change subs j"
  using assms by (auto simp: join_result_def split: if_splits)

lemma parallel_joined:
  assumes "length subs < usize_max"
  shows "fst (notify_all_prepare_parallel sch change subs) =
    map snd (joined_in_order sch change subs)"
proof -
  let ?f = "join_result sch change subs"
  let ?xs = "map ?f (sort_key (completes_at sch) [0..<length subs])"
  let ?ys = "joined_in_order sch change subs"
  have ms: "mset ?ys = mset ?xs"
    by (simp add: mset_joined_in_order)
  have "sort_key fst ?xs = ?ys"
  proof (rule properties_for_sort_key)
    show "mset ?ys = mset ?xs" by (rule ms)
    show "sorted (map fst ?ys)" using assms by (rule sorted_joined_in_order)
    fix k assume k: "k \<in> set ?ys"
    then obtain i where i: "i < length subs" "k = ?f i"
      by (auto simp: joined_in_order_def)
    show "filter (\<lambda>x. fst k = fst x) ?ys = filter (\<lambda>x. fst k = fst x) ?xs"
    proof (rule filter_mset_const [OF ms, where e = k])
      fix x assume "x \<in> set ?ys" and "fst k = fst x"
      then obtain j where "j < length subs" "x = ?f j" by (auto simp: joined_in_order_def)
      with i assms \<open>fst k = fst x\<close> show "x = k" using join_result_class by metis
    qed
  qed
  then show ?thesis by (simp add: notify_all_prepare_parallel_def Let_def)
qed

lemma parallel_no_join_errors:
  assumes "length subs < usize_max" and "\<And>i. i < length subs \<Longrightarrow> \<not> join_error sch i"
  shows "fst (notify_all_prepare_parallel sch change subs) =
    map (fst \<circ> notify_one_prepare change) subs"
proof -
  have "joined_in_order sch change subs = map (join_result sch change subs) [0..<length subs]"
    using assms(2) by (simp add: joined_in_order_def filter_id_conv filter_empty_conv)
  also have "map snd \<dots> = map (fst \<circ> notify_one_prepare change) subs"
    using assms(2) by (auto simp: join_result_def intro: nth_equalityI)
  finally show ?thesis using assms(1) by (simp add: parallel_joined)
qed

text \<open>The sequential strategy asks a prefix of the subscribers: up to the first required failure.\<close>

lemma sequential_acks:
  "fst (notify_all_prepare_sequential change subs) =
     (let acks = map (fst \<circ> notify_one_prepare change) subs in
      take (Suc (length (takeWhile (\<lambda>a. \<not> is_required_failure a) acks))) acks)"
  by (induction subs) (auto simp: Let_def split: prod.splits)

lemma sequential_failure_iff:
  "list_ex is_required_failure (fst (notify_all_prepare_sequential change subs)) =
     list_ex is_required_failure (map (fst \<circ> notify_one_prepare change) subs)"
  by (induction subs) (auto simp: Let_def split: prod.splits)

lemma sequential_no_failure:
  "\<not> list_ex is_required_failure (fst (notify_all_prepare_sequential change subs)) \<Longrightarrow>
   notify_all_prepare_sequential change subs =
     (map (fst \<circ> notify_one_prepare change) subs,
      concat (map (snd \<circ> notify_one_prepare change) subs))"
  by (induction subs) (auto simp: Let_def split: prod.splits if_splits)

lemma sequential_prefix:
  "\<exists>n. notify_all_prepare_sequential change subs =
     (map (fst \<circ> notify_one_prepare change) (take n subs),
      concat (map (snd \<circ> notify_one_prepare change) (take n subs)))"
proof (induction subs)
  case Nil
  then show ?case by simp
next
  case (Cons s ss)
  then obtain n where n: "notify_all_prepare_sequential change ss =
     (map (fst \<circ> notify_one_prepare change) (take n ss),
      concat (map (snd \<circ> notify_one_prepare change) (take n ss)))" by blast
  show ?case
  proof (cases "is_required_failure (fst (notify_one_prepare change s))")
    case True
    then show ?thesis by (intro exI [of _ 1]) (auto simp: Let_def split: prod.splits)
  next
    case False
    with n show ?thesis by (intro exI [of _ "Suc n"]) (auto simp: Let_def comp_def split: prod.splits)
  qed
qed

end
