(* ===== verification/State_Transaction.thy ===== *)
theory State_Transaction
  imports State_Notify
begin

text \<open>
  The two-phase transaction of \<^verbatim>\<open>nyanpasu-core\<close> (\<^verbatim>\<open>state/transaction.rs\<close>): a pending change is
  prepared (every subscriber acknowledges it), then committed with a compare-and-swap on the
  store, or rolled back.

  The \<open>World\<close> is what transactions share: the published \<^verbatim>\<open>Arc\<close> in the \<^verbatim>\<open>ArcSwap\<close>, the supply of
  fresh allocations, the writer semaphore and the trace of what happened. The typestate parameter
  of \<^verbatim>\<open>StateTransaction\<close> (Pending, Prepared, Committed, RolledBack) selects the functions that apply
  to a transaction and has no run-time content.
\<close>

section \<open>Definitions\<close>

record 'T World =
  w_store :: "'T arc"
  w_fresh :: nat
  w_permits :: nat
  w_trace :: "'T event list"

record 'T RollbackGuardData =
  guard_change :: "'T StateChange"
  guard_subscribers :: "'T Subscriber list"
  guard_strategy :: NotifyStrategy

record 'T StateTransaction =
  tx_change :: "'T StateChange"
  tx_subscribers :: "'T Subscriber list"
  tx_strategy :: NotifyStrategy
  tx_guard :: "'T RollbackGuardData option"
  tx_permit :: bool

definition emit :: "'T event list \<Rightarrow> 'T World \<Rightarrow> 'T World" where
  "emit evs w = w\<lparr>w_trace := w_trace w @ evs\<rparr>"

text \<open>The semaphore: \<open>None\<close> is a writer that waits.\<close>

definition acquire :: "'T World \<Rightarrow> 'T World option" where
  "acquire w =
     (if w_permits w = 0 then None
      else Some (emit [PermitAcquired] (w\<lparr>w_permits := w_permits w - 1\<rparr>)))"

definition release :: "'T World \<Rightarrow> 'T World" where
  "release w = emit [PermitReleased] (w\<lparr>w_permits := Suc (w_permits w)\<rparr>)"

text \<open>\<^verbatim>\<open>drop(self.permit.take())\<close>\<close>

definition drop_permit :: "'T World \<Rightarrow> 'T StateTransaction \<Rightarrow> 'T World \<times> 'T StateTransaction" where
  "drop_permit w tx =
     (if tx_permit tx then (release w, tx\<lparr>tx_permit := False\<rparr>) else (w, tx))"

definition new_transaction ::
    "'T StateChange \<Rightarrow> 'T Subscriber list \<Rightarrow> NotifyStrategy \<Rightarrow> 'T StateTransaction" where
  "new_transaction change subs strategy =
     \<lparr>tx_change = change, tx_subscribers = subs, tx_strategy = strategy,
      tx_guard = None, tx_permit = True\<rparr>"

definition guard_arm :: "'T StateTransaction \<Rightarrow> 'T StateTransaction" where
  "guard_arm tx =
     tx\<lparr>tx_guard := Some \<lparr>guard_change = tx_change tx, guard_subscribers = tx_subscribers tx,
                         guard_strategy = tx_strategy tx\<rparr>\<rparr>"

definition guard_update_change :: "'T StateTransaction \<Rightarrow> 'T StateTransaction" where
  "guard_update_change tx =
     tx\<lparr>tx_guard := map_option (\<lambda>g. g\<lparr>guard_change := tx_change tx\<rparr>) (tx_guard tx)\<rparr>"

definition guard_update_subscribers :: "'T StateTransaction \<Rightarrow> 'T StateTransaction" where
  "guard_update_subscribers tx =
     tx\<lparr>tx_guard := map_option (\<lambda>g. g\<lparr>guard_subscribers := tx_subscribers tx\<rparr>) (tx_guard tx)\<rparr>"

definition guard_disarm :: "'T StateTransaction \<Rightarrow> 'T StateTransaction" where
  "guard_disarm tx = tx\<lparr>tx_guard := None\<rparr>"

definition notify_rollback ::
    "'T World \<Rightarrow> 'T StateChange \<Rightarrow> 'T Subscriber list \<Rightarrow> NotifyStrategy \<Rightarrow> RollbackReason \<Rightarrow> 'T World" where
  "notify_rollback w change subs strategy reason =
     emit (case strategy of
             Parallel \<Rightarrow> notify_all_rolled_back_parallel change reason subs
           | Sequential \<Rightarrow> notify_all_rolled_back_sequential change reason subs) w"

definition dropped_reason :: RollbackReason where
  "dropped_reason =
     CoordinatorError ''state transaction dropped before commit or rollback completed''"

definition guard_drop :: "'T World \<Rightarrow> 'T StateTransaction \<Rightarrow> 'T World" where
  "guard_drop w tx =
     (case tx_guard tx of
        None \<Rightarrow> w
      | Some g \<Rightarrow> notify_rollback w (guard_change g) (guard_subscribers g) (guard_strategy g)
                    dropped_reason)"

text \<open>Dropping a whole transaction (a cancelled future): Rust drops the fields in declaration
  order, so the guard runs before the permit is released.\<close>

definition tx_drop :: "'T World \<Rightarrow> 'T StateTransaction \<Rightarrow> 'T World" where
  "tx_drop w tx = fst (drop_permit (guard_drop w tx) tx)"

definition rollback ::
    "'T World \<Rightarrow> 'T StateTransaction \<Rightarrow> RollbackReason \<Rightarrow> 'T World \<times> 'T StateTransaction" where
  "rollback w tx reason =
     (let (w1, tx1) = drop_permit w tx;
          w2 = notify_rollback w1 (tx_change tx1) (tx_subscribers tx1) (tx_strategy tx1) reason
      in (w2, (guard_disarm tx1)\<lparr>tx_permit := False\<rparr>))"

definition tx_upsert_state :: "'T StateTransaction \<Rightarrow> 'T \<Rightarrow> 'T StateTransaction" where
  "tx_upsert_state tx s =
     guard_update_change (tx\<lparr>tx_change := (tx_change tx)\<lparr>change_current := s\<rparr>\<rparr>)"

text \<open>\<open>None\<close> is the arm the source marks \<^verbatim>\<open>unreachable!()\<close>.\<close>

fun failure_kind :: "AckStatus \<Rightarrow> SubscriberFailureKind option" where
  "failure_kind (Rejected r) = Some (FailRejected r)"
| "failure_kind (Failed e) = Some (FailFailed e)"
| "failure_kind TimedOut = Some FailTimedOut"
| "failure_kind _ = None"

definition failure_of :: "SubscriberAck \<Rightarrow> SubscriberFailure option" where
  "failure_of a = map_option (\<lambda>k. \<lparr>sf_name = sa_name a, sf_kind = k\<rparr>) (failure_kind (sa_status a))"

definition retain_live :: "SubscriberAck list \<Rightarrow> 'T Subscriber list \<Rightarrow> 'T Subscriber list" where
  "retain_live acks subs =
     fold (\<lambda>a ss. if sa_status a = SkippedShutdown
                  then filter (\<lambda>s. sub_name s \<noteq> sa_name a) ss else ss) acks subs"

definition retain_acked :: "SubscriberAck list \<Rightarrow> 'T Subscriber list \<Rightarrow> 'T Subscriber list" where
  "retain_acked acks subs = filter (\<lambda>s. list_ex (\<lambda>a. sa_name a = sub_name s) acks) subs"

definition prepare ::
    "schedule \<Rightarrow> 'T World \<Rightarrow> 'T StateTransaction \<Rightarrow>
     'T World \<times> ((PrepareReport \<times> 'T StateTransaction) + (PrepareReport \<times> 'T StateTransaction))" where
  "prepare sch w tx =
     (let tx1 = guard_arm tx;
          (acks, evs) = (case tx_strategy tx1 of
              Parallel \<Rightarrow> notify_all_prepare_parallel sch (tx_change tx1) (tx_subscribers tx1)
            | Sequential \<Rightarrow> notify_all_prepare_sequential (tx_change tx1) (tx_subscribers tx1));
          w1 = emit evs w;
          tx2 = guard_update_subscribers
                  (tx1\<lparr>tx_subscribers := retain_live acks (tx_subscribers tx1)\<rparr>);
          failed_acks = filter is_required_failure acks
      in if failed_acks \<noteq> [] then
           let tx3 = (if tx_strategy tx2 = Sequential
                      then guard_update_subscribers
                             (tx2\<lparr>tx_subscribers := retain_acked acks (tx_subscribers tx2)\<rparr>)
                      else tx2);
               (w2, tx4) = rollback w1 tx3 (SubscriberFailed (List.map_filter failure_of failed_acks))
           in (w2, Inl (\<lparr>subscriber_acks = acks\<rparr>, tx4))
         else (w1, Inr (\<lparr>subscriber_acks = acks\<rparr>, tx2)))"

record 'T CommitCasMismatch =
  mm_tx :: "'T StateTransaction"
  mm_expected :: Version
  mm_actual :: Version

definition install :: "'T VersionedState \<Rightarrow> 'T World \<Rightarrow> 'T World" where
  "install vs w =
     emit [Stored (vs_version vs)]
       (w\<lparr>w_store := \<lparr>arc_ptr = w_fresh w, arc_val = vs\<rparr>, w_fresh := Suc (w_fresh w)\<rparr>)"

definition try_commit ::
    "'T World \<Rightarrow> 'T StateTransaction \<Rightarrow> 'T World \<times> ('T CommitCasMismatch + 'T StateTransaction)" where
  "try_commit w tx =
     (let vs = \<lparr>vs_version = change_version (change_id (tx_change tx)),
                vs_state = change_current (tx_change tx)\<rparr>;
          done = (\<lambda>w'. let (w'', tx') = drop_permit w' (guard_disarm tx) in (w'', Inr tx'))
      in case change_previous (tx_change tx) of
           Some prev \<Rightarrow>
             if arc_ptr (w_store w) = arc_ptr prev then done (install vs w)
             else (w\<lparr>w_fresh := Suc (w_fresh w)\<rparr>,
                   Inl \<lparr>mm_tx = tx, mm_expected = vs_version (arc_val prev),
                        mm_actual = vs_version (arc_val (w_store w))\<rparr>)
         | None \<Rightarrow> done (install vs w))"

definition notify_committed :: "'T World \<Rightarrow> 'T StateTransaction \<Rightarrow> 'T World" where
  "notify_committed w tx =
     emit (case tx_strategy tx of
             Parallel \<Rightarrow> notify_all_committed_parallel (tx_change tx) (tx_subscribers tx)
           | Sequential \<Rightarrow> notify_all_committed_sequential (tx_change tx) (tx_subscribers tx)) w"

definition mismatch_reason :: "'T CommitCasMismatch \<Rightarrow> RollbackReason" where
  "mismatch_reason m = StoreStateCasMismatch (mm_expected m) (mm_actual m)"

definition mismatch_notify_rollback :: "'T World \<Rightarrow> 'T CommitCasMismatch \<Rightarrow> 'T World" where
  "mismatch_notify_rollback w m = fst (rollback w (mm_tx m) (mismatch_reason m))"

text \<open>Committing a prepared transaction.\<close>

definition commit ::
    "'T World \<Rightarrow> 'T StateTransaction \<Rightarrow> 'T World \<times> ('T StateTransaction + 'T StateTransaction)" where
  "commit w tx =
     (case try_commit w tx of
        (w1, Inr tx1) \<Rightarrow> (notify_committed w1 tx1, Inr tx1)
      | (w1, Inl m) \<Rightarrow> (let (w2, tx2) = rollback w1 (mm_tx m) (mismatch_reason m) in (w2, Inl tx2)))"

text \<open>Committing a pending transaction: prepare it first.\<close>

definition commit_pending ::
    "schedule \<Rightarrow> 'T World \<Rightarrow> 'T StateTransaction \<Rightarrow>
     'T World \<times> ((PrepareReport option \<times> 'T StateTransaction) + (PrepareReport \<times> 'T StateTransaction))" where
  "commit_pending sch w tx =
     (case prepare sch w tx of
        (w1, Inr (report, tx1)) \<Rightarrow>
          (case commit w1 tx1 of
             (w2, Inr tx2) \<Rightarrow> (w2, Inr (report, tx2))
           | (w2, Inl tx2) \<Rightarrow> (w2, Inl (None, tx2)))
      | (w1, Inl (report, tx1)) \<Rightarrow> (w1, Inl (Some report, tx1)))"

section \<open>Lemmas\<close>

lemma emit_simps [simp]:
  "w_store (emit evs w) = w_store w"
  "w_fresh (emit evs w) = w_fresh w"
  "w_permits (emit evs w) = w_permits w"
  "w_trace (emit evs w) = w_trace w @ evs"
  by (simp_all add: emit_def)

lemma release_simps [simp]:
  "w_store (release w) = w_store w"
  "w_fresh (release w) = w_fresh w"
  "w_permits (release w) = Suc (w_permits w)"
  "w_trace (release w) = w_trace w @ [PermitReleased]"
  by (simp_all add: release_def)

lemma install_simps [simp]:
  "w_store (install vs w) = \<lparr>arc_ptr = w_fresh w, arc_val = vs\<rparr>"
  "w_fresh (install vs w) = Suc (w_fresh w)"
  "w_permits (install vs w) = w_permits w"
  "w_trace (install vs w) = w_trace w @ [Stored (vs_version vs)]"
  by (simp_all add: install_def)

text \<open>The names a transaction reaches in each phase.\<close>

definition live_in :: "phase \<Rightarrow> 'T Subscriber list \<Rightarrow> 'T Subscriber list" where
  "live_in p subs = filter (\<lambda>s. \<not> sub_is_shutdown s p) subs"

lemma prepare_events_live:
  "concat (map (snd \<circ> notify_one_prepare change) subs) =
     map (\<lambda>s. PrepareSent (sub_name s) change) (live_in PreparePhase subs)"
  by (induction subs) (auto simp: live_in_def notify_one_prepare_events)

lemma committed_events_live:
  "notify_all_committed_parallel change subs =
     map (\<lambda>s. CommittedSent (sub_name s) change) (live_in CommittedPhase subs)"
  unfolding notify_all_committed_parallel_def
  by (induction subs) (auto simp: live_in_def notify_one_committed_def)

lemma rolled_back_events_live:
  "notify_all_rolled_back_parallel change reason subs =
     map (\<lambda>s. RolledBackSent (sub_name s) change reason) (live_in RolledBackPhase subs)"
  unfolding notify_all_rolled_back_parallel_def
  by (induction subs) (auto simp: live_in_def notify_one_rolled_back_def)

lemma notify_rollback_eq:
  "notify_rollback w change subs strategy reason =
     emit (map (\<lambda>s. RolledBackSent (sub_name s) change reason) (live_in RolledBackPhase subs)) w"
  by (cases strategy)
    (simp_all add: notify_rollback_def rolled_back_sequential_eq rolled_back_events_live)

lemma notify_committed_eq:
  "notify_committed w tx =
     emit (map (\<lambda>s. CommittedSent (sub_name s) (tx_change tx))
             (live_in CommittedPhase (tx_subscribers tx))) w"
  by (cases "tx_strategy tx")
    (simp_all add: notify_committed_def committed_sequential_eq committed_events_live)

lemma rollback_eq:
  "rollback w tx reason =
     (emit (map (\<lambda>s. RolledBackSent (sub_name s) (tx_change tx) reason)
              (live_in RolledBackPhase (tx_subscribers tx)))
        (if tx_permit tx then release w else w),
      tx\<lparr>tx_guard := None, tx_permit := False\<rparr>)"
  by (simp add: rollback_def drop_permit_def notify_rollback_eq guard_disarm_def Let_def)

text \<open>No acknowledgement reaches the arm marked \<^verbatim>\<open>unreachable!()\<close>.\<close>

lemma failure_of_required: "is_required_failure a \<Longrightarrow> failure_of a \<noteq> None"
  by (cases "sa_status a") (auto simp: is_required_failure_def failure_of_def)

definition retained_names :: "SubscriberAck list \<Rightarrow> string set" where
  "retained_names acks = {n. \<exists>a \<in> set acks. sa_status a = SkippedShutdown \<and> sa_name a = n}"

lemma retain_live_eq:
  "retain_live acks subs = filter (\<lambda>s. sub_name s \<notin> retained_names acks) subs"
proof (induction acks arbitrary: subs)
  case Nil
  then show ?case by (simp add: retain_live_def retained_names_def)
next
  case (Cons a acks)
  have names: "retained_names (a # acks) =
      (if sa_status a = SkippedShutdown then insert (sa_name a) (retained_names acks)
       else retained_names acks)"
    by (auto simp: retained_names_def)
  show ?case
  proof (cases "sa_status a = SkippedShutdown")
    case True
    then have "retain_live (a # acks) subs =
        retain_live acks (filter (\<lambda>s. sub_name s \<noteq> sa_name a) subs)"
      by (simp add: retain_live_def)
    with Cons.IH True names show ?thesis by (auto intro: filter_cong)
  next
    case False
    then have "retain_live (a # acks) subs = retain_live acks subs"
      by (simp add: retain_live_def)
    with Cons.IH False names show ?thesis by simp
  qed
qed

text \<open>The acknowledgement round of a transaction, whatever its strategy.\<close>

definition prepare_round ::
    "schedule \<Rightarrow> NotifyStrategy \<Rightarrow> 'T StateChange \<Rightarrow> 'T Subscriber list \<Rightarrow>
     SubscriberAck list \<times> 'T event list" where
  "prepare_round sch strategy change subs =
     (case strategy of
        Parallel \<Rightarrow> notify_all_prepare_parallel sch change subs
      | Sequential \<Rightarrow> notify_all_prepare_sequential change subs)"

abbreviation round_fails :: "SubscriberAck list \<Rightarrow> bool" where
  "round_fails acks \<equiv> list_ex is_required_failure acks"

lemma round_fails_filter: "(filter is_required_failure acks = []) = (\<not> round_fails acks)"
  by (simp add: filter_empty_conv list_ex_iff)

text \<open>What a prepared transaction looks like, and what a refused one leaves behind.\<close>

definition prepared_tx :: "SubscriberAck list \<Rightarrow> 'T StateTransaction \<Rightarrow> 'T StateTransaction" where
  "prepared_tx acks tx =
     tx\<lparr>tx_subscribers := retain_live acks (tx_subscribers tx),
        tx_guard := Some \<lparr>guard_change = tx_change tx,
                         guard_subscribers = retain_live acks (tx_subscribers tx),
                         guard_strategy = tx_strategy tx\<rparr>\<rparr>"

definition rollback_targets ::
    "NotifyStrategy \<Rightarrow> SubscriberAck list \<Rightarrow> 'T Subscriber list \<Rightarrow> 'T Subscriber list" where
  "rollback_targets strategy acks subs =
     (if strategy = Sequential then retain_acked acks (retain_live acks subs)
      else retain_live acks subs)"

lemma prepare_Inr:
  assumes "prepare_round sch (tx_strategy tx) (tx_change tx) (tx_subscribers tx) = (acks, evs)"
    and "\<not> round_fails acks"
  shows "prepare sch w tx = (emit evs w, Inr (\<lparr>subscriber_acks = acks\<rparr>, prepared_tx acks tx))"
  using assms round_fails_filter [of acks]
  by (cases "tx_strategy tx")
    (auto simp: prepare_def prepare_round_def prepared_tx_def guard_arm_def
      guard_update_subscribers_def Let_def)

lemma prepare_Inl:
  assumes "prepare_round sch (tx_strategy tx) (tx_change tx) (tx_subscribers tx) = (acks, evs)"
    and "round_fails acks" and "tx_permit tx"
  shows "\<exists>tx'. prepare sch w tx =
    (emit (map (\<lambda>s. RolledBackSent (sub_name s) (tx_change tx)
                   (SubscriberFailed (List.map_filter failure_of (filter is_required_failure acks))))
             (live_in RolledBackPhase (rollback_targets (tx_strategy tx) acks (tx_subscribers tx))))
       (release (emit evs w)), Inl (\<lparr>subscriber_acks = acks\<rparr>, tx'))"
  using assms round_fails_filter [of acks]
  by (cases "tx_strategy tx")
    (auto simp: prepare_def prepare_round_def guard_arm_def rollback_targets_def
      guard_update_subscribers_def Let_def rollback_eq)

lemma try_commit_swap:
  assumes "change_previous (tx_change tx) = Some prev" and "arc_ptr (w_store w) = arc_ptr prev"
    and "tx_permit tx"
  shows "try_commit w tx =
    (release (install \<lparr>vs_version = change_version (change_id (tx_change tx)),
                      vs_state = change_current (tx_change tx)\<rparr> w),
     Inr (tx\<lparr>tx_guard := None, tx_permit := False\<rparr>))"
  using assms by (simp add: try_commit_def drop_permit_def guard_disarm_def Let_def)

lemma try_commit_mismatch:
  assumes "change_previous (tx_change tx) = Some prev" and "arc_ptr (w_store w) \<noteq> arc_ptr prev"
  shows "try_commit w tx =
    (w\<lparr>w_fresh := Suc (w_fresh w)\<rparr>,
     Inl \<lparr>mm_tx = tx, mm_expected = vs_version (arc_val prev),
          mm_actual = vs_version (arc_val (w_store w))\<rparr>)"
  using assms by (simp add: try_commit_def Let_def)

lemma try_commit_initial:
  assumes "change_previous (tx_change tx) = None" and "tx_permit tx"
  shows "try_commit w tx =
    (release (install \<lparr>vs_version = change_version (change_id (tx_change tx)),
                      vs_state = change_current (tx_change tx)\<rparr> w),
     Inr (tx\<lparr>tx_guard := None, tx_permit := False\<rparr>))"
  using assms by (simp add: try_commit_def drop_permit_def guard_disarm_def Let_def)

lemma prepared_tx_simps [simp]:
  "tx_change (prepared_tx acks tx) = tx_change tx"
  "tx_permit (prepared_tx acks tx) = tx_permit tx"
  "tx_strategy (prepared_tx acks tx) = tx_strategy tx"
  "tx_subscribers (prepared_tx acks tx) = retain_live acks (tx_subscribers tx)"
  by (simp_all add: prepared_tx_def)

lemma new_transaction_simps [simp]:
  "tx_change (new_transaction change subs strategy) = change"
  "tx_permit (new_transaction change subs strategy)"
  "tx_strategy (new_transaction change subs strategy) = strategy"
  "tx_subscribers (new_transaction change subs strategy) = subs"
  by (simp_all add: new_transaction_def)

end
