(* ===== verification/State_Coordinator.thy ===== *)
theory State_Coordinator
  imports State_Transaction
begin

text \<open>
  The state coordinator (\<^verbatim>\<open>state/coordinator.rs\<close>): the single writer of a versioned state. It
  serialises writers with a semaphore, runs one transaction per change, and optionally runs an
  external effect between prepare and commit.

  \<^item> \<open>env\<close> holds what the surroundings decide during one call: the task schedule of the
    acknowledgement round, and what another holder of the store handle may have published between
    the snapshot the call took and its compare-and-swap.
  \<^item> An effect reads and writes a state of its own (\<open>'d\<close>, a disk for the managers) and is a future.
  \<^item> An operation ends with an \<open>outcome\<close>: it waits forever (for the semaphore or an effect that
    never completes), panics, or finishes with its \<^verbatim>\<open>Result\<close>.
  \<^item> Error messages keep their fixed part only.
\<close>

section \<open>Definitions\<close>

datatype 'r outcome = Waiting | Panicked | Finished 'r

record 'T env =
  env_schedule :: schedule
  env_interference :: "'T VersionedState option"

record 'T StateCoordinator =
  co_world :: "'T World"
  co_strategy :: NotifyStrategy
  co_subscribers :: "(string, 'T Subscriber) index_map"
  co_next_change_id :: StateChangeId

datatype 'e ConditionalEffectError =
    CondConflict Version
  | CondState StateChangedError
  | CondEffect 'e
  | CondRecovery StateChangedError 'e

definition interfere :: "'T VersionedState option \<Rightarrow> 'T World \<Rightarrow> 'T World" where
  "interfere i w =
     (case i of
        None \<Rightarrow> w
      | Some vs \<Rightarrow> w\<lparr>w_store := \<lparr>arc_ptr = w_fresh w, arc_val = vs\<rparr>, w_fresh := Suc (w_fresh w)\<rparr>)"

definition add_subscriber ::
    "'T StateCoordinator \<Rightarrow> 'T Subscriber \<Rightarrow> 'T StateCoordinator \<times> 'T Subscriber option" where
  "add_subscriber c s =
     (c\<lparr>co_subscribers := im_insert (sub_name s) s (co_subscribers c)\<rparr>,
      im_get (co_subscribers c) (sub_name s))"

definition remove_subscriber ::
    "'T StateCoordinator \<Rightarrow> string \<Rightarrow> 'T StateCoordinator \<times> 'T Subscriber option" where
  "remove_subscriber c n =
     (c\<lparr>co_subscribers := im_shift_remove n (co_subscribers c)\<rparr>, im_get (co_subscribers c) n)"

definition snapshot_versioned :: "'T StateCoordinator \<Rightarrow> 'T arc" where
  "snapshot_versioned c = w_store (co_world c)"

definition snapshot :: "'T StateCoordinator \<Rightarrow> 'T" where
  "snapshot c = vs_state (arc_val (snapshot_versioned c))"

definition pending_change_id ::
    "'T StateCoordinator \<Rightarrow> (StateChangeId \<times> 'T StateCoordinator) option" where
  "pending_change_id c =
     (case version_next (vs_version (arc_val (snapshot_versioned c))) of
        None \<Rightarrow> None
      | Some v \<Rightarrow>
          let expected = StateChangeId v;
              c' = (if co_next_change_id c \<noteq> expected then c\<lparr>co_next_change_id := expected\<rparr> else c)
          in Some (co_next_change_id c', c'))"

text \<open>The \<^verbatim>\<open>debug_assert_eq!\<close> is kept: \<open>None\<close> is a panic.\<close>

definition mark_change_id_committed ::
    "'T StateCoordinator \<Rightarrow> StateChangeId \<Rightarrow> 'T StateCoordinator option" where
  "mark_change_id_committed c i =
     (if co_next_change_id c \<noteq> i then None
      else map_option (\<lambda>j. c\<lparr>co_next_change_id := j\<rparr>) (change_id_next i))"

definition sync_change_id_after_cas_mismatch ::
    "'T StateCoordinator \<Rightarrow> (Version \<times> 'T StateCoordinator) option" where
  "sync_change_id_after_cas_mismatch c =
     (let actual = vs_version (arc_val (snapshot_versioned c)) in
      map_option (\<lambda>v. (actual, c\<lparr>co_next_change_id := StateChangeId v\<rparr>)) (version_next actual))"

definition clone_subscribers :: "'T StateCoordinator \<Rightarrow> 'T Subscriber list" where
  "clone_subscribers c = im_values (co_subscribers c)"

text \<open>The transaction of a new state against the state that is current.\<close>

definition begin_transaction ::
    "'T StateCoordinator \<Rightarrow> StateChangeId \<Rightarrow> 'T \<Rightarrow> 'T StateTransaction" where
  "begin_transaction c cid s =
     new_transaction
       \<lparr>change_id = cid, change_previous = Some (snapshot_versioned c), change_current = s\<rparr>
       (clone_subscribers c) (co_strategy c)"

definition mismatch_error ::
    "'T arc \<Rightarrow> 'T StateCoordinator \<Rightarrow> ('T StateCoordinator \<times> StateChangedError) option" where
  "mismatch_error prev c =
     map_option (\<lambda>(actual, c'). (c', StateCasMismatch (vs_version (arc_val prev)) actual))
       (sync_change_id_after_cas_mismatch c)"

text \<open>Prepare, then commit: the part \<^verbatim>\<open>upsert\<close> and \<^verbatim>\<open>upsert_state\<close> share.\<close>

definition prepare_and_commit ::
    "'T env \<Rightarrow> 'T StateCoordinator \<Rightarrow> StateChangeId \<Rightarrow> 'T \<Rightarrow>
     'T StateCoordinator \<times> (StateChangedError + PrepareReport) outcome" where
  "prepare_and_commit env c cid s =
     (case prepare (env_schedule env) (co_world c) (begin_transaction c cid s) of
        (w1, Inr (report, tx)) \<Rightarrow>
          (case commit (interfere (env_interference env) w1) tx of
             (w2, Inr tx2) \<Rightarrow>
               (case mark_change_id_committed (c\<lparr>co_world := w2\<rparr>) cid of
                  None \<Rightarrow> (c\<lparr>co_world := w2\<rparr>, Panicked)
                | Some c' \<Rightarrow> (c', Finished (Inr report)))
           | (w2, Inl tx2) \<Rightarrow>
               (case mismatch_error (snapshot_versioned c) (c\<lparr>co_world := w2\<rparr>) of
                  None \<Rightarrow> (c\<lparr>co_world := w2\<rparr>, Panicked)
                | Some (c', err) \<Rightarrow> (c', Finished (Inl err))))
      | (w1, Inl (report, tx)) \<Rightarrow> (c\<lparr>co_world := w1\<rparr>, Finished (Inl (PrepareAck report))))"

definition upsert_state ::
    "'T env \<Rightarrow> 'T StateCoordinator \<Rightarrow> 'T \<Rightarrow>
     'T StateCoordinator \<times> (StateChangedError + PrepareReport) outcome" where
  "upsert_state env c s =
     (case acquire (co_world c) of
        None \<Rightarrow> (c, Waiting)
      | Some w \<Rightarrow>
          (case pending_change_id (c\<lparr>co_world := w\<rparr>) of
             None \<Rightarrow> (c\<lparr>co_world := release w\<rparr>, Panicked)
           | Some (cid, c1) \<Rightarrow> prepare_and_commit env c1 cid s))"

text \<open>\<^verbatim>\<open>upsert\<close> builds the state under the permit; \<open>built\<close> is what the builder's \<^verbatim>\<open>build\<close> gives.\<close>

definition upsert ::
    "'T env \<Rightarrow> 'T StateCoordinator \<Rightarrow> anyhow + 'T \<Rightarrow>
     'T StateCoordinator \<times> (StateChangedError + PrepareReport) outcome" where
  "upsert env c built =
     (case acquire (co_world c) of
        None \<Rightarrow> (c, Waiting)
      | Some w \<Rightarrow>
          (case built of
             Inl e \<Rightarrow> (c\<lparr>co_world := release w\<rparr>, Finished (Inl (Validation e)))
           | Inr s \<Rightarrow>
               (case pending_change_id (c\<lparr>co_world := w\<rparr>) of
                  None \<Rightarrow> (c\<lparr>co_world := release w\<rparr>, Panicked)
                | Some (cid, c1) \<Rightarrow> prepare_and_commit env c1 cid s)))"

type_synonym ('T, 'd, 'e, 'r) effect = "'T \<Rightarrow> 'd \<Rightarrow> 'd \<times> ('e + 'r) future"

text \<open>Awaiting an effect: \<open>None\<close> is an effect without a deadline that never completes.\<close>

fun await_effect :: "Duration option \<Rightarrow> ('e + 'r) future \<Rightarrow> ('e WithEffectError + 'r) option" where
  "await_effect (Some t) fut =
     (case timeout t fut of
        Some (Inr r) \<Rightarrow> Some (Inr r)
      | Some (Inl e) \<Rightarrow> Some (Inl (Effect e))
      | None \<Rightarrow> Some (Inl (EffectTimedOut t)))"
| "await_effect None (Ready d (Inr r)) = Some (Inr r)"
| "await_effect None (Ready d (Inl e)) = Some (Inl (Effect e))"
| "await_effect None Pending = None"

definition effect_failed_reason :: RollbackReason where
  "effect_failed_reason = CoordinatorError ''effect function failed''"

definition with_pending_state_inner ::
    "'T env \<Rightarrow> 'T StateCoordinator \<Rightarrow> 'd \<Rightarrow> 'T \<Rightarrow> Duration option \<Rightarrow> ('T, 'd, 'e, 'r) effect \<Rightarrow>
     'T StateCoordinator \<times> 'd \<times> ('e WithEffectError + 'r \<times> PrepareReport) outcome" where
  "with_pending_state_inner env c d s effect_timeout effect_fn =
     (case acquire (co_world c) of
        None \<Rightarrow> (c, d, Waiting)
      | Some w \<Rightarrow>
          (case pending_change_id (c\<lparr>co_world := w\<rparr>) of
             None \<Rightarrow> (c\<lparr>co_world := release w\<rparr>, d, Panicked)
           | Some (cid, c1) \<Rightarrow>
               (case prepare (env_schedule env) (co_world c1) (begin_transaction c1 cid s) of
                  (w1, Inl (report, tx)) \<Rightarrow>
                    (c1\<lparr>co_world := w1\<rparr>, d, Finished (Inl (EffectState (PrepareAck report))))
                | (w1, Inr (report, tx)) \<Rightarrow>
                    let w2 = emit [EffectRun] w1; (d', fut) = effect_fn s d in
                    (case await_effect effect_timeout fut of
                       None \<Rightarrow> (c1\<lparr>co_world := w2\<rparr>, d', Waiting)
                     | Some (Inl e) \<Rightarrow>
                         (c1\<lparr>co_world := fst (rollback w2 tx effect_failed_reason)\<rparr>, d', Finished (Inl e))
                     | Some (Inr r) \<Rightarrow>
                         (case commit (interfere (env_interference env) w2) tx of
                            (w3, Inr tx3) \<Rightarrow>
                              (case mark_change_id_committed (c1\<lparr>co_world := w3\<rparr>) cid of
                                 None \<Rightarrow> (c1\<lparr>co_world := w3\<rparr>, d', Panicked)
                               | Some c' \<Rightarrow> (c', d', Finished (Inr (r, report))))
                          | (w3, Inl tx3) \<Rightarrow>
                              (case mismatch_error (snapshot_versioned c1) (c1\<lparr>co_world := w3\<rparr>) of
                                 None \<Rightarrow> (c1\<lparr>co_world := w3\<rparr>, d', Panicked)
                               | Some (c', err) \<Rightarrow> (c', d', Finished (Inl (EffectState err)))))))))"

definition with_pending_state ::
    "'T env \<Rightarrow> 'T StateCoordinator \<Rightarrow> 'd \<Rightarrow> 'T \<Rightarrow> ('T, 'd, 'e, 'r) effect \<Rightarrow>
     'T StateCoordinator \<times> 'd \<times> ('e WithEffectError + 'r \<times> PrepareReport) outcome" where
  "with_pending_state env c d s effect_fn = with_pending_state_inner env c d s None effect_fn"

definition with_pending_state_timeout ::
    "'T env \<Rightarrow> 'T StateCoordinator \<Rightarrow> 'd \<Rightarrow> 'T \<Rightarrow> Duration \<Rightarrow> ('T, 'd, 'e, 'r) effect \<Rightarrow>
     'T StateCoordinator \<times> 'd \<times> ('e WithEffectError + 'r \<times> PrepareReport) outcome" where
  "with_pending_state_timeout env c d s t effect_fn =
     with_pending_state_inner env c d s (Some t) effect_fn"

text \<open>The conditional variant: a version check first, and a recovery effect that puts the external
  state back when the commit loses the race. Both effects complete at once in every caller, so
  they are plain functions.\<close>

definition with_pending_state_if_version ::
    "'T env \<Rightarrow> 'T StateCoordinator \<Rightarrow> 'd \<Rightarrow> Version \<Rightarrow> 'T \<Rightarrow>
     ('T \<Rightarrow> 'd \<Rightarrow> 'd \<times> ('e + unit)) \<Rightarrow> ('T \<Rightarrow> 'd \<Rightarrow> 'd \<times> ('e + unit)) \<Rightarrow>
     'T StateCoordinator \<times> 'd \<times> ('e ConditionalEffectError + unit) outcome" where
  "with_pending_state_if_version env c d expected_version s effect_fn recovery_fn =
     (case acquire (co_world c) of
        None \<Rightarrow> (c, d, Waiting)
      | Some w \<Rightarrow>
          (case pending_change_id (c\<lparr>co_world := w\<rparr>) of
             None \<Rightarrow> (c\<lparr>co_world := release w\<rparr>, d, Panicked)
           | Some (cid, c1) \<Rightarrow>
               let current = snapshot_versioned c1 in
               if vs_version (arc_val current) \<noteq> expected_version then
                 (c1\<lparr>co_world := release w\<rparr>, d,
                  Finished (Inl (CondConflict (vs_version (arc_val current)))))
               else
                 (case prepare (env_schedule env) (co_world c1) (begin_transaction c1 cid s) of
                    (w1, Inl (report, tx)) \<Rightarrow>
                      (c1\<lparr>co_world := w1\<rparr>, d, Finished (Inl (CondState (PrepareAck report))))
                  | (w1, Inr (report, tx)) \<Rightarrow>
                      let w2 = emit [EffectRun] w1 in
                      (case effect_fn s d of
                         (d', Inl e) \<Rightarrow>
                           (c1\<lparr>co_world := fst (rollback w2 tx effect_failed_reason)\<rparr>, d',
                            Finished (Inl (CondEffect e)))
                       | (d', Inr _) \<Rightarrow>
                           (case try_commit (interfere (env_interference env) w2) tx of
                              (w3, Inr tx3) \<Rightarrow>
                                let w4 = notify_committed w3 tx3 in
                                (case mark_change_id_committed (c1\<lparr>co_world := w4\<rparr>) cid of
                                   None \<Rightarrow> (c1\<lparr>co_world := w4\<rparr>, d', Panicked)
                                 | Some c' \<Rightarrow> (c', d', Finished (Inr ())))
                            | (w3, Inl m) \<Rightarrow>
                                (case mismatch_error current (c1\<lparr>co_world := w3\<rparr>) of
                                   None \<Rightarrow> (c1\<lparr>co_world := tx_drop w3 (mm_tx m)\<rparr>, d', Panicked)
                                 | Some (c', err) \<Rightarrow>
                                     let (d'', rec) = recovery_fn (snapshot c') d';
                                         w4 = mismatch_notify_rollback
                                                (emit [RecoveryRun] (co_world c')) m
                                     in (c'\<lparr>co_world := w4\<rparr>, d'',
                                         Finished (Inl (case rec of
                                             Inr _ \<Rightarrow> CondState err
                                           | Inl e \<Rightarrow> CondRecovery err e)))))))))"

section \<open>Building a coordinator\<close>

record 'T StateCoordinatorBuilder =
  cb_strategy :: NotifyStrategy
  cb_subscribers :: "(string, 'T Subscriber) index_map"

definition builder_default :: "'T StateCoordinatorBuilder" where
  "builder_default = \<lparr>cb_strategy = Parallel, cb_subscribers = []\<rparr>"

definition with_notify_strategy ::
    "'T StateCoordinatorBuilder \<Rightarrow> NotifyStrategy \<Rightarrow> 'T StateCoordinatorBuilder" where
  "with_notify_strategy b strategy = b\<lparr>cb_strategy := strategy\<rparr>"

definition with_subscriber ::
    "'T StateCoordinatorBuilder \<Rightarrow> 'T Subscriber \<Rightarrow> 'T StateCoordinatorBuilder" where
  "with_subscriber b s = b\<lparr>cb_subscribers := im_insert (sub_name s) s (cb_subscribers b)\<rparr>"

definition build :: "'T StateCoordinatorBuilder \<Rightarrow> 'T \<Rightarrow> 'T StateCoordinator" where
  "build b s =
     \<lparr>co_world = \<lparr>w_store = \<lparr>arc_ptr = 0, arc_val = \<lparr>vs_version = version_default, vs_state = s\<rparr>\<rparr>,
                  w_fresh = 1, w_permits = 1, w_trace = []\<rparr>,
      co_strategy = cb_strategy b,
      co_subscribers = cb_subscribers b,
      co_next_change_id = the (change_id_next (StateChangeId version_default))\<rparr>"

text \<open>The initial state is announced to the subscribers. A refusal still gives the coordinator
  back. A lost compare-and-swap is the arm the source marks \<^verbatim>\<open>unreachable!()\<close>.\<close>

definition build_initialized ::
    "schedule \<Rightarrow> 'T StateCoordinatorBuilder \<Rightarrow> 'T \<Rightarrow>
     ('T StateCoordinator \<times> PrepareReport + 'T StateCoordinator) outcome" where
  "build_initialized sch b s =
     (let c = build b s;
          change = \<lparr>change_id = StateChangeId version_default, change_previous = None,
                    change_current = s\<rparr>
      in case acquire (co_world c) of
           None \<Rightarrow> Waiting
         | Some w \<Rightarrow>
             (case commit_pending sch w (new_transaction change (clone_subscribers c) (co_strategy c)) of
                (w', Inr (report, tx)) \<Rightarrow>
                  Finished (if has_required_failures report
                            then Inl (c\<lparr>co_world := w'\<rparr>, report) else Inr (c\<lparr>co_world := w'\<rparr>))
              | (w', Inl (Some report, tx)) \<Rightarrow> Finished (Inl (c\<lparr>co_world := w'\<rparr>, report))
              | (w', Inl (None, tx)) \<Rightarrow> Panicked))"

section \<open>Lemmas\<close>

abbreviation co_version :: "'T StateCoordinator \<Rightarrow> nat" where
  "co_version c \<equiv> version_nat (vs_version (arc_val (snapshot_versioned c)))"

text \<open>Between two calls: the permit is free, the published allocation is not reused, and every
  subscriber is registered under its own name.\<close>

definition coord_inv :: "'T StateCoordinator \<Rightarrow> bool" where
  "coord_inv c =
     (w_permits (co_world c) = 1 \<and>
      arc_ptr (w_store (co_world c)) < w_fresh (co_world c) \<and>
      im_wf (co_subscribers c) \<and>
      list_all (\<lambda>(n, s). sub_name s = n) (co_subscribers c))"

text \<open>The change a write announces, and the outcome of its acknowledgement round.\<close>

definition next_change :: "'T StateCoordinator \<Rightarrow> 'T \<Rightarrow> 'T StateChange" where
  "next_change c s =
     \<lparr>change_id = StateChangeId (the (version_next (vs_version (arc_val (snapshot_versioned c))))),
      change_previous = Some (snapshot_versioned c), change_current = s\<rparr>"

definition write_round ::
    "'T env \<Rightarrow> 'T StateCoordinator \<Rightarrow> 'T \<Rightarrow> SubscriberAck list \<times> 'T event list" where
  "write_round env c s =
     prepare_round (env_schedule env) (co_strategy c) (next_change c s) (clone_subscribers c)"

definition write_refused :: "'T env \<Rightarrow> 'T StateCoordinator \<Rightarrow> 'T \<Rightarrow> bool" where
  "write_refused env c s = round_fails (fst (write_round env c s))"

definition next_state :: "'T StateCoordinator \<Rightarrow> 'T \<Rightarrow> 'T VersionedState" where
  "next_state c s =
     \<lparr>vs_version = the (version_next (vs_version (arc_val (snapshot_versioned c)))), vs_state = s\<rparr>"

text \<open>The events of the three ways a write ends.\<close>

definition committed_events ::
    "'T env \<Rightarrow> 'T StateCoordinator \<Rightarrow> 'T \<Rightarrow> 'T event list" where
  "committed_events env c s =
     map (\<lambda>x. CommittedSent (sub_name x) (next_change c s))
       (live_in CommittedPhase (retain_live (fst (write_round env c s)) (clone_subscribers c)))"

definition refused_events ::
    "'T env \<Rightarrow> 'T StateCoordinator \<Rightarrow> 'T \<Rightarrow> 'T event list" where
  "refused_events env c s =
     (let acks = fst (write_round env c s) in
      map (\<lambda>x. RolledBackSent (sub_name x) (next_change c s)
                 (SubscriberFailed (List.map_filter failure_of (filter is_required_failure acks))))
        (live_in RolledBackPhase (rollback_targets (co_strategy c) acks (clone_subscribers c))))"

definition abandoned_events ::
    "RollbackReason \<Rightarrow> 'T env \<Rightarrow> 'T StateCoordinator \<Rightarrow> 'T \<Rightarrow> 'T event list" where
  "abandoned_events reason env c s =
     map (\<lambda>x. RolledBackSent (sub_name x) (next_change c s) reason)
       (live_in RolledBackPhase (retain_live (fst (write_round env c s)) (clone_subscribers c)))"

lemma snapshot_world [simp]:
  "snapshot_versioned (c\<lparr>co_world := w\<rparr>) = w_store w"
  "snapshot_versioned (c\<lparr>co_next_change_id := i\<rparr>) = snapshot_versioned c"
  "snapshot_versioned (c\<lparr>co_world := w, co_next_change_id := i\<rparr>) = w_store w"
  by (simp_all add: snapshot_versioned_def)

lemma clone_subscribers_world [simp]:
  "clone_subscribers (c\<lparr>co_world := w\<rparr>) = clone_subscribers c"
  "clone_subscribers (c\<lparr>co_next_change_id := i\<rparr>) = clone_subscribers c"
  by (simp_all add: clone_subscribers_def)

lemma pending_change_id_eq:
  assumes "version_next (vs_version (arc_val (snapshot_versioned c))) = Some v"
  shows "pending_change_id c = Some (StateChangeId v, c\<lparr>co_next_change_id := StateChangeId v\<rparr>)"
  using assms by (cases c) (auto simp: pending_change_id_def Let_def)

lemma acquire_free:
  "w_permits w = 1 \<Longrightarrow> acquire w = Some (emit [PermitAcquired] (w\<lparr>w_permits := 0\<rparr>))"
  by (simp add: acquire_def)

text \<open>The world a call works in once it holds the permit.\<close>

definition entered :: "'T StateCoordinator \<Rightarrow> 'T World" where
  "entered c = emit [PermitAcquired] ((co_world c)\<lparr>w_permits := 0\<rparr>)"

lemma entered_simps [simp]:
  "w_store (entered c) = snapshot_versioned c"
  "w_fresh (entered c) = w_fresh (co_world c)"
  "w_permits (entered c) = 0"
  "w_trace (entered c) = w_trace (co_world c) @ [PermitAcquired]"
  by (simp_all add: entered_def snapshot_versioned_def)

definition started :: "'T StateCoordinator \<Rightarrow> 'T StateCoordinator" where
  "started c =
     c\<lparr>co_world := entered c,
       co_next_change_id :=
         StateChangeId (the (version_next (vs_version (arc_val (snapshot_versioned c)))))\<rparr>"

lemma started_simps [simp]:
  "co_world (started c) = entered c"
  "co_strategy (started c) = co_strategy c"
  "co_subscribers (started c) = co_subscribers c"
  "clone_subscribers (started c) = clone_subscribers c"
  "snapshot_versioned (started c) = snapshot_versioned c"
  by (simp_all add: started_def clone_subscribers_def)

lemma begin_transaction_started [simp]:
  "begin_transaction (started c) (change_id (next_change c s)) s =
     new_transaction (next_change c s) (clone_subscribers c) (co_strategy c)"
  by (simp add: begin_transaction_def next_change_def)

lemma enter_acquire: "coord_inv c \<Longrightarrow> acquire (co_world c) = Some (entered c)"
  by (simp add: coord_inv_def acquire_free entered_def)

lemma enter_pending:
  assumes "Suc (co_version c) < version_limit"
  shows "pending_change_id (c\<lparr>co_world := entered c\<rparr>) =
    Some (change_id (next_change c s), started c)"
proof -
  obtain v where "version_next (vs_version (arc_val (snapshot_versioned c))) = Some v"
    using version_next_ok [OF assms] by blast
  then show ?thesis
    by (subst pending_change_id_eq [of _ v]) (auto simp: started_def next_change_def)
qed

lemma next_state_version:
  assumes "Suc (co_version c) < version_limit"
  shows "version_nat (vs_version (next_state c s)) = Suc (co_version c)"
proof -
  obtain v where "version_next (vs_version (arc_val (snapshot_versioned c))) = Some v"
    using version_next_ok [OF assms] by blast
  with version_next_Some [OF this] show ?thesis by (simp add: next_state_def)
qed

lemma mark_started:
  assumes "Suc (Suc (co_version c)) < version_limit"
  shows "\<exists>j. mark_change_id_committed ((started c)\<lparr>co_world := w\<rparr>) (change_id (next_change c s)) =
    Some ((started c)\<lparr>co_world := w, co_next_change_id := j\<rparr>)"
proof -
  have "version_nat (vs_version (next_state c s)) = Suc (co_version c)"
    using assms by (simp add: next_state_version)
  then have "\<exists>v. version_next (vs_version (next_state c s)) = Some v"
    using assms version_next_ok by metis
  then show ?thesis
    by (auto simp: mark_change_id_committed_def started_def next_change_def change_id_next_def
        next_state_def)
qed

lemma prepare_write_ok:
  assumes "write_round env c s = (acks, evs)" and "\<not> round_fails acks"
  shows "prepare (env_schedule env) (entered c)
      (new_transaction (next_change c s) (clone_subscribers c) (co_strategy c)) =
    (emit evs (entered c), Inr (\<lparr>subscriber_acks = acks\<rparr>,
      prepared_tx acks (new_transaction (next_change c s) (clone_subscribers c) (co_strategy c))))"
  using assms by (intro prepare_Inr) (simp_all add: write_round_def)

lemma prepare_write_refused:
  assumes "write_round env c s = (acks, evs)" and "round_fails acks"
  shows "\<exists>tx'. prepare (env_schedule env) (entered c)
      (new_transaction (next_change c s) (clone_subscribers c) (co_strategy c)) =
    (emit (refused_events env c s) (release (emit evs (entered c))),
     Inl (\<lparr>subscriber_acks = acks\<rparr>, tx'))"
  using assms prepare_Inl [of "env_schedule env"
      "new_transaction (next_change c s) (clone_subscribers c) (co_strategy c)" acks evs "entered c"]
  by (simp add: write_round_def refused_events_def Let_def)

text \<open>Committing a prepared write when nobody else published.\<close>

lemma commit_write_ok:
  assumes "write_round env c s = (acks, evs)" and "w_store w = snapshot_versioned c"
  shows "\<exists>tx'. commit w (prepared_tx acks
      (new_transaction (next_change c s) (clone_subscribers c) (co_strategy c))) =
    (emit (committed_events env c s) (release (install (next_state c s) w)), Inr tx')"
proof -
  let ?tx = "prepared_tx acks (new_transaction (next_change c s) (clone_subscribers c) (co_strategy c))"
  have "try_commit w ?tx = (release (install (next_state c s) w),
      Inr (?tx\<lparr>tx_guard := None, tx_permit := False\<rparr>))"
    using assms(2) try_commit_swap [of ?tx "snapshot_versioned c" w]
    by (simp add: next_change_def next_state_def)
  with assms(1) show ?thesis
    by (simp add: commit_def notify_committed_eq committed_events_def)
qed

text \<open>Committing a prepared write after somebody else published.\<close>

lemma commit_write_raced:
  assumes "write_round env c s = (acks, evs)"
    and "arc_ptr (w_store w) \<noteq> arc_ptr (snapshot_versioned c)"
  shows "\<exists>tx'. commit w (prepared_tx acks
      (new_transaction (next_change c s) (clone_subscribers c) (co_strategy c))) =
    (emit (abandoned_events
             (StoreStateCasMismatch (vs_version (arc_val (snapshot_versioned c)))
                (vs_version (arc_val (w_store w)))) env c s)
       (release (w\<lparr>w_fresh := Suc (w_fresh w)\<rparr>)), Inl tx')"
proof -
  let ?tx = "prepared_tx acks (new_transaction (next_change c s) (clone_subscribers c) (co_strategy c))"
  have "try_commit w ?tx = (w\<lparr>w_fresh := Suc (w_fresh w)\<rparr>,
      Inl \<lparr>mm_tx = ?tx, mm_expected = vs_version (arc_val (snapshot_versioned c)),
           mm_actual = vs_version (arc_val (w_store w))\<rparr>)"
    using assms(2) try_commit_mismatch [of ?tx "snapshot_versioned c" w]
    by (simp add: next_change_def)
  with assms(1) show ?thesis
    by (simp add: commit_def mismatch_reason_def rollback_eq abandoned_events_def)
qed

text \<open>The three results of a write, with everything they leave behind.\<close>

lemma upsert_state_committed:
  assumes "coord_inv c" and "Suc (Suc (co_version c)) < version_limit"
    and "env_interference env = None" and "write_round env c s = (acks, evs)"
    and "\<not> round_fails acks"
  shows "\<exists>j. upsert_state env c s =
    ((started c)\<lparr>co_world := emit (committed_events env c s)
                    (release (install (next_state c s) (emit evs (entered c)))),
                 co_next_change_id := j\<rparr>,
     Finished (Inr \<lparr>subscriber_acks = acks\<rparr>))"
proof -
  obtain tx' where commit: "commit (emit evs (entered c)) (prepared_tx acks
      (new_transaction (next_change c s) (clone_subscribers c) (co_strategy c))) =
    (emit (committed_events env c s) (release (install (next_state c s) (emit evs (entered c)))), Inr tx')"
    using commit_write_ok [OF assms(4), of "emit evs (entered c)"] by auto
  obtain j where "mark_change_id_committed ((started c)\<lparr>co_world :=
        emit (committed_events env c s) (release (install (next_state c s) (emit evs (entered c))))\<rparr>)
      (change_id (next_change c s)) = Some ((started c)\<lparr>co_world :=
        emit (committed_events env c s) (release (install (next_state c s) (emit evs (entered c)))),
        co_next_change_id := j\<rparr>)"
    using mark_started [OF assms(2)] by blast
  with commit assms enter_acquire [OF assms(1)] enter_pending [of c s] show ?thesis
    by (intro exI [of _ j])
      (simp add: upsert_state_def prepare_and_commit_def prepare_write_ok interfere_def)
qed

lemma upsert_state_refused:
  assumes "coord_inv c" and "Suc (co_version c) < version_limit"
    and "write_round env c s = (acks, evs)" and "round_fails acks"
  shows "upsert_state env c s =
    ((started c)\<lparr>co_world := emit (refused_events env c s) (release (emit evs (entered c)))\<rparr>,
     Finished (Inl (PrepareAck \<lparr>subscriber_acks = acks\<rparr>)))"
proof -
  obtain tx' where "prepare (env_schedule env) (entered c)
      (new_transaction (next_change c s) (clone_subscribers c) (co_strategy c)) =
    (emit (refused_events env c s) (release (emit evs (entered c))),
     Inl (\<lparr>subscriber_acks = acks\<rparr>, tx'))"
    using prepare_write_refused [OF assms(3,4)] by blast
  with enter_acquire [OF assms(1)] enter_pending [OF assms(2), of s] show ?thesis
    by (simp add: upsert_state_def prepare_and_commit_def)
qed

definition race_reason :: "'T StateCoordinator \<Rightarrow> 'T VersionedState \<Rightarrow> RollbackReason" where
  "race_reason c vs =
     StoreStateCasMismatch (vs_version (arc_val (snapshot_versioned c))) (vs_version vs)"

definition raced_world ::
    "'T env \<Rightarrow> 'T StateCoordinator \<Rightarrow> 'T \<Rightarrow> 'T VersionedState \<Rightarrow> 'T World \<Rightarrow> 'T World" where
  "raced_world env c s vs w =
     emit (abandoned_events (race_reason c vs) env c s)
       (release (w\<lparr>w_store := \<lparr>arc_ptr = w_fresh w, arc_val = vs\<rparr>, w_fresh := Suc (Suc (w_fresh w))\<rparr>))"

lemma raced_world_simps [simp]:
  "w_store (raced_world env c s vs w) = \<lparr>arc_ptr = w_fresh w, arc_val = vs\<rparr>"
  "w_fresh (raced_world env c s vs w) = Suc (Suc (w_fresh w))"
  "w_permits (raced_world env c s vs w) = Suc (w_permits w)"
  "w_trace (raced_world env c s vs w) =
     w_trace w @ PermitReleased # abandoned_events (race_reason c vs) env c s"
  by (simp_all add: raced_world_def)

lemma commit_write_interfered:
  assumes "coord_inv c" and "write_round env c s = (acks, evs)"
    and "w_fresh w = w_fresh (co_world c)"
  shows "\<exists>tx'. commit (interfere (Some vs) w) (prepared_tx acks
      (new_transaction (next_change c s) (clone_subscribers c) (co_strategy c))) =
    (raced_world env c s vs w, Inl tx')"
proof -
  have "arc_ptr (w_store (interfere (Some vs) w)) \<noteq> arc_ptr (snapshot_versioned c)"
    using assms(1,3) by (simp add: interfere_def coord_inv_def snapshot_versioned_def)
  from commit_write_raced [OF assms(2) this] show ?thesis
    by (simp add: raced_world_def interfere_def race_reason_def)
qed

lemma mismatch_error_ok:
  assumes "Suc (version_nat (vs_version (arc_val (w_store w)))) < version_limit"
  shows "\<exists>j. mismatch_error prev (c\<lparr>co_world := w\<rparr>) =
    Some (c\<lparr>co_world := w, co_next_change_id := j\<rparr>,
      StateCasMismatch (vs_version (arc_val prev)) (vs_version (arc_val (w_store w))))"
  using version_next_ok [OF assms]
  by (auto simp: mismatch_error_def sync_change_id_after_cas_mismatch_def Let_def)

lemma upsert_state_raced:
  assumes "coord_inv c" and "Suc (co_version c) < version_limit"
    and "env_interference env = Some vs" and "Suc (version_nat (vs_version vs)) < version_limit"
    and "write_round env c s = (acks, evs)" and "\<not> round_fails acks"
  shows "\<exists>j. upsert_state env c s =
    ((started c)\<lparr>co_world := raced_world env c s vs (emit evs (entered c)), co_next_change_id := j\<rparr>,
     Finished (Inl (StateCasMismatch (vs_version (arc_val (snapshot_versioned c))) (vs_version vs))))"
proof -
  let ?w = "raced_world env c s vs (emit evs (entered c))"
  obtain tx' where commit: "commit (interfere (Some vs) (emit evs (entered c))) (prepared_tx acks
      (new_transaction (next_change c s) (clone_subscribers c) (co_strategy c))) = (?w, Inl tx')"
    using commit_write_interfered [OF assms(1,5), of "emit evs (entered c)"] by auto
  have "\<exists>j. mismatch_error (snapshot_versioned c) ((started c)\<lparr>co_world := ?w\<rparr>) =
      Some ((started c)\<lparr>co_world := ?w, co_next_change_id := j\<rparr>,
        StateCasMismatch (vs_version (arc_val (snapshot_versioned c))) (vs_version vs))"
    using mismatch_error_ok [of ?w "snapshot_versioned c" "started c"] assms(4) by simp
  with commit assms enter_acquire [OF assms(1)] enter_pending [OF assms(2), of s] show ?thesis
    by (auto simp: upsert_state_def prepare_and_commit_def prepare_write_ok)
qed

lemma coord_inv_started:
  assumes "coord_inv c" and "w_permits w = 1" and "arc_ptr (w_store w) < w_fresh w"
  shows "coord_inv ((started c)\<lparr>co_world := w, co_next_change_id := j\<rparr>)"
    and "coord_inv ((started c)\<lparr>co_world := w\<rparr>)"
  using assms by (simp_all add: coord_inv_def)

lemma coord_inv_build: "coord_inv (build (foldl with_subscriber b subs) s)"
  if "im_wf (cb_subscribers b)" "list_all (\<lambda>(n, x). sub_name x = n) (cb_subscribers b)"
  using that
proof (induction subs arbitrary: b)
  case Nil
  then show ?case by (simp add: coord_inv_def build_def)
next
  case (Cons x subs)
  have "list_all (\<lambda>(n, x). sub_name x = n) (im_insert (sub_name x) x m)"
    if "list_all (\<lambda>(n, x). sub_name x = n) m" for m :: "(string, 'a Subscriber) index_map"
    using that by (induction m) auto
  with Cons show ?case by (simp add: with_subscriber_def)
qed

text \<open>The same for a write with an effect between prepare and commit.\<close>

lemma with_pending_refused:
  assumes "coord_inv c" and "Suc (co_version c) < version_limit"
    and "write_round env c s = (acks, evs)" and "round_fails acks"
  shows "with_pending_state_inner env c d s t f =
    ((started c)\<lparr>co_world := emit (refused_events env c s) (release (emit evs (entered c)))\<rparr>, d,
     Finished (Inl (EffectState (PrepareAck \<lparr>subscriber_acks = acks\<rparr>))))"
proof -
  obtain tx' where "prepare (env_schedule env) (entered c)
      (new_transaction (next_change c s) (clone_subscribers c) (co_strategy c)) =
    (emit (refused_events env c s) (release (emit evs (entered c))),
     Inl (\<lparr>subscriber_acks = acks\<rparr>, tx'))"
    using prepare_write_refused [OF assms(3,4)] by blast
  with enter_acquire [OF assms(1)] enter_pending [OF assms(2), of s] show ?thesis
    by (simp add: with_pending_state_inner_def)
qed

lemma with_pending_effect_failed:
  assumes "coord_inv c" and "Suc (co_version c) < version_limit"
    and "write_round env c s = (acks, evs)" and "\<not> round_fails acks"
    and "f s d = (d', fut)" and "await_effect t fut = Some (Inl e)"
  shows "with_pending_state_inner env c d s t f =
    ((started c)\<lparr>co_world := emit (abandoned_events effect_failed_reason env c s)
        (release (emit [EffectRun] (emit evs (entered c))))\<rparr>, d', Finished (Inl e))"
  using assms enter_acquire [OF assms(1)] enter_pending [OF assms(2), of s]
  by (simp add: with_pending_state_inner_def prepare_write_ok rollback_eq abandoned_events_def Let_def)

lemma with_pending_committed:
  assumes "coord_inv c" and "Suc (Suc (co_version c)) < version_limit"
    and "env_interference env = None" and "write_round env c s = (acks, evs)"
    and "\<not> round_fails acks" and "f s d = (d', fut)" and "await_effect t fut = Some (Inr r)"
  shows "\<exists>j. with_pending_state_inner env c d s t f =
    ((started c)\<lparr>co_world := emit (committed_events env c s)
        (release (install (next_state c s) (emit [EffectRun] (emit evs (entered c))))),
      co_next_change_id := j\<rparr>, d', Finished (Inr (r, \<lparr>subscriber_acks = acks\<rparr>)))"
proof -
  let ?w = "emit [EffectRun] (emit evs (entered c))"
  let ?w' = "emit (committed_events env c s) (release (install (next_state c s) ?w))"
  obtain tx' where commit: "commit ?w (prepared_tx acks
      (new_transaction (next_change c s) (clone_subscribers c) (co_strategy c))) = (?w', Inr tx')"
    using commit_write_ok [OF assms(4), of ?w] by auto
  obtain j where "mark_change_id_committed ((started c)\<lparr>co_world := ?w'\<rparr>) (change_id (next_change c s)) =
      Some ((started c)\<lparr>co_world := ?w', co_next_change_id := j\<rparr>)"
    using mark_started [OF assms(2)] by blast
  with commit assms enter_acquire [OF assms(1)] enter_pending [of c s] show ?thesis
    by (intro exI [of _ j])
      (simp add: with_pending_state_inner_def prepare_write_ok interfere_def Let_def)
qed

lemma with_pending_raced:
  assumes "coord_inv c" and "Suc (co_version c) < version_limit"
    and "env_interference env = Some vs" and "Suc (version_nat (vs_version vs)) < version_limit"
    and "write_round env c s = (acks, evs)" and "\<not> round_fails acks"
    and "f s d = (d', fut)" and "await_effect t fut = Some (Inr r)"
  shows "\<exists>j. with_pending_state_inner env c d s t f =
    ((started c)\<lparr>co_world := raced_world env c s vs (emit [EffectRun] (emit evs (entered c))),
      co_next_change_id := j\<rparr>, d',
     Finished (Inl (EffectState
       (StateCasMismatch (vs_version (arc_val (snapshot_versioned c))) (vs_version vs)))))"
proof -
  let ?w = "raced_world env c s vs (emit [EffectRun] (emit evs (entered c)))"
  obtain tx' where commit: "commit (interfere (Some vs) (emit [EffectRun] (emit evs (entered c))))
      (prepared_tx acks
        (new_transaction (next_change c s) (clone_subscribers c) (co_strategy c))) = (?w, Inl tx')"
    using commit_write_interfered [OF assms(1,5), of "emit [EffectRun] (emit evs (entered c))"] by auto
  obtain j where "mismatch_error (snapshot_versioned c) ((started c)\<lparr>co_world := ?w\<rparr>) =
      Some ((started c)\<lparr>co_world := ?w, co_next_change_id := j\<rparr>,
        StateCasMismatch (vs_version (arc_val (snapshot_versioned c))) (vs_version vs))"
    using mismatch_error_ok [of ?w "snapshot_versioned c" "started c"] assms(4) by auto
  with commit assms enter_acquire [OF assms(1)] enter_pending [OF assms(2), of s] show ?thesis
    by (intro exI [of _ j]) (simp add: with_pending_state_inner_def prepare_write_ok Let_def)
qed

text \<open>And for the conditional write with its recovery.\<close>

lemma if_version_conflict:
  assumes "coord_inv c" and "Suc (co_version c) < version_limit"
    and "vs_version (arc_val (snapshot_versioned c)) \<noteq> v"
  shows "with_pending_state_if_version env c d v s f g =
    ((started c)\<lparr>co_world := release (entered c)\<rparr>, d,
     Finished (Inl (CondConflict (vs_version (arc_val (snapshot_versioned c))))))"
  using assms enter_acquire [OF assms(1)] enter_pending [OF assms(2), of s]
  by (simp add: with_pending_state_if_version_def Let_def)

lemma if_version_refused:
  assumes "coord_inv c" and "Suc (co_version c) < version_limit"
    and "vs_version (arc_val (snapshot_versioned c)) = v"
    and "write_round env c s = (acks, evs)" and "round_fails acks"
  shows "with_pending_state_if_version env c d v s f g =
    ((started c)\<lparr>co_world := emit (refused_events env c s) (release (emit evs (entered c)))\<rparr>, d,
     Finished (Inl (CondState (PrepareAck \<lparr>subscriber_acks = acks\<rparr>))))"
proof -
  obtain tx' where "prepare (env_schedule env) (entered c)
      (new_transaction (next_change c s) (clone_subscribers c) (co_strategy c)) =
    (emit (refused_events env c s) (release (emit evs (entered c))),
     Inl (\<lparr>subscriber_acks = acks\<rparr>, tx'))"
    using prepare_write_refused [OF assms(4,5)] by blast
  with assms(3) enter_acquire [OF assms(1)] enter_pending [OF assms(2), of s] show ?thesis
    by (simp add: with_pending_state_if_version_def Let_def)
qed

lemma if_version_effect_failed:
  assumes "coord_inv c" and "Suc (co_version c) < version_limit"
    and "vs_version (arc_val (snapshot_versioned c)) = v"
    and "write_round env c s = (acks, evs)" and "\<not> round_fails acks" and "f s d = (d', Inl e)"
  shows "with_pending_state_if_version env c d v s f g =
    ((started c)\<lparr>co_world := emit (abandoned_events effect_failed_reason env c s)
        (release (emit [EffectRun] (emit evs (entered c))))\<rparr>, d', Finished (Inl (CondEffect e)))"
  using assms enter_acquire [OF assms(1)] enter_pending [OF assms(2), of s]
  by (simp add: with_pending_state_if_version_def prepare_write_ok rollback_eq
      abandoned_events_def Let_def)

lemma if_version_committed:
  assumes "coord_inv c" and "Suc (Suc (co_version c)) < version_limit"
    and "vs_version (arc_val (snapshot_versioned c)) = v" and "env_interference env = None"
    and "write_round env c s = (acks, evs)" and "\<not> round_fails acks" and "f s d = (d', Inr u)"
  shows "\<exists>j. with_pending_state_if_version env c d v s f g =
    ((started c)\<lparr>co_world := emit (committed_events env c s)
        (release (install (next_state c s) (emit [EffectRun] (emit evs (entered c))))),
      co_next_change_id := j\<rparr>, d', Finished (Inr ()))"
proof -
  let ?w = "emit [EffectRun] (emit evs (entered c))"
  let ?tx = "prepared_tx acks (new_transaction (next_change c s) (clone_subscribers c) (co_strategy c))"
  let ?w' = "emit (committed_events env c s) (release (install (next_state c s) ?w))"
  have commit: "try_commit ?w ?tx = (release (install (next_state c s) ?w),
      Inr (?tx\<lparr>tx_guard := None, tx_permit := False\<rparr>))"
    using try_commit_swap [of ?tx "snapshot_versioned c" ?w] by (simp add: next_change_def next_state_def)
  obtain j where "mark_change_id_committed ((started c)\<lparr>co_world := ?w'\<rparr>) (change_id (next_change c s)) =
      Some ((started c)\<lparr>co_world := ?w', co_next_change_id := j\<rparr>)"
    using mark_started [OF assms(2)] by blast
  with commit assms enter_acquire [OF assms(1)] enter_pending [of c s] show ?thesis
    by (intro exI [of _ j])
      (simp add: with_pending_state_if_version_def prepare_write_ok interfere_def notify_committed_eq
        committed_events_def Let_def)
qed

text \<open>A lost race: the recovery effect runs on the state that won, before the rollback is announced.\<close>

lemma if_version_raced:
  assumes "coord_inv c" and "Suc (co_version c) < version_limit"
    and "vs_version (arc_val (snapshot_versioned c)) = v"
    and "env_interference env = Some vs" and "Suc (version_nat (vs_version vs)) < version_limit"
    and "write_round env c s = (acks, evs)" and "\<not> round_fails acks"
    and "f s d = (d', Inr u)" and "g (vs_state vs) d' = (d'', r)"
  shows "\<exists>j. with_pending_state_if_version env c d v s f g =
    ((started c)\<lparr>co_world := emit (abandoned_events (race_reason c vs) env c s)
        (release (emit [RecoveryRun]
          ((interfere (Some vs) (emit [EffectRun] (emit evs (entered c))))
             \<lparr>w_fresh := Suc (Suc (w_fresh (co_world c)))\<rparr>))),
      co_next_change_id := j\<rparr>, d'',
     Finished (Inl (case r of Inr _ \<Rightarrow> CondState (StateCasMismatch v (vs_version vs))
                    | Inl e \<Rightarrow> CondRecovery (StateCasMismatch v (vs_version vs)) e)))"
proof -
  let ?w = "interfere (Some vs) (emit [EffectRun] (emit evs (entered c)))"
  let ?tx = "prepared_tx acks (new_transaction (next_change c s) (clone_subscribers c) (co_strategy c))"
  let ?w1 = "?w\<lparr>w_fresh := Suc (Suc (w_fresh (co_world c)))\<rparr>"
  have ptr: "arc_ptr (w_store ?w) \<noteq> arc_ptr (snapshot_versioned c)"
    using assms(1) by (simp add: interfere_def coord_inv_def snapshot_versioned_def)
  have store: "w_store ?w1 = \<lparr>arc_ptr = w_fresh (co_world c), arc_val = vs\<rparr>"
    by (simp add: interfere_def)
  have fresh: "w_fresh ?w = Suc (w_fresh (co_world c))"
    by (simp add: interfere_def)
  have commit: "try_commit ?w ?tx = (?w1,
      Inl \<lparr>mm_tx = ?tx, mm_expected = v, mm_actual = vs_version vs\<rparr>)"
    using assms(3) fresh store try_commit_mismatch [OF _ ptr, of ?tx] by (simp add: next_change_def)
  obtain j where err: "mismatch_error (snapshot_versioned c) ((started c)\<lparr>co_world := ?w1\<rparr>) =
      Some ((started c)\<lparr>co_world := ?w1, co_next_change_id := j\<rparr>, StateCasMismatch v (vs_version vs))"
    using mismatch_error_ok [of ?w1 "snapshot_versioned c" "started c"] assms(3,5) store by auto
  have snap: "snapshot ((started c)\<lparr>co_world := ?w1, co_next_change_id := j\<rparr>) = vs_state vs"
    using store by (simp add: snapshot_def)
  show ?thesis
    using commit err snap assms enter_acquire [OF assms(1)] enter_pending [OF assms(2), of s]
    by (intro exI [of _ j])
      (simp add: with_pending_state_if_version_def prepare_write_ok mismatch_notify_rollback_def
        mismatch_reason_def rollback_eq abandoned_events_def race_reason_def Let_def)
qed

end
