(* ===== verification/State_Protocol.thy ===== *)
theory State_Protocol
  imports State_Coordinator
begin

text \<open>
  What the coordinator promises its callers and its subscribers.

  \<^item> To a caller it is a versioned register: a write either takes effect as a whole and moves
    the version by one, or leaves value and version alone. The locale \<open>versioned_register\<close>
    states this contract, its lemmas hold of every run of writes, and the coordinator's
    operations interpret it.
  \<^item> To a subscriber it is a two-phase protocol: whoever was asked to prepare hears afterwards
    either that the change committed or that it was rolled back, never both and never neither.
\<close>

section \<open>The versioned register\<close>

text \<open>The writes of a run that were accepted, in order.\<close>

fun accepted_writes ::
    "('op \<Rightarrow> 's \<Rightarrow> 's) \<Rightarrow> ('op \<Rightarrow> 's \<Rightarrow> bool) \<Rightarrow> 'op list \<Rightarrow> 's \<Rightarrow> 'op list" where
  "accepted_writes wr accepted [] s = []"
| "accepted_writes wr accepted (w # ws) s =
     (if accepted w s then [w] else []) @ accepted_writes wr accepted ws (wr w s)"

locale versioned_register =
  fixes invar :: "'s \<Rightarrow> bool"
    and ver :: "'s \<Rightarrow> nat"
    and val :: "'s \<Rightarrow> 'v"
    and wr :: "'op \<Rightarrow> 's \<Rightarrow> 's"
    and accepted :: "'op \<Rightarrow> 's \<Rightarrow> bool"
    and payload :: "'op \<Rightarrow> 'v"
    and admissible :: "'op \<Rightarrow> bool"
    and limit :: nat
  assumes wr_invar: "invar s \<Longrightarrow> admissible w \<Longrightarrow> ver s < limit \<Longrightarrow> invar (wr w s)"
    and wr_accepted: "invar s \<Longrightarrow> admissible w \<Longrightarrow> ver s < limit \<Longrightarrow> accepted w s \<Longrightarrow>
      ver (wr w s) = Suc (ver s) \<and> val (wr w s) = payload w"
    and wr_refused: "invar s \<Longrightarrow> admissible w \<Longrightarrow> ver s < limit \<Longrightarrow> \<not> accepted w s \<Longrightarrow>
      ver (wr w s) = ver s \<and> val (wr w s) = val s"
begin

lemma step_ver: "invar s \<Longrightarrow> admissible w \<Longrightarrow> ver s < limit \<Longrightarrow>
    ver (wr w s) = ver s + (if accepted w s then 1 else 0)"
  using wr_accepted [of s w] wr_refused [of s w] by auto

lemma step_val: "invar s \<Longrightarrow> admissible w \<Longrightarrow> ver s < limit \<Longrightarrow>
    val (wr w s) = (if accepted w s then payload w else val s)"
  using wr_accepted [of s w] wr_refused [of s w] by auto

theorem run_register:
  assumes "invar s" and "list_all admissible ws" and "ver s + length ws \<le> limit"
  shows "invar (fold wr ws s)" (is ?inv)
    and "ver (fold wr ws s) = ver s + length (accepted_writes wr accepted ws s)" (is ?ver)
    and "val (fold wr ws s) = last (val s # map payload (accepted_writes wr accepted ws s))" (is ?val)
proof -
  have "?inv \<and> ?ver \<and> ?val"
    using assms
  proof (induction ws arbitrary: s)
    case Nil
    then show ?case by simp
  next
    case (Cons w ws)
    then have w: "invar s" "admissible w" "ver s < limit" by auto
    have "ver (wr w s) + length ws \<le> limit"
      using Cons.prems step_ver [OF w] by auto
    with Cons.IH [of "wr w s"] Cons.prems wr_invar [OF w]
    have "invar (fold wr ws (wr w s))"
      and "ver (fold wr ws (wr w s)) = ver (wr w s) + length (accepted_writes wr accepted ws (wr w s))"
      and "val (fold wr ws (wr w s)) =
        last (val (wr w s) # map payload (accepted_writes wr accepted ws (wr w s)))" by auto
    then show ?case using step_ver [OF w] step_val [OF w] by auto
  qed
  then show ?inv ?ver ?val by auto
qed

end

section \<open>A call and its result\<close>

fun finished_ok :: "('e + 'r) outcome \<Rightarrow> bool" where
  "finished_ok (Finished (Inr r)) = True"
| "finished_ok _ = False"

fun is_finished :: "'r outcome \<Rightarrow> bool" where
  "is_finished (Finished r) = True"
| "is_finished _ = False"

lemma upsert_state_cases:
  assumes "coord_inv c" and "Suc (Suc (co_version c)) < version_limit"
    and "env_interference env = None"
  obtains (refused) acks evs where "write_round env c s = (acks, evs)" "round_fails acks"
      "write_refused env c s" "upsert_state env c s =
        ((started c)\<lparr>co_world := emit (refused_events env c s) (release (emit evs (entered c)))\<rparr>,
         Finished (Inl (PrepareAck \<lparr>subscriber_acks = acks\<rparr>)))"
    | (committed) acks evs j where "write_round env c s = (acks, evs)" "\<not> round_fails acks"
      "\<not> write_refused env c s" "upsert_state env c s =
        ((started c)\<lparr>co_world := emit (committed_events env c s)
            (release (install (next_state c s) (emit evs (entered c)))), co_next_change_id := j\<rparr>,
         Finished (Inr \<lparr>subscriber_acks = acks\<rparr>))"
proof -
  obtain acks evs where r: "write_round env c s = (acks, evs)" by fastforce
  show thesis
  proof (cases "round_fails acks")
    case True
    with assms r upsert_state_refused [OF assms(1) _ r True] that(1) show thesis
      by (simp add: write_refused_def)
  next
    case False
    with assms r upsert_state_committed [OF assms(1) _ assms(3) r False] that(2) show thesis
      by (auto simp: write_refused_def)
  qed
qed


lemma snapshot_install [simp]:
  "snapshot (c\<lparr>co_world := w, co_next_change_id := j\<rparr>) = vs_state (arc_val (w_store w))"
  "snapshot (c\<lparr>co_world := w\<rparr>) = vs_state (arc_val (w_store w))"
  by (simp_all add: snapshot_def)

lemma next_state_state [simp]: "vs_state (next_state c s) = s"
  by (simp add: next_state_def)

lemma coord_inv_store: "coord_inv c \<Longrightarrow> arc_ptr (snapshot_versioned c) < w_fresh (co_world c)"
  by (simp add: coord_inv_def snapshot_versioned_def)

section \<open>Who hears what\<close>

fun prepared_name :: "'T event \<Rightarrow> string option" where
  "prepared_name (PrepareSent n ch) = Some n"
| "prepared_name _ = None"

fun committed_name :: "'T event \<Rightarrow> string option" where
  "committed_name (CommittedSent n ch) = Some n"
| "committed_name _ = None"

fun rolled_back_name :: "'T event \<Rightarrow> string option" where
  "rolled_back_name (RolledBackSent n ch r) = Some n"
| "rolled_back_name _ = None"

definition prepared_names :: "'T event list \<Rightarrow> string list" where
  "prepared_names evs = List.map_filter prepared_name evs"

definition committed_names :: "'T event list \<Rightarrow> string list" where
  "committed_names evs = List.map_filter committed_name evs"

definition rolled_back_names :: "'T event list \<Rightarrow> string list" where
  "rolled_back_names evs = List.map_filter rolled_back_name evs"

lemmas names_defs = prepared_names_def committed_names_def rolled_back_names_def

lemma names_append [simp]:
  "prepared_names (xs @ ys) = prepared_names xs @ prepared_names ys"
  "committed_names (xs @ ys) = committed_names xs @ committed_names ys"
  "rolled_back_names (xs @ ys) = rolled_back_names xs @ rolled_back_names ys"
  by (simp_all add: names_defs List.map_filter_def)

lemma names_Cons [simp]:
  "prepared_names (e # xs) = (case prepared_name e of None \<Rightarrow> [] | Some n \<Rightarrow> [n]) @ prepared_names xs"
  "committed_names (e # xs) = (case committed_name e of None \<Rightarrow> [] | Some n \<Rightarrow> [n]) @ committed_names xs"
  "rolled_back_names (e # xs) =
     (case rolled_back_name e of None \<Rightarrow> [] | Some n \<Rightarrow> [n]) @ rolled_back_names xs"
  by (simp_all add: names_defs List.map_filter_def split: option.splits)

lemma names_Nil [simp]:
  "prepared_names [] = []" "committed_names [] = []" "rolled_back_names [] = []"
  by (simp_all add: names_defs List.map_filter_def)

lemma names_map [simp]:
  "prepared_names (map (\<lambda>x. PrepareSent (sub_name x) ch) ss) = map sub_name ss"
  "committed_names (map (\<lambda>x. PrepareSent (sub_name x) ch) ss) = []"
  "rolled_back_names (map (\<lambda>x. PrepareSent (sub_name x) ch) ss) = []"
  "prepared_names (map (\<lambda>x. CommittedSent (sub_name x) ch) ss) = []"
  "committed_names (map (\<lambda>x. CommittedSent (sub_name x) ch) ss) = map sub_name ss"
  "rolled_back_names (map (\<lambda>x. CommittedSent (sub_name x) ch) ss) = []"
  "prepared_names (map (\<lambda>x. RolledBackSent (sub_name x) ch r) ss) = []"
  "committed_names (map (\<lambda>x. RolledBackSent (sub_name x) ch r) ss) = []"
  "rolled_back_names (map (\<lambda>x. RolledBackSent (sub_name x) ch r) ss) = map sub_name ss"
  by (induction ss) simp_all

text \<open>A subscriber that is up, or down, for the whole transaction.\<close>

definition stable_shutdown :: "'T Subscriber \<Rightarrow> bool" where
  "stable_shutdown x =
     (sub_is_shutdown x CommittedPhase = sub_is_shutdown x PreparePhase \<and>
      sub_is_shutdown x RolledBackPhase = sub_is_shutdown x PreparePhase)"

lemma live_in_stable:
  "list_all stable_shutdown subs \<Longrightarrow> live_in p subs = live_in PreparePhase subs"
  by (cases p) (auto simp: live_in_def stable_shutdown_def list_all_iff intro: filter_cong)

lemma coord_subscriber_names:
  assumes "coord_inv c"
  shows "map sub_name (clone_subscribers c) = im_keys (co_subscribers c)"
    and "distinct (map sub_name (clone_subscribers c))"
proof -
  have "list_all (\<lambda>(n, x). sub_name x = n) (co_subscribers c)"
    using assms by (simp add: coord_inv_def)
  then show *: "map sub_name (clone_subscribers c) = im_keys (co_subscribers c)"
    by (auto simp: clone_subscribers_def list_all_iff)
  show "distinct (map sub_name (clone_subscribers c))"
    unfolding * using assms by (simp add: coord_inv_def im_wf_def)
qed

text \<open>An acknowledgement round skips exactly subscribers that are down: nobody who was asked is
  dropped from the later phases.\<close>

lemma round_acks_from:
  assumes "prepare_round sch strategy change subs = (acks, evs)" and "a \<in> set acks"
    and "sa_status a = SkippedShutdown" and "length subs < usize_max"
  shows "\<exists>x \<in> set subs. sub_name x = sa_name a \<and> sub_is_shutdown x PreparePhase"
proof (cases strategy)
  case Parallel
  then have "acks = map snd (joined_in_order sch change subs)"
    using assms(1) parallel_joined [OF assms(4)] by (metis prepare_round_def NotifyStrategy.case(1) fst_conv)
  with assms(2) obtain i where i: "i < length subs" "a = snd (join_result sch change subs i)"
    by (auto simp: joined_in_order_def)
  with assms(3) have "a = fst (notify_one_prepare change (subs ! i))"
    by (auto simp: join_result_def join_failure_ack_def split: if_splits)
  with assms(3) i(1) show ?thesis
    by (intro bexI [of _ "subs ! i"]) (auto simp: notify_one_prepare_skipped)
next
  case Sequential
  with assms(1) obtain n where "acks = map (fst \<circ> notify_one_prepare change) (take n subs)"
    using sequential_prefix [of change subs] by (auto simp: prepare_round_def)
  with assms(2,3) show ?thesis
    by (auto simp: notify_one_prepare_skipped dest: in_set_takeD)
qed

lemma retain_live_live:
  assumes "prepare_round sch strategy change subs = (acks, evs)" and "length subs < usize_max"
    and "distinct (map sub_name subs)"
  shows "live_in PreparePhase (retain_live acks subs) = live_in PreparePhase subs"
proof -
  have "sub_name x \<notin> retained_names acks"
    if x: "x \<in> set subs" "\<not> sub_is_shutdown x PreparePhase" for x
  proof
    assume "sub_name x \<in> retained_names acks"
    then obtain a where "a \<in> set acks" "sa_status a = SkippedShutdown" "sa_name a = sub_name x"
      by (auto simp: retained_names_def)
    with round_acks_from [OF assms(1) this(1,2) assms(2)] obtain y where
      "y \<in> set subs" "sub_name y = sub_name x" "sub_is_shutdown y PreparePhase" by metis
    with x assms(3) show False by (auto simp: distinct_map dest: inj_onD)
  qed
  then show ?thesis
    unfolding live_in_def retain_live_eq filter_filter by (intro filter_cong) auto
qed


lemma round_events_live:
  assumes "prepare_round sch strategy change subs = (acks, evs)"
  obtains n where "evs = map (\<lambda>x. PrepareSent (sub_name x) change) (live_in PreparePhase (take n subs))"
    "strategy = Sequential \<Longrightarrow> acks = map (fst \<circ> notify_one_prepare change) (take n subs)"
    "strategy = Parallel \<or> \<not> round_fails acks \<Longrightarrow> take n subs = subs"
proof (cases strategy)
  case Parallel
  with assms that [of "length subs"] show ?thesis
    by (auto simp: prepare_round_def notify_all_prepare_parallel_def prepare_events_live Let_def)
next
  case Sequential
  then have seq: "notify_all_prepare_sequential change subs = (acks, evs)"
    using assms by (simp add: prepare_round_def)
  show ?thesis
  proof (cases "round_fails acks")
    case True
    from sequential_prefix [of change subs] seq Sequential True that show ?thesis
      by (auto simp: prepare_events_live)
  next
    case False
    with seq sequential_no_failure [of change subs] Sequential that [of "length subs"] show ?thesis
      by (auto simp: prepare_events_live)
  qed
qed

lemma write_round_names:
  assumes "write_round env c s = (acks, evs)"
  shows "committed_names evs = []" and "rolled_back_names evs = []"
  using assms unfolding write_round_def by (auto elim!: round_events_live)

lemma retain_acked_take:
  assumes "acks = map (fst \<circ> notify_one_prepare change) (take n subs)" and "distinct (map sub_name subs)"
  shows "retain_acked acks (filter P subs) = filter P (take n subs)"
proof -
  have "list_ex (\<lambda>a. sa_name a = sub_name x) acks = (x \<in> set (take n subs))" if "x \<in> set subs" for x
    using that assms
    by (auto simp: list_ex_iff distinct_map dest: in_set_takeD inj_onD intro: bexI [of _ x])
  then have "retain_acked acks (filter P subs) = filter P (filter (\<lambda>x. x \<in> set (take n subs)) subs)"
    unfolding retain_acked_def filter_filter by (intro filter_cong) auto
  also have "filter (\<lambda>x. x \<in> set (take n subs)) subs = take n subs"
  proof -
    have "distinct subs" using assms(2) by (simp add: distinct_map)
    then have "distinct (take n subs @ drop n subs)" by simp
    then have "filter (\<lambda>x. x \<in> set (take n subs)) (take n subs @ drop n subs) = take n subs"
      by (auto simp: filter_id_conv filter_empty_conv simp del: append_take_drop_id)
    then show ?thesis by simp
  qed
  finally show ?thesis .
qed

text \<open>A refused change is rolled back at exactly the subscribers that were asked.\<close>

lemma round_refused_names:
  assumes "prepare_round sch strategy change subs = (acks, evs)" and "round_fails acks"
    and "length subs < usize_max" and "distinct (map sub_name subs)"
  shows "prepared_names evs = map sub_name (live_in PreparePhase (rollback_targets strategy acks subs))"
proof -
  obtain n where n: "evs = map (\<lambda>x. PrepareSent (sub_name x) change) (live_in PreparePhase (take n subs))"
    "strategy = Sequential \<Longrightarrow> acks = map (fst \<circ> notify_one_prepare change) (take n subs)"
    "strategy = Parallel \<or> \<not> round_fails acks \<Longrightarrow> take n subs = subs"
    using round_events_live [OF assms(1)] by metis
  show ?thesis
  proof (cases strategy)
    case Parallel
    with n retain_live_live [OF assms(1,3,4)] show ?thesis by (simp add: rollback_targets_def)
  next
    case Sequential
    have "live_in PreparePhase (retain_acked acks (retain_live acks subs)) =
        retain_acked acks (live_in PreparePhase (retain_live acks subs))"
      by (auto simp: live_in_def retain_acked_def intro: filter_cong)
    also have "\<dots> = retain_acked acks (filter (\<lambda>x. \<not> sub_is_shutdown x PreparePhase) subs)"
      using retain_live_live [OF assms(1,3,4)] by (simp add: live_in_def)
    also have "\<dots> = live_in PreparePhase (take n subs)"
      using retain_acked_take [OF n(2) [OF Sequential] assms(4)] by (simp add: live_in_def)
    finally show ?thesis using Sequential n by (simp add: rollback_targets_def)
  qed
qed

lemma stable_shutdown_filters:
  "list_all stable_shutdown subs \<Longrightarrow> list_all stable_shutdown (retain_live acks subs)"
  "list_all stable_shutdown subs \<Longrightarrow> list_all stable_shutdown (rollback_targets strategy acks subs)"
  by (auto simp: retain_live_eq rollback_targets_def retain_acked_def list_all_iff)

text \<open>The three endings of a write, as its subscribers hear them.\<close>

lemma write_names:
  assumes "coord_inv c" and "length (co_subscribers c) < usize_max"
    and "list_all stable_shutdown (clone_subscribers c)" and "write_round env c s = (acks, evs)"
  shows "committed_names evs = []" and "rolled_back_names evs = []"
    and "round_fails acks \<Longrightarrow> rolled_back_names (refused_events env c s) = prepared_names evs"
    and "\<not> round_fails acks \<Longrightarrow> committed_names (committed_events env c s) = prepared_names evs"
    and "\<not> round_fails acks \<Longrightarrow> rolled_back_names (abandoned_events reason env c s) = prepared_names evs"
proof -
  let ?subs = "clone_subscribers c"
  have round: "prepare_round (env_schedule env) (co_strategy c) (next_change c s) ?subs = (acks, evs)"
    using assms(4) by (simp add: write_round_def)
  have len: "length ?subs < usize_max" using assms(2) by (simp add: clone_subscribers_def)
  note dist = coord_subscriber_names(2) [OF assms(1)]
  note stable = stable_shutdown_filters [OF assms(3)]
  obtain n where evs: "evs = map (\<lambda>x. PrepareSent (sub_name x) (next_change c s))
      (live_in PreparePhase (take n ?subs))"
    and all: "\<not> round_fails acks \<Longrightarrow> take n ?subs = ?subs"
    using round_events_live [OF round] by metis
  show "committed_names evs = []" "rolled_back_names evs = []"
    by (simp_all add: evs)
  show "rolled_back_names (refused_events env c s) = prepared_names evs" if "round_fails acks"
    using round_refused_names [OF round that len dist] assms(4)
    by (simp add: refused_events_def live_in_stable [OF stable(2), of RolledBackPhase] Let_def)
  show "committed_names (committed_events env c s) = prepared_names evs" if "\<not> round_fails acks"
    using all [OF that] retain_live_live [OF round len dist] assms(4)
    by (simp add: committed_events_def live_in_stable [OF stable(1), of CommittedPhase] evs)
  show "rolled_back_names (abandoned_events reason env c s) = prepared_names evs" if "\<not> round_fails acks"
    using all [OF that] retain_live_live [OF round len dist] assms(4)
    by (simp add: abandoned_events_def live_in_stable [OF stable(1), of RolledBackPhase] evs)
qed

lemma ending_names [simp]:
  "prepared_names (refused_events env c s) = []" "committed_names (refused_events env c s) = []"
  "prepared_names (committed_events env c s) = []" "rolled_back_names (committed_events env c s) = []"
  "prepared_names (abandoned_events reason env c s) = []"
  "committed_names (abandoned_events reason env c s) = []"
  by (simp_all add: refused_events_def committed_events_def abandoned_events_def Let_def)


section \<open>A concrete coordinator\<close>

text \<open>A coordinator over numbers with two required subscribers and an advisory one, on which the
  properties below are instantiated: \<open>core\<close> refuses states above 10, \<open>tray\<close> never answers,
  \<open>old\<close> has shut down.\<close>

definition demo_core :: "nat Subscriber" where
  "demo_core =
     \<lparr>sub_name = ''core'', sub_ack_options = ack_options_default, sub_is_shutdown = (\<lambda>p. False),
      sub_on_prepare = (\<lambda>ch. Ready 5 (if change_current ch \<le> 10 then AckOk else AckRejected ''big'')),
      sub_on_committed = (\<lambda>ch. Ready 1 AckOk), sub_on_rolled_back = (\<lambda>ch r. Ready 1 ())\<rparr>"

definition demo_tray :: "nat Subscriber" where
  "demo_tray =
     demo_core\<lparr>sub_name := ''tray'', sub_ack_options := \<lparr>opt_timeout = 100, opt_policy = Advisory\<rparr>,
               sub_on_prepare := (\<lambda>ch. Pending)\<rparr>"

definition demo_old :: "nat Subscriber" where
  "demo_old = demo_core\<lparr>sub_name := ''old'', sub_is_shutdown := (\<lambda>p. True)\<rparr>"

definition demo_coord :: "NotifyStrategy \<Rightarrow> nat StateCoordinator" where
  "demo_coord strategy =
     build (foldl with_subscriber (with_notify_strategy builder_default strategy)
             [demo_core, demo_tray, demo_old]) 7"

definition demo_env :: "nat VersionedState option \<Rightarrow> nat env" where
  "demo_env i =
     \<lparr>env_schedule = \<lparr>completes_at = (\<lambda>i. 10 - i), join_error = (\<lambda>i. False)\<rparr>, env_interference = i\<rparr>"

lemma demo_coord_eq:
  "demo_coord strategy =
     build \<lparr>cb_strategy = strategy,
            cb_subscribers = [(''core'', demo_core), (''tray'', demo_tray), (''old'', demo_old)]\<rparr> 7"
  by (simp add: demo_coord_def builder_default_def with_notify_strategy_def with_subscriber_def
      demo_core_def demo_tray_def demo_old_def)

lemma demo_simps [simp]:
  "coord_inv (demo_coord strategy)"
  "version_nat (Version 0) = 0"
  "vs_version (arc_val (snapshot_versioned (demo_coord strategy))) = Version 0"
  "snapshot (demo_coord strategy) = 7"
  "co_strategy (demo_coord strategy) = strategy"
  "clone_subscribers (demo_coord strategy) = [demo_core, demo_tray, demo_old]"
  "length (co_subscribers (demo_coord strategy)) = 3"
  "w_trace (co_world (demo_coord strategy)) = []"
  "env_interference (demo_env i) = i"
  by (simp_all add: demo_coord_eq coord_inv_def build_def im_wf_def demo_core_def demo_tray_def
      demo_old_def snapshot_versioned_def snapshot_def version_default_def version_nat_def
      clone_subscribers_def demo_env_def)

lemma demo_stable [simp]:
  "stable_shutdown demo_core" "stable_shutdown demo_tray" "stable_shutdown demo_old"
  by (simp_all add: stable_shutdown_def demo_core_def demo_tray_def demo_old_def)

text \<open>Its acknowledgement rounds, computed: small states pass, large ones are refused, whatever
  the strategy.\<close>

lemma demo_round_seq:
  "fst (write_round (demo_env i) (demo_coord Sequential) s) =
     (if s \<le> 10 then
        [\<lparr>sa_name = ''core'', sa_policy = Required, sa_timeout = 30000, sa_elapsed = 5, sa_status = Acked\<rparr>,
         \<lparr>sa_name = ''tray'', sa_policy = Advisory, sa_timeout = 100, sa_elapsed = 100, sa_status = TimedOut\<rparr>,
         \<lparr>sa_name = ''old'', sa_policy = Required, sa_timeout = 30000, sa_elapsed = 0,
          sa_status = SkippedShutdown\<rparr>]
      else
        [\<lparr>sa_name = ''core'', sa_policy = Required, sa_timeout = 30000, sa_elapsed = 5,
          sa_status = Rejected ''big''\<rparr>])"
  by (simp add: write_round_def prepare_round_def notify_one_prepare_def next_change_def
      demo_core_def demo_tray_def demo_old_def ack_options_default_def is_required_failure_def Let_def)

lemma demo_refused_seq: "write_refused (demo_env i) (demo_coord Sequential) s = (10 < s)"
  by (simp add: write_refused_def demo_round_seq is_required_failure_def)

lemma demo_round_par:
  "fst (write_round (demo_env i) (demo_coord Parallel) s) =
     map (fst \<circ> notify_one_prepare (next_change (demo_coord Parallel) s))
       [demo_core, demo_tray, demo_old]"
  unfolding write_round_def prepare_round_def
  by (simp add: parallel_no_join_errors usize_max_def demo_env_def)

lemma demo_refused_par: "write_refused (demo_env i) (demo_coord Parallel) s = (10 < s)"
  by (simp add: write_refused_def demo_round_par notify_one_prepare_def next_change_def demo_core_def
      demo_tray_def demo_old_def ack_options_default_def is_required_failure_def Let_def)

lemmas demo_refused = demo_refused_seq demo_refused_par

section \<open>Properties of writes\<close>

text \<open>C15: A write through \<^verbatim>\<open>upsert_state\<close> is atomic. From a coordinator at rest, with no other
  writer of the store, it always finishes and leaves the coordinator at rest (its permit is
  free again). If a required subscriber refused, failed or timed out in the acknowledgement round
  the call returns that report and the published state is the very same allocation; otherwise
  it succeeds, the new state is published and the version moved by exactly one.\<close>

theorem upsert_state_atomic:
  assumes "coord_inv c" and "Suc (Suc (co_version c)) < 2 ^ 64" and "env_interference env = None"
    and "upsert_state env c s = (c', out)"
  shows "coord_inv c' \<and> co_subscribers c' = co_subscribers c \<and>
    (if write_refused env c s
     then out = Finished (Inl (PrepareAck \<lparr>subscriber_acks = fst (write_round env c s)\<rparr>)) \<and>
          snapshot_versioned c' = snapshot_versioned c
     else out = Finished (Inr \<lparr>subscriber_acks = fst (write_round env c s)\<rparr>) \<and>
          snapshot c' = s \<and> co_version c' = Suc (co_version c))"
  using assms(1-3)
proof (cases rule: upsert_state_cases [where s = s])
  case (refused acks evs)
  with assms show ?thesis by (auto intro!: coord_inv_started simp: coord_inv_store)
next
  case (committed acks evs j)
  with assms show ?thesis
    by (auto intro!: coord_inv_started simp: next_state_version)
qed

theorem upsert_state_atomic_witness:
  "snd (upsert_state (demo_env None) (demo_coord Parallel) 9) =
     Finished (Inr \<lparr>subscriber_acks = fst (write_round (demo_env None) (demo_coord Parallel) 9)\<rparr>) \<and>
   snapshot (fst (upsert_state (demo_env None) (demo_coord Parallel) 9)) = 9 \<and>
   snapshot_versioned (fst (upsert_state (demo_env None) (demo_coord Sequential) 11)) =
     snapshot_versioned (demo_coord Sequential)"
  using upsert_state_atomic [of "demo_coord Parallel" "demo_env None" 9, OF _ _ _ pair_eta]
    upsert_state_atomic [of "demo_coord Sequential" "demo_env None" 11, OF _ _ _ pair_eta]
  by (simp add: demo_refused)


text \<open>C13: No lost updates. When somebody else publishes a state between the snapshot a write took
  and its compare-and-swap, the accepted write does not overwrite it: the call reports the mismatch
  with both versions, the foreign state stays published, nobody is told that the change
  committed, and the coordinator is at rest again.\<close>

theorem upsert_state_no_lost_update:
  assumes "coord_inv c" and "Suc (co_version c) < 2 ^ 64"
    and "env_interference env = Some vs" and "Suc (version_nat (vs_version vs)) < 2 ^ 64"
    and "\<not> write_refused env c s"
    and "upsert_state env c s = (c', out)"
  shows "out = Finished (Inl (StateCasMismatch
             (vs_version (arc_val (snapshot_versioned c))) (vs_version vs))) \<and>
    arc_val (snapshot_versioned c') = vs \<and> coord_inv c' \<and>
    committed_names (w_trace (co_world c')) = committed_names (w_trace (co_world c))"
proof -
  obtain acks evs where r: "write_round env c s = (acks, evs)" by fastforce
  have nf: "\<not> round_fails acks" using assms(5) r by (simp add: write_refused_def)
  from write_round_names [OF r] upsert_state_raced [OF assms(1-4) r nf] assms show ?thesis
    by (auto intro!: coord_inv_started)
qed

theorem upsert_state_no_lost_update_witness:
  "arc_val (snapshot_versioned (fst (upsert_state (demo_env (Some \<lparr>vs_version = Version 4, vs_state = 2\<rparr>))
     (demo_coord Sequential) 9))) = \<lparr>vs_version = Version 4, vs_state = 2\<rparr>"
  using upsert_state_no_lost_update [of "demo_coord Sequential"
      "demo_env (Some \<lparr>vs_version = Version 4, vs_state = 2\<rparr>)" "\<lparr>vs_version = Version 4, vs_state = 2\<rparr>" 9,
      OF _ _ _ _ _ pair_eta]
  by (simp add: demo_refused version_nat_def)

text \<open>C14: The two-phase protocol, as the subscribers of a write see it. Provided no subscriber shuts
  down half-way, whatever the subscribers answer, in either dispatch strategy, in every completion
  order of the tasks (failures to join included) and also when the compare-and-swap is lost:
  if the call succeeds, exactly the subscribers that were asked to prepare are told, in the same
  order, that the change committed, and nobody is told of a rollback; if it fails, exactly those are
  told of the rollback and nobody of a commit.\<close>

theorem upsert_state_two_phase:
  assumes "coord_inv c" and "length (co_subscribers c) < usize_max"
    and "list_all stable_shutdown (clone_subscribers c)"
    and "Suc (Suc (co_version c)) < 2 ^ 64"
    and "\<And>vs. env_interference env = Some vs \<Longrightarrow> Suc (version_nat (vs_version vs)) < 2 ^ 64"
    and "upsert_state env c s = (c', out)"
    and "w_trace (co_world c') = w_trace (co_world c) @ evs"
  shows "is_finished out \<and>
    (if finished_ok out
     then committed_names evs = prepared_names evs \<and> rolled_back_names evs = []
     else rolled_back_names evs = prepared_names evs \<and> committed_names evs = [])"
proof -
  obtain acks pre where r: "write_round env c s = (acks, pre)" by fastforce
  note names = write_names [OF assms(1-3) r]
  have v: "Suc (co_version c) < 2 ^ 64" using assms(4) by simp
  consider (refused) "round_fails acks" | (quiet) "\<not> round_fails acks" "env_interference env = None"
    | (raced) vs where "\<not> round_fails acks" "env_interference env = Some vs" by fastforce
  then show ?thesis
  proof cases
    case refused
    with upsert_state_refused [OF assms(1) v r] names assms(6,7) show ?thesis by auto
  next
    case quiet
    with upsert_state_committed [OF assms(1,4) quiet(2) r] names assms(6,7) show ?thesis by auto
  next
    case raced
    with upsert_state_raced [OF assms(1) v raced(2) assms(5) r] names(1,2)
      names(5) [of "race_reason c vs"] assms(6,7) show ?thesis by auto
  qed
qed


theorem upsert_state_two_phase_witness:
  "rolled_back_names (w_trace (co_world (fst (upsert_state (demo_env None) (demo_coord Sequential) 11)))) =
     prepared_names (w_trace (co_world (fst (upsert_state (demo_env None) (demo_coord Sequential) 11)))) \<and>
   committed_names (w_trace (co_world (fst (upsert_state (demo_env None) (demo_coord Parallel) 9)))) =
     prepared_names (w_trace (co_world (fst (upsert_state (demo_env None) (demo_coord Parallel) 9))))"
proof -
  have "\<not> finished_ok (snd (upsert_state (demo_env None) (demo_coord Sequential) 11))"
    by (rule upsert_state_cases [of "demo_coord Sequential" "demo_env None" 11]) (simp_all add: demo_refused)
  moreover have "finished_ok (snd (upsert_state (demo_env None) (demo_coord Parallel) 9))"
    by (rule upsert_state_cases [of "demo_coord Parallel" "demo_env None" 9]) (simp_all add: demo_refused)
  moreover note upsert_state_two_phase [where c = "demo_coord Sequential" and env = "demo_env None" and s = 11
      and evs = "w_trace (co_world (fst (upsert_state (demo_env None) (demo_coord Sequential) 11)))",
      OF _ _ _ _ _ pair_eta]
    upsert_state_two_phase [where c = "demo_coord Parallel" and env = "demo_env None" and s = 9
      and evs = "w_trace (co_world (fst (upsert_state (demo_env None) (demo_coord Parallel) 9)))",
      OF _ _ _ _ _ pair_eta]
  ultimately show ?thesis by (simp add: usize_max_def)
qed

section \<open>Properties of writes with an effect\<close>

text \<open>The result of a write with an effect, by what the subscribers and the effect say.\<close>

definition effect_write_spec ::
    "'T env \<Rightarrow> 'T StateCoordinator \<Rightarrow> 'd \<Rightarrow> 'T \<Rightarrow> Duration option \<Rightarrow> ('T, 'd, 'e, 'r) effect \<Rightarrow>
     'd \<times> 'T \<times> nat \<times> ('e WithEffectError + 'r \<times> PrepareReport) outcome" where
  "effect_write_spec env c d s t f =
     (let report = \<lparr>subscriber_acks = fst (write_round env c s)\<rparr> in
      if write_refused env c s
      then (d, snapshot c, co_version c, Finished (Inl (EffectState (PrepareAck report))))
      else case await_effect t (snd (f s d)) of
             None \<Rightarrow> (fst (f s d), snapshot c, co_version c, Waiting)
           | Some (Inl e) \<Rightarrow> (fst (f s d), snapshot c, co_version c, Finished (Inl e))
           | Some (Inr r) \<Rightarrow> (fst (f s d), s, Suc (co_version c), Finished (Inr (r, report))))"

lemma with_pending_waiting:
  assumes "coord_inv c" and "Suc (co_version c) < version_limit"
    and "write_round env c s = (acks, evs)" and "\<not> round_fails acks"
    and "f s d = (d', fut)" and "await_effect t fut = None"
  shows "with_pending_state_inner env c d s t f =
    ((started c)\<lparr>co_world := emit [EffectRun] (emit evs (entered c))\<rparr>, d', Waiting)"
  using assms enter_acquire [OF assms(1)] enter_pending [OF assms(2), of s]
  by (simp add: with_pending_state_inner_def prepare_write_ok Let_def)

lemma effect_write_outcome:
  assumes "coord_inv c" and "Suc (Suc (co_version c)) < 2 ^ 64" and "env_interference env = None"
    and "with_pending_state_inner env c d s t f = (c', d', out)"
  shows "(d', snapshot c', co_version c', out) = effect_write_spec env c d s t f"
proof -
  obtain acks evs where r: "write_round env c s = (acks, evs)" by fastforce
  obtain d1 fut where f: "f s d = (d1, fut)" by fastforce
  have v: "Suc (co_version c) < 2 ^ 64" using assms(2) by simp
  show ?thesis
  proof (cases "round_fails acks")
    case True
    with with_pending_refused [OF assms(1) v r True, of d t f] assms(4) r show ?thesis
      by (auto simp: effect_write_spec_def write_refused_def snapshot_def)
  next
    case False
    consider (none) "await_effect t fut = None" | (err) e where "await_effect t fut = Some (Inl e)"
      | (ok) x where "await_effect t fut = Some (Inr x)"
      by (metis not_None_eq sum.exhaust)
    then show ?thesis
    proof cases
      case none
      with with_pending_waiting [where f = f and d = d and s = s, OF assms(1) v r False f none] assms(4) r f False show ?thesis
        by (auto simp: effect_write_spec_def write_refused_def snapshot_def)
    next
      case err
      with with_pending_effect_failed [where f = f and d = d and s = s, OF assms(1) v r False f err] assms(4) r f False show ?thesis
        by (auto simp: effect_write_spec_def write_refused_def snapshot_def)
    next
      case ok
      with with_pending_committed [where f = f and d = d and s = s, OF assms(1-3) r False f ok] assms(4) r f False show ?thesis
        by (auto simp: effect_write_spec_def write_refused_def next_state_version [OF v])
    qed
  qed
qed

text \<open>C16: A write with an effect between prepare and commit (the way the managers write their
  file) commits exactly when the subscribers accept and then the effect succeeds. A refusal means the
  effect never ran; a failing or overdue effect leaves the published state and its version as they
  were; a success publishes the new state under the next version.\<close>

theorem with_pending_state_outcome:
  assumes "coord_inv c" and "Suc (Suc (co_version c)) < 2 ^ 64" and "env_interference env = None"
    and "with_pending_state_inner env c d s t f = (c', d', out)"
  shows "(d', snapshot c', co_version c', out) = effect_write_spec env c d s t f"
  using assms by (rule effect_write_outcome)

text \<open>An effect that appends the state to a log and fails on odd numbers.\<close>

definition demo_effect :: "(nat, nat list, string, nat) effect" where
  "demo_effect s d = (s # d, Ready 20 (if even s then Inr (length d) else Inl ''odd''))"

theorem with_pending_state_outcome_witness:
  "fst (snd (with_pending_state_inner (demo_env None) (demo_coord Sequential) [] 12 None demo_effect)) = [] \<and>
   snapshot (fst (with_pending_state_inner (demo_env None) (demo_coord Sequential) [] 9 None demo_effect)) = 7 \<and>
   snapshot (fst (with_pending_state_inner (demo_env None) (demo_coord Parallel) [] 8 None demo_effect)) = 8"
  using with_pending_state_outcome [of "demo_coord Sequential" "demo_env None" "[]" 12 None demo_effect,
      OF _ _ _ triple_eta]
    with_pending_state_outcome [of "demo_coord Sequential" "demo_env None" "[]" 9 None demo_effect,
      OF _ _ _ triple_eta]
    with_pending_state_outcome [of "demo_coord Parallel" "demo_env None" "[]" 8 None demo_effect,
      OF _ _ _ triple_eta]
  by (simp add: effect_write_spec_def demo_refused demo_effect_def)

text \<open>C32: With a deadline on the effect no write hangs: \<^verbatim>\<open>with_pending_state_timeout\<close> called on a
  coordinator at rest always finishes, also when the effect never completes, when the
  subscribers never answer and when another writer wins the race; and it leaves the coordinator at rest,
  so the next writer gets the permit.\<close>

theorem with_timeout_finishes:
  assumes "coord_inv c" and "Suc (Suc (co_version c)) < 2 ^ 64"
    and "\<And>vs. env_interference env = Some vs \<Longrightarrow> Suc (version_nat (vs_version vs)) < 2 ^ 64"
    and "with_pending_state_timeout env c d s t f = (c', d', out)"
  shows "is_finished out \<and> coord_inv c' \<and> acquire (co_world c') \<noteq> None"
proof -
  obtain acks evs where r: "write_round env c s = (acks, evs)" by fastforce
  obtain d1 fut where f: "f s d = (d1, fut)" by fastforce
  have v: "Suc (co_version c) < 2 ^ 64" using assms(2) by simp
  have w: "with_pending_state_inner env c d s (Some t) f = (c', d', out)"
    using assms(4) by (simp add: with_pending_state_timeout_def)
  have aw: "await_effect (Some t) fut \<noteq> None"
    by (auto split: option.splits sum.splits)
  have "is_finished out \<and> coord_inv c'"
  proof (cases "round_fails acks")
    case True
    with with_pending_refused [OF assms(1) v r True, of d "Some t" f] w assms(1) show ?thesis
      by (auto intro!: coord_inv_started simp: coord_inv_store)
  next
    case nf: False
    consider (err) e where "await_effect (Some t) fut = Some (Inl e)"
      | (ok) x where "await_effect (Some t) fut = Some (Inr x)" "env_interference env = None"
      | (raced) x vs where "await_effect (Some t) fut = Some (Inr x)" "env_interference env = Some vs"
      using aw by (metis not_None_eq sum.exhaust)
    then show ?thesis
    proof cases
      case err
      with with_pending_effect_failed [where f = f and d = d and s = s, OF assms(1) v r nf f err] w assms(1) show ?thesis
        by (auto intro!: coord_inv_started simp: coord_inv_store)
    next
      case ok
      with with_pending_committed [where f = f and d = d and s = s, OF assms(1,2) ok(2) r nf f ok(1)] w assms(1) show ?thesis
        by (auto intro!: coord_inv_started)
    next
      case raced
      with with_pending_raced [where f = f and d = d and s = s, OF assms(1) v raced(2) assms(3) r nf f raced(1)] w assms(1) show ?thesis
        by (auto intro!: coord_inv_started)
    qed
  qed
  then show ?thesis by (simp add: enter_acquire)
qed

theorem with_timeout_finishes_witness:
  "is_finished (snd (snd (with_pending_state_timeout (demo_env None) (demo_coord Parallel) ()
     (9::nat) 50 (\<lambda>s d. (d, Pending :: (string + nat) future)))))"
  using with_timeout_finishes [of "demo_coord Parallel" "demo_env None" "()" 9 50
      "\<lambda>s d. (d, Pending :: (string + nat) future)", OF _ _ _ triple_eta] by simp

text \<open>Without a deadline an effect that never completes stalls the component: the call waits with
  the permit taken, nothing is published, and every later write waits as well.\<close>

theorem pending_effect_blocks_writers:
  assumes "coord_inv c" and "Suc (co_version c) < 2 ^ 64" and "\<not> write_refused env c s"
    and "f s d = (d1, Pending)" and "with_pending_state env c d s f = (c', d', out)"
  shows "out = Waiting \<and> snapshot_versioned c' = snapshot_versioned c \<and>
    (\<forall>env' s'. upsert_state env' c' s' = (c', Waiting))"
proof -
  obtain acks evs where r: "write_round env c s = (acks, evs)" by fastforce
  have "\<not> round_fails acks" using assms(3) r by (simp add: write_refused_def)
  from with_pending_waiting [where f = f and d = d and s = s, OF assms(1,2) r this assms(4), of None] assms(5) show ?thesis
    by (auto simp: with_pending_state_def upsert_state_def acquire_def)
qed

section \<open>Properties of conditional writes\<close>

text \<open>Optimistic concurrency. \<^verbatim>\<open>with_pending_state_if_version\<close> touches nothing unless the published
  version is the expected one. If it is and the effect ran but another writer published meanwhile,
  the recovery effect runs on the state that won, after the effect, and the call fails with
  the mismatch, or with the recovery's own error on top of it; the winner stays published.\<close>

theorem if_version_optimistic:
  assumes "coord_inv c" and "Suc (co_version c) < 2 ^ 64"
    and "\<And>vs. env_interference env = Some vs \<Longrightarrow> Suc (version_nat (vs_version vs)) < 2 ^ 64"
    and "with_pending_state_if_version env c d v s f g = (c', d', out)"
  shows "(vs_version (arc_val (snapshot_versioned c)) \<noteq> v \<longrightarrow>
      out = Finished (Inl (CondConflict (vs_version (arc_val (snapshot_versioned c))))) \<and>
      d' = d \<and> snapshot_versioned c' = snapshot_versioned c \<and> coord_inv c') \<and>
    (\<forall>vs d1. vs_version (arc_val (snapshot_versioned c)) = v \<and> \<not> write_refused env c s \<and>
       f s d = (d1, Inr ()) \<and> env_interference env = Some vs \<longrightarrow>
       d' = fst (g (vs_state vs) d1) \<and> arc_val (snapshot_versioned c') = vs \<and> coord_inv c' \<and>
       out = Finished (Inl (case snd (g (vs_state vs) d1) of
               Inr _ \<Rightarrow> CondState (StateCasMismatch v (vs_version vs))
             | Inl e \<Rightarrow> CondRecovery (StateCasMismatch v (vs_version vs)) e)))"
proof (intro conjI impI allI)
  assume "vs_version (arc_val (snapshot_versioned c)) \<noteq> v"
  from if_version_conflict [OF assms(1,2) this, of env d s f g] assms(4)
  have res: "c' = (started c)\<lparr>co_world := release (entered c)\<rparr>" "d' = d"
    "out = Finished (Inl (CondConflict (vs_version (arc_val (snapshot_versioned c)))))" by auto
  then show "out = Finished (Inl (CondConflict (vs_version (arc_val (snapshot_versioned c)))))" "d' = d"
    "snapshot_versioned c' = snapshot_versioned c" by auto
  show "coord_inv c'"
    unfolding res(1) using assms(1) by (intro coord_inv_started) (simp_all add: coord_inv_store)
next
  fix vs d1
  assume *: "vs_version (arc_val (snapshot_versioned c)) = v \<and> \<not> write_refused env c s \<and>
       f s d = (d1, Inr ()) \<and> env_interference env = Some vs"
  obtain acks evs where r: "write_round env c s = (acks, evs)" by fastforce
  with * have nf: "\<not> round_fails acks" by (simp add: write_refused_def)
  from * have h: "vs_version (arc_val (snapshot_versioned c)) = v" "env_interference env = Some vs"
    "f s d = (d1, Inr ())" by auto
  from if_version_raced [where f = f and d = d and s = s, OF assms(1,2) h(1,2) assms(3) r nf h(3) pair_eta] h
  obtain j where res: "with_pending_state_if_version env c d v s f g =
    ((started c)\<lparr>co_world := emit (abandoned_events (race_reason c vs) env c s)
        (release (emit [RecoveryRun]
          ((interfere (Some vs) (emit [EffectRun] (emit evs (entered c))))
             \<lparr>w_fresh := Suc (Suc (w_fresh (co_world c)))\<rparr>))),
      co_next_change_id := j\<rparr>, fst (g (vs_state vs) d1),
     Finished (Inl (case snd (g (vs_state vs) d1) of Inr _ \<Rightarrow> CondState (StateCasMismatch v (vs_version vs))
                    | Inl e \<Rightarrow> CondRecovery (StateCasMismatch v (vs_version vs)) e)))" by blast
  with assms(4) show "d' = fst (g (vs_state vs) d1)"
    "out = Finished (Inl (case snd (g (vs_state vs) d1) of
               Inr _ \<Rightarrow> CondState (StateCasMismatch v (vs_version vs))
             | Inl e \<Rightarrow> CondRecovery (StateCasMismatch v (vs_version vs)) e))"
    "arc_val (snapshot_versioned c') = vs" by (auto simp: interfere_def)
  show "coord_inv c'"
    using res assms(1,4) by (auto intro!: coord_inv_started simp: interfere_def)
qed

section \<open>Abandoned transactions\<close>

text \<open>C33: A prepared transaction that is dropped instead of being committed (its caller was cancelled)
  still announces its rollback: every subscriber that took part and is still up is told, once and
  in order, the permit is given back, and nothing is published.\<close>

theorem dropped_transaction_rolls_back:
  assumes "tx_permit tx" and "prepare sch w tx = (w1, Inr (report, tx1))"
  shows "w_trace (tx_drop w1 tx1) = w_trace w1 @
      map (\<lambda>x. RolledBackSent (sub_name x) (tx_change tx) dropped_reason)
        (live_in RolledBackPhase (retain_live (subscriber_acks report) (tx_subscribers tx))) @
      [PermitReleased] \<and>
    w_permits (tx_drop w1 tx1) = Suc (w_permits w) \<and> w_store (tx_drop w1 tx1) = w_store w"
proof -
  obtain acks evs where r: "prepare_round sch (tx_strategy tx) (tx_change tx) (tx_subscribers tx) = (acks, evs)"
    by fastforce
  have "\<not> round_fails acks"
    using assms prepare_Inl [OF r, of w] by fastforce
  from prepare_Inr [OF r this] assms show ?thesis
    by (auto simp: tx_drop_def guard_drop_def prepared_tx_def notify_rollback_eq drop_permit_def)
qed

definition demo_tx :: "nat StateTransaction" where
  "demo_tx =
     new_transaction \<lparr>change_id = StateChangeId (Version 1), change_previous = None, change_current = 3\<rparr>
       [demo_core, demo_old] Sequential"

definition demo_world :: "nat World" where
  "demo_world =
     \<lparr>w_store = \<lparr>arc_ptr = 0, arc_val = \<lparr>vs_version = Version 0, vs_state = 7\<rparr>\<rparr>, w_fresh = 1,
      w_permits = 0, w_trace = []\<rparr>"

theorem dropped_transaction_rolls_back_witness:
  "\<exists>w1 report tx1. prepare undefined demo_world demo_tx = (w1, Inr (report, tx1)) \<and>
     w_permits (tx_drop w1 tx1) = 1"
proof -
  have "\<exists>w1 report tx1. prepare undefined demo_world demo_tx = (w1, Inr (report, tx1))"
    by (simp add: prepare_def demo_tx_def new_transaction_def guard_arm_def notify_one_prepare_def
        demo_core_def demo_old_def ack_options_default_def is_required_failure_def
        guard_update_subscribers_def Let_def)
  then obtain w1 report tx1 where p: "prepare undefined demo_world demo_tx = (w1, Inr (report, tx1))"
    by blast
  have "tx_permit demo_tx" by (simp add: demo_tx_def)
  from dropped_transaction_rolls_back [OF this p] p show ?thesis by (auto simp: demo_world_def)
qed


section \<open>Construction\<close>

lemma tx_initial_commit:
  assumes "prepare_round sch strategy change subs = (acks, evs)" and "change_previous change = None"
    and "\<not> round_fails acks"
  shows "\<exists>tx. commit_pending sch w (new_transaction change subs strategy) =
    (emit (map (\<lambda>x. CommittedSent (sub_name x) change) (live_in CommittedPhase (retain_live acks subs)))
      (release (install \<lparr>vs_version = change_version (change_id change), vs_state = change_current change\<rparr>
        (emit evs w))), Inr (\<lparr>subscriber_acks = acks\<rparr>, tx))"
  using assms prepare_Inr [of sch "new_transaction change subs strategy" acks evs w]
  by (simp add: commit_pending_def commit_def try_commit_initial notify_committed_eq)

lemma tx_initial_refused:
  assumes "prepare_round sch strategy change subs = (acks, evs)" and "round_fails acks"
  shows "\<exists>tx evs'. commit_pending sch w (new_transaction change subs strategy) =
    (emit evs' (release (emit evs w)), Inl (Some \<lparr>subscriber_acks = acks\<rparr>, tx))"
  using assms prepare_Inl [of sch "new_transaction change subs strategy" acks evs w]
  by (auto simp: commit_pending_def)

lemma build_initialized_at_rest:
  assumes "b = foldl with_subscriber (with_notify_strategy builder_default strategy) subs"
  shows "\<exists>c report. build_initialized sch b s =
      Finished (if has_required_failures report then Inl (c, report) else Inr c) \<and>
    coord_inv c \<and> snapshot c = s \<and> co_version c = 0 \<and>
    co_next_change_id c = StateChangeId (Version 1)"
proof -
  let ?c = "build b s"
  let ?change = "\<lparr>change_id = StateChangeId version_default, change_previous = None, change_current = s\<rparr>"
  have c: "coord_inv ?c"
    unfolding assms by (rule coord_inv_build) (simp_all add: builder_default_def with_notify_strategy_def)
  have inv: "coord_inv (?c\<lparr>co_world := w\<rparr>)" if "w_permits w = 1" "arc_ptr (w_store w) < w_fresh w" for w
    using c that by (simp add: coord_inv_def)
  have nid: "co_next_change_id (?c\<lparr>co_world := w\<rparr>) = StateChangeId (Version 1)" for w
    by (simp add: build_def version_default_def change_id_next_def version_next_def)
  obtain acks evs where r: "prepare_round sch (co_strategy ?c) ?change (clone_subscribers ?c) = (acks, evs)"
    by fastforce
  have acq: "acquire (co_world ?c) = Some (entered ?c)" using c by (rule enter_acquire)
  have snap: "snapshot_versioned ?c = \<lparr>arc_ptr = 0, arc_val = \<lparr>vs_version = version_default, vs_state = s\<rparr>\<rparr>"
    and fresh: "w_fresh (co_world ?c) = 1"
    by (simp_all add: snapshot_versioned_def build_def)
  show ?thesis
  proof (cases "round_fails acks")
    case True
    obtain tx evs' where "commit_pending sch (entered ?c)
        (new_transaction ?change (clone_subscribers ?c) (co_strategy ?c)) =
      (emit evs' (release (emit evs (entered ?c))), Inl (Some \<lparr>subscriber_acks = acks\<rparr>, tx))"
      using tx_initial_refused [OF r True] by blast
    with acq True nid [of "emit evs' (release (emit evs (entered ?c)))"] show ?thesis
      by (intro exI [of _ "?c\<lparr>co_world := emit evs' (release (emit evs (entered ?c)))\<rparr>"]
          exI [of _ "\<lparr>subscriber_acks = acks\<rparr>"])
        (auto simp: build_initialized_def Let_def has_required_failures_def snap fresh version_default_def
          version_nat_def intro: inv)
  next
    case False
    let ?w = "emit (map (\<lambda>x. CommittedSent (sub_name x) ?change)
        (live_in CommittedPhase (retain_live acks (clone_subscribers ?c))))
      (release (install \<lparr>vs_version = version_default, vs_state = s\<rparr> (emit evs (entered ?c))))"
    obtain tx where "commit_pending sch (entered ?c)
        (new_transaction ?change (clone_subscribers ?c) (co_strategy ?c)) =
      (?w, Inr (\<lparr>subscriber_acks = acks\<rparr>, tx))"
      using tx_initial_commit [OF r _ False, of "entered ?c"] by auto
    with acq False nid [of ?w] show ?thesis
      by (intro exI [of _ "?c\<lparr>co_world := ?w\<rparr>"] exI [of _ "\<lparr>subscriber_acks = acks\<rparr>"])
        (auto simp: build_initialized_def Let_def has_required_failures_def snap fresh version_default_def
          version_nat_def intro: inv)
  qed
qed

text \<open>C24: \<^verbatim>\<open>build_initialized\<close> never waits and never reaches its \<^verbatim>\<open>unreachable!()\<close> arm: it announces the
  initial state, and whether the subscribers accept it or not it gives back a coordinator at rest
  with that state at version 0. The error is returned exactly when a required subscriber failed.\<close>

theorem build_initialized_usable:
  assumes "b = foldl with_subscriber (with_notify_strategy builder_default strategy) subs"
  shows "\<exists>c report. build_initialized sch b s =
      Finished (if has_required_failures report then Inl (c, report) else Inr c) \<and>
    coord_inv c \<and> snapshot c = s \<and> co_version c = 0 \<and>
    co_next_change_id c = StateChangeId (Version 1)"
  using assms by (rule build_initialized_at_rest)

section \<open>The end of the version space\<close>

text \<open>C34: Versions are 64-bit and never wrap. At the last version a write panics before it has asked
  anybody; one version earlier an accepted write is published and announced as committed, and the
  call panics afterwards, when it computes the change id that would follow. In both cases the
  permit is free afterwards.\<close>

theorem upsert_state_version_exhausted:
  assumes "coord_inv c" and "upsert_state env c s = (c', out)"
  shows "(Suc (co_version c) = 2 ^ 64 \<longrightarrow> out = Panicked \<and>
      w_trace (co_world c') = w_trace (co_world c) @ [PermitAcquired, PermitReleased] \<and>
      snapshot_versioned c' = snapshot_versioned c \<and> w_permits (co_world c') = 1) \<and>
    (Suc (Suc (co_version c)) = 2 ^ 64 \<and> env_interference env = None \<and> \<not> write_refused env c s \<longrightarrow>
      out = Panicked \<and> snapshot c' = s \<and> version_next (vs_version (arc_val (snapshot_versioned c'))) = None \<and>
      w_permits (co_world c') = 1)"
proof (intro conjI impI)
  assume v: "Suc (co_version c) = 2 ^ 64"
  have "version_next (vs_version (arc_val (snapshot_versioned c))) = None"
    using v version_next_None by blast
  then have "pending_change_id (c\<lparr>co_world := entered c\<rparr>) = None"
    by (simp add: pending_change_id_def)
  then have "upsert_state env c s = (c\<lparr>co_world := release (entered c)\<rparr>, Panicked)"
    using enter_acquire [OF assms(1)] by (simp add: upsert_state_def)
  with assms(2) show "out = Panicked" "snapshot_versioned c' = snapshot_versioned c"
    "w_permits (co_world c') = 1"
    "w_trace (co_world c') = w_trace (co_world c) @ [PermitAcquired, PermitReleased]" by auto
next
  assume *: "Suc (Suc (co_version c)) = 2 ^ 64 \<and> env_interference env = None \<and> \<not> write_refused env c s"
  then have v: "Suc (co_version c) < version_limit" by simp
  obtain acks evs where r: "write_round env c s = (acks, evs)" by fastforce
  with * have nf: "\<not> round_fails acks" by (simp add: write_refused_def)
  let ?w = "emit (committed_events env c s) (release (install (next_state c s) (emit evs (entered c))))"
  obtain tx' where commit: "commit (emit evs (entered c)) (prepared_tx acks
      (new_transaction (next_change c s) (clone_subscribers c) (co_strategy c))) = (?w, Inr tx')"
    using commit_write_ok [OF r, of "emit evs (entered c)"] by auto
  have last: "version_next (vs_version (next_state c s)) = None"
    using * next_state_version [OF v, of s] version_next_None by metis
  then have "mark_change_id_committed ((started c)\<lparr>co_world := ?w\<rparr>) (change_id (next_change c s)) = None"
    by (auto simp: mark_change_id_committed_def started_def next_change_def change_id_next_def
        next_state_def)
  with commit * r nf enter_acquire [OF assms(1)] enter_pending [OF v, of s]
  have "upsert_state env c s = ((started c)\<lparr>co_world := ?w\<rparr>, Panicked)"
    by (simp add: upsert_state_def prepare_and_commit_def prepare_write_ok interfere_def)
  with assms(2) last show "out = Panicked" "snapshot c' = s"
    "version_next (vs_version (arc_val (snapshot_versioned c'))) = None"
    "w_permits (co_world c') = 1" by auto
qed

definition demo_last :: "nat StateCoordinator" where
  "demo_last =
     (demo_coord Sequential)\<lparr>co_world :=
        \<lparr>w_store = \<lparr>arc_ptr = 3, arc_val = \<lparr>vs_version = Version (- 1), vs_state = 7\<rparr>\<rparr>, w_fresh = 4,
         w_permits = 1, w_trace = []\<rparr>\<rparr>"

theorem upsert_state_version_exhausted_witness:
  "snd (upsert_state (demo_env None) demo_last 9) = Panicked"
proof -
  have inv: "coord_inv demo_last"
    using demo_simps(1) [of Sequential] by (simp add: demo_last_def coord_inv_def del: demo_simps(1))
  have "Suc (co_version demo_last) = 2 ^ 64"
    by (simp add: demo_last_def snapshot_versioned_def version_nat_def unat_max_u64)
  with upsert_state_version_exhausted [OF inv pair_eta, of "demo_env None" 9] show ?thesis by blast
qed

section \<open>Dispatch\<close>

text \<open>In the parallel strategy the report does not depend on the order in which the tasks
  complete, and without failures to join it lists every subscriber's own acknowledgement in
  registration order.\<close>

theorem parallel_order_independent:
  assumes "length subs < usize_max" and "join_error sch = join_error sch'"
  shows "notify_all_prepare_parallel sch change subs = notify_all_prepare_parallel sch' change subs \<and>
    ((\<forall>i < length subs. \<not> join_error sch i) \<longrightarrow>
      fst (notify_all_prepare_parallel sch change subs) = map (fst \<circ> notify_one_prepare change) subs)"
proof -
  have "joined_in_order sch change subs = joined_in_order sch' change subs"
    unfolding joined_in_order_def join_result_def assms(2) by simp
  then have "fst (notify_all_prepare_parallel sch change subs) =
      fst (notify_all_prepare_parallel sch' change subs)"
    using parallel_joined [OF assms(1)] by metis
  moreover have "snd (notify_all_prepare_parallel sch change subs) =
      snd (notify_all_prepare_parallel sch' change subs)"
    by (simp add: notify_all_prepare_parallel_def Let_def)
  ultimately show ?thesis
    using parallel_no_join_errors [OF assms(1), of sch change] by (simp add: prod_eq_iff)
qed

definition demo_change :: "nat StateChange" where
  "demo_change =
     \<lparr>change_id = StateChangeId (Version 1), change_previous = None, change_current = 30\<rparr>"

text \<open>The two strategies agree on the verdict: a change is refused under the sequential strategy
  exactly when it is refused under the parallel one (all tasks joining), although the sequential
  strategy stops asking at the first required failure.\<close>

theorem strategies_agree:
  assumes "length subs < usize_max" and "\<forall>i < length subs. \<not> join_error sch i"
  shows "has_required_failures
      \<lparr>subscriber_acks = fst (notify_all_prepare_sequential change subs)\<rparr> =
    has_required_failures
      \<lparr>subscriber_acks = fst (notify_all_prepare_parallel sch change subs)\<rparr> \<and>
    (\<exists>n. fst (notify_all_prepare_sequential change subs) =
      take n (fst (notify_all_prepare_parallel sch change subs)))"
proof -
  have "fst (notify_all_prepare_parallel sch change subs) = map (fst \<circ> notify_one_prepare change) subs"
    using assms by (intro parallel_no_join_errors) auto
  moreover obtain n where "fst (notify_all_prepare_sequential change subs) =
      take n (map (fst \<circ> notify_one_prepare change) subs)"
    using sequential_prefix [of change subs] by (auto simp: take_map)
  ultimately show ?thesis
    using sequential_failure_iff [of change subs] by (auto simp: has_required_failures_def)
qed

section \<open>The coordinator as a versioned register\<close>

text \<open>A write is an environment and a state; the coordinator is the register, the versions
  it can reach without running out are below \<open>2 ^ 64 - 2\<close>.\<close>

type_synonym 'T co_write = "'T env \<times> 'T"

definition co_write :: "'T co_write \<Rightarrow> 'T StateCoordinator \<Rightarrow> 'T StateCoordinator" where
  "co_write w c = fst (upsert_state (fst w) c (snd w))"

definition co_accepted :: "'T co_write \<Rightarrow> 'T StateCoordinator \<Rightarrow> bool" where
  "co_accepted w c = finished_ok (snd (upsert_state (fst w) c (snd w)))"

definition co_undisturbed :: "'T co_write \<Rightarrow> bool" where
  "co_undisturbed w = (env_interference (fst w) = None)"

lemma co_accepted_iff:
  assumes "coord_inv c" and "Suc (Suc (co_version c)) < version_limit" and "env_interference env = None"
  shows "co_accepted (env, s) c = (\<not> write_refused env c s)"
  using assms by (cases rule: upsert_state_cases [where s = s]) (simp_all add: co_accepted_def)

interpretation creg: versioned_register coord_inv co_version snapshot co_write co_accepted snd
  co_undisturbed "2 ^ 64 - 2"
proof unfold_locales
  fix c :: "'T StateCoordinator" and w :: "'T co_write"
  assume c: "coord_inv c" and w: "co_undisturbed w" and "co_version c < 2 ^ 64 - 2"
  then have v: "Suc (Suc (co_version c)) < 2 ^ 64" and i: "env_interference (fst w) = None"
    by (simp_all add: co_undisturbed_def)
  have "coord_inv (co_write w c) \<and>
    (co_accepted w c \<longrightarrow> co_version (co_write w c) = Suc (co_version c) \<and> snapshot (co_write w c) = snd w) \<and>
    (\<not> co_accepted w c \<longrightarrow> co_version (co_write w c) = co_version c \<and> snapshot (co_write w c) = snapshot c)"
    using c v i
  proof (cases rule: upsert_state_cases [where s = "snd w"])
    case (refused acks evs)
    with c show ?thesis
      by (auto intro!: coord_inv_started simp: co_write_def co_accepted_def coord_inv_store snapshot_def)
  next
    case (committed acks evs j)
    with c v show ?thesis
      by (auto intro!: coord_inv_started simp: co_write_def co_accepted_def next_state_version)
  qed
  then show "coord_inv (co_write w c)"
    "co_accepted w c \<Longrightarrow> co_version (co_write w c) = Suc (co_version c) \<and> snapshot (co_write w c) = snd w"
    "\<not> co_accepted w c \<Longrightarrow> co_version (co_write w c) = co_version c \<and> snapshot (co_write w c) = snapshot c"
    by auto
qed


text \<open>C23: Any sequence of writes on a coordinator behaves like a versioned register: afterwards the
  published state is that of the last accepted write (the initial one if none was), the version
  counts the accepted writes, and the coordinator is at rest.\<close>

theorem coordinator_run:
  assumes "coord_inv c" and "list_all co_undisturbed ws" and "co_version c + length ws \<le> 2 ^ 64 - 2"
  shows "coord_inv (fold co_write ws c) \<and>
    co_version (fold co_write ws c) = co_version c + length (accepted_writes co_write co_accepted ws c) \<and>
    snapshot (fold co_write ws c) =
      last (snapshot c # map snd (accepted_writes co_write co_accepted ws c))"
  using creg.run_register [OF assms] by blast

theorem coordinator_run_witness:
  "snapshot (fold co_write [(demo_env None, 9), (demo_env None, 12)] (demo_coord Sequential)) = 9"
proof -
  let ?c = "demo_coord Sequential" and ?w = "[(demo_env None, 9), (demo_env None, 12)]"
  have one: "co_accepted (demo_env None, 9) ?c"
    by (simp add: co_accepted_iff demo_refused)
  have "\<not> co_accepted (demo_env None, 12) (co_write (demo_env None, 9) ?c)"
  proof (rule upsert_state_cases [of ?c "demo_env None" 9])
    fix acks evs j
    assume c1: "upsert_state (demo_env None) ?c 9 =
        ((started ?c)\<lparr>co_world := emit (committed_events (demo_env None) ?c 9)
            (release (install (next_state ?c 9) (emit evs (entered ?c)))), co_next_change_id := j\<rparr>,
         Finished (Inr \<lparr>subscriber_acks = acks\<rparr>))"
    let ?c1 = "co_write (demo_env None, 9) ?c"
    have st: "co_strategy ?c1 = Sequential" "clone_subscribers ?c1 = [demo_core, demo_tray, demo_old]"
      using c1 by (simp_all add: co_write_def)
    then have "write_refused (demo_env None) ?c1 12"
      by (simp add: write_refused_def write_round_def prepare_round_def notify_one_prepare_def
          next_change_def demo_core_def ack_options_default_def is_required_failure_def Let_def)
    moreover have "coord_inv ?c1" "co_version ?c1 = 1"
      using creg.wr_invar [of ?c "(demo_env None, 9)"] creg.wr_accepted [of ?c "(demo_env None, 9)"] one
      by (simp_all add: co_undisturbed_def)
    ultimately show ?thesis
      by (simp add: co_accepted_iff)
  qed (simp_all add: demo_refused)
  with one coordinator_run [of ?c ?w] show ?thesis by (simp add: co_undisturbed_def)
qed

end
