(* ===== verification/State_Managers.thy ===== *)
theory State_Managers
  imports State_Protocol
begin

text \<open>
  The state managers (\<^verbatim>\<open>state/manager/*.rs\<close> and \<^verbatim>\<open>format.rs\<close>): a coordinator with a
  configuration file behind it.

  \<^item> The YAML library is two functions of the record \<open>YamlFormat\<close>, the file system the record
    \<open>Files\<close> over an arbitrary disk type. What the managers rely on is \<open>yaml_law\<close> (what was written
    reads back, comment lines do not matter) and \<open>files_law\<close> (an atomic write replaces the file or
    leaves the disk alone).
  \<^item> Every manager writes its file inside the coordinator's effect, except the weak one, which
    writes after the commit and ignores failures.
  \<^item> The \<^verbatim>\<open>bon\<close> setup builders only collect arguments, so the operations of a setup take them directly.
\<close>

section \<open>Files and formats\<close>

type_synonym bytes = string

datatype io_error = NotFound | OtherIo anyhow

record 'd Files =
  fs_read :: "'d \<Rightarrow> string \<Rightarrow> io_error + bytes"
  fs_atomic_write :: "'d \<Rightarrow> string \<Rightarrow> bytes \<Rightarrow> 'd \<times> (anyhow + unit)"

record 'v YamlFormat =
  to_yaml :: "'v \<Rightarrow> anyhow + bytes"
  from_yaml :: "bytes \<Rightarrow> anyhow + 'v"

definition newline :: char where
  "newline = CHR 0x0A"

definition yaml_serialize :: "'v YamlFormat \<Rightarrow> 'v \<Rightarrow> string option \<Rightarrow> anyhow + bytes" where
  "yaml_serialize fmt v prefix =
     (case to_yaml fmt v of
        Inl e \<Rightarrow> Inl e
      | Inr y \<Rightarrow> Inr ((case prefix of None \<Rightarrow> [] | Some p \<Rightarrow> p @ [newline]) @ y))"

definition yaml_deserialize :: "'v YamlFormat \<Rightarrow> bytes \<Rightarrow> anyhow + 'v" where
  "yaml_deserialize fmt b = from_yaml fmt b"

definition persist_state_sync ::
    "'d Files \<Rightarrow> 'v YamlFormat \<Rightarrow> string \<Rightarrow> string option \<Rightarrow> 'v \<Rightarrow> 'd \<Rightarrow> 'd \<times> (anyhow + unit)" where
  "persist_state_sync fs fmt path prefix s d =
     (case yaml_serialize fmt s prefix of
        Inl e \<Rightarrow> (d, Inl e)
      | Inr buf \<Rightarrow> fs_atomic_write fs d path buf)"

text \<open>The same write as an asynchronous effect.\<close>

definition persist_effect ::
    "'d Files \<Rightarrow> 'v YamlFormat \<Rightarrow> string \<Rightarrow> string option \<Rightarrow> 'v \<Rightarrow> ('T, 'd, anyhow, unit) effect" where
  "persist_effect fs fmt path prefix v s d =
     (let (d', r) = persist_state_sync fs fmt path prefix v d in (d', Ready 0 r))"

section \<open>The in-memory manager\<close>

record 'T SimpleStateManager =
  sm_coordinator :: "'T StateCoordinator"

text \<open>What \<^verbatim>\<open>initialize\<close> and every \<^verbatim>\<open>build_manager\<close> do with the coordinator they get.\<close>

definition forced ::
    "bool \<Rightarrow> ('c \<Rightarrow> 'm) \<Rightarrow> ('c \<times> PrepareReport + 'c) outcome \<Rightarrow> ('m \<times> PrepareReport + 'm) outcome" where
  "forced force_build mk r =
     (case r of
        Waiting \<Rightarrow> Waiting
      | Panicked \<Rightarrow> Panicked
      | Finished (Inr c) \<Rightarrow> Finished (Inr (mk c))
      | Finished (Inl (c, report)) \<Rightarrow>
          Finished (if force_build then Inr (mk c) else Inl (mk c, report)))"

definition simple_initialize ::
    "schedule \<Rightarrow> 'T StateCoordinatorBuilder \<Rightarrow> bool \<Rightarrow> 'T \<Rightarrow>
     ('T SimpleStateManager \<times> PrepareReport + 'T SimpleStateManager) outcome" where
  "simple_initialize sch b force_build s =
     forced force_build (\<lambda>c. \<lparr>sm_coordinator = c\<rparr>) (build_initialized sch b s)"

definition simple_upsert ::
    "'T env \<Rightarrow> 'T SimpleStateManager \<Rightarrow> 'T \<Rightarrow>
     'T SimpleStateManager \<times> (StateChangedError + PrepareReport) outcome" where
  "simple_upsert env m s =
     (let (c, r) = upsert_state env (sm_coordinator m) s in (m\<lparr>sm_coordinator := c\<rparr>, r))"

section \<open>The persistent manager\<close>

record 'T PersistentStateManager =
  pm_prefix :: "string option"
  pm_path :: string
  pm_coordinator :: "'T StateCoordinator"
  pm_formatter :: "'T YamlFormat"

record 'T PersistentStateManagerSetup =
  ps_path :: string
  ps_prefix :: "string option"
  ps_coordinator :: "'T StateCoordinatorBuilder"
  ps_formatter :: "'T YamlFormat"
  ps_force_build :: bool

datatype 'm LoadError =
    ReadConfig io_error
  | DeserializeConfig anyhow
  | LoadUpsert StateChangedError
  | LoadInit 'm PrepareReport

definition build_manager ::
    "schedule \<Rightarrow> 'T PersistentStateManagerSetup \<Rightarrow> 'T \<Rightarrow>
     ('T PersistentStateManager \<times> PrepareReport + 'T PersistentStateManager) outcome" where
  "build_manager sch su s =
     forced (ps_force_build su)
       (\<lambda>c. \<lparr>pm_prefix = ps_prefix su, pm_path = ps_path su, pm_coordinator = c,
             pm_formatter = ps_formatter su\<rparr>)
       (build_initialized sch (ps_coordinator su) s)"

definition map_init_error :: "('m \<times> PrepareReport + 'm) outcome \<Rightarrow> ('m LoadError + 'm) outcome" where
  "map_init_error r =
     (case r of
        Waiting \<Rightarrow> Waiting
      | Panicked \<Rightarrow> Panicked
      | Finished (Inr m) \<Rightarrow> Finished (Inr m)
      | Finished (Inl (m, report)) \<Rightarrow> Finished (Inl (LoadInit m report)))"


definition load_or_default ::
    "'d Files \<Rightarrow> schedule \<Rightarrow> 'T \<Rightarrow> 'T PersistentStateManagerSetup \<Rightarrow> 'd \<Rightarrow>
     ('T PersistentStateManager LoadError + 'T PersistentStateManager) outcome" where
  "load_or_default fs sch dflt su d =
     (case fs_read fs d (ps_path su) of
        Inr b \<Rightarrow>
          (case yaml_deserialize (ps_formatter su) b of
             Inl e \<Rightarrow> Finished (Inl (DeserializeConfig e))
           | Inr s \<Rightarrow> map_init_error (build_manager sch su s))
      | Inl NotFound \<Rightarrow> map_init_error (build_manager sch su dflt)
      | Inl e \<Rightarrow> Finished (Inl (ReadConfig e)))"

definition from_state ::
    "schedule \<Rightarrow> 'T PersistentStateManagerSetup \<Rightarrow> 'T \<Rightarrow>
     ('T PersistentStateManager LoadError + 'T PersistentStateManager) outcome" where
  "from_state sch su s = map_init_error (build_manager sch su s)"

fun upsert_error :: "anyhow WithEffectError \<Rightarrow> UpsertError" where
  "upsert_error (EffectState e) = UpsertState e"
| "upsert_error (Effect e) = WriteConfig e"
| "upsert_error (EffectTimedOut t) = WriteConfig ''write config timed out''"

fun upsert_result ::
    "(anyhow WithEffectError + unit \<times> PrepareReport) outcome \<Rightarrow> (UpsertError + PrepareReport) outcome" where
  "upsert_result Waiting = Waiting"
| "upsert_result Panicked = Panicked"
| "upsert_result (Finished (Inr ((), report))) = Finished (Inr report)"
| "upsert_result (Finished (Inl e)) = Finished (Inl (upsert_error e))"

definition persistent_upsert ::
    "'d Files \<Rightarrow> 'T env \<Rightarrow> 'T PersistentStateManager \<Rightarrow> 'd \<Rightarrow> 'T \<Rightarrow>
     'T PersistentStateManager \<times> 'd \<times> (UpsertError + PrepareReport) outcome" where
  "persistent_upsert fs env m d s =
     (case with_pending_state env (pm_coordinator m) d s
             (persist_effect fs (pm_formatter m) (pm_path m) (pm_prefix m) s) of
        (c, d', r) \<Rightarrow> (m\<lparr>pm_coordinator := c\<rparr>, d', upsert_result r))"

datatype ReplaceIfVersionResult = Replaced | Conflict Version

datatype ReplaceIfVersionError =
    ReplaceState StateChangedError
  | ReplaceWriteConfig anyhow
  | ReplaceRecovery StateChangedError anyhow

fun replace_result ::
    "(anyhow ConditionalEffectError + unit) outcome \<Rightarrow>
     (ReplaceIfVersionError + ReplaceIfVersionResult) outcome" where
  "replace_result Waiting = Waiting"
| "replace_result Panicked = Panicked"
| "replace_result (Finished (Inr u)) = Finished (Inr Replaced)"
| "replace_result (Finished (Inl (CondConflict v))) = Finished (Inr (Conflict v))"
| "replace_result (Finished (Inl (CondState e))) = Finished (Inl (ReplaceState e))"
| "replace_result (Finished (Inl (CondRecovery e r))) = Finished (Inl (ReplaceRecovery e r))"
| "replace_result (Finished (Inl (CondEffect e))) = Finished (Inl (ReplaceWriteConfig e))"

definition replace_if_version ::
    "'d Files \<Rightarrow> 'T env \<Rightarrow> 'T PersistentStateManager \<Rightarrow> 'd \<Rightarrow> Version \<Rightarrow> 'T \<Rightarrow>
     'T PersistentStateManager \<times> 'd \<times> (ReplaceIfVersionError + ReplaceIfVersionResult) outcome" where
  "replace_if_version fs env m d expected next =
     (let persist = persist_state_sync fs (pm_formatter m) (pm_path m) (pm_prefix m) in
      case with_pending_state_if_version env (pm_coordinator m) d expected next persist persist of
        (c, d', r) \<Rightarrow> (m\<lparr>pm_coordinator := c\<rparr>, d', replace_result r))"

section \<open>The manager of a built state\<close>

text \<open>The file holds the builder; \<open>build_fn\<close> is the builder's own \<^verbatim>\<open>build\<close>.\<close>

record ('T, 'b) PersistentBuiltStateManager =
  pb_prefix :: "string option"
  pb_path :: string
  pb_builder :: 'b
  pb_coordinator :: "'T StateCoordinator"
  pb_formatter :: "'b YamlFormat"

record ('T, 'b) PersistentBuiltStateManagerSetup =
  bs_path :: string
  bs_prefix :: "string option"
  bs_coordinator :: "'T StateCoordinatorBuilder"
  bs_formatter :: "'b YamlFormat"
  bs_force_build :: bool

definition built_build_manager ::
    "schedule \<Rightarrow> ('T, 'b) PersistentBuiltStateManagerSetup \<Rightarrow> 'T \<Rightarrow> 'b \<Rightarrow>
     (('T, 'b) PersistentBuiltStateManager \<times> PrepareReport + ('T, 'b) PersistentBuiltStateManager) outcome" where
  "built_build_manager sch su s b =
     forced (bs_force_build su)
       (\<lambda>c. \<lparr>pb_prefix = bs_prefix su, pb_path = bs_path su, pb_builder = b, pb_coordinator = c,
             pb_formatter = bs_formatter su\<rparr>)
       (build_initialized sch (bs_coordinator su) s)"

definition from_builder ::
    "schedule \<Rightarrow> ('b \<Rightarrow> anyhow + 'T) \<Rightarrow> ('T, 'b) PersistentBuiltStateManagerSetup \<Rightarrow> 'b \<Rightarrow>
     (('T, 'b) PersistentBuiltStateManager LoadError + ('T, 'b) PersistentBuiltStateManager) outcome" where
  "from_builder sch build_fn su b =
     (case build_fn b of
        Inl e \<Rightarrow> Finished (Inl (LoadUpsert (Validation e)))
      | Inr s \<Rightarrow> map_init_error (built_build_manager sch su s b))"

definition built_load ::
    "'d Files \<Rightarrow> schedule \<Rightarrow> ('b \<Rightarrow> anyhow + 'T) \<Rightarrow> ('T, 'b) PersistentBuiltStateManagerSetup \<Rightarrow> 'd \<Rightarrow>
     (('T, 'b) PersistentBuiltStateManager LoadError + ('T, 'b) PersistentBuiltStateManager) outcome" where
  "built_load fs sch build_fn su d =
     (case fs_read fs d (bs_path su) of
        Inl e \<Rightarrow> Finished (Inl (ReadConfig e))
      | Inr bs \<Rightarrow>
          (case yaml_deserialize (bs_formatter su) bs of
             Inl e \<Rightarrow> Finished (Inl (DeserializeConfig e))
           | Inr b \<Rightarrow> from_builder sch build_fn su b))"

definition built_load_or_default ::
    "'d Files \<Rightarrow> schedule \<Rightarrow> ('b \<Rightarrow> anyhow + 'T) \<Rightarrow> 'b \<Rightarrow>
     ('T, 'b) PersistentBuiltStateManagerSetup \<Rightarrow> 'd \<Rightarrow>
     (('T, 'b) PersistentBuiltStateManager LoadError + ('T, 'b) PersistentBuiltStateManager) outcome" where
  "built_load_or_default fs sch build_fn dflt su d =
     (case fs_read fs d (bs_path su) of
        Inr bs \<Rightarrow>
          (case yaml_deserialize (bs_formatter su) bs of
             Inl e \<Rightarrow> Finished (Inl (DeserializeConfig e))
           | Inr b \<Rightarrow> from_builder sch build_fn su b)
      | Inl NotFound \<Rightarrow> from_builder sch build_fn su dflt
      | Inl e \<Rightarrow> Finished (Inl (ReadConfig e)))"

definition built_upsert ::
    "'d Files \<Rightarrow> ('b \<Rightarrow> anyhow + 'T) \<Rightarrow> 'T env \<Rightarrow> ('T, 'b) PersistentBuiltStateManager \<Rightarrow> 'd \<Rightarrow> 'b \<Rightarrow>
     ('T, 'b) PersistentBuiltStateManager \<times> 'd \<times> (UpsertError + PrepareReport) outcome" where
  "built_upsert fs build_fn env m d b =
     (case build_fn b of
        Inl e \<Rightarrow> (m, d, Finished (Inl (UpsertState (Validation e))))
      | Inr s \<Rightarrow>
          (case with_pending_state env (pb_coordinator m) d s
                  (persist_effect fs (pb_formatter m) (pb_path m) (pb_prefix m) b) of
             (c, d', r) \<Rightarrow>
               (let m' = m\<lparr>pb_coordinator := c\<rparr> in
                if finished_ok r then m'\<lparr>pb_builder := b\<rparr> else m', d', upsert_result r)))"

section \<open>The weakly persistent manager\<close>

type_synonym 'T WeakPersistentStateManager = "'T PersistentStateManager"

definition load_weak_snapshot :: "'d Files \<Rightarrow> 'T YamlFormat \<Rightarrow> string \<Rightarrow> 'd \<Rightarrow> 'T option" where
  "load_weak_snapshot fs fmt path d =
     (case fs_read fs d path of
        Inl e \<Rightarrow> None
      | Inr b \<Rightarrow> (case yaml_deserialize fmt b of Inl e \<Rightarrow> None | Inr s \<Rightarrow> Some s))"

definition weak_load_or_default ::
    "'d Files \<Rightarrow> schedule \<Rightarrow> 'T \<Rightarrow> 'T PersistentStateManagerSetup \<Rightarrow> 'd \<Rightarrow>
     ('T WeakPersistentStateManager LoadError + 'T WeakPersistentStateManager) outcome" where
  "weak_load_or_default fs sch dflt su d =
     (let s = (case load_weak_snapshot fs (ps_formatter su) (ps_path su) d of
                 None \<Rightarrow> dflt | Some s \<Rightarrow> s)
      in map_init_error (build_manager sch su s))"

definition try_persist :: "'d Files \<Rightarrow> 'T WeakPersistentStateManager \<Rightarrow> 'T \<Rightarrow> 'd \<Rightarrow> 'd" where
  "try_persist fs m s d = fst (persist_state_sync fs (pm_formatter m) (pm_path m) (pm_prefix m) s d)"

definition weak_upsert ::
    "'d Files \<Rightarrow> 'T env \<Rightarrow> 'T WeakPersistentStateManager \<Rightarrow> 'd \<Rightarrow> 'T \<Rightarrow>
     'T WeakPersistentStateManager \<times> 'd \<times> (StateChangedError + PrepareReport) outcome" where
  "weak_upsert fs env m d s =
     (case upsert_state env (pm_coordinator m) s of
        (c, r) \<Rightarrow>
          let m' = m\<lparr>pm_coordinator := c\<rparr> in
          (m', if finished_ok r then try_persist fs m' s d else d, r))"


section \<open>What the managers rely on\<close>

definition comment_line :: "string \<Rightarrow> bool" where
  "comment_line p = (\<exists>q. p = CHR ''#'' # q \<and> newline \<notin> set q)"

definition yaml_law :: "'v YamlFormat \<Rightarrow> bool" where
  "yaml_law fmt =
     ((\<forall>v y. to_yaml fmt v = Inr y \<longrightarrow> from_yaml fmt y = Inr v) \<and>
      (\<forall>p y. comment_line p \<longrightarrow> from_yaml fmt (p @ newline # y) = from_yaml fmt y))"

definition prefix_ok :: "string option \<Rightarrow> bool" where
  "prefix_ok prefix = (\<forall>p. prefix = Some p \<longrightarrow> comment_line p)"

definition files_law :: "'d Files \<Rightarrow> bool" where
  "files_law fs =
     ((\<forall>d p b d'. fs_atomic_write fs d p b = (d', Inr ()) \<longrightarrow> fs_read fs d' = (fs_read fs d)(p := Inr b)) \<and>
      (\<forall>d p b d' e. fs_atomic_write fs d p b = (d', Inl e) \<longrightarrow> fs_read fs d' = fs_read fs d))"

lemma serialize_deserialize:
  assumes "yaml_law fmt" and "prefix_ok prefix" and "yaml_serialize fmt v prefix = Inr b"
  shows "yaml_deserialize fmt b = Inr v"
  using assms
  by (auto simp: yaml_law_def prefix_ok_def yaml_serialize_def yaml_deserialize_def
      split: sum.splits option.splits)

lemma persist_stored:
  assumes "files_law fs" and "yaml_law fmt" and "prefix_ok prefix"
    and "persist_state_sync fs fmt path prefix v d = (d', r)"
  shows "load_weak_snapshot fs fmt path d' =
    (case r of Inr _ \<Rightarrow> Some v | Inl e \<Rightarrow> load_weak_snapshot fs fmt path d)"
proof (cases "yaml_serialize fmt v prefix")
  case (Inl e)
  with assms(4) show ?thesis by (auto simp: persist_state_sync_def)
next
  case (Inr b)
  with assms(4) have w: "fs_atomic_write fs d path b = (d', r)" by (simp add: persist_state_sync_def)
  note des = serialize_deserialize [OF assms(2,3) Inr]
  show ?thesis
  proof (cases r)
    case r: (Inl e)
    with w assms(1) have "fs_read fs d' = fs_read fs d" unfolding files_law_def by blast
    with r show ?thesis by (simp add: load_weak_snapshot_def)
  next
    case r: (Inr u)
    with w assms(1) have "fs_read fs d' = (fs_read fs d)(path := Inr b)"
      unfolding files_law_def by (metis old.unit.exhaust)
    with r des show ?thesis by (simp add: load_weak_snapshot_def)
  qed
qed

section \<open>A register with a durable copy\<close>

locale durable_register = versioned_register +
  fixes stored :: "'a \<Rightarrow> 'b option"
  assumes stored_accepted: "invar s \<Longrightarrow> admissible w \<Longrightarrow> ver s < limit \<Longrightarrow> accepted w s \<Longrightarrow>
      stored (wr w s) = Some (payload w)"
    and stored_refused: "invar s \<Longrightarrow> admissible w \<Longrightarrow> ver s < limit \<Longrightarrow> \<not> accepted w s \<Longrightarrow>
      stored (wr w s) = stored s"
begin

text \<open>The copy follows the register through every run.\<close>

theorem run_stored:
  assumes "invar s" and "list_all admissible ws" and "ver s + length ws \<le> limit"
    and "stored s = Some (val s)"
  shows "stored (fold wr ws s) = Some (val (fold wr ws s))"
  using assms
proof (induction ws arbitrary: s)
  case Nil
  then show ?case by simp
next
  case (Cons w ws)
  then have w: "invar s" "admissible w" "ver s < limit" by auto
  have "ver (wr w s) + length ws \<le> limit"
    using Cons.prems step_ver [OF w] by auto
  moreover have "stored (wr w s) = Some (val (wr w s))"
    using Cons.prems(4) wr_accepted [OF w] wr_refused [OF w] stored_accepted [OF w] stored_refused [OF w]
    by metis
  ultimately show ?case using Cons wr_invar [OF w] by simp
qed

end

section \<open>Lemmas on the persistent manager\<close>

lemma await_ready: "await_effect None (Ready 0 r) = Some (case r of Inr x \<Rightarrow> Inr x | Inl e \<Rightarrow> Inl (Effect e))"
  by (cases r) simp_all

lemma persist_effect_eq:
  "persist_effect fs fmt path prefix v s d =
     (fst (persist_state_sync fs fmt path prefix v d), Ready 0 (snd (persist_state_sync fs fmt path prefix v d)))"
  by (simp add: persist_effect_def Let_def split: prod.splits)

text \<open>A write of value \<open>v\<close> as the effect of publishing state \<open>s\<close>.\<close>

lemma with_pending_persist:
  assumes "coord_inv c" and "Suc (Suc (co_version c)) < version_limit" and "env_interference env = None"
    and "files_law fs" and "yaml_law fmt" and "prefix_ok prefix"
    and "with_pending_state env c d s (persist_effect fs fmt path prefix v) = (c', d', out)"
  shows "coord_inv c'" and "is_finished out"
    and "finished_ok out \<Longrightarrow> co_version c' = Suc (co_version c) \<and> snapshot c' = s \<and>
      load_weak_snapshot fs fmt path d' = Some v"
    and "\<not> finished_ok out \<Longrightarrow> co_version c' = co_version c \<and> snapshot c' = snapshot c \<and>
      load_weak_snapshot fs fmt path d' = load_weak_snapshot fs fmt path d"
proof -
  let ?f = "persist_effect fs fmt path prefix v"
  obtain acks evs where r: "write_round env c s = (acks, evs)" by fastforce
  obtain d1 res where p: "persist_state_sync fs fmt path prefix v d = (d1, res)" by fastforce
  then have f: "?f s d = (d1, Ready 0 res)" by (simp add: persist_effect_eq)
  note stored = persist_stored [OF assms(4-6) p]
  have v: "Suc (co_version c) < version_limit" using assms(2) by simp
  have eq: "with_pending_state_inner env c d s None ?f = (c', d', out)"
    using assms(7) by (simp add: with_pending_state_def)
  note spec = effect_write_outcome [OF assms(1-3) eq]
  show "coord_inv c'"
  proof (cases "round_fails acks")
    case True
    with with_pending_refused [OF assms(1) v r True, of d None ?f] eq assms(1) show ?thesis
      by (auto intro!: coord_inv_started simp: coord_inv_store)
  next
    case nf: False
    show ?thesis
    proof (cases res)
      case (Inl e)
      with with_pending_effect_failed [where f = ?f and t = None, OF assms(1) v r nf f] eq assms(1)
      show ?thesis by (auto intro!: coord_inv_started simp: coord_inv_store)
    next
      case (Inr u)
      with with_pending_committed [where f = ?f and t = None, OF assms(1-3) r nf f] eq assms(1)
      show ?thesis by (auto intro!: coord_inv_started)
    qed
  qed
  show "is_finished out"
    using spec by (auto simp: effect_write_spec_def Let_def f await_ready split: if_splits sum.splits)
  show "co_version c' = Suc (co_version c) \<and> snapshot c' = s \<and>
      load_weak_snapshot fs fmt path d' = Some v" if "finished_ok out"
    using spec stored that by (auto simp: effect_write_spec_def Let_def f await_ready split: if_splits sum.splits)
  show "co_version c' = co_version c \<and> snapshot c' = snapshot c \<and>
      load_weak_snapshot fs fmt path d' = load_weak_snapshot fs fmt path d" if "\<not> finished_ok out"
    using spec stored that by (auto simp: effect_write_spec_def Let_def f await_ready split: if_splits sum.splits)
qed


lemma finished_ok_upsert_result [simp]: "finished_ok (upsert_result r) = finished_ok r"
  by (cases r rule: upsert_result.cases) auto

text \<open>The persistent manager with its files and its disk, as one state.\<close>

type_synonym ('d, 'T) pm_state = "'d Files \<times> 'T PersistentStateManager \<times> 'd"

fun pm_invar :: "('d, 'T) pm_state \<Rightarrow> bool" where
  "pm_invar (fs, m, d) =
     (coord_inv (pm_coordinator m) \<and> files_law fs \<and> yaml_law (pm_formatter m) \<and> prefix_ok (pm_prefix m))"

fun pm_version :: "('d, 'T) pm_state \<Rightarrow> nat" where
  "pm_version (fs, m, d) = co_version (pm_coordinator m)"

fun pm_snapshot :: "('d, 'T) pm_state \<Rightarrow> 'T" where
  "pm_snapshot (fs, m, d) = snapshot (pm_coordinator m)"

fun pm_stored :: "('d, 'T) pm_state \<Rightarrow> 'T option" where
  "pm_stored (fs, m, d) = load_weak_snapshot fs (pm_formatter m) (pm_path m) d"

fun pm_write :: "'T co_write \<Rightarrow> ('d, 'T) pm_state \<Rightarrow> ('d, 'T) pm_state" where
  "pm_write w (fs, m, d) = (case persistent_upsert fs (fst w) m d (snd w) of (m', d', r) \<Rightarrow> (fs, m', d'))"

fun pm_accepted :: "'T co_write \<Rightarrow> ('d, 'T) pm_state \<Rightarrow> bool" where
  "pm_accepted w (fs, m, d) = finished_ok (snd (snd (persistent_upsert fs (fst w) m d (snd w))))"

lemma persistent_upsert_step:
  assumes "pm_invar (fs, m, d)" and "Suc (Suc (co_version (pm_coordinator m))) < version_limit"
    and "env_interference env = None" and "persistent_upsert fs env m d s = (m', d', out)"
  shows "pm_invar (fs, m', d')" and "is_finished out"
    and "pm_path m' = pm_path m" and "pm_formatter m' = pm_formatter m" and "pm_prefix m' = pm_prefix m"
    and "finished_ok out \<Longrightarrow> pm_version (fs, m', d') = Suc (pm_version (fs, m, d)) \<and>
      pm_snapshot (fs, m', d') = s \<and> pm_stored (fs, m', d') = Some s"
    and "\<not> finished_ok out \<Longrightarrow> pm_version (fs, m', d') = pm_version (fs, m, d) \<and>
      pm_snapshot (fs, m', d') = pm_snapshot (fs, m, d) \<and> pm_stored (fs, m', d') = pm_stored (fs, m, d)"
proof -
  obtain c' r where w: "with_pending_state env (pm_coordinator m) d s
      (persist_effect fs (pm_formatter m) (pm_path m) (pm_prefix m) s) = (c', d', r)"
    and m': "m' = m\<lparr>pm_coordinator := c'\<rparr>" and out: "out = upsert_result r"
    using assms(4) by (auto simp: persistent_upsert_def split: prod.splits)
  from assms(1) have laws: "coord_inv (pm_coordinator m)" "files_law fs" "yaml_law (pm_formatter m)"
    "prefix_ok (pm_prefix m)" by auto
  note step = with_pending_persist [OF laws(1) assms(2,3) laws(2-4) w]
  show "pm_invar (fs, m', d')" using step(1) laws m' by simp
  show "is_finished out" using step(2) out by (cases r rule: upsert_result.cases) auto
  show "pm_path m' = pm_path m" "pm_formatter m' = pm_formatter m" "pm_prefix m' = pm_prefix m"
    by (simp_all add: m')
  show "finished_ok out \<Longrightarrow> pm_version (fs, m', d') = Suc (pm_version (fs, m, d)) \<and>
      pm_snapshot (fs, m', d') = s \<and> pm_stored (fs, m', d') = Some s"
    using step(3) out m' by simp
  show "\<not> finished_ok out \<Longrightarrow> pm_version (fs, m', d') = pm_version (fs, m, d) \<and>
      pm_snapshot (fs, m', d') = pm_snapshot (fs, m, d) \<and> pm_stored (fs, m', d') = pm_stored (fs, m, d)"
    using step(4) out m' by simp
qed

interpretation preg: durable_register pm_invar pm_version pm_snapshot pm_write pm_accepted snd
  co_undisturbed "2 ^ 64 - 2" pm_stored
proof unfold_locales
  fix x :: "('d, 'T) pm_state" and w :: "'T co_write"
  assume x: "pm_invar x" and w: "co_undisturbed w" and v: "pm_version x < 2 ^ 64 - 2"
  obtain fs m d where [simp]: "x = (fs, m, d)" by (cases x)
  obtain m' d' out where u: "persistent_upsert fs (fst w) m d (snd w) = (m', d', out)"
    by (cases "persistent_upsert fs (fst w) m d (snd w)")
  have v': "Suc (Suc (co_version (pm_coordinator m))) < version_limit" using v by simp
  have i: "env_interference (fst w) = None" using w by (simp add: co_undisturbed_def)
  have inv: "pm_invar (fs, m, d)" using x by simp
  note step = persistent_upsert_step [OF inv v' i u]
  show "pm_invar (pm_write w x)" using step(1) u by simp
  show "pm_version (pm_write w x) = Suc (pm_version x) \<and> pm_snapshot (pm_write w x) = snd w"
    if "pm_accepted w x" using step(6) u that by simp
  show "pm_version (pm_write w x) = pm_version x \<and> pm_snapshot (pm_write w x) = pm_snapshot x"
    if "\<not> pm_accepted w x" using step(7) u that by simp
  show "pm_stored (pm_write w x) = Some (snd w)" if "pm_accepted w x" using step(6) u that by simp
  show "pm_stored (pm_write w x) = pm_stored x" if "\<not> pm_accepted w x" using step(7) u that by simp
qed


text \<open>The manager of a built state, likewise; the value it keeps is the builder.\<close>

type_synonym ('d, 'T, 'b) pb_state =
  "'d Files \<times> ('b \<Rightarrow> anyhow + 'T) \<times> ('T, 'b) PersistentBuiltStateManager \<times> 'd"

fun pb_invar :: "('d, 'T, 'b) pb_state \<Rightarrow> bool" where
  "pb_invar (fs, bf, m, d) =
     (coord_inv (pb_coordinator m) \<and> files_law fs \<and> yaml_law (pb_formatter m) \<and> prefix_ok (pb_prefix m) \<and>
      bf (pb_builder m) = Inr (snapshot (pb_coordinator m)))"

fun pb_version :: "('d, 'T, 'b) pb_state \<Rightarrow> nat" where
  "pb_version (fs, bf, m, d) = co_version (pb_coordinator m)"

fun pb_current :: "('d, 'T, 'b) pb_state \<Rightarrow> 'b" where
  "pb_current (fs, bf, m, d) = pb_builder m"

fun pb_stored :: "('d, 'T, 'b) pb_state \<Rightarrow> 'b option" where
  "pb_stored (fs, bf, m, d) = load_weak_snapshot fs (pb_formatter m) (pb_path m) d"

fun pb_write :: "'T env \<times> 'b \<Rightarrow> ('d, 'T, 'b) pb_state \<Rightarrow> ('d, 'T, 'b) pb_state" where
  "pb_write w (fs, bf, m, d) =
     (case built_upsert fs bf (fst w) m d (snd w) of (m', d', r) \<Rightarrow> (fs, bf, m', d'))"

fun pb_accepted :: "'T env \<times> 'b \<Rightarrow> ('d, 'T, 'b) pb_state \<Rightarrow> bool" where
  "pb_accepted w (fs, bf, m, d) = finished_ok (snd (snd (built_upsert fs bf (fst w) m d (snd w))))"

definition pb_undisturbed :: "'T env \<times> 'b \<Rightarrow> bool" where
  "pb_undisturbed w = (env_interference (fst w) = None)"

lemma built_upsert_eq:
  assumes "bf b = Inr s" and "with_pending_state env (pb_coordinator m) d s
      (persist_effect fs (pb_formatter m) (pb_path m) (pb_prefix m) b) = (c', d', r)"
  shows "finished_ok r \<Longrightarrow> built_upsert fs bf env m d b =
      (m\<lparr>pb_coordinator := c', pb_builder := b\<rparr>, d', upsert_result r)"
    and "\<not> finished_ok r \<Longrightarrow> built_upsert fs bf env m d b =
      (m\<lparr>pb_coordinator := c'\<rparr>, d', upsert_result r)"
  using assms by (simp_all add: built_upsert_def Let_def)

lemma built_upsert_step:
  assumes "pb_invar (fs, bf, m, d)" and "Suc (Suc (co_version (pb_coordinator m))) < version_limit"
    and "env_interference env = None" and "built_upsert fs bf env m d b = (m', d', out)"
  shows "pb_invar (fs, bf, m', d')"
    and "finished_ok out \<Longrightarrow> pb_version (fs, bf, m', d') = Suc (pb_version (fs, bf, m, d)) \<and>
      pb_current (fs, bf, m', d') = b \<and> pb_stored (fs, bf, m', d') = Some b"
    and "\<not> finished_ok out \<Longrightarrow> pb_version (fs, bf, m', d') = pb_version (fs, bf, m, d) \<and>
      pb_current (fs, bf, m', d') = pb_current (fs, bf, m, d) \<and>
      pb_stored (fs, bf, m', d') = pb_stored (fs, bf, m, d)"
proof -
  have "pb_invar (fs, bf, m', d') \<and>
    (finished_ok out \<longrightarrow> pb_version (fs, bf, m', d') = Suc (pb_version (fs, bf, m, d)) \<and>
      pb_current (fs, bf, m', d') = b \<and> pb_stored (fs, bf, m', d') = Some b) \<and>
    (\<not> finished_ok out \<longrightarrow> pb_version (fs, bf, m', d') = pb_version (fs, bf, m, d) \<and>
      pb_current (fs, bf, m', d') = pb_current (fs, bf, m, d) \<and>
      pb_stored (fs, bf, m', d') = pb_stored (fs, bf, m, d))"
  proof (cases "bf b")
    case (Inl e)
    with assms show ?thesis by (auto simp: built_upsert_def)
  next
    case (Inr s)
    obtain c' d1 r where w: "with_pending_state env (pb_coordinator m) d s
        (persist_effect fs (pb_formatter m) (pb_path m) (pb_prefix m) b) = (c', d1, r)"
      using prod_cases3 by blast
    from assms(1) have laws: "coord_inv (pb_coordinator m)" "files_law fs" "yaml_law (pb_formatter m)"
      "prefix_ok (pb_prefix m)" "bf (pb_builder m) = Inr (snapshot (pb_coordinator m))" by auto
    note step = with_pending_persist [OF laws(1) assms(2,3) laws(2-4) w]
    note eq = built_upsert_eq [where bf = bf and b = b, OF Inr w]
    show ?thesis
    proof (cases "finished_ok r")
      case True
      with eq(1) assms(4) step laws Inr show ?thesis by auto
    next
      case False
      with eq(2) assms(4) step laws show ?thesis by auto
    qed
  qed
  then show "pb_invar (fs, bf, m', d')"
    and "finished_ok out \<Longrightarrow> pb_version (fs, bf, m', d') = Suc (pb_version (fs, bf, m, d)) \<and>
      pb_current (fs, bf, m', d') = b \<and> pb_stored (fs, bf, m', d') = Some b"
    and "\<not> finished_ok out \<Longrightarrow> pb_version (fs, bf, m', d') = pb_version (fs, bf, m, d) \<and>
      pb_current (fs, bf, m', d') = pb_current (fs, bf, m, d) \<and>
      pb_stored (fs, bf, m', d') = pb_stored (fs, bf, m, d)" by auto
qed

interpretation breg: durable_register pb_invar pb_version pb_current pb_write pb_accepted snd
  pb_undisturbed "2 ^ 64 - 2" pb_stored
proof unfold_locales
  fix x :: "('d, 'T, 'b) pb_state" and w :: "'T env \<times> 'b"
  assume x: "pb_invar x" and w: "pb_undisturbed w" and v: "pb_version x < 2 ^ 64 - 2"
  obtain fs bf m d where [simp]: "x = (fs, bf, m, d)" by (cases x)
  obtain m' d' out where u: "built_upsert fs bf (fst w) m d (snd w) = (m', d', out)"
    by (cases "built_upsert fs bf (fst w) m d (snd w)")
  have v': "Suc (Suc (co_version (pb_coordinator m))) < version_limit" using v by simp
  have i: "env_interference (fst w) = None" using w by (simp add: pb_undisturbed_def)
  have inv: "pb_invar (fs, bf, m, d)" using x by simp
  note step = built_upsert_step [OF inv v' i u]
  show "pb_invar (pb_write w x)" using step(1) u by simp
  show "pb_version (pb_write w x) = Suc (pb_version x) \<and> pb_current (pb_write w x) = snd w"
    if "pb_accepted w x" using step(2) u that by simp
  show "pb_version (pb_write w x) = pb_version x \<and> pb_current (pb_write w x) = pb_current x"
    if "\<not> pb_accepted w x" using step(3) u that by simp
  show "pb_stored (pb_write w x) = Some (snd w)" if "pb_accepted w x" using step(2) u that by simp
  show "pb_stored (pb_write w x) = pb_stored x" if "\<not> pb_accepted w x" using step(3) u that by simp
qed


section \<open>A concrete disk and format\<close>

text \<open>Numbers written in unary, comment lines skipped on reading; a disk as a map on which writing
  \<open>/ro\<close> fails.\<close>

function skip_comments :: "bytes \<Rightarrow> bytes" where
  "skip_comments b =
     (if b \<noteq> [] \<and> hd b = CHR ''#'' then skip_comments (tl (dropWhile (\<lambda>x. x \<noteq> newline) b)) else b)"
  by pat_completeness auto
termination
proof (relation "measure length")
  fix b :: bytes
  assume "b \<noteq> [] \<and> hd b = CHR ''#''"
  then obtain q where b: "b = CHR ''#'' # q" by (cases b) auto
  have "length (tl (dropWhile (\<lambda>x. x \<noteq> newline) q)) \<le> length q"
    using length_dropWhile_le [of "\<lambda>x. x \<noteq> newline" q] by simp
  then show "(tl (dropWhile (\<lambda>x. x \<noteq> newline) b), b) \<in> measure length"
    by (auto simp: b newline_def)
qed simp

declare skip_comments.simps [simp del]

definition demo_yaml :: "nat YamlFormat" where
  "demo_yaml =
     \<lparr>to_yaml = (\<lambda>n. Inr (replicate n CHR ''x'')), from_yaml = (\<lambda>b. Inr (length (skip_comments b)))\<rparr>"

definition demo_files :: "(string \<Rightarrow> bytes option) Files" where
  "demo_files =
     \<lparr>fs_read = (\<lambda>d p. case d p of None \<Rightarrow> Inl NotFound | Some b \<Rightarrow> Inr b),
      fs_atomic_write = (\<lambda>d p b. if p = ''/ro'' then (d, Inl ''read-only'') else (d(p := Some b), Inr ()))\<rparr>"

lemma skip_comments_comment: "comment_line p \<Longrightarrow> skip_comments (p @ newline # y) = skip_comments y"
proof -
  assume "comment_line p"
  then obtain q where p: "p = CHR ''#'' # q" "newline \<notin> set q" by (auto simp: comment_line_def)
  then have "dropWhile (\<lambda>x. x \<noteq> newline) (p @ newline # y) = newline # y"
    by (subst dropWhile_append2) (auto simp: newline_def)
  with p(1) show ?thesis by (subst skip_comments.simps) simp
qed

lemma demo_laws [simp]: "yaml_law demo_yaml" "files_law demo_files" "prefix_ok None"
proof -
  have "skip_comments (replicate n CHR ''x'') = replicate n CHR ''x''" for n
    by (subst skip_comments.simps) (auto simp: newline_def)
  then show "yaml_law demo_yaml"
    by (auto simp: yaml_law_def demo_yaml_def skip_comments_comment)
  show "files_law demo_files" "prefix_ok None"
    by (auto simp: files_law_def demo_files_def prefix_ok_def split: if_splits)
qed

definition demo_manager :: "string \<Rightarrow> nat PersistentStateManager" where
  "demo_manager path =
     \<lparr>pm_prefix = None, pm_path = path, pm_coordinator = demo_coord Sequential, pm_formatter = demo_yaml\<rparr>"

definition demo_disk :: "string \<Rightarrow> string \<Rightarrow> bytes option" where
  "demo_disk path = (\<lambda>p. if p = path then Some ''xxxxxxx'' else None)"

lemma demo_manager_simps [simp]:
  "pm_invar (demo_files, demo_manager path, d)"
  "pm_version (demo_files, demo_manager path, d) = 0"
  "pm_coordinator (demo_manager path) = demo_coord Sequential"
  "pm_prefix (demo_manager path) = None" "pm_path (demo_manager path) = path"
  "pm_formatter (demo_manager path) = demo_yaml"
  by (simp_all add: demo_manager_def)

lemma demo_stored [simp]:
  "load_weak_snapshot demo_files demo_yaml path (demo_disk path) = Some 7"
proof -
  have "skip_comments ''xxxxxxx'' = ''xxxxxxx''" by (subst skip_comments.simps) simp
  then show ?thesis
    by (simp add: load_weak_snapshot_def demo_files_def demo_disk_def yaml_deserialize_def demo_yaml_def)
qed

section \<open>Properties of the managers\<close>

text \<open>C21: The file of a persistent manager follows its memory. If they agree before a sequence of
  \<^verbatim>\<open>upsert\<close> calls they agree after it, whatever subscribers refuse, serialisation fails and writes fail
  on the way; and the value they agree on is that of the last successful call, with the version
  counting the successful calls.\<close>

theorem persistent_file_follows_memory:
  assumes "pm_invar x" and "list_all co_undisturbed ws" and "pm_version x + length ws \<le> 2 ^ 64 - 2"
    and "pm_stored x = Some (pm_snapshot x)"
  shows "pm_stored (fold pm_write ws x) = Some (pm_snapshot (fold pm_write ws x)) \<and>
    pm_snapshot (fold pm_write ws x) =
      last (pm_snapshot x # map snd (accepted_writes pm_write pm_accepted ws x)) \<and>
    pm_version (fold pm_write ws x) = pm_version x + length (accepted_writes pm_write pm_accepted ws x)"
  using preg.run_stored [OF assms] preg.run_register [OF assms(1-3)] by blast

theorem persistent_file_follows_memory_witness:
  "pm_stored (fold pm_write [(demo_env None, 12), (demo_env None, 9)]
      (demo_files, demo_manager ''/c'', demo_disk ''/c'')) =
   Some (pm_snapshot (fold pm_write [(demo_env None, 12), (demo_env None, 9)]
      (demo_files, demo_manager ''/c'', demo_disk ''/c'')))"
  using persistent_file_follows_memory [of "(demo_files, demo_manager ''/c'', demo_disk ''/c'')"
      "[(demo_env None, 12), (demo_env None, 9)]"]
  by (simp add: co_undisturbed_def)





text \<open>The effects of the conditional write of a file.\<close>

lemma replace_if_version_cases:
  assumes "pm_invar (fs, m, d)" and "Suc (Suc (co_version (pm_coordinator m))) < version_limit"
    and "\<And>vs. env_interference env = Some vs \<Longrightarrow> Suc (version_nat (vs_version vs)) < version_limit"
    and "pm_stored (fs, m, d) = Some (pm_snapshot (fs, m, d))"
    and "replace_if_version fs env m d v s = (m', d', out)"
  shows "pm_stored (fs, m', d') = Some (pm_snapshot (fs, m', d')) \<or>
    (\<exists>e r. out = Finished (Inl (ReplaceRecovery e r)))"
proof -
  let ?c = "pm_coordinator m"
  let ?p = "persist_state_sync fs (pm_formatter m) (pm_path m) (pm_prefix m)"
  let ?st = "load_weak_snapshot fs (pm_formatter m) (pm_path m)"
  from assms(1) have c: "coord_inv ?c" and laws: "files_law fs" "yaml_law (pm_formatter m)"
    "prefix_ok (pm_prefix m)" by auto
  have v1: "Suc (co_version ?c) < version_limit" using assms(2) by simp
  obtain c' r where w: "with_pending_state_if_version env ?c d v s ?p ?p = (c', d', r)"
    and m': "m' = m\<lparr>pm_coordinator := c'\<rparr>" and out: "out = replace_result r"
    using assms(5) by (auto simp: replace_if_version_def Let_def split: prod.splits)
  have pst: "pm_stored (fs, m', d') = ?st d'" "pm_snapshot (fs, m', d') = snapshot c'" by (simp_all add: m')
  have st: "?st d = Some (snapshot ?c)" using assms(4) by simp
  obtain acks evs where rd: "write_round env ?c s = (acks, evs)" by fastforce
  obtain d1 res where p: "?p s d = (d1, res)" by fastforce
  note st1 = persist_stored [OF laws p]
  show ?thesis
  proof (cases "vs_version (arc_val (snapshot_versioned ?c)) = v")
    case False
    from if_version_conflict [OF c v1 this, of env d s ?p ?p] w st show ?thesis
      unfolding pst by (auto simp: snapshot_def)
  next
    case v: True
    consider (refused) "round_fails acks" | (failed) e where "\<not> round_fails acks" "res = Inl e"
      | (ok) "\<not> round_fails acks" "res = Inr ()" "env_interference env = None"
      | (raced) vs where "\<not> round_fails acks" "res = Inr ()" "env_interference env = Some vs"
      by (metis old.unit.exhaust option.exhaust sum.exhaust)
    then show ?thesis
    proof cases
      case refused
      from if_version_refused [OF c v1 v rd this, of d ?p ?p] w st show ?thesis
        unfolding pst by (auto simp: snapshot_def)
    next
      case failed
      with if_version_effect_failed [where f = ?p and g = ?p and s = s and d = d, OF c v1 v rd] p w st st1
      show ?thesis unfolding pst by (auto simp: snapshot_def)
    next
      case ok
      with if_version_committed [where f = ?p and g = ?p and s = s and d = d, OF c assms(2) v ok(3) rd] p w st1
      show ?thesis unfolding pst by auto
    next
      case raced
      obtain d2 res2 where g: "?p (vs_state vs) d1 = (d2, res2)" by fastforce
      from if_version_raced [where f = ?p and g = ?p and s = s and d = d, OF c v1 v raced(3) assms(3) rd
          raced(1) _ g] raced p w persist_stored [OF laws g]
      show ?thesis unfolding pst out by (cases res2) (auto simp: interfere_def)
    qed
  qed
qed

text \<open>C24: \<^verbatim>\<open>replace_if_version\<close> keeps file and memory in agreement on every path, also when it loses the
  race against another writer, because its recovery rewrites the file from the state that won; the
  one exception is a recovery that fails, and that is reported as such.\<close>

theorem replace_if_version_consistent:
  assumes "pm_invar (fs, m, d)" and "Suc (Suc (pm_version (fs, m, d))) < 2 ^ 64"
    and "\<And>vs. env_interference env = Some vs \<Longrightarrow> Suc (version_nat (vs_version vs)) < 2 ^ 64"
    and "pm_stored (fs, m, d) = Some (pm_snapshot (fs, m, d))"
    and "replace_if_version fs env m d v s = (m', d', out)"
  shows "pm_stored (fs, m', d') = Some (pm_snapshot (fs, m', d')) \<or>
    (\<exists>e r. out = Finished (Inl (ReplaceRecovery e r)))"
  using assms replace_if_version_cases [OF assms(1) _ assms(3-5)] by simp

theorem replace_if_version_consistent_witness:
  "pm_stored (demo_files, demo_manager ''/c'', demo_disk ''/c'') =
     Some (pm_snapshot (demo_files, demo_manager ''/c'', demo_disk ''/c'')) \<and>
   (let (m', d', out) = replace_if_version demo_files (demo_env (Some \<lparr>vs_version = Version 1, vs_state = 2\<rparr>))
          (demo_manager ''/c'') (demo_disk ''/c'') (Version 0) 9
    in pm_stored (demo_files, m', d') = Some (pm_snapshot (demo_files, m', d')) \<or>
       (\<exists>e r. out = Finished (Inl (ReplaceRecovery e r))))"
  using replace_if_version_consistent [of demo_files "demo_manager ''/c''" "demo_disk ''/c''"
      "demo_env (Some \<lparr>vs_version = Version 1, vs_state = 2\<rparr>)" "Version 0" 9, OF _ _ _ _ triple_eta]
  by (simp add: version_nat_def Let_def split_beta)

text \<open>Plain \<^verbatim>\<open>upsert\<close> has no such recovery: when it loses the race it reports the mismatch, memory
  keeps the winner, and the file keeps the state that was not committed.\<close>

theorem persistent_upsert_race_leaves_file:
  assumes "pm_invar (fs, m, d)" and "Suc (pm_version (fs, m, d)) < 2 ^ 64"
    and "env_interference env = Some vs" and "Suc (version_nat (vs_version vs)) < 2 ^ 64"
    and "\<not> write_refused env (pm_coordinator m) s"
    and "persist_state_sync fs (pm_formatter m) (pm_path m) (pm_prefix m) s d = (d1, Inr ())"
    and "persistent_upsert fs env m d s = (m', d', out)"
  shows "pm_stored (fs, m', d') = Some s \<and> pm_snapshot (fs, m', d') = vs_state vs \<and>
    out = Finished (Inl (UpsertState (StateCasMismatch
      (vs_version (arc_val (snapshot_versioned (pm_coordinator m)))) (vs_version vs))))"
proof -
  let ?c = "pm_coordinator m" and ?f = "persist_effect fs (pm_formatter m) (pm_path m) (pm_prefix m) s"
  from assms(1) have c: "coord_inv ?c" and laws: "files_law fs" "yaml_law (pm_formatter m)"
    "prefix_ok (pm_prefix m)" by auto
  have v: "Suc (co_version ?c) < version_limit" using assms(2) by simp
  obtain acks evs where r: "write_round env ?c s = (acks, evs)" by fastforce
  then have nf: "\<not> round_fails acks" using assms(5) by (simp add: write_refused_def)
  have f: "?f s d = (d1, Ready 0 (Inr ()))" using assms(6) by (simp add: persist_effect_eq)
  from with_pending_raced [where f = ?f and t = None, OF c v assms(3,4) r nf f] assms(7)
    persist_stored [OF laws assms(6)]
  show ?thesis by (auto simp: persistent_upsert_def with_pending_state_def)
qed

text \<open>C26: The manager of a built state keeps three things in step through every sequence of writes: the
  builder in memory, the builder in the file and the state published by the coordinator, which is
  always what the builder builds. A builder that fails to build, a refusal and a failed write leave all
  three as they were.\<close>

theorem built_manager_consistent:
  assumes "pb_invar x" and "list_all pb_undisturbed ws" and "pb_version x + length ws \<le> 2 ^ 64 - 2"
    and "pb_stored x = Some (pb_current x)"
  shows "pb_invar (fold pb_write ws x) \<and>
    pb_stored (fold pb_write ws x) = Some (pb_current (fold pb_write ws x)) \<and>
    pb_current (fold pb_write ws x) =
      last (pb_current x # map snd (accepted_writes pb_write pb_accepted ws x))"
  using breg.run_stored [OF assms] breg.run_register [OF assms(1-3)] by blast

text \<open>A builder is a number; odd ones do not build.\<close>

definition demo_build :: "nat \<Rightarrow> anyhow + nat" where
  "demo_build b = (if even b then Inr (b div 2) else Inl ''odd'')"

definition demo_built :: "(nat, nat) PersistentBuiltStateManager" where
  "demo_built =
     \<lparr>pb_prefix = None, pb_path = ''/b'', pb_builder = 14, pb_coordinator = demo_coord Parallel,
      pb_formatter = demo_yaml\<rparr>"

theorem built_manager_consistent_witness:
  "pb_invar (fold pb_write [(demo_env None, 3), (demo_env None, 10)]
     (demo_files, demo_build, demo_built, (demo_disk ''/a'')(''/b'' := Some (replicate 14 CHR ''x''))))"
proof -
  have "skip_comments (replicate 14 CHR ''x'') = replicate 14 CHR ''x''"
    by (subst skip_comments.simps) simp
  then have "load_weak_snapshot demo_files demo_yaml ''/b''
      ((demo_disk ''/a'')(''/b'' := Some (replicate 14 CHR ''x''))) = Some 14"
    by (simp add: load_weak_snapshot_def demo_files_def yaml_deserialize_def demo_yaml_def)
  then show ?thesis
    using built_manager_consistent [of "(demo_files, demo_build, demo_built,
        (demo_disk ''/a'')(''/b'' := Some (replicate 14 CHR ''x'')))" "[(demo_env None, 3), (demo_env None, 10)]"]
    by (simp add: pb_undisturbed_def demo_built_def demo_build_def)
qed

text \<open>The weak manager puts memory first. A successful write is in memory, whatever the disk did, and
  the file then holds the new state or still what it held; a failed write touches neither. Reading
  back never fails: an unreadable or broken file counts as absent, so a restart comes up with the file's
  state or the default.\<close>

theorem weak_manager_memory_first:
  assumes "pm_invar (fs, m, d)" and "Suc (Suc (pm_version (fs, m, d))) < 2 ^ 64"
    and "env_interference env = None" and "weak_upsert fs env m d s = (m', d', out)"
    and "ps_coordinator su = foldl with_subscriber (with_notify_strategy builder_default strategy) subs"
    and "ps_force_build su"
  shows "(if finished_ok out
     then pm_snapshot (fs, m', d') = s \<and> pm_stored (fs, m', d') \<in> {Some s, pm_stored (fs, m, d)}
     else pm_snapshot (fs, m', d') = pm_snapshot (fs, m, d) \<and> d' = d) \<and>
    pm_invar (fs, m', d') \<and>
    (\<exists>m''. weak_load_or_default fs sch dflt su d' = Finished (Inr m'') \<and>
      snapshot (pm_coordinator m'') =
        (case load_weak_snapshot fs (ps_formatter su) (ps_path su) d' of None \<Rightarrow> dflt | Some t \<Rightarrow> t))"
proof -
  let ?c = "pm_coordinator m" and ?p = "persist_state_sync fs (pm_formatter m) (pm_path m) (pm_prefix m) s d"
  obtain c' r where u: "upsert_state env ?c s = (c', r)" by fastforce
  from assms(1) have c: "coord_inv ?c" and laws: "files_law fs" "yaml_law (pm_formatter m)"
    "prefix_ok (pm_prefix m)" by auto
  have res: "m' = m\<lparr>pm_coordinator := c'\<rparr>" "out = r" "d' = (if finished_ok r then fst ?p else d)"
    using assms(4) u by (auto simp: weak_upsert_def try_persist_def Let_def)
  have st: "load_weak_snapshot fs (pm_formatter m) (pm_path m) (fst ?p) \<in>
      {Some s, load_weak_snapshot fs (pm_formatter m) (pm_path m) d}"
    using persist_stored [OF laws pair_eta, of "pm_path m" s d] by (auto split: sum.splits)
  have step: "coord_inv c' \<and> (if finished_ok r then snapshot c' = s else snapshot c' = snapshot ?c)"
    using creg.wr_invar [OF c, of "(env, s)"] creg.step_val [OF c, of "(env, s)"] u assms(2,3)
    by (simp add: co_undisturbed_def co_write_def co_accepted_def)
  let ?t = "case load_weak_snapshot fs (ps_formatter su) (ps_path su) d' of None \<Rightarrow> dflt | Some t \<Rightarrow> t"
  obtain c2 report where "build_initialized sch (ps_coordinator su) ?t =
      Finished (if has_required_failures report then Inl (c2, report) else Inr c2)" "snapshot c2 = ?t"
    using build_initialized_at_rest [OF refl, of sch strategy subs ?t] by (auto simp: assms(5))
  then have "\<exists>m''. weak_load_or_default fs sch dflt su d' = Finished (Inr m'') \<and>
      snapshot (pm_coordinator m'') = ?t"
    using assms(6) by (simp add: weak_load_or_default_def Let_def build_manager_def forced_def map_init_error_def)
  with step st res laws show ?thesis by auto
qed

end
