(* ===== verification/Profile_Types.thy ===== *)
theory Profile_Types
  imports Prelude
begin

text \<open>
  The profile document's data (\<^verbatim>\<open>nyanpasu-config/src/profile\<close>: \<^verbatim>\<open>id.rs\<close>, \<^verbatim>\<open>path.rs\<close>, \<^verbatim>\<open>source.rs\<close>,
  \<^verbatim>\<open>definition.rs\<close>, \<^verbatim>\<open>metadata.rs\<close>, \<^verbatim>\<open>item.rs\<close>) and its leaf mutators (\<^verbatim>\<open>patch.rs\<close>).

  \<^item> A URL is kept as its scheme and the rest, the two things the profile code looks at.
  \<^item> Paths follow \<^verbatim>\<open>std::path\<close> on Unix: \<open>components\<close> is \<^verbatim>\<open>Path::components\<close>, which drops repeated
    separators and inner \<open>.\<close> components and has no drive prefixes.
\<close>

section \<open>Paths\<close>

type_synonym ProfileId = string

datatype Component = RootDir | CurDir | ParentDir | Normal string

text \<open>The segments between separators.\<close>

fun split_on :: "char \<Rightarrow> string \<Rightarrow> string list" where
  "split_on c [] = [[]]"
| "split_on c (x # xs) =
     (if x = c then [] # split_on c xs
      else case split_on c xs of [] \<Rightarrow> [[x]] | s # ss \<Rightarrow> (x # s) # ss)"

definition component_of :: "string \<Rightarrow> Component" where
  "component_of s = (if s = ''..'' then ParentDir else Normal s)"

definition is_absolute :: "string \<Rightarrow> bool" where
  "is_absolute s = (case s of [] \<Rightarrow> False | c # _ \<Rightarrow> c = CHR ''/'')"

definition components :: "string \<Rightarrow> Component list" where
  "components s =
     (let segs = split_on (CHR ''/'') s;
          body = map component_of (filter (\<lambda>x. x \<noteq> [] \<and> x \<noteq> ''.'') segs)
      in (if is_absolute s then [RootDir] else if hd segs = ''.'' then [CurDir] else []) @ body)"

fun contains_sub :: "string \<Rightarrow> string \<Rightarrow> bool" where
  "contains_sub p [] = (p = [])"
| "contains_sub p (x # xs) = (take (length p) (x # xs) = p \<or> contains_sub p xs)"

datatype ProfilePathError =
    Empty
  | ManagedMustBeRelative string
  | ManagedMustNotBeUrl string
  | ManagedContainsTraversal string
  | ExternalMustBeAbsolute string

definition looks_like_url :: "string \<Rightarrow> bool" where
  "looks_like_url v = contains_sub ''://'' v"

datatype ManagedProfilePath = ManagedProfilePath (managed_str: string)

definition managed_new :: "string \<Rightarrow> ProfilePathError + ManagedProfilePath" where
  "managed_new v =
     (if v = [] then Inl Empty
      else if looks_like_url v then Inl (ManagedMustNotBeUrl v)
      else if is_absolute v then Inl (ManagedMustBeRelative v)
      else if list_ex (\<lambda>c. c = RootDir \<or> c = ParentDir \<or> c = CurDir) (components v)
           then Inl (ManagedContainsTraversal v)
      else Inr (ManagedProfilePath v))"

datatype ExternalProfilePath = ExternalProfilePath (external_str: string)

definition external_new :: "string \<Rightarrow> ProfilePathError + ExternalProfilePath" where
  "external_new v =
     (if v = [] then Inl Empty
      else if \<not> is_absolute v \<and> \<not> (case v of c # _ \<Rightarrow> c = CHR ''/'' | [] \<Rightarrow> False)
           then Inl (ExternalMustBeAbsolute v)
      else Inr (ExternalProfilePath v))"

section \<open>Sources\<close>

datatype Url = Url (url_scheme: string) (url_rest: string)

record MaterializedFile =
  mf_file :: ManagedProfilePath
  mf_updated_at :: "int option"

record RemoteProfileOptions =
  ro_user_agent :: "string option"
  ro_with_proxy :: bool
  ro_self_proxy :: bool
  ro_update_interval_minutes :: u64

record RemoteProfileOptionsPatch =
  rop_user_agent :: "string option option"
  rop_with_proxy :: "bool option"
  rop_self_proxy :: "bool option"
  rop_update_interval_minutes :: "u64 option"

definition default_update_interval_minutes :: u64 where
  "default_update_interval_minutes = 120"

definition remote_options_default :: RemoteProfileOptions where
  "remote_options_default =
     \<lparr>ro_user_agent = None, ro_with_proxy = True, ro_self_proxy = True,
      ro_update_interval_minutes = default_update_interval_minutes\<rparr>"

definition or_keep :: "'a option \<Rightarrow> 'a \<Rightarrow> 'a" where
  "or_keep p x = (case p of Some y \<Rightarrow> y | None \<Rightarrow> x)"

definition remote_options_apply ::
    "RemoteProfileOptions \<Rightarrow> RemoteProfileOptionsPatch \<Rightarrow> RemoteProfileOptions" where
  "remote_options_apply r p =
     \<lparr>ro_user_agent = or_keep (rop_user_agent p) (ro_user_agent r),
      ro_with_proxy = or_keep (rop_with_proxy p) (ro_with_proxy r),
      ro_self_proxy = or_keep (rop_self_proxy p) (ro_self_proxy r),
      ro_update_interval_minutes =
        or_keep (rop_update_interval_minutes p) (ro_update_interval_minutes r)\<rparr>"

record SubscriptionInfo =
  si_upload :: "u64 option"
  si_download :: "u64 option"
  si_total :: "u64 option"
  si_expire :: "int option"

definition subscription_is_empty :: "SubscriptionInfo \<Rightarrow> bool" where
  "subscription_is_empty s =
     (si_upload s = None \<and> si_download s = None \<and> si_total s = None \<and> si_expire s = None)"

datatype ExternalMode = Symlink | Mirror

datatype LocalBinding =
    Managed MaterializedFile
  | External MaterializedFile ExternalProfilePath ExternalMode

datatype ProfileSource =
    Local LocalBinding
  | Remote MaterializedFile Url RemoteProfileOptions SubscriptionInfo

fun binding_materialized :: "LocalBinding \<Rightarrow> MaterializedFile" where
  "binding_materialized (Managed m) = m"
| "binding_materialized (External m t e) = m"

fun materialized :: "ProfileSource \<Rightarrow> MaterializedFile" where
  "materialized (Local b) = binding_materialized b"
| "materialized (Remote m u opt sub) = m"

fun is_remote :: "ProfileSource \<Rightarrow> bool" where
  "is_remote (Remote m u opt sub) = True"
| "is_remote (Local b) = False"

section \<open>Definitions\<close>

datatype ScriptRuntime = JavaScript | Lua

record FileConfig =
  fc_source :: ProfileSource
  fc_transforms :: "ProfileId list"

record CompositionConfig =
  cc_base :: "ProfileId option"
  cc_extend_proxies_from :: "ProfileId list"
  cc_transforms :: "ProfileId list"

datatype ConfigDefinition = File FileConfig | Composition CompositionConfig

record OverlayTransform =
  ot_source :: ProfileSource

record ScriptTransform =
  st_source :: ProfileSource
  st_runtime :: ScriptRuntime

datatype TransformDefinition = Overlay OverlayTransform | Script ScriptTransform

datatype ProfileDefinition = Config ConfigDefinition | Transform TransformDefinition

datatype ProfileCategory = CategoryConfig | CategoryTransform

datatype TransformKind = KindOverlay | KindScript ScriptRuntime

fun category :: "ProfileDefinition \<Rightarrow> ProfileCategory" where
  "category (Config c) = CategoryConfig"
| "category (Transform t) = CategoryTransform"

fun is_config :: "ProfileDefinition \<Rightarrow> bool" where
  "is_config (Config c) = True"
| "is_config (Transform t) = False"

fun is_transform :: "ProfileDefinition \<Rightarrow> bool" where
  "is_transform (Transform t) = True"
| "is_transform (Config c) = False"

fun is_direct_file_config :: "ProfileDefinition \<Rightarrow> bool" where
  "is_direct_file_config (Config (File f)) = True"
| "is_direct_file_config _ = False"

fun transform_kind :: "TransformDefinition \<Rightarrow> TransformKind" where
  "transform_kind (Overlay t) = KindOverlay"
| "transform_kind (Script t) = KindScript (st_runtime t)"

fun transform_source :: "TransformDefinition \<Rightarrow> ProfileSource" where
  "transform_source (Overlay t) = ot_source t"
| "transform_source (Script t) = st_source t"

fun config_transforms :: "ConfigDefinition \<Rightarrow> ProfileId list" where
  "config_transforms (File f) = fc_transforms f"
| "config_transforms (Composition c) = cc_transforms c"

fun definition_source :: "ProfileDefinition \<Rightarrow> ProfileSource option" where
  "definition_source (Config (File f)) = Some (fc_source f)"
| "definition_source (Config (Composition c)) = None"
| "definition_source (Transform t) = Some (transform_source t)"

text \<open>Writing through \<^verbatim>\<open>source_mut\<close>: \<open>None\<close> when there is no slot.\<close>

fun transform_with_source :: "ProfileSource \<Rightarrow> TransformDefinition \<Rightarrow> TransformDefinition" where
  "transform_with_source s (Overlay t) = Overlay (t\<lparr>ot_source := s\<rparr>)"
| "transform_with_source s (Script t) = Script (t\<lparr>st_source := s\<rparr>)"

fun definition_with_source :: "ProfileSource \<Rightarrow> ProfileDefinition \<Rightarrow> ProfileDefinition option" where
  "definition_with_source s (Config (File f)) = Some (Config (File (f\<lparr>fc_source := s\<rparr>)))"
| "definition_with_source s (Config (Composition c)) = None"
| "definition_with_source s (Transform t) = Some (Transform (transform_with_source s t))"

section \<open>Items and their mutators\<close>

record ProfileMetadata =
  pmd_name :: string
  pmd_desc :: "string option"
  pmd_custom_name :: bool

record ProfileMetadataPatch =
  pmp_name :: "string option"
  pmp_desc :: "string option option"
  pmp_custom_name :: "bool option"

record ProfileItem =
  it_uid :: ProfileId
  it_metadata :: ProfileMetadata
  it_definition :: ProfileDefinition

definition metadata_apply :: "ProfileMetadata \<Rightarrow> ProfileMetadataPatch \<Rightarrow> ProfileMetadata" where
  "metadata_apply m p =
     \<lparr>pmd_name = or_keep (pmp_name p) (pmd_name m), pmd_desc = or_keep (pmp_desc p) (pmd_desc m),
      pmd_custom_name = or_keep (pmp_custom_name p) (pmd_custom_name m)\<rparr>"

definition list_add :: "ProfileId list \<Rightarrow> ProfileId \<Rightarrow> ProfileId list \<times> bool" where
  "list_add xs u = (if u \<in> set xs then (xs, False) else (xs @ [u], True))"

definition list_remove :: "ProfileId list \<Rightarrow> ProfileId \<Rightarrow> ProfileId list \<times> bool" where
  "list_remove xs u =
     (let i = length (takeWhile (\<lambda>x. x \<noteq> u) xs) in
      if i < length xs then (remove_nth i xs, True) else (xs, False))"

definition list_move :: "ProfileId list \<Rightarrow> nat \<Rightarrow> nat \<Rightarrow> ProfileId list \<times> bool" where
  "list_move xs from to =
     (if length xs \<le> from \<or> length xs \<le> to \<or> from = to then (xs, False)
      else (move_nth from to xs, True))"

definition apply_metadata_patch :: "ProfileItem \<Rightarrow> ProfileMetadataPatch \<Rightarrow> ProfileItem" where
  "apply_metadata_patch it patch =
     (let renamed = (case pmp_name patch of Some n \<Rightarrow> n \<noteq> pmd_name (it_metadata it) | None \<Rightarrow> False);
          md = metadata_apply (it_metadata it) (patch\<lparr>pmp_custom_name := None\<rparr>)
      in it\<lparr>it_metadata := if renamed then md\<lparr>pmd_custom_name := True\<rparr> else md\<rparr>)"

definition set_definition :: "ProfileItem \<Rightarrow> ProfileDefinition \<Rightarrow> ProfileItem" where
  "set_definition it d = it\<lparr>it_definition := d\<rparr>"

definition set_source :: "ProfileItem \<Rightarrow> ProfileSource \<Rightarrow> ProfileItem \<times> bool" where
  "set_source it s =
     (case definition_with_source s (it_definition it) of
        Some d \<Rightarrow> (it\<lparr>it_definition := d\<rparr>, True)
      | None \<Rightarrow> (it, False))"

definition set_base :: "CompositionConfig \<Rightarrow> ProfileId option \<Rightarrow> CompositionConfig" where
  "set_base c b = c\<lparr>cc_base := b\<rparr>"

definition add_contributor :: "CompositionConfig \<Rightarrow> ProfileId \<Rightarrow> CompositionConfig \<times> bool" where
  "add_contributor c u =
     (let (xs, b) = list_add (cc_extend_proxies_from c) u in (c\<lparr>cc_extend_proxies_from := xs\<rparr>, b))"

definition remove_contributor :: "CompositionConfig \<Rightarrow> ProfileId \<Rightarrow> CompositionConfig \<times> bool" where
  "remove_contributor c u =
     (let (xs, b) = list_remove (cc_extend_proxies_from c) u in (c\<lparr>cc_extend_proxies_from := xs\<rparr>, b))"

definition move_contributor :: "CompositionConfig \<Rightarrow> nat \<Rightarrow> nat \<Rightarrow> CompositionConfig \<times> bool" where
  "move_contributor c from to =
     (let (xs, b) = list_move (cc_extend_proxies_from c) from to in (c\<lparr>cc_extend_proxies_from := xs\<rparr>, b))"

section \<open>Lemmas on paths\<close>

lemma split_on_nonempty [simp]: "split_on c s \<noteq> []"
  by (induction s) (auto split: list.splits)

lemma hd_split_on: "s \<noteq> [] \<Longrightarrow> hd s \<noteq> c \<Longrightarrow> hd (split_on c s) \<noteq> []"
  by (cases s) (auto split: list.splits)

lemma split_on_no_sep: "x \<in> set (split_on c s) \<Longrightarrow> c \<notin> set x"
proof (induction s arbitrary: x)
  case Nil
  then show ?case by simp
next
  case (Cons y s)
  obtain t ts where t: "split_on c s = t # ts" by (cases "split_on c s") auto
  with Cons show ?case by (auto split: if_splits)
qed

text \<open>Following a path from a directory; the parent of the root is the root.\<close>

fun walk :: "string list \<Rightarrow> Component list \<Rightarrow> string list" where
  "walk dir [] = dir"
| "walk dir (RootDir # cs) = walk [] cs"
| "walk dir (CurDir # cs) = walk dir cs"
| "walk dir (ParentDir # cs) = walk (butlast dir) cs"
| "walk dir (Normal n # cs) = walk (dir @ [n]) cs"

lemma walk_normal: "walk dir (map Normal ns) = dir @ ns"
  by (induction ns arbitrary: dir) auto

section \<open>Properties of paths\<close>

text \<open>C29: A managed profile path cannot leave the profile directory. Whatever string \<^verbatim>\<open>ManagedProfilePath::new\<close>
  accepts, following it from any directory ends strictly below that directory, at a path made of
  the string's own plain segments.\<close>

theorem managed_path_confined:
  assumes "managed_new v = Inr p"
  shows "\<exists>ns. ns \<noteq> [] \<and> (\<forall>dir. walk dir (components (managed_str p)) = dir @ ns) \<and>
    (\<forall>n \<in> set ns. n \<noteq> [] \<and> n \<noteq> ''.'' \<and> n \<noteq> ''..'' \<and> CHR ''/'' \<notin> set n)"
proof -
  from assms have v: "v \<noteq> []" "\<not> is_absolute v" "p = ManagedProfilePath v"
    and ok: "\<forall>c \<in> set (components v). c \<noteq> RootDir \<and> c \<noteq> ParentDir \<and> c \<noteq> CurDir"
    by (auto simp: managed_new_def list_ex_iff split: if_splits)
  let ?ns = "filter (\<lambda>x. x \<noteq> [] \<and> x \<noteq> ''.'') (split_on (CHR ''/'') v)"
  have first: "hd (split_on (CHR ''/'') v) \<noteq> ''.''"
    using ok v(2) by (auto simp: components_def Let_def)
  then have comps: "components v = map component_of ?ns"
    using v(2) by (simp add: components_def Let_def)
  have "n \<noteq> ''..''" if "n \<in> set ?ns" for n
    using ok that unfolding comps by (auto simp: component_of_def)
  then have norm: "components v = map Normal ?ns"
    unfolding comps by (auto simp: component_of_def)
  have "hd (split_on (CHR ''/'') v) \<noteq> []"
    using v(1,2) by (intro hd_split_on) (auto simp: is_absolute_def split: list.splits)
  with first have "hd (split_on (CHR ''/'') v) \<in> set ?ns" by simp
  then have "?ns \<noteq> []" by (metis empty_iff empty_set)
  with norm \<open>\<And>n. n \<in> set ?ns \<Longrightarrow> n \<noteq> ''..''\<close> show ?thesis
    by (intro exI [of _ ?ns]) (auto simp: v(3) walk_normal dest: split_on_no_sep)
qed

theorem managed_path_confined_witness:
  "managed_new ''a/./b.yaml'' = Inr (ManagedProfilePath ''a/./b.yaml'') \<and>
   (\<exists>ns. \<forall>dir. walk dir (components ''a/./b.yaml'') = dir @ ns) \<and>
   managed_new ''a/../b'' = Inl (ManagedContainsTraversal ''a/../b'')"
proof -
  have ok: "managed_new ''a/./b.yaml'' = Inr (ManagedProfilePath ''a/./b.yaml'')" by code_simp
  have "managed_new ''a/../b'' = Inl (ManagedContainsTraversal ''a/../b'')" by code_simp
  with ok managed_path_confined [OF ok] show ?thesis by auto
qed

section \<open>Properties of the leaf mutators\<close>

text \<open>Name provenance. Whatever patch arrives, the flag that protects a user's name is raised exactly
  when the patch really changes the name, is otherwise kept, and never follows the patch's own
  value; so a patch can never lower it.\<close>

lemma metadata_patch_provenance:
  "pmd_custom_name (it_metadata (apply_metadata_patch it p)) =
     (pmd_custom_name (it_metadata it) \<or>
      pmd_name (it_metadata (apply_metadata_patch it p)) \<noteq> pmd_name (it_metadata it)) \<and>
   apply_metadata_patch it p = apply_metadata_patch it (p\<lparr>pmp_custom_name := x\<rparr>) \<and>
   it_uid (apply_metadata_patch it p) = it_uid it \<and>
   it_definition (apply_metadata_patch it p) = it_definition it"
  by (auto simp: apply_metadata_patch_def metadata_apply_def or_keep_def Let_def split: option.splits)

end
