(* ===== verification/Profile_Store.thy ===== *)
theory Profile_Store
  imports Profile_Types
begin

text \<open>
  The profile document (\<^verbatim>\<open>profile/profiles.rs\<close>, the document's mutators of \<^verbatim>\<open>patch.rs\<close> and the reverse
  index of \<^verbatim>\<open>dependency.rs\<close>): items in order under their ids, the selected config, the global
  transforms, and what makes a document valid.

  The validation functions of the source push onto a list of errors; here each returns the errors
  it pushes, in that order. \<open>valid_document\<close> is the meaning of validity, stated without reference to
  the validator.
\<close>

section \<open>The document\<close>

record Profiles =
  pr_revision :: u64
  pr_current :: "ProfileId option"
  pr_global_transforms :: "ProfileId list"
  pr_valid :: "string list"
  pr_items :: "(ProfileId, ProfileItem) index_map"

definition default_valid :: "string list" where
  "default_valid = [''dns'', ''unified-delay'', ''tcp-concurrent'']"

definition profiles_default :: Profiles where
  "profiles_default =
     \<lparr>pr_revision = 0, pr_current = None, pr_global_transforms = [], pr_valid = default_valid,
      pr_items = []\<rparr>"

datatype ProfileRevisionError = Overflow

definition bump_revision :: "Profiles \<Rightarrow> (ProfileRevisionError + u64) \<times> Profiles" where
  "bump_revision p =
     (if pr_revision p = - 1 then (Inl Overflow, p)
      else (Inr (pr_revision p + 1), p\<lparr>pr_revision := pr_revision p + 1\<rparr>))"

definition get_item :: "Profiles \<Rightarrow> ProfileId \<Rightarrow> ProfileItem option" where
  "get_item p u = im_get (pr_items p) u"

definition append_item :: "Profiles \<Rightarrow> ProfileItem \<Rightarrow> Profiles \<times> bool" where
  "append_item p it =
     (case im_get (pr_items p) (it_uid it) of
        None \<Rightarrow> (p\<lparr>pr_items := im_insert (it_uid it) it (pr_items p)\<rparr>, True)
      | Some _ \<Rightarrow> (p, False))"

definition replace_item :: "Profiles \<Rightarrow> ProfileItem \<Rightarrow> Profiles \<times> ProfileItem option" where
  "replace_item p it =
     (case im_get (pr_items p) (it_uid it) of
        None \<Rightarrow> (p, None)
      | Some old \<Rightarrow> (p\<lparr>pr_items := im_insert (it_uid it) it (pr_items p)\<rparr>, Some old))"

definition remove_item_unchecked :: "Profiles \<Rightarrow> ProfileId \<Rightarrow> Profiles \<times> ProfileItem option" where
  "remove_item_unchecked p u =
     (p\<lparr>pr_items := im_shift_remove u (pr_items p)\<rparr>, im_get (pr_items p) u)"

definition reorder :: "Profiles \<Rightarrow> ProfileId \<Rightarrow> ProfileId \<Rightarrow> Profiles \<times> bool" where
  "reorder p active over =
     (case (im_get_index_of active (pr_items p), im_get_index_of over (pr_items p)) of
        (Some i, Some j) \<Rightarrow>
          if i = j then (p, False) else (p\<lparr>pr_items := move_nth i j (pr_items p)\<rparr>, True)
      | _ \<Rightarrow> (p, False))"

definition set_current :: "Profiles \<Rightarrow> ProfileId option \<Rightarrow> Profiles" where
  "set_current p u = p\<lparr>pr_current := u\<rparr>"

definition clear_current :: "Profiles \<Rightarrow> Profiles" where
  "clear_current p = p\<lparr>pr_current := None\<rparr>"

definition set_valid :: "Profiles \<Rightarrow> string list \<Rightarrow> Profiles" where
  "set_valid p v = p\<lparr>pr_valid := v\<rparr>"

definition add_global_transform :: "Profiles \<Rightarrow> ProfileId \<Rightarrow> Profiles \<times> bool" where
  "add_global_transform p u =
     (let (xs, b) = list_add (pr_global_transforms p) u in (p\<lparr>pr_global_transforms := xs\<rparr>, b))"

definition remove_global_transform :: "Profiles \<Rightarrow> ProfileId \<Rightarrow> Profiles \<times> bool" where
  "remove_global_transform p u =
     (let (xs, b) = list_remove (pr_global_transforms p) u in (p\<lparr>pr_global_transforms := xs\<rparr>, b))"

definition move_global_transform :: "Profiles \<Rightarrow> nat \<Rightarrow> nat \<Rightarrow> Profiles \<times> bool" where
  "move_global_transform p from to =
     (let (xs, b) = list_move (pr_global_transforms p) from to in (p\<lparr>pr_global_transforms := xs\<rparr>, b))"

section \<open>Sanitizing\<close>

record ProfilesSanitizeReport =
  rep_removed_current :: "ProfileId option"
  rep_removed_global_transforms :: "ProfileId list"
  rep_default_config :: "ProfileId option"
  rep_current_needs_activation :: bool

definition refers_to :: "(ProfileDefinition \<Rightarrow> bool) \<Rightarrow> Profiles \<Rightarrow> ProfileId \<Rightarrow> bool" where
  "refers_to P p u = (case im_get (pr_items p) u of Some it \<Rightarrow> P (it_definition it) | None \<Rightarrow> False)"

definition sanitize_top_level :: "Profiles \<Rightarrow> Profiles \<times> ProfilesSanitizeReport" where
  "sanitize_top_level p =
     (let (removed, current) =
            (case pr_current p of
               Some u \<Rightarrow> if refers_to is_config p u then (None, Some u) else (Some u, None)
             | None \<Rightarrow> (None, None));
          dropped = filter (\<lambda>u. \<not> refers_to is_transform p u) (pr_global_transforms p);
          dflt = (case filter (\<lambda>(u, it). is_config (it_definition it)) (pr_items p) of
                    [] \<Rightarrow> None | (u, it) # _ \<Rightarrow> Some u)
      in (p\<lparr>pr_current := current,
            pr_global_transforms := filter (refers_to is_transform p) (pr_global_transforms p)\<rparr>,
          \<lparr>rep_removed_current = removed, rep_removed_global_transforms = dropped,
           rep_default_config = dflt,
           rep_current_needs_activation = (current = None \<and> dflt \<noteq> None)\<rparr>))"

section \<open>Validation\<close>

datatype TransformOwner = Global | OwnerConfig ProfileId

datatype CompositionMemberRole = Base | Contributor

datatype ProfileValidationError =
    ItemKeyMismatch ProfileId ProfileId
  | CurrentNotFound ProfileId
  | CurrentNotConfig ProfileId
  | TransformTargetNotFound TransformOwner ProfileId
  | TransformTargetNotTransform TransformOwner ProfileId
  | EmptyCompositionConfig ProfileId
  | CompositionSelfReference ProfileId CompositionMemberRole
  | CompositionMemberNotFound ProfileId CompositionMemberRole ProfileId
  | CompositionMemberNotDirectFileConfig ProfileId CompositionMemberRole ProfileId
  | CompositionBaseAlsoContributor ProfileId ProfileId
  | CompositionDuplicateContributor ProfileId ProfileId
  | DuplicateMaterializedFile ManagedProfilePath ProfileId ProfileId
  | UnsupportedRemoteUrlScheme ProfileId string
  | RemoteUpdateIntervalIsZero ProfileId

definition validate_transform_target ::
    "Profiles \<Rightarrow> TransformOwner \<Rightarrow> ProfileId \<Rightarrow> ProfileValidationError list" where
  "validate_transform_target p owner target =
     (case im_get (pr_items p) target of
        None \<Rightarrow> [TransformTargetNotFound owner target]
      | Some it \<Rightarrow>
          if \<not> is_transform (it_definition it) then [TransformTargetNotTransform owner target] else [])"

definition validate_transforms ::
    "Profiles \<Rightarrow> TransformOwner \<Rightarrow> ProfileId list \<Rightarrow> ProfileValidationError list" where
  "validate_transforms p owner ts = concat (map (validate_transform_target p owner) ts)"

definition validate_composition_member ::
    "Profiles \<Rightarrow> ProfileId \<Rightarrow> CompositionMemberRole \<Rightarrow> ProfileId \<Rightarrow> ProfileValidationError list" where
  "validate_composition_member p cid role member =
     (if cid = member then [CompositionSelfReference cid role]
      else case im_get (pr_items p) member of
             None \<Rightarrow> [CompositionMemberNotFound cid role member]
           | Some it \<Rightarrow>
               if \<not> is_direct_file_config (it_definition it)
               then [CompositionMemberNotDirectFileConfig cid role member] else [])"

fun validate_contributors ::
    "Profiles \<Rightarrow> ProfileId \<Rightarrow> ProfileId option \<Rightarrow> ProfileId index_set \<Rightarrow> ProfileId list \<Rightarrow>
     ProfileValidationError list" where
  "validate_contributors p cid base seen [] = []"
| "validate_contributors p cid base seen (x # xs) =
     (if base = Some x then [CompositionBaseAlsoContributor cid x] else []) @
     (if x \<in> set seen then [CompositionDuplicateContributor cid x] else []) @
     validate_composition_member p cid Contributor x @
     validate_contributors p cid base (is_insert x seen) xs"

definition validate_composition_config ::
    "Profiles \<Rightarrow> ProfileId \<Rightarrow> CompositionConfig \<Rightarrow> ProfileValidationError list" where
  "validate_composition_config p cid c =
     (if cc_base c = None \<and> cc_extend_proxies_from c = [] \<and> cc_transforms c = []
      then [EmptyCompositionConfig cid] else []) @
     (case cc_base c of None \<Rightarrow> [] | Some b \<Rightarrow> validate_composition_member p cid Base b) @
     validate_contributors p cid (cc_base c) [] (cc_extend_proxies_from c)"

fun validate_source :: "ProfileId \<Rightarrow> ProfileSource \<Rightarrow> ProfileValidationError list" where
  "validate_source u (Remote m url opt sub) =
     (if url_scheme url \<noteq> ''http'' \<and> url_scheme url \<noteq> ''https''
      then [UnsupportedRemoteUrlScheme u (url_scheme url)] else []) @
     (if ro_update_interval_minutes opt = 0 then [RemoteUpdateIntervalIsZero u] else [])"
| "validate_source u (Local b) = []"

definition validate_definition ::
    "Profiles \<Rightarrow> ProfileId \<Rightarrow> ProfileDefinition \<Rightarrow> ProfileValidationError list" where
  "validate_definition p u d =
     (case d of
        Config (File f) \<Rightarrow> validate_transforms p (OwnerConfig u) (fc_transforms f)
      | Config (Composition c) \<Rightarrow>
          validate_transforms p (OwnerConfig u) (cc_transforms c) @ validate_composition_config p u c
      | Transform t \<Rightarrow> [])"

text \<open>The loop over the items, with the owners of the materialized files seen so far.\<close>

fun validate_items ::
    "Profiles \<Rightarrow> (ManagedProfilePath \<times> ProfileId) list \<Rightarrow> (ProfileId \<times> ProfileItem) list \<Rightarrow>
     ProfileValidationError list" where
  "validate_items p owners [] = []"
| "validate_items p owners ((u, it) # rest) =
     (if u \<noteq> it_uid it then [ItemKeyMismatch u (it_uid it)] else []) @
     validate_definition p u (it_definition it) @
     (case definition_source (it_definition it) of
        None \<Rightarrow> validate_items p owners rest
      | Some s \<Rightarrow>
          let file = mf_file (materialized s) in
          (case map_of owners file of
             Some first \<Rightarrow> [DuplicateMaterializedFile file first u] | None \<Rightarrow> []) @
          validate_source u s @
          validate_items p (AList.update file u owners) rest)"

definition validate_current :: "Profiles \<Rightarrow> ProfileValidationError list" where
  "validate_current p =
     (case pr_current p of
        None \<Rightarrow> []
      | Some u \<Rightarrow>
          (case im_get (pr_items p) u of
             None \<Rightarrow> [CurrentNotFound u]
           | Some it \<Rightarrow> if \<not> is_config (it_definition it) then [CurrentNotConfig u] else []))"

definition validate :: "Profiles \<Rightarrow> ProfileValidationError list + unit" where
  "validate p =
     (let errors = validate_current p @ validate_transforms p Global (pr_global_transforms p) @
                   validate_items p [] (pr_items p)
      in if errors = [] then Inr () else Inl errors)"

section \<open>Reading and writing the items\<close>

definition items_serialize :: "(ProfileId, ProfileItem) index_map \<Rightarrow> ProfileItem list" where
  "items_serialize m = im_values m"

text \<open>The error carries the repeated id.\<close>

definition deserialize_item ::
    "ProfileItem \<Rightarrow> (ProfileId, ProfileItem) index_map \<Rightarrow> ProfileId + (ProfileId, ProfileItem) index_map" where
  "deserialize_item it m =
     (case im_get m (it_uid it) of
        None \<Rightarrow> Inr (im_insert (it_uid it) it m)
      | Some _ \<Rightarrow> Inl (it_uid it))"

definition items_deserialize :: "ProfileItem list \<Rightarrow> ProfileId + (ProfileId, ProfileItem) index_map" where
  "items_deserialize its = result_fold deserialize_item its []"

section \<open>The reverse index\<close>

record ProfileDependencyIndex =
  composition_base_dependents :: "(ProfileId, ProfileId index_set) index_map"
  extend_proxies_dependents :: "(ProfileId, ProfileId index_set) index_map"
  transform_dependents :: "(ProfileId, ProfileId index_set) index_map"
  global_transform_ids :: "ProfileId index_set"

definition index_default :: ProfileDependencyIndex where
  "index_default =
     \<lparr>composition_base_dependents = [], extend_proxies_dependents = [], transform_dependents = [],
      global_transform_ids = []\<rparr>"

text \<open>\<^verbatim>\<open>entry(k).or_default().insert(v)\<close>\<close>

definition entry_insert ::
    "ProfileId \<Rightarrow> ProfileId \<Rightarrow> (ProfileId, ProfileId index_set) index_map \<Rightarrow>
     (ProfileId, ProfileId index_set) index_map" where
  "entry_insert k v m =
     im_insert k (is_insert v (case im_get m k of Some s \<Rightarrow> s | None \<Rightarrow> [])) m"

definition index_item :: "ProfileId \<times> ProfileItem \<Rightarrow> ProfileDependencyIndex \<Rightarrow> ProfileDependencyIndex" where
  "index_item kv ix =
     (case it_definition (snd kv) of
        Transform t \<Rightarrow> ix
      | Config c \<Rightarrow>
          let u = fst kv;
              ix1 = (case c of
                       File f \<Rightarrow> ix
                     | Composition cc \<Rightarrow>
                         ix\<lparr>composition_base_dependents :=
                              (case cc_base cc of
                                 Some b \<Rightarrow> entry_insert b u (composition_base_dependents ix)
                               | None \<Rightarrow> composition_base_dependents ix),
                            extend_proxies_dependents :=
                              fold (\<lambda>x. entry_insert x u) (cc_extend_proxies_from cc)
                                (extend_proxies_dependents ix)\<rparr>)
          in ix1\<lparr>transform_dependents :=
                   fold (\<lambda>x. entry_insert x u) (config_transforms c) (transform_dependents ix1)\<rparr>)"

definition index_build :: "Profiles \<Rightarrow> ProfileDependencyIndex" where
  "index_build p =
     fold index_item (pr_items p)
       (index_default\<lparr>global_transform_ids := is_collect (pr_global_transforms p)\<rparr>)"


section \<open>Lemmas on the items\<close>

text \<open>The shape every document keeps: distinct ids, each item under its own id.\<close>

definition items_wf :: "(ProfileId, ProfileItem) index_map \<Rightarrow> bool" where
  "items_wf m = (im_wf m \<and> (\<forall>(u, it) \<in> set m. it_uid it = u))"

lemma items_wf_insert: "items_wf m \<Longrightarrow> items_wf (im_insert (it_uid it) it m)"
proof -
  assume wf: "items_wf m"
  have "set (im_insert k v m) \<subseteq> insert (k, v) (set m)" for k :: ProfileId and v :: ProfileItem
    by (induction m) auto
  with wf im_wf_insert [of m "it_uid it" it] show ?thesis
    unfolding items_wf_def by blast
qed

lemma items_wf_keys: "items_wf m \<Longrightarrow> map it_uid (im_values m) = im_keys m"
  by (auto simp: items_wf_def)

lemma items_wf_rebuild: "items_wf m \<Longrightarrow> map (\<lambda>it. (it_uid it, it)) (im_values m) = m"
  by (auto simp: items_wf_def intro!: map_idI)

lemma items_wf_mset: "mset m = mset m' \<Longrightarrow> items_wf m = items_wf m'"
proof -
  assume ms: "mset m = mset m'"
  then have "distinct (map fst m) = distinct (map fst m')"
    by (metis mset_eq_imp_distinct_iff mset_map)
  moreover from ms have "set m = set m'" by (rule mset_eq_setD)
  ultimately show ?thesis by (simp add: items_wf_def im_wf_def)
qed

lemma im_get_mset:
  assumes "im_wf m" and "mset m = mset m'"
  shows "im_get m = im_get m'"
proof -
  have "im_wf m'" using assms by (metis im_wf_def mset_eq_imp_distinct_iff mset_map)
  with assms show ?thesis
    by (metis im_wf_def map_of_inject_set mset_eq_setD)
qed

lemma items_deserialize_eq:
  assumes "items_wf m" and "distinct (im_keys m @ map it_uid its)"
  shows "result_fold deserialize_item its m = Inr (m @ map (\<lambda>it. (it_uid it, it)) its)"
  using assms
proof (induction its arbitrary: m)
  case Nil
  then show ?case by simp
next
  case (Cons it its)
  then have vac: "im_get m (it_uid it) = None"
    using im_get_in_keys [of m "it_uid it"] by auto
  then have keys: "im_insert (it_uid it) it m = m @ [(it_uid it, it)]"
    by (rule im_keys_insert_vacant)
  with Cons.IH [OF items_wf_insert [OF Cons.prems(1), of it]] Cons.prems(2) vac show ?case
    by (simp add: deserialize_item_def)
qed

lemma items_deserialize_dup:
  assumes "items_wf m" and "\<not> distinct (im_keys m @ map it_uid its)"
  shows "\<exists>u. result_fold deserialize_item its m = Inl u"
  using assms
proof (induction its arbitrary: m)
  case Nil
  then show ?case by (simp add: items_wf_def im_wf_def)
next
  case (Cons it its)
  show ?case
  proof (cases "im_get m (it_uid it)")
    case None
    then have keys: "im_insert (it_uid it) it m = m @ [(it_uid it, it)]"
      by (rule im_keys_insert_vacant)
    have "\<not> distinct (im_keys (im_insert (it_uid it) it m) @ map it_uid its)"
      unfolding keys using Cons.prems(2) by simp
    with Cons.IH [OF items_wf_insert [OF Cons.prems(1)], of it] None show ?thesis
      by (simp add: deserialize_item_def)
  next
    case (Some x)
    then show ?thesis by (simp add: deserialize_item_def)
  qed
qed

section \<open>Properties of the items\<close>

text \<open>Writing the items and reading them back gives the same items in the same order, and reading
  never drops an item silently: a sequence is accepted exactly when its ids are distinct, and then
  every item is kept at its position.\<close>

theorem items_serde_roundtrip:
  "(items_wf m \<longrightarrow> items_deserialize (items_serialize m) = Inr m) \<and>
   (distinct (map it_uid its) \<longrightarrow> (\<exists>m'. items_deserialize its = Inr m' \<and> items_serialize m' = its \<and> items_wf m')) \<and>
   (\<not> distinct (map it_uid its) \<longrightarrow> (\<exists>u. items_deserialize its = Inl u))"
proof -
  have nil: "items_wf []" by (simp add: items_wf_def)
  have eq: "items_deserialize xs = Inr (map (\<lambda>it. (it_uid it, it)) xs)" if "distinct (map it_uid xs)" for xs
    using items_deserialize_eq [OF nil, of xs] that by (simp add: items_deserialize_def)
  have "items_wf m \<Longrightarrow> distinct (map it_uid (im_values m))"
    using items_wf_keys [of m] by (metis items_wf_def im_wf_def)
  then have 1: "items_wf m \<longrightarrow> items_deserialize (items_serialize m) = Inr m"
    using eq [of "im_values m"] items_wf_rebuild [of m] by (simp add: items_serialize_def)
  have 2: "distinct (map it_uid its) \<longrightarrow>
      (\<exists>m'. items_deserialize its = Inr m' \<and> items_serialize m' = its \<and> items_wf m')"
    using eq [of its] by (auto simp: items_serialize_def items_wf_def im_wf_def comp_def)
  have 3: "\<not> distinct (map it_uid its) \<longrightarrow> (\<exists>u. items_deserialize its = Inl u)"
    using items_deserialize_dup [OF nil, of its] by (simp add: items_deserialize_def)
  from 1 2 3 show ?thesis by blast
qed


text \<open>Sample items: a subscription and a composition that extends it.\<close>

definition demo_file :: "string \<Rightarrow> MaterializedFile" where
  "demo_file n = \<lparr>mf_file = ManagedProfilePath n, mf_updated_at = None\<rparr>"

definition demo_item :: "ProfileId \<Rightarrow> ProfileDefinition \<Rightarrow> ProfileItem" where
  "demo_item u d =
     \<lparr>it_uid = u, it_metadata = \<lparr>pmd_name = u, pmd_desc = None, pmd_custom_name = True\<rparr>,
      it_definition = d\<rparr>"

definition demo_remote :: "ProfileId \<Rightarrow> ProfileItem" where
  "demo_remote u =
     demo_item u (Config (File \<lparr>fc_source = Remote (demo_file u) (Url ''https'' ''x'') remote_options_default
       \<lparr>si_upload = None, si_download = None, si_total = None, si_expire = None\<rparr>, fc_transforms = [''t'']\<rparr>))"

definition demo_composition :: "ProfileId \<Rightarrow> ProfileItem" where
  "demo_composition u =
     demo_item u (Config (Composition \<lparr>cc_base = Some ''a'', cc_extend_proxies_from = [''b''],
       cc_transforms = [''t'']\<rparr>))"

definition demo_transform :: "ProfileId \<Rightarrow> ProfileItem" where
  "demo_transform u = demo_item u (Transform (Overlay \<lparr>ot_source = Local (Managed (demo_file u))\<rparr>))"

definition demo_profiles :: Profiles where
  "demo_profiles =
     \<lparr>pr_revision = 3, pr_current = Some ''c'', pr_global_transforms = [''t''], pr_valid = default_valid,
      pr_items = [(''a'', demo_remote ''a''), (''b'', demo_remote ''b''), (''c'', demo_composition ''c''),
                  (''t'', demo_transform ''t'')]\<rparr>"

lemmas demo_profile_defs = demo_profiles_def demo_remote_def demo_composition_def demo_transform_def
  demo_item_def demo_file_def

lemma demo_items_wf [simp]: "items_wf (pr_items demo_profiles)"
  by (simp add: items_wf_def im_wf_def demo_profile_defs)

text \<open>The operations on the items keep the document's shape (distinct ids, every item under its own id)
  and do what their names say: appending only adds, at the end; replacing changes one item and
  no position; removing takes out one id; moving is a permutation that puts the moved item where
  the other one was.\<close>

theorem profile_items_operations:
  assumes "items_wf (pr_items p)"
  shows "items_wf (pr_items (fst (append_item p it))) \<and>
    items_wf (pr_items (fst (replace_item p it))) \<and>
    items_wf (pr_items (fst (remove_item_unchecked p u))) \<and>
    items_wf (pr_items (fst (reorder p u v))) \<and>
    pr_items (fst (append_item p it)) =
      (if get_item p (it_uid it) = None then pr_items p @ [(it_uid it, it)] else pr_items p) \<and>
    im_keys (pr_items (fst (replace_item p it))) = im_keys (pr_items p) \<and>
    (get_item p (it_uid it) \<noteq> None \<longrightarrow> get_item (fst (replace_item p it)) (it_uid it) = Some it) \<and>
    get_item (fst (remove_item_unchecked p u)) = (get_item p)(u := None) \<and>
    mset (pr_items (fst (reorder p u v))) = mset (pr_items p) \<and>
    get_item (fst (reorder p u v)) = get_item p"
proof -
  let ?m = "pr_items p"
  have wf: "im_wf ?m" using assms by (simp add: items_wf_def)
  have app: "items_wf (pr_items (fst (append_item p it)))"
    using assms by (auto simp: append_item_def items_wf_insert split: option.splits)
  have rep: "items_wf (pr_items (fst (replace_item p it)))"
    using assms by (auto simp: replace_item_def items_wf_insert split: option.splits)
  have rem: "items_wf (pr_items (fst (remove_item_unchecked p u)))"
    using assms im_wf_remove [of ?m u]
    by (auto simp: remove_item_unchecked_def items_wf_def AList.delete_eq)
  have ms: "mset (pr_items (fst (reorder p u v))) = mset ?m"
    by (auto simp: reorder_def mset_move_nth dest!: im_get_index_of_Some split: option.splits)
  have get_reorder: "get_item (fst (reorder p u v)) = get_item p"
    using im_get_mset [OF wf ms [symmetric]] by (auto simp: get_item_def fun_eq_iff)
  have "items_wf (pr_items (fst (reorder p u v)))"
    using items_wf_mset [OF ms] assms by simp
  with app rep rem ms get_reorder show ?thesis
    by (auto simp: append_item_def replace_item_def remove_item_unchecked_def get_item_def fun_eq_iff
        im_keys_insert_vacant im_keys_insert_present im_get_insert im_get_remove split: option.splits)
qed

section \<open>What validity means\<close>

definition valid_member :: "Profiles \<Rightarrow> ProfileId \<Rightarrow> ProfileId \<Rightarrow> bool" where
  "valid_member p cid u = (u \<noteq> cid \<and> refers_to is_direct_file_config p u)"

definition valid_composition :: "Profiles \<Rightarrow> ProfileId \<Rightarrow> CompositionConfig \<Rightarrow> bool" where
  "valid_composition p cid c =
     ((cc_base c \<noteq> None \<or> cc_extend_proxies_from c \<noteq> [] \<or> cc_transforms c \<noteq> []) \<and>
      (\<forall>b. cc_base c = Some b \<longrightarrow> valid_member p cid b \<and> b \<notin> set (cc_extend_proxies_from c)) \<and>
      distinct (cc_extend_proxies_from c) \<and>
      (\<forall>u \<in> set (cc_extend_proxies_from c). valid_member p cid u))"

definition valid_definition :: "Profiles \<Rightarrow> ProfileId \<Rightarrow> ProfileDefinition \<Rightarrow> bool" where
  "valid_definition p u d =
     (case d of
        Config c \<Rightarrow>
          list_all (refers_to is_transform p) (config_transforms c) \<and>
          (case c of File f \<Rightarrow> True | Composition cc \<Rightarrow> valid_composition p u cc)
      | Transform t \<Rightarrow> True)"

fun valid_source :: "ProfileSource \<Rightarrow> bool" where
  "valid_source (Remote m url opt sub) =
     (url_scheme url \<in> {''http'', ''https''} \<and> ro_update_interval_minutes opt \<noteq> 0)"
| "valid_source (Local b) = True"

definition item_file :: "ProfileItem \<Rightarrow> ManagedProfilePath option" where
  "item_file it = map_option (mf_file \<circ> materialized) (definition_source (it_definition it))"

definition item_files :: "(ProfileId, ProfileItem) index_map \<Rightarrow> ManagedProfilePath list" where
  "item_files m = List.map_filter item_file (im_values m)"

definition valid_document :: "Profiles \<Rightarrow> bool" where
  "valid_document p =
     ((\<forall>u. pr_current p = Some u \<longrightarrow> refers_to is_config p u) \<and>
      list_all (refers_to is_transform p) (pr_global_transforms p) \<and>
      (\<forall>(u, it) \<in> set (pr_items p).
         it_uid it = u \<and> valid_definition p u (it_definition it) \<and>
         (\<forall>s. definition_source (it_definition it) = Some s \<longrightarrow> valid_source s)) \<and>
      distinct (item_files (pr_items p)))"

lemma validate_transform_target_Nil [simp]:
  "(validate_transform_target p owner t = []) = refers_to is_transform p t"
  by (simp add: validate_transform_target_def refers_to_def split: option.splits)

lemma validate_transforms_Nil [simp]:
  "(validate_transforms p owner ts = []) = list_all (refers_to is_transform p) ts"
  by (simp add: validate_transforms_def list_all_iff)

lemma validate_composition_member_Nil [simp]:
  "(validate_composition_member p cid role u = []) = valid_member p cid u"
  by (auto simp: validate_composition_member_def valid_member_def refers_to_def split: option.splits)

lemma validate_contributors_Nil:
  "(validate_contributors p cid base seen xs = []) =
     ((\<forall>b. base = Some b \<longrightarrow> b \<notin> set xs) \<and> distinct xs \<and> set seen \<inter> set xs = {} \<and>
      (\<forall>u \<in> set xs. valid_member p cid u))"
  by (induction xs arbitrary: seen) auto

lemma validate_composition_config_Nil [simp]:
  "(validate_composition_config p cid c = []) = valid_composition p cid c"
  by (auto simp: validate_composition_config_def valid_composition_def validate_contributors_Nil
      split: option.splits)

lemma validate_definition_Nil [simp]:
  "(validate_definition p u d = []) = valid_definition p u d"
  by (auto simp: validate_definition_def valid_definition_def
      split: ProfileDefinition.splits ConfigDefinition.splits)

lemma validate_source_Nil [simp]: "(validate_source u s = []) = valid_source s"
  by (cases s) auto

lemma item_files_Nil [simp]: "item_files [] = []"
  by (simp add: item_files_def List.map_filter_def)

lemma item_files_Cons [simp]:
  "item_files ((u, it) # m) =
     (case definition_source (it_definition it) of
        None \<Rightarrow> item_files m | Some s \<Rightarrow> mf_file (materialized s) # item_files m)"
  by (simp add: item_files_def item_file_def List.map_filter_def split: option.splits)

lemma validate_items_Nil:
  "(validate_items p owners its = []) =
     ((\<forall>(u, it) \<in> set its. it_uid it = u \<and> valid_definition p u (it_definition it) \<and>
         (\<forall>s. definition_source (it_definition it) = Some s \<longrightarrow> valid_source s)) \<and>
      distinct (item_files its) \<and> set (im_keys owners) \<inter> set (item_files its) = {})"
proof (induction p owners its rule: validate_items.induct)
  case (1 p owners)
  then show ?case by simp
next
  case (2 p owners u it rest)
  show ?case
  proof (cases "definition_source (it_definition it)")
    case None
    with 2(1) show ?thesis by auto
  next
    case (Some s)
    let ?f = "mf_file (materialized s)"
    have keys: "set (im_keys (AList.update ?f u owners)) = insert ?f (set (im_keys owners))"
      by (simp add: dom_update)
    show ?thesis
    proof (cases "map_of owners ?f")
      case None
      then have "?f \<notin> set (im_keys owners)" using im_get_in_keys [of owners ?f] by simp
      with 2(2) [OF Some refl] Some None keys show ?thesis by (auto simp: Let_def)
    next
      case f: (Some x)
      then have "?f \<in> set (im_keys owners)" using im_get_in_keys [of owners ?f] by simp
      with Some f show ?thesis by (auto simp: Let_def)
    qed
  qed
qed

lemma validate_current_Nil [simp]:
  "(validate_current p = []) = (\<forall>u. pr_current p = Some u \<longrightarrow> refers_to is_config p u)"
  by (auto simp: validate_current_def refers_to_def split: option.splits)

section \<open>Properties of validation\<close>

lemma validate_valid_document: "validate p = Inr () \<Longrightarrow> valid_document p"
  by (auto simp: validate_def Let_def valid_document_def validate_items_Nil split: if_splits)

text \<open>C20: The validator is sound and complete: it accepts a document exactly when the selected profile is an
  existing config, every transform reference (global or scoped) names an existing transform,
  every item sits under its own id, compositions are not empty, refer only to other, direct file configs,
  repeat no contributor and do not list their base as one, no two profiles share a materialized
  file, and every subscription has an http(s) address and a positive update interval.\<close>

theorem validate_iff: "(validate p = Inr ()) = valid_document p"
  by (auto simp: validate_def Let_def valid_document_def validate_items_Nil)

text \<open>The profiles a profile refers to.\<close>

definition refs_of :: "Profiles \<Rightarrow> ProfileId \<Rightarrow> ProfileId set" where
  "refs_of p u =
     (case get_item p u of
        None \<Rightarrow> {}
      | Some it \<Rightarrow>
          (case it_definition it of
             Transform t \<Rightarrow> {}
           | Config (File f) \<Rightarrow> set (fc_transforms f)
           | Config (Composition c) \<Rightarrow>
               set_option (cc_base c) \<union> set (cc_extend_proxies_from c) \<union> set (cc_transforms c)))"

lemma refers_to_get: "refers_to P p u \<Longrightarrow> \<exists>it. get_item p u = Some it \<and> P (it_definition it)"
  by (simp add: refers_to_def get_item_def split: option.splits)

lemma valid_refs:
  assumes "valid_document p" and "v \<in> refs_of p u"
  shows "refers_to is_transform p v \<or> (refers_to is_direct_file_config p v \<and> v \<noteq> u)"
proof -
  from assms(2) obtain it where it: "get_item p u = Some it"
    by (auto simp: refs_of_def split: option.splits)
  then have "(u, it) \<in> set (pr_items p)" by (simp add: get_item_def im_get_Some_in)
  with assms(1) have "valid_definition p u (it_definition it)" by (auto simp: valid_document_def)
  with it assms(2) show ?thesis
    by (auto simp: refs_of_def valid_definition_def valid_composition_def valid_member_def list_all_iff
        split: ProfileDefinition.splits ConfigDefinition.splits)
qed

lemma transform_no_refs: "refers_to is_transform p v \<Longrightarrow> refs_of p v = {}"
  by (auto dest!: refers_to_get simp: refs_of_def elim: is_transform.elims split: ProfileDefinition.splits)

lemma file_refs_transforms:
  assumes "valid_document p" and "refers_to is_direct_file_config p v" and "w \<in> refs_of p v"
  shows "refers_to is_transform p w"
proof -
  from refers_to_get [OF assms(2)] obtain it f where it: "get_item p v = Some it"
    "it_definition it = Config (File f)"
    by (auto elim: is_direct_file_config.elims)
  then have "(v, it) \<in> set (pr_items p)" by (simp add: get_item_def im_get_Some_in)
  with assms(1) it(2) have "list_all (refers_to is_transform p) (fc_transforms f)"
    by (auto simp: valid_document_def valid_definition_def)
  with it assms(3) show ?thesis by (simp add: refs_of_def list_all_iff)
qed

text \<open>A valid document has no reference cycles: along base, contributor and transform references
  every chain has at most two steps, because compositions refer only to file configs and
  transforms, file configs only to transforms, and transforms to nothing.\<close>

theorem valid_references_shallow:
  assumes "validate p = Inr ()" and "v \<in> refs_of p u" and "w \<in> refs_of p v"
  shows "refs_of p w = {} \<and> w \<noteq> u \<and> v \<noteq> u"
proof -
  have doc: "valid_document p" using assms(1) by (rule validate_valid_document)
  have "\<not> refers_to is_transform p v" using transform_no_refs assms(3) by fastforce
  with valid_refs [OF doc assms(2)] have v: "refers_to is_direct_file_config p v" "v \<noteq> u" by auto
  have "refs_of p w = {}"
    using file_refs_transforms [OF doc v(1) assms(3)] by (rule transform_no_refs)
  with v assms(2) show ?thesis by auto
qed

text \<open>Sanitizing repairs exactly the top level. Afterwards the selected profile, if any, is a config and
  every global transform is a transform, so none of the validator's complaints about them remains;
  nothing else changed, nothing valid was dropped, doing it again changes nothing, and a config
  is proposed for activation exactly when none is selected and one exists.\<close>

theorem sanitize_top_level_repairs:
  assumes "sanitize_top_level p = (p', r)"
  shows "validate_current p' = [] \<and> validate_transforms p' Global (pr_global_transforms p') = [] \<and>
    pr_items p' = pr_items p \<and> pr_valid p' = pr_valid p \<and> pr_revision p' = pr_revision p \<and>
    fst (sanitize_top_level p') = p' \<and>
    mset (pr_global_transforms p) = mset (pr_global_transforms p') + mset (rep_removed_global_transforms r) \<and>
    (\<forall>u. pr_current p = Some u \<longrightarrow> (pr_current p' = Some u) = refers_to is_config p u) \<and>
    rep_current_needs_activation r =
      (pr_current p' = None \<and> (\<exists>it \<in> set (im_values (pr_items p)). is_config (it_definition it)))"
proof -
  have same: "refers_to P (p\<lparr>pr_current := c, pr_global_transforms := g\<rparr>) = refers_to P p" for P c g
    by (simp add: refers_to_def fun_eq_iff)
  have split: "mset xs = mset (filter P xs) + mset (filter (\<lambda>x. \<not> P x) xs)" for P and xs :: "ProfileId list"
    by (induction xs) auto
  have some: "(filter (\<lambda>(u, it). is_config (it_definition it)) m \<noteq> []) =
      (\<exists>it \<in> set (im_values m). is_config (it_definition it))" for m :: "(ProfileId, ProfileItem) index_map"
    by (induction m) auto
  show ?thesis
    using assms some [of "pr_items p"] split [of "pr_global_transforms p" "refers_to is_transform p"]
    by (cases "pr_current p")
      (auto simp: sanitize_top_level_def Let_def same list_all_iff split: if_splits list.splits)
qed


section \<open>The reverse index is the inverse of the references\<close>

definition deps_of :: "(ProfileId, ProfileId index_set) index_map \<Rightarrow> ProfileId \<Rightarrow> ProfileId set" where
  "deps_of m k = (case im_get m k of Some s \<Rightarrow> set s | None \<Rightarrow> {})"

lemma deps_of_entry_insert [simp]:
  "deps_of (entry_insert k v m) k' = (if k' = k then insert v (deps_of m k) else deps_of m k')"
  by (auto simp: deps_of_def entry_insert_def im_get_insert split: option.splits)

lemma deps_of_entry_inserts [simp]:
  "deps_of (fold (\<lambda>x. entry_insert x u) xs m) k =
     (if k \<in> set xs then insert u (deps_of m k) else deps_of m k)"
  by (induction xs arbitrary: m) auto

fun base_of :: "ProfileDefinition \<Rightarrow> ProfileId set" where
  "base_of (Config (Composition c)) = set_option (cc_base c)"
| "base_of _ = {}"

fun contributors_of :: "ProfileDefinition \<Rightarrow> ProfileId set" where
  "contributors_of (Config (Composition c)) = set (cc_extend_proxies_from c)"
| "contributors_of _ = {}"

fun transforms_of :: "ProfileDefinition \<Rightarrow> ProfileId set" where
  "transforms_of (Config c) = set (config_transforms c)"
| "transforms_of (Transform t) = {}"

lemma index_item_deps:
  "deps_of (composition_base_dependents (index_item (u, it) ix)) k =
     deps_of (composition_base_dependents ix) k \<union> (if k \<in> base_of (it_definition it) then {u} else {})"
  "deps_of (extend_proxies_dependents (index_item (u, it) ix)) k =
     deps_of (extend_proxies_dependents ix) k \<union> (if k \<in> contributors_of (it_definition it) then {u} else {})"
  "deps_of (transform_dependents (index_item (u, it) ix)) k =
     deps_of (transform_dependents ix) k \<union> (if k \<in> transforms_of (it_definition it) then {u} else {})"
  "global_transform_ids (index_item (u, it) ix) = global_transform_ids ix"
  by (auto simp: index_item_def Let_def split: ProfileDefinition.splits ConfigDefinition.splits option.splits)

lemma index_items_deps:
  "deps_of (composition_base_dependents (fold index_item m ix)) k =
     deps_of (composition_base_dependents ix) k \<union> {u. \<exists>it. (u, it) \<in> set m \<and> k \<in> base_of (it_definition it)}"
  "deps_of (extend_proxies_dependents (fold index_item m ix)) k =
     deps_of (extend_proxies_dependents ix) k \<union>
     {u. \<exists>it. (u, it) \<in> set m \<and> k \<in> contributors_of (it_definition it)}"
  "deps_of (transform_dependents (fold index_item m ix)) k =
     deps_of (transform_dependents ix) k \<union>
     {u. \<exists>it. (u, it) \<in> set m \<and> k \<in> transforms_of (it_definition it)}"
  "global_transform_ids (fold index_item m ix) = global_transform_ids ix"
proof (induction m arbitrary: ix)
  case (Cons kv m)
  obtain u it where kv: "kv = (u, it)" by (cases kv)
  {
    case 1
    show ?case unfolding kv by (auto simp: Cons.IH(1) index_item_deps)
  next
    case 2
    show ?case unfolding kv by (auto simp: Cons.IH(2) index_item_deps)
  next
    case 3
    show ?case unfolding kv by (auto simp: Cons.IH(3) index_item_deps)
  next
    case 4
    show ?case unfolding kv by (simp add: Cons.IH(4) index_item_deps)
  }
qed simp_all

text \<open>C35: The dependency index is exact. For every profile it lists precisely the compositions that use it
  as their base, precisely those that take proxies from it, and precisely the configs that run it as
  a transform, and it lists the global transforms without repetition.\<close>

theorem dependency_index_exact:
  "deps_of (composition_base_dependents (index_build p)) k =
     {u. \<exists>it. (u, it) \<in> set (pr_items p) \<and> k \<in> base_of (it_definition it)} \<and>
   deps_of (extend_proxies_dependents (index_build p)) k =
     {u. \<exists>it. (u, it) \<in> set (pr_items p) \<and> k \<in> contributors_of (it_definition it)} \<and>
   deps_of (transform_dependents (index_build p)) k =
     {u. \<exists>it. (u, it) \<in> set (pr_items p) \<and> k \<in> transforms_of (it_definition it)} \<and>
   set (global_transform_ids (index_build p)) = set (pr_global_transforms p) \<and>
   distinct (global_transform_ids (index_build p))"
  unfolding index_build_def index_items_deps by (simp add: index_default_def deps_of_def)

end
