(* ===== verification/Profiles_Ports.thy ===== *)
theory Profiles_Ports
  imports Profile_Store
begin

text \<open>
  What surrounds the profiles actor: the data of its ports (\<^verbatim>\<open>tauri/src/state/profiles/ports.rs\<close>) and the
  background services it owns (\<^verbatim>\<open>scheduler.rs\<close>): one update timer per subscription, one file watcher
  per external profile.

  \<^item> A timer is the interval it was started with, a watcher the path it watches. The tasks behind them
    only send messages to the actor. Both tables are hash maps whose order is never observed.
  \<^item> Points in time are nanoseconds since the epoch.
  \<^item> Whether a watcher can be installed and what a path canonicalizes to is the operating system's
    answer, a parameter.
\<close>

section \<open>Materialization\<close>

datatype MaterializationResource = FileResource string | SymlinkResource ExternalProfilePath

datatype PreparedMaterialization = PreparedMaterialization (materialization_id: string)

datatype PreparedCleanup = PreparedCleanup (cleanup_id: string)

datatype CleanupOutcome = Removed | AlreadyAbsent | FencedActivePath | FencedHashMismatch

datatype ProfileDegradationPhase = PhaseCleanup | PhaseReconcile

datatype ProfileDegradationCode = JournalInvalid | MaterializationDeferred | CleanupDeferred

fun retryable :: "ProfileDegradationCode \<Rightarrow> bool" where
  "retryable JournalInvalid = False"
| "retryable MaterializationDeferred = True"
| "retryable CleanupDeferred = True"

record ProfileDegradation =
  dg_phase :: ProfileDegradationPhase
  dg_code :: ProfileDegradationCode
  dg_message :: string

record MaterializationReconcileReport =
  rr_discarded :: nat
  rr_promoted :: nat
  rr_completed :: nat
  rr_compensated :: nat
  rr_cleanups_completed :: nat
  rr_cleanups_fenced :: nat
  rr_degradations :: "ProfileDegradation list"

record FetchedSubscription =
  fd_content :: string
  fd_filename :: "string option"
  fd_subscription :: SubscriptionInfo
  fd_suggested_interval :: "u64 option"

section \<open>Update timers\<close>

type_synonym Timers = "(ProfileId, u64) index_map"

text \<open>\<^verbatim>\<open>time::Duration::minutes(interval as i64)\<close>, in nanoseconds; it panics when the seconds do not fit.\<close>

definition duration_minutes :: "u64 \<Rightarrow> int option" where
  "duration_minutes interval =
     (let seconds = sint interval * 60
      in if - (2 ^ 63) \<le> seconds \<and> seconds < 2 ^ 63 then Some (seconds * 1000000000) else None)"

definition desired_timer :: "ProfileItem \<Rightarrow> (u64 \<times> int option) option" where
  "desired_timer it =
     (case definition_source (it_definition it) of
        Some (Remote m url opt sub) \<Rightarrow>
          if 0 < ro_update_interval_minutes opt then Some (ro_update_interval_minutes opt, mf_updated_at m) else None
      | _ \<Rightarrow> None)"

definition desired_timers :: "Profiles \<Rightarrow> (ProfileId, u64 \<times> int option) index_map" where
  "desired_timers p =
     List.map_filter (\<lambda>(u, it). map_option (Pair u) (desired_timer it)) (pr_items p)"

text \<open>Whether a new timer starts with an update at once; \<open>None\<close> is a panic.\<close>

definition overdue :: "bool \<Rightarrow> int \<Rightarrow> u64 \<Rightarrow> int option \<Rightarrow> bool option" where
  "overdue catch_up now interval updated_at =
     (if \<not> catch_up then Some False
      else case updated_at of
             None \<Rightarrow> Some True
           | Some at \<Rightarrow> map_option (\<lambda>d. d \<le> now - at) (duration_minutes interval))"

definition kept_timers :: "(ProfileId, u64 \<times> int option) index_map \<Rightarrow> Timers \<Rightarrow> Timers" where
  "kept_timers desired timers =
     filter (\<lambda>(u, interval). case im_get desired u of Some (i, _) \<Rightarrow> i = interval | None \<Rightarrow> False) timers"

text \<open>One new timer, with the profiles updated at once so far.\<close>

definition start_timer ::
    "bool \<Rightarrow> int \<Rightarrow> ProfileId \<times> u64 \<times> int option \<Rightarrow> Timers \<times> ProfileId list \<Rightarrow> unit + Timers \<times> ProfileId list" where
  "start_timer catch_up now = (\<lambda>(u, interval, updated_at) (timers, due).
     if im_contains_key u timers then Inr (timers, due)
     else case overdue catch_up now interval updated_at of
            None \<Rightarrow> Inl ()
          | Some b \<Rightarrow> Inr (im_insert u interval timers, if b then due @ [u] else due))"

definition timers_reconcile :: "bool \<Rightarrow> int \<Rightarrow> Profiles \<Rightarrow> Timers \<Rightarrow> unit + Timers \<times> ProfileId list" where
  "timers_reconcile catch_up now p timers =
     (let desired = desired_timers p
      in result_fold (start_timer catch_up now) desired (kept_timers desired timers, []))"

section \<open>File watchers\<close>

type_synonym Watchers = "(ProfileId, string) index_map"

record WatchPort =
  wp_canonicalize :: "string \<Rightarrow> string option"
  wp_watch :: "ProfileId \<Rightarrow> string \<Rightarrow> bool"

definition watch_path :: "WatchPort \<Rightarrow> ExternalProfilePath \<Rightarrow> ExternalMode \<Rightarrow> string" where
  "watch_path wp target mode =
     (case mode of
        Symlink \<Rightarrow> (case wp_canonicalize wp (external_str target) of Some c \<Rightarrow> c | None \<Rightarrow> external_str target)
      | Mirror \<Rightarrow> external_str target)"

definition desired_watch :: "WatchPort \<Rightarrow> ProfileItem \<Rightarrow> string option" where
  "desired_watch wp it =
     (case definition_source (it_definition it) of
        Some (Local (External m target mode)) \<Rightarrow> Some (watch_path wp target mode)
      | _ \<Rightarrow> None)"

definition desired_watches :: "WatchPort \<Rightarrow> Profiles \<Rightarrow> Watchers" where
  "desired_watches wp p = List.map_filter (\<lambda>(u, it). map_option (Pair u) (desired_watch wp it)) (pr_items p)"

definition kept_watchers :: "Watchers \<Rightarrow> Watchers \<Rightarrow> Watchers" where
  "kept_watchers desired watchers = filter (\<lambda>(u, path). im_get desired u = Some path) watchers"

definition start_watcher :: "WatchPort \<Rightarrow> ProfileId \<times> string \<Rightarrow> Watchers \<Rightarrow> Watchers" where
  "start_watcher wp = (\<lambda>(u, path) watchers.
     if im_contains_key u watchers then watchers
     else if wp_watch wp u path then im_insert u path watchers else watchers)"

definition watchers_reconcile :: "WatchPort \<Rightarrow> Profiles \<Rightarrow> Watchers \<Rightarrow> Watchers" where
  "watchers_reconcile wp p watchers =
     (let desired = desired_watches wp p
      in fold (start_watcher wp) desired (kept_watchers desired watchers))"

end
