(* ===== verification/Profiles_Actor.thy ===== *)
theory Profiles_Actor
  imports State_Managers Profiles_Ports
begin

text \<open>
  The profiles actor (\<^verbatim>\<open>tauri/src/state/profiles/actor.rs\<close>): the single owner of the profile document.
  It handles one message at a time. A message that changes the document goes through the persistent
  manager, and, when a file of the profile changes with it, through a materialization transaction.

  \<^item> \<open>Machine\<close> is the actor with the world around it and what it has sent so far: replies, rebuild
    requests and downloads it started. A download ends with a message of its own.
  \<^item> \<open>ActorPorts\<close> holds the ports of the actor over an arbitrary world: the file system of the manager,
    the materialization service, external files, the YAML library and the clock. A blocking call may also
    fail to be joined; that is the outer error of a \<open>blocking\<close> operation. \<open>ap_env\<close> is what the surroundings
    do during a state write started in a world.
  \<^item> \<^verbatim>\<open>nanoid!(11)\<close> is a stream of drawn names of which \<open>mc_draws\<close> were consumed.
  \<^item> A handler that panics or never returns gives the \<open>outcome\<close> saying so. The text of an error value
    keeps its fixed part and the strings inside it; logging is left out.
\<close>

section \<open>Errors and reports\<close>

datatype ProfilesError =
    ProfileNotFound ProfileId
  | ProfileInUse "ProfileId list" bool bool
  | ProfileHasNoFile
  | ValidationFailed "ProfileValidationError list"
  | InvalidReorderList string
  | NotARemoteProfile
  | FileNotWritable string
  | RefreshFailed string
  | ImportFailed string
  | Persist string
  | VersionConflict u64 u64
  | Revision ProfileRevisionError
  | Materialization string
  | Rpc string

fun show_profiles_error :: "ProfilesError \<Rightarrow> string" where
  "show_profiles_error (ProfileNotFound u) = ''profile not found: '' @ u"
| "show_profiles_error (ProfileInUse us c g) = ''profile is referenced and cannot be deleted''"
| "show_profiles_error ProfileHasNoFile = ''profile has no materialized file''"
| "show_profiles_error (ValidationFailed es) = ''validation failed''"
| "show_profiles_error (InvalidReorderList r) = ''invalid reorder list: '' @ r"
| "show_profiles_error NotARemoteProfile = ''profile is not a remote profile''"
| "show_profiles_error (FileNotWritable r) = ''file not writable: '' @ r"
| "show_profiles_error (RefreshFailed e) = ''refresh failed: '' @ e"
| "show_profiles_error (ImportFailed e) = ''import failed: '' @ e"
| "show_profiles_error (Persist e) = ''failed to persist profiles: '' @ e"
| "show_profiles_error (VersionConflict e a) = ''profiles state version conflict''"
| "show_profiles_error (Revision e) = ''failed to advance profile revision''"
| "show_profiles_error (Materialization e) = ''profile materialization failed: '' @ e"
| "show_profiles_error (Rpc e) = ''profiles actor rpc failed: '' @ e"

fun show_replace_error :: "ReplaceIfVersionError \<Rightarrow> string" where
  "show_replace_error (ReplaceState e) = ''state change error''"
| "show_replace_error (ReplaceWriteConfig e) = ''write config error: '' @ e"
| "show_replace_error (ReplaceRecovery e r) = ''state commit failed and restoring the committed state failed: '' @ r"

record CommitReport =
  cr_snapshot :: Profiles
  cr_affects_current :: bool
  cr_degradations :: "ProfileDegradation list"
  cr_created :: "ProfileId option"

datatype StateFirstRollbackOutcome = RolledBack "string list" | ForwardRetained ProfilesError

datatype AffectsRule = Never | CurrentChanged | GlobalChanged | Touched ProfileId | Always

section \<open>Messages\<close>

type_synonym reply = nat

datatype ReorderOp = Move ProfileId ProfileId | ByList "ProfileId list"

record NewProfileRequest =
  np_metadata :: ProfileMetadata
  np_definition :: ProfileDefinition

datatype RefreshOrigin = Manual | Scheduled

datatype RefreshOutcome =
    Succeeded SubscriptionInfo "u64 option" string "string option"
  | Failed string

type_synonym ImportOperationToken = u64

datatype ProfilesActorMessage =
    Get reply
  | SetCurrent "ProfileId option" reply
  | SetCurrentIfNone ProfileId reply
  | SetGlobalTransforms "ProfileId list" reply
  | SetValidFields "string list" reply
  | Replace Profiles reply
  | Add NewProfileRequest "string option" reply
  | Delete ProfileId reply
  | Reorder ReorderOp reply
  | PatchMetadata ProfileId ProfileMetadataPatch reply
  | PatchRemoteOptions ProfileId RemoteProfileOptionsPatch reply
  | RefreshRemote ProfileId "RemoteProfileOptionsPatch option" RefreshOrigin "reply option"
  | CommitRefreshed ProfileId Url string RefreshOutcome
  | ImportRemote Url ProfileMetadata RemoteProfileOptions bool reply
  | CommitImported ImportOperationToken RefreshOutcome
  | ExternalFileChanged ProfileId
  | ReplaceDefinition ProfileId ProfileDefinition reply
  | ReconcileMaterializations

text \<open>What a reply port carries. \<open>Activated\<close> is the reply of the conditional activation.\<close>

datatype Answer =
    Snapshot Profiles
  | Report "ProfilesError + CommitReport"
  | Activated "ProfilesError + CommitReport option"

datatype Output =
    Send reply Answer
  | RequestRebuild
  | SpawnRefresh ProfileId Url RemoteProfileOptions ProfileDefinition string
  | SpawnImport ImportOperationToken Url RemoteProfileOptions
  | CastRefresh ProfileId

section \<open>State, ports and the machine\<close>

record PendingImport =
  pi_reply :: reply
  pi_metadata :: ProfileMetadata
  pi_url :: Url
  pi_option :: RemoteProfileOptions
  pi_update_interval_explicit :: bool

record ProfilesActorState =
  as_manager :: "Profiles PersistentStateManager"
  as_index :: ProfileDependencyIndex
  as_pending_refresh :: "(ProfileId, reply option) index_map"
  as_pending_imports :: "(ImportOperationToken, PendingImport) index_map"
  as_next_import_token :: u64
  as_timers :: Timers
  as_watchers :: Watchers

type_synonym ('w, 'a) blocking = "'w \<Rightarrow> 'w \<times> (anyhow + (anyhow + 'a))"

record 'w ActorPorts =
  ap_files :: "'w Files"
  ap_env :: "'w \<Rightarrow> Profiles env"
  ap_prepare_state_first :: "ManagedProfilePath \<Rightarrow> MaterializationResource \<Rightarrow> u64 \<Rightarrow> ('w, PreparedMaterialization) blocking"
  ap_prepare_file_first :: "ManagedProfilePath \<Rightarrow> MaterializationResource \<Rightarrow> u64 \<Rightarrow> ('w, PreparedMaterialization) blocking"
  ap_promote :: "PreparedMaterialization \<Rightarrow> ('w, unit) blocking"
  ap_complete :: "PreparedMaterialization \<Rightarrow> ('w, unit) blocking"
  ap_compensate :: "PreparedMaterialization \<Rightarrow> ('w, unit) blocking"
  ap_prepare_cleanup :: "ManagedProfilePath \<Rightarrow> u64 \<Rightarrow> ('w, PreparedCleanup) blocking"
  ap_activate_cleanup :: "PreparedCleanup \<Rightarrow> ('w, unit) blocking"
  ap_cancel_cleanup :: "PreparedCleanup \<Rightarrow> ('w, unit) blocking"
  ap_retry_cleanup :: "PreparedCleanup \<Rightarrow> Profiles \<Rightarrow> ('w, CleanupOutcome) blocking"
  ap_reconcile :: "Profiles \<Rightarrow> ('w, MaterializationReconcileReport) blocking"
  ap_read_external :: "ExternalProfilePath \<Rightarrow> ('w, string) blocking"
  ap_yaml_keys :: "string \<Rightarrow> string + string list"
  ap_fingerprint :: "ProfileDefinition \<Rightarrow> string + string"
  ap_watch :: "'w \<Rightarrow> WatchPort"
  ap_now :: "'w \<Rightarrow> int"
  ap_nanoid :: "nat \<Rightarrow> string"
  ap_closed :: "'w \<Rightarrow> reply \<Rightarrow> bool"

record 'w Machine =
  mc_world :: 'w
  mc_actor :: ProfilesActorState
  mc_draws :: nat
  mc_out :: "Output list"

definition emit_output :: "Output \<Rightarrow> 'w Machine \<Rightarrow> 'w Machine" where
  "emit_output out m = m\<lparr>mc_out := mc_out m @ [out]\<rparr>"

abbreviation mc_coordinator :: "'w Machine \<Rightarrow> Profiles StateCoordinator" where
  "mc_coordinator m \<equiv> pm_coordinator (as_manager (mc_actor m))"

abbreviation mc_version :: "'w Machine \<Rightarrow> Version" where
  "mc_version m \<equiv> vs_version (arc_val (snapshot_versioned (mc_coordinator m)))"

text \<open>A blocking call, with a failed join as an error of the call.\<close>

definition materialization_call :: "('w, 'a) blocking \<Rightarrow> 'w Machine \<Rightarrow> 'w Machine \<times> (anyhow + 'a)" where
  "materialization_call operation m =
     (let (w, r) = operation (mc_world m)
      in (m\<lparr>mc_world := w\<rparr>,
          case r of Inl e \<Rightarrow> Inl (''materialization task failed: '' @ e) | Inr res \<Rightarrow> res))"

definition materialization_error :: "string \<Rightarrow> string \<Rightarrow> ProfilesError" where
  "materialization_error context_text e = Materialization (context_text @ '': '' @ e)"

section \<open>The document\<close>

definition current_state :: "'w Machine \<Rightarrow> Profiles" where
  "current_state m = snapshot (mc_coordinator m)"

definition current_closure :: "Profiles \<Rightarrow> ProfileId index_set" where
  "current_closure p =
     (let closure = is_collect (pr_global_transforms p) in
      case pr_current p of
        None \<Rightarrow> closure
      | Some u \<Rightarrow>
          let members = (case im_get (pr_items p) u of
                Some it \<Rightarrow>
                  (case it_definition it of
                     Config (Composition c) \<Rightarrow>
                       (case cc_base c of Some b \<Rightarrow> [b] | None \<Rightarrow> []) @ cc_extend_proxies_from c
                   | _ \<Rightarrow> [])
              | None \<Rightarrow> []);
              transforms = concat (map (\<lambda>v. case im_get (pr_items p) v of
                Some it \<Rightarrow> (case it_definition it of Config c \<Rightarrow> config_transforms c | Transform t \<Rightarrow> [])
              | None \<Rightarrow> []) (u # members))
          in is_extend (is_extend closure (u # members)) transforms)"

text \<open>Two \<^verbatim>\<open>IndexSet\<close>s are equal when they have the same elements.\<close>

fun evaluate_affects :: "AffectsRule \<Rightarrow> Profiles \<Rightarrow> Profiles \<Rightarrow> bool" where
  "evaluate_affects Never before after = False"
| "evaluate_affects Always before after = True"
| "evaluate_affects CurrentChanged before after = (pr_current before \<noteq> pr_current after)"
| "evaluate_affects GlobalChanged before after = (pr_global_transforms before \<noteq> pr_global_transforms after)"
| "evaluate_affects (Touched u) before after =
     (let closure_before = set (current_closure before); closure_after = set (current_closure after)
      in closure_before \<noteq> closure_after \<or> u \<in> closure_before \<or> u \<in> closure_after)"

definition prepare_candidate :: "Profiles \<Rightarrow> ProfilesError + Profiles" where
  "prepare_candidate next =
     (case validate next of
        Inl es \<Rightarrow> Inl (ValidationFailed es)
      | Inr u \<Rightarrow> (case bump_revision next of (Inl e, p) \<Rightarrow> Inl (Revision e) | (Inr r, p) \<Rightarrow> Inr p))"

definition persist_candidate ::
    "'w ActorPorts \<Rightarrow> Version \<Rightarrow> Profiles \<Rightarrow> 'w Machine \<Rightarrow> 'w Machine \<times> (ProfilesError + Profiles) outcome" where
  "persist_candidate ports expected next m =
     (case replace_if_version (ap_files ports) (ap_env ports (mc_world m)) (as_manager (mc_actor m)) (mc_world m)
             expected next of
        (mgr, w, r) \<Rightarrow>
          (m\<lparr>mc_world := w, mc_actor := (mc_actor m)\<lparr>as_manager := mgr\<rparr>\<rparr>,
           case r of
             Waiting \<Rightarrow> Waiting
           | Panicked \<Rightarrow> Panicked
           | Finished (Inl e) \<Rightarrow> Finished (Inl (Persist (show_replace_error e)))
           | Finished (Inr Replaced) \<Rightarrow> Finished (Inr next)
           | Finished (Inr (Conflict actual)) \<Rightarrow>
               Finished (Inl (VersionConflict (version_raw expected) (version_raw actual)))))"

text \<open>The overdue check of a new timer is made at start-up only, so this cannot panic.\<close>

definition reconcile_committed :: "'w ActorPorts \<Rightarrow> Profiles \<Rightarrow> 'w Machine \<Rightarrow> 'w Machine" where
  "reconcile_committed ports p m =
     (let a = mc_actor m; w = mc_world m
      in m\<lparr>mc_actor := a\<lparr>as_index := index_build p,
             as_timers := (case timers_reconcile False (ap_now ports w) p (as_timers a) of
                             Inr (timers, due) \<Rightarrow> timers | Inl u \<Rightarrow> as_timers a),
             as_watchers := watchers_reconcile (ap_watch ports w) p (as_watchers a)\<rparr>\<rparr>)"

definition rollback_candidate :: "Profiles \<Rightarrow> Profiles \<Rightarrow> ProfilesError + Profiles" where
  "rollback_candidate before committed =
     (let undone = committed\<lparr>pr_current := pr_current before, pr_global_transforms := pr_global_transforms before,
            pr_valid := pr_valid before, pr_items := pr_items before\<rparr>
      in case bump_revision undone of
           (Inl e, p) \<Rightarrow> Inl (Revision e)
         | (Inr r, p) \<Rightarrow> (case validate p of Inl es \<Rightarrow> Inl (ValidationFailed es) | Inr u \<Rightarrow> Inr p))"

text \<open>Continuing after a step that may wait, panic or fail.\<close>

definition and_then ::
    "'m \<times> ('e + 'a) outcome \<Rightarrow> ('m \<Rightarrow> 'a \<Rightarrow> 'm \<times> ('e + 'b) outcome) \<Rightarrow> 'm \<times> ('e + 'b) outcome" where
  "and_then r f =
     (case r of
        (m, Finished (Inr x)) \<Rightarrow> f m x
      | (m, Finished (Inl e)) \<Rightarrow> (m, Finished (Inl e))
      | (m, Waiting) \<Rightarrow> (m, Waiting)
      | (m, Panicked) \<Rightarrow> (m, Panicked))"

definition commit_report ::
    "AffectsRule \<Rightarrow> Profiles \<Rightarrow> Profiles \<Rightarrow> ProfileDegradation list \<Rightarrow> ProfileId option \<Rightarrow> CommitReport" where
  "commit_report affects before p degradations created =
     \<lparr>cr_snapshot = p, cr_affects_current = evaluate_affects affects before p,
      cr_degradations = degradations, cr_created = created\<rparr>"

definition run_state_write ::
    "'w ActorPorts \<Rightarrow> (Profiles \<Rightarrow> ProfilesError + AffectsRule \<times> Profiles) \<Rightarrow> 'w Machine \<Rightarrow>
     'w Machine \<times> (ProfilesError + CommitReport) outcome" where
  "run_state_write ports mutate m =
     (let expected = mc_version m; before = current_state m in
      case mutate before of
        Inl e \<Rightarrow> (m, Finished (Inl e))
      | Inr (affects, next) \<Rightarrow>
          (case prepare_candidate next of
             Inl e \<Rightarrow> (m, Finished (Inl e))
           | Inr candidate \<Rightarrow>
               and_then (persist_candidate ports expected candidate m)
                 (\<lambda>m p. (reconcile_committed ports p m,
                         Finished (Inr (commit_report affects before p [] None))))))"

section \<open>Files of a profile\<close>

definition is_whitespace :: "char \<Rightarrow> bool" where
  "is_whitespace c =
     (c \<in> set [CHR 0x09, CHR 0x0A, CHR 0x0B, CHR 0x0C, CHR 0x0D, CHR '' '', CHR 0x85, CHR 0xA0])"

definition trim :: "string \<Rightarrow> string" where
  "trim s = rev (dropWhile is_whitespace (rev (dropWhile is_whitespace s)))"

definition synced_name :: "bool \<Rightarrow> string option \<Rightarrow> string option" where
  "synced_name custom_name filename =
     (if custom_name then None
      else case filename of
             None \<Rightarrow> None
           | Some n \<Rightarrow> (let name = trim n in if name = [] then None else Some name))"

definition validate_fetched_content :: "'w ActorPorts \<Rightarrow> ProfileDefinition \<Rightarrow> string \<Rightarrow> string + unit" where
  "validate_fetched_content ports d content =
     (let needs_yaml = (case d of Config c \<Rightarrow> True | Transform (Overlay t) \<Rightarrow> True | Transform (Script t) \<Rightarrow> False)
      in if needs_yaml then
           (case ap_yaml_keys ports content of
              Inl e \<Rightarrow> Inl (''downloaded content is not a YAML mapping: '' @ e)
            | Inr keys \<Rightarrow>
                if is_config d \<and> ''proxies'' \<notin> set keys \<and> ''proxy-providers'' \<notin> set keys
                then Inl ''subscription does not contain `proxies` or `proxy-providers`''
                else Inr ())
         else if trim content = [] then Inl ''downloaded script is empty'' else Inr ())"

definition resource_for_definition ::
    "'w ActorPorts \<Rightarrow> ProfileDefinition \<Rightarrow> string option \<Rightarrow> 'w Machine \<Rightarrow>
     'w Machine \<times> (ProfilesError + MaterializationResource option)" where
  "resource_for_definition ports d initial_file m =
     (case definition_source d of
        None \<Rightarrow> (m, Inr None)
      | Some (Local (Managed f)) \<Rightarrow>
          (m, Inr (Some (FileResource (case initial_file of Some c \<Rightarrow> c | None \<Rightarrow> []))))
      | Some (Local (External f target Symlink)) \<Rightarrow> (m, Inr (Some (SymlinkResource target)))
      | Some (Local (External f target Mirror)) \<Rightarrow>
          (case ap_read_external ports target (mc_world m) of
             (w, r) \<Rightarrow>
               (m\<lparr>mc_world := w\<rparr>,
                case r of
                  Inl e \<Rightarrow> Inl (materialization_error ''mirror source read task failed'' e)
                | Inr (Inl e) \<Rightarrow> Inl (materialization_error ''failed to read mirror source'' e)
                | Inr (Inr content) \<Rightarrow>
                    (case validate_fetched_content ports d content of
                       Inl e \<Rightarrow> Inl (Materialization (''mirror source validation failed: '' @ e))
                     | Inr u \<Rightarrow> Inr (Some (FileResource content)))))
      | Some (Remote f url opt sub) \<Rightarrow> (m, Inr (Some (FileResource []))))"

definition empty_subscription :: SubscriptionInfo where
  "empty_subscription = \<lparr>si_upload = None, si_download = None, si_total = None, si_expire = None\<rparr>"

definition pending_path :: ManagedProfilePath where
  "pending_path = ManagedProfilePath ''pending.yaml''"

definition remote_import_definition ::
    "Url \<Rightarrow> RemoteProfileOptions \<Rightarrow> ManagedProfilePath \<Rightarrow> SubscriptionInfo \<Rightarrow> int option \<Rightarrow> ProfileDefinition" where
  "remote_import_definition url opt path sub updated_at =
     Config (File \<lparr>fc_source = Remote \<lparr>mf_file = path, mf_updated_at = updated_at\<rparr> url opt sub, fc_transforms = []\<rparr>)"

text \<open>\<^verbatim>\<open>generate_uid\<close>: draws names until one is free. \<open>None\<close> is a loop that never ends.\<close>

definition uid_prefix :: "ProfileDefinition \<Rightarrow> char" where
  "uid_prefix d = (if is_config d then CHR ''c'' else CHR ''t'')"

partial_function (option) draw_uid :: "(nat \<Rightarrow> string) \<Rightarrow> char \<Rightarrow> Profiles \<Rightarrow> nat \<Rightarrow> (ProfileId \<times> nat) option" where
  "draw_uid nanoid prefix p n =
     (if get_item p (prefix # nanoid n) = None then Some (prefix # nanoid n, Suc n)
      else draw_uid nanoid prefix p (Suc n))"

definition generate_uid :: "'w ActorPorts \<Rightarrow> ProfileDefinition \<Rightarrow> Profiles \<Rightarrow> 'w Machine \<Rightarrow> ('w Machine \<times> ProfileId) option" where
  "generate_uid ports d p m =
     (case draw_uid (ap_nanoid ports) (uid_prefix d) p (mc_draws m) of
        None \<Rightarrow> None
      | Some (u, n) \<Rightarrow> Some (m\<lparr>mc_draws := n\<rparr>, u))"

fun canonical_extension :: "ProfileDefinition \<Rightarrow> string" where
  "canonical_extension (Config c) = ''yaml''"
| "canonical_extension (Transform (Overlay t)) = ''yaml''"
| "canonical_extension (Transform (Script t)) = (case st_runtime t of JavaScript \<Rightarrow> ''js'' | Lua \<Rightarrow> ''lua'')"

text \<open>\<^verbatim>\<open>ManagedProfilePath::new(format!("{uid}.{ext}")).expect(..)\<close>; \<open>None\<close> is the panic.\<close>

definition canonical_path :: "ProfileId \<Rightarrow> ProfileDefinition \<Rightarrow> ManagedProfilePath option" where
  "canonical_path u d =
     (case managed_new (u @ ''.'' @ canonical_extension d) of Inl e \<Rightarrow> None | Inr path \<Rightarrow> Some path)"

fun with_materialized :: "MaterializedFile \<Rightarrow> ProfileSource \<Rightarrow> ProfileSource" where
  "with_materialized f (Local (Managed g)) = Local (Managed f)"
| "with_materialized f (Local (External g target mode)) = Local (External f target mode)"
| "with_materialized f (Remote g url opt sub) = Remote f url opt sub"

fun with_subscription :: "SubscriptionInfo \<Rightarrow> ProfileSource \<Rightarrow> ProfileSource" where
  "with_subscription s (Remote f url opt sub) = Remote f url opt s"
| "with_subscription s (Local b) = Local b"

text \<open>Writing through \<^verbatim>\<open>definition.source_mut()\<close>.\<close>

definition map_source :: "(ProfileSource \<Rightarrow> ProfileSource) \<Rightarrow> ProfileDefinition \<Rightarrow> ProfileDefinition" where
  "map_source f d =
     (case definition_source d of
        None \<Rightarrow> d
      | Some s \<Rightarrow> (case definition_with_source (f s) d of Some d' \<Rightarrow> d' | None \<Rightarrow> d))"

definition set_path :: "ManagedProfilePath \<Rightarrow> ProfileSource \<Rightarrow> ProfileSource" where
  "set_path path s = with_materialized ((materialized s)\<lparr>mf_file := path\<rparr>) s"

text \<open>Replaces the item under \<open>u\<close> in place, as writing through \<^verbatim>\<open>items.get_mut\<close>.\<close>

definition update_item :: "ProfileId \<Rightarrow> (ProfileItem \<Rightarrow> ProfileItem) \<Rightarrow> Profiles \<Rightarrow> Profiles" where
  "update_item u f p =
     (case im_get (pr_items p) u of
        None \<Rightarrow> p
      | Some it \<Rightarrow> p\<lparr>pr_items := im_insert u (f it) (pr_items p)\<rparr>)"

definition validate_import_request ::
    "'w ActorPorts \<Rightarrow> Profiles \<Rightarrow> ProfileMetadata \<Rightarrow> Url \<Rightarrow> RemoteProfileOptions \<Rightarrow> 'w Machine \<Rightarrow>
     'w Machine \<times> (ProfilesError + unit) outcome" where
  "validate_import_request ports before metadata url opt m =
     (let d = remote_import_definition url opt pending_path empty_subscription None in
      case generate_uid ports d before m of
        None \<Rightarrow> (m, Waiting)
      | Some (m, u) \<Rightarrow>
          (case canonical_path u d of
             None \<Rightarrow> (m, Panicked)
           | Some path \<Rightarrow>
               let (next, added) = append_item before
                     \<lparr>it_uid = u, it_metadata = metadata, it_definition = map_source (set_path path) d\<rparr>
               in if \<not> added then (m, Finished (Inl (Persist ''uid collision'')))
                  else (m, Finished (case validate next of Inl es \<Rightarrow> Inl (ValidationFailed es) | Inr u \<Rightarrow> Inr ()))))"

definition referrers_of :: "ProfileDependencyIndex \<Rightarrow> Profiles \<Rightarrow> ProfileId \<Rightarrow> (ProfileId list \<times> bool \<times> bool) option" where
  "referrers_of ix p u =
     (let dependents = (\<lambda>table. case im_get table u of Some s \<Rightarrow> s | None \<Rightarrow> []);
          referrers = is_extend (is_extend (is_extend [] (dependents (composition_base_dependents ix)))
             (dependents (extend_proxies_dependents ix))) (dependents (transform_dependents ix));
          current = (pr_current p = Some u);
          global_transforms = (u \<in> set (global_transform_ids ix))
      in if referrers = [] \<and> \<not> current \<and> \<not> global_transforms then None
         else Some (referrers, current, global_transforms))"

definition retains_materialization :: "ProfileSource \<Rightarrow> ProfileSource \<Rightarrow> ManagedProfilePath \<Rightarrow> bool" where
  "retains_materialization previous next canonical =
     (mf_file (materialized previous) = canonical \<and>
      (case (previous, next) of
         (Local (Managed f), Local (Managed g)) \<Rightarrow> True
       | (Local (External f t mode), Local (External g t' mode')) \<Rightarrow> t = t' \<and> mode = mode'
       | (Remote f url opt sub, Remote g url' opt' sub') \<Rightarrow> url = url'
       | _ \<Rightarrow> False))"

section \<open>Transactions\<close>

definition optional_call ::
    "('a \<Rightarrow> ('w, 'b) blocking) \<Rightarrow> 'a option \<Rightarrow> 'w Machine \<Rightarrow> 'w Machine \<times> (anyhow + 'b) option" where
  "optional_call operation x m =
     (case x of
        None \<Rightarrow> (m, None)
      | Some y \<Rightarrow> (case materialization_call (operation y) m of (m', r) \<Rightarrow> (m', Some r)))"

text \<open>The error of an optional call, with its context, as it is pushed onto a list of failures.\<close>

definition failure :: "string \<Rightarrow> (anyhow + 'b) option \<Rightarrow> string list" where
  "failure context_text r = (case r of Some (Inl e) \<Rightarrow> [context_text @ '': '' @ e] | _ \<Rightarrow> [])"

definition rollback_state_first ::
    "'w ActorPorts \<Rightarrow> Profiles \<Rightarrow> PreparedMaterialization option \<Rightarrow> PreparedCleanup option \<Rightarrow> 'w Machine \<Rightarrow>
     'w Machine \<times> StateFirstRollbackOutcome outcome" where
  "rollback_state_first ports before prepared cleanup m =
     (let expected = mc_version m; committed = current_state m;
          retained = (\<lambda>m e. (reconcile_committed ports committed m, Finished (ForwardRetained (Materialization
            (''compensating state commit failed; materialization journal remains recoverable: '' @
             show_profiles_error e)))))
      in case rollback_candidate before committed of
           Inl e \<Rightarrow> retained m e
         | Inr candidate \<Rightarrow>
             (case persist_candidate ports expected candidate m of
                (m, Waiting) \<Rightarrow> (m, Waiting)
              | (m, Panicked) \<Rightarrow> (m, Panicked)
              | (m, Finished (Inl e)) \<Rightarrow> retained m e
              | (m, Finished (Inr p)) \<Rightarrow>
                  (case optional_call (ap_cancel_cleanup ports) cleanup m of
                     (m1, cancelled) \<Rightarrow>
                       (case optional_call (ap_compensate ports) prepared m1 of
                          (m2, compensated) \<Rightarrow>
                            (reconcile_committed ports p m2,
                             Finished (RolledBack (failure ''failed to cancel cleanup'' cancelled @
                               failure ''failed to compensate materialization'' compensated)))))))"

definition cleanup_deferred :: "string \<Rightarrow> anyhow \<Rightarrow> ProfileDegradation" where
  "cleanup_deferred context_text e =
     \<lparr>dg_phase = PhaseCleanup, dg_code = CleanupDeferred, dg_message = context_text @ '': '' @ e\<rparr>"

definition materialization_deferred :: "string \<Rightarrow> ProfileDegradation" where
  "materialization_deferred message =
     \<lparr>dg_phase = PhaseReconcile, dg_code = MaterializationDeferred, dg_message = message\<rparr>"

definition finish_cleanup ::
    "'w ActorPorts \<Rightarrow> PreparedCleanup \<Rightarrow> Profiles \<Rightarrow> 'w Machine \<Rightarrow> 'w Machine \<times> ProfileDegradation list" where
  "finish_cleanup ports cleanup p m =
     (case materialization_call (ap_activate_cleanup ports cleanup) m of
        (m, Inl e) \<Rightarrow> (m, [cleanup_deferred ''profile cleanup activation deferred'' e])
      | (m, Inr u) \<Rightarrow>
          (case materialization_call (ap_retry_cleanup ports cleanup p) m of
             (m, Inl e) \<Rightarrow> (m, [cleanup_deferred ''profile cleanup retry deferred'' e])
           | (m, Inr outcome) \<Rightarrow> (m, [])))"

text \<open>Undoing the preparations after the state commit failed.\<close>

definition abandon ::
    "'w ActorPorts \<Rightarrow> PreparedMaterialization option \<Rightarrow> PreparedCleanup option \<Rightarrow> ProfilesError \<Rightarrow> 'w Machine \<Rightarrow>
     'w Machine \<times> ProfilesError" where
  "abandon ports prepared cleanup error m =
     (case optional_call (ap_cancel_cleanup ports) cleanup m of
        (m1, cancelled) \<Rightarrow>
          (case optional_call (ap_compensate ports) prepared m1 of
             (m2, compensated) \<Rightarrow>
               let failures = failure ''failed to cancel cleanup'' cancelled @
                     failure ''failed to compensate materialization'' compensated
               in (m2, if failures = [] then error
                       else Materialization (''state commit failed: '' @ show_profiles_error error @ ''; '' @
                              join ''; '' failures))))"

text \<open>Promotion failed after the state commit: roll back, or keep the new head and say so.\<close>

definition promotion_failed ::
    "'w ActorPorts \<Rightarrow> Profiles \<Rightarrow> AffectsRule \<Rightarrow> PreparedMaterialization \<Rightarrow> PreparedCleanup option \<Rightarrow> ProfileId option \<Rightarrow>
     Profiles \<Rightarrow> anyhow \<Rightarrow> 'w Machine \<Rightarrow> 'w Machine \<times> (ProfilesError + CommitReport) outcome" where
  "promotion_failed ports before affects prepared cleanup created p error m =
     (case rollback_state_first ports before (Some prepared) cleanup m of
        (m, Waiting) \<Rightarrow> (m, Waiting)
      | (m, Panicked) \<Rightarrow> (m, Panicked)
      | (m, Finished (RolledBack failures)) \<Rightarrow>
          (m, Finished (Inl (if failures = [] then materialization_error ''materialization promotion failed'' error
             else Materialization (''materialization promotion failed: '' @ error @ ''; '' @
                    show_profiles_error (Materialization (join ''; '' failures))))))
      | (m, Finished (ForwardRetained e)) \<Rightarrow>
          (m, Finished (Inr (commit_report affects before p
             [materialization_deferred (''materialization promotion failed: '' @ error @ ''; '' @ show_profiles_error e)]
             created))))"

definition completion :: "anyhow + unit \<Rightarrow> ProfileDegradation list" where
  "completion r =
     (case r of
        Inl e \<Rightarrow> [materialization_deferred (''materialization completion deferred: '' @ e)]
      | Inr u \<Rightarrow> [])"

text \<open>The end of a state-first commit whose files are in place.\<close>

definition finish_state_first ::
    "'w ActorPorts \<Rightarrow> Profiles \<Rightarrow> AffectsRule \<Rightarrow> PreparedCleanup option \<Rightarrow> ProfileId option \<Rightarrow> Profiles \<Rightarrow>
     ProfileDegradation list \<Rightarrow> 'w Machine \<Rightarrow> 'w Machine \<times> (ProfilesError + CommitReport) outcome" where
  "finish_state_first ports before affects cleanup created p degradations m =
     (let m = reconcile_committed ports p m in
      case (case cleanup of None \<Rightarrow> (m, []) | Some c \<Rightarrow> finish_cleanup ports c p m) of
        (m, late) \<Rightarrow> (m, Finished (Inr (commit_report affects before p (degradations @ late) created))))"

definition after_state_commit ::
    "'w ActorPorts \<Rightarrow> Profiles \<Rightarrow> AffectsRule \<Rightarrow> PreparedMaterialization option \<Rightarrow> PreparedCleanup option \<Rightarrow>
     ProfileId option \<Rightarrow> Profiles \<Rightarrow> 'w Machine \<Rightarrow> 'w Machine \<times> (ProfilesError + CommitReport) outcome" where
  "after_state_commit ports before affects prepared cleanup created p m =
     (case prepared of
        None \<Rightarrow> finish_state_first ports before affects cleanup created p [] m
      | Some op \<Rightarrow>
          (case materialization_call (ap_promote ports op) m of
             (m, Inl error) \<Rightarrow> promotion_failed ports before affects op cleanup created p error m
           | (m, Inr u) \<Rightarrow>
               (case materialization_call (ap_complete ports op) m of
                  (m, r) \<Rightarrow> finish_state_first ports before affects cleanup created p (completion r) m)))"

text \<open>The optional preparations, each with the revision of the candidate.\<close>

definition prepare_resource ::
    "'w ActorPorts \<Rightarrow> (ManagedProfilePath \<times> MaterializationResource) option \<Rightarrow> u64 \<Rightarrow> 'w Machine \<Rightarrow>
     'w Machine \<times> (anyhow + PreparedMaterialization) option" where
  "prepare_resource ports resource revision m =
     optional_call (\<lambda>(path, r). ap_prepare_state_first ports path r revision) resource m"

fun transposed :: "('e + 'a) option \<Rightarrow> 'e + 'a option" where
  "transposed None = Inr None"
| "transposed (Some (Inl e)) = Inl e"
| "transposed (Some (Inr x)) = Inr (Some x)"

definition commit_state_first ::
    "'w ActorPorts \<Rightarrow> Version \<Rightarrow> Profiles \<Rightarrow> Profiles \<Rightarrow> AffectsRule \<Rightarrow>
     (ManagedProfilePath \<times> MaterializationResource) option \<Rightarrow> ManagedProfilePath option \<Rightarrow> ProfileId option \<Rightarrow> 'w Machine \<Rightarrow>
     'w Machine \<times> (ProfilesError + CommitReport) outcome" where
  "commit_state_first ports expected before next affects resource cleanup_path created m =
     (case prepare_candidate next of
        Inl e \<Rightarrow> (m, Finished (Inl e))
      | Inr candidate \<Rightarrow>
          let revision = pr_revision candidate in
          (case prepare_resource ports resource revision m of
             (m, res) \<Rightarrow>
               (case transposed res of
                  Inl e \<Rightarrow> (m, Finished (Inl (materialization_error ''failed to prepare materialization'' e)))
                | Inr prepared \<Rightarrow>
                    (case optional_call (\<lambda>path. ap_prepare_cleanup ports path revision) cleanup_path m of
                       (m, res) \<Rightarrow>
                         (case transposed res of
                            Inl e \<Rightarrow>
                              (fst (optional_call (ap_compensate ports) prepared m),
                               Finished (Inl (materialization_error ''failed to prepare cleanup'' e)))
                          | Inr cleanup \<Rightarrow>
                              (case persist_candidate ports expected candidate m of
                                 (m, Waiting) \<Rightarrow> (m, Waiting)
                               | (m, Panicked) \<Rightarrow> (m, Panicked)
                               | (m, Finished (Inl error)) \<Rightarrow>
                                   (case abandon ports prepared cleanup error m of (m, e) \<Rightarrow> (m, Finished (Inl e)))
                               | (m, Finished (Inr p)) \<Rightarrow>
                                   after_state_commit ports before affects prepared cleanup created p m))))))"

text \<open>The error of a compensation that should have restored the file, if it failed too.\<close>

definition restore_error :: "ProfilesError \<Rightarrow> string \<Rightarrow> anyhow + unit \<Rightarrow> ProfilesError" where
  "restore_error error described r =
     (case r of
        Inr u \<Rightarrow> error
      | Inl e \<Rightarrow> Materialization (described @ ''; failed to restore previous bytes: '' @ e))"

definition commit_file_first ::
    "'w ActorPorts \<Rightarrow> Version \<Rightarrow> Profiles \<Rightarrow> Profiles \<Rightarrow> AffectsRule \<Rightarrow> ManagedProfilePath \<Rightarrow> string \<Rightarrow> 'w Machine \<Rightarrow>
     'w Machine \<times> (ProfilesError + CommitReport) outcome" where
  "commit_file_first ports expected before next affects path content m =
     (case prepare_candidate next of
        Inl e \<Rightarrow> (m, Finished (Inl e))
      | Inr candidate \<Rightarrow>
          (case materialization_call (ap_prepare_file_first ports path (FileResource content) (pr_revision candidate)) m of
             (m, Inl e) \<Rightarrow>
               (m, Finished (Inl (materialization_error ''failed to prepare file materialization'' e)))
           | (m, Inr op) \<Rightarrow>
               (case materialization_call (ap_promote ports op) m of
                  (m, Inl error) \<Rightarrow>
                    (case materialization_call (ap_compensate ports op) m of
                       (m, r) \<Rightarrow>
                         (m, Finished (Inl (restore_error
                            (materialization_error ''file materialization promotion failed'' error)
                            (''file materialization promotion failed: '' @ error) r))))
                | (m, Inr u) \<Rightarrow>
                    (case persist_candidate ports expected candidate m of
                       (m, Waiting) \<Rightarrow> (m, Waiting)
                     | (m, Panicked) \<Rightarrow> (m, Panicked)
                     | (m, Finished (Inl error)) \<Rightarrow>
                         (case materialization_call (ap_compensate ports op) m of
                            (m, r) \<Rightarrow>
                              (m, Finished (Inl (restore_error error
                                 (''state commit failed: '' @ show_profiles_error error) r))))
                     | (m, Finished (Inr p)) \<Rightarrow>
                         (case materialization_call (ap_complete ports op) (reconcile_committed ports p m) of
                            (m, r) \<Rightarrow>
                              (m, Finished (Inr (commit_report affects before p (completion r) None))))))))"

definition reconcile_materializations ::
    "'w ActorPorts \<Rightarrow> 'w Machine \<Rightarrow> 'w Machine \<times> (anyhow + MaterializationReconcileReport)" where
  "reconcile_materializations ports m =
     (case ap_reconcile ports (current_state m) (mc_world m) of
        (w, r) \<Rightarrow>
          (m\<lparr>mc_world := w\<rparr>,
           case r of Inl e \<Rightarrow> Inl (''materialization reconcile join failed: '' @ e) | Inr res \<Rightarrow> res))"

section \<open>Handlers\<close>

text \<open>The reply a finished handler sends.\<close>

definition reply_with ::
    "reply \<Rightarrow> ('r \<Rightarrow> Answer) \<Rightarrow> 'w Machine \<times> 'r outcome \<Rightarrow> 'w Machine \<times> unit outcome" where
  "reply_with r wrap res =
     (case res of
        (m, Waiting) \<Rightarrow> (m, Waiting)
      | (m, Panicked) \<Rightarrow> (m, Panicked)
      | (m, Finished x) \<Rightarrow> (emit_output (Send r (wrap x)) m, Finished ()))"

definition send_error :: "reply option \<Rightarrow> ProfilesError \<Rightarrow> 'w Machine \<Rightarrow> 'w Machine" where
  "send_error r e m = (case r of None \<Rightarrow> m | Some q \<Rightarrow> emit_output (Send q (Report (Inl e))) m)"

definition set_current_if_none :: "'w ActorPorts \<Rightarrow> ProfileId \<Rightarrow> reply \<Rightarrow> 'w Machine \<Rightarrow> 'w Machine \<times> unit outcome" where
  "set_current_if_none ports u r m =
     (if pr_current (current_state m) \<noteq> None then reply_with r Activated (m, Finished (Inr None))
      else reply_with r (Activated \<circ> map_sum (\<lambda>e. e) Some)
             (run_state_write ports (\<lambda>p. Inr (CurrentChanged, set_current p (Some u))) m))"

definition replace_document :: "Profiles \<Rightarrow> Profiles \<Rightarrow> Profiles" where
  "replace_document next p =
     p\<lparr>pr_current := pr_current next, pr_global_transforms := pr_global_transforms next,
       pr_valid := pr_valid next, pr_items := pr_items next\<rparr>"

text \<open>The definition \<^verbatim>\<open>Add\<close> stores: at its canonical path, never updated, without traffic figures.\<close>

definition added_definition :: "ManagedProfilePath \<Rightarrow> ProfileDefinition \<Rightarrow> ProfileDefinition" where
  "added_definition path =
     map_source (\<lambda>s. with_subscription empty_subscription (with_materialized \<lparr>mf_file = path, mf_updated_at = None\<rparr> s))"

definition handle_add ::
    "'w ActorPorts \<Rightarrow> NewProfileRequest \<Rightarrow> string option \<Rightarrow> 'w Machine \<Rightarrow>
     'w Machine \<times> (ProfilesError + CommitReport) outcome" where
  "handle_add ports request initial_file m =
     (let expected = mc_version m; before = current_state m in
      case generate_uid ports (np_definition request) before m of
        None \<Rightarrow> (m, Waiting)
      | Some (m, u) \<Rightarrow>
          (case canonical_path u (np_definition request) of
             None \<Rightarrow> (m, Panicked)
           | Some path \<Rightarrow>
               let d = added_definition path (np_definition request) in
               (case resource_for_definition ports d initial_file m of
                  (m, Inl e) \<Rightarrow> (m, Finished (Inl e))
                | (m, Inr resource) \<Rightarrow>
                    let (next, added) = append_item before
                          \<lparr>it_uid = u, it_metadata = np_metadata request, it_definition = d\<rparr>
                    in if \<not> added then (m, Finished (Inl (Persist ''uid collision'')))
                       else commit_state_first ports expected before next Never (map_option (Pair path) resource)
                              None (Some u) m)))"

definition handle_delete ::
    "'w ActorPorts \<Rightarrow> ProfileId \<Rightarrow> 'w Machine \<Rightarrow> 'w Machine \<times> (ProfilesError + CommitReport) outcome" where
  "handle_delete ports u m =
     (let expected = mc_version m; before = current_state m in
      case get_item before u of
        None \<Rightarrow> (m, Finished (Inl (ProfileNotFound u)))
      | Some it \<Rightarrow>
          (case referrers_of (as_index (mc_actor m)) before u of
             Some (referrers, current, global_transforms) \<Rightarrow>
               (m, Finished (Inl (ProfileInUse referrers current global_transforms)))
           | None \<Rightarrow>
               commit_state_first ports expected before (fst (remove_item_unchecked before u)) Never None
                 (item_file it) None m))"

text \<open>\<^verbatim>\<open>Reorder\<close>: one move, or a complete new order.\<close>

fun check_order :: "Profiles \<Rightarrow> ProfileId index_set \<Rightarrow> ProfileId list \<Rightarrow> ProfilesError + unit" where
  "check_order p seen [] = Inr ()"
| "check_order p seen (u # us) =
     (if u \<in> set seen then Inl (InvalidReorderList (''duplicate uid '' @ u))
      else if get_item p u = None then Inl (ProfileNotFound u)
      else check_order p (is_insert u seen) us)"

fun take_in_order ::
    "ProfileId list \<Rightarrow> (ProfileId, ProfileItem) index_map \<Rightarrow> (ProfileId, ProfileItem) index_map \<Rightarrow>
     ProfilesError + (ProfileId, ProfileItem) index_map" where
  "take_in_order [] items reordered = Inr reordered"
| "take_in_order (u # us) items reordered =
     (case im_get items u of
        None \<Rightarrow> Inl (ProfileNotFound u)
      | Some it \<Rightarrow> take_in_order us (im_shift_remove u items) (im_insert u it reordered))"

fun reorder_items :: "ReorderOp \<Rightarrow> Profiles \<Rightarrow> ProfilesError + Profiles" where
  "reorder_items (Move active over) p =
     (if get_item p active = None then Inl (ProfileNotFound active)
      else if get_item p over = None then Inl (ProfileNotFound over)
      else Inr (fst (reorder p active over)))"
| "reorder_items (ByList us) p =
     (if length us \<noteq> length (pr_items p)
      then Inl (InvalidReorderList (''wrong number of uids''))
      else case check_order p [] us of
             Inl e \<Rightarrow> Inl e
           | Inr u \<Rightarrow>
               (case take_in_order us (pr_items p) [] of
                  Inl e \<Rightarrow> Inl e | Inr items \<Rightarrow> Inr (p\<lparr>pr_items := items\<rparr>)))"

definition patch_metadata :: "ProfileId \<Rightarrow> ProfileMetadataPatch \<Rightarrow> Profiles \<Rightarrow> ProfilesError + AffectsRule \<times> Profiles" where
  "patch_metadata u patch p =
     (if get_item p u = None then Inl (ProfileNotFound u)
      else Inr (Never, update_item u (\<lambda>it. apply_metadata_patch it patch) p))"

fun patch_options :: "RemoteProfileOptionsPatch \<Rightarrow> ProfileSource \<Rightarrow> ProfileSource" where
  "patch_options patch (Remote f url opt sub) = Remote f url (remote_options_apply opt patch) sub"
| "patch_options patch (Local b) = Local b"

definition on_definition :: "(ProfileDefinition \<Rightarrow> ProfileDefinition) \<Rightarrow> ProfileItem \<Rightarrow> ProfileItem" where
  "on_definition f it = it\<lparr>it_definition := f (it_definition it)\<rparr>"

definition patch_remote_options ::
    "ProfileId \<Rightarrow> RemoteProfileOptionsPatch \<Rightarrow> Profiles \<Rightarrow> ProfilesError + AffectsRule \<times> Profiles" where
  "patch_remote_options u patch p =
     (case get_item p u of
        None \<Rightarrow> Inl (ProfileNotFound u)
      | Some it \<Rightarrow>
          (case definition_source (it_definition it) of
             Some (Remote f url opt sub) \<Rightarrow>
               Inr (Never, update_item u (on_definition (map_source (patch_options patch))) p)
           | _ \<Rightarrow> Inl NotARemoteProfile))"

section \<open>Refreshing a subscription\<close>

definition start_refresh :: "'w ActorPorts \<Rightarrow> ProfileId \<Rightarrow> reply option \<Rightarrow> 'w Machine \<Rightarrow> 'w Machine" where
  "start_refresh ports u r m =
     (case get_item (current_state m) u of
        None \<Rightarrow> send_error r (ProfileNotFound u) m
      | Some it \<Rightarrow>
          (case definition_source (it_definition it) of
             Some (Remote f url opt sub) \<Rightarrow>
               (case ap_fingerprint ports (it_definition it) of
                  Inl e \<Rightarrow> send_error r (RefreshFailed (''failed to fingerprint subscription definition: '' @ e)) m
                | Inr fingerprint \<Rightarrow>
                    emit_output (SpawnRefresh u url opt (it_definition it) fingerprint)
                      (m\<lparr>mc_actor := (mc_actor m)\<lparr>as_pending_refresh :=
                          im_insert u r (as_pending_refresh (mc_actor m))\<rparr>\<rparr>))
           | _ \<Rightarrow> send_error r NotARemoteProfile m))"

definition handle_refresh ::
    "'w ActorPorts \<Rightarrow> ProfileId \<Rightarrow> RemoteProfileOptionsPatch option \<Rightarrow> reply option \<Rightarrow> 'w Machine \<Rightarrow> 'w Machine \<times> unit outcome" where
  "handle_refresh ports u patch r m =
     (if im_contains_key u (as_pending_refresh (mc_actor m))
      then (send_error r (RefreshFailed ''refresh already in progress'') m, Finished ())
      else case patch of
             None \<Rightarrow> (start_refresh ports u r m, Finished ())
           | Some pt \<Rightarrow>
               (case run_state_write ports (patch_remote_options u pt) m of
                  (m, Waiting) \<Rightarrow> (m, Waiting)
                | (m, Panicked) \<Rightarrow> (m, Panicked)
                | (m, Finished (Inl e)) \<Rightarrow> (send_error r e m, Finished ())
                | (m, Finished (Inr report)) \<Rightarrow> (start_refresh ports u r m, Finished ())))"

text \<open>The task a download runs in: what it casts once the fetcher has answered. The task of an import is
  supervised, so a panic or a cancellation of the fetch is an answer as well.\<close>

definition download_outcome ::
    "'w ActorPorts \<Rightarrow> ProfileDefinition \<Rightarrow> anyhow + FetchedSubscription \<Rightarrow> RefreshOutcome" where
  "download_outcome ports d fetched =
     (case fetched of
        Inl e \<Rightarrow> Failed (''download failed: '' @ e)
      | Inr fd \<Rightarrow>
          (case validate_fetched_content ports d (fd_content fd) of
             Inl e \<Rightarrow> Failed e
           | Inr u \<Rightarrow> Succeeded (fd_subscription fd) (fd_suggested_interval fd) (fd_content fd) (fd_filename fd)))"

datatype 'a joined = Joined 'a | TaskPanicked | TaskCancelled

definition import_outcome ::
    "'w ActorPorts \<Rightarrow> Url \<Rightarrow> RemoteProfileOptions \<Rightarrow> (anyhow + FetchedSubscription) joined \<Rightarrow> RefreshOutcome" where
  "import_outcome ports url opt fetched =
     (case fetched of
        Joined res \<Rightarrow> download_outcome ports (remote_import_definition url opt pending_path empty_subscription None) res
      | TaskPanicked \<Rightarrow> Failed ''subscription fetch task panicked''
      | TaskCancelled \<Rightarrow> Failed ''subscription fetch task cancelled'')"

definition refreshed_item :: "int \<Rightarrow> SubscriptionInfo \<Rightarrow> string option \<Rightarrow> ProfileItem \<Rightarrow> ProfileItem" where
  "refreshed_item now sub filename it =
     on_definition (map_source (\<lambda>s. with_subscription sub
         (with_materialized ((materialized s)\<lparr>mf_updated_at := Some now\<rparr>) s)))
       (case synced_name (pmd_custom_name (it_metadata it)) filename of
          Some name \<Rightarrow> it\<lparr>it_metadata := (it_metadata it)\<lparr>pmd_name := name\<rparr>\<rparr>
        | None \<Rightarrow> it)"

definition commit_refreshed ::
    "'w ActorPorts \<Rightarrow> ProfileId \<Rightarrow> Url \<Rightarrow> string \<Rightarrow> RefreshOutcome \<Rightarrow> 'w Machine \<Rightarrow>
     'w Machine \<times> (ProfilesError + CommitReport) outcome" where
  "commit_refreshed ports u url fingerprint outcome m =
     (case outcome of
        Failed message \<Rightarrow> (m, Finished (Inl (RefreshFailed message)))
      | Succeeded sub suggested content filename \<Rightarrow>
          let expected = mc_version m; before = current_state m in
          (case get_item before u of
             None \<Rightarrow> (m, Finished (Inl (RefreshFailed ''profile deleted during refresh'')))
           | Some it \<Rightarrow>
               (case ap_fingerprint ports (it_definition it) of
                  Inl e \<Rightarrow> (m, Finished (Inl (RefreshFailed (''failed to fingerprint current definition: '' @ e))))
                | Inr current \<Rightarrow>
                    if current \<noteq> fingerprint
                    then (m, Finished (Inl (RefreshFailed ''subscription definition changed during refresh'')))
                    else (case definition_source (it_definition it) of
                       Some (Remote f current_url opt old) \<Rightarrow>
                         if current_url \<noteq> url
                         then (m, Finished (Inl (RefreshFailed ''subscription definition changed during refresh'')))
                         else (case validate_fetched_content ports (it_definition it) content of
                            Inl e \<Rightarrow> (m, Finished (Inl (RefreshFailed
                               (''stale download no longer valid for the current definition: '' @ e))))
                          | Inr v \<Rightarrow>
                              commit_file_first ports expected before
                                (update_item u (refreshed_item (ap_now ports (mc_world m)) sub filename) before)
                                (Touched u) (mf_file f) content m)
                     | _ \<Rightarrow> (m, Finished (Inl (RefreshFailed ''subscription definition changed during refresh'')))))))"

text \<open>Background commits ask for a rebuild themselves.\<close>

definition request_rebuild_if :: "ProfilesError + CommitReport \<Rightarrow> 'w Machine \<Rightarrow> 'w Machine" where
  "request_rebuild_if r m =
     (case r of Inl e \<Rightarrow> m | Inr report \<Rightarrow> if cr_affects_current report then emit_output RequestRebuild m else m)"

definition handle_commit_refreshed ::
    "'w ActorPorts \<Rightarrow> ProfileId \<Rightarrow> Url \<Rightarrow> string \<Rightarrow> RefreshOutcome \<Rightarrow> 'w Machine \<Rightarrow> 'w Machine \<times> unit outcome" where
  "handle_commit_refreshed ports u url fingerprint outcome m =
     (let r = (case im_get (as_pending_refresh (mc_actor m)) u of Some q \<Rightarrow> q | None \<Rightarrow> None);
          m = m\<lparr>mc_actor := (mc_actor m)\<lparr>as_pending_refresh := im_shift_remove u (as_pending_refresh (mc_actor m))\<rparr>\<rparr>
      in case commit_refreshed ports u url fingerprint outcome m of
           (m, Waiting) \<Rightarrow> (m, Waiting)
         | (m, Panicked) \<Rightarrow> (m, Panicked)
         | (m, Finished res) \<Rightarrow>
             (case r of
                None \<Rightarrow> (request_rebuild_if res m, Finished ())
              | Some q \<Rightarrow> (emit_output (Send q (Report res)) m, Finished ())))"

section \<open>Importing a subscription\<close>

definition handle_import ::
    "'w ActorPorts \<Rightarrow> Url \<Rightarrow> ProfileMetadata \<Rightarrow> RemoteProfileOptions \<Rightarrow> bool \<Rightarrow> reply \<Rightarrow> 'w Machine \<Rightarrow>
     'w Machine \<times> unit outcome" where
  "handle_import ports url metadata opt explicit r m =
     (case validate_import_request ports (current_state m) metadata url opt m of
        (m, Waiting) \<Rightarrow> (m, Waiting)
      | (m, Panicked) \<Rightarrow> (m, Panicked)
      | (m, Finished (Inl e)) \<Rightarrow> (emit_output (Send r (Report (Inl e))) m, Finished ())
      | (m, Finished (Inr u)) \<Rightarrow>
          let a = mc_actor m; token = as_next_import_token a;
              p = \<lparr>pi_reply = r, pi_metadata = metadata, pi_url = url, pi_option = opt,
                   pi_update_interval_explicit = explicit\<rparr>
          in (emit_output (SpawnImport token url opt)
                (m\<lparr>mc_actor := a\<lparr>as_next_import_token := max (token + 1) 1,
                                  as_pending_imports := im_insert token p (as_pending_imports a)\<rparr>\<rparr>),
              Finished ()))"

definition commit_imported ::
    "'w ActorPorts \<Rightarrow> PendingImport \<Rightarrow> RefreshOutcome \<Rightarrow> 'w Machine \<Rightarrow>
     'w Machine \<times> (ProfilesError + CommitReport) outcome" where
  "commit_imported ports p outcome m =
     (case outcome of
        Failed message \<Rightarrow> (m, Finished (Inl (ImportFailed message)))
      | Succeeded sub suggested content filename \<Rightarrow>
          let expected = mc_version m; before = current_state m;
              opt = (case suggested of
                       Some minutes \<Rightarrow>
                         if pi_update_interval_explicit p then pi_option p
                         else (pi_option p)\<lparr>ro_update_interval_minutes := minutes\<rparr>
                     | None \<Rightarrow> pi_option p);
              metadata = (case synced_name (pmd_custom_name (pi_metadata p)) filename of
                            Some name \<Rightarrow> (pi_metadata p)\<lparr>pmd_name := name\<rparr> | None \<Rightarrow> pi_metadata p);
              d = remote_import_definition (pi_url p) opt pending_path sub (Some (ap_now ports (mc_world m)))
          in (case validate_fetched_content ports d content of
                Inl e \<Rightarrow> (m, Finished (Inl (ImportFailed (''downloaded content is not valid for import: '' @ e))))
              | Inr v \<Rightarrow>
                  (case generate_uid ports d before m of
                     None \<Rightarrow> (m, Waiting)
                   | Some (m, u) \<Rightarrow>
                       (case canonical_path u d of
                          None \<Rightarrow> (m, Panicked)
                        | Some path \<Rightarrow>
                            let (next, added) = append_item before
                                  \<lparr>it_uid = u, it_metadata = metadata, it_definition = map_source (set_path path) d\<rparr>
                            in if \<not> added then (m, Finished (Inl (Persist ''uid collision'')))
                               else commit_state_first ports expected before next Never
                                      (Some (path, FileResource content)) None (Some u) m))))"

definition handle_commit_imported ::
    "'w ActorPorts \<Rightarrow> ImportOperationToken \<Rightarrow> RefreshOutcome \<Rightarrow> 'w Machine \<Rightarrow> 'w Machine \<times> unit outcome" where
  "handle_commit_imported ports token outcome m =
     (case im_get (as_pending_imports (mc_actor m)) token of
        None \<Rightarrow> (m, Finished ())
      | Some p \<Rightarrow>
          let m = m\<lparr>mc_actor := (mc_actor m)\<lparr>as_pending_imports :=
                im_shift_remove token (as_pending_imports (mc_actor m))\<rparr>\<rparr>
          in if ap_closed ports (mc_world m) (pi_reply p) then (m, Finished ())
             else reply_with (pi_reply p) Report (commit_imported ports p outcome m))"

section \<open>Changes of external files and of definitions\<close>

definition touched_at :: "int \<Rightarrow> ProfileSource \<Rightarrow> ProfileSource" where
  "touched_at now s = with_materialized ((materialized s)\<lparr>mf_updated_at := Some now\<rparr>) s"

definition external_binding :: "ProfileDefinition \<Rightarrow> (MaterializedFile \<times> ExternalProfilePath \<times> ExternalMode) option" where
  "external_binding d =
     (case definition_source d of Some (Local (External f target mode)) \<Rightarrow> Some (f, target, mode) | _ \<Rightarrow> None)"

text \<open>A background result: a failed commit is only logged.\<close>

definition background ::
    "'w Machine \<times> (ProfilesError + CommitReport) outcome \<Rightarrow> 'w Machine \<times> unit outcome" where
  "background res =
     (case res of
        (m, Waiting) \<Rightarrow> (m, Waiting)
      | (m, Panicked) \<Rightarrow> (m, Panicked)
      | (m, Finished r) \<Rightarrow> (request_rebuild_if r m, Finished ()))"

definition mirror_changed ::
    "'w ActorPorts \<Rightarrow> ProfileId \<Rightarrow> ProfileItem \<Rightarrow> ExternalProfilePath \<Rightarrow> ManagedProfilePath \<Rightarrow> 'w Machine \<Rightarrow>
     'w Machine \<times> unit outcome" where
  "mirror_changed ports u it target path m =
     (case ap_fingerprint ports (it_definition it) of
        Inl e \<Rightarrow> (m, Finished ())
      | Inr fingerprint \<Rightarrow>
          (case ap_read_external ports target (mc_world m) of
             (w, r) \<Rightarrow>
               let m = m\<lparr>mc_world := w\<rparr> in
               (case r of
                  Inr (Inr content) \<Rightarrow>
                    (case validate_fetched_content ports (it_definition it) content of
                       Inl e \<Rightarrow> (m, Finished ())
                     | Inr v \<Rightarrow>
                         let expected = mc_version m; before = current_state m in
                         (case get_item before u of
                            None \<Rightarrow> (m, Finished ())
                          | Some current \<Rightarrow>
                              (case external_binding (it_definition current) of
                                 Some (f, target', mode) \<Rightarrow>
                                   if mode = Mirror \<and> target' = target \<and> mf_file f = path \<and>
                                      ap_fingerprint ports (it_definition current) = Inr fingerprint
                                   then background (commit_file_first ports expected before
                                          (update_item u (on_definition (map_source (touched_at (ap_now ports (mc_world m))))) before)
                                          (Touched u) path content m)
                                   else (m, Finished ())
                               | None \<Rightarrow> (m, Finished ()))))
                | _ \<Rightarrow> (m, Finished ()))))"

definition touch_external :: "int \<Rightarrow> ProfileId \<Rightarrow> Profiles \<Rightarrow> ProfilesError + AffectsRule \<times> Profiles" where
  "touch_external now u p =
     (case get_item p u of
        None \<Rightarrow> Inl (ProfileNotFound u)
      | Some it \<Rightarrow>
          (case external_binding (it_definition it) of
             Some (f, target, mode) \<Rightarrow> Inr (Touched u, update_item u (on_definition (map_source (touched_at now))) p)
           | None \<Rightarrow> Inl (ProfileNotFound u)))"

definition handle_external_changed :: "'w ActorPorts \<Rightarrow> ProfileId \<Rightarrow> 'w Machine \<Rightarrow> 'w Machine \<times> unit outcome" where
  "handle_external_changed ports u m =
     (case get_item (current_state m) u of
        None \<Rightarrow> (m, Finished ())
      | Some it \<Rightarrow>
          (case external_binding (it_definition it) of
             None \<Rightarrow> (m, Finished ())
           | Some (f, target, mode) \<Rightarrow>
               if mode = Mirror then mirror_changed ports u it target (mf_file f) m
               else background (run_state_write ports (touch_external (ap_now ports (mc_world m)) u) m)))"

text \<open>The definition \<^verbatim>\<open>ReplaceDefinition\<close> stores. A source that keeps its slot keeps what is known of its file.\<close>

definition replaced_source ::
    "ManagedProfilePath \<Rightarrow> ProfileSource option \<Rightarrow> bool \<Rightarrow> ProfileSource \<Rightarrow> ProfileSource" where
  "replaced_source path previous same_slot s =
     with_subscription
       (case previous of
          Some (Remote f url opt sub) \<Rightarrow> if same_slot then sub else empty_subscription
        | _ \<Rightarrow> empty_subscription)
       (with_materialized
          \<lparr>mf_file = path,
           mf_updated_at = (if same_slot then (case previous of Some q \<Rightarrow> mf_updated_at (materialized q) | None \<Rightarrow> None)
                            else None)\<rparr> s)"

definition keeps_slot :: "ProfileSource option \<Rightarrow> ProfileDefinition \<Rightarrow> ManagedProfilePath \<Rightarrow> bool" where
  "keeps_slot previous d path =
     (case (previous, definition_source d) of
        (Some old, Some new) \<Rightarrow> retains_materialization old new path
      | _ \<Rightarrow> False)"

definition outdated_path :: "ProfileSource option \<Rightarrow> ProfileDefinition \<Rightarrow> ManagedProfilePath \<Rightarrow> ManagedProfilePath option" where
  "outdated_path previous d path =
     (case previous of
        None \<Rightarrow> None
      | Some old \<Rightarrow>
          let old_path = mf_file (materialized old) in
          if definition_source d = None \<or> old_path \<noteq> path then Some old_path else None)"

definition handle_replace_definition ::
    "'w ActorPorts \<Rightarrow> ProfileId \<Rightarrow> ProfileDefinition \<Rightarrow> 'w Machine \<Rightarrow>
     'w Machine \<times> (ProfilesError + CommitReport) outcome" where
  "handle_replace_definition ports u d m =
     (let expected = mc_version m; before = current_state m in
      case get_item before u of
        None \<Rightarrow> (m, Finished (Inl (ProfileNotFound u)))
      | Some it \<Rightarrow>
          (case canonical_path u d of
             None \<Rightarrow> (m, Panicked)
           | Some path \<Rightarrow>
               let previous = definition_source (it_definition it);
                   same_slot = keeps_slot previous d path;
                   d' = map_source (replaced_source path previous same_slot) d
               in (case (if same_slot then (m, Inr None) else resource_for_definition ports d' None m) of
                     (m, Inl e) \<Rightarrow> (m, Finished (Inl e))
                   | (m, Inr resource) \<Rightarrow>
                       commit_state_first ports expected before (update_item u (\<lambda>it. set_definition it d') before)
                         (Touched u) (map_option (Pair path) resource) (outdated_path previous d' path) None m)))"

section \<open>The actor\<close>

fun handle :: "'w ActorPorts \<Rightarrow> ProfilesActorMessage \<Rightarrow> 'w Machine \<Rightarrow> 'w Machine \<times> unit outcome" where
  "handle ports (Get r) m = reply_with r Snapshot (m, Finished (current_state m))"
| "handle ports (SetCurrent u r) m =
     reply_with r Report (run_state_write ports (\<lambda>p. Inr (CurrentChanged, set_current p u)) m)"
| "handle ports (SetCurrentIfNone u r) m = set_current_if_none ports u r m"
| "handle ports (SetGlobalTransforms us r) m =
     reply_with r Report (run_state_write ports (\<lambda>p. Inr (GlobalChanged, p\<lparr>pr_global_transforms := us\<rparr>)) m)"
| "handle ports (SetValidFields names r) m =
     reply_with r Report (run_state_write ports (\<lambda>p. Inr (Always, p\<lparr>pr_valid := names\<rparr>)) m)"
| "handle ports (Replace next r) m =
     reply_with r Report (run_state_write ports (\<lambda>p. Inr (Always, replace_document next p)) m)"
| "handle ports (Add request initial_file r) m = reply_with r Report (handle_add ports request initial_file m)"
| "handle ports (Delete u r) m = reply_with r Report (handle_delete ports u m)"
| "handle ports (Reorder reorder_op r) m =
     reply_with r Report (run_state_write ports (\<lambda>p. map_sum (\<lambda>e. e) (Pair Never) (reorder_items reorder_op p)) m)"
| "handle ports (PatchMetadata u patch r) m =
     reply_with r Report (run_state_write ports (patch_metadata u patch) m)"
| "handle ports (PatchRemoteOptions u patch r) m =
     reply_with r Report (run_state_write ports (patch_remote_options u patch) m)"
| "handle ports (RefreshRemote u patch origin r) m = handle_refresh ports u patch r m"
| "handle ports (CommitRefreshed u url fingerprint outcome) m =
     handle_commit_refreshed ports u url fingerprint outcome m"
| "handle ports (ImportRemote url metadata opt explicit r) m = handle_import ports url metadata opt explicit r m"
| "handle ports (CommitImported token outcome) m = handle_commit_imported ports token outcome m"
| "handle ports (ExternalFileChanged u) m = handle_external_changed ports u m"
| "handle ports (ReplaceDefinition u d r) m = reply_with r Report (handle_replace_definition ports u d m)"
| "handle ports ReconcileMaterializations m = (fst (reconcile_materializations ports m), Finished ())"

text \<open>Starting: recovery of the materialization journals first, then the timers and watchers.\<close>

definition pre_start ::
    "'w ActorPorts \<Rightarrow> Profiles PersistentStateManager \<Rightarrow> 'w \<Rightarrow> 'w \<times> (anyhow + ProfilesActorState)" where
  "pre_start ports mgr w =
     (let loaded = snapshot (pm_coordinator mgr) in
      case ap_reconcile ports loaded w of
        (w, Inl e) \<Rightarrow> (w, Inl (''startup materialization reconcile join failed: '' @ e))
      | (w, Inr (Inl e)) \<Rightarrow> (w, Inl (''startup materialization reconcile failed: '' @ e))
      | (w, Inr (Inr report)) \<Rightarrow>
          (w, Inr \<lparr>as_manager = mgr, as_index = index_build loaded, as_pending_refresh = [], as_pending_imports = [],
                   as_next_import_token = 1, as_timers = [], as_watchers = []\<rparr>))"

definition post_start :: "'w ActorPorts \<Rightarrow> 'w Machine \<Rightarrow> 'w Machine \<times> unit outcome" where
  "post_start ports m =
     (let p = current_state m; a = mc_actor m; w = mc_world m in
      case timers_reconcile True (ap_now ports w) p (as_timers a) of
        Inl u \<Rightarrow> (m, Panicked)
      | Inr (timers, due) \<Rightarrow>
          (m\<lparr>mc_actor := a\<lparr>as_timers := timers,
                            as_watchers := watchers_reconcile (ap_watch ports w) p (as_watchers a)\<rparr>,
             mc_out := mc_out m @ map CastRefresh due\<rparr>, Finished ()))"

definition post_stop :: "'w Machine \<Rightarrow> 'w Machine" where
  "post_stop m = m\<lparr>mc_actor := (mc_actor m)\<lparr>as_timers := [], as_watchers := []\<rparr>\<rparr>"

end
