(* ===== verification/Actor_Commits.thy ===== *)
theory Actor_Commits
  imports Profiles_Actor
begin

text \<open>
  What the transactions of the profiles actor do to its document.

  \<open>actor_ok\<close> is the state between two messages: the manager is at rest, its file holds the document,
  the document is valid and the reverse index is that of the document. Every transaction keeps it,
  on every path; it finishes with a report of the document it committed, or with an error and
  the content it started from.

  What the actor relies on is \<open>ports_law\<close>: nobody else writes the document's state, and no port touches the
  document's file.
\<close>

section \<open>The conditional write without interference\<close>

lemma replace_step:
  assumes "pm_invar (fs, m, d)" and "Suc (Suc (co_version (pm_coordinator m))) < version_limit"
    and "env_interference env = None" and "vs_version (arc_val (snapshot_versioned (pm_coordinator m))) = v"
    and "replace_if_version fs env m d v s = (m', d', out)"
  shows "pm_invar (fs, m', d')" and "pm_path m' = pm_path m" and "pm_formatter m' = pm_formatter m"
    and "pm_prefix m' = pm_prefix m"
    and "(out = Finished (Inr Replaced) \<and> co_version (pm_coordinator m') = Suc (co_version (pm_coordinator m)) \<and>
        snapshot (pm_coordinator m') = s \<and> pm_stored (fs, m', d') = Some s) \<or>
      (\<exists>e. out = Finished (Inl e) \<and> co_version (pm_coordinator m') = co_version (pm_coordinator m) \<and>
        snapshot (pm_coordinator m') = snapshot (pm_coordinator m) \<and> pm_stored (fs, m', d') = pm_stored (fs, m, d))"
proof -
  let ?c = "pm_coordinator m"
  let ?p = "persist_state_sync fs (pm_formatter m) (pm_path m) (pm_prefix m)"
  let ?st = "load_weak_snapshot fs (pm_formatter m) (pm_path m)"
  from assms(1) have c: "coord_inv ?c" and laws: "files_law fs" "yaml_law (pm_formatter m)" "prefix_ok (pm_prefix m)"
    by auto
  have v1: "Suc (co_version ?c) < version_limit" using assms(2) by simp
  obtain c' r where w: "with_pending_state_if_version env ?c d v s ?p ?p = (c', d', r)"
    and m': "m' = m\<lparr>pm_coordinator := c'\<rparr>" and out: "out = replace_result r"
    using assms(5) by (auto simp: replace_if_version_def Let_def split: prod.splits)
  show "pm_path m' = pm_path m" "pm_formatter m' = pm_formatter m" "pm_prefix m' = pm_prefix m" by (simp_all add: m')
  obtain acks evs where rd: "write_round env ?c s = (acks, evs)" by fastforce
  obtain d1 res where p: "?p s d = (d1, res)" by fastforce
  note stored = persist_stored [OF laws p]
  have "coord_inv c' \<and> ((r = Finished (Inr ()) \<and> co_version c' = Suc (co_version ?c) \<and> snapshot c' = s \<and> ?st d' = Some s) \<or>
    (\<exists>e. (r = Finished (Inl (CondState e)) \<or> (\<exists>x. r = Finished (Inl (CondEffect x)))) \<and> co_version c' = co_version ?c \<and>
      snapshot c' = snapshot ?c \<and> ?st d' = ?st d))"
  proof (cases "round_fails acks")
    case True
    from if_version_refused [OF c v1 assms(4) rd this, of d ?p ?p] w c show ?thesis
      by (auto intro!: coord_inv_started simp: coord_inv_store snapshot_def)
  next
    case nf: False
    show ?thesis
    proof (cases res)
      case (Inl e)
      with if_version_effect_failed [where f = ?p and g = ?p and s = s and d = d, OF c v1 assms(4) rd nf] p w stored c
      show ?thesis by (auto intro!: coord_inv_started simp: coord_inv_store snapshot_def)
    next
      case (Inr u)
      with if_version_committed [where f = ?p and g = ?p and s = s and d = d, OF c assms(2,4,3) rd nf] p w stored c
      show ?thesis by (auto intro!: coord_inv_started simp: next_state_version [OF v1])
    qed
  qed
  then show "pm_invar (fs, m', d')"
    and "(out = Finished (Inr Replaced) \<and> co_version (pm_coordinator m') = Suc (co_version ?c) \<and>
        snapshot (pm_coordinator m') = s \<and> pm_stored (fs, m', d') = Some s) \<or>
      (\<exists>e. out = Finished (Inl e) \<and> co_version (pm_coordinator m') = co_version ?c \<and>
        snapshot (pm_coordinator m') = snapshot ?c \<and> pm_stored (fs, m', d') = pm_stored (fs, m, d))"
    using laws by (auto simp: m' out)
qed

section \<open>The timers of a document\<close>

lemma map_of_map_filter_values:
  "im_wf m \<Longrightarrow> map_of (List.map_filter (\<lambda>(u, x). map_option (Pair u) (f x)) m) u = Option.bind (map_of m u) f"
proof (induction m)
  case (Cons kv m)
  obtain k x where kv: "kv = (k, x)" by (cases kv)
  have none: "map_of m k = None" using Cons.prems kv by (simp add: im_wf_def map_of_eq_None_iff)
  show ?case using Cons none by (auto simp: kv map_filter_simps im_wf_def split: option.split)
qed (simp add: map_filter_simps)

lemma im_wf_map_filter: "im_wf m \<Longrightarrow> im_wf (List.map_filter (\<lambda>(u, x). map_option (Pair u) (f x)) m)"
proof (induction m)
  case (Cons kv m)
  have keys: "fst ` set (List.map_filter (\<lambda>(u, x). map_option (Pair u) (f x)) m) \<subseteq> fst ` set m"
    by (induction m) (auto simp: map_filter_simps split: option.split)
  from Cons keys show ?case
    by (cases kv) (auto simp: map_filter_simps im_wf_def split: option.split)
qed (simp add: map_filter_simps)

definition timer_of :: "Profiles \<Rightarrow> ProfileId \<Rightarrow> u64 option" where
  "timer_of p u = Option.bind (get_item p u) (map_option fst \<circ> desired_timer)"

definition timers_ok :: "Profiles \<Rightarrow> Timers \<Rightarrow> bool" where
  "timers_ok p timers = (im_wf timers \<and> im_get timers = timer_of p)"

lemma desired_timers_get: "im_wf (pr_items p) \<Longrightarrow> im_get (desired_timers p) u = Option.bind (get_item p u) desired_timer"
  by (simp add: desired_timers_def map_of_map_filter_values get_item_def)

lemma kept_timers_get:
  "im_wf timers \<Longrightarrow> im_get (kept_timers desired timers) u =
     (case im_get timers u of
        Some i \<Rightarrow> if map_option fst (im_get desired u) = Some i then Some i else None
      | None \<Rightarrow> None)"
proof (induction timers)
  case (Cons kv m)
  obtain k i where kv: "kv = (k, i)" by (cases kv)
  have none: "im_get m k = None" using Cons.prems kv by (simp add: im_wf_def map_of_eq_None_iff)
  then have rest: "im_get (kept_timers desired m) k = None"
    by (force simp: kept_timers_def map_of_eq_None_iff)
  from Cons none rest show ?case
    by (auto simp: kv kept_timers_def im_wf_def split: option.split)
qed (simp add: kept_timers_def)

lemma start_timers_total: "\<exists>r. result_fold (start_timer False now) desired x = Inr r"
proof (induction desired arbitrary: x)
  case (Cons kv desired)
  have "\<exists>y. start_timer False now kv x = Inr y" by (simp add: start_timer_def overdue_def split_beta)
  with Cons.IH show ?case by auto
qed simp

lemma start_timers:
  "result_fold (start_timer catch_up now) desired (timers, due) = Inr (timers', due') \<Longrightarrow>
     im_get timers' = (\<lambda>u. case im_get timers u of Some i \<Rightarrow> Some i | None \<Rightarrow> map_option fst (im_get desired u)) \<and>
     (im_wf timers \<longrightarrow> im_wf timers')"
proof (induction desired arbitrary: timers due)
  case Nil
  then show ?case by (auto simp: fun_eq_iff split: option.split)
next
  case (Cons kv desired)
  obtain u i at where kv: "kv = (u, i, at)" by (cases kv)
  show ?case
  proof (cases "im_get timers u")
    case None
    with Cons.prems obtain due1 where
      "result_fold (start_timer catch_up now) desired (im_insert u i timers, due1) = Inr (timers', due')"
      using im_get_in_keys [of timers u] by (auto simp: kv start_timer_def split: option.splits)
    from Cons.IH [OF this] None show ?thesis by (auto simp: kv im_get_insert fun_eq_iff split: option.split)
  next
    case (Some j)
    with Cons.prems have "result_fold (start_timer catch_up now) desired (timers, due) = Inr (timers', due')"
      using im_get_in_keys [of timers u] by (simp add: kv start_timer_def)
    from Cons.IH [OF this] Some show ?thesis by (auto simp: kv fun_eq_iff split: option.split)
  qed
qed

text \<open>However the table looked before, afterwards it has exactly the timers the document wants.\<close>

lemma timers_reconcile_exact:
  assumes "im_wf timers" and "im_wf (pr_items p)" and "timers_reconcile catch_up now p timers = Inr (timers', due)"
  shows "timers_ok p timers'"
proof -
  have "im_wf (kept_timers (desired_timers p) timers)"
    using assms(1) by (simp add: kept_timers_def im_wf_def im_keys_filter_distinct)
  moreover have "(case im_get (kept_timers (desired_timers p) timers) u of
      Some i \<Rightarrow> Some i | None \<Rightarrow> map_option fst (im_get (desired_timers p) u)) = timer_of p u" for u
    using kept_timers_get [OF assms(1), of "desired_timers p" u]
    by (auto simp: desired_timers_get [OF assms(2)] timer_of_def map_option_bind comp_def split: option.splits)
  ultimately show ?thesis
    using start_timers [of catch_up now "desired_timers p" "kept_timers (desired_timers p) timers" "[]" timers' due] assms(3)
    by (auto simp: timers_reconcile_def timers_ok_def Let_def fun_eq_iff)
qed

lemma timers_reconcile_ok:
  assumes "im_wf timers" and "im_wf (pr_items p)"
  shows "\<exists>timers' due. timers_reconcile False now p timers = Inr (timers', due) \<and> timers_ok p timers'"
  using start_timers_total [of now "desired_timers p" "(kept_timers (desired_timers p) timers, [])"]
    timers_reconcile_exact [OF assms, of False now]
  by (auto simp: timers_reconcile_def Let_def)

section \<open>The actor between messages\<close>

definition keeps_file :: "'w Files \<Rightarrow> string \<Rightarrow> ('w, 'a) blocking \<Rightarrow> bool" where
  "keeps_file fs path operation = (\<forall>w. fs_read fs (fst (operation w)) path = fs_read fs w path)"

definition ports_law :: "'w ActorPorts \<Rightarrow> string \<Rightarrow> bool" where
  "ports_law ports path =
     (let keeps = (\<lambda>operation :: ('w, unit) blocking. keeps_file (ap_files ports) path operation) in
      (\<forall>w. env_interference (ap_env ports w) = None) \<and>
      (\<forall>q r v. keeps_file (ap_files ports) path (ap_prepare_state_first ports q r v)) \<and>
      (\<forall>q r v. keeps_file (ap_files ports) path (ap_prepare_file_first ports q r v)) \<and>
      (\<forall>x. keeps (ap_promote ports x) \<and> keeps (ap_complete ports x) \<and> keeps (ap_compensate ports x)) \<and>
      (\<forall>q v. keeps_file (ap_files ports) path (ap_prepare_cleanup ports q v)) \<and>
      (\<forall>x. keeps (ap_activate_cleanup ports x) \<and> keeps (ap_cancel_cleanup ports x)) \<and>
      (\<forall>x p. keeps_file (ap_files ports) path (ap_retry_cleanup ports x p)) \<and>
      (\<forall>p. keeps_file (ap_files ports) path (ap_reconcile ports p)) \<and>
      (\<forall>x. keeps_file (ap_files ports) path (ap_read_external ports x)))"

abbreviation mc_path :: "'w Machine \<Rightarrow> string" where
  "mc_path m \<equiv> pm_path (as_manager (mc_actor m))"

abbreviation mc_store :: "'w ActorPorts \<Rightarrow> 'w Machine \<Rightarrow> ('w, Profiles) pm_state" where
  "mc_store ports m \<equiv> (ap_files ports, as_manager (mc_actor m), mc_world m)"

abbreviation mc_writes :: "'w Machine \<Rightarrow> nat" where
  "mc_writes m \<equiv> co_version (mc_coordinator m)"

text \<open>The document and its file agree.\<close>

definition store_ok :: "'w ActorPorts \<Rightarrow> 'w Machine \<Rightarrow> bool" where
  "store_ok ports m =
     (ports_law ports (mc_path m) \<and> pm_invar (mc_store ports m) \<and> pm_stored (mc_store ports m) = Some (current_state m))"

definition actor_ok :: "'w ActorPorts \<Rightarrow> 'w Machine \<Rightarrow> bool" where
  "actor_ok ports m =
     (store_ok ports m \<and> validate (current_state m) = Inr () \<and> im_wf (pr_items (current_state m)) \<and>
      as_index (mc_actor m) = index_build (current_state m) \<and> timers_ok (current_state m) (as_timers (mc_actor m)))"

text \<open>Nothing but the world changed, and not the document's file.\<close>

definition only_world :: "'w ActorPorts \<Rightarrow> 'w Machine \<Rightarrow> 'w Machine \<Rightarrow> bool" where
  "only_world ports m m' =
     (mc_actor m' = mc_actor m \<and> mc_out m' = mc_out m \<and> mc_draws m' = mc_draws m \<and>
      fs_read (ap_files ports) (mc_world m') (mc_path m) = fs_read (ap_files ports) (mc_world m) (mc_path m))"

lemma only_world_refl [simp]: "only_world ports m m"
  by (simp add: only_world_def)

lemma only_world_trans [trans]: "only_world ports m m1 \<Longrightarrow> only_world ports m1 m2 \<Longrightarrow> only_world ports m m2"
  by (simp add: only_world_def)

lemma only_world_actor: "only_world ports m m' \<Longrightarrow> mc_actor m' = mc_actor m"
  by (simp add: only_world_def)

lemma only_world_state: "only_world ports m m' \<Longrightarrow> current_state m' = current_state m"
  by (simp add: only_world_def current_state_def)

lemma only_world_store: "only_world ports m m' \<Longrightarrow> store_ok ports m \<Longrightarrow> store_ok ports m'"
  by (simp add: only_world_def store_ok_def current_state_def load_weak_snapshot_def)

lemma only_world_ok: "only_world ports m m' \<Longrightarrow> actor_ok ports m \<Longrightarrow> actor_ok ports m'"
  using only_world_store [of ports m m'] only_world_state [of ports m m'] by (simp add: actor_ok_def only_world_def)

text \<open>Every port operation of a transaction is of this kind.\<close>

lemma call_only_world:
  assumes "keeps_file (ap_files ports) (mc_path m) operation" and "materialization_call operation m = (m', r)"
  shows "only_world ports m m'"
  using assms by (auto simp: materialization_call_def only_world_def keeps_file_def split_beta Let_def)

lemma optional_only_world:
  assumes "\<And>x. keeps_file (ap_files ports) (mc_path m) (operation x)" and "optional_call operation x m = (m', r)"
  shows "only_world ports m m'"
  using assms call_only_world [of ports m]
  by (auto simp: optional_call_def split: option.splits prod.splits)

lemma ports_keep:
  assumes "store_ok ports m"
  shows "keeps_file (ap_files ports) (mc_path m) (ap_prepare_state_first ports q r v)"
    and "keeps_file (ap_files ports) (mc_path m) (ap_prepare_file_first ports q r v)"
    and "keeps_file (ap_files ports) (mc_path m) (ap_promote ports x)"
    and "keeps_file (ap_files ports) (mc_path m) (ap_complete ports x)"
    and "keeps_file (ap_files ports) (mc_path m) (ap_compensate ports x)"
    and "keeps_file (ap_files ports) (mc_path m) (ap_prepare_cleanup ports q v)"
    and "keeps_file (ap_files ports) (mc_path m) (ap_activate_cleanup ports y)"
    and "keeps_file (ap_files ports) (mc_path m) (ap_cancel_cleanup ports y)"
    and "keeps_file (ap_files ports) (mc_path m) (ap_retry_cleanup ports y p)"
    and "keeps_file (ap_files ports) (mc_path m) (ap_reconcile ports p)"
    and "keeps_file (ap_files ports) (mc_path m) (ap_read_external ports z)"
    and "env_interference (ap_env ports w) = None"
  using assms by (simp_all add: store_ok_def ports_law_def Let_def)

text \<open>What a message can change besides: the manager's document, and the services derived from it.\<close>

definition same_tables :: "'w Machine \<Rightarrow> 'w Machine \<Rightarrow> bool" where
  "same_tables m m' =
     (as_pending_refresh (mc_actor m') = as_pending_refresh (mc_actor m) \<and>
      as_pending_imports (mc_actor m') = as_pending_imports (mc_actor m) \<and>
      as_next_import_token (mc_actor m') = as_next_import_token (mc_actor m) \<and>
      mc_out m' = mc_out m \<and> mc_path m' = mc_path m)"

lemma same_tables_refl [simp]: "same_tables m m"
  by (simp add: same_tables_def)

lemma same_tables_trans [trans]: "same_tables m m1 \<Longrightarrow> same_tables m1 m2 \<Longrightarrow> same_tables m m2"
  by (simp add: same_tables_def)

lemma only_world_tables: "only_world ports m m' \<Longrightarrow> same_tables m m'"
  by (simp add: only_world_def same_tables_def)

lemma persist_step:
  assumes "store_ok ports m" and "Suc (Suc (mc_writes m)) < version_limit"
    and "persist_candidate ports (mc_version m) p m = (m', out)"
  shows "store_ok ports m' \<and> same_tables m m' \<and> as_index (mc_actor m') = as_index (mc_actor m) \<and>
    as_timers (mc_actor m') = as_timers (mc_actor m) \<and>
    ((out = Finished (Inr p) \<and> current_state m' = p \<and> mc_writes m' = Suc (mc_writes m)) \<or>
     (\<exists>e. out = Finished (Inl e) \<and> current_state m' = current_state m \<and> mc_writes m' = mc_writes m))"
proof -
  let ?mgr = "as_manager (mc_actor m)"
  obtain mgr w r where u: "replace_if_version (ap_files ports) (ap_env ports (mc_world m)) ?mgr (mc_world m) (mc_version m) p =
    (mgr, w, r)" by (cases "replace_if_version (ap_files ports) (ap_env ports (mc_world m)) ?mgr (mc_world m) (mc_version m) p")
  have inv: "pm_invar (ap_files ports, ?mgr, mc_world m)" using assms(1) by (simp add: store_ok_def)
  note step = replace_step [OF inv assms(2) ports_keep(12) [OF assms(1)] refl u]
  have m': "m' = m\<lparr>mc_world := w, mc_actor := (mc_actor m)\<lparr>as_manager := mgr\<rparr>\<rparr>"
    and out: "out = (case r of Waiting \<Rightarrow> Waiting | Panicked \<Rightarrow> Panicked
        | Finished (Inl e) \<Rightarrow> Finished (Inl (Persist (show_replace_error e)))
        | Finished (Inr Replaced) \<Rightarrow> Finished (Inr p)
        | Finished (Inr (Conflict actual)) \<Rightarrow>
            Finished (Inl (VersionConflict (version_raw (mc_version m)) (version_raw actual))))"
    using assms(3) u by (simp_all add: persist_candidate_def)
  show ?thesis
    using step assms(1)
    by (auto simp: m' out store_ok_def same_tables_def current_state_def)
qed

lemma reconcile_committed_ok:
  assumes "store_ok ports m" and "current_state m = p" and "validate p = Inr ()" and "im_wf (pr_items p)"
    and "im_wf (as_timers (mc_actor m))"
  shows "actor_ok ports (reconcile_committed ports p m)" and "same_tables m (reconcile_committed ports p m)"
    and "mc_writes (reconcile_committed ports p m) = mc_writes m" and "current_state (reconcile_committed ports p m) = p"
proof -
  obtain timers due where t: "timers_reconcile False (ap_now ports (mc_world m)) p (as_timers (mc_actor m)) = Inr (timers, due)"
    "timers_ok p timers"
    using timers_reconcile_ok [OF assms(5,4)] by blast
  show "current_state (reconcile_committed ports p m) = p"
    using assms(2) by (simp add: reconcile_committed_def current_state_def Let_def)
  show "same_tables m (reconcile_committed ports p m)" "mc_writes (reconcile_committed ports p m) = mc_writes m"
    by (simp_all add: reconcile_committed_def same_tables_def Let_def)
  show "actor_ok ports (reconcile_committed ports p m)"
    using assms(1-4) t by (simp add: actor_ok_def reconcile_committed_def store_ok_def current_state_def Let_def)
qed

section \<open>The outcome of a transaction\<close>

definition same_content :: "Profiles \<Rightarrow> Profiles \<Rightarrow> bool" where
  "same_content p q = (p\<lparr>pr_revision := 0\<rparr> = q\<lparr>pr_revision := 0\<rparr>)"

lemma same_content_refl [simp]: "same_content p p"
  by (simp add: same_content_def)

definition reports ::
    "AffectsRule \<Rightarrow> Profiles \<Rightarrow> Profiles \<Rightarrow> ProfileId option \<Rightarrow> Profiles \<Rightarrow> CommitReport \<Rightarrow> bool" where
  "reports affects before next created after report =
     (prepare_candidate next = Inr (cr_snapshot report) \<and> after = cr_snapshot report \<and>
      cr_affects_current report = evaluate_affects affects before after \<and> cr_created report = created)"

lemma reports_commit [simp]:
  "prepare_candidate next = Inr p \<Longrightarrow> reports affects before next created p (commit_report affects before p ds created)"
  by (simp add: reports_def commit_report_def)

text \<open>A step of the actor that keeps \<open>actor_ok\<close> and writes at most twice.\<close>

definition actor_step :: "'w ActorPorts \<Rightarrow> 'w Machine \<Rightarrow> 'w Machine \<Rightarrow> bool" where
  "actor_step ports m m' = (actor_ok ports m' \<and> same_tables m m' \<and> mc_writes m' \<le> mc_writes m + 2)"

definition commits ::
    "'w ActorPorts \<Rightarrow> AffectsRule \<Rightarrow> Profiles \<Rightarrow> ProfileId option \<Rightarrow> 'w Machine \<Rightarrow> 'w Machine \<Rightarrow>
     (ProfilesError + CommitReport) outcome \<Rightarrow> bool" where
  "commits ports affects next created m m' out =
     (actor_step ports m m' \<and>
      ((\<exists>report. out = Finished (Inr report) \<and> reports affects (current_state m) next created (current_state m') report) \<or>
       (\<exists>e. out = Finished (Inl e) \<and> same_content (current_state m') (current_state m))))"

lemma commits_error:
  "actor_ok ports m \<Longrightarrow> only_world ports m m' \<Longrightarrow> commits ports affects next created m m' (Finished (Inl e))"
  using only_world_ok [of ports m m'] only_world_state [of ports m m'] only_world_tables [of ports m m']
  by (simp add: commits_def actor_step_def only_world_def)

lemma validate_bump:
  assumes "prepare_candidate next = Inr p"
  shows "validate p = Inr ()" and "pr_items p = pr_items next" and "same_content p next"
    and "pr_revision p = pr_revision next + 1" and "pr_revision next \<noteq> - 1"
proof -
  have refers: "refers_to P (next\<lparr>pr_revision := r\<rparr>) = refers_to P next" for P r
    by (simp add: refers_to_def fun_eq_iff)
  have tt: "validate_transform_target (next\<lparr>pr_revision := r\<rparr>) = validate_transform_target next" for r
    by (simp add: fun_eq_iff validate_transform_target_def)
  have mem: "validate_composition_member (next\<lparr>pr_revision := r\<rparr>) = validate_composition_member next" for r
    by (simp add: fun_eq_iff validate_composition_member_def)
  have con: "validate_contributors (next\<lparr>pr_revision := r\<rparr>) c b seen us = validate_contributors next c b seen us" for r c b seen us
    by (induction us arbitrary: seen) (simp_all add: mem)
  have d: "validate_definition (next\<lparr>pr_revision := r\<rparr>) = validate_definition next" for r
    by (simp add: fun_eq_iff validate_definition_def validate_transforms_def validate_composition_config_def tt mem con
        split: ProfileDefinition.split ConfigDefinition.split option.split)
  have its: "validate_items (next\<lparr>pr_revision := r\<rparr>) owners us = validate_items next owners us" for r owners us
    by (induction us arbitrary: owners) (auto simp: d Let_def split: option.split)
  have cur: "validate_current (next\<lparr>pr_revision := r\<rparr>) = validate_current next" for r
    by (simp add: validate_current_def cong: option.case_cong)
  have val: "validate (next\<lparr>pr_revision := r\<rparr>) = validate next" for r
    by (simp add: validate_def cur validate_transforms_def tt its Let_def)
  show "validate p = Inr ()" "pr_items p = pr_items next" "same_content p next" "pr_revision p = pr_revision next + 1"
    "pr_revision next \<noteq> - 1"
    using assms val by (auto simp: prepare_candidate_def bump_revision_def same_content_def split: sum.splits if_splits)
qed

lemma reconcile_step:
  assumes "store_ok ports m" and "current_state m = p" and "validate p = Inr ()" and "im_wf (pr_items p)"
    and "im_wf (as_timers (mc_actor m))" and "same_tables m0 m" and "mc_writes m \<le> mc_writes m0 + 2"
  shows "actor_step ports m0 (reconcile_committed ports p m)" and "current_state (reconcile_committed ports p m) = p"
  using reconcile_committed_ok [OF assms(1-5)] assms(6,7) same_tables_trans [OF assms(6)]
  by (simp_all add: actor_step_def)

lemma run_state_write_commits:
  assumes "actor_ok ports m" and "mc_writes m + 2 < version_limit"
    and "\<And>affects next. mutate (current_state m) = Inr (affects, next) \<Longrightarrow> im_wf (pr_items next)"
    and "run_state_write ports mutate m = (m', out)"
  shows "\<exists>affects next. commits ports affects next None m m' out \<and>
    (\<forall>report. out = Finished (Inr report) \<longrightarrow> mutate (current_state m) = Inr (affects, next))"
proof (cases "mutate (current_state m)")
  case (Inl e)
  with assms(4) have "m' = m" "out = Finished (Inl e)" by (simp_all add: run_state_write_def)
  then show ?thesis using commits_error [OF assms(1) only_world_refl] by blast
next
  case (Inr an)
  obtain affects nx where an: "an = (affects, nx)" by (cases an)
  note mut = Inr [unfolded an]
  show ?thesis
  proof (cases "prepare_candidate nx")
    case (Inl e)
    with assms(4) mut have "m' = m" "out = Finished (Inl e)" by (simp_all add: run_state_write_def)
    then show ?thesis using commits_error [OF assms(1) only_world_refl] by blast
  next
    case (Inr p)
    note cand = validate_bump [OF Inr]
    have store: "store_ok ports m" and timers: "im_wf (as_timers (mc_actor m))"
      using assms(1) by (auto simp: actor_ok_def timers_ok_def)
    obtain m1 r where p: "persist_candidate ports (mc_version m) p m = (m1, r)" by fastforce
    have "Suc (Suc (mc_writes m)) < version_limit" using assms(2) by simp
    note step = persist_step [OF store this p]
    from step consider (ok) "r = Finished (Inr p)" "current_state m1 = p" "mc_writes m1 = Suc (mc_writes m)"
      | (err) e where "r = Finished (Inl e)" "current_state m1 = current_state m" "mc_writes m1 = mc_writes m" by blast
    then show ?thesis
    proof cases
      case ok
      have out: "m' = reconcile_committed ports p m1" "out = Finished (Inr (commit_report affects (current_state m) p [] None))"
        using assms(4) mut Inr p ok(1) by (simp_all add: run_state_write_def and_then_def Let_def)
      have wf: "im_wf (pr_items p)" using assms(3) [OF mut] cand(2) by simp
      note rec = reconcile_step [of ports m1 p m, OF _ ok(2) cand(1) wf]
      show ?thesis
        using rec step timers ok(3) mut Inr
        by (intro exI [of _ affects] exI [of _ nx]) (auto simp: commits_def out)
    next
      case err
      have out: "m' = m1" "out = Finished (Inl e)"
        using assms(4) mut Inr p err(1) by (simp_all add: run_state_write_def and_then_def Let_def)
      have "actor_ok ports m1" using step err assms(1) by (simp add: actor_ok_def)
      then show ?thesis
        using step err by (intro exI [of _ affects] exI [of _ nx]) (auto simp: commits_def actor_step_def out)
    qed
  qed
qed

section \<open>State-first commits\<close>

lemma abandon_only_world:
  assumes "store_ok ports m" and "abandon ports prepared cleanup e m = (m', e')"
  shows "only_world ports m m'"
proof -
  obtain m1 r1 where 1: "optional_call (ap_cancel_cleanup ports) cleanup m = (m1, r1)" by fastforce
  then have w1: "only_world ports m m1" by (rule optional_only_world [rotated]) (rule ports_keep [OF assms(1)])
  obtain m2 r2 where 2: "optional_call (ap_compensate ports) prepared m1 = (m2, r2)" by fastforce
  have "only_world ports m1 m2"
    by (rule optional_only_world [OF _ 2]) (rule ports_keep [OF only_world_store [OF w1 assms(1)]])
  with w1 have "only_world ports m m2" by (rule only_world_trans)
  with 1 2 assms(2) show ?thesis by (simp add: abandon_def Let_def)
qed

lemma finish_cleanup_only_world:
  assumes "store_ok ports m" and "finish_cleanup ports c p m = (m', ds)"
  shows "only_world ports m m'"
proof -
  obtain m1 r1 where 1: "materialization_call (ap_activate_cleanup ports c) m = (m1, r1)" by fastforce
  have w1: "only_world ports m m1" by (rule call_only_world [OF _ 1]) (rule ports_keep [OF assms(1)])
  obtain m2 r2 where 2: "materialization_call (ap_retry_cleanup ports c p) m1 = (m2, r2)" by fastforce
  have "only_world ports m1 m2"
    by (rule call_only_world [OF _ 2]) (rule ports_keep [OF only_world_store [OF w1 assms(1)]])
  with w1 1 2 assms(2) show ?thesis
    by (auto simp: finish_cleanup_def intro: only_world_trans split: sum.splits)
qed

text \<open>A committed document whose services may not have followed yet.\<close>

definition pending_ok :: "'w ActorPorts \<Rightarrow> 'w Machine \<Rightarrow> 'w Machine \<Rightarrow> Profiles \<Rightarrow> bool" where
  "pending_ok ports m0 m p =
     (store_ok ports m \<and> current_state m = p \<and> validate p = Inr () \<and> im_wf (pr_items p) \<and>
      im_wf (as_timers (mc_actor m)) \<and> same_tables m0 m)"

lemma pending_reconcile:
  "pending_ok ports m0 m p \<Longrightarrow> mc_writes m \<le> mc_writes m0 + 2 \<Longrightarrow>
     actor_step ports m0 (reconcile_committed ports p m) \<and> current_state (reconcile_committed ports p m) = p"
  using reconcile_step [of ports m p m0] by (simp add: pending_ok_def)

lemma pending_only_world:
  "pending_ok ports m0 m p \<Longrightarrow> only_world ports m m' \<Longrightarrow> pending_ok ports m0 m' p"
  using only_world_store [of ports m m'] only_world_state [of ports m m'] only_world_tables [of ports m m']
    same_tables_trans [of m0 m m']
  by (simp add: pending_ok_def only_world_def)

lemma only_world_writes: "only_world ports m m' \<Longrightarrow> mc_writes m' = mc_writes m"
  by (simp add: only_world_def)

lemma rollback_candidate_Inr:
  assumes "rollback_candidate before p = Inr q"
  shows "validate q = Inr ()" and "same_content q before" and "pr_items q = pr_items before"
  using assms by (auto simp: rollback_candidate_def bump_revision_def same_content_def Let_def split: sum.splits if_splits)

lemma rollback_state_first_cases:
  assumes "pending_ok ports m0 m p" and "im_wf (pr_items before)" and "mc_writes m + 2 < version_limit"
    and "mc_writes m \<le> Suc (mc_writes m0)" and "rollback_state_first ports before prepared cleanup m = (m', out)"
  shows "actor_step ports m0 m' \<and>
    ((\<exists>fs. out = Finished (RolledBack fs) \<and> same_content (current_state m') before) \<or>
     (\<exists>e. out = Finished (ForwardRetained e) \<and> current_state m' = p))"
proof -
  have store: "store_ok ports m" and p: "current_state m = p" using assms(1) by (auto simp: pending_ok_def)
  have retained: ?thesis if "m' = reconcile_committed ports p m1" "out = Finished (ForwardRetained e)"
    "pending_ok ports m0 m1 p" "mc_writes m1 \<le> mc_writes m0 + 2" for m1 e
    using pending_reconcile [OF that(3,4)] that(1,2) by simp
  show ?thesis
  proof (cases "rollback_candidate before p")
    case (Inl e)
    with assms(5) p have "m' = reconcile_committed ports p m"
      "\<exists>e. out = Finished (ForwardRetained e)" by (auto simp: rollback_state_first_def Let_def)
    with retained assms(1,4) show ?thesis by auto
  next
    case (Inr q)
    obtain m1 r where persist: "persist_candidate ports (mc_version m) q m = (m1, r)" by fastforce
    have "Suc (Suc (mc_writes m)) < version_limit" using assms(3) by simp
    note step = persist_step [OF store this persist]
    then consider (ok) "r = Finished (Inr q)" "current_state m1 = q" "mc_writes m1 = Suc (mc_writes m)"
      | (err) e where "r = Finished (Inl e)" "current_state m1 = p" "mc_writes m1 = mc_writes m"
      using p by auto
    then show ?thesis
    proof cases
      case ok
      note cand = rollback_candidate_Inr [OF Inr]
      have pend: "pending_ok ports m0 m1 q"
        using step ok(2) cand assms(1,2) same_tables_trans [of m0 m m1] by (auto simp: pending_ok_def)
      obtain m2 r2 where 2: "optional_call (ap_cancel_cleanup ports) cleanup m1 = (m2, r2)" by fastforce
      have w2: "only_world ports m1 m2"
        by (rule optional_only_world [OF _ 2]) (use step in \<open>auto intro: ports_keep\<close>)
      note pend2 = pending_only_world [OF pend w2]
      then have store2: "store_ok ports m2" by (simp add: pending_ok_def)
      obtain m3 r3 where 3: "optional_call (ap_compensate ports) prepared m2 = (m3, r3)" by fastforce
      have w3: "only_world ports m2 m3" by (rule optional_only_world [OF _ 3]) (rule ports_keep [OF store2])
      note pend3 = pending_only_world [OF pend2 w3]
      have "m' = reconcile_committed ports q m3" "\<exists>fs. out = Finished (RolledBack fs)"
        using assms(5) Inr persist ok(1) 2 3 p by (auto simp: rollback_state_first_def Let_def)
      moreover have "mc_writes m3 \<le> mc_writes m0 + 2"
        using only_world_writes [OF w2] only_world_writes [OF w3] ok(3) assms(4) by simp
      ultimately show ?thesis using pending_reconcile [OF pend3] cand(2) by auto
    next
      case err
      have "pending_ok ports m0 m1 p"
        using step err(2) assms(1) same_tables_trans [of m0 m m1] by (auto simp: pending_ok_def)
      moreover have "m' = reconcile_committed ports p m1" "\<exists>e. out = Finished (ForwardRetained e)"
        using assms(5) Inr persist err(1) p by (auto simp: rollback_state_first_def Let_def)
      ultimately show ?thesis using retained err(3) assms(4) by auto
    qed
  qed
qed

text \<open>How a commit whose document is stored ends: with a report of that document, or undone.\<close>

definition settles ::
    "'w ActorPorts \<Rightarrow> AffectsRule \<Rightarrow> Profiles \<Rightarrow> Profiles \<Rightarrow> ProfileId option \<Rightarrow> 'w Machine \<Rightarrow> 'w Machine \<Rightarrow>
     (ProfilesError + CommitReport) outcome \<Rightarrow> bool" where
  "settles ports affects before p created m0 m' out =
     (actor_step ports m0 m' \<and>
      ((\<exists>ds. out = Finished (Inr (commit_report affects before p ds created)) \<and> current_state m' = p) \<or>
       (\<exists>e. out = Finished (Inl e) \<and> same_content (current_state m') before)))"

lemma settles_commits:
  assumes "settles ports affects (current_state m) p created m m' out" and "prepare_candidate next = Inr p"
  shows "commits ports affects next created m m' out"
  using assms by (auto simp: settles_def commits_def)

lemma actor_step_only_world:
  "actor_step ports m0 m \<Longrightarrow> only_world ports m m' \<Longrightarrow> actor_step ports m0 m'"
  using only_world_ok [of ports m m'] only_world_tables [of ports m m'] same_tables_trans [of m0 m m']
    only_world_writes [of ports m m']
  by (simp add: actor_step_def)

lemma actor_step_store: "actor_step ports m0 m \<Longrightarrow> store_ok ports m"
  by (simp add: actor_step_def actor_ok_def)

lemma promotion_failed_settles:
  assumes "pending_ok ports m0 m p" and "im_wf (pr_items before)" and "mc_writes m + 2 < version_limit"
    and "mc_writes m \<le> Suc (mc_writes m0)"
    and "promotion_failed ports before affects prepared cleanup created p error m = (m', out)"
  shows "settles ports affects before p created m0 m' out"
proof -
  obtain m1 r where r: "rollback_state_first ports before (Some prepared) cleanup m = (m1, r)" by fastforce
  from rollback_state_first_cases [OF assms(1-4) r] assms(5) r show ?thesis
    by (auto simp: promotion_failed_def settles_def)
qed

lemma finish_state_first_settles:
  assumes "pending_ok ports m0 m p" and "mc_writes m \<le> mc_writes m0 + 2"
    and "finish_state_first ports before affects cleanup created p ds m = (m', out)"
  shows "settles ports affects before p created m0 m' out"
proof -
  let ?m = "reconcile_committed ports p m"
  have step: "actor_step ports m0 ?m" "current_state ?m = p" using pending_reconcile [OF assms(1,2)] by simp_all
  show ?thesis
  proof (cases cleanup)
    case None
    with step assms(3) show ?thesis by (auto simp: finish_state_first_def settles_def Let_def)
  next
    case (Some c)
    obtain m2 late where f: "finish_cleanup ports c p ?m = (m2, late)" by fastforce
    note w = finish_cleanup_only_world [OF actor_step_store [OF step(1)] f]
    with actor_step_only_world [OF step(1) w] only_world_state [OF w] step(2) Some f assms(3) show ?thesis
      by (auto simp: finish_state_first_def settles_def Let_def)
  qed
qed

lemma after_state_commit_settles:
  assumes "pending_ok ports m0 m p" and "im_wf (pr_items before)" and "mc_writes m + 2 < version_limit"
    and "mc_writes m \<le> Suc (mc_writes m0)"
    and "after_state_commit ports before affects prepared cleanup created p m = (m', out)"
  shows "settles ports affects before p created m0 m' out"
proof (cases prepared)
  case None
  with assms show ?thesis by (auto simp: after_state_commit_def intro: finish_state_first_settles)
next
  case (Some x)
  have store: "store_ok ports m" using assms(1) by (simp add: pending_ok_def)
  obtain m1 r1 where 1: "materialization_call (ap_promote ports x) m = (m1, r1)" by fastforce
  have w1: "only_world ports m m1" by (rule call_only_world [OF _ 1]) (rule ports_keep [OF store])
  note pend1 = pending_only_world [OF assms(1) w1] and wr1 = only_world_writes [OF w1]
  then have store1: "store_ok ports m1" by (simp add: pending_ok_def)
  show ?thesis
  proof (cases r1)
    case (Inl error)
    have "promotion_failed ports before affects x cleanup created p error m1 = (m', out)"
      using assms(5) Some 1 Inl by (simp add: after_state_commit_def)
    from promotion_failed_settles [OF pend1 assms(2) _ _ this] wr1 assms(3,4) show ?thesis by simp
  next
    case (Inr u)
    obtain m2 r2 where 2: "materialization_call (ap_complete ports x) m1 = (m2, r2)" by fastforce
    have w2: "only_world ports m1 m2" by (rule call_only_world [OF _ 2]) (rule ports_keep [OF store1])
    have "finish_state_first ports before affects cleanup created p (completion r2) m2 = (m', out)"
      using assms(5) Some 1 Inr 2 by (simp add: after_state_commit_def)
    from finish_state_first_settles [OF pending_only_world [OF pend1 w2] _ this] wr1 only_world_writes [OF w2] assms(4)
    show ?thesis by simp
  qed
qed

lemma persist_pending:
  assumes "actor_ok ports m0" and "only_world ports m0 m" and "Suc (Suc (mc_writes m0)) < version_limit"
    and "prepare_candidate nx = Inr p" and "im_wf (pr_items nx)"
    and "persist_candidate ports (mc_version m0) p m = (m1, r)"
  obtains (stored) "r = Finished (Inr p)" "pending_ok ports m0 m1 p" "mc_writes m1 = Suc (mc_writes m0)"
  | (refused) e where "r = Finished (Inl e)" "actor_step ports m0 m1" "current_state m1 = current_state m0"
proof -
  note ok = only_world_ok [OF assms(2,1)] and act = only_world_actor [OF assms(2)]
  have store: "store_ok ports m" and timers: "im_wf (as_timers (mc_actor m))"
    using ok by (auto simp: actor_ok_def timers_ok_def)
  have "Suc (Suc (mc_writes m)) < version_limit" "mc_version m0 = mc_version m" using assms(3) act by simp_all
  with assms(6) have step: "store_ok ports m1 \<and> same_tables m m1 \<and> as_index (mc_actor m1) = as_index (mc_actor m) \<and>
    as_timers (mc_actor m1) = as_timers (mc_actor m) \<and>
    ((r = Finished (Inr p) \<and> current_state m1 = p \<and> mc_writes m1 = Suc (mc_writes m)) \<or>
     (\<exists>e. r = Finished (Inl e) \<and> current_state m1 = current_state m \<and> mc_writes m1 = mc_writes m))"
    by (intro persist_step [OF store]) simp_all
  note cand = validate_bump [OF assms(4)] and tab = same_tables_trans [OF only_world_tables [OF assms(2)], of m1]
  from step consider (a) "r = Finished (Inr p)" "current_state m1 = p" "mc_writes m1 = Suc (mc_writes m)"
    | (b) e where "r = Finished (Inl e)" "current_state m1 = current_state m" "mc_writes m1 = mc_writes m" by blast
  then show thesis
  proof cases
    case a
    with step tab timers cand assms(5) act show thesis by (intro stored) (auto simp: pending_ok_def)
  next
    case b
    with step ok have "actor_ok ports m1" by (simp add: actor_ok_def)
    with b step tab act only_world_state [OF assms(2)] show thesis by (intro refused) (auto simp: actor_step_def)
  qed
qed

lemma commits_refused:
  assumes "actor_step ports m m'" and "current_state m' = current_state m"
  shows "commits ports affects nx created m m' (Finished (Inl e))"
  using assms by (simp add: commits_def)

lemma prepared_only_world:
  assumes "store_ok ports m"
  shows "prepare_resource ports resource v m = (m', r) \<Longrightarrow> only_world ports m m'"
    and "optional_call (\<lambda>path. ap_prepare_cleanup ports path v) cleanup m = (m', r') \<Longrightarrow> only_world ports m m'"
    and "optional_call (ap_compensate ports) prepared m = (m', r'') \<Longrightarrow> only_world ports m m'"
proof -
  show "prepare_resource ports resource v m = (m', r) \<Longrightarrow> only_world ports m m'"
    unfolding prepare_resource_def
    by (erule optional_only_world [rotated]) (use assms in \<open>auto intro: ports_keep\<close>)
  show "optional_call (\<lambda>path. ap_prepare_cleanup ports path v) cleanup m = (m', r') \<Longrightarrow> only_world ports m m'"
    by (erule optional_only_world [rotated]) (rule ports_keep [OF assms])
  show "optional_call (ap_compensate ports) prepared m = (m', r'') \<Longrightarrow> only_world ports m m'"
    by (erule optional_only_world [rotated]) (rule ports_keep [OF assms])
qed

text \<open>The end of a state-first commit, from the preparations on.\<close>

lemma state_first_persisted:
  assumes "actor_ok ports m0" and "only_world ports m0 m" and "mc_writes m0 + 3 < version_limit"
    and "prepare_candidate nx = Inr p" and "im_wf (pr_items nx)"
    and "(case persist_candidate ports (mc_version m0) p m of
            (m, Waiting) \<Rightarrow> (m, Waiting)
          | (m, Panicked) \<Rightarrow> (m, Panicked)
          | (m, Finished (Inl error)) \<Rightarrow>
              (case abandon ports prepared cleanup error m of (m, e) \<Rightarrow> (m, Finished (Inl e)))
          | (m, Finished (Inr p)) \<Rightarrow>
              after_state_commit ports (current_state m0) affects prepared cleanup created p m) = (m', out)"
  shows "commits ports affects nx created m0 m' out"
proof -
  obtain m1 r where persist: "persist_candidate ports (mc_version m0) p m = (m1, r)" by fastforce
  have v: "Suc (Suc (mc_writes m0)) < version_limit" using assms(3) by simp
  from assms(1,2) v assms(4,5) persist show ?thesis
  proof (cases rule: persist_pending)
    case stored
    have wf: "im_wf (pr_items (current_state m0))" using assms(1) by (simp add: actor_ok_def)
    have "after_state_commit ports (current_state m0) affects prepared cleanup created p m1 = (m', out)"
      using assms(6) persist stored(1) by simp
    from after_state_commit_settles [OF stored(2) wf _ _ this] stored(3) assms(3,4) show ?thesis
      by (auto intro: settles_commits)
  next
    case (refused e)
    obtain m2 e' where a: "abandon ports prepared cleanup e m1 = (m2, e')" by fastforce
    note w = abandon_only_world [OF actor_step_store [OF refused(2)] a]
    have "m' = m2" "out = Finished (Inl e')" using assms(6) persist refused(1) a by simp_all
    with commits_refused [OF actor_step_only_world [OF refused(2) w]] only_world_state [OF w] refused(3) show ?thesis
      by simp
  qed
qed

theorem commit_state_first_commits:
  assumes "actor_ok ports m" and "mc_writes m + 3 < version_limit" and "im_wf (pr_items nx)"
    and "commit_state_first ports (mc_version m) (current_state m) nx affects resource cleanup_path created m = (m', out)"
  shows "commits ports affects nx created m m' out"
proof (cases "prepare_candidate nx")
  case (Inl e)
  with assms(4) show ?thesis
    using commits_error [OF assms(1) only_world_refl] by (auto simp: commit_state_first_def)
next
  case (Inr p)
  have store: "store_ok ports m" using assms(1) by (simp add: actor_ok_def)
  obtain m1 r1 where 1: "prepare_resource ports resource (pr_revision p) m = (m1, r1)" by fastforce
  note w1 = prepared_only_world(1) [OF store 1]
  then have store1: "store_ok ports m1" using only_world_store store by blast
  obtain m2 r2 where 2: "optional_call (\<lambda>path. ap_prepare_cleanup ports path (pr_revision p)) cleanup_path m1 = (m2, r2)"
    by fastforce
  note w2 = only_world_trans [OF w1 prepared_only_world(2) [OF store1 2]]
  then have store2: "store_ok ports m2" using only_world_store store by blast
  show ?thesis
  proof (cases "transposed r1")
    case (Inl e)
    with assms(4) Inr 1 commits_error [OF assms(1) w1] show ?thesis by (auto simp: commit_state_first_def)
  next
    case prepared: (Inr prepared)
    obtain m3 r3 where 3: "optional_call (ap_compensate ports) prepared m2 = (m3, r3)" by fastforce
    note w3 = only_world_trans [OF w2 prepared_only_world(3) [OF store2 3]]
    show ?thesis
    proof (cases "transposed r2")
      case (Inl e)
      with assms(4) Inr 1 2 3 prepared commits_error [OF assms(1) w3] show ?thesis
        by (auto simp: commit_state_first_def Let_def)
    next
      case cleanup: (Inr cleanup)
      show ?thesis
        by (rule state_first_persisted [OF assms(1) w2 assms(2) Inr assms(3)])
          (use assms(4) Inr 1 2 prepared cleanup in \<open>simp add: commit_state_first_def Let_def\<close>)
    qed
  qed
qed

section \<open>File-first commits\<close>

lemma file_first_persisted:
  assumes "actor_ok ports m0" and "only_world ports m0 m" and "mc_writes m0 + 2 < version_limit"
    and "prepare_candidate nx = Inr p" and "im_wf (pr_items nx)"
    and "(case persist_candidate ports (mc_version m0) p m of
            (m, Waiting) \<Rightarrow> (m, Waiting)
          | (m, Panicked) \<Rightarrow> (m, Panicked)
          | (m, Finished (Inl error)) \<Rightarrow>
              (case materialization_call (ap_compensate ports x) m of
                 (m, r) \<Rightarrow> (m, Finished (Inl (restore_error error (''state commit failed: '' @ show_profiles_error error) r))))
          | (m, Finished (Inr p)) \<Rightarrow>
              (case materialization_call (ap_complete ports x) (reconcile_committed ports p m) of
                 (m, r) \<Rightarrow> (m, Finished (Inr (commit_report affects (current_state m0) p (completion r) None))))) = (m', out)"
  shows "commits ports affects nx None m0 m' out"
proof -
  obtain m1 r where persist: "persist_candidate ports (mc_version m0) p m = (m1, r)" by fastforce
  have v: "Suc (Suc (mc_writes m0)) < version_limit" using assms(3) by simp
  from assms(1,2) v assms(4,5) persist show ?thesis
  proof (cases rule: persist_pending)
    case stored
    obtain m2 r2 where 2: "materialization_call (ap_complete ports x) (reconcile_committed ports p m1) = (m2, r2)" by fastforce
    have step: "actor_step ports m0 (reconcile_committed ports p m1)" "current_state (reconcile_committed ports p m1) = p"
      using pending_reconcile [OF stored(2)] stored(3) by simp_all
    have w: "only_world ports (reconcile_committed ports p m1) m2"
      by (rule call_only_world [OF _ 2]) (rule ports_keep [OF actor_step_store [OF step(1)]])
    have "m' = m2" "out = Finished (Inr (commit_report affects (current_state m0) p (completion r2) None))"
      using assms(6) persist stored(1) 2 by simp_all
    with actor_step_only_world [OF step(1) w] only_world_state [OF w] step(2) assms(4) show ?thesis
      by (auto simp: commits_def)
  next
    case (refused e)
    obtain m2 r2 where 2: "materialization_call (ap_compensate ports x) m1 = (m2, r2)" by fastforce
    have w: "only_world ports m1 m2"
      by (rule call_only_world [OF _ 2]) (rule ports_keep [OF actor_step_store [OF refused(2)]])
    have "m' = m2" "\<exists>e. out = Finished (Inl e)" using assms(6) persist refused(1) 2 by auto
    with commits_refused [OF actor_step_only_world [OF refused(2) w]] only_world_state [OF w] refused(3) show ?thesis
      by auto
  qed
qed

theorem commit_file_first_commits:
  assumes "actor_ok ports m" and "mc_writes m + 2 < version_limit" and "im_wf (pr_items nx)"
    and "commit_file_first ports (mc_version m) (current_state m) nx affects path content m = (m', out)"
  shows "commits ports affects nx None m m' out"
proof (cases "prepare_candidate nx")
  case (Inl e)
  with assms(4) show ?thesis
    using commits_error [OF assms(1) only_world_refl] by (auto simp: commit_file_first_def)
next
  case (Inr p)
  have store: "store_ok ports m" using assms(1) by (simp add: actor_ok_def)
  obtain m1 r1 where 1: "materialization_call (ap_prepare_file_first ports path (FileResource content) (pr_revision p)) m =
    (m1, r1)" by fastforce
  have w1: "only_world ports m m1" by (rule call_only_world [OF _ 1]) (rule ports_keep [OF store])
  then have store1: "store_ok ports m1" using only_world_store store by blast
  show ?thesis
  proof (cases r1)
    case (Inl e)
    with assms(4) Inr 1 commits_error [OF assms(1) w1] show ?thesis by (auto simp: commit_file_first_def)
  next
    case op: (Inr x)
    obtain m2 r2 where 2: "materialization_call (ap_promote ports x) m1 = (m2, r2)" by fastforce
    have "only_world ports m1 m2" by (rule call_only_world [OF _ 2]) (rule ports_keep [OF store1])
    note w2 = only_world_trans [OF w1 this]
    then have store2: "store_ok ports m2" using only_world_store store by blast
    show ?thesis
    proof (cases r2)
      case (Inl e)
      obtain m3 r3 where 3: "materialization_call (ap_compensate ports x) m2 = (m3, r3)" by fastforce
      have "only_world ports m2 m3" by (rule call_only_world [OF _ 3]) (rule ports_keep [OF store2])
      with assms(4) Inr 1 op 2 Inl 3 commits_error [OF assms(1) only_world_trans [OF w2]] show ?thesis
        by (auto simp: commit_file_first_def)
    next
      case (Inr u)
      show ?thesis
        by (rule file_first_persisted [where x = x, OF assms(1) w2 assms(2) \<open>prepare_candidate nx = Inr p\<close> assms(3)])
          (use assms(4) \<open>prepare_candidate nx = Inr p\<close> 1 op 2 Inr in \<open>simp add: commit_file_first_def del: append_Cons append_Nil\<close>)
    qed
  qed
qed

end
