(* ===== verification/Actor_Messages.thy ===== *)
theory Actor_Messages
  imports Actor_Commits
begin

text \<open>
  The messages of the profiles actor against an abstract document.

  \<open>edits\<close> says which documents a message may turn the current one into, and whether the
  change concerns the running configuration. A handler refines it: it either stores a document the message
  stands for, validated and with the next revision, and says so to whoever asked, or it keeps the content and reports no success.
\<close>

section \<open>The abstract document\<close>

inductive edits ::
    "(ImportOperationToken, PendingImport) index_map \<Rightarrow> ProfilesActorMessage \<Rightarrow> Profiles \<Rightarrow> AffectsRule \<Rightarrow> Profiles \<Rightarrow> bool"
  for imps where
  EditCurrent: "edits imps (SetCurrent u r) p CurrentChanged (set_current p u)"
| EditIfNone: "pr_current p = None \<Longrightarrow> edits imps (SetCurrentIfNone u r) p CurrentChanged (set_current p (Some u))"
| EditGlobals: "edits imps (SetGlobalTransforms us r) p GlobalChanged (p\<lparr>pr_global_transforms := us\<rparr>)"
| EditValid: "edits imps (SetValidFields names r) p Always (p\<lparr>pr_valid := names\<rparr>)"
| EditReplace: "edits imps (Replace q r) p Always (replace_document q p)"
| EditAdd: "get_item p u = None \<Longrightarrow> canonical_path u (np_definition request) = Some path \<Longrightarrow>
    edits imps (Add request initial_file r) p Never (fst (append_item p
      \<lparr>it_uid = u, it_metadata = np_metadata request, it_definition = added_definition path (np_definition request)\<rparr>))"
| EditDelete: "referrers_of (index_build p) p u = None \<Longrightarrow>
    edits imps (Delete u r) p Never (fst (remove_item_unchecked p u))"
| EditReorder: "reorder_items reorder_op p = Inr q \<Longrightarrow> edits imps (Reorder reorder_op r) p Never q"
| EditMetadata: "edits imps (PatchMetadata u patch r) p Never (update_item u (\<lambda>it. apply_metadata_patch it patch) p)"
| EditOptions: "edits imps (PatchRemoteOptions u patch r) p Never
    (update_item u (on_definition (map_source (patch_options patch))) p)"
| EditRefreshOptions: "edits imps (RefreshRemote u (Some patch) origin rr) p Never
    (update_item u (on_definition (map_source (patch_options patch))) p)"
| EditRefreshed: "edits imps (CommitRefreshed u url fingerprint (Succeeded sub suggested content filename)) p (Touched u)
    (update_item u (refreshed_item now sub filename) p)"
| EditImported: "im_get imps token = Some pending \<Longrightarrow> get_item p u = None \<Longrightarrow>
    canonical_path u (remote_import_definition url opt pending_path sub updated_at) = Some path \<Longrightarrow>
    edits imps (CommitImported token outcome) p Never (fst (append_item p
      \<lparr>it_uid = u, it_metadata = metadata,
       it_definition = map_source (set_path path) (remote_import_definition url opt pending_path sub updated_at)\<rparr>))"
| EditExternal: "edits imps (ExternalFileChanged u) p (Touched u)
    (update_item u (on_definition (map_source (touched_at now))) p)"
| EditDefinition: "canonical_path u d = Some path \<Longrightarrow>
    edits imps (ReplaceDefinition u d r) p (Touched u)
      (update_item u (\<lambda>it. set_definition it (map_source (replaced_source path previous same_slot) d)) p)"

inductive_cases edits_cases: "edits imps msg p affects q"

text \<open>An \<^verbatim>\<open>IndexMap\<close> in a message has no duplicate keys.\<close>

fun message_ok :: "ProfilesActorMessage \<Rightarrow> bool" where
  "message_ok (Replace q r) = im_wf (pr_items q)"
| "message_ok msg = True"

lemma update_item_wf: "im_wf (pr_items p) \<Longrightarrow> im_wf (pr_items (update_item u f p))"
  by (simp add: update_item_def split: option.split)

lemma append_item_wf: "im_wf (pr_items p) \<Longrightarrow> im_wf (pr_items (fst (append_item p it)))"
  by (simp add: append_item_def split: option.split)

lemma remove_item_wf: "im_wf (pr_items p) \<Longrightarrow> im_wf (pr_items (fst (remove_item_unchecked p u)))"
  by (simp add: remove_item_unchecked_def Let_def)

lemma take_in_order_wf:
  "take_in_order us items acc = Inr m \<Longrightarrow> im_wf acc \<Longrightarrow> im_wf m"
  by (induction us items acc rule: take_in_order.induct) (auto split: option.splits)


lemma reorder_moves:
  assumes "im_wf (pr_items p)"
  shows "im_wf (pr_items (fst (reorder p active over))) \<and>
    set (pr_items (fst (reorder p active over))) = set (pr_items p)"
proof -
  have "im_wf (move_nth i j m) \<and> set (move_nth i j m) = set m" if "i < length m" "im_wf m" for i j and m :: "(ProfileId, ProfileItem) index_map"
    using mset_move_nth [OF that(1), of j] that(2)
    by (metis im_wf_def mset_eq_imp_distinct_iff mset_map set_mset_mset)
  with assms show ?thesis by (auto simp: reorder_def dest!: im_get_index_of_Some split: option.splits)
qed

lemma reorder_items_wf:
  assumes "reorder_items reorder_op p = Inr q" and "im_wf (pr_items p)"
  shows "im_wf (pr_items q)"
proof (cases reorder_op)
  case (Move active over)
  with assms show ?thesis
    using reorder_moves by (auto split: if_splits)
next
  case (ByList us)
  with assms take_in_order_wf [of us "pr_items p" "[]"] show ?thesis by (auto split: if_splits sum.splits)
qed

lemma edits_wf:
  "edits imps msg p affects q \<Longrightarrow> message_ok msg \<Longrightarrow> im_wf (pr_items p) \<Longrightarrow> im_wf (pr_items q)"
  by (erule edits.cases)
    (auto simp: set_current_def replace_document_def intro: update_item_wf append_item_wf remove_item_wf reorder_items_wf)

section \<open>Outcomes\<close>

text \<open>Where an inner handler that may commit ends.\<close>

definition concludes ::
    "'w ActorPorts \<Rightarrow> (AffectsRule \<Rightarrow> Profiles \<Rightarrow> bool) \<Rightarrow> 'w Machine \<Rightarrow> 'w Machine \<Rightarrow>
     (ProfilesError + CommitReport) outcome \<Rightarrow> bool" where
  "concludes ports E m m' out =
     (actor_step ports m m' \<and>
      ((\<exists>affects nx created report. E affects nx \<and> out = Finished (Inr report) \<and>
          reports affects (current_state m) nx created (current_state m') report) \<or>
       ((\<forall>report. out \<noteq> Finished (Inr report)) \<and> same_content (current_state m') (current_state m))))"

lemma concludes_commits:
  "commits ports affects nx created m m' out \<Longrightarrow> E affects nx \<Longrightarrow> concludes ports E m m' out"
  by (auto simp: commits_def concludes_def)

lemma concludes_from:
  assumes "mc_actor m1 = mc_actor m" and "mc_out m1 = mc_out m"
  shows "concludes ports E m1 m' out = concludes ports E m m' out"
  using assms by (simp add: concludes_def actor_step_def same_tables_def current_state_def)

text \<open>Only the part of the machine a transaction works on matters.\<close>

definition core :: "'w Machine \<Rightarrow> 'w \<times> Profiles PersistentStateManager \<times> ProfileDependencyIndex \<times> Timers" where
  "core m = (mc_world m, as_manager (mc_actor m), as_index (mc_actor m), as_timers (mc_actor m))"

lemma actor_ok_core: "core m = core m' \<Longrightarrow> actor_ok ports m \<Longrightarrow> actor_ok ports m'"
  by (simp add: core_def actor_ok_def store_ok_def current_state_def)

lemma core_simps [simp]:
  "core (emit_output x m) = core m"
  "core (m\<lparr>mc_draws := n\<rparr>) = core m"
  "core (m\<lparr>mc_actor := (mc_actor m)\<lparr>as_pending_refresh := r\<rparr>\<rparr>) = core m"
  "core (m\<lparr>mc_actor := (mc_actor m)\<lparr>as_pending_imports := q\<rparr>\<rparr>) = core m"
  "core (m\<lparr>mc_actor := (mc_actor m)\<lparr>as_next_import_token := t, as_pending_imports := q\<rparr>\<rparr>) = core m"
  by (simp_all add: core_def emit_output_def)

text \<open>Names drawn and files touched since, but not the document's.\<close>

definition near :: "'w ActorPorts \<Rightarrow> 'w Machine \<Rightarrow> 'w Machine \<Rightarrow> bool" where
  "near ports m m' =
     (mc_actor m' = mc_actor m \<and> mc_out m' = mc_out m \<and>
      fs_read (ap_files ports) (mc_world m') (mc_path m) = fs_read (ap_files ports) (mc_world m) (mc_path m))"

lemma near_refl [simp]: "near ports m m" "near ports m (m\<lparr>mc_draws := n\<rparr>)"
  by (simp_all add: near_def)

lemma near_trans [trans]: "near ports m m1 \<Longrightarrow> near ports m1 m2 \<Longrightarrow> near ports m m2"
  by (simp add: near_def)

lemma near_ok:
  assumes "near ports m m'" and "actor_ok ports m"
  shows "actor_ok ports m'"
proof -
  have "actor_ok ports (m\<lparr>mc_draws := mc_draws m'\<rparr>)" using assms(2) by (rule actor_ok_core [rotated]) simp
  moreover have "only_world ports (m\<lparr>mc_draws := mc_draws m'\<rparr>) m'" using assms(1) by (simp add: near_def only_world_def)
  ultimately show ?thesis by (rule only_world_ok [rotated])
qed

lemma near_state: "near ports m m' \<Longrightarrow> current_state m' = current_state m"
  by (simp add: near_def current_state_def)

lemma near_actor: "near ports m m' \<Longrightarrow> mc_actor m' = mc_actor m"
  by (simp add: near_def)

lemma near_concludes: "near ports m m1 \<Longrightarrow> concludes ports E m1 m' out = concludes ports E m m' out"
  by (rule concludes_from) (simp_all add: near_def)

lemma concludes_still:
  assumes "actor_ok ports m" and "near ports m m'" and "\<And>report. out \<noteq> Finished (Inr report)"
  shows "concludes ports E m m' out"
  using near_ok [OF assms(2,1)] assms(2,3)
  by (simp add: concludes_def actor_step_def near_def same_tables_def current_state_def)

lemmas concludes_same = concludes_still [OF _ near_refl(1)]

section \<open>Handlers that may commit\<close>

text \<open>The same about a handler's result, for proofs along its branches.\<close>

definition ends ::
    "'w ActorPorts \<Rightarrow> (AffectsRule \<Rightarrow> Profiles \<Rightarrow> bool) \<Rightarrow> 'w Machine \<Rightarrow>
     'w Machine \<times> (ProfilesError + CommitReport) outcome \<Rightarrow> bool" where
  "ends ports E m res = concludes ports E m (fst res) (snd res)"

lemma ends_still:
  assumes "actor_ok ports m" and "near ports m m'"
  shows "ends ports E m (m', Waiting)" and "ends ports E m (m', Panicked)" and "ends ports E m (m', Finished (Inl e))"
  using concludes_still [OF assms] by (simp_all add: ends_def)

lemmas ends_same = ends_still [OF _ near_refl(1)]

lemma run_state_write_ends:
  assumes "actor_ok ports m" and "mc_writes m + 3 < version_limit"
    and "\<And>affects nx. mutate (current_state m) = Inr (affects, nx) \<Longrightarrow> E affects nx \<and> im_wf (pr_items nx)"
  shows "ends ports E m (run_state_write ports mutate m)"
proof -
  obtain m' out where run: "run_state_write ports mutate m = (m', out)" by fastforce
  have "mc_writes m + 2 < version_limit" using assms(2) by simp
  from run_state_write_commits [OF assms(1) this _ run] assms(3)
  obtain affects nx where "commits ports affects nx None m m' out"
    "\<forall>report. out = Finished (Inr report) \<longrightarrow> mutate (current_state m) = Inr (affects, nx)" by blast
  with assms(3) show ?thesis by (fastforce simp: commits_def concludes_def ends_def run)
qed

lemma state_first_ends:
  assumes "actor_ok ports m0" and "mc_writes m0 + 3 < version_limit" and "near ports m0 m"
    and "E affects nx" and "im_wf (pr_items nx)"
  shows "ends ports E m0 (commit_state_first ports (mc_version m0) (current_state m0) nx affects resource cleanup created m)"
proof -
  obtain m' out where run:
    "commit_state_first ports (mc_version m0) (current_state m0) nx affects resource cleanup created m = (m', out)" by fastforce
  have "commits ports affects nx created m m' out"
    using assms(2,3,5) run near_state [OF assms(3)] near_actor [OF assms(3)]
    by (intro commit_state_first_commits [OF near_ok [OF assms(3,1)]]) simp_all
  from concludes_commits [where E = E, OF this assms(4)] show ?thesis by (simp add: near_concludes [OF assms(3)] ends_def run)
qed

lemma file_first_ends:
  assumes "actor_ok ports m0" and "mc_writes m0 + 3 < version_limit" and "near ports m0 m"
    and "E affects nx" and "im_wf (pr_items nx)"
  shows "ends ports E m0 (commit_file_first ports (mc_version m0) (current_state m0) nx affects path content m)"
proof -
  obtain m' out where run:
    "commit_file_first ports (mc_version m0) (current_state m0) nx affects path content m = (m', out)" by fastforce
  have "commits ports affects nx None m m' out"
    using assms(2,3,5) run near_state [OF assms(3)] near_actor [OF assms(3)]
    by (intro commit_file_first_commits [OF near_ok [OF assms(3,1)]]) simp_all
  from concludes_commits [where E = E, OF this assms(4)] show ?thesis by (simp add: near_concludes [OF assms(3)] ends_def run)
qed

text \<open>A drawn name is free.\<close>

lemma draw_uid_free: "draw_uid nanoid prefix p n = Some (u, k) \<Longrightarrow> get_item p u = None"
  using draw_uid.raw_induct [where P = "\<lambda>nanoid prefix p n r. get_item p (fst r) = None", of nanoid prefix p n "(u, k)"]
  by (fastforce split: if_splits)

lemma generate_uid_near:
  "generate_uid ports d p m = Some (m', u) \<Longrightarrow> near ports0 m m' \<and> get_item p u = None"
  by (auto simp: generate_uid_def near_def dest: draw_uid_free split: option.splits)

lemma resource_near:
  assumes "actor_ok ports m" and "resource_for_definition ports d initial_file m = (m', r)"
  shows "near ports m m'"
proof -
  have "keeps_file (ap_files ports) (mc_path m) (ap_read_external ports z)" for z
    using assms(1) by (intro ports_keep) (simp add: actor_ok_def)
  with assms(2) show ?thesis
    by (auto simp: resource_for_definition_def keeps_file_def near_def prod_eq_iff
        split: option.splits ProfileSource.splits LocalBinding.splits ExternalMode.splits prod.splits)
qed

lemma append_free [simp]: "get_item p (it_uid it) = None \<Longrightarrow> snd (append_item p it)"
  by (simp add: append_item_def get_item_def)

lemma actor_ok_items: "actor_ok ports m \<Longrightarrow> im_wf (pr_items (current_state m))"
  by (simp add: actor_ok_def)

lemmas items_wf = update_item_wf append_item_wf remove_item_wf reorder_items_wf

lemma handle_add_ends:
  assumes "actor_ok ports m" and "mc_writes m + 3 < version_limit"
  shows "ends ports (edits imps (Add request initial_file r) (current_state m)) m (handle_add ports request initial_file m)"
proof (cases "generate_uid ports (np_definition request) (current_state m) m")
  case None
  with ends_same [OF assms(1)] show ?thesis by (simp add: handle_add_def Let_def)
next
  case (Some mu)
  obtain m1 u where mu: "mu = (m1, u)" by (cases mu)
  have n1: "near ports m m1" and free: "get_item (current_state m) u = None"
    using generate_uid_near Some mu by blast+
  show ?thesis
  proof (cases "canonical_path u (np_definition request)")
    case None
    with Some mu ends_still [OF assms(1) n1] show ?thesis by (simp add: handle_add_def Let_def)
  next
    case path: (Some path)
    let ?d = "added_definition path (np_definition request)"
    obtain m2 res where r: "resource_for_definition ports ?d initial_file m1 = (m2, res)" by fastforce
    note n2 = near_trans [OF n1 resource_near [OF near_ok [OF n1 assms(1)] r]]
    have "ends ports (edits imps (Add request initial_file r) (current_state m)) m
        (commit_state_first ports (mc_version m) (current_state m) (fst (append_item (current_state m)
           \<lparr>it_uid = u, it_metadata = np_metadata request, it_definition = ?d\<rparr>)) Never
           (map_option (Pair path) resource) None (Some u) m2)" for resource
      by (rule state_first_ends [OF assms n2]) (auto intro: EditAdd free path items_wf actor_ok_items [OF assms(1)])
    with Some mu path r ends_still [OF assms(1) n2] free show ?thesis
      by (simp add: handle_add_def Let_def split_beta split: sum.split)
  qed
qed

lemma handle_delete_ends:
  assumes "actor_ok ports m" and "mc_writes m + 3 < version_limit"
  shows "ends ports (edits imps (Delete u r) (current_state m)) m (handle_delete ports u m)"
proof -
  have ix: "as_index (mc_actor m) = index_build (current_state m)" using assms(1) by (simp add: actor_ok_def)
  have "ends ports (edits imps (Delete u r) (current_state m)) m
      (commit_state_first ports (mc_version m) (current_state m) (fst (remove_item_unchecked (current_state m) u)) Never None
         cleanup None m)" if "referrers_of (index_build (current_state m)) (current_state m) u = None" for cleanup
    using that by (intro state_first_ends [OF assms near_refl(1)])
      (auto intro: EditDelete items_wf actor_ok_items [OF assms(1)])
  then show ?thesis
    by (simp add: handle_delete_def Let_def ix ends_same [OF assms(1)] split: option.split)
qed

lemma commit_refreshed_ends:
  assumes "actor_ok ports m" and "mc_writes m + 3 < version_limit"
  shows "ends ports (edits imps (CommitRefreshed u url fingerprint outcome) (current_state m)) m
    (commit_refreshed ports u url fingerprint outcome m)"
proof -
  have "ends ports (edits imps (CommitRefreshed u url fingerprint (Succeeded sub suggested content filename)) (current_state m)) m
      (commit_file_first ports (mc_version m) (current_state m)
         (update_item u (refreshed_item now sub filename) (current_state m)) (Touched u) path content m)"
    for sub suggested filename now path content
    by (intro file_first_ends [OF assms near_refl(1)]) (auto intro: EditRefreshed items_wf actor_ok_items [OF assms(1)])
  then show ?thesis
    by (simp add: commit_refreshed_def Let_def ends_same [OF assms(1)]
        split: RefreshOutcome.split option.split sum.split ProfileSource.split)
qed

lemma import_ends:
  assumes "actor_ok ports m" and "mc_writes m + 3 < version_limit" and "im_get imps token = Some pending"
    and "d = remote_import_definition (pi_url pending) opt pending_path sub at"
  shows "ends ports (edits imps (CommitImported token outcome) (current_state m)) m
    (case generate_uid ports d (current_state m) m of
       None \<Rightarrow> (m, Waiting)
     | Some (m1, u) \<Rightarrow>
         (case canonical_path u d of
            None \<Rightarrow> (m1, Panicked)
          | Some path \<Rightarrow>
              let (nx, added) = append_item (current_state m)
                    \<lparr>it_uid = u, it_metadata = metadata, it_definition = map_source (set_path path) d\<rparr>
              in if \<not> added then (m1, Finished (Inl (Persist ''uid collision'')))
                 else commit_state_first ports (mc_version m) (current_state m) nx Never
                        (Some (path, FileResource content)) None (Some u) m1))"
proof -
  have "ends ports (edits imps (CommitImported token outcome) (current_state m)) m
      (commit_state_first ports (mc_version m) (current_state m) (fst (append_item (current_state m)
         \<lparr>it_uid = u, it_metadata = metadata, it_definition = map_source (set_path path) d\<rparr>)) Never
         (Some (path, FileResource content)) None (Some u) m1)"
    if "near ports m m1" "get_item (current_state m) u = None" "canonical_path u d = Some path" for m1 u path
    using that assms(3) unfolding assms(4)
    by (intro state_first_ends [OF assms(1,2)]) (auto intro: EditImported items_wf actor_ok_items [OF assms(1)])
  with generate_uid_near [of ports d "current_state m" m] ends_still [OF assms(1)] show ?thesis
    by (auto simp: Let_def split_beta split: option.split)
qed

lemma commit_imported_ends:
  assumes "actor_ok ports m" and "mc_writes m + 3 < version_limit" and "im_get imps token = Some pending"
  shows "ends ports (edits imps (CommitImported token outcome) (current_state m)) m (commit_imported ports pending outcome m)"
  unfolding commit_imported_def Let_def
  by (simp add: ends_same [OF assms(1)] import_ends [OF assms refl, unfolded Let_def]
      del: append_Cons append_Nil split: RefreshOutcome.split sum.split)

lemma handle_replace_definition_ends:
  assumes "actor_ok ports m" and "mc_writes m + 3 < version_limit"
  shows "ends ports (edits imps (ReplaceDefinition u d r) (current_state m)) m (handle_replace_definition ports u d m)"
proof -
  have commit: "ends ports (edits imps (ReplaceDefinition u d r) (current_state m)) m
      (commit_state_first ports (mc_version m) (current_state m)
         (update_item u (\<lambda>it. set_definition it (map_source (replaced_source path previous same_slot) d)) (current_state m))
         (Touched u) resource cleanup None m1)"
    if "near ports m m1" "canonical_path u d = Some path" for m1 path previous same_slot resource cleanup
    using that by (intro state_first_ends [OF assms]) (auto intro: EditDefinition items_wf actor_ok_items [OF assms(1)])
  show ?thesis
    unfolding handle_replace_definition_def Let_def
    by (auto simp: ends_same [OF assms(1)] commit resource_near [OF assms(1)] ends_still [OF assms(1)]
        split: option.split prod.split sum.split)
qed

section \<open>What the outside sees\<close>

fun success :: "Answer \<Rightarrow> CommitReport option" where
  "success (Report (Inr report)) = Some report"
| "success (Activated (Inr (Some report))) = Some report"
| "success a = None"

fun refreshes :: "ProfilesActorMessage \<Rightarrow> bool" where
  "refreshes (RefreshRemote u patch origin r) = True"
| "refreshes msg = False"

text \<open>Nothing was stored but perhaps a revision, and nobody was told otherwise.\<close>

definition unchanged :: "Profiles \<Rightarrow> Profiles \<Rightarrow> Output list \<Rightarrow> bool" where
  "unchanged before after outs =
     (same_content after before \<and> RequestRebuild \<notin> set outs \<and>
      (\<forall>r a. Send r a \<in> set outs \<longrightarrow> success a = None) \<and>
      (\<forall>r p. Send r (Snapshot p) \<in> set outs \<longrightarrow> p = after))"

text \<open>The document was replaced, and what was said of it is true. If the change concerns the running
  configuration, somebody has been told: the requester by its report, or the rebuild service.\<close>

definition told :: "bool \<Rightarrow> AffectsRule \<Rightarrow> Profiles \<Rightarrow> Profiles \<Rightarrow> Output list \<Rightarrow> bool" where
  "told refresh affects before after outs =
     ((\<forall>r a. Send r a \<in> set outs \<longrightarrow> \<not> refresh \<longrightarrow>
         (\<exists>report. success a = Some report \<and> cr_snapshot report = after \<and>
            cr_affects_current report = evaluate_affects affects before after)) \<and>
      (\<forall>r a. Send r a \<in> set outs \<longrightarrow> refresh \<longrightarrow> success a = None) \<and>
      (evaluate_affects affects before after \<longrightarrow> RequestRebuild \<in> set outs \<or> (\<exists>r a. Send r a \<in> set outs \<and> success a \<noteq> None)))"

definition performs :: "'w ActorPorts \<Rightarrow> ProfilesActorMessage \<Rightarrow> 'w Machine \<Rightarrow> 'w Machine \<Rightarrow> bool" where
  "performs ports msg m m' =
     (actor_ok ports m' \<and> mc_path m' = mc_path m \<and> mc_writes m' \<le> mc_writes m + 2 \<and>
      (\<exists>outs. mc_out m' = mc_out m @ outs \<and>
         (unchanged (current_state m) (current_state m') outs \<or>
          (\<exists>affects nx. edits (as_pending_imports (mc_actor m)) msg (current_state m) affects nx \<and>
             prepare_candidate nx = Inr (current_state m') \<and>
             told (refreshes msg) affects (current_state m) (current_state m') outs))))"

text \<open>An inner handler's result followed by outputs.\<close>

lemma ends_cases:
  assumes "core m = core m0" and "mc_out m = mc_out m0" and "ends ports E m (m', out)"
  obtains (refused) "\<And>report. out \<noteq> Finished (Inr report)" "actor_ok ports m'" "mc_path m' = mc_path m0"
      "mc_writes m' \<le> mc_writes m0 + 2" "mc_out m' = mc_out m0" "same_content (current_state m') (current_state m0)"
  | (committed) affects nx report where "out = Finished (Inr report)" "actor_ok ports m'" "mc_path m' = mc_path m0"
      "mc_writes m' \<le> mc_writes m0 + 2" "mc_out m' = mc_out m0" "E affects nx"
      "prepare_candidate nx = Inr (current_state m')" "cr_snapshot report = current_state m'"
      "cr_affects_current report = evaluate_affects affects (current_state m0) (current_state m')"
proof -
  have eqs: "current_state m = current_state m0" "mc_path m = mc_path m0" "mc_writes m = mc_writes m0"
    using assms(1) by (simp_all add: core_def current_state_def)
  from assms(2,3) eqs show thesis
    by (auto simp: ends_def concludes_def actor_step_def same_tables_def reports_def intro: refused committed)
qed

lemma output_simps [simp]:
  "current_state (emit_output x m) = current_state m"
  "mc_out (emit_output x m) = mc_out m @ [x]"
  "as_manager (mc_actor (emit_output x m)) = as_manager (mc_actor m)"
  by (simp_all add: emit_output_def current_state_def)

lemma actor_ok_emit [simp]: "actor_ok ports (emit_output x m) = actor_ok ports m"
  using actor_ok_core [of "emit_output x m" m ports] actor_ok_core [of m "emit_output x m" ports] by auto

definition plain_wrap :: "((ProfilesError + CommitReport) \<Rightarrow> Answer) \<Rightarrow> bool" where
  "plain_wrap wrap =
     ((\<forall>report. success (wrap (Inr report)) = Some report) \<and> (\<forall>e. success (wrap (Inl e)) = None) \<and>
      (\<forall>x p. Snapshot p \<noteq> wrap x))"

lemma plain_wraps [simp]: "plain_wrap Report" "plain_wrap (Activated \<circ> map_sum (\<lambda>e. e) Some)"
proof -
  have "Snapshot p \<noteq> (Activated \<circ> map_sum (\<lambda>e. e) Some) x" for x and p by (cases x) simp_all
  then show "plain_wrap (Activated \<circ> map_sum (\<lambda>e. e) Some)" by (simp add: plain_wrap_def)
qed (simp add: plain_wrap_def)

lemma performs_reply:
  assumes "core m = core m0" and "mc_out m = mc_out m0" and "plain_wrap wrap" and "\<not> refreshes msg"
    and "ends ports (edits (as_pending_imports (mc_actor m0)) msg (current_state m0)) m res"
  shows "performs ports msg m0 (fst (reply_with r wrap res))"
proof -
  obtain m' out where res: "res = (m', out)" by (cases res)
  from assms(1,2) assms(5)[unfolded res] show ?thesis
  proof (cases rule: ends_cases)
    case refused
    have no: "unchanged (current_state m0) (current_state m') []"
      "\<And>e. unchanged (current_state m0) (current_state m') [Send r (wrap (Inl e))]"
      using refused(6) assms(3) by (auto simp: unchanged_def plain_wrap_def)
    show ?thesis
    proof (cases out)
      case (Finished x)
      with refused(1) obtain e where "x = Inl e" by (cases x) auto
      with refused no Finished show ?thesis by (auto simp: res reply_with_def performs_def)
    qed (use refused no in \<open>auto simp: res reply_with_def performs_def\<close>)
  next
    case (committed affects nx report)
    then have "told (refreshes msg) affects (current_state m0) (current_state m') [Send r (wrap (Inr report))]"
      using assms(3,4) by (simp add: told_def plain_wrap_def)
    with committed show ?thesis
      by (auto simp: res reply_with_def performs_def)
  qed
qed

lemma performs_background:
  assumes "core m = core m0" and "mc_out m = mc_out m0" and "\<not> refreshes msg"
    and "ends ports (edits (as_pending_imports (mc_actor m0)) msg (current_state m0)) m res"
  shows "performs ports msg m0 (fst (background res))"
proof -
  obtain m' out where res: "res = (m', out)" by (cases res)
  from assms(1,2) assms(4)[unfolded res] show ?thesis
  proof (cases rule: ends_cases)
    case refused
    then show ?thesis
      by (cases out) (auto simp: res background_def request_rebuild_if_def performs_def unchanged_def split: sum.splits)
  next
    case (committed affects nx report)
    then have "told (refreshes msg) affects (current_state m0) (current_state m')
        (if cr_affects_current report then [RequestRebuild] else [])"
      by (simp add: told_def)
    with committed show ?thesis
      by (auto simp: res background_def request_rebuild_if_def performs_def split: if_splits)
  qed
qed

lemma performs_unchanged:
  assumes "actor_ok ports m'" and "mc_path m' = mc_path m" and "mc_writes m' = mc_writes m"
    and "current_state m' = current_state m" and "mc_out m' = mc_out m @ outs" and "unchanged (current_state m) (current_state m) outs"
  shows "performs ports msg m m'"
  using assms by (auto simp: performs_def)


section \<open>Every message\<close>

lemma edits_table: "edits (as_pending_imports (mc_actor m)) msg (current_state m) affects nx \<Longrightarrow> actor_ok ports m \<Longrightarrow>
    message_ok msg \<Longrightarrow> im_wf (pr_items nx)"
  by (rule edits_wf) (auto dest: actor_ok_items)

lemma write_ends:
  assumes "actor_ok ports m" and "mc_writes m + 3 < version_limit" and "message_ok msg"
    and "\<And>affects nx. mutate (current_state m) = Inr (affects, nx) \<Longrightarrow>
      edits (as_pending_imports (mc_actor m)) msg (current_state m) affects nx"
  shows "ends ports (edits (as_pending_imports (mc_actor m)) msg (current_state m)) m (run_state_write ports mutate m)"
  by (intro run_state_write_ends [OF assms(1,2)] conjI) (use assms(4) edits_table [OF _ assms(1,3)] in blast)+

lemma write_performs:
  assumes "actor_ok ports m" and "mc_writes m + 3 < version_limit" and "message_ok msg" and "\<not> refreshes msg"
    and "plain_wrap wrap"
    and "\<And>affects nx. mutate (current_state m) = Inr (affects, nx) \<Longrightarrow>
      edits (as_pending_imports (mc_actor m)) msg (current_state m) affects nx"
  shows "performs ports msg m (fst (reply_with r wrap (run_state_write ports mutate m)))"
  by (rule performs_reply [OF refl refl assms(5,4) write_ends [OF assms(1-3,6)]])

text \<open>\<open>RefreshRemote\<close> starts a download and answers only when it cannot.\<close>

lemma start_refresh_outs:
  "core (start_refresh ports u r m) = core m \<and> mc_path (start_refresh ports u r m) = mc_path m \<and>
   (\<exists>outs. mc_out (start_refresh ports u r m) = mc_out m @ outs \<and> RequestRebuild \<notin> set outs \<and>
      (\<forall>q a. Send q a \<in> set outs \<longrightarrow> (\<exists>e. a = Report (Inl e))))"
  by (auto simp: start_refresh_def send_error_def emit_output_def core_def split: option.split ProfileSource.split sum.split)

lemma send_error_outs:
  "core (send_error r e m) = core m \<and> mc_path (send_error r e m) = mc_path m \<and>
   (\<exists>outs. mc_out (send_error r e m) = mc_out m @ outs \<and> RequestRebuild \<notin> set outs \<and>
      (\<forall>q a. Send q a \<in> set outs \<longrightarrow> (\<exists>e. a = Report (Inl e))))"
  by (auto simp: send_error_def split: option.split)

lemma core_facts:
  assumes "core m = core m'"
  shows "current_state m = current_state m'" and "mc_path m = mc_path m'" and "mc_writes m = mc_writes m'"
  using assms by (simp_all add: core_def current_state_def)

lemma quiet_performs:
  assumes "actor_ok ports m" and "core m' = core m" and "mc_out m' = mc_out m @ outs" and "RequestRebuild \<notin> set outs"
    and "\<And>q a. Send q a \<in> set outs \<Longrightarrow> \<exists>e. a = Report (Inl e)"
  shows "performs ports msg m m'"
proof (rule performs_unchanged [OF _ _ _ _ assms(3)])
  show "actor_ok ports m'" using assms(1,2) actor_ok_core [of m m' ports] by simp
  show "unchanged (current_state m) (current_state m) outs"
    using assms(4,5) by (fastforce simp: unchanged_def)
qed (use core_facts [OF assms(2)] in simp_all)

lemma refresh_performs:
  assumes "actor_ok ports m" and "mc_writes m + 3 < version_limit"
  shows "performs ports (RefreshRemote u patch origin r) m (fst (handle_refresh ports u patch r m))"
proof -
  let ?msg = "RefreshRemote u patch origin r"
  have err: "performs ports ?msg m (send_error r e m)" for e
    using send_error_outs [of r e m] quiet_performs [OF assms(1), of "send_error r e m"] by blast
  have start: "performs ports ?msg m (start_refresh ports u r m)"
    using start_refresh_outs [of ports u r m] quiet_performs [OF assms(1), of "start_refresh ports u r m"] by blast
  show ?thesis
  proof (cases patch)
    case None
    with err start show ?thesis by (simp add: handle_refresh_def)
  next
    case (Some pt)
    obtain m1 out where run: "run_state_write ports (patch_remote_options u pt) m = (m1, out)" by fastforce
    have "ends ports (edits (as_pending_imports (mc_actor m)) ?msg (current_state m)) m (m1, out)"
      unfolding run [symmetric] Some
      by (intro run_state_write_ends [OF assms])
        (auto simp: patch_remote_options_def actor_ok_items [OF assms(1)]
          intro: EditRefreshOptions items_wf split: option.splits ProfileSource.splits)
    then have "performs ports ?msg m (fst (case (m1, out) of (m, Waiting) \<Rightarrow> (m, Waiting)
                | (m, Panicked) \<Rightarrow> (m, Panicked)
                | (m, Finished (Inl e)) \<Rightarrow> (send_error r e m, Finished ())
                | (m, Finished (Inr report)) \<Rightarrow> (start_refresh ports u r m, Finished ())))"
    proof (cases rule: ends_cases [OF refl refl, consumes 1, case_names refused committed])
      case refused
      then have quiet: "performs ports ?msg m m'" if "core m' = core m1" "mc_out m' = mc_out m1 @ outs"
        "RequestRebuild \<notin> set outs" "\<forall>q a. Send q a \<in> set outs \<longrightarrow> (\<exists>e. a = Report (Inl e))" for m' outs
        using that core_facts [OF that(1)] actor_ok_core [of m1 m' ports]
        by (fastforce simp: performs_def unchanged_def)
      have "performs ports ?msg m m1" using quiet [of m1 "[]"] by simp
      moreover have "performs ports ?msg m (send_error r e m1)" for e
        using send_error_outs [of r e m1] quiet [of "send_error r e m1"] by blast
      ultimately show ?thesis using refused(1) by (auto split: outcome.split sum.split)
    next
      case (committed affects nx report)
      obtain outs where outs: "mc_out (start_refresh ports u r m1) = mc_out m1 @ outs"
        "\<forall>q a. Send q a \<in> set outs \<longrightarrow> (\<exists>e. a = Report (Inl e))" and c: "core (start_refresh ports u r m1) = core m1"
        using start_refresh_outs [of ports u r m1] by blast
      have "affects = Never" using committed(6) by (auto elim: edits.cases)
      with outs(2) have "told (refreshes ?msg) affects (current_state m) (current_state m1) outs"
        by (fastforce simp: told_def)
      with committed outs(1) core_facts [OF c] actor_ok_core [OF c [symmetric], of ports] show ?thesis
        by (auto simp: performs_def)
    qed
    with Some err run show ?thesis by (auto simp: handle_refresh_def split: prod.splits)
  qed
qed

lemma near_performs:
  assumes "actor_ok ports m" and "near ports m m'"
  shows "performs ports msg m m'"
  by (rule performs_unchanged [OF near_ok [OF assms(2,1)], where outs = "[]"])
    (use assms(2) in \<open>simp_all add: near_def unchanged_def current_state_def\<close>)

lemma external_near:
  assumes "actor_ok ports m" and "ap_read_external ports target (mc_world m) = (w, r)"
  shows "near ports m (m\<lparr>mc_world := w\<rparr>)"
proof -
  have "keeps_file (ap_files ports) (mc_path m) (ap_read_external ports target)"
    using assms(1) by (intro ports_keep) (simp add: actor_ok_def)
  with assms(2) show ?thesis by (simp add: keeps_file_def near_def) (metis fst_conv)
qed

lemma mirror_performs:
  assumes "actor_ok ports m" and "mc_writes m + 3 < version_limit"
  shows "performs ports (ExternalFileChanged u) m (fst (mirror_changed ports u it target path m))"
proof -
  let ?msg = "ExternalFileChanged u"
  have same: "performs ports ?msg m m" by (rule near_performs [OF assms(1)]) simp
  obtain w r where read: "ap_read_external ports target (mc_world m) = (w, r)" by fastforce
  let ?m = "m\<lparr>mc_world := w\<rparr>"
  note n = external_near [OF assms(1) read]
  have commit: "performs ports ?msg m (fst (background (commit_file_first ports (mc_version m) (current_state m)
      (update_item u (on_definition (map_source (touched_at now))) (current_state m)) (Touched u) path content ?m)))"
    for now content
    by (intro performs_background [OF refl refl] file_first_ends [OF assms n])
      (auto intro: EditExternal items_wf actor_ok_items [OF assms(1)])
  have "current_state ?m = current_state m" by (simp add: current_state_def)
  with same near_performs [OF assms(1) n] commit read show ?thesis
    by (simp add: mirror_changed_def Let_def split: sum.split option.split prod.split)
qed

lemma external_performs:
  assumes "actor_ok ports m" and "mc_writes m + 3 < version_limit"
  shows "performs ports (ExternalFileChanged u) m (fst (handle_external_changed ports u m))"
proof -
  have same: "performs ports (ExternalFileChanged u) m m" by (rule near_performs [OF assms(1)]) simp
  have "performs ports (ExternalFileChanged u) m (fst (background (run_state_write ports (touch_external now u) m)))" for now
    by (intro performs_background [OF refl refl] run_state_write_ends [OF assms])
      (auto simp: touch_external_def actor_ok_items [OF assms(1)] intro: EditExternal items_wf split: option.splits)
  with same mirror_performs [OF assms] show ?thesis
    by (simp add: handle_external_changed_def split: option.split)
qed

lemma if_none_performs:
  assumes "actor_ok ports m" and "mc_writes m + 3 < version_limit"
  shows "performs ports (SetCurrentIfNone u r) m (fst (set_current_if_none ports u r m))"
proof (cases "pr_current (current_state m)")
  case None
  then show ?thesis
    unfolding set_current_if_none_def
    by (auto intro!: write_performs [OF assms] intro: EditIfNone simp del: comp_apply)
next
  case (Some v)
  have "unchanged (current_state m) (current_state m) [Send r (Activated (Inr None))]" by (simp add: unchanged_def)
  with Some assms(1) performs_unchanged [of ports "emit_output (Send r (Activated (Inr None))) m" m] show ?thesis
    by (simp add: set_current_if_none_def reply_with_def)
qed

lemma commit_refreshed_performs:
  assumes "actor_ok ports m" and "mc_writes m + 3 < version_limit"
  shows "performs ports (CommitRefreshed u url fingerprint outcome) m
    (fst (handle_commit_refreshed ports u url fingerprint outcome m))"
proof -
  let ?m = "m\<lparr>mc_actor := (mc_actor m)\<lparr>as_pending_refresh := im_shift_remove u (as_pending_refresh (mc_actor m))\<rparr>\<rparr>"
  have c: "core ?m = core m" by simp
  have ok: "actor_ok ports ?m" using actor_ok_core [OF c [symmetric] assms(1)] .
  have "ends ports (edits (as_pending_imports (mc_actor m)) (CommitRefreshed u url fingerprint outcome) (current_state m)) ?m
      (commit_refreshed ports u url fingerprint outcome ?m)"
    using commit_refreshed_ends [OF ok] assms(2) core_facts [OF c] by simp
  note run = performs_reply [where r = r and wrap = Report for r, OF c _ _ _ this] performs_background [OF c _ _ this]
  obtain m1 out where res: "commit_refreshed ports u url fingerprint outcome ?m = (m1, out)" by fastforce
  show ?thesis
    using run(2) run(1)
    by (simp add: handle_commit_refreshed_def Let_def res background_def reply_with_def
        split: outcome.splits option.split prod.splits)
qed

lemma commit_imported_performs:
  assumes "actor_ok ports m" and "mc_writes m + 3 < version_limit"
  shows "performs ports (CommitImported token outcome) m (fst (handle_commit_imported ports token outcome m))"
proof -
  let ?m = "m\<lparr>mc_actor := (mc_actor m)\<lparr>as_pending_imports := im_shift_remove token (as_pending_imports (mc_actor m))\<rparr>\<rparr>"
  have c: "core ?m = core m" by simp
  have ok: "actor_ok ports ?m" using actor_ok_core [OF c [symmetric] assms(1)] .
  have quiet: "performs ports (CommitImported token outcome) m m" "performs ports (CommitImported token outcome) m ?m"
    using quiet_performs [OF assms(1) refl, of "[]"] quiet_performs [OF assms(1) c, of "[]"] by simp_all
  have "performs ports (CommitImported token outcome) m (fst (reply_with (pi_reply p) Report (commit_imported ports p outcome ?m)))"
    if "im_get (as_pending_imports (mc_actor m)) token = Some p" for p
    using commit_imported_ends [OF ok _ that] assms(2) core_facts [OF c]
    by (intro performs_reply [OF c]) simp_all
  with quiet show ?thesis by (auto simp: handle_commit_imported_def Let_def split: option.split)
qed

lemma import_request_near:
  "validate_import_request ports p metadata url opt m = (m', out) \<Longrightarrow> \<exists>n. m' = m\<lparr>mc_draws := n\<rparr>"
  by (auto simp: validate_import_request_def generate_uid_def Let_def split_beta
      split: option.splits if_splits intro: exI [of _ "mc_draws m"])

lemma import_performs:
  assumes "actor_ok ports m"
  shows "performs ports (ImportRemote url metadata opt explicit r) m (fst (handle_import ports url metadata opt explicit r m))"
proof -
  obtain m1 out where v: "validate_import_request ports (current_state m) metadata url opt m = (m1, out)" by fastforce
  then obtain n where m1: "m1 = m\<lparr>mc_draws := n\<rparr>" using import_request_near by blast
  have "performs ports (ImportRemote url metadata opt explicit r) m m'"
    if "core m' = core m" "mc_out m' = mc_out m @ outs" "outs \<in> {[], [Send r (Report (Inl e))], [SpawnImport token url opt]}"
    for m' outs e token
    using that(3) by (intro quiet_performs [OF assms that(1,2)]) auto
  note quiet = this [of m1 "[]"] this [of "emit_output (Send r (Report (Inl e))) m1" "[Send r (Report (Inl e))]" for e] this
  show ?thesis
    by (auto simp: handle_import_def v m1 Let_def intro!: quiet split: outcome.split sum.split) (simp add: core_def)
qed

lemma reconcile_performs:
  assumes "actor_ok ports m"
  shows "performs ports ReconcileMaterializations m (fst (reconcile_materializations ports m))"
proof (rule near_performs [OF assms])
  have "keeps_file (ap_files ports) (mc_path m) (ap_reconcile ports p)" for p
    using assms by (intro ports_keep) (simp add: actor_ok_def)
  then show "near ports m (fst (reconcile_materializations ports m))"
    by (simp add: reconcile_materializations_def near_def keeps_file_def split_beta)
qed

lemma handle_performs:
  assumes "actor_ok ports m" and "mc_writes m + 3 < version_limit" and "message_ok msg"
  shows "performs ports msg m (fst (handle ports msg m))"
proof (cases msg)
  case (Get r)
  have "unchanged (current_state m) (current_state m) [Send r (Snapshot (current_state m))]" by (simp add: unchanged_def)
  with Get assms(1) performs_unchanged [of ports "emit_output (Send r (Snapshot (current_state m))) m" m] show ?thesis
    by (simp add: reply_with_def)
next
  case (SetCurrentIfNone u r)
  with if_none_performs [OF assms(1,2)] show ?thesis by simp
next
  case (Add request initial_file r)
  with handle_add_ends [OF assms(1,2)] show ?thesis by (auto intro!: performs_reply)
next
  case (Delete u r)
  with handle_delete_ends [OF assms(1,2)] show ?thesis by (auto intro!: performs_reply)
next
  case (ReplaceDefinition u d r)
  with handle_replace_definition_ends [OF assms(1,2)] show ?thesis by (auto intro!: performs_reply)
next
  case (RefreshRemote u patch origin r)
  with refresh_performs [OF assms(1,2)] show ?thesis by simp
next
  case (CommitRefreshed u url fingerprint outcome)
  with commit_refreshed_performs [OF assms(1,2)] show ?thesis by simp
next
  case (ImportRemote url metadata opt explicit r)
  with import_performs [OF assms(1)] show ?thesis by simp
next
  case (CommitImported token outcome)
  with commit_imported_performs [OF assms(1,2)] show ?thesis by simp
next
  case (ExternalFileChanged u)
  with external_performs [OF assms(1,2)] show ?thesis by simp
next
  case ReconcileMaterializations
  with reconcile_performs [OF assms(1)] show ?thesis by simp
next
  case (Reorder reorder_op r)
  with assms show ?thesis
    by (cases "reorder_items reorder_op (current_state m)") (auto intro!: write_performs intro: EditReorder)
qed (use assms in \<open>auto intro!: write_performs intro: edits.intros
      simp: patch_metadata_def patch_remote_options_def split: option.splits sum.splits ProfileSource.splits if_splits\<close>)

end
