(* ===== verification/Config_Value.thy ===== *)
theory Config_Value
  imports Prelude
begin

text \<open>
  Configuration values (\<^verbatim>\<open>nyanpasu-config/src/runtime/value\<close>) and the path helpers of the executor
  (\<^verbatim>\<open>runtime/executor/value_util.rs\<close>).

  \<^item> A value is a JSON tree whose objects remember the order of their keys. Sharing by \<^verbatim>\<open>Arc\<close> is
    invisible to the code modelled here, so it is left out.
  \<^item> Numbers are those of \<^verbatim>\<open>serde_json\<close>: a non-negative 64-bit integer, a negative one, or a
    finite float, which stays an opaque text.
  \<^item> \<open>value_wf\<close> says that no object has a key twice. It is what \<^verbatim>\<open>IndexMap\<close> guarantees, and every
    operation keeps it.
\<close>

section \<open>Values\<close>

datatype Number = PosInt u64 | NegInt int | Float string

datatype ConfigValue =
    Null
  | Bool bool
  | Number Number
  | String string
  | Array "ConfigValue list"
  | Object "(string \<times> ConfigValue) list"

type_synonym ConfigObject = "(string, ConfigValue) index_map"

fun as_array_arc :: "ConfigValue \<Rightarrow> ConfigValue list option" where
  "as_array_arc (Array xs) = Some xs"
| "as_array_arc _ = None"

fun as_object_arc :: "ConfigValue \<Rightarrow> ConfigObject option" where
  "as_object_arc (Object m) = Some m"
| "as_object_arc _ = None"

fun value_wf :: "ConfigValue \<Rightarrow> bool" where
  "value_wf (Array xs) = list_all value_wf xs"
| "value_wf (Object m) = (distinct (map fst m) \<and> list_all (\<lambda>kv. value_wf (snd kv)) m)"
| "value_wf _ = True"

section \<open>Setting and removing along typed paths\<close>

datatype PathSegment = Key string | Index nat

datatype ValuePathError =
    ExpectedObject nat
  | ExpectedArray nat
  | MissingKey nat string
  | IndexOutOfBounds nat nat nat
  | RemoveRoot

fun set_path_at ::
    "ConfigValue \<Rightarrow> PathSegment list \<Rightarrow> ConfigValue \<Rightarrow> nat \<Rightarrow> ValuePathError + ConfigValue" where
  "set_path_at self [] v depth = Inr v"
| "set_path_at self (Key key # rest) v depth =
     (case self of
        Object m \<Rightarrow>
          if rest = [] then Inr (Object (im_insert key v m))
          else (case im_get m key of
                  None \<Rightarrow> Inl (MissingKey depth key)
                | Some child \<Rightarrow>
                    (case set_path_at child rest v (depth + 1) of
                       Inl e \<Rightarrow> Inl e
                     | Inr updated \<Rightarrow> Inr (Object (im_insert key updated m))))
      | _ \<Rightarrow> Inl (ExpectedObject depth))"
| "set_path_at self (Index index # rest) v depth =
     (case self of
        Array xs \<Rightarrow>
          if length xs \<le> index then Inl (IndexOutOfBounds depth index (length xs))
          else if rest = [] then Inr (Array (xs[index := v]))
          else (case set_path_at (xs ! index) rest v (depth + 1) of
                  Inl e \<Rightarrow> Inl e
                | Inr updated \<Rightarrow> Inr (Array (xs[index := updated])))
      | _ \<Rightarrow> Inl (ExpectedArray depth))"

definition set_path :: "ConfigValue \<Rightarrow> PathSegment list \<Rightarrow> ConfigValue \<Rightarrow> ValuePathError + ConfigValue" where
  "set_path self path v = set_path_at self path v 0"

fun remove_path_at ::
    "ConfigValue \<Rightarrow> PathSegment list \<Rightarrow> nat \<Rightarrow> ValuePathError + ConfigValue" where
  "remove_path_at self [] depth = Inl RemoveRoot"
| "remove_path_at self (Key key # rest) depth =
     (case self of
        Object m \<Rightarrow>
          (case im_get m key of
             None \<Rightarrow> Inl (MissingKey depth key)
           | Some child \<Rightarrow>
               if rest = [] then Inr (Object (im_shift_remove key m))
               else (case remove_path_at child rest (depth + 1) of
                       Inl e \<Rightarrow> Inl e
                     | Inr updated \<Rightarrow> Inr (Object (im_insert key updated m))))
      | _ \<Rightarrow> Inl (ExpectedObject depth))"
| "remove_path_at self (Index index # rest) depth =
     (case self of
        Array xs \<Rightarrow>
          if length xs \<le> index then Inl (IndexOutOfBounds depth index (length xs))
          else if rest = [] then Inr (Array (remove_nth index xs))
          else (case remove_path_at (xs ! index) rest (depth + 1) of
                  Inl e \<Rightarrow> Inl e
                | Inr updated \<Rightarrow> Inr (Array (xs[index := updated])))
      | _ \<Rightarrow> Inl (ExpectedArray depth))"

definition remove_path :: "ConfigValue \<Rightarrow> PathSegment list \<Rightarrow> ValuePathError + ConfigValue" where
  "remove_path self path = (if path = [] then Inl RemoveRoot else remove_path_at self path 0)"

section \<open>Conversions\<close>

text \<open>\<^verbatim>\<open>serde_json::Value\<close> with \<^verbatim>\<open>preserve_order\<close>: an object is an ordered map, too.\<close>

datatype JsonValue =
    JNull
  | JBool bool
  | JNumber Number
  | JString string
  | JArray "JsonValue list"
  | JObject "(string \<times> JsonValue) list"

text \<open>Both conversions of an object insert entry by entry.\<close>

definition im_collect :: "('k \<times> 'v) list \<Rightarrow> ('k, 'v) index_map" where
  "im_collect kvs = fold (\<lambda>(k, v). im_insert k v) kvs []"

fun to_json :: "ConfigValue \<Rightarrow> JsonValue" where
  "to_json Null = JNull"
| "to_json (Bool b) = JBool b"
| "to_json (Number n) = JNumber n"
| "to_json (String s) = JString s"
| "to_json (Array xs) = JArray (map to_json xs)"
| "to_json (Object m) = JObject (im_collect (map (\<lambda>(k, v). (k, to_json v)) m))"

fun from_json_value :: "JsonValue \<Rightarrow> ConfigValue" where
  "from_json_value JNull = Null"
| "from_json_value (JBool b) = Bool b"
| "from_json_value (JNumber n) = Number n"
| "from_json_value (JString s) = String s"
| "from_json_value (JArray xs) = Array (map from_json_value xs)"
| "from_json_value (JObject m) = Object (im_collect (map (\<lambda>(k, v). (k, from_json_value v)) m))"

datatype ValueConvertError = NonStringYamlKey | InvalidYamlNumber | TaggedYamlValue

datatype f64 = Finite string | NonFinite string

datatype YamlNumber = YPosInt u64 | YNegInt int | YFloat f64

datatype YamlValue =
    YNull
  | YBool bool
  | YNumber YamlNumber
  | YString string
  | YSequence "YamlValue list"
  | YMapping "(YamlValue \<times> YamlValue) list"
  | YTagged string YamlValue

definition number_from_i64 :: "int \<Rightarrow> Number" where
  "number_from_i64 i = (if i < 0 then NegInt i else PosInt (word_of_int i))"

fun number_from_f64 :: "f64 \<Rightarrow> Number option" where
  "number_from_f64 (Finite s) = Some (Float s)"
| "number_from_f64 (NonFinite s) = None"

fun yaml_as_i64 :: "YamlNumber \<Rightarrow> int option" where
  "yaml_as_i64 (YPosInt n) = (if uint n < 2 ^ 63 then Some (uint n) else None)"
| "yaml_as_i64 (YNegInt i) = Some i"
| "yaml_as_i64 (YFloat f) = None"

fun yaml_number_to_json :: "YamlNumber \<Rightarrow> ValueConvertError + Number" where
  "yaml_number_to_json y =
     (case yaml_as_i64 y of
        Some i \<Rightarrow> Inr (number_from_i64 i)
      | None \<Rightarrow>
          (case y of
             YPosInt n \<Rightarrow> Inr (PosInt n)
           | YFloat f \<Rightarrow> (case number_from_f64 f of Some n \<Rightarrow> Inr n | None \<Rightarrow> Inl InvalidYamlNumber)
           | YNegInt i \<Rightarrow> Inl InvalidYamlNumber))"

fun from_yaml_value :: "YamlValue \<Rightarrow> ValueConvertError + ConfigValue" where
  "from_yaml_value YNull = Inr Null"
| "from_yaml_value (YBool b) = Inr (Bool b)"
| "from_yaml_value (YNumber n) =
     (case yaml_number_to_json n of Inl e \<Rightarrow> Inl e | Inr m \<Rightarrow> Inr (Number m))"
| "from_yaml_value (YString s) = Inr (String s)"
| "from_yaml_value (YSequence ys) =
     (case result_map from_yaml_value ys of Inl e \<Rightarrow> Inl e | Inr xs \<Rightarrow> Inr (Array xs))"
| "from_yaml_value (YMapping kvs) =
     (case result_map (\<lambda>kv. case fst kv of
                               YString k \<Rightarrow>
                                 (case from_yaml_value (snd kv) of Inl e \<Rightarrow> Inl e | Inr v \<Rightarrow> Inr (k, v))
                             | _ \<Rightarrow> Inl NonStringYamlKey) kvs of
        Inl e \<Rightarrow> Inl e
      | Inr m \<Rightarrow> Inr (Object (im_collect m)))"
| "from_yaml_value (YTagged t v) = Inl TaggedYamlValue"

section \<open>Helpers of the executor\<close>

definition empty_object :: ConfigValue where
  "empty_object = Object []"

definition clean_seed :: ConfigValue where
  "clean_seed = Object [(''proxies'', Array [])]"

definition obj_get :: "ConfigValue \<Rightarrow> string \<Rightarrow> ConfigValue option" where
  "obj_get v k = (case as_object_arc v of Some m \<Rightarrow> im_get m k | None \<Rightarrow> None)"

definition obj_insert :: "ConfigValue \<Rightarrow> string \<Rightarrow> ConfigValue \<Rightarrow> ConfigValue" where
  "obj_insert v k e =
     Object (im_insert k e (case as_object_arc v of Some m \<Rightarrow> m | None \<Rightarrow> []))"

text \<open>\<^verbatim>\<open>str::split\<close> on a character.\<close>

fun split_char :: "char \<Rightarrow> string \<Rightarrow> string list" where
  "split_char c [] = [[]]"
| "split_char c (x # xs) =
     (if x = c then [] # split_char c xs
      else case split_char c xs of [] \<Rightarrow> [[x]] | s # ss \<Rightarrow> (x # s) # ss)"

definition parse_dotted_path :: "string \<Rightarrow> string list" where
  "parse_dotted_path path = split_char (CHR ''.'') path"

text \<open>\<^verbatim>\<open>str::parse::<usize>\<close>: an optional plus sign and at least one digit, below \<open>2 ^ 64\<close>.\<close>

definition digit_of :: "char \<Rightarrow> nat option" where
  "digit_of c = (let n = of_char c in if 48 \<le> n \<and> n \<le> 57 then Some (n - 48) else None)"

fun digits_value :: "nat \<Rightarrow> string \<Rightarrow> nat option" where
  "digits_value acc [] = Some acc"
| "digits_value acc (c # cs) =
     (case digit_of c of None \<Rightarrow> None | Some d \<Rightarrow> digits_value (10 * acc + d) cs)"

definition parse_usize :: "string \<Rightarrow> nat option" where
  "parse_usize s =
     (let body = (case s of CHR ''+'' # cs \<Rightarrow> cs | _ \<Rightarrow> s) in
      if body = [] then None
      else case digits_value 0 body of
             None \<Rightarrow> None
           | Some n \<Rightarrow> if n < 2 ^ 64 then Some n else None)"

fun get_at :: "ConfigValue \<Rightarrow> string list \<Rightarrow> ConfigValue option" where
  "get_at root [] = Some root"
| "get_at root (s # ss) =
     (case root of
        Object m \<Rightarrow> (case im_get m s of None \<Rightarrow> None | Some v \<Rightarrow> get_at v ss)
      | Array xs \<Rightarrow>
          (case parse_usize s of
             None \<Rightarrow> None
           | Some i \<Rightarrow> if i < length xs then get_at (xs ! i) ss else None)
      | _ \<Rightarrow> None)"

fun replace_at :: "ConfigValue \<Rightarrow> string list \<Rightarrow> ConfigValue \<Rightarrow> ConfigValue option" where
  "replace_at root [] v = Some v"
| "replace_at root (s # ss) v =
     (case root of
        Object m \<Rightarrow>
          (case im_get m s of
             None \<Rightarrow> None
           | Some current \<Rightarrow>
               (case replace_at current ss v of
                  None \<Rightarrow> None | Some r \<Rightarrow> Some (Object (im_insert s r m))))
      | Array xs \<Rightarrow>
          (case parse_usize s of
             None \<Rightarrow> None
           | Some i \<Rightarrow>
               if i < length xs then
                 (case replace_at (xs ! i) ss v of
                    None \<Rightarrow> None | Some r \<Rightarrow> Some (Array (xs[i := r])))
               else None)
      | _ \<Rightarrow> None)"

fun remove_at :: "ConfigValue \<Rightarrow> string list \<Rightarrow> ConfigValue option" where
  "remove_at root [] = None"
| "remove_at root (s # ss) =
     (case root of
        Object m \<Rightarrow>
          (case im_get m s of
             None \<Rightarrow> None
           | Some current \<Rightarrow>
               if ss = [] then Some (Object (im_shift_remove s m))
               else (case remove_at current ss of
                       None \<Rightarrow> None | Some r \<Rightarrow> Some (Object (im_insert s r m))))
      | Array xs \<Rightarrow>
          (case parse_usize s of
             None \<Rightarrow> None
           | Some i \<Rightarrow>
               if length xs \<le> i then None
               else if ss = [] then Some (Array (remove_nth i xs))
               else (case remove_at (xs ! i) ss of
                       None \<Rightarrow> None | Some r \<Rightarrow> Some (Array (xs[i := r]))))
      | _ \<Rightarrow> None)"

fun deep_merge_value :: "ConfigValue option \<Rightarrow> ConfigValue \<Rightarrow> ConfigValue"
  and deep_merge_entries :: "ConfigObject \<Rightarrow> (string \<times> ConfigValue) list \<Rightarrow> ConfigObject" where
  "deep_merge_value existing data =
     (case (existing, data) of
        (Some (Object current), Object incoming) \<Rightarrow> Object (deep_merge_entries current incoming)
      | _ \<Rightarrow> data)"
| "deep_merge_entries merged [] = merged"
| "deep_merge_entries merged ((k, v) # kvs) =
     deep_merge_entries (im_insert k (deep_merge_value (im_get merged k) v) merged) kvs"

declare deep_merge_value.simps [simp del]


section \<open>Lemmas on objects\<close>

lemma im_insert_same: "im_get m k = Some v \<Longrightarrow> im_insert k v m = m"
  by (induction m) (auto split: if_splits)

lemma im_insert_twice [simp]: "im_insert k w (im_insert k v m) = im_insert k w m"
  by (induction m) auto

lemma im_collect_distinct: "distinct (map fst kvs) \<Longrightarrow> im_collect kvs = kvs"
proof -
  have "fold (\<lambda>(k, v). im_insert k v) kvs m = m @ kvs" if "distinct (map fst (m @ kvs))" for m
    using that
  proof (induction kvs arbitrary: m)
    case (Cons kv kvs)
    obtain k v where kv: "kv = (k, v)" by (cases kv)
    with Cons.prems have "im_get m k = None" by (auto simp: map_of_eq_None_iff)
    then have "im_insert k v m = m @ [(k, v)]" by (rule im_keys_insert_vacant)
    with Cons kv show ?case by simp
  qed simp
  from this [of "[]"] show "distinct (map fst kvs) \<Longrightarrow> ?thesis" by (simp add: im_collect_def)
qed

lemma distinct_im_insert: "distinct (map fst m) \<Longrightarrow> distinct (map fst (im_insert k v m))"
  by (rule distinct_update)

lemma distinct_im_collect: "distinct (map fst (im_collect kvs))"
proof -
  have "distinct (map fst (fold (\<lambda>(k, v). im_insert k v) kvs m))" if "distinct (map fst m)" for m
    using that by (induction kvs arbitrary: m) (auto simp: distinct_im_insert)
  then show ?thesis by (simp add: im_collect_def)
qed

lemma set_im_insert: "set (im_insert k v m) \<subseteq> insert (k, v) (set m)"
  by (induction m) auto

lemma set_im_collect: "set (im_collect kvs) \<subseteq> set kvs"
proof -
  have "set (fold (\<lambda>(k, v). im_insert k v) kvs m) \<subseteq> set m \<union> set kvs" for m
  proof (induction kvs arbitrary: m)
    case (Cons kv kvs)
    obtain k v where kv: "kv = (k, v)" by (cases kv)
    from Cons.IH [of "im_insert k v m"] set_im_insert [of k v m] kv show ?case by auto
  qed simp
  from this [of "[]"] show ?thesis by (simp add: im_collect_def)
qed

lemma value_wf_get: "value_wf (Object m) \<Longrightarrow> im_get m k = Some v \<Longrightarrow> value_wf v"
  by (auto simp: list_all_iff dest: map_of_SomeD)

lemma value_wf_insert: "value_wf (Object m) \<Longrightarrow> value_wf v \<Longrightarrow> value_wf (Object (im_insert k v m))"
  using set_im_insert [of k v m] by (auto simp: list_all_iff distinct_im_insert)

lemma value_wf_delete: "value_wf (Object m) \<Longrightarrow> value_wf (Object (im_shift_remove k m))"
  by (auto simp: list_all_iff AList.delete_eq intro: im_keys_filter_distinct)

lemma value_wf_collect: "\<forall>(k, v) \<in> set kvs. value_wf v \<Longrightarrow> value_wf (Object (im_collect kvs))"
  using set_im_collect [of kvs] by (fastforce simp: list_all_iff distinct_im_collect)

lemma value_wf_update:
  "value_wf (Array xs) \<Longrightarrow> value_wf v \<Longrightarrow> value_wf (Array (xs[i := v]))"
  using set_update_subset_insert [of xs i v] by (auto simp: list_all_iff)

lemma value_wf_remove_nth: "value_wf (Array xs) \<Longrightarrow> value_wf (Array (remove_nth i xs))"
  by (auto simp: list_all_iff remove_nth_def dest: in_set_takeD in_set_dropD)

lemma value_wf_nth: "value_wf (Array xs) \<Longrightarrow> i < length xs \<Longrightarrow> value_wf (xs ! i)"
  by (simp add: list_all_iff)

lemmas value_wf_intros = value_wf_insert value_wf_delete value_wf_collect value_wf_update
  value_wf_remove_nth

lemma value_wf_obj_get: "value_wf v \<Longrightarrow> obj_get v k = Some w \<Longrightarrow> value_wf w"
  by (cases v) (auto simp: obj_get_def list_all_iff dest: map_of_SomeD)

lemma value_wf_obj_insert:
  assumes "value_wf v" and "value_wf w"
  shows "value_wf (obj_insert v k w)"
proof -
  have "value_wf (Object (case as_object_arc v of Some m \<Rightarrow> m | None \<Rightarrow> []))"
    using assms(1) by (cases v) auto
  then show ?thesis unfolding obj_insert_def using assms(2) by (rule value_wf_insert)
qed

lemma obj_get_insert [simp]:
  "obj_get (obj_insert v k w) k' = (if k' = k then Some w else obj_get v k')"
  by (cases v) (auto simp: obj_get_def obj_insert_def im_get_insert)

section \<open>Paths obey the laws of a lens\<close>

text \<open>
  A partial lens: a look-up and a replacement that succeed on the same paths and agree with each
  other. The executor edits documents only by looking up a path, computing, and putting back.
\<close>

locale path_lens =
  fixes look :: "'v \<Rightarrow> 'p \<Rightarrow> 'v option"
    and put :: "'v \<Rightarrow> 'p \<Rightarrow> 'v \<Rightarrow> 'v option"
  assumes put_defined: "(put r p v = None) = (look r p = None)"
    and look_put: "put r p v = Some r' \<Longrightarrow> look r' p = Some v"
    and put_look: "look r p = Some v \<Longrightarrow> put r p v = Some r"
    and put_put: "put r p v = Some r' \<Longrightarrow> put r' p w = put r p w"
begin

text \<open>Editing in place: what the path holds afterwards, and two edits in a row.\<close>

lemma edit_look:
  assumes "look r p = Some x"
  shows "\<exists>r'. put r p (f x) = Some r' \<and> look r' p = Some (f x)"
  using assms put_defined [of r p "f x"] look_put [of r p "f x"] by auto

lemma edit_edit:
  assumes "look r p = Some x" and "put r p (f x) = Some r'"
  shows "look r' p = Some (f x) \<and> put r' p (g (f x)) = put r p (g (f x))"
  using assms look_put put_put by blast

end


lemma replace_at_defined: "(replace_at r p v = None) = (get_at r p = None)"
proof (induction p arbitrary: r)
  case (Cons s ss)
  have "(case replace_at x ss v of None \<Rightarrow> None | Some y \<Rightarrow> Some (f y)) = None \<longleftrightarrow> get_at x ss = None"
    for x and f :: "ConfigValue \<Rightarrow> ConfigValue"
    using Cons [of x] by (auto split: option.splits)
  then show ?case by (cases r) (auto split: option.splits)
qed simp

lemma get_replace_at: "replace_at r p v = Some r' \<Longrightarrow> get_at r' p = Some v"
proof (induction p arbitrary: r r')
  case (Cons s ss)
  then show ?case by (cases r) (auto simp: im_get_insert split: option.splits if_splits)
qed auto

lemma replace_get_at: "get_at r p = Some v \<Longrightarrow> replace_at r p v = Some r"
proof (induction p arbitrary: r)
  case (Cons s ss)
  then show ?case by (cases r) (auto simp: im_insert_same split: option.splits if_splits)
qed auto

lemma replace_replace_at: "replace_at r p v = Some r' \<Longrightarrow> replace_at r' p w = replace_at r p w"
proof (induction p arbitrary: r r')
  case (Cons s ss)
  then show ?case by (cases r) (auto simp: im_get_insert split: option.splits if_splits)
qed auto

interpretation dotted: path_lens get_at replace_at
  by unfold_locales
    (auto simp: replace_at_defined dest: get_replace_at replace_get_at replace_replace_at)

text \<open>Two paths part at a segment that names neither the same key nor the same position (\<open>1\<close>, \<open>01\<close>
  and \<open>+1\<close> are one position of an array).\<close>

fun diverge :: "string list \<Rightarrow> string list \<Rightarrow> bool" where
  "diverge (s # ss) (t # ts) =
     (if s = t then diverge ss ts else parse_usize s = None \<or> parse_usize s \<noteq> parse_usize t)"
| "diverge _ _ = False"

lemma replace_at_frame:
  "replace_at r p v = Some r' \<Longrightarrow> diverge p q \<Longrightarrow> get_at r' q = get_at r q"
proof (induction p q arbitrary: r r' rule: diverge.induct)
  case (1 s ss t ts)
  show ?case
  proof (cases r)
    case (Array xs)
    with 1 show ?thesis
      by (cases "s = t") (auto simp: nth_list_update split: option.splits if_splits)
  next
    case (Object m)
    with 1 show ?thesis
      by (cases "s = t") (auto simp: im_get_insert split: option.splits if_splits)
  qed (use 1 in auto)
qed auto

lemma value_wf_get_at: "value_wf r \<Longrightarrow> get_at r p = Some v \<Longrightarrow> value_wf v"
proof (induction p arbitrary: r)
  case (Cons s ss)
  then show ?case
    by (cases r) (auto simp del: value_wf.simps split: option.splits if_splits
        dest: value_wf_get value_wf_nth)
qed simp

lemma value_wf_replace_at:
  "replace_at r p v = Some r' \<Longrightarrow> value_wf r \<Longrightarrow> value_wf v \<Longrightarrow> value_wf r'"
proof (induction p arbitrary: r r')
  case (Cons s ss)
  then show ?case
    by (cases r) (auto simp del: value_wf.simps split: option.splits if_splits
        intro!: value_wf_insert value_wf_update dest: value_wf_get value_wf_nth)
qed simp

lemma value_wf_remove_at: "remove_at r p = Some r' \<Longrightarrow> value_wf r \<Longrightarrow> value_wf r'"
proof (induction p arbitrary: r r')
  case (Cons s ss)
  then show ?case
    by (cases r) (auto simp del: value_wf.simps simp: not_le split: option.splits if_splits
        intro!: value_wf_insert value_wf_update value_wf_delete value_wf_remove_nth
        dest: value_wf_get value_wf_nth)
qed simp

section \<open>Lemmas on deep merging\<close>

lemma deep_merge_objects [simp]:
  "deep_merge_value (Some (Object a)) (Object b) = Object (deep_merge_entries a b)"
  "deep_merge_value None d = d"
  by (simp_all add: deep_merge_value.simps)

lemma deep_merge_replace:
  "as_object_arc d = None \<or> (\<forall>m. e \<noteq> Some (Object m)) \<Longrightarrow> deep_merge_value e d = d"
  by (auto simp: deep_merge_value.simps split: option.splits ConfigValue.splits)

lemma deep_merge_entries_get:
  "distinct (map fst kvs) \<Longrightarrow> im_get (deep_merge_entries m kvs) k =
     (case im_get kvs k of None \<Rightarrow> im_get m k | Some v \<Rightarrow> Some (deep_merge_value (im_get m k) v))"
proof (induction kvs arbitrary: m)
  case (Cons kv kvs)
  obtain k' v where kv: "kv = (k', v)" by (cases kv)
  have "im_get kvs k' = None" using Cons.prems kv by (simp add: map_of_eq_None_iff)
  with Cons kv show ?case by (auto simp: im_get_insert split: option.splits)
qed simp

lemma deep_merge_entries_keys:
  "distinct (map fst kvs) \<Longrightarrow>
   im_keys (deep_merge_entries m kvs) = im_keys m @ filter (\<lambda>k. k \<notin> set (im_keys m)) (im_keys kvs)"
proof (induction kvs arbitrary: m)
  case (Cons kv kvs)
  obtain k v where kv: "kv = (k, v)" by (cases kv)
  show ?case
  proof (cases "im_get m k")
    case None
    then have ins: "im_insert k w m = m @ [(k, w)]" for w by (rule im_keys_insert_vacant)
    have "k \<notin> set (im_keys m)" using None im_get_in_keys [of m k] by simp
    moreover have "filter (\<lambda>x. x \<noteq> k \<and> x \<notin> set (im_keys m)) (im_keys kvs) =
        filter (\<lambda>x. x \<notin> set (im_keys m)) (im_keys kvs)"
      using Cons.prems kv by (intro filter_cong) auto
    ultimately show ?thesis using Cons kv ins by simp
  next
    case (Some x)
    then have "k \<in> set (im_keys m)" using im_get_in_keys [of m k] by simp
    moreover have "im_keys (im_insert k w m) = im_keys m" for w
      using Some by (intro im_keys_insert_present) simp
    moreover from this have "set (im_keys (im_insert k w m)) = set (im_keys m)" for w by simp
    ultimately show ?thesis using Cons kv by (simp del: set_map)
  qed
qed simp

lemma deep_merge_entries_fixed:
  "(\<And>k v. (k, v) \<in> set kvs \<Longrightarrow> \<exists>y. im_get m k = Some y \<and> deep_merge_value (Some y) v = y) \<Longrightarrow>
   deep_merge_entries m kvs = m"
proof (induction kvs)
  case (Cons kv kvs)
  obtain k v where kv: "kv = (k, v)" by (cases kv)
  obtain y where "im_get m k = Some y" "deep_merge_value (Some y) v = y"
    using Cons.prems [of k v] kv by auto
  then have "deep_merge_entries m (kv # kvs) = deep_merge_entries m kvs"
    by (simp add: kv im_insert_same)
  with Cons show ?case by auto
qed simp


lemma deep_merge_self:
  "value_wf d \<Longrightarrow> deep_merge_value (Some d) d = d"
proof (induction d)
  case (Object m)
  have "deep_merge_entries m m = m"
  proof (rule deep_merge_entries_fixed)
    fix k v assume kv: "(k, v) \<in> set m"
    then have "im_get m k = Some v" using Object.prems by simp
    moreover have "value_wf v" using Object.prems kv by (auto simp: list_all_iff)
    ultimately show "\<exists>y. im_get m k = Some y \<and> deep_merge_value (Some y) v = y"
      using Object.IH [OF kv, of v] by simp
  qed
  then show ?case by simp
qed (simp_all add: deep_merge_replace)

lemma deep_merge_again:
  "value_wf d \<Longrightarrow> deep_merge_value (Some (deep_merge_value e d)) d = deep_merge_value e d"
proof (induction d arbitrary: e)
  case (Object b)
  show ?case
  proof (cases "\<exists>a. e = Some (Object a)")
    case True
    then obtain a where e: "e = Some (Object a)" by blast
    have "deep_merge_entries (deep_merge_entries a b) b = deep_merge_entries a b"
    proof (rule deep_merge_entries_fixed)
      fix k v assume kv: "(k, v) \<in> set b"
      have d: "distinct (map fst b)" using Object.prems by simp
      with kv have "im_get (deep_merge_entries a b) k = Some (deep_merge_value (im_get a k) v)"
        by (simp add: deep_merge_entries_get)
      moreover have "value_wf v" using Object.prems kv by (auto simp: list_all_iff)
      ultimately show "\<exists>y. im_get (deep_merge_entries a b) k = Some y \<and> deep_merge_value (Some y) v = y"
        using Object.IH [OF kv, of v] by simp
    qed
    then show ?thesis by (simp add: e)
  next
    case False
    then have "deep_merge_value e (Object b) = Object b" by (intro deep_merge_replace) auto
    with deep_merge_self [OF Object.prems] show ?thesis by simp
  qed
qed (simp_all add: deep_merge_replace)

lemma value_wf_deep_merge:
  "value_wf d \<Longrightarrow> (\<And>x. e = Some x \<Longrightarrow> value_wf x) \<Longrightarrow> value_wf (deep_merge_value e d)"
proof (induction d arbitrary: e)
  case (Object b)
  show ?case
  proof (cases "\<exists>a. e = Some (Object a)")
    case True
    then obtain a where e: "e = Some (Object a)" by blast
    have "value_wf (Object (deep_merge_entries m kvs))"
      if "value_wf (Object m)" "set kvs \<subseteq> set b" "\<forall>kv \<in> set kvs. value_wf (snd kv)" for m kvs
      using that
    proof (induction kvs arbitrary: m)
      case (Cons kv kvs)
      obtain k v where kv: "kv = (k, v)" by (cases kv)
      have "value_wf (deep_merge_value (im_get m k) v)"
        using Cons.prems kv by (intro Object.IH [of "(k, v)"]) (auto dest: value_wf_get simp del: value_wf.simps)
      with Cons.prems have "value_wf (Object (im_insert k (deep_merge_value (im_get m k) v) m))"
        by (intro value_wf_insert)
      with Cons kv show ?case by (simp del: value_wf.simps)
    qed simp
    from this [of a b] Object.prems e show ?thesis by (auto simp: list_all_iff)
  next
    case False
    then have "deep_merge_value e (Object b) = Object b" by (intro deep_merge_replace) auto
    with Object.prems show ?thesis by simp
  qed
qed (simp_all add: deep_merge_replace)

section \<open>Properties of values\<close>

text \<open>Replacing at a dotted path behaves like assignment. It succeeds exactly on paths that exist (it
  never creates any), the path then holds the new value, putting back what was there changes nothing,
  the last of two replacements wins, every path that parts from it keeps its value, and no object
  gets a key twice.\<close>

theorem replace_at_assignment:
  "((\<exists>r'. replace_at r p v = Some r') = (\<exists>x. get_at r p = Some x)) \<and>
   (\<forall>r'. replace_at r p v = Some r' \<longrightarrow>
      get_at r' p = Some v \<and> replace_at r' p w = replace_at r p w \<and>
      (\<forall>q. diverge p q \<longrightarrow> get_at r' q = get_at r q) \<and>
      (value_wf r \<and> value_wf v \<longrightarrow> value_wf r')) \<and>
   (\<forall>x. get_at r p = Some x \<longrightarrow> replace_at r p x = Some r)"
proof (intro conjI allI impI)
  show "(\<exists>r'. replace_at r p v = Some r') = (\<exists>x. get_at r p = Some x)"
    using dotted.put_defined [of r p v] by (metis not_None_eq)
  fix r' assume r': "replace_at r p v = Some r'"
  then show "get_at r' p = Some v" by (rule dotted.look_put)
  from r' show "replace_at r' p w = replace_at r p w" by (rule dotted.put_put)
  show "get_at r' q = get_at r q" if "diverge p q" for q using r' that by (rule replace_at_frame)
  show "value_wf r'" if "value_wf r \<and> value_wf v" using value_wf_replace_at [OF r'] that by blast
next
  fix x assume "get_at r p = Some x"
  then show "replace_at r p x = Some r" by (rule dotted.put_look)
qed

definition demo_doc :: ConfigValue where
  "demo_doc =
     Object [(''dns'', Object [(''enable'', Bool True), (''servers'', Array [String ''a'', String ''b''])]),
             (''mode'', String ''rule'')]"

text \<open>Deep merging. Merging one object into another keeps the first one's keys in place and appends the
  new ones in order; a key of the incoming object holds the merge of both values, every other key
  keeps its value; anything that is not an object on both sides is replaced as a whole; merging the
  same data again changes nothing; and no object gets a key twice.\<close>

theorem deep_merge_spec:
  assumes "value_wf (Object b)"
  shows "deep_merge_value (Some (Object a)) (Object b) = Object (deep_merge_entries a b) \<and>
    im_keys (deep_merge_entries a b) = im_keys a @ filter (\<lambda>k. k \<notin> set (im_keys a)) (im_keys b) \<and>
    (\<forall>k. im_get (deep_merge_entries a b) k =
       (case im_get b k of None \<Rightarrow> im_get a k | Some v \<Rightarrow> Some (deep_merge_value (im_get a k) v))) \<and>
    deep_merge_entries (deep_merge_entries a b) b = deep_merge_entries a b \<and>
    (value_wf (Object a) \<longrightarrow> value_wf (Object (deep_merge_entries a b))) \<and>
    (\<forall>e d. as_object_arc d = None \<or> (\<forall>m. e \<noteq> Some (Object m)) \<longrightarrow> deep_merge_value e d = d)"
  using assms deep_merge_entries_keys [of b a] deep_merge_entries_get [of b a]
    deep_merge_again [OF assms, of "Some (Object a)"] value_wf_deep_merge [OF assms, of "Some (Object a)"]
  by (auto simp: deep_merge_replace)

text \<open>Converting a value to JSON and back is the identity, key order included.\<close>

theorem json_roundtrip:
  assumes "value_wf v"
  shows "from_json_value (to_json v) = v"
  using assms
proof (induction v)
  case (Array xs)
  then show ?case by (simp add: list_all_iff map_idI)
next
  case (Object m)
  have dist: "distinct (map fst (map (\<lambda>(k, v). (k, f v)) m))" for f :: "ConfigValue \<Rightarrow> 'z"
    using Object.prems by (simp add: comp_def split_def)
  have inner: "map (\<lambda>(k, v). (k, from_json_value (to_json v))) m = m"
    using Object by (intro map_idI) (auto simp: list_all_iff)
  have "from_json_value (to_json (Object m)) =
      Object (im_collect (map (\<lambda>(k, v). (k, from_json_value v)) (map (\<lambda>(k, v). (k, to_json v)) m)))"
    using im_collect_distinct [OF dist [of to_json]] by simp
  also have "map (\<lambda>(k, v). (k, from_json_value v)) (map (\<lambda>(k, v). (k, to_json v)) m) = m"
    using inner by (simp add: comp_def split_def)
  finally show ?case using Object.prems im_collect_distinct [of m] by simp
qed simp_all


text \<open>Reading along a typed path, and the segment an error is about.\<close>

fun get_path :: "ConfigValue \<Rightarrow> PathSegment list \<Rightarrow> ConfigValue option" where
  "get_path v [] = Some v"
| "get_path v (Key k # p) =
     (case v of Object m \<Rightarrow> (case im_get m k of None \<Rightarrow> None | Some w \<Rightarrow> get_path w p) | _ \<Rightarrow> None)"
| "get_path v (Index i # p) =
     (case v of Array xs \<Rightarrow> if i < length xs then get_path (xs ! i) p else None | _ \<Rightarrow> None)"

fun error_segment :: "ValuePathError \<Rightarrow> nat option" where
  "error_segment (ExpectedObject n) = Some n"
| "error_segment (ExpectedArray n) = Some n"
| "error_segment (MissingKey n k) = Some n"
| "error_segment (IndexOutOfBounds n i l) = Some n"
| "error_segment RemoveRoot = None"

text \<open>The path breaks at segment \<open>n\<close>: everything before it exists, it does not.\<close>

definition breaks_at :: "ConfigValue \<Rightarrow> PathSegment list \<Rightarrow> nat \<Rightarrow> bool" where
  "breaks_at v p n =
     (n < length p \<and> get_path v (take n p) \<noteq> None \<and> get_path v (take (Suc n) p) = None)"

lemma breaks_at_0: "breaks_at v (s # p) 0 = (get_path v [s] = None)"
  by (simp add: breaks_at_def)

lemma breaks_at_Key:
  "im_get m k = Some w \<Longrightarrow> breaks_at (Object m) (Key k # p) (Suc n) = breaks_at w p n"
  by (simp add: breaks_at_def)

lemma breaks_at_Index:
  "i < length xs \<Longrightarrow> breaks_at (Array xs) (Index i # p) (Suc n) = breaks_at (xs ! i) p n"
  by (simp add: breaks_at_def)

lemma set_path_at_Inr: "set_path_at v p x d = Inr v' \<Longrightarrow> get_path v' p = Some x"
proof (induction p arbitrary: v v' d)
  case (Cons s p)
  then show ?case
    by (cases s; cases v) (auto simp: im_get_insert split: if_splits option.splits sum.splits)
qed simp

lemma set_path_at_Inl:
  "set_path_at v p x d = Inl e \<Longrightarrow> \<exists>n. error_segment e = Some (d + n) \<and> breaks_at v p n"
proof (induction p arbitrary: v d)
  case (Cons s p)
  show ?case
  proof (cases "breaks_at v (s # p) 0")
    case True
    with Cons.prems show ?thesis
      by (intro exI [of _ 0], cases s; cases v) (auto simp: breaks_at_0 split: if_splits option.splits sum.splits)
  next
    case False
    then consider m k w where "s = Key k" "v = Object m" "im_get m k = Some w"
      | xs i where "s = Index i" "v = Array xs" "i < length xs"
      by (cases s; cases v) (auto simp: breaks_at_0 split: if_splits option.splits)
    then show ?thesis
    proof cases
      case 1
      with Cons.prems have "set_path_at w p x (d + 1) = Inl e" by (auto split: if_splits sum.splits)
      from Cons.IH [OF this] obtain n where "error_segment e = Some (d + 1 + n)" "breaks_at w p n" by auto
      with 1 show ?thesis by (intro exI [of _ "Suc n"]) (simp add: breaks_at_Key)
    next
      case 2
      with Cons.prems have "set_path_at (xs ! i) p x (d + 1) = Inl e" by (auto split: if_splits sum.splits)
      from Cons.IH [OF this] obtain n where "error_segment e = Some (d + 1 + n)" "breaks_at (xs ! i) p n" by auto
      with 2 show ?thesis by (intro exI [of _ "Suc n"]) (simp add: breaks_at_Index)
    qed
  qed
qed simp

lemma remove_path_at_Inl:
  "p \<noteq> [] \<Longrightarrow> remove_path_at v p d = Inl e \<Longrightarrow> \<exists>n. error_segment e = Some (d + n) \<and> breaks_at v p n"
proof (induction p arbitrary: v d)
  case (Cons s p)
  show ?case
  proof (cases "breaks_at v (s # p) 0")
    case True
    with Cons.prems show ?thesis
      by (intro exI [of _ 0], cases s; cases v) (auto simp: breaks_at_0 split: if_splits option.splits sum.splits)
  next
    case False
    then consider m k w where "s = Key k" "v = Object m" "im_get m k = Some w"
      | xs i where "s = Index i" "v = Array xs" "i < length xs"
      by (cases s; cases v) (auto simp: breaks_at_0 split: if_splits option.splits)
    then show ?thesis
    proof cases
      case 1
      with Cons.prems have "p \<noteq> []" "remove_path_at w p (d + 1) = Inl e" by (auto split: if_splits sum.splits)
      from Cons.IH [OF this] obtain n where "error_segment e = Some (d + 1 + n)" "breaks_at w p n" by auto
      with 1 show ?thesis by (intro exI [of _ "Suc n"]) (simp add: breaks_at_Key)
    next
      case 2
      with Cons.prems have "p \<noteq> []" "remove_path_at (xs ! i) p (d + 1) = Inl e"
        by (auto split: if_splits sum.splits)
      from Cons.IH [OF this] obtain n where "error_segment e = Some (d + 1 + n)" "breaks_at (xs ! i) p n" by auto
      with 2 show ?thesis by (intro exI [of _ "Suc n"]) (simp add: breaks_at_Index)
    qed
  qed
qed simp

text \<open>Typed path edits report precisely. A successful \<^verbatim>\<open>set_path\<close> leaves the value readable at the
  path; when \<^verbatim>\<open>set_path\<close> or \<^verbatim>\<open>remove_path\<close> fails, the segment the error names is the first one that does
  not exist; only removing the root is refused without a segment.\<close>

theorem typed_path_edits:
  "(\<forall>v'. set_path v p x = Inr v' \<longrightarrow> get_path v' p = Some x) \<and>
   (\<forall>e. set_path v p x = Inl e \<longrightarrow> (\<exists>n. error_segment e = Some n \<and> breaks_at v p n)) \<and>
   (\<forall>e. remove_path v p = Inl e \<longrightarrow>
      (p = [] \<and> e = RemoveRoot) \<or> (\<exists>n. error_segment e = Some n \<and> breaks_at v p n))"
  using set_path_at_Inr [of v p x 0] set_path_at_Inl [of v p x 0] remove_path_at_Inl [of p v 0]
  by (auto simp: set_path_def remove_path_def)

section \<open>Reading YAML\<close>

text \<open>The documents the conversion can represent: string keys only, no tags, finite numbers.\<close>

fun yaml_representable :: "YamlValue \<Rightarrow> bool" where
  "yaml_representable (YNumber (YFloat (NonFinite s))) = False"
| "yaml_representable (YSequence ys) = list_all yaml_representable ys"
| "yaml_representable (YMapping kvs) =
     list_all (\<lambda>kv. (\<exists>k. fst kv = YString k) \<and> yaml_representable (snd kv)) kvs"
| "yaml_representable (YTagged t v) = False"
| "yaml_representable _ = True"

lemma result_map_Inr_iff: "(\<exists>ys. result_map f xs = Inr ys) = (\<forall>x \<in> set xs. \<exists>y. f x = Inr y)"
  by (induction xs) (auto split: sum.splits)

lemma result_map_Inr_set: "result_map f xs = Inr ys \<Longrightarrow> y \<in> set ys \<Longrightarrow> \<exists>x \<in> set xs. f x = Inr y"
  by (induction xs arbitrary: ys) (auto split: sum.splits)

lemma yaml_entry_Inr:
  "((case a of
       YString k \<Rightarrow> (case r of Inl e \<Rightarrow> Inl e | Inr v \<Rightarrow> Inr (k, v))
     | _ \<Rightarrow> Inl NonStringYamlKey) = Inr (k', w)) = (a = YString k' \<and> r = Inr w)"
  by (cases a; cases r) auto

lemma from_yaml_wf: "from_yaml_value y = Inr v \<Longrightarrow> value_wf v"
proof (induction y arbitrary: v rule: from_yaml_value.induct)
  case (5 ys)
  then obtain xs where "v = Array xs" and xs: "result_map from_yaml_value ys = Inr xs"
    by (auto split: sum.splits)
  have "value_wf x" if "x \<in> set xs" for x
    using result_map_Inr_set [OF xs that] 5(1) by blast
  then show ?case by (simp add: \<open>v = Array xs\<close> list_all_iff)
next
  case (6 kvs)
  from "6.prems" obtain m where m: "v = Object (im_collect m)"
    and rm: "result_map (\<lambda>kv. case fst kv of
         YString k \<Rightarrow> (case from_yaml_value (snd kv) of Inl e \<Rightarrow> Inl e | Inr v \<Rightarrow> Inr (k, v))
       | _ \<Rightarrow> Inl NonStringYamlKey) kvs = Inr m"
    by (auto split: sum.splits)
  have "\<forall>(k, w) \<in> set m. value_wf w"
  proof clarify
    fix k w assume "(k, w) \<in> set m"
    from result_map_Inr_set [OF rm this] obtain kv where kv: "kv \<in> set kvs" "from_yaml_value (snd kv) = Inr w"
      "fst kv = YString k"
      unfolding yaml_entry_Inr by blast
    from "6.IH" [OF kv(1,3) kv(2)] show "value_wf w" .
  qed
  then show ?case unfolding m by (rule value_wf_collect)
qed (auto split: sum.splits)

lemma from_yaml_representable: "(\<exists>v. from_yaml_value y = Inr v) = yaml_representable y"
proof (induction y)
  case (YNumber n)
  then show ?case
  proof (cases n)
    case (YFloat f)
    then show ?thesis by (cases f) (auto simp: YNumber)
  qed auto
next
  case (YSequence ys)
  have "(\<exists>v. from_yaml_value (YSequence ys) = Inr v) = (\<exists>xs. result_map from_yaml_value ys = Inr xs)"
    by (auto split: sum.splits)
  with YSequence show ?case by (simp add: result_map_Inr_iff list_all_iff)
next
  case (YMapping kvs)
  let ?f = "\<lambda>kv. case fst kv of
         YString k \<Rightarrow> (case from_yaml_value (snd kv) of Inl e \<Rightarrow> Inl e | Inr v \<Rightarrow> Inr (k, v))
       | _ \<Rightarrow> Inl NonStringYamlKey"
  have "(\<exists>v. from_yaml_value (YMapping kvs) = Inr v) = (\<exists>xs. result_map ?f kvs = Inr xs)"
    by (auto split: sum.splits)
  moreover have "(\<exists>y. ?f kv = Inr y) = ((\<exists>k. fst kv = YString k) \<and> yaml_representable (snd kv))"
    if "kv \<in> set kvs" for kv
  proof -
    obtain a b where ab: "kv = (a, b)" by (cases kv)
    then have "(\<exists>v. from_yaml_value b = Inr v) = yaml_representable b"
      using YMapping.IH(2) [OF that, of b] by simp
    then show ?thesis by (auto simp: ab split: YamlValue.splits sum.splits)
  qed
  ultimately show ?case by (simp add: result_map_Inr_iff list_all_iff)
qed auto


text \<open>C36: Reading YAML fails exactly on what a configuration value cannot hold (a key that is not a string, a
  tag, a number that is not finite, anywhere in the document), and what it reads never has a key
  twice in one object.\<close>

theorem yaml_conversion_exact:
  "(\<exists>v. from_yaml_value y = Inr v) = yaml_representable y \<and>
   (\<forall>v. from_yaml_value y = Inr v \<longrightarrow> value_wf v)"
  using from_yaml_representable from_yaml_wf by blast

theorem yaml_conversion_exact_witness:
  "from_yaml_value (YMapping [(YString ''a'', YNumber (YPosInt 1)), (YString ''a'', YNull)]) =
     Inr (Object [(''a'', Null)]) \<and> value_wf (Object [(''a'', Null)]) \<and>
   \<not> (\<exists>v. from_yaml_value (YSequence [YMapping [(YBool True, YNull)]]) = Inr v)"
proof -
  have e: "from_yaml_value (YMapping [(YString ''a'', YNumber (YPosInt 1)), (YString ''a'', YNull)]) =
     Inr (Object [(''a'', Null)])"
    by (simp add: im_collect_def)
  have "\<not> yaml_representable (YSequence [YMapping [(YBool True, YNull)]])" by simp
  with e yaml_conversion_exact [of "YSequence [YMapping [(YBool True, YNull)]]"]
    yaml_conversion_exact [of "YMapping [(YString ''a'', YNumber (YPosInt 1)), (YString ''a'', YNull)]"]
  show ?thesis by blast
qed

end
