(* ===== verification/Snapshot_Graph.thy ===== *)
theory Snapshot_Graph
  imports Config_Value Profile_Types
begin

text \<open>
  The record of a pipeline run (\<^verbatim>\<open>runtime/snapshot.rs\<close>): a tree of configurations, one node per pipeline
  step, stored as keyframes and JSON patches against the parent, and its expansion.

  \<^item> The builder's \<^verbatim>\<open>Slab\<close> never loses an entry before the final \<^verbatim>\<open>build\<close>, so it is the list of its
    nodes, and the id of a node is its position.
  \<^item> \<^verbatim>\<open>json_patch::diff\<close> and \<^verbatim>\<open>patch\<close> and the length of a serialized value are the fields of
    \<open>JsonLib\<close>. \<open>patch_law\<close> states what the code relies on: a difference, applied to a document equal to
    its left side, gives a document equal to its right side. Equality is that of \<^verbatim>\<open>serde_json\<close>, which
    ignores the order of keys.
  \<^item> The ratio of a keyframe policy is a 32-bit float, here \<open>ratio_num / 2 ^ ratio_shift\<close>; \<open>to_f32\<close> is the
    rounding of \<^verbatim>\<open>as f32\<close>, so the comparison is the one the code makes.
  \<^item> The depth-first search keeps the nodes it is visiting and those it is done with apart, which
    are the two marks of the code's state map.
\<close>

section \<open>Tags and keys\<close>

datatype ConfigExecutionRole =
    Selected
  | CompositionBase ProfileId
  | CompositionContributor ProfileId u32

datatype BuiltinStepKind = GuardOverrides | WhitelistFieldFilter | Finalizing

datatype OperatorTag =
    FileConfigRoot ProfileId ConfigExecutionRole
  | CompositionRoot ProfileId "ProfileId option"
  | ExtendProxiesStep ProfileId ProfileId u32
  | ScopedTransform ProfileId ConfigExecutionRole ProfileId TransformKind u32
  | GlobalTransform "ProfileId option" ProfileId TransformKind u32
  | BuiltinStep "ProfileId option" BuiltinStepKind
  | BareRoot
  | BuiltinTransformTag "ProfileId option" string u32

datatype SnapshotNodeKey =
    KeyFileRoot ProfileId ConfigExecutionRole
  | KeyCompositionRoot ProfileId
  | KeyExtendProxies ProfileId u32
  | KeyScopedTransform ProfileId ConfigExecutionRole u32
  | KeyGlobalTransform "ProfileId option" u32
  | KeyBuiltin "ProfileId option" BuiltinStepKind
  | KeyBareRoot
  | KeyBuiltinTransform "ProfileId option" u32

fun node_key :: "OperatorTag \<Rightarrow> SnapshotNodeKey" where
  "node_key (FileConfigRoot pid role) = KeyFileRoot pid role"
| "node_key (CompositionRoot pid base) = KeyCompositionRoot pid"
| "node_key (ExtendProxiesStep cid member idx) = KeyExtendProxies cid idx"
| "node_key (ScopedTransform host role tid kind idx) = KeyScopedTransform host role idx"
| "node_key (GlobalTransform sel tid kind idx) = KeyGlobalTransform sel idx"
| "node_key (BuiltinStep sel step) = KeyBuiltin sel step"
| "node_key BareRoot = KeyBareRoot"
| "node_key (BuiltinTransformTag sel name idx) = KeyBuiltinTransform sel idx"

section \<open>Patches\<close>

datatype PatchOperation =
    AddOp string JsonValue
  | RemoveOp string
  | ReplaceOp string JsonValue
  | MoveOp string string
  | CopyOp string string
  | TestOp string JsonValue

type_synonym Patch = "PatchOperation list"

record JsonLib =
  jl_diff :: "JsonValue \<Rightarrow> JsonValue \<Rightarrow> Patch"
  jl_patch :: "JsonValue \<Rightarrow> Patch \<Rightarrow> string + JsonValue"
  jl_patch_len :: "Patch \<Rightarrow> nat"
  jl_value_len :: "JsonValue \<Rightarrow> nat"

fun decode_json_pointer_token :: "string \<Rightarrow> string" where
  "decode_json_pointer_token [] = []"
| "decode_json_pointer_token [c] = [c]"
| "decode_json_pointer_token (c # d # r) =
     (if c = CHR ''~''
      then if d = CHR ''0'' then CHR ''~'' # decode_json_pointer_token r
           else if d = CHR ''1'' then CHR ''/'' # decode_json_pointer_token r
           else CHR ''~'' # d # decode_json_pointer_token r
      else c # decode_json_pointer_token (d # r))"

definition json_pointer_to_dot_path :: "string \<Rightarrow> string" where
  "json_pointer_to_dot_path pointer =
     (if pointer = [] then []
      else let body = (case pointer of c # r \<Rightarrow> if c = CHR ''/'' then r else pointer | [] \<Rightarrow> [])
           in join ''.'' (map decode_json_pointer_token (split_on (CHR ''/'') body)))"

definition insert_pointer_path :: "string \<Rightarrow> string index_set \<Rightarrow> string index_set" where
  "insert_pointer_path pointer acc = is_insert (json_pointer_to_dot_path pointer) acc"

fun insert_operation :: "PatchOperation \<Rightarrow> string index_set \<Rightarrow> string index_set" where
  "insert_operation (AddOp p v) acc = insert_pointer_path p acc"
| "insert_operation (RemoveOp p) acc = insert_pointer_path p acc"
| "insert_operation (ReplaceOp p v) acc = insert_pointer_path p acc"
| "insert_operation (MoveOp f p) acc = insert_pointer_path p (insert_pointer_path f acc)"
| "insert_operation (CopyOp f p) acc = insert_pointer_path p acc"
| "insert_operation (TestOp p v) acc = acc"

definition changed_fields_from_patch :: "Patch \<Rightarrow> string index_set option" where
  "changed_fields_from_patch ps =
     (let acc = fold insert_operation ps [] in if acc = [] then None else Some acc)"

section \<open>Keyframes and deltas\<close>

fun bit_len :: "nat \<Rightarrow> nat" where
  "bit_len n = (if n = 0 then 0 else Suc (bit_len (n div 2)))"

declare bit_len.simps [simp del]

text \<open>Rounding to 24 significant bits, to the nearest and then to the even one.\<close>

definition to_f32 :: "nat \<Rightarrow> nat" where
  "to_f32 n =
     (let s = bit_len n - 24 in
      if s = 0 then n
      else let q = n div 2 ^ s; r = n mod 2 ^ s; h = 2 ^ (s - 1)
           in (if h < r \<or> (r = h \<and> odd q) then q + 1 else q) * 2 ^ s)"

record KeyframePolicy =
  ratio_num :: nat
  ratio_shift :: nat

definition keyframe_policy_default :: KeyframePolicy where
  "keyframe_policy_default = \<lparr>ratio_num = 1, ratio_shift = 1\<rparr>"

datatype SnapshotBaseline = Parent | Independent

datatype SnapshotPayload = Full ConfigValue | Delta Patch

definition encode :: "JsonLib \<Rightarrow> KeyframePolicy \<Rightarrow> ConfigValue \<Rightarrow> ConfigValue \<Rightarrow> SnapshotPayload" where
  "encode lib policy par current =
     (let parent_json = to_json par;
          current_json = to_json current;
          ps = jl_diff lib parent_json current_json;
          patch_len = jl_patch_len lib ps;
          full_len = max (jl_value_len lib current_json) 1
      in if to_f32 patch_len * 2 ^ ratio_shift policy > to_f32 (to_f32 full_len * ratio_num policy)
         then Full current
         else Delta ps)"

section \<open>The builder\<close>

record StoredState =
  ss_payload :: SnapshotPayload
  ss_tag :: OperatorTag
  ss_baseline :: SnapshotBaseline
  ss_next :: "nat list option"

record StoredConfigSnapshotsGraph =
  sg_nodes :: "StoredState list"
  sg_root_id :: nat

record ConfigSnapshot =
  cs_config :: JsonValue
  cs_changed_fields :: "string index_set option"

record ConfigSnapshotState =
  st_snapshot :: ConfigSnapshot
  st_tag :: OperatorTag
  st_key :: SnapshotNodeKey
  st_next :: "nat list option"

record ConfigSnapshotsGraph =
  gr_nodes :: "ConfigSnapshotState list"
  gr_root_id :: nat

datatype SnapshotBuildError =
    MissingRoot nat
  | MissingChild nat nat
  | MultipleParents nat
  | Cycle nat
  | Unreachable "nat list"
  | IdOverflow nat
  | DepthLimitExceeded nat nat
  | IndependentDelta nat
  | RootNotIndependent nat
  | PatchFailed string

record BuilderNode =
  bn_full :: ConfigValue
  bn_state :: StoredState
  bn_parent_id :: "nat option"
  bn_children :: "nat list"

record ConfigSnapshotsBuilder =
  cb_slab :: "BuilderNode list"
  cb_root_id :: nat
  cb_current_id :: nat
  cb_keyframe_policy :: KeyframePolicy

definition new_root_with_keyframe_policy ::
    "ConfigValue \<Rightarrow> OperatorTag \<Rightarrow> KeyframePolicy \<Rightarrow> ConfigSnapshotsBuilder" where
  "new_root_with_keyframe_policy root_value tag policy =
     \<lparr>cb_slab = [\<lparr>bn_full = root_value,
        bn_state = \<lparr>ss_payload = Full root_value, ss_tag = tag, ss_baseline = Independent, ss_next = None\<rparr>,
        bn_parent_id = None, bn_children = []\<rparr>],
      cb_root_id = 0, cb_current_id = 0, cb_keyframe_policy = policy\<rparr>"

definition new_root :: "ConfigValue \<Rightarrow> OperatorTag \<Rightarrow> ConfigSnapshotsBuilder" where
  "new_root root_value tag = new_root_with_keyframe_policy root_value tag keyframe_policy_default"

text \<open>\<^verbatim>\<open>self.slab[p].children.push(c)\<close>\<close>

definition push_child :: "nat \<Rightarrow> nat \<Rightarrow> BuilderNode list \<Rightarrow> BuilderNode list" where
  "push_child p c slab = slab[p := (slab ! p)\<lparr>bn_children := bn_children (slab ! p) @ [c]\<rparr>]"

definition set_parent :: "nat \<Rightarrow> nat \<Rightarrow> BuilderNode list \<Rightarrow> BuilderNode list" where
  "set_parent c p slab = slab[c := (slab ! c)\<lparr>bn_parent_id := Some p\<rparr>]"

definition insert_child ::
    "ConfigSnapshotsBuilder \<Rightarrow> nat \<Rightarrow> OperatorTag \<Rightarrow> ConfigValue \<Rightarrow> SnapshotBaseline \<Rightarrow> SnapshotPayload
     \<Rightarrow> ConfigSnapshotsBuilder \<times> nat" where
  "insert_child b parent_id tag current baseline payload =
     (let nid = length (cb_slab b);
          node = \<lparr>bn_full = current,
            bn_state = \<lparr>ss_payload = payload, ss_tag = tag, ss_baseline = baseline, ss_next = None\<rparr>,
            bn_parent_id = Some parent_id, bn_children = []\<rparr>
      in (b\<lparr>cb_slab := push_child parent_id nid (cb_slab b @ [node])\<rparr>, nid))"

definition push_node ::
    "JsonLib \<Rightarrow> ConfigSnapshotsBuilder \<Rightarrow> OperatorTag \<Rightarrow> ConfigValue
     \<Rightarrow> SnapshotBuildError + ConfigSnapshotsBuilder" where
  "push_node lib b tag v =
     (let parent_id = cb_current_id b in
      if parent_id \<ge> length (cb_slab b) then Inl (MissingRoot parent_id)
      else let payload = encode lib (cb_keyframe_policy b) (bn_full (cb_slab b ! parent_id)) v;
               (b', nid) = insert_child b parent_id tag v Parent payload
           in Inr (b'\<lparr>cb_current_id := nid\<rparr>))"

section \<open>Validation of the builder's tree\<close>

definition children_of :: "BuilderNode list \<Rightarrow> nat list list" where
  "children_of slab = map bn_children slab"

definition edges :: "nat list list \<Rightarrow> (nat \<times> nat) list" where
  "edges ch = concat (map (\<lambda>i. map (Pair i) (ch ! i)) [0..<length ch])"

text \<open>The pass over all children; the state is the list of children seen so far, whose counts are the
  indegrees.\<close>

definition check_edge :: "nat \<Rightarrow> nat \<times> nat \<Rightarrow> nat list \<Rightarrow> SnapshotBuildError + nat list" where
  "check_edge n = (\<lambda>(idx, child) seen.
     if child \<ge> n then Inl (MissingChild idx child)
     else if child = idx then Inl (Cycle idx)
     else if child \<in> set seen then Inl (MultipleParents child)
     else Inr (seen @ [child]))"

function dfs :: "nat list list \<Rightarrow> nat list \<Rightarrow> nat list \<Rightarrow> nat \<Rightarrow> SnapshotBuildError + nat list" where
  "dfs ch visiting done idx =
     (if idx \<in> set visiting then Inl (Cycle idx)
      else if idx \<in> set done \<or> idx \<ge> length ch then Inr done
      else case result_fold (\<lambda>child d. dfs ch (idx # visiting) d child) (ch ! idx) done of
             Inl e \<Rightarrow> Inl e
           | Inr d \<Rightarrow> Inr (idx # d))"
  by pat_completeness auto
termination
  by (relation "measure (\<lambda>(ch, visiting, done, idx). card ({..<length ch} - set visiting))")
    (auto simp del: card_Diff_insert intro!: card_unmarked)

declare dfs.simps [simp del]

definition validate_acyclic :: "nat list list \<Rightarrow> nat list \<Rightarrow> SnapshotBuildError + unit" where
  "validate_acyclic ch node_ids =
     (case result_fold (\<lambda>i d. dfs ch [] d i) node_ids [] of Inl e \<Rightarrow> Inl e | Inr d \<Rightarrow> Inr ())"

function bfs :: "nat list list \<Rightarrow> nat list \<Rightarrow> nat list \<Rightarrow> nat list" where
  "bfs ch reachable [] = reachable"
| "bfs ch reachable (i # queue) =
     (if i \<in> set reachable \<or> i \<ge> length ch then bfs ch reachable queue
      else bfs ch (reachable @ [i]) (queue @ ch ! i))"
  by pat_completeness auto
termination
  by (relation "measures [\<lambda>(ch, reachable, queue). card ({..<length ch} - set reachable),
                          \<lambda>(ch, reachable, queue). length queue]")
    (simp_all add: card_unmarked del: card_Diff_insert)

definition validate_tree :: "nat list list \<Rightarrow> nat \<Rightarrow> SnapshotBuildError + unit" where
  "validate_tree ch root_id =
     (let node_ids = [0..<length ch] in
      if root_id \<notin> set node_ids then Inl (MissingRoot root_id)
      else case result_fold (check_edge (length ch)) (edges ch) [] of
             Inl e \<Rightarrow> Inl e
           | Inr seen \<Rightarrow>
      (case validate_acyclic ch node_ids of
         Inl e \<Rightarrow> Inl e
       | Inr _ \<Rightarrow>
           let roots = filter (\<lambda>i. i \<notin> set seen) node_ids in
           if root_id \<notin> set roots then Inl (MissingRoot root_id)
           else if length roots \<noteq> 1 then Inl (Unreachable (filter (\<lambda>i. i \<noteq> root_id) roots))
           else let reachable = bfs ch [] [root_id] in
                if length reachable \<noteq> length ch
                then Inl (Unreachable (filter (\<lambda>i. i \<notin> set reachable) node_ids))
                else Inr ()))"

section \<open>Grafting a branch\<close>

text \<open>The nodes of a branch arrive under new ids, without links; the links are then copied.\<close>

definition grafted :: "ConfigSnapshotsBuilder \<Rightarrow> nat \<Rightarrow> BuilderNode" where
  "grafted branch old_id =
     (let node = cb_slab branch ! old_id;
          state = (if old_id = cb_root_id branch
                   then (bn_state node)\<lparr>ss_baseline := Independent, ss_payload := Full (bn_full node)\<rparr>
                   else bn_state node)
      in \<lparr>bn_full = bn_full node, bn_state = state, bn_parent_id = None, bn_children = []\<rparr>)"

definition copy_links :: "ConfigSnapshotsBuilder \<Rightarrow> nat \<Rightarrow> nat \<Rightarrow> BuilderNode list \<Rightarrow> BuilderNode list" where
  "copy_links branch offset old_id slab =
     fold (\<lambda>child s. set_parent (offset + child) (offset + old_id) (push_child (offset + old_id) (offset + child) s))
       (bn_children (cb_slab branch ! old_id)) slab"

definition attach_independent_branch ::
    "ConfigSnapshotsBuilder \<Rightarrow> nat \<Rightarrow> ConfigSnapshotsBuilder
     \<Rightarrow> SnapshotBuildError + ConfigSnapshotsBuilder \<times> nat" where
  "attach_independent_branch b parent_id branch =
     (if parent_id \<ge> length (cb_slab b) then Inl (MissingRoot parent_id)
      else case validate_tree (children_of (cb_slab branch)) (cb_root_id branch) of
             Inl e \<Rightarrow> Inl e
           | Inr _ \<Rightarrow>
               let offset = length (cb_slab b);
                   ordered_ids = [0..<length (cb_slab branch)];
                   inserted = cb_slab b @ map (grafted branch) ordered_ids;
                   linked = fold (copy_links branch offset) ordered_ids inserted;
                   branch_root = offset + cb_root_id branch
               in Inr (b\<lparr>cb_slab := set_parent branch_root parent_id (push_child parent_id branch_root linked)\<rparr>,
                       branch_root))"

section \<open>The stored graph\<close>

definition usize_to_idx :: "nat \<Rightarrow> SnapshotBuildError + nat" where
  "usize_to_idx node_id = (if node_id < 2 ^ 32 then Inr node_id else Inl (IdOverflow node_id))"

definition next_of :: "nat list \<Rightarrow> nat list option" where
  "next_of children = (if children = [] then None else Some children)"

definition into_compact_u32_graph ::
    "ConfigSnapshotsBuilder \<Rightarrow> SnapshotBuildError + StoredConfigSnapshotsGraph" where
  "into_compact_u32_graph b =
     (case result_map usize_to_idx [0..<length (cb_slab b)] of
        Inl e \<Rightarrow> Inl e
      | Inr id_map \<Rightarrow>
          if cb_root_id b \<ge> length id_map then Inl (MissingRoot (cb_root_id b))
          else case result_map (\<lambda>old_id.
                 let node = cb_slab b ! old_id in
                 case result_map (\<lambda>child. if child < length id_map then Inr (id_map ! child)
                                          else Inl (MissingChild old_id child)) (bn_children node) of
                   Inl e \<Rightarrow> Inl e
                 | Inr children \<Rightarrow> Inr ((bn_state node)\<lparr>ss_next := next_of children\<rparr>))
               [0..<length (cb_slab b)] of
                 Inl e \<Rightarrow> Inl e
               | Inr nodes \<Rightarrow> Inr \<lparr>sg_nodes = nodes, sg_root_id = id_map ! cb_root_id b\<rparr>)"

definition build_stored :: "ConfigSnapshotsBuilder \<Rightarrow> SnapshotBuildError + StoredConfigSnapshotsGraph" where
  "build_stored b =
     (case validate_tree (children_of (cb_slab b)) (cb_root_id b) of
        Inl e \<Rightarrow> Inl e | Inr _ \<Rightarrow> into_compact_u32_graph b)"

definition MAX_MATERIALIZE_DEPTH :: nat where
  "MAX_MATERIALIZE_DEPTH = 1024"

definition next_ids :: "StoredState \<Rightarrow> nat list" where
  "next_ids s = (case ss_next s of Some cs \<Rightarrow> cs | None \<Rightarrow> [])"

definition is_delta :: "SnapshotPayload \<Rightarrow> bool" where
  "is_delta payload = (case payload of Delta _ \<Rightarrow> True | Full _ \<Rightarrow> False)"

function bfs_depth ::
    "nat list list \<Rightarrow> nat list \<Rightarrow> (nat \<times> nat) list \<Rightarrow> SnapshotBuildError + nat list" where
  "bfs_depth ch reachable [] = Inr reachable"
| "bfs_depth ch reachable ((i, depth) # queue) =
     (if depth > MAX_MATERIALIZE_DEPTH then Inl (DepthLimitExceeded depth MAX_MATERIALIZE_DEPTH)
      else if i \<in> set reachable \<or> i \<ge> length ch then bfs_depth ch reachable queue
      else bfs_depth ch (reachable @ [i]) (queue @ map (\<lambda>c. (c, depth + 1)) (ch ! i)))"
  by pat_completeness auto
termination
  by (relation "measures [\<lambda>(ch, reachable, queue). card ({..<length ch} - set reachable),
                          \<lambda>(ch, reachable, queue). length queue]")
    (simp_all add: card_unmarked del: card_Diff_insert)

definition validate_tree_shape :: "StoredConfigSnapshotsGraph \<Rightarrow> SnapshotBuildError + unit" where
  "validate_tree_shape g =
     (let root = sg_root_id g; nodes = sg_nodes g; n = length nodes; ch = map next_ids nodes in
      if root \<ge> n then Inl (MissingRoot root)
      else if ss_baseline (nodes ! root) \<noteq> Independent then Inl (RootNotIndependent root)
      else case find (\<lambda>i. ss_baseline (nodes ! i) = Independent \<and> is_delta (ss_payload (nodes ! i))) [0..<n] of
             Some i \<Rightarrow> Inl (IndependentDelta i)
           | None \<Rightarrow>
      (case result_fold (check_edge n) (edges ch) [] of
         Inl e \<Rightarrow> Inl e
       | Inr seen \<Rightarrow>
           if root \<in> set seen then Inl (MissingRoot root)
           else case bfs_depth ch [] [(root, 0)] of
                  Inl e \<Rightarrow> Inl e
                | Inr reachable \<Rightarrow>
                    let unreachable = filter (\<lambda>i. i \<notin> set reachable) [0..<n] in
                    if unreachable \<noteq> [] then Inl (Unreachable unreachable) else Inr ()))"

section \<open>Materializing\<close>

definition node_snapshot ::
    "JsonLib \<Rightarrow> nat \<Rightarrow> StoredState \<Rightarrow> JsonValue option \<Rightarrow> SnapshotBuildError + ConfigSnapshot" where
  "node_snapshot lib index state par =
     (case (ss_baseline state, ss_payload state) of
        (Independent, Full v) \<Rightarrow> Inr \<lparr>cs_config = to_json v, cs_changed_fields = None\<rparr>
      | (Independent, Delta ps) \<Rightarrow> Inl (IndependentDelta index)
      | (Parent, Full v) \<Rightarrow>
          let config = to_json v
          in Inr \<lparr>cs_config = config,
                  cs_changed_fields =
                    (case par of
                       None \<Rightarrow> None
                     | Some p \<Rightarrow> changed_fields_from_patch (jl_diff lib p config))\<rparr>
      | (Parent, Delta ps) \<Rightarrow>
          (case par of
             None \<Rightarrow> Inl (MissingRoot index)
           | Some p \<Rightarrow>
               (case jl_patch lib p ps of
                  Inl e \<Rightarrow> Inl (PatchFailed e)
                | Inr config \<Rightarrow>
                    Inr \<lparr>cs_config = config, cs_changed_fields = changed_fields_from_patch ps\<rparr>)))"

text \<open>The returned configuration of a subtree is ignored by every caller, so only the table is passed on.\<close>

function materialize_node ::
    "JsonLib \<Rightarrow> StoredState list \<Rightarrow> nat \<Rightarrow> JsonValue option \<Rightarrow> nat \<Rightarrow> ConfigSnapshotState option list
     \<Rightarrow> SnapshotBuildError + ConfigSnapshotState option list" where
  "materialize_node lib stored nid par depth nodes =
     (if depth > MAX_MATERIALIZE_DEPTH then Inl (DepthLimitExceeded depth MAX_MATERIALIZE_DEPTH)
      else if nid \<ge> length stored then Inl (MissingChild nid nid)
      else let state = stored ! nid in
           case node_snapshot lib nid state par of
             Inl e \<Rightarrow> Inl e
           | Inr snap \<Rightarrow>
               result_fold
                 (\<lambda>child ns. materialize_node lib stored child (Some (cs_config snap)) (depth + 1) ns)
                 (next_ids state)
                 (nodes[nid := Some \<lparr>st_snapshot = snap, st_tag = ss_tag state,
                                    st_key = node_key (ss_tag state), st_next = ss_next state\<rparr>]))"
  by pat_completeness auto
termination
  by (relation "measure (\<lambda>(lib, stored, nid, par, depth, nodes). Suc MAX_MATERIALIZE_DEPTH - depth)") auto

declare materialize_node.simps [simp del]

definition materialize ::
    "JsonLib \<Rightarrow> StoredConfigSnapshotsGraph \<Rightarrow> SnapshotBuildError + ConfigSnapshotsGraph" where
  "materialize lib g =
     (case validate_tree_shape g of
        Inl e \<Rightarrow> Inl e
      | Inr _ \<Rightarrow>
          (case materialize_node lib (sg_nodes g) (sg_root_id g) None 0 (replicate (length (sg_nodes g)) None) of
             Inl e \<Rightarrow> Inl e
           | Inr nodes \<Rightarrow>
               (case result_map (\<lambda>(idx, node). case node of
                                   Some s \<Rightarrow> Inr s | None \<Rightarrow> Inl (Unreachable [idx]))
                       (zip [0..<length nodes] nodes) of
                  Inl e \<Rightarrow> Inl e
                | Inr states \<Rightarrow> Inr \<lparr>gr_nodes = states, gr_root_id = sg_root_id g\<rparr>)))"

definition build_graph :: "JsonLib \<Rightarrow> ConfigSnapshotsBuilder \<Rightarrow> SnapshotBuildError + ConfigSnapshotsGraph" where
  "build_graph lib b = (case build_stored b of Inl e \<Rightarrow> Inl e | Inr g \<Rightarrow> materialize lib g)"

section \<open>Trees of nodes\<close>

text \<open>Node 0 is the root, children come after their parent, and every other node is a child exactly once.\<close>

definition tree :: "nat list list \<Rightarrow> bool" where
  "tree ch = (ch \<noteq> [] \<and> (\<forall>i < length ch. \<forall>c \<in> set (ch ! i). i < c) \<and>
     mset (concat ch) = mset [1..<length ch])"

lemma tree_set: "tree ch \<Longrightarrow> set (concat ch) = {1..<length ch}"
  by (metis tree_def mset_eq_setD set_upt)

lemma tree_distinct: "tree ch \<Longrightarrow> distinct (concat ch)"
  by (metis tree_def mset_eq_imp_distinct_iff distinct_upt)

lemma tree_child: "tree ch \<Longrightarrow> i < length ch \<Longrightarrow> c \<in> set (ch ! i) \<Longrightarrow> i < c \<and> c < length ch"
  using tree_set [of ch] nth_mem [of i ch] by (auto simp: tree_def)

lemma tree_parent:
  assumes "tree ch" and "0 < c" and "c < length ch"
  shows "\<exists>p < length ch. p < c \<and> c \<in> set (ch ! p)"
proof -
  have "c \<in> set (concat ch)" using assms by (simp only: tree_set) simp
  then obtain xs where "xs \<in> set ch" "c \<in> set xs" by auto
  then show ?thesis using tree_child [OF assms(1)] by (metis in_set_conv_nth)
qed

lemma distinct_concat_disjoint:
  "distinct (concat xss) \<Longrightarrow> i < length xss \<Longrightarrow> j < length xss \<Longrightarrow> i \<noteq> j \<Longrightarrow> set (xss ! i) \<inter> set (xss ! j) = {}"
proof (induction xss arbitrary: i j)
  case (Cons xs xss)
  have "xs' \<in> set xss \<Longrightarrow> set xs \<inter> set xs' = {}" for xs' using Cons.prems by auto
  then have away: "k < length xss \<Longrightarrow> set xs \<inter> set (xss ! k) = {}" for k by simp
  have rest: "distinct (concat xss)" using Cons.prems by simp
  show ?case
    using Cons.prems away Cons.IH [OF rest] by (cases i; cases j) (auto simp: Int_commute)
qed simp

lemma tree_parent_unique:
  "tree ch \<Longrightarrow> p < length ch \<Longrightarrow> q < length ch \<Longrightarrow> c \<in> set (ch ! p) \<Longrightarrow> c \<in> set (ch ! q) \<Longrightarrow> p = q"
  using distinct_concat_disjoint [OF tree_distinct, of ch p q] by blast

lemma snd_edges: "map snd (edges ch) = concat ch"
  by (simp add: edges_def map_concat comp_def map_nth)

lemma in_edges: "((i, c) \<in> set (edges ch)) = (i < length ch \<and> c \<in> set (ch ! i))"
  by (auto simp: edges_def)

lemma check_edges_ok:
  "\<forall>(i, c) \<in> set es. c < n \<and> c \<noteq> i \<Longrightarrow> distinct (seen @ map snd es) \<Longrightarrow>
   result_fold (check_edge n) es seen = Inr (seen @ map snd es)"
proof (induction es arbitrary: seen)
  case (Cons e es)
  then show ?case using Cons.IH [of "seen @ [snd e]"] by (cases e) (auto simp: check_edge_def)
qed simp

lemma tree_edges_ok: "tree ch \<Longrightarrow> result_fold (check_edge (length ch)) (edges ch) [] = Inr (concat ch)"
proof -
  assume tree: "tree ch"
  have "\<forall>(i, c) \<in> set (edges ch). c < length ch \<and> c \<noteq> i"
    by (auto simp: in_edges dest: tree_child [OF tree])
  from check_edges_ok [OF this, of "[]"] tree_distinct [OF tree] show ?thesis by (simp add: snd_edges)
qed

lemma dfs_ok:
  assumes "tree ch"
  shows "idx < length ch \<Longrightarrow> \<forall>v \<in> set visiting. v < idx \<Longrightarrow> \<exists>d. dfs ch visiting marked idx = Inr d"
proof (induction "length ch - idx" arbitrary: idx visiting marked rule: less_induct)
  case less
  have "\<exists>d. dfs ch (idx # visiting) m c = Inr d" if "c \<in> set (ch ! idx)" for c m
  proof -
    have "idx < c" "c < length ch" using tree_child [OF assms less.prems(1) that] by auto
    then show ?thesis using less.prems by (intro less.hyps) auto
  qed
  then obtain d where "result_fold (\<lambda>c m. dfs ch (idx # visiting) m c) (ch ! idx) marked = Inr d"
    using result_fold_Inr [of "ch ! idx" "\<lambda>c m. dfs ch (idx # visiting) m c" marked] by blast
  with less.prems show ?case by (subst dfs.simps) auto
qed

lemma validate_acyclic_ok: "tree ch \<Longrightarrow> validate_acyclic ch [0..<length ch] = Inr ()"
  using result_fold_Inr [of "[0..<length ch]" "\<lambda>i d. dfs ch [] d i" "[]"] dfs_ok [of ch _ "[]"]
  by (auto simp: validate_acyclic_def)

lemma bfs_mono: "set reachable \<subseteq> set (bfs ch reachable queue)"
  by (induction ch reachable queue rule: bfs.induct) auto

lemma bfs_bounded: "set reachable \<subseteq> {..<length ch} \<Longrightarrow> set (bfs ch reachable queue) \<subseteq> {..<length ch}"
  by (induction ch reachable queue rule: bfs.induct) auto

lemma bfs_distinct: "distinct reachable \<Longrightarrow> distinct (bfs ch reachable queue)"
  by (induction ch reachable queue rule: bfs.induct) auto

lemma bfs_queue: "i \<in> set queue \<Longrightarrow> i < length ch \<Longrightarrow> i \<in> set (bfs ch reachable queue)"
proof (induction ch reachable queue rule: bfs.induct)
  case (2 ch reachable j queue)
  then show ?case
    using bfs_mono [of reachable ch queue] bfs_mono [of "reachable @ [j]" ch "queue @ ch ! j"]
    by (auto split: if_splits)
qed simp

lemma bfs_closed:
  "\<forall>i \<in> set reachable. i < length ch \<and> set (ch ! i) \<subseteq> set reachable \<union> set queue \<Longrightarrow>
   \<forall>i < length ch. set (ch ! i) \<subseteq> {..<length ch} \<Longrightarrow>
   \<forall>i \<in> set (bfs ch reachable queue). set (ch ! i) \<subseteq> set (bfs ch reachable queue)"
proof (induction ch reachable queue rule: bfs.induct)
  case (2 ch reachable j queue)
  show ?case
  proof (cases "j \<in> set reachable \<or> j \<ge> length ch")
    case False
    then show ?thesis using 2 by (auto simp: subset_iff)
  next
    case True
    have "\<forall>i \<in> set reachable. i < length ch \<and> set (ch ! i) \<subseteq> set reachable \<union> set queue"
    proof (intro ballI conjI subsetI)
      fix i c
      assume i: "i \<in> set reachable"
      then show "i < length ch" using "2.prems"(1) by blast
      assume c: "c \<in> set (ch ! i)"
      then have "c < length ch" using i "2.prems" by blast
      with True c i "2.prems"(1) show "c \<in> set reachable \<union> set queue" by fastforce
    qed
    with True "2.IH"(1) "2.prems"(2) show ?thesis by simp
  qed
qed auto

lemma bfs_tree:
  assumes "tree ch"
  shows "set (bfs ch [] [0]) = {..<length ch}" and "length (bfs ch [] [0]) = length ch"
proof -
  let ?r = "bfs ch [] [0]"
  have closed: "\<forall>i \<in> set ?r. set (ch ! i) \<subseteq> set ?r"
    by (intro bfs_closed) (auto dest: tree_child [OF assms])
  have "i < length ch \<Longrightarrow> i \<in> set ?r" for i
  proof (induction i rule: less_induct)
    case (less i)
    show ?case
    proof (cases "i = 0")
      case True
      then show ?thesis using less.prems by (simp add: bfs_queue del: bfs.simps)
    next
      case False
      then obtain p where "p < length ch" "p < i" "i \<in> set (ch ! p)"
        using tree_parent [OF assms, of i] less.prems by auto
      then show ?thesis using less.IH closed by blast
    qed
  qed
  then show set_r: "set ?r = {..<length ch}" using bfs_bounded [of "[]" ch "[0]"] by auto
  show "length ?r = length ch"
    using distinct_card [OF bfs_distinct [of "[]" ch "[0]"]] set_r by simp
qed

lemma tree_roots: "tree ch \<Longrightarrow> filter (\<lambda>i. i \<notin> set (concat ch)) [0..<length ch] = [0]"
proof -
  assume tree: "tree ch"
  then have "[0..<length ch] = 0 # [1..<length ch]" by (simp add: tree_def upt_conv_Cons)
  then show ?thesis unfolding tree_set [OF tree] by (simp add: filter_empty_conv)
qed

lemma validate_tree_ok: "tree ch \<Longrightarrow> validate_tree ch 0 = Inr ()"
proof -
  assume tree: "tree ch"
  then have "0 \<in> set [0..<length ch]" by (simp add: tree_def)
  with tree show ?thesis
    by (simp add: validate_tree_def Let_def tree_edges_ok validate_acyclic_ok tree_roots bfs_tree
        del: set_concat bfs.simps set_upt)
qed

text \<open>The depth of a node, and the bounded search.\<close>

inductive at_depth :: "nat list list \<Rightarrow> nat \<Rightarrow> nat \<Rightarrow> bool" for ch where
  root: "at_depth ch 0 0"
| child: "at_depth ch i d \<Longrightarrow> i < length ch \<Longrightarrow> c \<in> set (ch ! i) \<Longrightarrow> at_depth ch c (Suc d)"

definition shallow :: "nat list list \<Rightarrow> bool" where
  "shallow ch = (\<forall>i d. at_depth ch i d \<longrightarrow> d \<le> MAX_MATERIALIZE_DEPTH)"

lemma at_depth_le: "at_depth ch i d \<Longrightarrow> tree ch \<Longrightarrow> d \<le> i \<and> i < length ch"
proof (induction rule: at_depth.induct)
  case root
  then show ?case by (simp add: tree_def)
next
  case (child i d c)
  then show ?case using tree_child [of ch i c] by auto
qed

lemma small_shallow: "tree ch \<Longrightarrow> length ch \<le> Suc MAX_MATERIALIZE_DEPTH \<Longrightarrow> shallow ch"
  using at_depth_le by (fastforce simp: shallow_def)

lemma bfs_depth_eq:
  "\<forall>(i, d) \<in> set queue. at_depth ch i d \<Longrightarrow> shallow ch \<Longrightarrow>
   bfs_depth ch reachable queue = Inr (bfs ch reachable (map fst queue))"
proof (induction ch reachable queue rule: bfs_depth.induct)
  case (2 ch reachable i depth queue)
  have "depth \<le> MAX_MATERIALIZE_DEPTH" using "2.prems" by (auto simp: shallow_def)
  moreover have "\<forall>(j, d) \<in> set (queue @ map (\<lambda>c. (c, depth + 1)) (ch ! i)). at_depth ch j d"
    if "i < length ch"
    using "2.prems" that by (auto intro: at_depth.child)
  ultimately show ?case using 2 by (auto simp: comp_def not_le)
qed simp

section \<open>Equality of JSON documents and the contract of patches\<close>

fun json_eq :: "JsonValue \<Rightarrow> JsonValue \<Rightarrow> bool" where
  "json_eq (JArray xs) w = (case w of JArray ys \<Rightarrow> list_all2 json_eq xs ys | _ \<Rightarrow> False)"
| "json_eq (JObject m) w =
     (case w of
        JObject m' \<Rightarrow> length m = length m' \<and>
          list_all (\<lambda>kv. case im_get m' (fst kv) of Some y \<Rightarrow> json_eq (snd kv) y | None \<Rightarrow> False) m
      | _ \<Rightarrow> False)"
| "json_eq JNull w = (w = JNull)"
| "json_eq (JBool b) w = (w = JBool b)"
| "json_eq (JNumber n) w = (w = JNumber n)"
| "json_eq (JString s) w = (w = JString s)"

definition patch_law :: "JsonLib \<Rightarrow> bool" where
  "patch_law lib =
     (\<forall>x y a. value_wf x \<longrightarrow> value_wf y \<longrightarrow> json_eq a (to_json x) \<longrightarrow>
        (\<exists>b. jl_patch lib a (jl_diff lib (to_json x) (to_json y)) = Inr b \<and> json_eq b (to_json y)))"

lemma json_eq_refl: "value_wf v \<Longrightarrow> json_eq (to_json v) (to_json v)"
proof (induction v rule: to_json.induct)
  case (5 xs)
  then show ?case by (simp add: list_all2_map1 list_all2_map2 list_all2_same list_all_iff)
next
  case (6 m)
  let ?j = "map (\<lambda>(k, v). (k, to_json v)) m"
  have d: "distinct (map fst ?j)" using "6.prems" by (simp add: comp_def split_def)
  have get: "im_get ?j k = Some (to_json v)" and eq: "json_eq (to_json v) (to_json v)"
    if "(k, v) \<in> set m" for k v
    using d 6 that by (force intro: map_of_is_SomeI simp: list_all_iff)+
  show ?case using im_collect_distinct [OF d] get eq by (auto simp: list_all_iff)
qed auto

section \<open>What a builder holds\<close>

text \<open>
  Every node is either an independent keyframe or is encoded against its parent: as a keyframe or
  as the difference between the two recorded configurations.
\<close>

definition encoded :: "JsonLib \<Rightarrow> BuilderNode list \<Rightarrow> nat \<Rightarrow> bool" where
  "encoded lib slab i =
     (let v = bn_full (slab ! i); s = bn_state (slab ! i) in
      value_wf v \<and>
      (case ss_payload s of
         Full w \<Rightarrow> w = v
       | Delta ps \<Rightarrow> ss_baseline s = Parent \<and>
           (\<exists>p < length slab. i \<in> set (bn_children (slab ! p)) \<and>
              ps = jl_diff lib (to_json (bn_full (slab ! p))) (to_json v))))"

definition recorded :: "JsonLib \<Rightarrow> ConfigSnapshotsBuilder \<Rightarrow> bool" where
  "recorded lib b =
     (tree (children_of (cb_slab b)) \<and> cb_root_id b = 0 \<and> cb_current_id b < length (cb_slab b) \<and>
      ss_baseline (bn_state (cb_slab b ! 0)) = Independent \<and>
      (\<forall>i < length (cb_slab b). encoded lib (cb_slab b) i))"

definition stored_state :: "BuilderNode \<Rightarrow> StoredState" where
  "stored_state node = (bn_state node)\<lparr>ss_next := next_of (bn_children node)\<rparr>"

lemma length_children_of [simp]: "length (children_of slab) = length slab"
  by (simp add: children_of_def)

lemma children_of_Nil [simp]: "(children_of slab = []) = (slab = [])"
  by (simp add: children_of_def)

lemma nth_children_of [simp]: "i < length slab \<Longrightarrow> children_of slab ! i = bn_children (slab ! i)"
  by (simp add: children_of_def)

lemma result_map_id: "(\<And>x. x \<in> set xs \<Longrightarrow> f x = Inr (g x)) \<Longrightarrow> result_map f xs = Inr (map g xs)"
  by (induction xs) auto

lemma build_stored_ok:
  assumes tree: "tree (children_of (cb_slab b))" and root: "cb_root_id b = 0"
    and small: "length (cb_slab b) \<le> 2 ^ 32"
  shows "build_stored b = Inr \<lparr>sg_nodes = map stored_state (cb_slab b), sg_root_id = 0\<rparr>"
proof -
  let ?n = "length (cb_slab b)"
  have ids: "result_map usize_to_idx [0..<?n] = Inr [0..<?n]"
    using small by (subst result_map_id [where g = "\<lambda>i. i"]) (auto simp: usize_to_idx_def)
  have n: "0 < ?n" using tree by (simp add: tree_def)
  have child: "c < ?n" if "i < ?n" "c \<in> set (bn_children (cb_slab b ! i))" for i c
    using tree_child [OF tree, of i c] that by simp
  have node: "result_map (\<lambda>child. if child < ?n then Inr ([0..<?n] ! child) else Inl (MissingChild i child))
      (bn_children (cb_slab b ! i)) = Inr (bn_children (cb_slab b ! i))" if "i < ?n" for i
    by (subst result_map_id [where g = "\<lambda>i. i"]) (auto simp: child [OF that])
  have all: "map (\<lambda>i. stored_state (cb_slab b ! i)) [0..<?n] = map stored_state (cb_slab b)"
    by (rule nth_equalityI) auto
  have nodes: "result_map (\<lambda>old_id. let node = cb_slab b ! old_id in
      case result_map (\<lambda>child. if child < ?n then Inr ([0..<?n] ! child) else Inl (MissingChild old_id child))
        (bn_children node) of
        Inl e \<Rightarrow> Inl e | Inr children \<Rightarrow> Inr ((bn_state node)\<lparr>ss_next := next_of children\<rparr>)) [0..<?n] =
      Inr (map stored_state (cb_slab b))"
    unfolding all [symmetric] by (rule result_map_id) (simp add: node Let_def stored_state_def)
  have "into_compact_u32_graph b = Inr \<lparr>sg_nodes = map stored_state (cb_slab b), sg_root_id = 0\<rparr>"
    unfolding into_compact_u32_graph_def ids using n nodes by (simp add: root)
  then show ?thesis using validate_tree_ok [OF tree] root by (simp add: build_stored_def)
qed

lemma next_ids_stored [simp]: "next_ids (stored_state node) = bn_children node"
  by (simp add: next_ids_def stored_state_def next_of_def)

lemma stored_state_simps [simp]:
  "ss_payload (stored_state node) = ss_payload (bn_state node)"
  "ss_tag (stored_state node) = ss_tag (bn_state node)"
  "ss_baseline (stored_state node) = ss_baseline (bn_state node)"
  "ss_next (stored_state node) = next_of (bn_children node)"
  by (simp_all add: stored_state_def)

lemma children_stored: "map next_ids (map stored_state slab) = children_of slab"
  by (simp add: children_of_def)

lemma validate_tree_shape_ok:
  assumes "recorded lib b" and "shallow (children_of (cb_slab b))"
  shows "validate_tree_shape \<lparr>sg_nodes = map stored_state (cb_slab b), sg_root_id = 0\<rparr> = Inr ()"
proof -
  let ?ch = "children_of (cb_slab b)"
  have tree: "tree ?ch" using assms(1) by (simp add: recorded_def)
  have n: "0 < length (cb_slab b)" using tree by (simp add: tree_def)
  have base: "ss_baseline (bn_state (cb_slab b ! 0)) = Independent" using assms(1) by (simp add: recorded_def)
  have none: "find (\<lambda>i. ss_baseline (map stored_state (cb_slab b) ! i) = Independent \<and>
      is_delta (ss_payload (map stored_state (cb_slab b) ! i))) [0..<length (cb_slab b)] = None"
    using assms(1)
    by (auto simp: find_None_iff recorded_def encoded_def is_delta_def Let_def split: SnapshotPayload.splits)
  have depth: "bfs_depth ?ch [] [(0, 0)] = Inr (bfs ?ch [] [0])"
    using bfs_depth_eq [of "[(0, 0)]" ?ch "[]"] assms(2) by (simp add: at_depth.root del: bfs.simps bfs_depth.simps)
  have "0 \<notin> set (concat ?ch)" unfolding tree_set [OF tree] by simp
  then show ?thesis
    unfolding validate_tree_shape_def Let_def
    using n base none depth tree_edges_ok [OF tree] bfs_tree(1) [OF tree]
    by (simp add: children_stored filter_empty_conv del: bfs.simps bfs_depth.simps map_map set_concat)
qed

section \<open>The materialized graph shows what was recorded\<close>

text \<open>What the expanded node \<open>i\<close> must be.\<close>

definition shows_node :: "BuilderNode list \<Rightarrow> nat \<Rightarrow> ConfigSnapshotState \<Rightarrow> bool" where
  "shows_node slab i s =
     (json_eq (cs_config (st_snapshot s)) (to_json (bn_full (slab ! i))) \<and>
      st_tag s = ss_tag (bn_state (slab ! i)) \<and> st_key s = node_key (ss_tag (bn_state (slab ! i))) \<and>
      st_next s = next_of (bn_children (slab ! i)) \<and>
      (ss_baseline (bn_state (slab ! i)) = Independent \<longrightarrow> cs_changed_fields (st_snapshot s) = None))"

definition shows_table :: "BuilderNode list \<Rightarrow> ConfigSnapshotState option list \<Rightarrow> bool" where
  "shows_table slab nodes =
     (length nodes = length slab \<and> (\<forall>i < length slab. \<forall>s. nodes ! i = Some s \<longrightarrow> shows_node slab i s))"

definition extends :: "'a option list \<Rightarrow> 'a option list \<Rightarrow> bool" where
  "extends nodes nodes' = (length nodes' = length nodes \<and> (\<forall>i < length nodes. nodes ! i \<noteq> None \<longrightarrow> nodes' ! i \<noteq> None))"

definition below :: "nat list list \<Rightarrow> nat \<Rightarrow> nat \<Rightarrow> bool" where
  "below ch = (\<lambda>i j. i < length ch \<and> j \<in> set (ch ! i))\<^sup>*\<^sup>*"

lemma extends_update: "extends (nodes[i := Some x]) nodes' \<Longrightarrow> extends nodes nodes'"
proof -
  assume ext: "extends (nodes[i := Some x]) nodes'"
  have "nodes[i := Some x] ! k \<noteq> None" if "k < length nodes" "nodes ! k \<noteq> None" for k
    using that by (cases "k = i") auto
  with ext show ?thesis by (simp add: extends_def)
qed

lemma below_child: "below ch i j \<Longrightarrow> j \<noteq> i \<Longrightarrow> \<exists>c. c \<in> set (ch ! i) \<and> below ch c j"
  unfolding below_def by (erule converse_rtranclpE) auto

lemma below_bounded: "below ch i j \<Longrightarrow> tree ch \<Longrightarrow> i < length ch \<Longrightarrow> j < length ch"
  unfolding below_def by (induction rule: rtranclp_induct) (auto dest: tree_child)

lemma tree_below: "tree ch \<Longrightarrow> i < length ch \<Longrightarrow> below ch 0 i"
proof (induction i rule: less_induct)
  case (less i)
  show ?case
  proof (cases "i = 0")
    case True
    then show ?thesis by (simp add: below_def)
  next
    case False
    then obtain p where "p < length ch" "p < i" "i \<in> set (ch ! p)"
      using tree_parent [OF less.prems(1), of i] less.prems(2) by auto
    then show ?thesis using less.IH [of p] less.prems(1)
      unfolding below_def by (auto intro: rtranclp.rtrancl_into_rtrancl)
  qed
qed

text \<open>The parent handed down is the configuration of the one parent the node has.\<close>

definition parent_ok :: "BuilderNode list \<Rightarrow> nat \<Rightarrow> JsonValue option \<Rightarrow> bool" where
  "parent_ok slab i par =
     (\<forall>p < length slab. i \<in> set (bn_children (slab ! p)) \<longrightarrow>
        (\<exists>c. par = Some c \<and> json_eq c (to_json (bn_full (slab ! p)))))"

lemma node_snapshot_ok:
  assumes law: "patch_law lib" and rec: "recorded lib b" and i: "i < length (cb_slab b)"
    and par: "parent_ok (cb_slab b) i par"
  shows "\<exists>snap. node_snapshot lib i (stored_state (cb_slab b ! i)) par = Inr snap \<and>
    json_eq (cs_config snap) (to_json (bn_full (cb_slab b ! i))) \<and>
    (ss_baseline (bn_state (cb_slab b ! i)) = Independent \<longrightarrow> cs_changed_fields snap = None)"
proof -
  have enc: "encoded lib (cb_slab b) j" if "j < length (cb_slab b)" for j
    using rec that by (simp add: recorded_def)
  let ?v = "bn_full (cb_slab b ! i)"
  have wf: "value_wf (bn_full (cb_slab b ! j))" if "j < length (cb_slab b)" for j
    using enc [OF that] by (simp add: encoded_def Let_def)
  show ?thesis
  proof (cases "ss_payload (bn_state (cb_slab b ! i))")
    case (Full w)
    then have "w = ?v" using enc [OF i] by (simp add: encoded_def Let_def)
    then show ?thesis using Full json_eq_refl [OF wf [OF i]]
      by (simp add: node_snapshot_def Let_def split: SnapshotBaseline.splits)
  next
    case (Delta ps)
    then obtain p where p: "p < length (cb_slab b)" "i \<in> set (bn_children (cb_slab b ! p))"
      and ps: "ps = jl_diff lib (to_json (bn_full (cb_slab b ! p))) (to_json ?v)"
      and base: "ss_baseline (bn_state (cb_slab b ! i)) = Parent"
      using enc [OF i] by (auto simp: encoded_def Let_def)
    obtain c where c: "par = Some c" "json_eq c (to_json (bn_full (cb_slab b ! p)))"
      using par p by (auto simp: parent_ok_def)
    obtain d where "jl_patch lib c ps = Inr d" "json_eq d (to_json ?v)"
      using law wf [OF p(1)] wf [OF i] c(2) unfolding patch_law_def ps by blast
    then show ?thesis using Delta base c by (simp add: node_snapshot_def)
  qed
qed

lemma materialize_node_ok:
  assumes law: "patch_law lib" and rec: "recorded lib b" and shallow: "shallow (children_of (cb_slab b))"
  shows "at_depth (children_of (cb_slab b)) i depth \<Longrightarrow> parent_ok (cb_slab b) i par \<Longrightarrow>
    shows_table (cb_slab b) nodes \<Longrightarrow>
    \<exists>nodes'. materialize_node lib (map stored_state (cb_slab b)) i par depth nodes = Inr nodes' \<and>
      shows_table (cb_slab b) nodes' \<and> extends nodes nodes' \<and>
      (\<forall>j. below (children_of (cb_slab b)) i j \<longrightarrow> nodes' ! j \<noteq> None)"
proof (induction "Suc MAX_MATERIALIZE_DEPTH - depth" arbitrary: i par depth nodes rule: less_induct)
  case less
  let ?slab = "cb_slab b" and ?ch = "children_of (cb_slab b)"
  let ?stored = "map stored_state ?slab"
  have tree: "tree ?ch" using rec by (simp add: recorded_def)
  have i: "i < length ?slab" using at_depth_le [OF less.prems(1) tree] by simp
  have depth: "depth \<le> MAX_MATERIALIZE_DEPTH" using shallow less.prems(1) by (auto simp: shallow_def)
  obtain snap where snap: "node_snapshot lib i (stored_state (?slab ! i)) par = Inr snap"
    "json_eq (cs_config snap) (to_json (bn_full (?slab ! i)))"
    "ss_baseline (bn_state (?slab ! i)) = Independent \<longrightarrow> cs_changed_fields snap = None"
    using node_snapshot_ok [OF law rec i less.prems(2)] by blast
  define own where "own = \<lparr>st_snapshot = snap, st_tag = ss_tag (bn_state (?slab ! i)),
    st_key = node_key (ss_tag (bn_state (?slab ! i))), st_next = next_of (bn_children (?slab ! i))\<rparr>"
  have own: "shows_table ?slab (nodes[i := Some own])"
    using less.prems(3) snap i
    by (auto simp: shows_table_def shows_node_def own_def nth_list_update)
  let ?f = "\<lambda>child ns. materialize_node lib ?stored child (Some (cs_config snap)) (depth + 1) ns"
  have step: "\<exists>ns'. ?f c ns = Inr ns' \<and> shows_table ?slab ns' \<and> extends ns ns' \<and>
      (\<forall>j. below ?ch c j \<longrightarrow> ns' ! j \<noteq> None)"
    if c: "c \<in> set (bn_children (?slab ! i))" and ns: "shows_table ?slab ns" for c ns
  proof (rule less.hyps)
    show "Suc MAX_MATERIALIZE_DEPTH - (depth + 1) < Suc MAX_MATERIALIZE_DEPTH - depth" using depth by simp
    show "at_depth ?ch c (depth + 1)" using at_depth.child [OF less.prems(1)] c i by simp
    have "p = i" if "p < length ?slab" "c \<in> set (bn_children (?slab ! p))" for p
      using tree_parent_unique [OF tree, of p i c] that c i by simp
    then show "parent_ok ?slab c (Some (cs_config snap))"
      unfolding parent_ok_def using snap(2) by blast
    show "shows_table ?slab ns" by (rule ns)
  qed
  have "\<exists>nodes'. result_fold ?f (bn_children (?slab ! i)) (nodes[i := Some own]) = Inr nodes' \<and>
      shows_table ?slab nodes' \<and> extends (nodes[i := Some own]) nodes' \<and>
      (\<forall>c \<in> set (bn_children (?slab ! i)). c < length ?slab \<and> length nodes' = length ?slab \<and>
         (\<forall>j. below ?ch c j \<longrightarrow> nodes' ! j \<noteq> None))"
  proof (rule result_fold_collect [where P = "shows_table ?slab" and le = extends
        and Q = "\<lambda>c ns. c < length ?slab \<and> length ns = length ?slab \<and> (\<forall>j. below ?ch c j \<longrightarrow> ns ! j \<noteq> None)"])
    fix c ns
    assume "c \<in> set (bn_children (?slab ! i))" "shows_table ?slab ns"
    then show "\<exists>ns'. ?f c ns = Inr ns' \<and> shows_table ?slab ns' \<and> extends ns ns' \<and> c < length ?slab \<and>
        length ns' = length ?slab \<and> (\<forall>j. below ?ch c j \<longrightarrow> ns' ! j \<noteq> None)"
      using step [of c ns] tree_child [OF tree, of i c] i by (auto simp: shows_table_def)
  next
    fix c and ns ns' :: "ConfigSnapshotState option list"
    assume "c < length ?slab \<and> length ns = length ?slab \<and> (\<forall>j. below ?ch c j \<longrightarrow> ns ! j \<noteq> None)"
      and "extends ns ns'"
    then show "c < length ?slab \<and> length ns' = length ?slab \<and> (\<forall>j. below ?ch c j \<longrightarrow> ns' ! j \<noteq> None)"
      using below_bounded [OF _ tree, of c] by (auto simp: extends_def)
  qed (use own in \<open>auto simp: extends_def\<close>)
  then obtain nodes' where nodes': "result_fold ?f (bn_children (?slab ! i)) (nodes[i := Some own]) = Inr nodes'"
    "shows_table ?slab nodes'" "extends (nodes[i := Some own]) nodes'"
    "\<forall>c \<in> set (bn_children (?slab ! i)). \<forall>j. below ?ch c j \<longrightarrow> nodes' ! j \<noteq> None"
    by blast
  have "materialize_node lib ?stored i par depth nodes = Inr nodes'"
    using depth i snap(1) nodes'(1) by (subst materialize_node.simps) (simp add: Let_def own_def)
  moreover have "extends nodes nodes'"
    using nodes'(3) by (rule extends_update)
  moreover have "nodes' ! j \<noteq> None" if reach: "below ?ch i j" for j
  proof (cases "j = i")
    case True
    then show ?thesis using nodes'(3) less.prems(3) i by (auto simp: extends_def shows_table_def)
  next
    case False
    then obtain c where "c \<in> set (?ch ! i)" "below ?ch c j"
      using below_child [OF reach] by blast
    then show ?thesis using nodes'(4) i by simp
  qed
  ultimately show ?case using nodes'(2) by blast
qed

lemma build_graph_ok:
  assumes law: "patch_law lib" and rec: "recorded lib b" and shallow: "shallow (children_of (cb_slab b))"
    and small: "length (cb_slab b) \<le> 2 ^ 32"
  shows "\<exists>g. build_graph lib b = Inr g \<and> gr_root_id g = 0 \<and> length (gr_nodes g) = length (cb_slab b) \<and>
    (\<forall>i < length (cb_slab b). shows_node (cb_slab b) i (gr_nodes g ! i))"
proof -
  let ?slab = "cb_slab b"
  let ?g = "\<lparr>sg_nodes = map stored_state ?slab, sg_root_id = 0\<rparr>"
  have tree: "tree (children_of ?slab)" and root: "cb_root_id b = 0" using rec by (simp_all add: recorded_def)
  have "parent_ok ?slab 0 None" unfolding parent_ok_def
    using tree_child [OF tree, of _ 0] by auto
  moreover have "shows_table ?slab (replicate (length ?slab) None)" by (simp add: shows_table_def)
  ultimately obtain nodes where nodes:
    "materialize_node lib (map stored_state ?slab) 0 None 0 (replicate (length ?slab) None) = Inr nodes"
    "shows_table ?slab nodes" "\<forall>j. below (children_of ?slab) 0 j \<longrightarrow> nodes ! j \<noteq> None"
    using materialize_node_ok [OF law rec shallow at_depth.root] by blast
  have len: "length nodes = length ?slab" using nodes(2) by (simp add: shows_table_def)
  have some: "nodes ! j = Some (the (nodes ! j))" if "j < length ?slab" for j
    using tree_below [OF tree, of j] nodes(3) that by auto
  have "result_map (\<lambda>(idx, node). case node of Some s \<Rightarrow> Inr s | None \<Rightarrow> Inl (Unreachable [idx]))
      (zip [0..<length nodes] nodes) = Inr (map (\<lambda>(idx, node). the node) (zip [0..<length nodes] nodes))"
  proof (rule result_map_id, clarify)
    fix idx node
    assume "(idx, node) \<in> set (zip [0..<length nodes] nodes)"
    then have "node = nodes ! idx" "idx < length nodes" by (auto simp: set_zip)
    then show "(case node of Some s \<Rightarrow> Inr s | None \<Rightarrow> Inl (Unreachable [idx])) = Inr (the node)"
      using some [of idx] len by (auto split: option.splits)
  qed
  then have "materialize lib ?g = Inr \<lparr>gr_nodes = map (\<lambda>(idx, node). the node) (zip [0..<length nodes] nodes),
      gr_root_id = 0\<rparr>"
    unfolding materialize_def using validate_tree_shape_ok [OF rec shallow] nodes(1) by simp
  then show ?thesis
    using build_stored_ok [OF tree root small] nodes(2) some len
    by (simp add: build_graph_def shows_table_def)
qed

section \<open>The builder's operations keep the record\<close>

lemma mset_concat_update:
  "p < length xss \<Longrightarrow> mset (concat (xss[p := xss ! p @ ys])) = mset (concat xss) + mset ys"
  by (induction xss arbitrary: p) (auto split: nat.splits simp: nth_Cons')

lemma tree_graft:
  assumes ch: "tree ch" and br: "tree br" and p: "p < length ch"
  shows "tree (ch[p := ch ! p @ [length ch]] @ map (map ((+) (length ch))) br)"
proof -
  let ?n = "length ch"
  have "mset (concat (map (map ((+) ?n)) br)) = image_mset ((+) ?n) (mset [1..<length br])"
    using br by (simp add: tree_def map_concat [symmetric])
  also have "\<dots> = mset (map ((+) ?n) [1..<length br])" by simp
  also have "map ((+) ?n) [1..<length br] = [Suc ?n..<?n + length br]"
    by (rule nth_equalityI) auto
  finally have tail: "mset (concat (map (map ((+) ?n)) br)) = mset [Suc ?n..<?n + length br]" .
  have "[1..<?n + length br] = [1..<?n] @ ?n # [Suc ?n..<?n + length br]"
  proof -
    have "[1..<?n + length br] = [1..<?n] @ [?n..<?n + length br]"
      using p by (intro upt_add_eq_append) simp
    moreover have "[?n..<?n + length br] = ?n # [Suc ?n..<?n + length br]"
      using br by (intro upt_conv_Cons) (simp add: tree_def)
    ultimately show ?thesis by simp
  qed
  then have edges: "mset (concat (ch[p := ch ! p @ [?n]] @ map (map ((+) ?n)) br)) = mset [1..<?n + length br]"
    using tail mset_concat_update [OF p, of "[?n]"] ch by (simp add: tree_def del: upt_Suc)
  have order: "\<forall>i < ?n + length br. \<forall>c \<in> set ((ch[p := ch ! p @ [?n]] @ map (map ((+) ?n)) br) ! i). i < c"
  proof (intro allI impI ballI)
    fix i c
    assume i: "i < ?n + length br"
      and c: "c \<in> set ((ch[p := ch ! p @ [?n]] @ map (map ((+) ?n)) br) ! i)"
    show "i < c"
    proof (cases "i < ?n")
      case True
      with c have "c \<in> set (ch ! i) \<or> c = ?n" by (cases "i = p") (auto simp: nth_append)
      with True ch show ?thesis by (auto simp: tree_def)
    next
      case False
      then obtain j where "i = ?n + j" "j < length br" using i by (metis le_iff_add add_less_cancel_left not_le)
      with c br show ?thesis by (auto simp: nth_append tree_def)
    qed
  qed
  have len: "length (ch[p := ch ! p @ [?n]] @ map (map ((+) ?n)) br) = ?n + length br" by simp
  have "ch[p := ch ! p @ [?n]] @ map (map ((+) ?n)) br \<noteq> []" using ch by (simp add: tree_def)
  with edges order show ?thesis unfolding tree_def len by blast
qed

text \<open>How the links of a slab change.\<close>

lemma map_update_same: "f y = f (xs ! i) \<Longrightarrow> map f (xs[i := y]) = map f xs"
  by (cases "i < length xs") (simp_all add: map_update list_update_same_conv list_update_beyond)

lemma map_set_parent:
  "children_of (set_parent c p slab) = children_of slab"
  "map bn_full (set_parent c p slab) = map bn_full slab"
  "map bn_state (set_parent c p slab) = map bn_state slab"
  by (simp_all add: set_parent_def children_of_def map_update_same)

lemma map_push_child:
  "p < length slab \<Longrightarrow> children_of (push_child p c slab) = (children_of slab)[p := children_of slab ! p @ [c]]"
  "map bn_full (push_child p c slab) = map bn_full slab"
  "map bn_state (push_child p c slab) = map bn_state slab"
  by (simp add: push_child_def children_of_def map_update, simp_all add: push_child_def map_update_same)

lemma length_links [simp]:
  "length (set_parent c p slab) = length slab" "length (push_child p c slab) = length slab"
  by (simp_all add: set_parent_def push_child_def)

lemma copy_links_data:
  "map bn_full (copy_links branch off i slab) = map bn_full slab \<and>
   map bn_state (copy_links branch off i slab) = map bn_state slab \<and>
   length (copy_links branch off i slab) = length slab"
proof -
  have "map bn_full (fold (\<lambda>child s. set_parent (off + child) (off + i) (push_child (off + i) (off + child) s)) cs s) =
        map bn_full s \<and>
        map bn_state (fold (\<lambda>child s. set_parent (off + child) (off + i) (push_child (off + i) (off + child) s)) cs s) =
        map bn_state s \<and>
        length (fold (\<lambda>child s. set_parent (off + child) (off + i) (push_child (off + i) (off + child) s)) cs s) =
        length s" for cs s
    by (induction cs arbitrary: s) (simp_all add: map_set_parent map_push_child)
  then show ?thesis by (simp add: copy_links_def)
qed

lemma copy_links_children:
  assumes "off + i < length slab"
  shows "children_of (copy_links branch off i slab) =
    (children_of slab)[off + i := children_of slab ! (off + i) @ map ((+) off) (bn_children (cb_slab branch ! i))]"
proof -
  have "off + i < length s \<Longrightarrow>
      children_of (fold (\<lambda>child s. set_parent (off + child) (off + i) (push_child (off + i) (off + child) s)) cs s) =
      (children_of s)[off + i := children_of s ! (off + i) @ map ((+) off) cs]" for cs s
  proof (induction cs arbitrary: s)
    case Nil
    then show ?case by (simp del: nth_children_of)
  next
    case (Cons c cs)
    let ?s = "set_parent (off + c) (off + i) (push_child (off + i) (off + c) s)"
    have "children_of ?s = (children_of s)[off + i := children_of s ! (off + i) @ [off + c]]"
      using Cons.prems by (simp only: map_set_parent map_push_child)
    with Cons.IH [of ?s] Cons.prems show ?case by (simp del: nth_children_of)
  qed
  with assms show ?thesis by (simp add: copy_links_def)
qed

lemma copy_all_links:
  assumes "length (cb_slab branch) = m" and "k \<le> m" and "length slab = off + m"
    and "children_of slab = base @ replicate m []" and "length base = off"
  shows "children_of (fold (copy_links branch off) [0..<k] slab) =
      base @ map (map ((+) off)) (take k (children_of (cb_slab branch))) @ replicate (m - k) [] \<and>
    map bn_full (fold (copy_links branch off) [0..<k] slab) = map bn_full slab \<and>
    map bn_state (fold (copy_links branch off) [0..<k] slab) = map bn_state slab \<and>
    length (fold (copy_links branch off) [0..<k] slab) = length slab"
  using assms(2)
proof (induction k)
  case 0
  then show ?case using assms(4) by simp
next
  case (Suc k)
  let ?s = "fold (copy_links branch off) [0..<k] slab"
  have k: "k < m" using Suc.prems by simp
  have IH: "children_of ?s = base @ map (map ((+) off)) (take k (children_of (cb_slab branch))) @ replicate (m - k) []"
    "length ?s = length slab" "map bn_full ?s = map bn_full slab" "map bn_state ?s = map bn_state slab"
    using Suc by auto
  have rep: "replicate (m - k) [] = [] # replicate (m - Suc k) ([] :: nat list)"
    using k by (metis Suc_diff_Suc replicate_Suc)
  have "children_of (copy_links branch off k ?s) =
    (base @ map (map ((+) off)) (take k (children_of (cb_slab branch))) @ replicate (m - k) [])
      [off + k := map ((+) off) (bn_children (cb_slab branch ! k))]"
    using copy_links_children [of off k ?s branch] IH(1,2) assms k
    by (simp add: nth_append del: nth_children_of)
  also have "\<dots> = base @ map (map ((+) off)) (take (Suc k) (children_of (cb_slab branch))) @ replicate (m - Suc k) []"
    using assms k by (simp add: list_update_append rep take_Suc_conv_app_nth)
  finally show ?case using copy_links_data [of branch off k ?s] IH by simp
qed

lemma encoded_mono:
  assumes "encoded lib slab i" and i: "i < length slab" and len: "length slab \<le> length slab'"
    and full: "\<And>j. j < length slab \<Longrightarrow> bn_full (slab' ! j) = bn_full (slab ! j)"
    and state: "\<And>j. j < length slab \<Longrightarrow> bn_state (slab' ! j) = bn_state (slab ! j)"
    and children: "\<And>j. j < length slab \<Longrightarrow> set (bn_children (slab ! j)) \<subseteq> set (bn_children (slab' ! j))"
  shows "encoded lib slab' i"
proof (cases "ss_payload (bn_state (slab ! i))")
  case (Full w)
  with assms(1) show ?thesis by (simp add: encoded_def Let_def full state i)
next
  case (Delta ps)
  with assms(1) obtain p where "p < length slab" "i \<in> set (bn_children (slab ! p))"
    "ps = jl_diff lib (to_json (bn_full (slab ! p))) (to_json (bn_full (slab ! i)))"
    by (auto simp: encoded_def Let_def)
  moreover from this have "p < length slab'" "i \<in> set (bn_children (slab' ! p))"
    using len children by auto
  ultimately show ?thesis using assms(1) Delta
    by (auto simp: encoded_def Let_def full state i intro!: exI [of _ p])
qed

lemma recorded_new_root:
  "value_wf v \<Longrightarrow> recorded lib (new_root_with_keyframe_policy v tag policy)"
  by (simp add: recorded_def new_root_with_keyframe_policy_def tree_def children_of_def encoded_def)

lemma encode_cases:
  "encode lib policy par v = Full v \<or> encode lib policy par v = Delta (jl_diff lib (to_json par) (to_json v))"
  by (simp add: encode_def Let_def)

text \<open>The columns of the slab after a step onto a new node.\<close>

lemma push_node_columns:
  assumes "cb_current_id b < length (cb_slab b)"
  shows "\<exists>b'. push_node lib b tag v = Inr b' \<and>
    map bn_full (cb_slab b') = map bn_full (cb_slab b) @ [v] \<and>
    map bn_state (cb_slab b') = map bn_state (cb_slab b) @
      [\<lparr>ss_payload = encode lib (cb_keyframe_policy b) (bn_full (cb_slab b ! cb_current_id b)) v,
        ss_tag = tag, ss_baseline = Parent, ss_next = None\<rparr>] \<and>
    children_of (cb_slab b') = (children_of (cb_slab b))
      [cb_current_id b := children_of (cb_slab b) ! cb_current_id b @ [length (cb_slab b)]] @ [[]] \<and>
    cb_root_id b' = cb_root_id b \<and> cb_current_id b' = length (cb_slab b) \<and>
    cb_keyframe_policy b' = cb_keyframe_policy b"
  using assms
  by (simp add: push_node_def insert_child_def Let_def map_push_child)
    (simp add: children_of_def nth_append list_update_append)

lemma nth_columns:
  assumes "map bn_full slab = fs" and "map bn_state slab = ss" and "children_of slab = ch" and "i < length slab"
  shows "bn_full (slab ! i) = fs ! i" and "bn_state (slab ! i) = ss ! i" and "bn_children (slab ! i) = ch ! i"
  using assms by auto

lemma recorded_push:
  assumes rec: "recorded lib b" and wf: "value_wf v"
  shows "\<exists>b'. push_node lib b tag v = Inr b' \<and> recorded lib b'"
proof -
  let ?n = "length (cb_slab b)" and ?p = "cb_current_id b"
  have p: "?p < ?n" and tree: "tree (children_of (cb_slab b))" using rec by (simp_all add: recorded_def)
  obtain b' where b': "push_node lib b tag v = Inr b'"
    and full: "map bn_full (cb_slab b') = map bn_full (cb_slab b) @ [v]"
    and state: "map bn_state (cb_slab b') = map bn_state (cb_slab b) @
      [\<lparr>ss_payload = encode lib (cb_keyframe_policy b) (bn_full (cb_slab b ! ?p)) v,
        ss_tag = tag, ss_baseline = Parent, ss_next = None\<rparr>]"
    and ch: "children_of (cb_slab b') =
      (children_of (cb_slab b))[?p := children_of (cb_slab b) ! ?p @ [?n]] @ [[]]"
    and ids: "cb_root_id b' = cb_root_id b" "cb_current_id b' = ?n"
    using push_node_columns [OF p, of lib tag v] by blast
  have len: "length (cb_slab b') = Suc ?n" using arg_cong [OF full, of length] by simp
  note nth = nth_columns [OF full state ch]
  have "tree (children_of (cb_slab b'))"
    using tree_graft [OF tree, of "[[]]" ?p] p ch by (simp add: tree_def del: nth_children_of)
  moreover have "encoded lib (cb_slab b') i" if "i < Suc ?n" for i
  proof (cases "i = ?n")
    case False
    then have i: "i < ?n" using that by simp
    have "encoded lib (cb_slab b) i" using rec i by (simp add: recorded_def)
    then show ?thesis
    proof (rule encoded_mono [OF _ i])
      fix j assume j: "j < ?n"
      show "set (bn_children (cb_slab b ! j)) \<subseteq> set (bn_children (cb_slab b' ! j))"
        using j p len by (cases "j = ?p") (auto simp: nth nth_append)
    qed (use len nth in \<open>simp_all add: nth_append\<close>)
  next
    case True
    show ?thesis
      using encode_cases [of lib "cb_keyframe_policy b" "bn_full (cb_slab b ! ?p)" v] wf p len True
      by (auto simp: encoded_def Let_def nth nth_append intro!: exI [of _ ?p])
  qed
  ultimately show ?thesis
    using b' ids rec len nth(2) [of 0] p by (auto simp: recorded_def nth_append)
qed

lemma attach_columns:
  assumes p: "p < length (cb_slab b)" and ok: "validate_tree (children_of (cb_slab br)) (cb_root_id br) = Inr ()"
    and root: "cb_root_id br = 0"
  shows "\<exists>b'. attach_independent_branch b p br = Inr (b', length (cb_slab b)) \<and>
    map bn_full (cb_slab b') = map bn_full (cb_slab b) @ map bn_full (cb_slab br) \<and>
    map bn_state (cb_slab b') = map bn_state (cb_slab b) @
      map (\<lambda>i. bn_state (grafted br i)) [0..<length (cb_slab br)] \<and>
    children_of (cb_slab b') = (children_of (cb_slab b))
      [p := children_of (cb_slab b) ! p @ [length (cb_slab b)]] @
      map (map ((+) (length (cb_slab b)))) (children_of (cb_slab br)) \<and>
    cb_root_id b' = cb_root_id b \<and> cb_current_id b' = cb_current_id b \<and>
    cb_keyframe_policy b' = cb_keyframe_policy b"
proof -
  let ?n = "length (cb_slab b)" and ?m = "length (cb_slab br)"
  let ?ins = "cb_slab b @ map (grafted br) [0..<?m]"
  let ?linked = "fold (copy_links br ?n) [0..<?m] ?ins"
  let ?b = "b\<lparr>cb_slab := set_parent ?n p (push_child p ?n ?linked)\<rparr>"
  have "children_of ?ins = children_of (cb_slab b) @ replicate ?m []"
    by (simp add: children_of_def grafted_def Let_def map_replicate_const comp_def)
  from copy_all_links [OF refl order_refl _ this] have links:
    "children_of ?linked = children_of (cb_slab b) @ map (map ((+) ?n)) (children_of (cb_slab br))"
    "map bn_full ?linked = map bn_full ?ins" "map bn_state ?linked = map bn_state ?ins"
    "length ?linked = ?n + ?m"
    by simp_all
  have full: "map (\<lambda>i. bn_full (grafted br i)) [0..<?m] = map bn_full (cb_slab br)"
    by (rule nth_equalityI) (simp_all add: grafted_def Let_def)
  have "attach_independent_branch b p br = Inr (?b, ?n)"
    using p ok root by (simp add: attach_independent_branch_def Let_def)
  moreover have "map bn_full (cb_slab ?b) = map bn_full (cb_slab b) @ map bn_full (cb_slab br)"
    by (simp add: map_set_parent map_push_child links full comp_def)
  moreover have "map bn_state (cb_slab ?b) = map bn_state (cb_slab b) @
      map (\<lambda>i. bn_state (grafted br i)) [0..<?m]"
    by (simp add: map_set_parent map_push_child links comp_def)
  moreover have "children_of (cb_slab ?b) = (children_of (cb_slab b))[p := children_of (cb_slab b) ! p @ [?n]] @
      map (map ((+) ?n)) (children_of (cb_slab br))"
    using p by (simp add: map_set_parent map_push_child links list_update_append nth_append del: nth_children_of)
  ultimately show ?thesis by auto
qed

text \<open>A grafted node is encoded against the grafted copy of its parent.\<close>

lemma encoded_graft:
  assumes enc: "encoded lib (cb_slab br) j" and j: "j < length (cb_slab br)" and root: "cb_root_id br = 0"
    and len: "length slab = n + length (cb_slab br)"
    and full: "\<And>k. k < length (cb_slab br) \<Longrightarrow> bn_full (slab ! (n + k)) = bn_full (cb_slab br ! k)"
    and state: "bn_state (slab ! (n + j)) = bn_state (grafted br j)"
    and children: "\<And>k. k < length (cb_slab br) \<Longrightarrow>
      bn_children (slab ! (n + k)) = map ((+) n) (bn_children (cb_slab br ! k))"
  shows "encoded lib slab (n + j)"
proof (cases "j = 0 \<or> (\<exists>w. ss_payload (bn_state (cb_slab br ! j)) = Full w)")
  case True
  then show ?thesis using enc j full [OF j] state root
    by (auto simp: encoded_def Let_def grafted_def)
next
  case False
  then obtain ps where ps: "ss_payload (bn_state (cb_slab br ! j)) = Delta ps"
    by (cases "ss_payload (bn_state (cb_slab br ! j))") auto
  with enc obtain q where "q < length (cb_slab br)" "j \<in> set (bn_children (cb_slab br ! q))"
    "ps = jl_diff lib (to_json (bn_full (cb_slab br ! q))) (to_json (bn_full (cb_slab br ! j)))"
    by (auto simp: encoded_def Let_def)
  then show ?thesis using enc full [OF j] full [of q] children [of q] state False ps len
    by (auto simp: encoded_def Let_def grafted_def root intro!: exI [of _ "n + q"])
qed

lemma recorded_attach:
  assumes rec: "recorded lib b" and br: "recorded lib br" and p: "p < length (cb_slab b)"
  shows "\<exists>b'. attach_independent_branch b p br = Inr (b', length (cb_slab b)) \<and> recorded lib b'"
proof -
  let ?n = "length (cb_slab b)" and ?m = "length (cb_slab br)"
  have tree: "tree (children_of (cb_slab b))" "tree (children_of (cb_slab br))"
    and root: "cb_root_id br = 0" using rec br by (simp_all add: recorded_def)
  have ok: "validate_tree (children_of (cb_slab br)) (cb_root_id br) = Inr ()"
    using validate_tree_ok [OF tree(2)] root by simp
  obtain b' where b': "attach_independent_branch b p br = Inr (b', ?n)"
    and full: "map bn_full (cb_slab b') = map bn_full (cb_slab b) @ map bn_full (cb_slab br)"
    and state: "map bn_state (cb_slab b') = map bn_state (cb_slab b) @ map (\<lambda>i. bn_state (grafted br i)) [0..<?m]"
    and ch: "children_of (cb_slab b') = (children_of (cb_slab b))[p := children_of (cb_slab b) ! p @ [?n]] @
      map (map ((+) ?n)) (children_of (cb_slab br))"
    and ids: "cb_root_id b' = cb_root_id b" "cb_current_id b' = cb_current_id b"
    using attach_columns [OF p ok root] by blast
  have len: "length (cb_slab b') = ?n + ?m" using arg_cong [OF full, of length] by simp
  note nth = nth_columns [OF full state ch]
  have tree': "tree (children_of (cb_slab b'))"
    using tree_graft [OF tree, of p] p ch by (simp del: nth_children_of)
  have enc': "encoded lib (cb_slab b') i" if "i < ?n + ?m" for i
  proof (cases "i < ?n")
    case True
    have "encoded lib (cb_slab b) i" using rec True by (simp add: recorded_def)
    then show ?thesis
    proof (rule encoded_mono [OF _ True])
      fix j assume j: "j < ?n"
      show "set (bn_children (cb_slab b ! j)) \<subseteq> set (bn_children (cb_slab b' ! j))"
        using j p len by (cases "j = p") (auto simp: nth nth_append)
    qed (use len nth in \<open>simp_all add: nth_append\<close>)
  next
    case False
    define j where "j = i - ?n"
    have j: "i = ?n + j" "j < ?m" using False that by (auto simp: j_def)
    show ?thesis unfolding j(1)
      by (rule encoded_graft [OF _ j(2) root len]) (use br j len in \<open>simp_all add: recorded_def nth nth_append\<close>)
  qed
  have n: "0 < ?n" using p by (rule gr_implies_not0 [THEN bot_nat_0.not_eq_extremum [THEN iffD1]])
  then have "bn_state (cb_slab b' ! 0) = bn_state (cb_slab b ! 0)"
    using len by (simp add: nth nth_append)
  then have "ss_baseline (bn_state (cb_slab b' ! 0)) = Independent"
    using rec by (simp add: recorded_def)
  moreover have "cb_root_id b' = 0" "cb_current_id b' < length (cb_slab b')"
    using ids rec len by (simp_all add: recorded_def)
  ultimately have "recorded lib b'"
    unfolding recorded_def using tree' enc' by (intro conjI allI impI) (simp_all add: len)
  with b' show ?thesis by blast
qed

section \<open>Every builder of the program\<close>

text \<open>The builders the operations can make, whatever the policies, tags and configurations.\<close>

inductive built :: "JsonLib \<Rightarrow> ConfigSnapshotsBuilder \<Rightarrow> bool" for lib where
  root: "value_wf v \<Longrightarrow> built lib (new_root_with_keyframe_policy v tag policy)"
| push: "built lib b \<Longrightarrow> value_wf v \<Longrightarrow> push_node lib b tag v = Inr b' \<Longrightarrow> built lib b'"
| attach: "built lib b \<Longrightarrow> built lib br \<Longrightarrow> attach_independent_branch b p br = Inr (b', r) \<Longrightarrow> built lib b'"

lemma built_recorded: "built lib b \<Longrightarrow> recorded lib b"
proof (induction rule: built.induct)
  case (root v tag policy)
  then show ?case by (rule recorded_new_root)
next
  case (push b v tag b')
  then show ?case using recorded_push [of lib b v tag] by auto
next
  case (attach b br p b' r)
  have "p < length (cb_slab b)"
    using attach.hyps(3) by (auto simp: attach_independent_branch_def split: if_splits)
  from recorded_attach [OF attach.IH this] attach.hyps(3) show ?case by auto
qed

text \<open>C19: recording never fails and materializing gives back what was recorded. On every builder the
program can make, a push succeeds, and so does grafting any other such builder at an existing node.
Building then succeeds when the tree has at most 2^32 nodes and no node is deeper than 1024; the
graph has one node per recorded step, in recording order, and each shows the step's tag, its key, its
children and a configuration equal to the recorded one, however the keyframes and patches were
chosen. Independent nodes report no changed fields.\<close>
theorem snapshots_faithful:
  assumes "patch_law lib" and "built lib b"
  shows "(\<forall>tag v. value_wf v \<longrightarrow> (\<exists>b'. push_node lib b tag v = Inr b')) \<and>
    (\<forall>br p. built lib br \<and> p < length (cb_slab b) \<longrightarrow>
       (\<exists>b'. attach_independent_branch b p br = Inr (b', length (cb_slab b)))) \<and>
    (shallow (children_of (cb_slab b)) \<and> length (cb_slab b) \<le> 2 ^ 32 \<longrightarrow>
       (\<exists>g. build_graph lib b = Inr g \<and> gr_root_id g = 0 \<and> length (gr_nodes g) = length (cb_slab b) \<and>
          (\<forall>i < length (cb_slab b). shows_node (cb_slab b) i (gr_nodes g ! i))))"
proof (intro conjI allI impI)
  fix tag v assume "value_wf v"
  then show "\<exists>b'. push_node lib b tag v = Inr b'"
    using recorded_push [OF built_recorded [OF assms(2)]] by blast
next
  fix br p assume "built lib br \<and> p < length (cb_slab b)"
  then show "\<exists>b'. attach_independent_branch b p br = Inr (b', length (cb_slab b))"
    using recorded_attach [OF built_recorded [OF assms(2)] built_recorded] by blast
next
  assume "shallow (children_of (cb_slab b)) \<and> length (cb_slab b) \<le> 2 ^ 32"
  then show "\<exists>g. build_graph lib b = Inr g \<and> gr_root_id g = 0 \<and> length (gr_nodes g) = length (cb_slab b) \<and>
      (\<forall>i < length (cb_slab b). shows_node (cb_slab b) i (gr_nodes g ! i))"
    using build_graph_ok [OF assms(1) built_recorded [OF assms(2)]] by blast
qed

text \<open>A patch library: replace the whole document.\<close>

definition whole_lib :: JsonLib where
  "whole_lib =
     \<lparr>jl_diff = (\<lambda>a b. [ReplaceOp [] b]),
      jl_patch = (\<lambda>a ps. case ps of [ReplaceOp p b] \<Rightarrow> if p = [] then Inr b else Inl ''unsupported'' | _ \<Rightarrow> Inl ''unsupported''),
      jl_patch_len = (\<lambda>ps. 1), jl_value_len = (\<lambda>v. 100)\<rparr>"

lemma whole_lib_law [simp]: "patch_law whole_lib"
  by (simp add: patch_law_def whole_lib_def json_eq_refl)

definition demo_recording :: ConfigSnapshotsBuilder where
  "demo_recording =
     (case push_node whole_lib (new_root (Object []) BareRoot) (BuiltinStep None GuardOverrides)
             (Object [(''mode'', String ''rule'')]) of Inr b \<Rightarrow> b | Inl e \<Rightarrow> new_root Null BareRoot)"

theorem snapshots_faithful_witness:
  "\<exists>g. build_graph whole_lib demo_recording = Inr g \<and> length (gr_nodes g) = 2 \<and>
     shows_node (cb_slab demo_recording) 1 (gr_nodes g ! 1)"
proof -
  have base: "built whole_lib (new_root (Object []) BareRoot)"
    unfolding new_root_def by (rule built.root) simp
  have push: "push_node whole_lib (new_root (Object []) BareRoot) (BuiltinStep None GuardOverrides)
      (Object [(''mode'', String ''rule'')]) = Inr demo_recording"
    by (simp add: demo_recording_def push_node_def new_root_def new_root_with_keyframe_policy_def Let_def
        insert_child_def)
  have "built whole_lib demo_recording" by (rule built.push [OF base _ push]) simp
  moreover have len: "length (cb_slab demo_recording) = 2"
    by (simp add: demo_recording_def push_node_def new_root_def new_root_with_keyframe_policy_def Let_def
        insert_child_def)
  moreover have "shallow (children_of (cb_slab demo_recording))"
    using built_recorded [OF \<open>built whole_lib demo_recording\<close>] len
    by (intro small_shallow) (simp_all add: recorded_def MAX_MATERIALIZE_DEPTH_def)
  ultimately show ?thesis
    using snapshots_faithful [OF whole_lib_law, of demo_recording] by force
qed

end
