(* ===== verification/Overlay.thy ===== *)
theory Overlay
  imports Config_Value
begin

text \<open>
  Overlay documents (\<^verbatim>\<open>runtime/executor/overlay.rs\<close>, log entries of \<^verbatim>\<open>executor/artifact.rs\<close>): a mapping
  whose keys are directives (\<^verbatim>\<open>prepend__\<close>, \<^verbatim>\<open>append__\<close>, \<^verbatim>\<open>override__\<close>, \<^verbatim>\<open>filter__\<close>) or plain keys, applied in document order.
  Nothing fails: what cannot be applied is logged and skipped.

  The script engine is a port, a record of two functions here. Logs are returned in the order
  the source pushes them; the text of an error the engine raised is its own.
\<close>

section \<open>Definitions\<close>

datatype StepLogLevel = LevelLog | LevelInfo | LevelWarn | LevelError

record StepLogEntry =
  log_level :: StepLogLevel
  log_message :: string

definition log_warn :: "string \<Rightarrow> StepLogEntry" where
  "log_warn msg = \<lparr>log_level = LevelWarn, log_message = msg\<rparr>"

definition log_error :: "string \<Rightarrow> StepLogEntry" where
  "log_error msg = \<lparr>log_level = LevelError, log_message = msg\<rparr>"

record 'r ScriptRunner =
  run_script :: "'r \<Rightarrow> string \<Rightarrow> ConfigValue \<Rightarrow> (string + ConfigValue) \<times> StepLogEntry list"
  eval_item_predicate :: "string \<Rightarrow> ConfigValue \<Rightarrow> string + bool"
  eval_item_expr :: "string \<Rightarrow> ConfigValue \<Rightarrow> string + ConfigValue"

definition ascii_lower :: "char \<Rightarrow> char" where
  "ascii_lower c = (let n = of_char c :: nat in if 65 \<le> n \<and> n \<le> 90 then char_of (n + 32) else c)"

definition to_ascii_lowercase :: "string \<Rightarrow> string" where
  "to_ascii_lowercase s = map ascii_lower s"

definition strip_prefix :: "string \<Rightarrow> string \<Rightarrow> string option" where
  "strip_prefix p s = (if take (length p) s = p then Some (drop (length p) s) else None)"

fun strip_any :: "string \<Rightarrow> string list \<Rightarrow> string option" where
  "strip_any s [] = None"
| "strip_any s (p # ps) = (case strip_prefix p s of Some r \<Rightarrow> Some r | None \<Rightarrow> strip_any s ps)"

text \<open>Decimal digits, as \<^verbatim>\<open>u64::to_string\<close>.\<close>

fun show_nat :: "nat \<Rightarrow> string" where
  "show_nat n =
     (if n < 10 then [char_of (48 + n)] else show_nat (n div 10) @ [char_of (48 + n mod 10)])"

declare show_nat.simps [simp del]

definition splice_sequence ::
    "ConfigValue \<Rightarrow> string \<Rightarrow> ConfigValue \<Rightarrow> bool \<Rightarrow> ConfigValue \<times> StepLogEntry list" where
  "splice_sequence config field v prepend =
     (case as_array_arc v of
        None \<Rightarrow> (config, [log_warn (''merge value for `'' @ field @ ''` is not a sequence, skipped'')])
      | Some to_merge \<Rightarrow>
          let segments = parse_dotted_path field in
          (case get_at config segments of
             None \<Rightarrow> (config, [log_warn (''field `'' @ field @ ''` not found, skipped'')])
           | Some target \<Rightarrow>
               (case as_array_arc target of
                  None \<Rightarrow> (config, [log_warn (''field `'' @ field @ ''` is not a sequence, skipped'')])
                | Some existing \<Rightarrow>
                    let items = (if prepend then to_merge @ existing else existing @ to_merge) in
                    (case replace_at config segments (Array items) of Some c \<Rightarrow> c | None \<Rightarrow> config, []))))"

definition override_path ::
    "ConfigValue \<Rightarrow> string \<Rightarrow> ConfigValue \<Rightarrow> ConfigValue \<times> StepLogEntry list" where
  "override_path config field v =
     (case replace_at config (parse_dotted_path field) v of
        Some next \<Rightarrow> (next, [])
      | None \<Rightarrow> (config, [log_warn (''field `'' @ field @ ''` not found, skipped'')]))"

definition bare_key_merge :: "ConfigValue \<Rightarrow> string \<Rightarrow> ConfigValue \<Rightarrow> ConfigValue" where
  "bare_key_merge config key data =
     (let existing = (case as_object_arc config of Some m \<Rightarrow> im_get m key | None \<Rightarrow> None)
      in obj_insert config key (deep_merge_value existing data))"

definition remove_entry :: "ConfigValue \<Rightarrow> ConfigValue \<Rightarrow> ConfigValue \<times> StepLogEntry list" where
  "remove_entry current path =
     (case path of
        String dotted \<Rightarrow>
          if as_object_arc current = None then
            (current, [log_warn (''remove path `'' @ dotted @ ''` on non-mapping item, skipped'')])
          else (case remove_at current (parse_dotted_path dotted) of
                  Some next \<Rightarrow> (next, [])
                | None \<Rightarrow> (current, [log_warn (''remove path `'' @ dotted @ ''` not found, skipped'')]))
      | Number index \<Rightarrow>
          if as_array_arc current = None then
            (current, [log_warn ''remove index on non-sequence item, skipped''])
          else (case (case index of
                        PosInt n \<Rightarrow> remove_at current [show_nat (unat n)]
                      | _ \<Rightarrow> None) of
                  Some next \<Rightarrow> (next, [])
                | None \<Rightarrow> (current, [log_warn ''remove index invalid, skipped'']))
      | _ \<Rightarrow> (current, [log_warn ''invalid remove entry, skipped'']))"

fun remove_from_item :: "ConfigValue \<Rightarrow> ConfigValue list \<Rightarrow> ConfigValue \<times> StepLogEntry list" where
  "remove_from_item item [] = (item, [])"
| "remove_from_item item (p # ps) =
     (let (current, l1) = remove_entry item p; (final, l2) = remove_from_item current ps
      in (final, l1 @ l2))"

datatype FilterAction =
    ActExpr string
  | ActOverride ConfigValue
  | ActMerge ConfigValue
  | ActRemove "ConfigValue list"

text \<open>The order of the arms and their guards: an action whose guard fails falls through.\<close>

definition filter_action :: "ConfigObject \<Rightarrow> FilterAction option" where
  "filter_action actions =
     (case im_get actions ''expr'' of
        Some (String e) \<Rightarrow> Some (ActExpr e)
      | _ \<Rightarrow>
          (case im_get actions ''override'' of
             Some r \<Rightarrow> Some (ActOverride r)
           | None \<Rightarrow>
               (case im_get actions ''merge'' of
                  Some (Object m) \<Rightarrow> Some (ActMerge (Object m))
                | _ \<Rightarrow>
                    (case im_get actions ''remove'' of
                       Some (Array ps) \<Rightarrow> Some (ActRemove ps)
                     | _ \<Rightarrow> None))))"

definition apply_action ::
    "'r ScriptRunner \<Rightarrow> FilterAction \<Rightarrow> ConfigValue \<Rightarrow> ConfigValue \<times> StepLogEntry list" where
  "apply_action runner act item =
     (case act of
        ActExpr e \<Rightarrow>
          (case eval_item_expr runner e item of
             Inr next \<Rightarrow> (next, [])
           | Inl err \<Rightarrow> (item, [log_warn (''filter `expr` failed, item kept: '' @ err)]))
      | ActOverride r \<Rightarrow> (r, [])
      | ActMerge mrg \<Rightarrow>
          if as_object_arc item = None
          then (item, [log_warn ''filter `merge` target item is not a mapping, item kept''])
          else (deep_merge_value (Some item) mrg, [])
      | ActRemove ps \<Rightarrow> remove_from_item item ps)"

definition filter_item ::
    "'r ScriptRunner \<Rightarrow> string \<Rightarrow> FilterAction \<Rightarrow> ConfigValue \<Rightarrow> ConfigValue \<times> StepLogEntry list" where
  "filter_item runner when_expr act item =
     (case eval_item_predicate runner when_expr item of
        Inl err \<Rightarrow> (item, [log_warn (''filter `when` failed, treated as false: '' @ err)])
      | Inr hit \<Rightarrow> if hit then apply_action runner act item else (item, []))"

definition keep_item :: "'r ScriptRunner \<Rightarrow> string \<Rightarrow> ConfigValue \<Rightarrow> bool \<times> StepLogEntry list" where
  "keep_item runner e item =
     (case eval_item_predicate runner e item of
        Inr keep \<Rightarrow> (keep, [])
      | Inl err \<Rightarrow> (False, [log_warn (''filter expr failed, item removed: '' @ err)]))"

fun apply_filter ::
    "'r ScriptRunner \<Rightarrow> ConfigValue list \<Rightarrow> ConfigValue \<Rightarrow> ConfigValue list \<times> StepLogEntry list"
  and apply_filters ::
    "'r ScriptRunner \<Rightarrow> ConfigValue list \<Rightarrow> ConfigValue list \<Rightarrow> ConfigValue list \<times> StepLogEntry list" where
  "apply_filter runner items flt =
     (case flt of
        Array filters \<Rightarrow> apply_filters runner items filters
      | String e \<Rightarrow>
          (filter (\<lambda>x. fst (keep_item runner e x)) items, concat (map (snd \<circ> keep_item runner e) items))
      | Object actions \<Rightarrow>
          (case im_get actions ''when'' of
             Some (String w) \<Rightarrow>
               (case filter_action actions of
                  None \<Rightarrow> (items, [log_warn ''invalid filter: no action''])
                | Some act \<Rightarrow>
                    (map (fst \<circ> filter_item runner w act) items,
                     concat (map (snd \<circ> filter_item runner w act) items)))
           | _ \<Rightarrow> (items, [log_warn ''invalid filter: missing `when`'']))
      | _ \<Rightarrow> (items, [log_warn ''invalid filter value, skipped'']))"
| "apply_filters runner items [] = (items, [])"
| "apply_filters runner items (f # fs) =
     (let (acc, l1) = apply_filter runner items f; (res, l2) = apply_filters runner acc fs
      in (res, l1 @ l2))"

declare apply_filter.simps [simp del]

definition filter_path ::
    "'r ScriptRunner \<Rightarrow> ConfigValue \<Rightarrow> string \<Rightarrow> ConfigValue \<Rightarrow> ConfigValue \<times> StepLogEntry list" where
  "filter_path runner config field flt =
     (let segments = parse_dotted_path field in
      case get_at config segments of
        None \<Rightarrow> (config, [log_warn (''field `'' @ field @ ''` not found, skipped'')])
      | Some target \<Rightarrow>
          (case as_array_arc target of
             None \<Rightarrow> (config, [log_warn (''field `'' @ field @ ''` is not a sequence, skipped'')])
           | Some existing \<Rightarrow>
               let (filtered, logs) = apply_filter runner existing flt in
               (case replace_at config segments (Array filtered) of Some c \<Rightarrow> c | None \<Rightarrow> config, logs)))"

definition apply_directive ::
    "'r ScriptRunner \<Rightarrow> string \<Rightarrow> ConfigValue \<Rightarrow> ConfigValue \<Rightarrow> ConfigValue \<times> StepLogEntry list" where
  "apply_directive runner key v config =
     (let lowered = to_ascii_lowercase key in
      case strip_any lowered [''prepend__'', ''prepend-''] of
        Some field \<Rightarrow> splice_sequence config field v True
      | None \<Rightarrow>
          (case strip_any lowered [''append__'', ''append-''] of
             Some field \<Rightarrow> splice_sequence config field v False
           | None \<Rightarrow>
               (case strip_prefix ''override__'' lowered of
                  Some field \<Rightarrow> override_path config field v
                | None \<Rightarrow>
                    (case strip_prefix ''filter__'' lowered of
                       Some field \<Rightarrow> filter_path runner config field v
                     | None \<Rightarrow> (bare_key_merge config key v, [])))))"

fun apply_entries ::
    "'r ScriptRunner \<Rightarrow> (string \<times> ConfigValue) list \<Rightarrow> ConfigValue \<Rightarrow> ConfigValue \<times> StepLogEntry list" where
  "apply_entries runner [] config = (config, [])"
| "apply_entries runner ((k, v) # kvs) config =
     (let (c1, l1) = apply_directive runner k v config; (c2, l2) = apply_entries runner kvs c1
      in (c2, l1 @ l2))"

definition apply_overlay ::
    "'r ScriptRunner \<Rightarrow> ConfigValue \<Rightarrow> ConfigValue \<Rightarrow> ConfigValue \<times> StepLogEntry list" where
  "apply_overlay runner overlay config =
     (case as_object_arc overlay of
        None \<Rightarrow> (config, [log_warn ''overlay document is not a mapping, skipped''])
      | Some entries \<Rightarrow> apply_entries runner entries config)"


section \<open>Lemmas\<close>

lemma split_char_nonempty [simp]: "split_char c s \<noteq> []"
  by (induction s) (auto split: list.splits)

lemma parse_dotted_path_nonempty [simp]: "parse_dotted_path s \<noteq> []"
  by (simp add: parse_dotted_path_def)

text \<open>Printing and parsing a position.\<close>

lemma digit_of_char: "d < 10 \<Longrightarrow> digit_of (char_of (48 + d)) = Some d"
  by (simp add: digit_of_def Let_def)

lemma digits_value_append:
  "digits_value acc (xs @ ys) =
     (case digits_value acc xs of None \<Rightarrow> None | Some a \<Rightarrow> digits_value a ys)"
  by (induction xs arbitrary: acc) (auto split: option.splits)

lemma digits_value_show: "digits_value 0 (show_nat n) = Some n"
proof (induction n rule: show_nat.induct)
  case (1 n)
  show ?case
  proof (cases "n < 10")
    case True
    then show ?thesis by (simp add: show_nat.simps [of n] digit_of_char)
  next
    case False
    with 1 have "digits_value 0 (show_nat n) = Some (10 * (n div 10) + n mod 10)"
      by (simp add: show_nat.simps [of n] digits_value_append digit_of_char)
    then show ?thesis by simp
  qed
qed

lemma show_nat_head: "\<exists>c cs. show_nat n = c # cs \<and> c \<noteq> CHR ''+''"
proof (induction n rule: show_nat.induct)
  case (1 n)
  have plus: "char_of (48 + d) \<noteq> CHR ''+''" if "d < 10" for d :: nat
  proof
    assume "char_of (48 + d) = CHR ''+''"
    then have "(of_char (char_of (48 + d) :: char) :: nat) = of_char CHR ''+''" by simp
    then show False using that by simp
  qed
  show ?case
  proof (cases "n < 10")
    case True
    then show ?thesis using plus by (simp add: show_nat.simps [of n])
  next
    case False
    with 1 show ?thesis by (auto simp: show_nat.simps [of n])
  qed
qed

lemma parse_usize_show: "n < 2 ^ 64 \<Longrightarrow> parse_usize (show_nat n) = Some n"
proof -
  assume n: "n < 2 ^ 64"
  obtain c cs where s: "show_nat n = c # cs" "c \<noteq> CHR ''+''" using show_nat_head by blast
  then have "(case show_nat n of CHR ''+'' # cs \<Rightarrow> cs | _ \<Rightarrow> show_nat n) = show_nat n"
    by (auto split: char.splits bool.splits)
  with n s digits_value_show [of n] show ?thesis
    unfolding parse_usize_def Let_def by simp
qed

text \<open>An engine whose replies are values of the program.\<close>

definition runner_wf :: "'r ScriptRunner \<Rightarrow> bool" where
  "runner_wf runner =
     ((\<forall>e item v. value_wf item \<longrightarrow> eval_item_expr runner e item = Inr v \<longrightarrow> value_wf v) \<and>
      (\<forall>rt src c v. value_wf c \<longrightarrow> fst (run_script runner rt src c) = Inr v \<longrightarrow> value_wf v))"

lemma runner_wf_run: "runner_wf runner \<Longrightarrow> value_wf c \<Longrightarrow> fst (run_script runner rt src c) = Inr v \<Longrightarrow> value_wf v"
  unfolding runner_wf_def by blast

lemma as_array_arc_None: "(as_array_arc a = None) = (\<forall>xs. a \<noteq> Array xs)"
  by (cases a) auto

lemma as_array_arc_Some: "(as_array_arc a = Some xs) = (a = Array xs)"
  by (cases a) auto

definition is_object :: "ConfigValue \<Rightarrow> bool" where
  "is_object v = (as_object_arc v \<noteq> None)"

lemma is_object_replace_at:
  "replace_at r p v = Some r' \<Longrightarrow> p \<noteq> [] \<Longrightarrow> is_object r' = is_object r"
  by (cases p; cases r) (auto simp: is_object_def split: option.splits if_splits)

lemma is_object_insert [simp]: "is_object (obj_insert v k e)"
  by (simp add: is_object_def obj_insert_def)

lemma value_wf_remove_entry: "value_wf v \<Longrightarrow> value_wf (fst (remove_entry v p))"
  by (auto simp: remove_entry_def simp del: remove_at.simps value_wf.simps
      split: ConfigValue.splits option.splits Number.splits dest: value_wf_remove_at)

lemma value_wf_remove_from_item: "value_wf v \<Longrightarrow> value_wf (fst (remove_from_item v ps))"
proof (induction ps arbitrary: v)
  case (Cons p ps)
  have "value_wf (fst (remove_from_item (fst (remove_entry v p)) ps))"
    using Cons.IH [OF value_wf_remove_entry [OF Cons.prems]] .
  then show ?case by (simp add: Let_def split_beta)
qed simp

fun action_wf :: "FilterAction \<Rightarrow> bool" where
  "action_wf (ActOverride v) = value_wf v"
| "action_wf (ActMerge v) = value_wf v"
| "action_wf _ = True"

text \<open>Where an action that carries a value takes it from.\<close>

lemma filter_action_value:
  assumes "filter_action actions = Some act"
  shows "act = ActOverride v \<Longrightarrow> im_get actions ''override'' = Some v"
    and "act = ActMerge v \<Longrightarrow> im_get actions ''merge'' = Some v"
proof -
  let ?rest = "case im_get actions ''merge'' of
      Some (Object m) \<Rightarrow> Some (ActMerge (Object m))
    | _ \<Rightarrow> (case im_get actions ''remove'' of Some (Array ps) \<Rightarrow> Some (ActRemove ps) | _ \<Rightarrow> None)"
  let ?over = "case im_get actions ''override'' of Some r \<Rightarrow> Some (ActOverride r) | None \<Rightarrow> ?rest"
  have "(\<exists>e. act = ActExpr e) \<or> ?over = Some act"
    using assms unfolding filter_action_def by (auto split: option.splits ConfigValue.splits)
  moreover have "(\<exists>r. act = ActOverride r \<and> im_get actions ''override'' = Some r) \<or> ?rest = Some act"
    if "?over = Some act" using that by (auto split: option.splits)
  moreover have "(\<exists>m. act = ActMerge m \<and> im_get actions ''merge'' = Some m) \<or> (\<exists>ps. act = ActRemove ps)"
    if "?rest = Some act"
  proof -
    have "(case im_get actions ''remove'' of Some (Array ps) \<Rightarrow> Some (ActRemove ps) | _ \<Rightarrow> None) = Some act \<Longrightarrow>
        \<exists>ps. act = ActRemove ps"
      by (auto split: option.splits ConfigValue.splits)
    with that show ?thesis by (cases "im_get actions ''merge''") (auto split: ConfigValue.splits)
  qed
  ultimately show "act = ActOverride v \<Longrightarrow> im_get actions ''override'' = Some v"
    and "act = ActMerge v \<Longrightarrow> im_get actions ''merge'' = Some v" by auto
qed

lemma action_wf_filter_action:
  assumes "value_wf (Object actions)" and "filter_action actions = Some act"
  shows "action_wf act"
  using filter_action_value [OF assms(2)] value_wf_get [OF assms(1)] by (cases act) auto

lemma value_wf_apply_action:
  assumes "runner_wf runner" and "action_wf act" and "value_wf item"
  shows "value_wf (fst (apply_action runner act item))"
proof (cases act)
  case (ActExpr e)
  moreover have "value_wf v" if "eval_item_expr runner e item = Inr v" for v
    using assms(1,3) that unfolding runner_wf_def by blast
  ultimately show ?thesis using assms(3) by (auto simp: apply_action_def split: sum.splits)
next
  case (ActMerge m)
  with assms value_wf_deep_merge [of m "Some item"] show ?thesis by (simp add: apply_action_def)
qed (use assms in \<open>simp_all add: apply_action_def value_wf_remove_from_item\<close>)

lemma value_wf_filter_item:
  "runner_wf runner \<Longrightarrow> action_wf act \<Longrightarrow> value_wf item \<Longrightarrow> value_wf (fst (filter_item runner w act item))"
  by (simp add: filter_item_def value_wf_apply_action split: sum.splits)

lemma value_wf_apply_filter:
  shows "runner_wf runner \<Longrightarrow> list_all value_wf items \<Longrightarrow> value_wf flt \<Longrightarrow>
      list_all value_wf (fst (apply_filter runner items flt))"
    and "runner_wf runner \<Longrightarrow> list_all value_wf items \<Longrightarrow> list_all value_wf fs \<Longrightarrow>
      list_all value_wf (fst (apply_filters runner items fs))"
proof (induction runner items flt and runner items fs rule: apply_filter_apply_filters.induct)
  case (1 runner items flt)
  then show ?case
  proof (cases flt)
    case (Object actions)
    show ?thesis
    proof (cases "\<exists>w act. im_get actions ''when'' = Some (String w) \<and> filter_action actions = Some act")
      case True
      then obtain w act where *: "im_get actions ''when'' = Some (String w)" "filter_action actions = Some act"
        by blast
      have "action_wf act" using action_wf_filter_action 1 Object * by blast
      with * Object 1 show ?thesis
        by (auto simp: apply_filter.simps list_all_iff value_wf_filter_item)
    next
      case False
      with Object 1 show ?thesis
        by (auto simp: apply_filter.simps split: option.splits ConfigValue.splits)
    qed
  qed (auto simp: apply_filter.simps list_all_iff)
next
  case (3 runner items f fs)
  obtain acc l where acc: "apply_filter runner items f = (acc, l)" by fastforce
  have "list_all value_wf acc" using 3(1,3-5) acc by simp
  then have "list_all value_wf (fst (apply_filters runner acc fs))"
    using 3(2) [OF acc [symmetric] refl] 3(3-5) by simp
  then show ?case by (simp add: acc Let_def split_beta)
qed simp


section \<open>Properties of overlays\<close>

lemma replaced_wf: "value_wf c \<Longrightarrow> value_wf v \<Longrightarrow>
    value_wf (case replace_at c p v of Some c' \<Rightarrow> c' | None \<Rightarrow> c)"
  by (auto split: option.splits dest: value_wf_replace_at)

lemma replaced_object: "p \<noteq> [] \<Longrightarrow>
    is_object (case replace_at c p v of Some c' \<Rightarrow> c' | None \<Rightarrow> c) = is_object c"
  by (auto split: option.splits dest: is_object_replace_at)

lemma splice_sequence_shape:
  assumes "value_wf c" and "value_wf v"
  shows "value_wf (fst (splice_sequence c field v prepend)) \<and>
    is_object (fst (splice_sequence c field v prepend)) = is_object c"
proof (cases "\<exists>xs ys. v = Array xs \<and> get_at c (parse_dotted_path field) = Some (Array ys)")
  case True
  then obtain xs ys where *: "v = Array xs" "get_at c (parse_dotted_path field) = Some (Array ys)" by blast
  have "value_wf (Array ys)" using value_wf_get_at [OF assms(1) *(2)] .
  then have "value_wf (Array (if prepend then xs @ ys else ys @ xs))" using assms(2) * by simp
  with assms(1) * show ?thesis
    by (simp add: splice_sequence_def Let_def replaced_wf replaced_object del: value_wf.simps)
next
  case False
  then have "fst (splice_sequence c field v prepend) = c"
    by (cases v; cases "get_at c (parse_dotted_path field)")
      (auto simp: splice_sequence_def Let_def as_array_arc_None as_array_arc_Some split: option.splits)
  with assms show ?thesis by simp
qed

lemma filter_path_shape:
  assumes "runner_wf runner" and "value_wf c" and "value_wf v"
  shows "value_wf (fst (filter_path runner c field v)) \<and> is_object (fst (filter_path runner c field v)) = is_object c"
proof (cases "\<exists>ys. get_at c (parse_dotted_path field) = Some (Array ys)")
  case True
  then obtain ys where *: "get_at c (parse_dotted_path field) = Some (Array ys)" by blast
  have "list_all value_wf ys" using value_wf_get_at [OF assms(2) *] by simp
  then have "value_wf (Array (fst (apply_filter runner ys v)))"
    using value_wf_apply_filter(1) [OF assms(1) _ assms(3)] by simp
  with assms(2) * show ?thesis
    by (simp add: filter_path_def Let_def split_beta replaced_wf replaced_object del: value_wf.simps)
next
  case False
  then have "fst (filter_path runner c field v) = c"
    by (cases "get_at c (parse_dotted_path field)")
      (auto simp: filter_path_def Let_def as_array_arc_None as_array_arc_Some split: option.splits)
  with assms show ?thesis by simp
qed

lemma override_path_shape:
  assumes "value_wf c" and "value_wf v"
  shows "value_wf (fst (override_path c field v)) \<and> is_object (fst (override_path c field v)) = is_object c"
  using assms is_object_replace_at [of c "parse_dotted_path field" v]
  by (auto simp: override_path_def split: option.splits dest: value_wf_replace_at)

lemma bare_key_merge_shape:
  assumes "value_wf c" and "value_wf v"
  shows "value_wf (bare_key_merge c key v) \<and> is_object (bare_key_merge c key v)"
proof -
  let ?e = "case as_object_arc c of Some m \<Rightarrow> im_get m key | None \<Rightarrow> None"
  have "value_wf x" if "?e = Some x" for x
    using that assms(1) by (cases c) (auto simp: list_all_iff dest: map_of_SomeD)
  then have "value_wf (deep_merge_value ?e v)" using assms(2) by (rule value_wf_deep_merge [rotated])
  with assms(1) show ?thesis by (simp add: bare_key_merge_def Let_def value_wf_obj_insert)
qed

lemma apply_directive_shape:
  assumes "runner_wf runner" and "value_wf c" and "value_wf v"
  shows "value_wf (fst (apply_directive runner k v c)) \<and>
    (is_object c \<longrightarrow> is_object (fst (apply_directive runner k v c)))"
  using splice_sequence_shape [OF assms(2,3)] filter_path_shape [OF assms] override_path_shape [OF assms(2,3)]
    bare_key_merge_shape [OF assms(2,3)]
  unfolding apply_directive_def Let_def by (simp split: option.splits)

lemma apply_entries_shape:
  assumes "runner_wf runner" and "\<forall>kv \<in> set kvs. value_wf (snd kv)" and "value_wf c"
  shows "value_wf (fst (apply_entries runner kvs c)) \<and>
    (is_object c \<longrightarrow> is_object (fst (apply_entries runner kvs c)))"
  using assms(2,3)
proof (induction kvs arbitrary: c)
  case (Cons kv kvs)
  obtain k v where kv: "kv = (k, v)" by (cases kv)
  from Cons.prems kv have "value_wf v" by simp
  note step = apply_directive_shape [OF assms(1) Cons.prems(2) this, of k]
  from Cons.IH [of "fst (apply_directive runner k v c)"] Cons.prems step kv show ?case
    by (simp add: Let_def split_beta)
qed simp

lemma apply_overlay_wf:
  assumes "runner_wf runner" and "value_wf overlay" and "value_wf config"
  shows "value_wf (fst (apply_overlay runner overlay config))"
proof (cases overlay)
  case (Object m)
  with assms(2) have "\<forall>kv \<in> set m. value_wf (snd kv)" by (simp add: list_all_iff)
  from apply_entries_shape [OF assms(1) this assms(3)] Object show ?thesis
    by (simp add: apply_overlay_def)
qed (use assms in \<open>simp_all add: apply_overlay_def\<close>)


text \<open>A small engine: the predicate \<open>hk\<close> holds of text starting with H, everything else fails.\<close>

definition demo_runner :: "unit ScriptRunner" where
  "demo_runner =
     \<lparr>run_script = (\<lambda>rt src c. (Inr c, [])),
      eval_item_predicate = (\<lambda>e item. if e = ''hk'' then Inr (case item of String (c # _) \<Rightarrow> c = CHR ''H'' | _ \<Rightarrow> False)
                                      else Inl ''syntax error''),
      eval_item_expr = (\<lambda>e item. Inl ''syntax error'')\<rparr>"

lemma demo_runner_wf [simp]: "runner_wf demo_runner"
  by (simp add: runner_wf_def demo_runner_def)




text \<open>C29: \<^verbatim>\<open>prepend\<close> and \<^verbatim>\<open>append\<close> do exactly what they say or nothing. When both the directive's value and
  the addressed field are sequences, the field then holds the concatenation in the right order, no
  message is logged and every path that parts from it is untouched; in every other case the
  configuration is unchanged and exactly one warning is logged.\<close>

theorem splice_sequence_exact:
  "(\<forall>xs ys. v = Array xs \<longrightarrow> get_at c (parse_dotted_path field) = Some (Array ys) \<longrightarrow>
      get_at (fst (splice_sequence c field v prepend)) (parse_dotted_path field) =
        Some (Array (if prepend then xs @ ys else ys @ xs)) \<and>
      snd (splice_sequence c field v prepend) = [] \<and>
      (\<forall>q. diverge (parse_dotted_path field) q \<longrightarrow>
         get_at (fst (splice_sequence c field v prepend)) q = get_at c q)) \<and>
   ((\<nexists>xs. v = Array xs) \<or> (\<nexists>ys. get_at c (parse_dotted_path field) = Some (Array ys)) \<longrightarrow>
      fst (splice_sequence c field v prepend) = c \<and> length (snd (splice_sequence c field v prepend)) = 1)"
proof (intro conjI allI impI)
  fix xs ys
  assume v: "v = Array xs" and g: "get_at c (parse_dotted_path field) = Some (Array ys)"
  let ?w = "Array (if prepend then xs @ ys else ys @ xs)"
  obtain c' where c': "replace_at c (parse_dotted_path field) ?w = Some c'"
    using dotted.put_defined [of c "parse_dotted_path field" ?w] g by auto
  then have eq: "splice_sequence c field v prepend = (c', [])"
    using v g by (simp add: splice_sequence_def Let_def)
  show "get_at (fst (splice_sequence c field v prepend)) (parse_dotted_path field) = Some ?w"
    using dotted.look_put [OF c'] eq by simp
  show "snd (splice_sequence c field v prepend) = []" using eq by simp
  show "get_at (fst (splice_sequence c field v prepend)) q = get_at c q"
    if "diverge (parse_dotted_path field) q" for q
    using replace_at_frame [OF c' that] eq by simp
next
  assume *: "(\<nexists>xs. v = Array xs) \<or> (\<nexists>ys. get_at c (parse_dotted_path field) = Some (Array ys))"
  then have "fst (splice_sequence c field v prepend) = c \<and> length (snd (splice_sequence c field v prepend)) = 1"
    by (cases v; cases "get_at c (parse_dotted_path field)")
      (auto simp: splice_sequence_def Let_def as_array_arc_None as_array_arc_Some split: option.splits)
  then show "fst (splice_sequence c field v prepend) = c"
    "length (snd (splice_sequence c field v prepend)) = 1" by auto
qed

end
