(* ===== verification/Builtin_Steps.thy ===== *)
theory Builtin_Steps
  imports Overlay
begin

text \<open>
  The built-in steps at the end of the pipeline (\<^verbatim>\<open>runtime/executor/builtin.rs\<close>, with the inputs of
  \<^verbatim>\<open>executor/mod.rs\<close> and the guard overrides of \<^verbatim>\<open>clash/config/overrides\<close>): the field whitelist, the guarded
  fields, TUN and DNS defaults, group expansion, caching defaults and the final key order.

  The two fields that exist under the feature \<^verbatim>\<open>default-meta\<close> only are optional here.
\<close>

section \<open>Fields\<close>

definition HANDLE_FIELDS :: "string list" where
  "HANDLE_FIELDS =
     [''mode'', ''port'', ''socks-port'', ''mixed-port'', ''allow-lan'', ''log-level'', ''ipv6'', ''secret'',
      ''external-controller'']"

definition DEFAULT_FIELDS :: "string list" where
  "DEFAULT_FIELDS = [''proxies'', ''proxy-groups'', ''proxy-providers'', ''rules'', ''rule-providers'']"

definition OTHERS_FIELDS :: "string list" where
  "OTHERS_FIELDS =
     [''dns'', ''tun'', ''ebpf'', ''hosts'', ''script'', ''profile'', ''payload'', ''tunnels'', ''auto-redir'',
      ''experimental'', ''interface-name'', ''routing-mark'', ''redir-port'', ''tproxy-port'', ''iptables'',
      ''external-ui'', ''bind-address'', ''authentication'', ''tls'', ''sniffer'', ''geox-url'', ''listeners'',
      ''sub-rules'', ''geodata-mode'', ''unified-delay'', ''tcp-concurrent'', ''enable-process'',
      ''find-process-mode'', ''skip-auth-prefixes'', ''external-controller-tls'',
      ''global-client-fingerprint'']"

definition known_fields :: "string list" where
  "known_fields = DEFAULT_FIELDS @ HANDLE_FIELDS @ OTHERS_FIELDS"

definition stage1_fields :: "string list \<Rightarrow> string list" where
  "stage1_fields valid =
     filter (\<lambda>f. f \<in> set OTHERS_FIELDS) (map to_ascii_lowercase valid) @ DEFAULT_FIELDS"

definition whitelist_filter :: "ConfigValue \<Rightarrow> string list \<Rightarrow> bool \<Rightarrow> ConfigValue" where
  "whitelist_filter config allow enabled =
     (if \<not> enabled then config
      else case as_object_arc config of
             None \<Rightarrow> config
           | Some m \<Rightarrow> Object (filter (\<lambda>(k, v). k \<in> set allow) m))"

section \<open>Guarded fields\<close>

datatype LogLevel = Silent | Error | Warning | Info | Debug

datatype Mode = Rule | GlobalMode | Direct

record ClashGuardOverrides =
  go_log_level :: LogLevel
  go_allow_lan :: bool
  go_mode :: Mode
  go_secret :: string
  go_unified_delay :: "bool option"
  go_tcp_concurrent :: "bool option"
  go_ipv6 :: bool

record ResolvedPortBindings =
  rp_mixed_port :: u16
  rp_port :: "u16 option"
  rp_socks_port :: "u16 option"
  rp_external_controller :: "string option"

record GuardInputs =
  gi_overrides :: ClashGuardOverrides
  gi_ports :: ResolvedPortBindings

fun show_log_level :: "LogLevel \<Rightarrow> string" where
  "show_log_level Silent = ''silent''"
| "show_log_level Error = ''error''"
| "show_log_level Warning = ''warning''"
| "show_log_level Info = ''info''"
| "show_log_level Debug = ''debug''"

fun show_mode :: "Mode \<Rightarrow> string" where
  "show_mode Rule = ''rule''"
| "show_mode GlobalMode = ''global''"
| "show_mode Direct = ''direct''"

text \<open>The overrides as the JSON object serde writes, in field order.\<close>

definition opt_field :: "string \<Rightarrow> bool option \<Rightarrow> (string \<times> ConfigValue) list" where
  "opt_field k b = (case b of None \<Rightarrow> [] | Some x \<Rightarrow> [(k, Bool x)])"

definition overrides_entries :: "ClashGuardOverrides \<Rightarrow> (string \<times> ConfigValue) list" where
  "overrides_entries g =
     [(''log-level'', String (show_log_level (go_log_level g))), (''allow-lan'', Bool (go_allow_lan g)),
      (''mode'', String (show_mode (go_mode g))), (''secret'', String (go_secret g))] @
     opt_field ''unified-delay'' (go_unified_delay g) @
     opt_field ''tcp-concurrent'' (go_tcp_concurrent g) @
     [(''ipv6'', Bool (go_ipv6 g))]"

definition port_value :: "u16 \<Rightarrow> ConfigValue" where
  "port_value p = Number (PosInt (ucast p))"

text \<open>\<^verbatim>\<open>if let Some(x) = .. { next = obj_insert(&next, key, ..) }\<close>\<close>

definition insert_some :: "string \<Rightarrow> ConfigValue option \<Rightarrow> ConfigValue \<Rightarrow> ConfigValue" where
  "insert_some k e config = (case e of None \<Rightarrow> config | Some v \<Rightarrow> obj_insert config k v)"

text \<open>Encoding the overrides cannot fail for this type, so the step is total.\<close>

definition apply_guard :: "ConfigValue \<Rightarrow> GuardInputs \<Rightarrow> ConfigValue" where
  "apply_guard config guard =
     (let c1 = fold (\<lambda>(k, v) c. obj_insert c k v) (overrides_entries (gi_overrides guard)) config;
          ports = gi_ports guard;
          c2 = obj_insert c1 ''mixed-port'' (port_value (rp_mixed_port ports));
          c3 = insert_some ''port'' (map_option port_value (rp_port ports)) c2;
          c4 = insert_some ''socks-port'' (map_option port_value (rp_socks_port ports)) c3
      in insert_some ''external-controller'' (map_option String (rp_external_controller ports)) c4)"

section \<open>Finalizing\<close>

datatype TunStack = System | Gvisor | Mixed

datatype TunFlavor = ClashRs | Standard TunStack

record TunParams =
  tun_enable :: bool
  tun_flavor :: TunFlavor
  tun_windows_fake_ip_filter :: bool

fun show_stack :: "TunStack \<Rightarrow> string" where
  "show_stack System = ''system''"
| "show_stack Gvisor = ''gvisor''"
| "show_stack Mixed = ''mixed''"

definition object_of :: "ConfigValue option \<Rightarrow> ConfigObject" where
  "object_of v = (case v of Some (Object m) \<Rightarrow> m | _ \<Rightarrow> [])"

definition append_default :: "string \<Rightarrow> ConfigValue \<Rightarrow> ConfigObject \<Rightarrow> ConfigObject" where
  "append_default k v m = (if im_contains_key k m then m else im_insert k v m)"

definition string_value :: "string \<Rightarrow> ConfigValue" where
  "string_value text = String text"

definition string_list :: "string list \<Rightarrow> ConfigValue" where
  "string_list items = Array (map string_value items)"

definition apply_tun_dns :: "ConfigValue \<Rightarrow> bool \<Rightarrow> ConfigValue" where
  "apply_tun_dns config windows =
     (let d0 = im_insert ''enable'' (Bool True) (object_of (obj_get config ''dns''));
          d1 = append_default ''enhanced-mode'' (string_value ''fake-ip'') d0;
          d2 = append_default ''fake-ip-range'' (string_value ''198.18.0.1/16'') d1;
          d3 = append_default ''nameserver'' (string_list [''114.114.114.114'', ''223.5.5.5'', ''8.8.8.8'']) d2;
          d4 = append_default ''fallback'' (Array []) d3;
          d5 = (if windows
                then append_default ''fake-ip-filter''
                       (string_list [''dns.msftncsi.com'', ''www.msftncsi.com'', ''www.msftconnecttest.com'']) d4
                else d4)
      in obj_insert config ''dns'' (Object d5))"

definition tun_object :: "TunParams \<Rightarrow> ConfigValue option \<Rightarrow> ConfigObject" where
  "tun_object params existing =
     (let t0 = im_insert ''enable'' (Bool (tun_enable params)) (object_of existing) in
      if \<not> tun_enable params then t0
      else case tun_flavor params of
             ClashRs \<Rightarrow>
               append_default ''auto-route'' (Bool True)
                 (append_default ''device-id'' (string_value ''dev://utun1989'') t0)
           | Standard stack \<Rightarrow>
               append_default ''auto-detect-interface'' (Bool True)
                 (append_default ''auto-route'' (Bool True)
                   (append_default ''dns-hijack'' (string_list [''any:53''])
                     (append_default ''stack'' (string_value (show_stack stack)) t0))))"

definition apply_tun :: "ConfigValue \<Rightarrow> TunParams \<Rightarrow> ConfigValue" where
  "apply_tun config params =
     (let existing = obj_get config ''tun'' in
      if \<not> tun_enable params \<and> existing = None then config
      else let next = obj_insert config ''tun'' (Object (tun_object params existing)) in
           if tun_enable params then apply_tun_dns next (tun_windows_fake_ip_filter params) else next)"

fun proxy_name :: "ConfigValue \<Rightarrow> string option" where
  "proxy_name (Object m) = (case im_get m ''name'' of Some (String n) \<Rightarrow> Some n | _ \<Rightarrow> None)"
| "proxy_name _ = None"

fun string_of :: "ConfigValue \<Rightarrow> string option" where
  "string_of (String s) = Some s"
| "string_of _ = None"

definition all_names :: "ConfigValue \<Rightarrow> string list" where
  "all_names config =
     (case obj_get config ''proxies'' of
        Some (Array ps) \<Rightarrow> List.map_filter proxy_name ps | _ \<Rightarrow> []) @
     (case obj_get config ''proxy-providers'' of Some (Object m) \<Rightarrow> im_keys m | _ \<Rightarrow> [])"

definition expand_group :: "string list \<Rightarrow> ConfigValue \<Rightarrow> ConfigValue" where
  "expand_group names grp =
     (case as_object_arc grp of
        None \<Rightarrow> grp
      | Some m \<Rightarrow>
          if im_get m ''include-all'' \<noteq> Some (Bool True) \<or> \<not> im_contains_key ''name'' m then grp
          else let existing = (case im_get m ''proxies'' of
                                 Some (Array xs) \<Rightarrow> List.map_filter string_of xs | _ \<Rightarrow> []);
                   proxies = map string_value names @ map string_value (filter (\<lambda>n. n \<notin> set names) existing)
               in Object (im_shift_remove ''include-all'' (im_insert ''proxies'' (Array proxies) m)))"

definition apply_include_all :: "ConfigValue \<Rightarrow> ConfigValue" where
  "apply_include_all config =
     (case obj_get config ''proxy-groups'' of
        Some (Array groups) \<Rightarrow>
          obj_insert config ''proxy-groups'' (Array (map (expand_group (all_names config)) groups))
      | _ \<Rightarrow> config)"

definition apply_cache :: "ConfigValue \<Rightarrow> ConfigValue" where
  "apply_cache config =
     (if obj_get config ''profile'' \<noteq> None then config
      else obj_insert config ''profile''
             (Object [(''store-selected'', Bool True), (''store-fake-ip'', Bool False)]))"

definition sort_order :: "string list" where
  "sort_order = HANDLE_FIELDS @ OTHERS_FIELDS @ DEFAULT_FIELDS"

definition apply_sort :: "ConfigValue \<Rightarrow> ConfigValue" where
  "apply_sort config =
     (case as_object_arc config of
        None \<Rightarrow> config
      | Some m \<Rightarrow>
          let known = fold (\<lambda>k next. case im_get m k of Some v \<Rightarrow> im_insert k v next | None \<Rightarrow> next)
                        sort_order [];
              full = fold (\<lambda>(k, v) next. if im_contains_key k next then next else im_insert k v next) m known
          in Object full)"

definition finalize :: "ConfigValue \<Rightarrow> TunParams \<Rightarrow> bool \<Rightarrow> ConfigValue" where
  "finalize config tun whitelist_enabled =
     apply_sort (apply_cache (apply_include_all (apply_tun
       (whitelist_filter config known_fields whitelist_enabled) tun)))"

section \<open>Reading the result of each step\<close>

text \<open>What the guard forces, by key.\<close>

definition guard_value :: "GuardInputs \<Rightarrow> string \<Rightarrow> ConfigValue option" where
  "guard_value g = map_of
     (overrides_entries (gi_overrides g) @ [(''mixed-port'', port_value (rp_mixed_port (gi_ports g)))] @
      (case rp_port (gi_ports g) of None \<Rightarrow> [] | Some p \<Rightarrow> [(''port'', port_value p)]) @
      (case rp_socks_port (gi_ports g) of None \<Rightarrow> [] | Some p \<Rightarrow> [(''socks-port'', port_value p)]) @
      (case rp_external_controller (gi_ports g) of
         None \<Rightarrow> [] | Some e \<Rightarrow> [(''external-controller'', String e)]))"

lemma obj_get_insert_some [simp]:
  "obj_get (insert_some k e v) k' = (if k' = k \<and> e \<noteq> None then e else obj_get v k')"
  by (simp add: insert_some_def split: option.splits)

lemma obj_get_insert_all:
  "obj_get (fold (\<lambda>(k, v) c. obj_insert c k v) kvs c) k =
     (case map_of (rev kvs) k of Some v \<Rightarrow> Some v | None \<Rightarrow> obj_get c k)"
  by (induction kvs arbitrary: c) (auto simp: map_add_def split: option.splits)

lemma distinct_overrides_entries: "distinct (map fst (overrides_entries g))"
  by (simp add: overrides_entries_def opt_field_def split: option.splits)

lemma obj_get_apply_guard:
  "obj_get (apply_guard c g) k =
     (case guard_value g k of Some v \<Rightarrow> Some v | None \<Rightarrow> obj_get c k)"
proof -
  let ?es = "overrides_entries (gi_overrides g)"
  have rev: "map_of (rev ?es) k = map_of ?es k"
    using distinct_overrides_entries by (simp add: map_of_rev_distinct)
  have fresh: "map_of ?es ''mixed-port'' = None" "map_of ?es ''port'' = None"
    "map_of ?es ''socks-port'' = None" "map_of ?es ''external-controller'' = None"
    by (simp_all add: overrides_entries_def opt_field_def split: option.splits)
  show ?thesis
    using fresh
    by (auto simp: apply_guard_def Let_def obj_get_insert_all rev guard_value_def map_add_def
        split: option.splits)
qed

lemma obj_get_whitelist:
  "obj_get (whitelist_filter c allow enabled) k =
     (if enabled \<and> k \<notin> set allow then None else obj_get c k)"
  by (cases c) (auto simp: whitelist_filter_def obj_get_def im_get_filter_key)

lemma obj_get_apply_tun_dns: "k \<noteq> ''dns'' \<Longrightarrow> obj_get (apply_tun_dns c w) k = obj_get c k"
  by (simp add: apply_tun_dns_def Let_def)

lemma obj_get_apply_tun:
  "k \<noteq> ''dns'' \<Longrightarrow> k \<noteq> ''tun'' \<Longrightarrow> obj_get (apply_tun c p) k = obj_get c k"
  by (simp add: apply_tun_def Let_def obj_get_apply_tun_dns)

lemma obj_get_apply_include_all:
  "k \<noteq> ''proxy-groups'' \<Longrightarrow> obj_get (apply_include_all c) k = obj_get c k"
  by (simp add: apply_include_all_def split: option.splits ConfigValue.splits)

lemma obj_get_apply_cache: "k \<noteq> ''profile'' \<Longrightarrow> obj_get (apply_cache c) k = obj_get c k"
  by (simp add: apply_cache_def)

section \<open>The final key order\<close>

lemma sort_known:
  "distinct ks \<Longrightarrow> \<forall>k \<in> set ks. k \<notin> set (im_keys acc) \<Longrightarrow>
   fold (\<lambda>k next. case im_get m k of Some v \<Rightarrow> im_insert k v next | None \<Rightarrow> next) ks acc =
   acc @ List.map_filter (\<lambda>k. map_option (Pair k) (im_get m k)) ks"
proof (induction ks arbitrary: acc)
  case Nil
  then show ?case by (simp add: List.map_filter_def)
next
  case (Cons k ks)
  have "im_get acc k = None" using Cons.prems(2) im_get_in_keys [of acc k] by auto
  moreover have "\<forall>j \<in> set ks. j \<notin> set (im_keys (acc @ [(k, v)]))" for v
    using Cons.prems by auto
  ultimately show ?case using Cons.IH [of acc] Cons.IH [of "acc @ [(k, the (im_get m k))]"] Cons.prems
    by (cases "im_get m k") (simp_all add: List.map_filter_def im_keys_insert_vacant)
qed

lemma sort_rest:
  "distinct (im_keys xs) \<Longrightarrow>
   fold (\<lambda>(k, v) next. if im_contains_key k next then next else im_insert k v next) xs acc =
   acc @ filter (\<lambda>(k, v). k \<notin> set (im_keys acc)) xs"
proof (induction xs arbitrary: acc)
  case Nil
  then show ?case by simp
next
  case (Cons kv xs)
  obtain k v where kv: "kv = (k, v)" by (cases kv)
  show ?case
  proof (cases "k \<in> set (im_keys acc)")
    case True
    with Cons kv show ?thesis by simp
  next
    case False
    then have "im_get acc k = None" using im_get_in_keys [of acc k] by auto
    moreover have "filter (\<lambda>(j, w). j \<noteq> k \<and> j \<notin> fst ` set acc) xs = filter (\<lambda>(j, w). j \<notin> fst ` set acc) xs"
      using Cons.prems kv by (intro filter_cong) force+
    ultimately show ?thesis using Cons.IH [of "acc @ [(k, v)]"] Cons.prems kv False
      by (simp add: im_keys_insert_vacant)
  qed
qed

lemma distinct_sort_order: "distinct sort_order"
  by (simp add: sort_order_def HANDLE_FIELDS_def OTHERS_FIELDS_def DEFAULT_FIELDS_def)

lemma set_sort_order: "set sort_order = set known_fields"
  by (auto simp: sort_order_def known_fields_def)

lemma fst_known:
  "map fst (List.map_filter (\<lambda>k. map_option (Pair k) (f k)) ks) = filter (\<lambda>k. f k \<noteq> None) ks"
  by (induction ks) (auto simp: List.map_filter_def)

lemma get_known:
  "im_get (List.map_filter (\<lambda>k. map_option (Pair k) (f k)) ks) k = (if k \<in> set ks then f k else None)"
  by (induction ks) (auto simp: List.map_filter_def)

lemma apply_sort_object:
  assumes "value_wf (Object m)"
  shows "apply_sort (Object m) =
    Object (List.map_filter (\<lambda>k. map_option (Pair k) (im_get m k)) sort_order @
            filter (\<lambda>(k, v). k \<notin> set sort_order) m)"
proof -
  have d: "distinct (im_keys m)" using assms by simp
  have "filter (\<lambda>(k, v). k \<notin> set (filter (\<lambda>k. im_get m k \<noteq> None) sort_order)) m =
        filter (\<lambda>(k, v). k \<notin> set sort_order) m"
    by (intro filter_cong) (auto dest: weak_map_of_SomeI)
  then show ?thesis
    by (simp add: apply_sort_def Let_def sort_known [OF distinct_sort_order] sort_rest [OF d] fst_known
        del: set_filter set_map im_contains_key_iff)
qed

lemma obj_get_apply_sort: "value_wf c \<Longrightarrow> obj_get (apply_sort c) k = obj_get c k"
proof (cases c)
  case (Object m)
  assume "value_wf c"
  with Object show ?thesis
    by (auto simp: apply_sort_object obj_get_def map_add_def get_known im_get_filter_key split: option.splits)
qed (simp_all add: apply_sort_def)

section \<open>The steps keep well-formed values\<close>

named_theorems step_wf \<open>built-in steps map well-formed values to well-formed values\<close>

lemma value_wf_object_of [step_wf]:
  "(\<And>v. e = Some v \<Longrightarrow> value_wf v) \<Longrightarrow> value_wf (Object (object_of e))"
  by (cases e) (auto simp: object_of_def split: ConfigValue.splits)

lemma value_wf_append_default [step_wf]:
  "value_wf (Object m) \<Longrightarrow> value_wf v \<Longrightarrow> value_wf (Object (append_default k v m))"
  by (simp add: append_default_def value_wf_insert del: value_wf.simps)

lemma value_wf_string_list [step_wf]: "value_wf (string_list xs)" "value_wf (string_value s)"
  by (simp_all add: string_list_def string_value_def list_all_iff)

lemma value_wf_whitelist [step_wf]: "value_wf c \<Longrightarrow> value_wf (whitelist_filter c allow enabled)"
  by (cases c) (auto simp: whitelist_filter_def im_keys_filter_distinct list_all_iff)

lemma value_wf_insert_all:
  "value_wf c \<Longrightarrow> \<forall>(k, v) \<in> set kvs. value_wf v \<Longrightarrow>
   value_wf (fold (\<lambda>(k, v) c. obj_insert c k v) kvs c)"
  by (induction kvs arbitrary: c) (auto intro!: value_wf_obj_insert)

lemma value_wf_insert_some [step_wf]:
  "value_wf c \<Longrightarrow> (\<And>v. e = Some v \<Longrightarrow> value_wf v) \<Longrightarrow> value_wf (insert_some k e c)"
  by (simp add: insert_some_def value_wf_obj_insert split: option.splits)

lemma value_wf_apply_guard [step_wf]:
  assumes "value_wf c"
  shows "value_wf (apply_guard c g)"
proof -
  have "\<forall>(k, v) \<in> set (overrides_entries (gi_overrides g)). value_wf v"
    by (auto simp: overrides_entries_def opt_field_def split: option.splits)
  then have "value_wf (fold (\<lambda>(k, v) c. obj_insert c k v) (overrides_entries (gi_overrides g)) c)"
    by (rule value_wf_insert_all [OF assms])
  then show ?thesis unfolding apply_guard_def Let_def
    by (intro value_wf_insert_some value_wf_obj_insert) (auto simp: port_value_def)
qed

lemma value_wf_apply_tun_dns [step_wf]:
  assumes "value_wf c"
  shows "value_wf (apply_tun_dns c w)"
proof -
  have "value_wf (Object (object_of (obj_get c ''dns'')))"
    by (rule value_wf_object_of) (rule value_wf_obj_get [OF assms])
  then show ?thesis unfolding apply_tun_dns_def Let_def
    using assms
    by (cases w; simp only: if_True if_False)
      (intro value_wf_obj_insert value_wf_append_default value_wf_insert value_wf_string_list;
        simp del: value_wf.simps(2))+
qed

lemma value_wf_tun_object [step_wf]:
  assumes "\<And>v. e = Some v \<Longrightarrow> value_wf v"
  shows "value_wf (Object (tun_object p e))"
proof -
  have "value_wf (Object (im_insert ''enable'' (Bool (tun_enable p)) (object_of e)))"
    using assms by (intro value_wf_insert value_wf_object_of) simp_all
  then show ?thesis unfolding tun_object_def Let_def
    by (cases "tun_enable p"; cases "tun_flavor p"; simp only: TunFlavor.simps simp_thms if_True if_False)
      (intro value_wf_append_default value_wf_string_list; simp del: value_wf.simps(2))+
qed

lemma value_wf_apply_tun [step_wf]:
  assumes "value_wf c"
  shows "value_wf (apply_tun c p)"
proof -
  have "value_wf (Object (tun_object p (obj_get c ''tun'')))"
    by (rule value_wf_tun_object) (rule value_wf_obj_get [OF assms])
  with assms have "value_wf (obj_insert c ''tun'' (Object (tun_object p (obj_get c ''tun''))))"
    by (rule value_wf_obj_insert)
  with assms show ?thesis unfolding apply_tun_def Let_def
    by (auto intro: value_wf_apply_tun_dns)
qed

lemma value_wf_expand_group [step_wf]: "value_wf v \<Longrightarrow> value_wf (expand_group names v)"
proof (cases v)
  case (Object m)
  assume "value_wf v"
  moreover have "value_wf (Array (map string_value xs))" for xs by (simp add: string_value_def list_all_iff)
  ultimately show ?thesis unfolding expand_group_def Let_def Object
    by (simp add: value_wf_delete value_wf_insert del: value_wf.simps map_append flip: map_append)
qed (simp_all add: expand_group_def)

lemma value_wf_expand_groups [step_wf]:
  "value_wf (Array xs) \<Longrightarrow> value_wf (Array (map (expand_group names) xs))"
  by (simp add: list_all_iff value_wf_expand_group)

lemma value_wf_apply_include_all [step_wf]: "value_wf c \<Longrightarrow> value_wf (apply_include_all c)"
  by (simp add: apply_include_all_def value_wf_obj_insert value_wf_expand_groups [OF value_wf_obj_get]
      del: value_wf.simps split: option.splits ConfigValue.splits)

lemma value_wf_apply_cache [step_wf]: "value_wf c \<Longrightarrow> value_wf (apply_cache c)"
  by (auto simp: apply_cache_def intro!: value_wf_obj_insert)

lemma value_wf_apply_sort [step_wf]: "value_wf c \<Longrightarrow> value_wf (apply_sort c)"
proof (cases c)
  case (Object m)
  assume wf: "value_wf c"
  have d: "distinct (filter (\<lambda>k. im_get m k \<noteq> None) sort_order)"
    by (intro distinct_filter distinct_sort_order)
  have vs: "\<forall>(k, v) \<in> set (List.map_filter (\<lambda>k. map_option (Pair k) (im_get m k)) sort_order). value_wf v"
    using wf Object by (auto simp: List.map_filter_def list_all_iff dest!: im_get_Some_in)
  show ?thesis unfolding Object apply_sort_object [OF wf [unfolded Object]]
    using wf d vs by (auto simp: Object fst_known im_keys_filter_distinct list_all_iff)
qed (simp_all add: apply_sort_def)

section \<open>Every step leaves its own result alone\<close>

lemma obj_insert_same: "obj_get c k = Some v \<Longrightarrow> obj_insert c k v = c"
  by (cases c) (simp_all add: obj_get_def obj_insert_def im_insert_same)

lemma im_get_append_default:
  "im_get (append_default k v m) j =
     (case im_get m j of Some w \<Rightarrow> Some w | None \<Rightarrow> if j = k then Some v else None)"
  using im_get_in_keys [of m k] by (auto simp: append_default_def im_get_insert split: option.splits)

lemma append_default_present: "im_get m k \<noteq> None \<Longrightarrow> append_default k v m = m"
  using im_get_in_keys [of m k] by (simp add: append_default_def)

lemma object_of_Object [simp]: "object_of (Some (Object m)) = m"
  by (simp add: object_of_def)

lemma im_get_tun_object:
  "im_get (tun_object p e) k =
     (if k = ''enable'' then Some (Bool (tun_enable p))
      else case im_get (object_of e) k of
        Some v \<Rightarrow> Some v
      | None \<Rightarrow>
          if \<not> tun_enable p then None
          else case tun_flavor p of
            ClashRs \<Rightarrow> [''device-id'' \<mapsto> string_value ''dev://utun1989'', ''auto-route'' \<mapsto> Bool True] k
          | Standard stack \<Rightarrow>
              [''stack'' \<mapsto> string_value (show_stack stack), ''dns-hijack'' \<mapsto> string_list [''any:53''],
               ''auto-route'' \<mapsto> Bool True, ''auto-detect-interface'' \<mapsto> Bool True] k)"
  by (cases "tun_enable p"; cases "tun_flavor p"; cases "im_get (object_of e) k")
    (simp_all add: tun_object_def Let_def im_get_append_default im_get_insert)

lemma tun_object_fixed: "tun_object p (Some (Object (tun_object p e))) = tun_object p e"
proof -
  let ?t = "tun_object p e"
  have enable: "im_insert ''enable'' (Bool (tun_enable p)) ?t = ?t"
    by (simp add: im_insert_same im_get_tun_object)
  have "tun_enable p \<Longrightarrow> tun_flavor p = ClashRs \<Longrightarrow>
      im_get ?t ''device-id'' \<noteq> None \<and> im_get ?t ''auto-route'' \<noteq> None"
    by (simp add: im_get_tun_object split: option.splits)
  moreover have "tun_enable p \<Longrightarrow> tun_flavor p = Standard s \<Longrightarrow>
      im_get ?t ''stack'' \<noteq> None \<and> im_get ?t ''dns-hijack'' \<noteq> None \<and> im_get ?t ''auto-route'' \<noteq> None \<and>
      im_get ?t ''auto-detect-interface'' \<noteq> None" for s
    by (simp add: im_get_tun_object split: option.splits)
  moreover have "tun_object p (Some (Object ?t)) =
     (if \<not> tun_enable p then ?t
      else case tun_flavor p of
             ClashRs \<Rightarrow> append_default ''auto-route'' (Bool True)
                 (append_default ''device-id'' (string_value ''dev://utun1989'') ?t)
           | Standard stack \<Rightarrow>
               append_default ''auto-detect-interface'' (Bool True)
                 (append_default ''auto-route'' (Bool True)
                   (append_default ''dns-hijack'' (string_list [''any:53''])
                     (append_default ''stack'' (string_value (show_stack stack)) ?t))))"
    unfolding tun_object_def [of p "Some (Object ?t)"] Let_def object_of_Object enable ..
  ultimately show ?thesis by (simp add: append_default_present split: TunFlavor.splits)
qed

text \<open>The DNS defaults that TUN needs, by key.\<close>

definition dns_default :: "bool \<Rightarrow> string \<Rightarrow> ConfigValue option" where
  "dns_default windows =
     [''enhanced-mode'' \<mapsto> string_value ''fake-ip'', ''fake-ip-range'' \<mapsto> string_value ''198.18.0.1/16'',
      ''nameserver'' \<mapsto> string_list [''114.114.114.114'', ''223.5.5.5'', ''8.8.8.8''], ''fallback'' \<mapsto> Array []] ++
     (if windows
      then [''fake-ip-filter'' \<mapsto>
              string_list [''dns.msftncsi.com'', ''www.msftncsi.com'', ''www.msftconnecttest.com'']]
      else Map.empty)"

lemma apply_tun_dns_get:
  "\<exists>d. obj_get (apply_tun_dns c w) ''dns'' = Some (Object d) \<and>
     (\<forall>k. im_get d k =
        (if k = ''enable'' then Some (Bool True)
         else case im_get (object_of (obj_get c ''dns'')) k of Some v \<Rightarrow> Some v | None \<Rightarrow> dns_default w k))"
proof -
  let ?d = "append_default ''fallback'' (Array [])
     (append_default ''nameserver'' (string_list [''114.114.114.114'', ''223.5.5.5'', ''8.8.8.8''])
       (append_default ''fake-ip-range'' (string_value ''198.18.0.1/16'')
         (append_default ''enhanced-mode'' (string_value ''fake-ip'')
           (im_insert ''enable'' (Bool True) (object_of (obj_get c ''dns''))))))"
  let ?d' = "if w then append_default ''fake-ip-filter''
       (string_list [''dns.msftncsi.com'', ''www.msftncsi.com'', ''www.msftconnecttest.com'']) ?d else ?d"
  have "obj_get (apply_tun_dns c w) ''dns'' = Some (Object ?d')"
    by (simp add: apply_tun_dns_def Let_def)
  moreover have "im_get ?d' k =
     (if k = ''enable'' then Some (Bool True)
      else case im_get (object_of (obj_get c ''dns'')) k of Some v \<Rightarrow> Some v | None \<Rightarrow> dns_default w k)" for k
    by (cases w; cases "im_get (object_of (obj_get c ''dns'')) k")
      (simp_all add: im_get_append_default im_get_insert dns_default_def)
  ultimately show ?thesis by blast
qed

lemma apply_tun_dns_fixed:
  assumes "obj_get c ''dns'' = Some (Object d)"
    and "im_get d ''enable'' = Some (Bool True)" and "\<And>k. dns_default w k \<noteq> None \<Longrightarrow> im_get d k \<noteq> None"
  shows "apply_tun_dns c w = c"
proof -
  have enable: "im_insert ''enable'' (Bool True) d = d" by (rule im_insert_same [OF assms(2)])
  have present: "im_get d ''enhanced-mode'' \<noteq> None" "im_get d ''fake-ip-range'' \<noteq> None"
    "im_get d ''nameserver'' \<noteq> None" "im_get d ''fallback'' \<noteq> None"
    "w \<Longrightarrow> im_get d ''fake-ip-filter'' \<noteq> None"
    by (rule assms(3); simp add: dns_default_def)+
  show ?thesis
    unfolding apply_tun_dns_def Let_def assms(1) object_of_Object enable
    by (simp add: append_default_present present obj_insert_same assms(1))
qed

lemma apply_tun_get_tun:
  "obj_get (apply_tun c p) ''tun'' =
     (if \<not> tun_enable p \<and> obj_get c ''tun'' = None then None
      else Some (Object (tun_object p (obj_get c ''tun''))))"
  by (simp add: apply_tun_def Let_def obj_get_apply_tun_dns)

lemma apply_tun_get_dns:
  assumes "tun_enable p"
  shows "\<exists>d. obj_get (apply_tun c p) ''dns'' = Some (Object d) \<and>
     (\<forall>k. im_get d k =
        (if k = ''enable'' then Some (Bool True)
         else case im_get (object_of (obj_get c ''dns'')) k of
           Some v \<Rightarrow> Some v | None \<Rightarrow> dns_default (tun_windows_fake_ip_filter p) k))"
proof -
  let ?c = "obj_insert c ''tun'' (Object (tun_object p (obj_get c ''tun'')))"
  have dns: "obj_get ?c ''dns'' = obj_get c ''dns''" by simp
  have "apply_tun c p = apply_tun_dns ?c (tun_windows_fake_ip_filter p)"
    using assms by (simp add: apply_tun_def Let_def)
  then show ?thesis
    using apply_tun_dns_get [of ?c "tun_windows_fake_ip_filter p", unfolded dns] by (simp only:)
qed

lemma apply_tun_fixed:
  assumes "obj_get c' ''tun'' = obj_get (apply_tun c p) ''tun''"
    and "obj_get c' ''dns'' = obj_get (apply_tun c p) ''dns''"
  shows "apply_tun c' p = c'"
proof (cases "tun_enable p")
  case False
  with assms(1) show ?thesis
    by (cases "obj_get c ''tun''")
      (simp_all add: apply_tun_get_tun apply_tun_def Let_def tun_object_fixed obj_insert_same)
next
  case True
  then have tun: "obj_get c' ''tun'' = Some (Object (tun_object p (obj_get c ''tun'')))"
    using assms(1) by (simp add: apply_tun_get_tun)
  obtain d where d: "obj_get c' ''dns'' = Some (Object d)"
    "\<And>k. im_get d k =
        (if k = ''enable'' then Some (Bool True)
         else case im_get (object_of (obj_get c ''dns'')) k of
           Some v \<Rightarrow> Some v | None \<Rightarrow> dns_default (tun_windows_fake_ip_filter p) k)"
    using apply_tun_get_dns [OF True, of c] assms(2) by auto
  have "apply_tun_dns c' (tun_windows_fake_ip_filter p) = c'"
    by (rule apply_tun_dns_fixed [OF d(1)]) (auto simp: d(2) split: option.splits)
  with True tun show ?thesis
    by (simp add: apply_tun_def Let_def tun_object_fixed obj_insert_same)
qed

lemma expand_group_fixed: "expand_group names (expand_group names v) = expand_group names v"
proof (cases v)
  case (Object m)
  then show ?thesis by (simp add: expand_group_def Let_def im_get_remove)
qed (simp_all add: expand_group_def)

lemma all_names_cong:
  "obj_get c ''proxies'' = obj_get c' ''proxies'' \<Longrightarrow>
   obj_get c ''proxy-providers'' = obj_get c' ''proxy-providers'' \<Longrightarrow> all_names c = all_names c'"
  by (simp add: all_names_def)

lemma apply_include_all_get:
  "obj_get (apply_include_all c) ''proxy-groups'' =
     (case obj_get c ''proxy-groups'' of
        Some (Array gs) \<Rightarrow> Some (Array (map (expand_group (all_names c)) gs))
      | other \<Rightarrow> other)"
  by (simp add: apply_include_all_def split: option.splits ConfigValue.splits)

lemma apply_include_all_fixed:
  assumes "obj_get c' ''proxy-groups'' = obj_get (apply_include_all c) ''proxy-groups''"
    and "all_names c' = all_names c"
  shows "apply_include_all c' = c'"
proof (cases "\<exists>gs. obj_get c ''proxy-groups'' = Some (Array gs)")
  case True
  then obtain gs where gs: "obj_get c ''proxy-groups'' = Some (Array gs)" by blast
  then have g: "obj_get c' ''proxy-groups'' = Some (Array (map (expand_group (all_names c)) gs))"
    using assms(1) by (simp add: apply_include_all_get)
  have "apply_include_all c' =
      obj_insert c' ''proxy-groups'' (Array (map (expand_group (all_names c)) gs))"
    unfolding apply_include_all_def g assms(2) by (simp add: comp_def expand_group_fixed)
  with g show ?thesis by (simp add: obj_insert_same)
next
  case False
  have "obj_get c' ''proxy-groups'' = obj_get c ''proxy-groups''"
    using assms(1) False
    by (auto simp: apply_include_all_get split: option.splits ConfigValue.splits)
  with False show ?thesis
    by (auto simp: apply_include_all_def split: option.splits ConfigValue.splits)
qed

lemma apply_cache_get: "obj_get (apply_cache c) ''profile'' \<noteq> None"
  by (simp add: apply_cache_def)

lemma apply_cache_fixed: "obj_get c ''profile'' \<noteq> None \<Longrightarrow> apply_cache c = c"
  by (simp add: apply_cache_def)

lemma apply_sort_fixed: "value_wf c \<Longrightarrow> apply_sort (apply_sort c) = apply_sort c"
proof (cases c)
  case (Object m)
  assume wf: "value_wf c"
  let ?known = "List.map_filter (\<lambda>k. map_option (Pair k) (im_get m k)) sort_order"
  let ?rest = "filter (\<lambda>(k, v). k \<notin> set sort_order) m"
  have s: "apply_sort c = Object (?known @ ?rest)" using wf Object by (simp only: apply_sort_object)
  have wf': "value_wf (Object (?known @ ?rest))" using value_wf_apply_sort [OF wf] s by simp
  have get: "im_get (?known @ ?rest) k = im_get m k" for k
    using obj_get_apply_sort [OF wf, of k] Object s by (simp add: obj_get_def)
  have "filter (\<lambda>(k, v). k \<notin> set sort_order) ?known = []"
    by (auto simp: filter_empty_conv List.map_filter_def)
  then show ?thesis unfolding s apply_sort_object [OF wf'] get by simp
qed (simp_all add: apply_sort_def)

section \<open>What the whole tail of the pipeline guarantees\<close>

lemma obj_get_finalize:
  assumes "value_wf c" and "k \<notin> {''dns'', ''tun'', ''proxy-groups'', ''profile''}"
  shows "obj_get (finalize c p w) k = (if w \<and> k \<notin> set known_fields then None else obj_get c k)"
  using assms
  by (simp add: finalize_def obj_get_apply_sort step_wf obj_get_apply_cache obj_get_apply_include_all
      obj_get_apply_tun obj_get_whitelist)

lemma stage1_no_handle: "k \<in> set HANDLE_FIELDS \<Longrightarrow> k \<notin> set (stage1_fields valid)"
  by (auto simp: stage1_fields_def HANDLE_FIELDS_def OTHERS_FIELDS_def DEFAULT_FIELDS_def)

lemma handle_known:
  "k \<in> set HANDLE_FIELDS \<Longrightarrow>
   k \<in> set known_fields \<and> k \<notin> {''dns'', ''tun'', ''proxy-groups'', ''profile''}"
  by (auto simp: known_fields_def HANDLE_FIELDS_def)

definition demo_guard :: GuardInputs where
  "demo_guard =
     \<lparr>gi_overrides = \<lparr>go_log_level = Info, go_allow_lan = False, go_mode = Rule, go_secret = ''s3cret'',
        go_unified_delay = Some True, go_tcp_concurrent = Some True, go_ipv6 = False\<rparr>,
      gi_ports = \<lparr>rp_mixed_port = 7890, rp_port = None, rp_socks_port = None,
        rp_external_controller = Some ''127.0.0.1:9090''\<rparr>\<rparr>"

definition demo_tun :: TunParams where
  "demo_tun = \<lparr>tun_enable = True, tun_flavor = Standard Gvisor, tun_windows_fake_ip_filter = False\<rparr>"

definition hostile_config :: ConfigValue where
  "hostile_config = Object
     [(''secret'', String ''''), (''allow-lan'', Bool True), (''port'', port_value 1),
      (''rules'', Array []), (''dns'', Object [(''enable'', Bool False), (''fallback'', Array [String ''1.1.1.1''])]),
      (''x-unknown'', Null)]"

text \<open>The top-level keys of a configuration, in order, and those no list of the program knows.\<close>

definition top_keys :: "ConfigValue \<Rightarrow> string list" where
  "top_keys c = (case as_object_arc c of Some m \<Rightarrow> im_keys m | None \<Rightarrow> [])"

definition unknown_keys :: "ConfigValue \<Rightarrow> string list" where
  "unknown_keys c = filter (\<lambda>k. k \<notin> set sort_order) (top_keys c)"

lemma top_keys_sort:
  "value_wf c \<Longrightarrow> top_keys (apply_sort c) = filter (\<lambda>k. obj_get c k \<noteq> None) sort_order @ unknown_keys c"
proof (cases c)
  case (Object m)
  assume "value_wf c"
  with Object show ?thesis
    by (simp add: apply_sort_object top_keys_def unknown_keys_def fst_known obj_get_def filter_map comp_def
        split_def del: value_wf.simps)
qed (simp_all add: apply_sort_def top_keys_def unknown_keys_def obj_get_def)

lemma unknown_keys_insert [simp]:
  assumes "k \<in> set sort_order"
  shows "unknown_keys (obj_insert c k v) = unknown_keys c"
proof -
  have "filter (\<lambda>k. k \<notin> set sort_order) (im_keys (im_insert k v m)) =
        filter (\<lambda>k. k \<notin> set sort_order) (im_keys m)" for m :: ConfigObject
    by (induction m) (use assms in auto)
  with assms show ?thesis by (cases c) (simp_all add: unknown_keys_def top_keys_def obj_insert_def)
qed

lemma touched_known:
  "''tun'' \<in> set sort_order" "''dns'' \<in> set sort_order" "''proxy-groups'' \<in> set sort_order"
  "''profile'' \<in> set sort_order"
  by (simp_all add: sort_order_def OTHERS_FIELDS_def DEFAULT_FIELDS_def)

lemma unknown_keys_steps:
  "unknown_keys (apply_tun c p) = unknown_keys c"
  "unknown_keys (apply_include_all c) = unknown_keys c"
  "unknown_keys (apply_cache c) = unknown_keys c"
  by (simp_all add: apply_tun_def apply_tun_dns_def apply_include_all_def apply_cache_def Let_def touched_known
      split: option.splits ConfigValue.splits)

lemma unknown_keys_whitelist:
  "unknown_keys (whitelist_filter c known_fields w) = (if w then [] else unknown_keys c)"
  by (cases c) (auto simp: whitelist_filter_def unknown_keys_def top_keys_def set_sort_order filter_empty_conv)

lemma whitelist_fixed: "unknown_keys c = [] \<Longrightarrow> whitelist_filter c known_fields w = c"
  by (cases c) (auto simp: whitelist_filter_def unknown_keys_def top_keys_def set_sort_order filter_empty_conv
      intro!: filter_True)

lemma is_object_finalize: "is_object (finalize c p w)"
proof -
  have "is_object (apply_cache d)" for d
    by (cases d) (auto simp: apply_cache_def is_object_def obj_insert_def obj_get_def)
  moreover have "is_object d \<Longrightarrow> is_object (apply_sort d)" for d
    by (cases d) (auto simp: apply_sort_def is_object_def Let_def)
  ultimately show ?thesis by (simp add: finalize_def)
qed

lemma unknown_keys_finalize:
  assumes "value_wf c"
  shows "top_keys (finalize c p w) =
    filter (\<lambda>k. obj_get (finalize c p w) k \<noteq> None) sort_order @ (if w then [] else unknown_keys c)"
  using assms
  by (simp add: finalize_def top_keys_sort obj_get_apply_sort step_wf unknown_keys_steps unknown_keys_whitelist)

lemma finalize_fixed:
  assumes wf: "value_wf c"
  shows "finalize (finalize c p w) p w = finalize c p w"
proof -
  let ?f = "finalize c p w" and ?w = "whitelist_filter c known_fields w"
  let ?t = "apply_tun ?w p"
  have f: "obj_get ?f k = obj_get (apply_cache (apply_include_all ?t)) k" for k
    using wf by (simp add: finalize_def obj_get_apply_sort step_wf)
  have "w \<Longrightarrow> unknown_keys ?f = []"
    using unknown_keys_finalize [OF wf, of p w] by (simp add: unknown_keys_def filter_empty_conv)
  then have "whitelist_filter ?f known_fields w = ?f"
    by (cases w) (simp_all add: whitelist_fixed, simp add: whitelist_filter_def)
  moreover have "apply_tun ?f p = ?f"
    by (rule apply_tun_fixed [of _ ?w]) (simp_all add: f obj_get_apply_cache obj_get_apply_include_all)
  moreover have "apply_include_all ?f = ?f"
    by (rule apply_include_all_fixed [of _ ?t])
      (auto intro!: all_names_cong simp: f obj_get_apply_cache obj_get_apply_include_all)
  moreover have "apply_cache ?f = ?f"
    by (rule apply_cache_fixed) (simp only: f apply_cache_get not_False_eq_True)
  moreover have "apply_sort ?f = ?f"
    using wf by (simp add: finalize_def apply_sort_fixed step_wf)
  ultimately show ?thesis unfolding finalize_def [of ?f] by simp
qed

text \<open>C31: finalizing always yields a well-formed mapping whose keys follow the fixed order: the guarded
fields, then the other known ones, then proxies, groups and rules; unknown fields are dropped with the
whitelist on and otherwise stay at the end in their original order. Outside \<^verbatim>\<open>tun\<close>, \<^verbatim>\<open>dns\<close>,
\<^verbatim>\<open>proxy-groups\<close> and \<^verbatim>\<open>profile\<close> no remaining value changes, and finalizing a finalized configuration
again with the same parameters changes nothing at all.\<close>
theorem finalize_layout:
  assumes "value_wf c"
  shows "is_object (finalize c p w) \<and> value_wf (finalize c p w) \<and>
    top_keys (finalize c p w) =
      filter (\<lambda>k. obj_get (finalize c p w) k \<noteq> None) sort_order @ (if w then [] else unknown_keys c) \<and>
    (\<forall>k. k \<notin> {''dns'', ''tun'', ''proxy-groups'', ''profile''} \<longrightarrow>
       obj_get (finalize c p w) k = (if w \<and> k \<notin> set known_fields then None else obj_get c k)) \<and>
    finalize (finalize c p w) p w = finalize c p w"
  using assms
  by (intro conjI allI impI is_object_finalize unknown_keys_finalize finalize_fixed obj_get_finalize)
    (simp_all add: finalize_def step_wf)

theorem finalize_layout_witness:
  "top_keys (finalize hostile_config demo_tun False) =
     [''port'', ''allow-lan'', ''secret'', ''dns'', ''tun'', ''profile'', ''rules'', ''x-unknown''] \<and>
   finalize (finalize hostile_config demo_tun False) demo_tun False = finalize hostile_config demo_tun False"
proof -
  have "value_wf hostile_config" by (simp add: hostile_config_def port_value_def)
  note spec = finalize_layout [OF this, of demo_tun False]
  have "top_keys (finalize hostile_config demo_tun False) =
     [''port'', ''allow-lan'', ''secret'', ''dns'', ''tun'', ''profile'', ''rules'', ''x-unknown'']"
    by code_simp
  with spec show ?thesis by blast
qed

section \<open>TUN defaults and group expansion\<close>

text \<open>Switching TUN on forces \<^verbatim>\<open>enable\<close> in \<^verbatim>\<open>tun\<close> and \<^verbatim>\<open>dns\<close>, keeps every other setting the user wrote there,
and fills a missing one with its default. Switched off, a configuration without \<^verbatim>\<open>tun\<close> is returned as it
is, and an existing \<^verbatim>\<open>tun\<close> only gets \<^verbatim>\<open>enable: false\<close>, \<^verbatim>\<open>dns\<close> being left alone.\<close>
theorem tun_settings_kept:
  "(tun_enable p \<longrightarrow>
     (\<exists>t d. obj_get (apply_tun c p) ''tun'' = Some (Object t) \<and> obj_get (apply_tun c p) ''dns'' = Some (Object d) \<and>
        im_get t ''enable'' = Some (Bool True) \<and> im_get d ''enable'' = Some (Bool True) \<and>
        (\<forall>k v. k \<noteq> ''enable'' \<and> im_get (object_of (obj_get c ''tun'')) k = Some v \<longrightarrow> im_get t k = Some v) \<and>
        (\<forall>k. k \<noteq> ''enable'' \<longrightarrow> im_get d k =
           (case im_get (object_of (obj_get c ''dns'')) k of
              Some v \<Rightarrow> Some v | None \<Rightarrow> dns_default (tun_windows_fake_ip_filter p) k)) \<and>
        im_get t ''auto-route'' \<noteq> None)) \<and>
   (\<not> tun_enable p \<longrightarrow>
      (if obj_get c ''tun'' = None then apply_tun c p = c
       else apply_tun c p =
         obj_insert c ''tun'' (Object (im_insert ''enable'' (Bool False) (object_of (obj_get c ''tun''))))))"
proof (intro conjI impI)
  assume on: "tun_enable p"
  from apply_tun_get_dns [OF on, of c] obtain d where d: "obj_get (apply_tun c p) ''dns'' = Some (Object d)"
    "\<And>k. im_get d k =
        (if k = ''enable'' then Some (Bool True)
         else case im_get (object_of (obj_get c ''dns'')) k of
           Some v \<Rightarrow> Some v | None \<Rightarrow> dns_default (tun_windows_fake_ip_filter p) k)"
    by blast
  let ?t = "tun_object p (obj_get c ''tun'')"
  have "obj_get (apply_tun c p) ''tun'' = Some (Object ?t)" using on by (simp add: apply_tun_get_tun)
  moreover have "im_get ?t ''enable'' = Some (Bool True)" using on by (simp add: im_get_tun_object)
  moreover have "\<forall>k v. k \<noteq> ''enable'' \<and> im_get (object_of (obj_get c ''tun'')) k = Some v \<longrightarrow> im_get ?t k = Some v"
    by (simp add: im_get_tun_object)
  moreover have "im_get ?t ''auto-route'' \<noteq> None"
    using on by (cases "tun_flavor p") (auto simp: im_get_tun_object split: option.splits)
  ultimately show "\<exists>t d. obj_get (apply_tun c p) ''tun'' = Some (Object t) \<and>
        obj_get (apply_tun c p) ''dns'' = Some (Object d) \<and>
        im_get t ''enable'' = Some (Bool True) \<and> im_get d ''enable'' = Some (Bool True) \<and>
        (\<forall>k v. k \<noteq> ''enable'' \<and> im_get (object_of (obj_get c ''tun'')) k = Some v \<longrightarrow> im_get t k = Some v) \<and>
        (\<forall>k. k \<noteq> ''enable'' \<longrightarrow> im_get d k =
           (case im_get (object_of (obj_get c ''dns'')) k of
              Some v \<Rightarrow> Some v | None \<Rightarrow> dns_default (tun_windows_fake_ip_filter p) k)) \<and>
        im_get t ''auto-route'' \<noteq> None"
    using d by (intro exI [of _ ?t] exI [of _ d]) simp
qed (simp add: apply_tun_def tun_object_def Let_def)

text \<open>The names a group lists itself.\<close>

definition listed :: "ConfigObject \<Rightarrow> string set" where
  "listed m = {n. \<exists>xs. im_get m ''proxies'' = Some (Array xs) \<and> String n \<in> set xs}"

lemma set_map_filter_string: "set (List.map_filter string_of xs) = {n. String n \<in> set xs}"
proof -
  have "(string_of x = Some n) = (x = String n)" for x n by (cases x) auto
  then show ?thesis by (force simp: List.map_filter_def)
qed

lemma expand_group_marked:
  assumes "im_get m ''include-all'' = Some (Bool True)" and "im_get m ''name'' \<noteq> None"
  shows "\<exists>m' own. expand_group names (Object m) = Object m' \<and> im_get m' ''include-all'' = None \<and>
    im_get m' ''proxies'' = Some (Array (map String (names @ own))) \<and> set own = listed m - set names \<and>
    (\<forall>k. k \<notin> {''include-all'', ''proxies''} \<longrightarrow> im_get m' k = im_get m k)"
proof -
  let ?ex = "case im_get m ''proxies'' of Some (Array xs) \<Rightarrow> List.map_filter string_of xs | _ \<Rightarrow> []"
  let ?own = "filter (\<lambda>n. n \<notin> set names) ?ex"
  let ?m = "im_shift_remove ''include-all'' (im_insert ''proxies'' (Array (map String (names @ ?own))) m)"
  have "set ?ex = listed m"
    by (cases "im_get m ''proxies''") (auto simp: listed_def set_map_filter_string split: ConfigValue.split)
  then have "set ?own = listed m - set names" by auto
  moreover have "expand_group names (Object m) = Object ?m"
    using assms im_get_in_keys [of m "''name''"] by (simp add: expand_group_def Let_def string_value_def [abs_def])
  ultimately show ?thesis
    by (intro exI [of _ ?m] exI [of _ ?own]) (simp add: im_get_remove im_get_insert)
qed

text \<open>An \<^verbatim>\<open>include-all\<close> group of the configuration is expanded to every proxy and provider name of the
configuration, in order, followed by the names it listed itself that are not among them; the marker
is removed, the other settings of the group stay, groups without the marker or without a name are
left alone, and expanding twice is expanding once.\<close>
theorem include_all_expansion:
  assumes "obj_get c ''proxy-groups'' = Some (Array gs)"
  shows "obj_get (apply_include_all c) ''proxy-groups'' = Some (Array (map (expand_group (all_names c)) gs)) \<and>
    apply_include_all (apply_include_all c) = apply_include_all c \<and>
    (\<forall>m. im_get m ''include-all'' = Some (Bool True) \<and> im_get m ''name'' \<noteq> None \<longrightarrow>
       (\<exists>m' own. expand_group (all_names c) (Object m) = Object m' \<and> im_get m' ''include-all'' = None \<and>
          im_get m' ''proxies'' = Some (Array (map String (all_names c @ own))) \<and>
          set own = listed m - set (all_names c) \<and>
          (\<forall>k. k \<notin> {''include-all'', ''proxies''} \<longrightarrow> im_get m' k = im_get m k))) \<and>
    (\<forall>m. im_get m ''include-all'' \<noteq> Some (Bool True) \<or> im_get m ''name'' = None \<longrightarrow>
       expand_group (all_names c) (Object m) = Object m)"
proof (intro conjI allI impI)
  show "obj_get (apply_include_all c) ''proxy-groups'' = Some (Array (map (expand_group (all_names c)) gs))"
    using assms by (simp add: apply_include_all_get)
  show "apply_include_all (apply_include_all c) = apply_include_all c"
    by (rule apply_include_all_fixed [of _ c]) (auto intro!: all_names_cong simp: obj_get_apply_include_all)
next
  fix m :: ConfigObject
  assume "im_get m ''include-all'' \<noteq> Some (Bool True) \<or> im_get m ''name'' = None"
  then show "expand_group (all_names c) (Object m) = Object m"
    using im_get_in_keys [of m "''name''"] by (auto simp: expand_group_def Let_def)
qed (use expand_group_marked in blast)

definition demo_groups :: ConfigValue where
  "demo_groups = Object
     [(''proxies'', Array [Object [(''name'', String ''hk'')], Object [(''name'', String ''jp'')], Null]),
      (''proxy-providers'', Object [(''airport'', Null)]),
      (''proxy-groups'', Array [Object [(''name'', String ''all''), (''include-all'', Bool True),
         (''proxies'', Array [String ''jp'', String ''DIRECT''])]])]"

end
