(* ===== verification/Pipeline_Executor.thy ===== *)
theory Pipeline_Executor
  imports Snapshot_Graph Builtin_Steps Profile_Store
begin

text \<open>
  The pipeline executor (\<^verbatim>\<open>runtime/executor/mod.rs\<close>, \<^verbatim>\<open>scoped.rs\<close>, \<^verbatim>\<open>compose.rs\<close>, \<^verbatim>\<open>error.rs\<close>,
  \<^verbatim>\<open>ports.rs\<close>, \<^verbatim>\<open>artifact.rs\<close>): from the profile document and a target to the final configuration, the graph
  of every intermediate one, the step logs and the applied fields.

  \<^item> The ports of the caller are a record: reading a profile's file, the script engine, the YAML
    parser with its merge-key expansion, and the JSON patch library. Their errors are texts.
  \<^item> A run in progress is the triple of the snapshot builder, the working configuration and the log
    sink; an error ends it, as \<^verbatim>\<open>?\<close> does.
  \<^item> \<open>runner_wf\<close> is the one assumption on the script engine: what it returns are values of the program.
\<close>

section \<open>Ports, inputs, errors\<close>

record Ports =
  po_read :: "ManagedProfilePath \<Rightarrow> string + string"
  po_runner :: "ScriptRuntime ScriptRunner"
  po_parse_yaml :: "string \<Rightarrow> string + YamlValue"
  po_apply_merge :: "YamlValue \<Rightarrow> string + YamlValue"
  po_json :: JsonLib

datatype ExecutionTarget = TargetSelected ProfileId | Bare

record BuiltinTransform =
  bt_name :: string
  bt_runtime :: ScriptRuntime
  bt_source :: string

record RuntimePipelineInputs =
  in_profiles :: Profiles
  in_target :: ExecutionTarget
  in_guard :: GuardInputs
  in_whitelist_enabled :: bool
  in_tun :: TunParams
  in_builtin_transforms :: "BuiltinTransform list"

datatype RuntimePipelineError =
    SelectedProfileNotFound ProfileId
  | SelectedProfileNotConfig ProfileId
  | CompositionMemberInvalid ProfileId ProfileId string
  | ContentSource ProfileId ManagedProfilePath string
  | ParseProfile ProfileId string
  | SnapshotError SnapshotBuildError
  | Internal string

record StepLog =
  sl_key :: SnapshotNodeKey
  sl_entries :: "StepLogEntry list"

record RuntimeArtifact =
  ra_final_config :: ConfigValue
  ra_graph :: ConfigSnapshotsGraph
  ra_step_logs :: "StepLog list"
  ra_applied_fields :: "string index_set"

fun show_convert_error :: "ValueConvertError \<Rightarrow> string" where
  "show_convert_error NonStringYamlKey = ''NonStringYamlKey''"
| "show_convert_error InvalidYamlNumber = ''InvalidYamlNumber''"
| "show_convert_error TaggedYamlValue = ''TaggedYamlValue''"

definition parse_config_document :: "Ports \<Rightarrow> string \<Rightarrow> string + ConfigValue" where
  "parse_config_document ports text =
     (case po_parse_yaml ports text of
        Inl e \<Rightarrow> Inl e
      | Inr y \<Rightarrow>
          (case po_apply_merge ports y of
             Inl e \<Rightarrow> Inl e
           | Inr y' \<Rightarrow>
               (case from_yaml_value y' of Inl e \<Rightarrow> Inl (show_convert_error e) | Inr v \<Rightarrow> Inr v)))"

section \<open>Step logs\<close>

type_synonym LogSink = "(SnapshotNodeKey, StepLogEntry list) index_map"

definition log_extend :: "SnapshotNodeKey \<Rightarrow> StepLogEntry list \<Rightarrow> LogSink \<Rightarrow> LogSink" where
  "log_extend key entries sink =
     (if entries = [] then sink
      else im_insert key ((case im_get sink key of Some old \<Rightarrow> old | None \<Rightarrow> []) @ entries) sink)"

definition into_step_logs :: "LogSink \<Rightarrow> StepLog list" where
  "into_step_logs sink = map (\<lambda>(key, entries). \<lparr>sl_key = key, sl_entries = entries\<rparr>) sink"

section \<open>Transforms\<close>

definition apply_transform ::
    "Ports \<Rightarrow> Profiles \<Rightarrow> ProfileId \<Rightarrow> ConfigValue \<Rightarrow> ConfigValue \<times> TransformKind \<times> StepLogEntry list" where
  "apply_transform ports profiles tid current =
     (case get_item profiles tid of
        None \<Rightarrow> (current, KindOverlay, [log_error (''transform '' @ tid @ '' not found, passthrough'')])
      | Some item \<Rightarrow>
          (case it_definition item of
             Config _ \<Rightarrow>
               (current, KindOverlay, [log_error (''profile '' @ tid @ '' is not a transform, passthrough'')])
           | Transform transform \<Rightarrow>
               let kind = transform_kind transform;
                   path = mf_file (materialized (transform_source transform))
               in case po_read ports path of
                    Inl e \<Rightarrow>
                      (current, kind, [log_error (''read transform '' @ tid @ '' source at '' @ managed_str path @
                                                  '' failed, passthrough: '' @ e)])
                  | Inr text \<Rightarrow>
                      (case transform of
                         Overlay _ \<Rightarrow>
                           (case parse_config_document ports text of
                              Inr doc \<Rightarrow>
                                let (next, entries) = apply_overlay (po_runner ports) doc current
                                in (next, kind, entries)
                            | Inl msg \<Rightarrow>
                                (current, kind,
                                 [log_error (''parse overlay '' @ tid @ '' failed, passthrough: '' @ msg)]))
                       | Script script \<Rightarrow>
                           (case run_script (po_runner ports) (st_runtime script) text current of
                              (Inr next, logs) \<Rightarrow> (next, kind, logs)
                            | (Inl e, logs) \<Rightarrow> (current, kind, logs @ [log_error e])))))"

record PipelineRun =
  run_builder :: ConfigSnapshotsBuilder
  run_value :: ConfigValue
  run_logs :: LogSink

text \<open>\<^verbatim>\<open>logs.extend(tag.node_key(), entries); builder.push(tag, next)?; working = next\<close>\<close>

definition advance ::
    "Ports \<Rightarrow> OperatorTag \<Rightarrow> ConfigValue \<Rightarrow> StepLogEntry list \<Rightarrow> PipelineRun
     \<Rightarrow> RuntimePipelineError + PipelineRun" where
  "advance ports tag next entries run =
     (case push_node (po_json ports) (run_builder run) tag next of
        Inl e \<Rightarrow> Inl (SnapshotError e)
      | Inr b \<Rightarrow> Inr \<lparr>run_builder = b, run_value = next, run_logs = log_extend (node_key tag) entries (run_logs run)\<rparr>)"

text \<open>One round of a loop over transforms, which differ in the tag only.\<close>

definition transform_step ::
    "Ports \<Rightarrow> Profiles \<Rightarrow> (ProfileId \<Rightarrow> TransformKind \<Rightarrow> u32 \<Rightarrow> OperatorTag) \<Rightarrow> nat \<times> ProfileId \<Rightarrow> PipelineRun
     \<Rightarrow> RuntimePipelineError + PipelineRun" where
  "transform_step ports profiles tag = (\<lambda>(index, tid) run.
     let (next, kind, entries) = apply_transform ports profiles tid (run_value run)
     in advance ports (tag tid kind (of_nat index)) next entries run)"

definition enumerated :: "'a list \<Rightarrow> (nat \<times> 'a) list" where
  "enumerated xs = zip [0..<length xs] xs"

section \<open>A file and its own transforms\<close>

fun member_error :: "ConfigExecutionRole \<Rightarrow> ProfileId \<Rightarrow> string \<Rightarrow> RuntimePipelineError" where
  "member_error Selected pid reason = SelectedProfileNotConfig pid"
| "member_error (CompositionBase cid) pid reason = CompositionMemberInvalid cid pid reason"
| "member_error (CompositionContributor cid idx) pid reason = CompositionMemberInvalid cid pid reason"

definition build_scoped_file ::
    "Ports \<Rightarrow> Profiles \<Rightarrow> LogSink \<Rightarrow> ProfileId \<Rightarrow> ConfigExecutionRole \<Rightarrow> RuntimePipelineError + PipelineRun" where
  "build_scoped_file ports profiles logs pid role =
     (case get_item profiles pid of
        None \<Rightarrow> Inl (case role of
                      Selected \<Rightarrow> SelectedProfileNotFound pid
                    | _ \<Rightarrow> member_error role pid ''member not found'')
      | Some item \<Rightarrow>
          (case it_definition item of
             Config (File file) \<Rightarrow>
               let path = mf_file (materialized (fc_source file)) in
               (case po_read ports path of
                  Inl e \<Rightarrow> Inl (ContentSource pid path e)
                | Inr text \<Rightarrow>
                    (case parse_config_document ports text of
                       Inl msg \<Rightarrow> Inl (ParseProfile pid msg)
                     | Inr raw \<Rightarrow>
                         result_fold (transform_step ports profiles (ScopedTransform pid role))
                           (enumerated (fc_transforms file))
                           \<lparr>run_builder = new_root raw (FileConfigRoot pid role), run_value = raw, run_logs = logs\<rparr>))
           | _ \<Rightarrow> Inl (member_error role pid ''not a direct FileConfig'')))"

section \<open>Compositions\<close>

definition append_proxies ::
    "ConfigValue \<Rightarrow> ConfigValue \<Rightarrow> ProfileId \<Rightarrow> ConfigValue \<times> StepLogEntry list" where
  "append_proxies working member_value mid =
     (let (extracted, l1) =
            (case obj_get member_value ''proxies'' of
               Some v \<Rightarrow>
                 (case as_array_arc v of
                    Some items \<Rightarrow> (items, [])
                  | None \<Rightarrow> ([], [log_warn (''member '' @ mid @ '' `proxies` is not a sequence, contributed nothing'')]))
             | None \<Rightarrow> ([], [log_warn (''member '' @ mid @ '' has no `proxies`, contributed nothing'')]))
      in case obj_get working ''proxies'' of
           Some v \<Rightarrow>
             (case as_array_arc v of
                Some items \<Rightarrow> (obj_insert working ''proxies'' (Array (items @ extracted)), l1)
              | None \<Rightarrow>
                  (working, l1 @ [log_warn ''working config `proxies` is not a sequence, append skipped'']))
         | None \<Rightarrow> (obj_insert working ''proxies'' (Array extracted), l1))"

definition composition_root ::
    "Ports \<Rightarrow> Profiles \<Rightarrow> LogSink \<Rightarrow> ProfileId \<Rightarrow> CompositionConfig \<Rightarrow> RuntimePipelineError + PipelineRun" where
  "composition_root ports profiles logs cid composition =
     (case cc_base composition of
        Some base_id \<Rightarrow>
          (case build_scoped_file ports profiles logs base_id (CompositionBase cid) of
             Inl e \<Rightarrow> Inl e
           | Inr base \<Rightarrow>
               let builder = new_root (run_value base) (CompositionRoot cid (Some base_id)) in
               (case attach_independent_branch builder (cb_root_id builder) (run_builder base) of
                  Inl e \<Rightarrow> Inl (SnapshotError e)
                | Inr (b, _) \<Rightarrow> Inr \<lparr>run_builder = b, run_value = run_value base, run_logs = run_logs base\<rparr>))
      | None \<Rightarrow>
          Inr \<lparr>run_builder = new_root clean_seed (CompositionRoot cid None), run_value = clean_seed, run_logs = logs\<rparr>)"

definition extend_step ::
    "Ports \<Rightarrow> Profiles \<Rightarrow> ProfileId \<Rightarrow> nat \<times> ProfileId \<Rightarrow> PipelineRun \<Rightarrow> RuntimePipelineError + PipelineRun" where
  "extend_step ports profiles cid = (\<lambda>(index, mid) run.
     case build_scoped_file ports profiles (run_logs run) mid (CompositionContributor cid (of_nat index)) of
       Inl e \<Rightarrow> Inl e
     | Inr contributed \<Rightarrow>
         (case attach_independent_branch (run_builder run) (cb_current_id (run_builder run)) (run_builder contributed) of
            Inl e \<Rightarrow> Inl (SnapshotError e)
          | Inr (b, _) \<Rightarrow>
              let (working, entries) = append_proxies (run_value run) (run_value contributed) mid
              in advance ports (ExtendProxiesStep cid mid (of_nat index)) working entries
                   \<lparr>run_builder = b, run_value = run_value run, run_logs = run_logs contributed\<rparr>))"

definition run_composition ::
    "Ports \<Rightarrow> Profiles \<Rightarrow> LogSink \<Rightarrow> ProfileId \<Rightarrow> CompositionConfig \<Rightarrow> RuntimePipelineError + PipelineRun" where
  "run_composition ports profiles logs cid composition =
     (case composition_root ports profiles logs cid composition of
        Inl e \<Rightarrow> Inl e
      | Inr run \<Rightarrow>
          (case result_fold (extend_step ports profiles cid) (enumerated (cc_extend_proxies_from composition)) run of
             Inl e \<Rightarrow> Inl e
           | Inr run' \<Rightarrow>
               result_fold (transform_step ports profiles (ScopedTransform cid Selected))
                 (enumerated (cc_transforms composition)) run'))"

section \<open>The whole pipeline\<close>

definition execution_root ::
    "Ports \<Rightarrow> Profiles \<Rightarrow> ExecutionTarget \<Rightarrow> RuntimePipelineError + PipelineRun \<times> ProfileId option" where
  "execution_root ports profiles target =
     (case target of
        Bare \<Rightarrow>
          Inr (\<lparr>run_builder = new_root empty_object BareRoot, run_value = empty_object, run_logs = []\<rparr>, None)
      | TargetSelected pid \<Rightarrow>
          (case get_item profiles pid of
             None \<Rightarrow> Inl (SelectedProfileNotFound pid)
           | Some item \<Rightarrow>
               (case it_definition item of
                  Transform _ \<Rightarrow> Inl (SelectedProfileNotConfig pid)
                | Config (File _) \<Rightarrow>
                    (case build_scoped_file ports profiles [] pid Selected of
                       Inl e \<Rightarrow> Inl e | Inr run \<Rightarrow> Inr (run, Some pid))
                | Config (Composition composition) \<Rightarrow>
                    (case run_composition ports profiles [] pid composition of
                       Inl e \<Rightarrow> Inl e | Inr run \<Rightarrow> Inr (run, Some pid)))))"

definition builtin_step ::
    "Ports \<Rightarrow> ProfileId option \<Rightarrow> nat \<times> BuiltinTransform \<Rightarrow> PipelineRun \<Rightarrow> RuntimePipelineError + PipelineRun" where
  "builtin_step ports sel = (\<lambda>(index, bt) run.
     let (res, logs) = run_script (po_runner ports) (bt_runtime bt) (bt_source bt) (run_value run);
         (next, entries) = (case res of
                              Inr v \<Rightarrow> (v, logs)
                            | Inl e \<Rightarrow> (run_value run, logs @ [log_error e]))
     in advance ports (BuiltinTransformTag sel (bt_name bt) (of_nat index)) next entries run)"

text \<open>A step without logs: \<^verbatim>\<open>builder.push(..)?\<close>.\<close>

definition push_step ::
    "Ports \<Rightarrow> ProfileId option \<Rightarrow> BuiltinStepKind \<Rightarrow> ConfigValue \<Rightarrow> PipelineRun \<Rightarrow> RuntimePipelineError + PipelineRun" where
  "push_step ports sel step next run = advance ports (BuiltinStep sel step) next [] run"

definition sample_fields :: "ConfigValue \<Rightarrow> string index_set" where
  "sample_fields working =
     (case as_object_arc working of
        Some m \<Rightarrow> is_collect (map to_ascii_lowercase (im_keys m))
      | None \<Rightarrow> [])"

definition shared_tail ::
    "Ports \<Rightarrow> RuntimePipelineInputs \<Rightarrow> ProfileId option \<Rightarrow> PipelineRun \<Rightarrow> RuntimePipelineError + PipelineRun" where
  "shared_tail ports inputs sel run =
     (case push_step ports sel WhitelistFieldFilter
             (whitelist_filter (run_value run) (stage1_fields (pr_valid (in_profiles inputs)))
               (in_whitelist_enabled inputs)) run of
        Inl e \<Rightarrow> Inl e
      | Inr r1 \<Rightarrow>
          (case push_step ports sel GuardOverrides (apply_guard (run_value r1) (in_guard inputs)) r1 of
             Inl e \<Rightarrow> Inl e
           | Inr r2 \<Rightarrow>
               (case result_fold (builtin_step ports sel) (enumerated (in_builtin_transforms inputs)) r2 of
                  Inl e \<Rightarrow> Inl e
                | Inr r3 \<Rightarrow>
                    push_step ports sel Finalizing
                      (finalize (run_value r3) (in_tun inputs) (in_whitelist_enabled inputs)) r3)))"

definition execute :: "Ports \<Rightarrow> RuntimePipelineInputs \<Rightarrow> RuntimePipelineError + RuntimeArtifact" where
  "execute ports inputs =
     (case execution_root ports (in_profiles inputs) (in_target inputs) of
        Inl e \<Rightarrow> Inl e
      | Inr (run, sel) \<Rightarrow>
          (case result_fold (transform_step ports (in_profiles inputs) (GlobalTransform sel))
                  (enumerated (pr_global_transforms (in_profiles inputs))) run of
             Inl e \<Rightarrow> Inl e
           | Inr globals \<Rightarrow>
               let applied = sample_fields (run_value globals) in
               (case shared_tail ports inputs sel globals of
                  Inl e \<Rightarrow> Inl e
                | Inr final \<Rightarrow>
                    (case build_graph (po_json ports) (run_builder final) of
                       Inl e \<Rightarrow> Inl (SnapshotError e)
                     | Inr graph \<Rightarrow>
                         Inr \<lparr>ra_final_config = run_value final, ra_graph = graph,
                              ra_step_logs = into_step_logs (run_logs final),
                              ra_applied_fields = filter (\<lambda>k. k \<in> set known_fields) applied\<rparr>))))"

section \<open>Runs in progress\<close>

text \<open>The builder is one the program can make, and its current node holds the working configuration.\<close>

definition run_ok :: "Ports \<Rightarrow> PipelineRun \<Rightarrow> bool" where
  "run_ok ports run =
     (built (po_json ports) (run_builder run) \<and> value_wf (run_value run) \<and>
      bn_full (cb_slab (run_builder run) ! cb_current_id (run_builder run)) = run_value run)"

definition slab_keys :: "BuilderNode list \<Rightarrow> SnapshotNodeKey list" where
  "slab_keys slab = map (\<lambda>node. node_key (ss_tag (bn_state node))) slab"

abbreviation run_keys :: "PipelineRun \<Rightarrow> SnapshotNodeKey list" where
  "run_keys run \<equiv> slab_keys (cb_slab (run_builder run))"

lemma slab_keys_state: "slab_keys slab = map (\<lambda>s. node_key (ss_tag s)) (map bn_state slab)"
  by (simp add: slab_keys_def)

lemma run_ok_recorded: "run_ok ports run \<Longrightarrow> recorded (po_json ports) (run_builder run)"
  by (simp add: run_ok_def built_recorded)

lemma run_ok_current: "run_ok ports run \<Longrightarrow> cb_current_id (run_builder run) < length (cb_slab (run_builder run))"
  using run_ok_recorded [of ports run] by (simp add: recorded_def)

lemma run_ok_root:
  "value_wf v \<Longrightarrow> run_ok ports \<lparr>run_builder = new_root v tag, run_value = v, run_logs = logs\<rparr>"
  unfolding run_ok_def new_root_def
  by (simp add: built.root) (simp add: new_root_with_keyframe_policy_def)

lemma slab_keys_root [simp]: "slab_keys (cb_slab (new_root v tag)) = [node_key tag]"
  by (simp add: slab_keys_def new_root_def new_root_with_keyframe_policy_def)

lemma advance_ok:
  assumes "run_ok ports run" and "value_wf next"
  shows "\<exists>run'. advance ports tag next entries run = Inr run' \<and> run_ok ports run' \<and>
    run_value run' = next \<and> run_keys run' = run_keys run @ [node_key tag] \<and>
    cb_current_id (run_builder run') = length (run_keys run)"
proof -
  let ?b = "run_builder run"
  obtain b' where b': "push_node (po_json ports) ?b tag next = Inr b'"
    "map bn_full (cb_slab b') = map bn_full (cb_slab ?b) @ [next]"
    "map bn_state (cb_slab b') = map bn_state (cb_slab ?b) @
      [\<lparr>ss_payload = encode (po_json ports) (cb_keyframe_policy ?b) (bn_full (cb_slab ?b ! cb_current_id ?b)) next,
        ss_tag = tag, ss_baseline = Parent, ss_next = None\<rparr>]"
    "cb_current_id b' = length (cb_slab ?b)"
    using push_node_columns [OF run_ok_current [OF assms(1)], of "po_json ports" tag "next"] by blast
  have "length (cb_slab b') = Suc (length (cb_slab ?b))" using arg_cong [OF b'(2), of length] by simp
  then have "bn_full (cb_slab b' ! length (cb_slab ?b)) = (map bn_full (cb_slab ?b) @ [next]) ! length (cb_slab ?b)"
    unfolding b'(2) [symmetric] by simp
  then have "bn_full (cb_slab b' ! length (cb_slab ?b)) = next" by (simp add: nth_append)
  moreover have "built (po_json ports) b'"
    using assms b'(1) by (auto simp: run_ok_def intro: built.push)
  ultimately show ?thesis
    using b' assms by (simp add: advance_def run_ok_def slab_keys_state del: map_map)
qed

lemma attach_ok:
  assumes "run_ok ports run" and "run_ok ports sub" and "p < length (cb_slab (run_builder run))"
  shows "\<exists>b. attach_independent_branch (run_builder run) p (run_builder sub) = Inr (b, length (cb_slab (run_builder run))) \<and>
    run_ok ports \<lparr>run_builder = b, run_value = run_value run, run_logs = logs\<rparr> \<and>
    slab_keys (cb_slab b) = run_keys run @ run_keys sub"
proof -
  let ?b = "run_builder run" and ?s = "run_builder sub"
  have root: "cb_root_id ?s = 0" and tree: "tree (children_of (cb_slab ?s))"
    using run_ok_recorded [OF assms(2)] by (simp_all add: recorded_def)
  have valid: "validate_tree (children_of (cb_slab ?s)) (cb_root_id ?s) = Inr ()"
    using validate_tree_ok [OF tree] root by simp
  obtain b where b: "attach_independent_branch ?b p ?s = Inr (b, length (cb_slab ?b))"
    "map bn_full (cb_slab b) = map bn_full (cb_slab ?b) @ map bn_full (cb_slab ?s)"
    "map bn_state (cb_slab b) = map bn_state (cb_slab ?b) @
      map (\<lambda>i. bn_state (grafted ?s i)) [0..<length (cb_slab ?s)]"
    "cb_current_id b = cb_current_id ?b"
    using attach_columns [OF assms(3) valid root] by blast
  have cur: "cb_current_id ?b < length (cb_slab ?b)" by (rule run_ok_current [OF assms(1)])
  have len: "length (cb_slab b) = length (cb_slab ?b) + length (cb_slab ?s)"
    using arg_cong [OF b(2), of length] by simp
  then have "bn_full (cb_slab b ! cb_current_id ?b) =
      (map bn_full (cb_slab ?b) @ map bn_full (cb_slab ?s)) ! cb_current_id ?b"
    unfolding b(2) [symmetric] using cur by simp
  then have full: "bn_full (cb_slab b ! cb_current_id ?b) = run_value run"
    using cur assms(1) by (simp add: nth_append run_ok_def)
  have "built (po_json ports) b"
    using assms b(1) by (auto simp: run_ok_def intro: built.attach)
  moreover have "map (\<lambda>s. node_key (ss_tag s)) (map (\<lambda>i. bn_state (grafted ?s i)) [0..<length (cb_slab ?s)]) =
      slab_keys (cb_slab ?s)"
    by (rule nth_equalityI) (simp_all add: slab_keys_def grafted_def Let_def)
  ultimately show ?thesis using b full assms(1)
    by (simp add: run_ok_def slab_keys_state del: map_map)
qed

lemma parse_config_wf: "parse_config_document ports text = Inr v \<Longrightarrow> value_wf v"
  by (auto simp: parse_config_document_def split: sum.splits intro: from_yaml_wf)

lemma apply_transform_wf:
  assumes "runner_wf (po_runner ports)" and "value_wf c"
  shows "value_wf (fst (apply_transform ports profiles tid c))"
proof -
  have "value_wf v" if "fst (run_script (po_runner ports) rt src c) = Inr v" for rt src v
    using that by (rule runner_wf_run [OF assms])
  then show ?thesis
    using assms apply_overlay_wf [OF assms(1) parse_config_wf assms(2)]
    by (auto simp: apply_transform_def Let_def split_beta
        split: option.splits ProfileDefinition.splits sum.splits TransformDefinition.splits)
qed

section \<open>What the pipeline computes\<close>

text \<open>
  The pipeline without builder, tags and logs: the final configuration as a function of the document
  and the ports. The executor is shown to refine it.
\<close>

definition apply_transforms :: "Ports \<Rightarrow> Profiles \<Rightarrow> ProfileId list \<Rightarrow> ConfigValue \<Rightarrow> ConfigValue" where
  "apply_transforms ports p tids c = fold (\<lambda>tid c. fst (apply_transform ports p tid c)) tids c"

definition file_of :: "Profiles \<Rightarrow> ProfileId \<Rightarrow> FileConfig option" where
  "file_of p u =
     (case get_item p u of
        Some it \<Rightarrow> (case it_definition it of Config (File f) \<Rightarrow> Some f | _ \<Rightarrow> None) | None \<Rightarrow> None)"

text \<open>The content of a file profile: what reading and parsing its materialized file gives.\<close>

definition file_content :: "Ports \<Rightarrow> ProfileId \<Rightarrow> FileConfig \<Rightarrow> RuntimePipelineError + ConfigValue" where
  "file_content ports pid file =
     (let path = mf_file (materialized (fc_source file)) in
      case po_read ports path of
        Inl e \<Rightarrow> Inl (ContentSource pid path e)
      | Inr text \<Rightarrow>
          (case parse_config_document ports text of Inl msg \<Rightarrow> Inl (ParseProfile pid msg) | Inr raw \<Rightarrow> Inr raw))"

definition file_config :: "Ports \<Rightarrow> Profiles \<Rightarrow> ProfileId \<Rightarrow> RuntimePipelineError + ConfigValue" where
  "file_config ports p u =
     (case file_content ports u (the (file_of p u)) of
        Inl e \<Rightarrow> Inl e
      | Inr raw \<Rightarrow> Inr (apply_transforms ports p (fc_transforms (the (file_of p u))) raw))"

definition extend_config ::
    "Ports \<Rightarrow> Profiles \<Rightarrow> ProfileId \<Rightarrow> ConfigValue \<Rightarrow> RuntimePipelineError + ConfigValue" where
  "extend_config ports p u c =
     (case file_config ports p u of Inl e \<Rightarrow> Inl e | Inr m \<Rightarrow> Inr (fst (append_proxies c m u)))"

definition base_config :: "Ports \<Rightarrow> Profiles \<Rightarrow> CompositionConfig \<Rightarrow> RuntimePipelineError + ConfigValue" where
  "base_config ports p c = (case cc_base c of Some u \<Rightarrow> file_config ports p u | None \<Rightarrow> Inr clean_seed)"

definition composition_config :: "Ports \<Rightarrow> Profiles \<Rightarrow> CompositionConfig \<Rightarrow> RuntimePipelineError + ConfigValue" where
  "composition_config ports p c =
     (case base_config ports p c of
        Inl e \<Rightarrow> Inl e
      | Inr v \<Rightarrow>
          (case result_fold (extend_config ports p) (cc_extend_proxies_from c) v of
             Inl e \<Rightarrow> Inl e
           | Inr w \<Rightarrow> Inr (apply_transforms ports p (cc_transforms c) w)))"

definition target_config :: "Ports \<Rightarrow> Profiles \<Rightarrow> ExecutionTarget \<Rightarrow> RuntimePipelineError + ConfigValue" where
  "target_config ports p target =
     (case target of
        Bare \<Rightarrow> Inr empty_object
      | TargetSelected pid \<Rightarrow>
          (case it_definition (the (get_item p pid)) of
             Config (Composition c) \<Rightarrow> composition_config ports p c
           | _ \<Rightarrow> file_config ports p pid))"

definition builtin_config :: "Ports \<Rightarrow> BuiltinTransform \<Rightarrow> ConfigValue \<Rightarrow> ConfigValue" where
  "builtin_config ports bt c =
     (case fst (run_script (po_runner ports) (bt_runtime bt) (bt_source bt) c) of Inr v \<Rightarrow> v | Inl e \<Rightarrow> c)"

definition tail_config :: "Ports \<Rightarrow> RuntimePipelineInputs \<Rightarrow> ConfigValue \<Rightarrow> ConfigValue" where
  "tail_config ports inputs c =
     finalize
       (fold (builtin_config ports) (in_builtin_transforms inputs)
         (apply_guard
           (whitelist_filter c (stage1_fields (pr_valid (in_profiles inputs))) (in_whitelist_enabled inputs))
           (in_guard inputs)))
       (in_tun inputs) (in_whitelist_enabled inputs)"

definition pipeline_config :: "Ports \<Rightarrow> RuntimePipelineInputs \<Rightarrow> RuntimePipelineError + ConfigValue" where
  "pipeline_config ports inputs =
     (case target_config ports (in_profiles inputs) (in_target inputs) of
        Inl e \<Rightarrow> Inl e
      | Inr c \<Rightarrow>
          Inr (tail_config ports inputs
                (apply_transforms ports (in_profiles inputs) (pr_global_transforms (in_profiles inputs)) c)))"

section \<open>The simulation\<close>

text \<open>A result of the executor agrees with the configuration computed and has recorded the given keys.\<close>

definition yields ::
    "Ports \<Rightarrow> SnapshotNodeKey list \<Rightarrow> RuntimePipelineError + PipelineRun \<Rightarrow> RuntimePipelineError + ConfigValue \<Rightarrow> bool" where
  "yields ports keys res spec =
     (case spec of
        Inl e \<Rightarrow> res = Inl e
      | Inr v \<Rightarrow> \<exists>run. res = Inr run \<and> run_ok ports run \<and> run_value run = v \<and> run_keys run = keys)"

lemma yields_Inl [simp]: "yields ports keys res (Inl e) = (res = Inl e)"
  by (simp add: yields_def)

lemma yields_Inr: "yields ports keys (Inr run) (Inr v) = (run_ok ports run \<and> run_value run = v \<and> run_keys run = keys)"
  by (auto simp: yields_def)

lemma yieldsE:
  assumes "yields ports keys res spec"
  obtains e where "spec = Inl e" "res = Inl e"
  | run v where "spec = Inr v" "res = Inr run" "run_ok ports run" "run_value run = v" "run_keys run = keys"
  using assms by (cases spec) (auto simp: yields_def)

definition indexed :: "(u32 \<Rightarrow> 'k) \<Rightarrow> nat \<Rightarrow> 'k list" where
  "indexed f n = map (\<lambda>i. f (of_nat i)) [0..<n]"

lemma enumerated_snoc: "enumerated (xs @ [x]) = enumerated xs @ [(length xs, x)]"
  by (simp add: enumerated_def)

lemma indexed_Suc: "indexed f (Suc n) = indexed f n @ [f (of_nat n)]"
  by (simp add: indexed_def)

lemma apply_transforms_snoc:
  "apply_transforms ports p (tids @ [tid]) c = fst (apply_transform ports p tid (apply_transforms ports p tids c))"
  by (simp add: apply_transforms_def)

lemma yields_advance:
  "run_ok ports run \<Longrightarrow> value_wf v \<Longrightarrow> yields ports (run_keys run @ [node_key tag]) (advance ports tag v entries run) (Inr v)"
  using advance_ok [of ports run v tag entries] by (auto simp: yields_def)

lemma yields_transforms:
  assumes "runner_wf (po_runner ports)" and "run_ok ports run"
    and key: "\<And>tid kind i. node_key (tag tid kind i) = key i"
  shows "yields ports (run_keys run @ indexed key (length tids))
    (result_fold (transform_step ports p tag) (enumerated tids) run) (Inr (apply_transforms ports p tids (run_value run)))"
proof (induction tids rule: rev_induct)
  case Nil
  then show ?case using assms(2) by (simp add: enumerated_def indexed_def yields_Inr apply_transforms_def)
next
  case (snoc tid tids)
  then obtain r where r: "result_fold (transform_step ports p tag) (enumerated tids) run = Inr r"
    "run_ok ports r" "run_value r = apply_transforms ports p tids (run_value run)"
    "run_keys r = run_keys run @ indexed key (length tids)" by (auto elim: yieldsE)
  obtain nxt kind entries where t: "apply_transform ports p tid (run_value r) = (nxt, kind, entries)"
    by (metis prod_cases3)
  have "value_wf nxt"
    using apply_transform_wf [OF assms(1), of "run_value r" p tid] r(2) t by (simp add: run_ok_def)
  from yields_advance [OF r(2) this, of "tag tid kind (of_nat (length tids))" entries] r t show ?case
    by (simp add: enumerated_snoc result_fold_snoc transform_step_def key indexed_Suc apply_transforms_snoc)
qed

definition file_keys :: "ProfileId \<Rightarrow> ConfigExecutionRole \<Rightarrow> FileConfig \<Rightarrow> SnapshotNodeKey list" where
  "file_keys pid role file =
     KeyFileRoot pid role # indexed (KeyScopedTransform pid role) (length (fc_transforms file))"

lemma file_of_Some: "(file_of p u = Some f) = (\<exists>it. get_item p u = Some it \<and> it_definition it = Config (File f))"
  by (auto simp: file_of_def split: option.splits ProfileDefinition.splits ConfigDefinition.splits)

lemma refers_file: "refers_to is_direct_file_config p u \<Longrightarrow> \<exists>f. file_of p u = Some f"
  by (auto dest!: refers_to_get simp: file_of_Some elim: is_direct_file_config.elims)

lemma yields_file:
  assumes "runner_wf (po_runner ports)" and fo: "file_of p u = Some f"
  shows "yields ports (file_keys u role f) (build_scoped_file ports p logs u role) (file_config ports p u)"
proof -
  obtain it where it: "get_item p u = Some it" "it_definition it = Config (File f)"
    using fo by (auto simp: file_of_Some)
  show ?thesis
  proof (cases "file_content ports u f")
    case (Inl e)
    then show ?thesis using it fo
      by (auto simp: file_config_def file_content_def build_scoped_file_def Let_def split: sum.splits)
  next
    case (Inr raw)
    then obtain src where src: "po_read ports (mf_file (materialized (fc_source f))) = Inr src"
      "parse_config_document ports src = Inr raw"
      by (auto simp: file_content_def Let_def split: sum.splits)
    let ?start = "\<lparr>run_builder = new_root raw (FileConfigRoot u role), run_value = raw, run_logs = logs\<rparr>"
    have "run_ok ports ?start" by (rule run_ok_root [OF parse_config_wf [OF src(2)]])
    from yields_transforms [OF assms(1) this, of "ScopedTransform u role" "KeyScopedTransform u role" "fc_transforms f" p]
    show ?thesis using it src Inr fo by (simp add: build_scoped_file_def file_keys_def file_config_def Let_def)
  qed
qed

section \<open>Compositions\<close>

lemma append_proxies_wf:
  assumes "value_wf w" and "value_wf m"
  shows "value_wf (fst (append_proxies w m mid))"
proof -
  have arr: "list_all value_wf xs" if "value_wf v" "obj_get v ''proxies'' = Some (Array xs)" for v xs
    using value_wf_obj_get [OF that] by simp
  show ?thesis unfolding append_proxies_def Let_def
    using assms arr [of w] arr [of m]
    by (auto simp: as_array_arc_Some list_all_iff split: option.splits prod.splits intro!: value_wf_obj_insert)
qed

definition contributor_keys :: "Profiles \<Rightarrow> ProfileId \<Rightarrow> nat \<times> ProfileId \<Rightarrow> SnapshotNodeKey list" where
  "contributor_keys p cid = (\<lambda>(i, u).
     file_keys u (CompositionContributor cid (of_nat i)) (the (file_of p u)) @ [KeyExtendProxies cid (of_nat i)])"

lemma yields_extend:
  assumes "runner_wf (po_runner ports)" and ok: "run_ok ports run" and fo: "file_of p u = Some f"
  shows "yields ports (run_keys run @ contributor_keys p cid (i, u)) (extend_step ports p cid (i, u) run)
    (extend_config ports p u (run_value run))"
  using yields_file [OF assms(1) fo, of "CompositionContributor cid (of_nat i)" "run_logs run"]
proof (cases rule: yieldsE)
  case (1 e)
  then show ?thesis by (simp add: extend_step_def extend_config_def)
next
  case (2 sub v)
  obtain b where b: "attach_independent_branch (run_builder run) (cb_current_id (run_builder run)) (run_builder sub) =
      Inr (b, length (cb_slab (run_builder run)))"
    "run_ok ports \<lparr>run_builder = b, run_value = run_value run, run_logs = run_logs sub\<rparr>"
    "slab_keys (cb_slab b) = run_keys run @ run_keys sub"
    using attach_ok [OF ok 2(3) run_ok_current [OF ok]] by blast
  let ?ap = "append_proxies (run_value run) (run_value sub) u"
  have "value_wf (fst ?ap)" using ok 2(3) by (intro append_proxies_wf) (simp_all add: run_ok_def)
  from yields_advance [OF b(2) this, of "ExtendProxiesStep cid u (of_nat i)" "snd ?ap"] 2 b show ?thesis
    by (simp add: extend_step_def extend_config_def contributor_keys_def fo split_beta)
qed

lemma yields_extends:
  assumes "runner_wf (po_runner ports)" and "run_ok ports run" and "\<forall>u \<in> set us. \<exists>f. file_of p u = Some f"
  shows "yields ports (run_keys run @ concat (map (contributor_keys p cid) (enumerated us)))
    (result_fold (extend_step ports p cid) (enumerated us) run) (result_fold (extend_config ports p) us (run_value run))"
  using assms(3)
proof (induction us rule: rev_induct)
  case Nil
  then show ?case using assms(2) by (simp add: enumerated_def yields_Inr)
next
  case (snoc u us)
  then obtain f where f: "file_of p u = Some f" by auto
  from snoc have "yields ports (run_keys run @ concat (map (contributor_keys p cid) (enumerated us)))
    (result_fold (extend_step ports p cid) (enumerated us) run) (result_fold (extend_config ports p) us (run_value run))"
    by simp
  then show ?case
  proof (cases rule: yieldsE)
    case (1 e)
    then show ?thesis by (simp add: enumerated_snoc result_fold_snoc)
  next
    case (2 r v)
    from yields_extend [OF assms(1) 2(3) f, of cid "length us"] 2 show ?thesis
      by (simp add: enumerated_snoc result_fold_snoc)
  qed
qed

definition base_keys :: "Profiles \<Rightarrow> ProfileId \<Rightarrow> CompositionConfig \<Rightarrow> SnapshotNodeKey list" where
  "base_keys p cid c =
     KeyCompositionRoot cid #
       (case cc_base c of Some u \<Rightarrow> file_keys u (CompositionBase cid) (the (file_of p u)) | None \<Rightarrow> [])"

definition composition_keys :: "Profiles \<Rightarrow> ProfileId \<Rightarrow> CompositionConfig \<Rightarrow> SnapshotNodeKey list" where
  "composition_keys p cid c =
     base_keys p cid c @ concat (map (contributor_keys p cid) (enumerated (cc_extend_proxies_from c))) @
     indexed (KeyScopedTransform cid Selected) (length (cc_transforms c))"

lemma yields_base:
  assumes "runner_wf (po_runner ports)" and "\<forall>u. cc_base c = Some u \<longrightarrow> (\<exists>f. file_of p u = Some f)"
  shows "yields ports (base_keys p cid c) (composition_root ports p logs cid c) (base_config ports p c)"
proof (cases "cc_base c")
  case None
  have "value_wf clean_seed" by (simp add: clean_seed_def)
  then have "run_ok ports \<lparr>run_builder = new_root clean_seed (CompositionRoot cid None), run_value = clean_seed,
      run_logs = logs\<rparr>"
    by (rule run_ok_root)
  with None show ?thesis by (simp add: composition_root_def base_keys_def base_config_def yields_Inr)
next
  case (Some u)
  then obtain f where f: "file_of p u = Some f" using assms(2) by auto
  from yields_file [OF assms(1) f, of "CompositionBase cid" logs] show ?thesis
  proof (cases rule: yieldsE)
    case (1 e)
    then show ?thesis using Some by (simp add: composition_root_def base_config_def)
  next
    case (2 sub v)
    let ?root = "new_root (run_value sub) (CompositionRoot cid (Some u))"
    let ?start = "\<lparr>run_builder = ?root, run_value = run_value sub, run_logs = run_logs sub\<rparr>"
    have "run_ok ports ?start" using 2(3) by (intro run_ok_root) (simp add: run_ok_def)
    from attach_ok [OF this 2(3), of 0 "run_logs sub"] obtain b where b:
      "attach_independent_branch ?root 0 (run_builder sub) = Inr (b, 1)"
      "run_ok ports \<lparr>run_builder = b, run_value = run_value sub, run_logs = run_logs sub\<rparr>"
      "slab_keys (cb_slab b) = KeyCompositionRoot cid # run_keys sub"
      by (auto simp: new_root_def new_root_with_keyframe_policy_def slab_keys_def)
    moreover have "cb_root_id ?root = 0" by (simp add: new_root_def new_root_with_keyframe_policy_def)
    ultimately show ?thesis using 2 Some f
      by (simp add: composition_root_def base_keys_def base_config_def yields_Inr)
  qed
qed

lemma yields_composition:
  assumes "runner_wf (po_runner ports)" and "\<forall>u. cc_base c = Some u \<longrightarrow> (\<exists>f. file_of p u = Some f)"
    and "\<forall>u \<in> set (cc_extend_proxies_from c). \<exists>f. file_of p u = Some f"
  shows "yields ports (composition_keys p cid c) (run_composition ports p logs cid c) (composition_config ports p c)"
  using yields_base [OF assms(1,2), of cid logs]
proof (cases rule: yieldsE)
  case (1 e)
  then show ?thesis by (simp add: run_composition_def composition_config_def)
next
  case (2 run v)
  from yields_extends [OF assms(1) 2(3) assms(3), of cid] show ?thesis
  proof (cases rule: yieldsE)
    case (1 e)
    then show ?thesis using 2 by (simp add: run_composition_def composition_config_def)
  next
    case ext: (2 r w)
    from yields_transforms [OF assms(1) ext(3), of "ScopedTransform cid Selected" "KeyScopedTransform cid Selected"
        "cc_transforms c" p] 2 ext show ?thesis
      by (simp add: run_composition_def composition_config_def composition_keys_def)
  qed
qed


section \<open>The whole run of a valid document\<close>

text \<open>The file profiles a target is made of, and the keys of the nodes its run records.\<close>

definition target_files :: "Profiles \<Rightarrow> ExecutionTarget \<Rightarrow> ProfileId list" where
  "target_files p target =
     (case target of
        Bare \<Rightarrow> []
      | TargetSelected pid \<Rightarrow>
          (case it_definition (the (get_item p pid)) of
             Config (Composition c) \<Rightarrow>
               (case cc_base c of Some u \<Rightarrow> [u] | None \<Rightarrow> []) @ cc_extend_proxies_from c
           | _ \<Rightarrow> [pid]))"

definition root_keys :: "Profiles \<Rightarrow> ExecutionTarget \<Rightarrow> SnapshotNodeKey list" where
  "root_keys p target =
     (case target of
        Bare \<Rightarrow> [KeyBareRoot]
      | TargetSelected pid \<Rightarrow>
          (case it_definition (the (get_item p pid)) of
             Config (Composition c) \<Rightarrow> composition_keys p pid c
           | _ \<Rightarrow> file_keys pid Selected (the (file_of p pid))))"

definition selected_of :: "ExecutionTarget \<Rightarrow> ProfileId option" where
  "selected_of target = (case target of Bare \<Rightarrow> None | TargetSelected pid \<Rightarrow> Some pid)"

definition tail_keys :: "ProfileId option \<Rightarrow> nat \<Rightarrow> SnapshotNodeKey list" where
  "tail_keys sel n =
     [KeyBuiltin sel WhitelistFieldFilter, KeyBuiltin sel GuardOverrides] @ indexed (KeyBuiltinTransform sel) n @
     [KeyBuiltin sel Finalizing]"

definition pipeline_keys :: "RuntimePipelineInputs \<Rightarrow> SnapshotNodeKey list" where
  "pipeline_keys inputs =
     (let sel = selected_of (in_target inputs); p = in_profiles inputs in
      root_keys p (in_target inputs) @ indexed (KeyGlobalTransform sel) (length (pr_global_transforms p)) @
      tail_keys sel (length (in_builtin_transforms inputs)))"

definition target_ok :: "Profiles \<Rightarrow> ExecutionTarget \<Rightarrow> bool" where
  "target_ok p target = (case target of Bare \<Rightarrow> True | TargetSelected pid \<Rightarrow> refers_to is_config p pid)"

lemma valid_members:
  assumes "valid_document p" and "get_item p cid = Some it" and "it_definition it = Config (Composition c)"
  shows "\<forall>u. cc_base c = Some u \<longrightarrow> (\<exists>f. file_of p u = Some f)"
    and "\<forall>u \<in> set (cc_extend_proxies_from c). \<exists>f. file_of p u = Some f"
proof -
  have "(cid, it) \<in> set (pr_items p)" using assms(2) by (simp add: get_item_def im_get_Some_in)
  with assms(1,3) have "valid_composition p cid c" by (auto simp: valid_document_def valid_definition_def)
  then show "\<forall>u. cc_base c = Some u \<longrightarrow> (\<exists>f. file_of p u = Some f)"
    and "\<forall>u \<in> set (cc_extend_proxies_from c). \<exists>f. file_of p u = Some f"
    by (auto simp: valid_composition_def valid_member_def intro: refers_file)
qed

lemma target_cases:
  assumes "target_ok p target"
  obtains "target = Bare"
  | pid it f where "target = TargetSelected pid" "get_item p pid = Some it" "it_definition it = Config (File f)"
  | pid it c where "target = TargetSelected pid" "get_item p pid = Some it" "it_definition it = Config (Composition c)"
proof (cases target)
  case (TargetSelected pid)
  with assms obtain it cd where "get_item p pid = Some it" "it_definition it = Config cd"
    by (auto simp: target_ok_def dest!: refers_to_get elim: is_config.elims)
  with TargetSelected that(2,3) show thesis by (cases cd) auto
qed (rule that(1))

text \<open>The root of a run, without the name of the selected profile.\<close>

lemma yields_root:
  assumes "runner_wf (po_runner ports)" and "valid_document p" and "target_ok p target"
  shows "\<exists>res. execution_root ports p target = map_sum (\<lambda>e. e) (\<lambda>run. (run, selected_of target)) res \<and>
    yields ports (root_keys p target) res (target_config ports p target)"
  using assms(3)
proof (cases rule: target_cases)
  case 1
  have "run_ok ports \<lparr>run_builder = new_root empty_object BareRoot, run_value = empty_object, run_logs = []\<rparr>"
    by (rule run_ok_root) (simp add: empty_object_def)
  with 1 show ?thesis
    by (intro exI [of _ "Inr \<lparr>run_builder = new_root empty_object BareRoot, run_value = empty_object, run_logs = []\<rparr>"])
      (simp add: execution_root_def selected_of_def root_keys_def target_config_def yields_Inr)
next
  case (2 pid it f)
  then have "file_of p pid = Some f" by (simp add: file_of_Some)
  from yields_file [OF assms(1) this, of Selected "[]"] 2 this show ?thesis
    by (intro exI [of _ "build_scoped_file ports p [] pid Selected"])
      (simp add: execution_root_def selected_of_def root_keys_def target_config_def split: sum.splits)
next
  case (3 pid it c)
  from yields_composition [OF assms(1) valid_members [OF assms(2) 3(2,3)], of pid "[]"] 3 show ?thesis
    by (intro exI [of _ "run_composition ports p [] pid c"])
      (simp add: execution_root_def selected_of_def root_keys_def target_config_def split: sum.splits)
qed

lemma yields_builtins:
  assumes "runner_wf (po_runner ports)" and "run_ok ports run"
  shows "yields ports (run_keys run @ indexed (KeyBuiltinTransform sel) (length bts))
    (result_fold (builtin_step ports sel) (enumerated bts) run) (Inr (fold (builtin_config ports) bts (run_value run)))"
proof (induction bts rule: rev_induct)
  case Nil
  then show ?case using assms(2) by (simp add: enumerated_def indexed_def yields_Inr)
next
  case (snoc bt bts)
  then obtain r where r: "result_fold (builtin_step ports sel) (enumerated bts) run = Inr r"
    "run_ok ports r" "run_value r = fold (builtin_config ports) bts (run_value run)"
    "run_keys r = run_keys run @ indexed (KeyBuiltinTransform sel) (length bts)" by (auto elim: yieldsE)
  obtain res logs where s: "run_script (po_runner ports) (bt_runtime bt) (bt_source bt) (run_value r) = (res, logs)"
    by force
  have "value_wf v" if "res = Inr v" for v
    using runner_wf_run [OF assms(1), of "run_value r" "bt_runtime bt" "bt_source bt"] s that r(2)
    by (simp add: run_ok_def)
  then have wf: "value_wf (builtin_config ports bt (run_value r))"
    using r(2) s by (simp add: builtin_config_def run_ok_def split: sum.splits)
  let ?tag = "BuiltinTransformTag sel (bt_name bt) (of_nat (length bts))"
  let ?log = "case res of Inr v \<Rightarrow> logs | Inl e \<Rightarrow> logs @ [log_error e]"
  have "builtin_step ports sel (length bts, bt) r = advance ports ?tag (builtin_config ports bt (run_value r)) ?log r"
    by (cases res) (simp_all add: builtin_step_def builtin_config_def s)
  with yields_advance [OF r(2) wf, of ?tag ?log] r show ?case
    by (simp add: enumerated_snoc result_fold_snoc indexed_Suc)
qed

lemma value_wf_finalize: "value_wf c \<Longrightarrow> value_wf (finalize c p w)"
  by (simp add: finalize_def step_wf)

lemma push_step_ok:
  "run_ok ports run \<Longrightarrow> value_wf v \<Longrightarrow>
   \<exists>run'. push_step ports sel step v run = Inr run' \<and> run_ok ports run' \<and> run_value run' = v \<and>
     run_keys run' = run_keys run @ [KeyBuiltin sel step] \<and> cb_current_id (run_builder run') = length (run_keys run)"
  unfolding push_step_def using advance_ok [of ports run v "BuiltinStep sel step" "[]"] by auto

lemma shared_tail_ok:
  assumes "runner_wf (po_runner ports)" and "run_ok ports run"
  shows "\<exists>run'. shared_tail ports inputs sel run = Inr run' \<and> run_ok ports run' \<and>
    run_value run' = tail_config ports inputs (run_value run) \<and>
    run_keys run' = run_keys run @ tail_keys sel (length (in_builtin_transforms inputs)) \<and>
    Suc (cb_current_id (run_builder run')) = length (run_keys run')"
proof -
  have wf: "run_ok ports r \<Longrightarrow> value_wf (run_value r)" for r by (simp add: run_ok_def)
  let ?w = "whitelist_filter (run_value run) (stage1_fields (pr_valid (in_profiles inputs))) (in_whitelist_enabled inputs)"
  obtain r1 where r1: "push_step ports sel WhitelistFieldFilter ?w run = Inr r1" "run_ok ports r1" "run_value r1 = ?w"
    "run_keys r1 = run_keys run @ [KeyBuiltin sel WhitelistFieldFilter]"
    using push_step_ok [OF assms(2) value_wf_whitelist [OF wf [OF assms(2)]]] by blast
  obtain r2 where r2: "push_step ports sel GuardOverrides (apply_guard (run_value r1) (in_guard inputs)) r1 = Inr r2"
    "run_ok ports r2" "run_value r2 = apply_guard (run_value r1) (in_guard inputs)"
    "run_keys r2 = run_keys r1 @ [KeyBuiltin sel GuardOverrides]"
    using push_step_ok [OF r1(2) value_wf_apply_guard [OF wf [OF r1(2)]]] by blast
  obtain r3 where r3: "result_fold (builtin_step ports sel) (enumerated (in_builtin_transforms inputs)) r2 = Inr r3"
    "run_ok ports r3" "run_value r3 = fold (builtin_config ports) (in_builtin_transforms inputs) (run_value r2)"
    "run_keys r3 = run_keys r2 @ indexed (KeyBuiltinTransform sel) (length (in_builtin_transforms inputs))"
    using yields_builtins [OF assms(1) r2(2), of sel "in_builtin_transforms inputs"] by (auto elim: yieldsE)
  obtain r4 where r4: "push_step ports sel Finalizing
      (finalize (run_value r3) (in_tun inputs) (in_whitelist_enabled inputs)) r3 = Inr r4"
    "run_ok ports r4" "run_value r4 = finalize (run_value r3) (in_tun inputs) (in_whitelist_enabled inputs)"
    "run_keys r4 = run_keys r3 @ [KeyBuiltin sel Finalizing]"
    "cb_current_id (run_builder r4) = length (run_keys r3)"
    using push_step_ok [OF r3(2) value_wf_finalize [OF wf [OF r3(2)]]] by blast
  have "shared_tail ports inputs sel run = Inr r4" using r1(1) r2(1) r3(1) r4(1) by (simp add: shared_tail_def)
  moreover have "run_value r4 = tail_config ports inputs (run_value run)"
    by (simp add: tail_config_def r1(3) r2(3) r3(3) r4(3))
  ultimately show ?thesis using r4(2,5) by (simp add: tail_keys_def r1(4) r2(4) r3(4) r4(4))
qed

section \<open>Node keys identify nodes\<close>

lemma of_nat_u32_inject: "i < 2 ^ 32 \<Longrightarrow> j < 2 ^ 32 \<Longrightarrow> (of_nat i :: u32) = of_nat j \<Longrightarrow> i = j"
proof -
  assume eq: "(of_nat i :: u32) = of_nat j" and bounds: "i < 2 ^ 32" "j < 2 ^ 32"
  have "unat (of_nat k :: u32) = k" if "k < 2 ^ 32" for k using that by (simp add: unat_of_nat)
  with eq bounds show "i = j" by metis
qed

lemma distinct_indexed:
  assumes "n \<le> 2 ^ 32" and "inj f"
  shows "distinct (indexed f n)"
proof -
  have "inj_on (\<lambda>i. f (of_nat i :: u32)) {0..<n}"
  proof (rule inj_onI)
    fix i j assume "i \<in> {0..<n}" "j \<in> {0..<n}" and "f (of_nat i) = f (of_nat j)"
    then show "i = j" using assms(1) injD [OF assms(2)] by (intro of_nat_u32_inject) auto
  qed
  then show ?thesis by (simp add: indexed_def distinct_map)
qed

lemma set_indexed: "set (indexed f n) \<subseteq> range f"
  by (auto simp: indexed_def)

lemma distinct_file_keys:
  "length (fc_transforms f) \<le> 2 ^ 32 \<Longrightarrow> distinct (file_keys pid role f)"
  using set_indexed [of "KeyScopedTransform pid role"]
  by (auto simp: file_keys_def intro!: distinct_indexed injI)

text \<open>The contributor a key belongs to.\<close>

fun contributor_of :: "SnapshotNodeKey \<Rightarrow> u32 option" where
  "contributor_of (KeyFileRoot u (CompositionContributor cid i)) = Some i"
| "contributor_of (KeyScopedTransform u (CompositionContributor cid i) j) = Some i"
| "contributor_of (KeyExtendProxies cid i) = Some i"
| "contributor_of _ = None"

lemma contributor_keys_of: "k \<in> set (contributor_keys p cid (i, u)) \<Longrightarrow> contributor_of k = Some (of_nat i)"
  by (auto simp: contributor_keys_def file_keys_def indexed_def)

lemma length_file_keys [simp]: "length (file_keys pid role f) = Suc (length (fc_transforms f))"
  by (simp add: file_keys_def indexed_def)

lemma distinct_contributor_keys:
  assumes "length (contributor_keys p cid (i, u)) \<le> 2 ^ 32"
  shows "distinct (contributor_keys p cid (i, u))"
proof -
  let ?f = "the (file_of p u)"
  have "distinct (file_keys u (CompositionContributor cid (of_nat i)) ?f)"
    using assms by (intro distinct_file_keys) (simp add: contributor_keys_def)
  moreover have "KeyExtendProxies cid (of_nat i) \<notin> set (file_keys u (CompositionContributor cid (of_nat i)) ?f)"
    using set_indexed [of "KeyScopedTransform u (CompositionContributor cid (of_nat i))"] by (auto simp: file_keys_def)
  ultimately show ?thesis by (simp add: contributor_keys_def)
qed

lemma length_contributor_keys: "length us \<le> length (concat (map (contributor_keys p cid) (enumerated us)))"
  by (induction us rule: rev_induct) (simp_all add: enumerated_snoc contributor_keys_def enumerated_def)

lemma distinct_all_contributor_keys:
  "length (concat (map (contributor_keys p cid) (enumerated us))) \<le> 2 ^ 32 \<Longrightarrow>
   distinct (concat (map (contributor_keys p cid) (enumerated us)))"
proof (induction us rule: rev_induct)
  case Nil
  then show ?case by (simp add: enumerated_def)
next
  case (snoc u us)
  let ?old = "concat (map (contributor_keys p cid) (enumerated us))"
  let ?new = "contributor_keys p cid (length us, u)"
  have n: "length ?old + length ?new \<le> 2 ^ 32" using snoc.prems by (simp add: enumerated_snoc)
  have "0 < length ?new" by (simp add: contributor_keys_def)
  then have small: "length us < 2 ^ 32" using length_contributor_keys [of us p cid] n by linarith
  have "contributor_of k \<noteq> Some (of_nat (length us))" if k: "k \<in> set ?old" for k
  proof -
    obtain i v where "i < length us" "k \<in> set (contributor_keys p cid (i, v))"
      using k by (auto simp: enumerated_def set_zip)
    then show ?thesis
      using contributor_keys_of [of k p cid i v] of_nat_u32_inject [of i "length us"] small
      by auto
  qed
  then have "set ?old \<inter> set ?new = {}" using contributor_keys_of [of _ p cid "length us" u] by blast
  then show ?case using snoc.IH n distinct_contributor_keys [of p cid "length us" u]
    by (simp add: enumerated_snoc)
qed

lemma indexed_mem: "k \<in> set (indexed f n) \<Longrightarrow> \<exists>i. k = f i"
  by (auto simp: indexed_def)

lemma distinct_composition_keys:
  assumes "length (composition_keys p cid c) \<le> 2 ^ 32"
  shows "distinct (composition_keys p cid c)"
proof -
  let ?cs = "concat (map (contributor_keys p cid) (enumerated (cc_extend_proxies_from c)))"
  let ?ts = "indexed (KeyScopedTransform cid Selected) (length (cc_transforms c))"
  have "distinct (base_keys p cid c)"
  proof (cases "cc_base c")
    case (Some u)
    have "distinct (file_keys u (CompositionBase cid) (the (file_of p u)))"
      using assms Some by (intro distinct_file_keys) (simp add: composition_keys_def base_keys_def)
    moreover have "KeyCompositionRoot cid \<notin> set (file_keys u (CompositionBase cid) (the (file_of p u)))"
      by (auto simp: file_keys_def dest: indexed_mem)
    ultimately show ?thesis using Some by (simp add: base_keys_def)
  qed (simp add: base_keys_def)
  moreover have "distinct ?cs"
    using assms by (intro distinct_all_contributor_keys) (simp add: composition_keys_def)
  moreover have "distinct ?ts"
    using assms by (intro distinct_indexed injI) (simp_all add: composition_keys_def indexed_def)
  moreover have contr: "contributor_of k \<noteq> None" if k: "k \<in> set ?cs" for k
    using k contributor_keys_of by (auto simp: enumerated_def)
  have "contributor_of k = None" if "k \<in> set (base_keys p cid c) \<union> set ?ts" for k
    using that by (auto simp: base_keys_def file_keys_def dest!: indexed_mem split: option.splits)
  then have "(set (base_keys p cid c) \<union> set ?ts) \<inter> set ?cs = {}" using contr by blast
  moreover have "set (base_keys p cid c) \<inter> set ?ts = {}"
    by (auto simp: base_keys_def file_keys_def dest!: indexed_mem split: option.splits)
  ultimately show ?thesis unfolding composition_keys_def by auto
qed

fun tail_key :: "SnapshotNodeKey \<Rightarrow> bool" where
  "tail_key (KeyGlobalTransform sel i) = True"
| "tail_key (KeyBuiltin sel step) = True"
| "tail_key (KeyBuiltinTransform sel i) = True"
| "tail_key _ = False"

lemma file_keys_not_tail: "k \<in> set (file_keys pid role f) \<Longrightarrow> \<not> tail_key k"
  by (auto simp: file_keys_def dest: indexed_mem)

lemma composition_keys_not_tail: "k \<in> set (composition_keys p cid c) \<Longrightarrow> \<not> tail_key k"
  using file_keys_not_tail
  by (auto simp: composition_keys_def base_keys_def contributor_keys_def dest!: indexed_mem split: option.splits)

lemma root_keys_not_tail: "k \<in> set (root_keys p target) \<Longrightarrow> \<not> tail_key k"
proof (cases target)
  case (TargetSelected pid)
  assume "k \<in> set (root_keys p target)"
  with TargetSelected show ?thesis
    by (cases "it_definition (the (get_item p pid))")
      (auto simp: root_keys_def file_keys_not_tail composition_keys_not_tail split: ConfigDefinition.split_asm)
qed (simp add: root_keys_def)

lemma distinct_tail_keys: "n \<le> 2 ^ 32 \<Longrightarrow> distinct (tail_keys sel n)"
  by (auto simp: tail_keys_def intro!: distinct_indexed injI dest!: indexed_mem)

lemma distinct_root_keys: "length (root_keys p target) \<le> 2 ^ 32 \<Longrightarrow> distinct (root_keys p target)"
  by (auto simp: root_keys_def intro!: distinct_composition_keys distinct_file_keys
      split: ExecutionTarget.splits ProfileDefinition.splits ConfigDefinition.splits)

lemma distinct_pipeline_keys:
  assumes "length (pipeline_keys inputs) \<le> 2 ^ 32"
  shows "distinct (pipeline_keys inputs)"
proof -
  let ?p = "in_profiles inputs" and ?sel = "selected_of (in_target inputs)"
  let ?gs = "indexed (KeyGlobalTransform ?sel) (length (pr_global_transforms ?p))"
  let ?ts = "tail_keys ?sel (length (in_builtin_transforms inputs))"
  have len: "length (root_keys ?p (in_target inputs)) + length ?gs + length ?ts \<le> 2 ^ 32"
    using assms by (simp add: pipeline_keys_def Let_def)
  have "distinct (root_keys ?p (in_target inputs))" using len by (intro distinct_root_keys) simp
  moreover have "distinct ?gs" using len by (intro distinct_indexed injI) (simp_all add: indexed_def)
  moreover have "distinct ?ts" using len by (intro distinct_tail_keys) (simp add: tail_keys_def indexed_def)
  moreover have "set ?gs \<inter> set ?ts = {}" by (auto simp: tail_keys_def dest!: indexed_mem)
  moreover have "tail_key k" if "k \<in> set ?gs \<union> set ?ts" for k
    using that by (auto simp: tail_keys_def dest!: indexed_mem)
  then have "set (root_keys ?p (in_target inputs)) \<inter> (set ?gs \<union> set ?ts) = {}"
    using root_keys_not_tail [of _ ?p "in_target inputs"] by blast
  ultimately show ?thesis unfolding pipeline_keys_def Let_def by (simp add: Int_Un_distrib)
qed

section \<open>Properties of the executor\<close>

text \<open>The graph of a successful run: one node per key, the last one showing the final configuration.\<close>

definition graph_shows :: "RuntimePipelineInputs \<Rightarrow> RuntimeArtifact \<Rightarrow> bool" where
  "graph_shows inputs a =
     (map st_key (gr_nodes (ra_graph a)) = pipeline_keys inputs \<and>
      json_eq (cs_config (st_snapshot (last (gr_nodes (ra_graph a))))) (to_json (ra_final_config a)))"

lemma built_graph_shows:
  assumes "patch_law (po_json ports)" and ok: "run_ok ports run" and keys: "run_keys run = pipeline_keys inputs"
    and cur: "Suc (cb_current_id (run_builder run)) = length (run_keys run)"
    and small: "length (pipeline_keys inputs) \<le> Suc MAX_MATERIALIZE_DEPTH"
  shows "\<exists>g. build_graph (po_json ports) (run_builder run) = Inr g \<and> map st_key (gr_nodes g) = pipeline_keys inputs \<and>
    json_eq (cs_config (st_snapshot (last (gr_nodes g)))) (to_json (run_value run))"
proof -
  let ?slab = "cb_slab (run_builder run)" and ?i = "cb_current_id (run_builder run)"
  have len: "length ?slab = length (pipeline_keys inputs)" using keys by (metis length_map slab_keys_def)
  have rec: "recorded (po_json ports) (run_builder run)" by (rule run_ok_recorded [OF ok])
  then have "shallow (children_of ?slab)"
    using small len by (intro small_shallow) (simp_all add: recorded_def)
  then obtain g where g: "build_graph (po_json ports) (run_builder run) = Inr g"
    "length (gr_nodes g) = length ?slab" "\<forall>i < length ?slab. shows_node ?slab i (gr_nodes g ! i)"
    using build_graph_ok [OF assms(1) rec] small len by (auto simp: MAX_MATERIALIZE_DEPTH_def)
  have n: "length (gr_nodes g) = Suc ?i" using cur g(2) by (simp add: slab_keys_def)
  then have "gr_nodes g \<noteq> []" by auto
  then have "last (gr_nodes g) = gr_nodes g ! ?i" by (simp add: last_conv_nth n)
  moreover have "shows_node ?slab ?i (gr_nodes g ! ?i)" using g(3) run_ok_current [OF ok] by blast
  ultimately have "json_eq (cs_config (st_snapshot (last (gr_nodes g)))) (to_json (run_value run))"
    using ok by (simp add: shows_node_def run_ok_def)
  moreover have "map st_key (gr_nodes g) = pipeline_keys inputs"
    unfolding keys [symmetric] using g(2,3) by (intro nth_equalityI) (simp_all add: slab_keys_def shows_node_def)
  ultimately show ?thesis using g(1) by blast
qed

lemma execute_cases:
  assumes "validate (in_profiles inputs) = Inr ()" and "target_ok (in_profiles inputs) (in_target inputs)"
    and "runner_wf (po_runner ports)" and "patch_law (po_json ports)"
    and "length (pipeline_keys inputs) \<le> Suc MAX_MATERIALIZE_DEPTH"
  obtains e where "target_config ports (in_profiles inputs) (in_target inputs) = Inl e"
    "pipeline_config ports inputs = Inl e" "execute ports inputs = Inl e"
  | a c where "target_config ports (in_profiles inputs) (in_target inputs) = Inr c" "value_wf c"
    "pipeline_config ports inputs = Inr (ra_final_config a)" "execute ports inputs = Inr a" "graph_shows inputs a"
proof -
  let ?p = "in_profiles inputs" and ?t = "in_target inputs" and ?sel = "selected_of (in_target inputs)"
  obtain res where root: "execution_root ports ?p ?t = map_sum (\<lambda>e. e) (\<lambda>run. (run, ?sel)) res"
    "yields ports (root_keys ?p ?t) res (target_config ports ?p ?t)"
    using yields_root [OF assms(3) validate_valid_document [OF assms(1)] assms(2)] by blast
  from root(2) show thesis
  proof (cases rule: yieldsE)
    case (1 e)
    with root(1) show ?thesis by (intro that(1) [of e]) (simp_all add: execute_def pipeline_config_def)
  next
    case (2 r0 v)
    obtain r1 where r1: "result_fold (transform_step ports ?p (GlobalTransform ?sel))
        (enumerated (pr_global_transforms ?p)) r0 = Inr r1" "run_ok ports r1"
      "run_value r1 = apply_transforms ports ?p (pr_global_transforms ?p) v"
      "run_keys r1 = run_keys r0 @ indexed (KeyGlobalTransform ?sel) (length (pr_global_transforms ?p))"
      using yields_transforms [OF assms(3) 2(3), of "GlobalTransform ?sel" "KeyGlobalTransform ?sel"
          "pr_global_transforms ?p" ?p] 2(4) by (auto elim: yieldsE)
    obtain r2 where r2: "shared_tail ports inputs ?sel r1 = Inr r2" "run_ok ports r2"
      "run_value r2 = tail_config ports inputs (run_value r1)"
      "run_keys r2 = run_keys r1 @ tail_keys ?sel (length (in_builtin_transforms inputs))"
      "Suc (cb_current_id (run_builder r2)) = length (run_keys r2)"
      using shared_tail_ok [OF assms(3) r1(2)] by blast
    have "run_keys r2 = pipeline_keys inputs" using 2(5) r1(4) r2(4) by (simp add: pipeline_keys_def Let_def)
    from built_graph_shows [OF assms(4) r2(2) this r2(5) assms(5)] obtain g where g:
      "build_graph (po_json ports) (run_builder r2) = Inr g" "map st_key (gr_nodes g) = pipeline_keys inputs"
      "json_eq (cs_config (st_snapshot (last (gr_nodes g)))) (to_json (run_value r2))" by blast
    let ?a = "\<lparr>ra_final_config = run_value r2, ra_graph = g, ra_step_logs = into_step_logs (run_logs r2),
      ra_applied_fields = filter (\<lambda>k. k \<in> set known_fields) (sample_fields (run_value r1))\<rparr>"
    have "execute ports inputs = Inr ?a"
      using root(1) 2(2) r1(1) r2(1) g(1) by (simp add: execute_def Let_def)
    moreover have "pipeline_config ports inputs = Inr (ra_final_config ?a)"
      using 2(1) r1(3) r2(3) by (simp add: pipeline_config_def)
    moreover have "graph_shows inputs ?a" using g by (simp add: graph_shows_def)
    moreover have "value_wf v" using 2(3,4) by (simp add: run_ok_def)
    ultimately show ?thesis using 2(1) that(2) by blast
  qed
qed

text \<open>A failure to read or parse one of the target's files.\<close>

definition content_failure :: "Ports \<Rightarrow> Profiles \<Rightarrow> ExecutionTarget \<Rightarrow> RuntimePipelineError \<Rightarrow> bool" where
  "content_failure ports p target e =
     (\<exists>u \<in> set (target_files p target). \<exists>f. file_of p u = Some f \<and> file_content ports u f = Inl e)"

lemma file_config_Inl: "file_config ports p u = Inl e \<Longrightarrow> file_content ports u (the (file_of p u)) = Inl e"
  by (simp add: file_config_def split: sum.splits)

lemma extend_configs_Inl:
  "result_fold (extend_config ports p) us c = Inl e \<Longrightarrow> \<exists>u \<in> set us. file_config ports p u = Inl e"
proof (induction us arbitrary: c)
  case (Cons u us)
  then show ?case by (cases "file_config ports p u") (auto simp: extend_config_def)
qed simp

lemma target_config_Inl:
  assumes "valid_document p" and "target_ok p target" and err: "target_config ports p target = Inl e"
  shows "content_failure ports p target e"
  using assms(2)
proof (cases rule: target_cases)
  case 1
  with err show ?thesis by (simp add: target_config_def)
next
  case (2 pid it f)
  then have "file_of p pid = Some f" by (simp add: file_of_Some)
  with 2 err show ?thesis
    by (auto simp: content_failure_def target_files_def target_config_def dest: file_config_Inl)
next
  case (3 pid it c)
  note files = valid_members [OF assms(1) 3(2,3)]
  obtain u where u: "u \<in> set (target_files p target)" "file_config ports p u = Inl e"
    using 3 err
    by (auto simp: target_config_def target_files_def composition_config_def base_config_def
        dest!: extend_configs_Inl split: option.splits sum.splits)
  have "\<exists>f. file_of p u = Some f"
    using u(1) 3 files by (cases "cc_base c") (auto simp: target_files_def)
  then obtain f where "file_of p u = Some f" by blast
  moreover from this have "file_content ports u f = Inl e" using file_config_Inl [OF u(2)] by simp
  ultimately show ?thesis using u(1) by (auto simp: content_failure_def)
qed

text \<open>C1: on a valid document the executor, with its builder, tags, keys and logs, computes exactly the
pure pipeline: the same error, or the configuration obtained from the target's file (or the
composition of its base and contributors) by its own transforms, the global transforms, the
whitelist, the guard, the built-in scripts and finalizing, in that order. Recording a run never
changes its result.\<close>
theorem execute_refines_pipeline:
  assumes "validate (in_profiles inputs) = Inr ()" and "target_ok (in_profiles inputs) (in_target inputs)"
    and "runner_wf (po_runner ports)" and "patch_law (po_json ports)"
    and "length (pipeline_keys inputs) \<le> Suc MAX_MATERIALIZE_DEPTH"
  shows "map_sum (\<lambda>e. e) ra_final_config (execute ports inputs) = pipeline_config ports inputs"
  using assms by (cases rule: execute_cases) auto

text \<open>C9: the only errors. On a valid document a run of at most 1025 steps fails only because a file of
the target cannot be read or parsed, and the error then says which profile; failing or missing
transforms never abort it, and no internal, snapshot or reference error can occur. When it succeeds,
the graph has exactly one node per step under the keys the document determines, no two
of them equal, and its last node shows the final configuration.\<close>
theorem execute_outcome:
  assumes "validate (in_profiles inputs) = Inr ()" and "target_ok (in_profiles inputs) (in_target inputs)"
    and "runner_wf (po_runner ports)" and "patch_law (po_json ports)"
    and "length (pipeline_keys inputs) \<le> Suc MAX_MATERIALIZE_DEPTH"
  shows "(\<exists>e. content_failure ports (in_profiles inputs) (in_target inputs) e \<and> execute ports inputs = Inl e) \<or>
    (\<exists>a. execute ports inputs = Inr a \<and> graph_shows inputs a \<and> distinct (pipeline_keys inputs))"
proof -
  have keys: "distinct (pipeline_keys inputs)"
    using assms(5) by (intro distinct_pipeline_keys) (simp add: MAX_MATERIALIZE_DEPTH_def)
  note failure = target_config_Inl [OF validate_valid_document [OF assms(1)] assms(2)]
  from assms show ?thesis
  proof (cases rule: execute_cases)
    case (1 e)
    then show ?thesis using failure by blast
  next
    case (2 a c)
    then show ?thesis using keys by blast
  qed
qed

text \<open>A run on ports that answer everything.\<close>

definition demo_ports :: Ports where
  "demo_ports =
     \<lparr>po_read = (\<lambda>path. Inr (managed_str path)),
      po_runner = \<lparr>run_script = (\<lambda>rt src c. (Inl ''no engine'', [])), eval_item_predicate = (\<lambda>e v. Inl ''no engine''),
                   eval_item_expr = (\<lambda>e v. Inl ''no engine'')\<rparr>,
      po_parse_yaml = (\<lambda>text. Inr (YMapping [(YString ''proxies'', YSequence [YString text]),
                                             (YString ''secret'', YString ''leak'')])),
      po_apply_merge = Inr, po_json = whole_lib\<rparr>"

definition demo_inputs :: RuntimePipelineInputs where
  "demo_inputs =
     \<lparr>in_profiles = demo_profiles, in_target = TargetSelected ''c'', in_guard = demo_guard, in_whitelist_enabled = True,
      in_tun = demo_tun, in_builtin_transforms = []\<rparr>"

lemma demo_execution:
  "validate (in_profiles demo_inputs) = Inr ()" "target_ok (in_profiles demo_inputs) (in_target demo_inputs)"
  "runner_wf (po_runner demo_ports)" "patch_law (po_json demo_ports)"
  "length (pipeline_keys demo_inputs) \<le> Suc MAX_MATERIALIZE_DEPTH"
proof -
  show "validate (in_profiles demo_inputs) = Inr ()" by code_simp
  show "target_ok (in_profiles demo_inputs) (in_target demo_inputs)"
    by (simp add: target_ok_def demo_inputs_def refers_to_def demo_profile_defs)
  show "runner_wf (po_runner demo_ports)" by (simp add: runner_wf_def demo_ports_def)
  show "patch_law (po_json demo_ports)" by (simp add: demo_ports_def)
  have "length (pipeline_keys demo_inputs) = 11" by code_simp
  then show "length (pipeline_keys demo_inputs) \<le> Suc MAX_MATERIALIZE_DEPTH" by (simp add: MAX_MATERIALIZE_DEPTH_def)
qed

theorem execute_refines_pipeline_witness:
  "map_sum (\<lambda>e. e) ra_final_config (execute demo_ports demo_inputs) = pipeline_config demo_ports demo_inputs"
  by (rule execute_refines_pipeline [OF demo_execution])

lemma demo_no_failure: "\<not> content_failure demo_ports (in_profiles demo_inputs) (in_target demo_inputs) e"
  by (simp add: content_failure_def file_content_def parse_config_document_def demo_ports_def Let_def)

theorem execute_outcome_witness:
  "\<exists>a. execute demo_ports demo_inputs = Inr a \<and> graph_shows demo_inputs a \<and> distinct (pipeline_keys demo_inputs)"
  using execute_outcome [OF demo_execution] demo_no_failure by blast

text \<open>Built-in scripts that leave a key alone.\<close>

definition builtins_keep :: "Ports \<Rightarrow> BuiltinTransform list \<Rightarrow> string \<Rightarrow> bool" where
  "builtins_keep ports bts k =
     (\<forall>bt \<in> set bts. \<forall>c v. fst (run_script (po_runner ports) (bt_runtime bt) (bt_source bt) c) = Inr v \<longrightarrow>
        obj_get v k = obj_get c k)"

lemma builtins_keep_fold:
  "builtins_keep ports bts k \<Longrightarrow> obj_get (fold (builtin_config ports) bts c) k = obj_get c k"
proof (induction bts arbitrary: c)
  case (Cons bt bts)
  have "obj_get (builtin_config ports bt c) k = obj_get c k"
    using Cons.prems
    by (cases "fst (run_script (po_runner ports) (bt_runtime bt) (bt_source bt) c)")
      (simp_all add: builtins_keep_def builtin_config_def)
  with Cons show ?case by (simp add: builtins_keep_def)
qed simp

lemma builtins_wf:
  "runner_wf (po_runner ports) \<Longrightarrow> value_wf c \<Longrightarrow> value_wf (fold (builtin_config ports) bts c)"
proof (induction bts arbitrary: c)
  case (Cons bt bts)
  have "value_wf (builtin_config ports bt c)"
  proof (cases "fst (run_script (po_runner ports) (bt_runtime bt) (bt_source bt) c)")
    case (Inr v)
    then have "value_wf v" by (rule runner_wf_run [OF Cons.prems])
    with Inr show ?thesis by (simp add: builtin_config_def)
  qed (simp add: builtin_config_def Cons.prems)
  with Cons show ?case by simp
qed simp

lemma apply_transforms_wf:
  "runner_wf (po_runner ports) \<Longrightarrow> value_wf c \<Longrightarrow> value_wf (apply_transforms ports p tids c)"
  by (induction tids rule: rev_induct) (simp_all add: apply_transforms_snoc apply_transform_wf, simp add: apply_transforms_def)

text \<open>C6: the application's settings win end to end. Whatever the subscription files, overlays and scripts of a
valid document do, with the whitelist on every guarded field of the final configuration (mode,
ports, secret, controller address and so on) is exactly what the guard says, or absent when the guard
says nothing, as long as the application's own built-in scripts leave that field alone.\<close>
theorem execute_guarded:
  assumes "validate (in_profiles inputs) = Inr ()" and "target_ok (in_profiles inputs) (in_target inputs)"
    and "runner_wf (po_runner ports)" and "patch_law (po_json ports)"
    and "length (pipeline_keys inputs) \<le> Suc MAX_MATERIALIZE_DEPTH"
    and "in_whitelist_enabled inputs" and "k \<in> set HANDLE_FIELDS"
    and "builtins_keep ports (in_builtin_transforms inputs) k" and "execute ports inputs = Inr a"
  shows "obj_get (ra_final_config a) k = guard_value (in_guard inputs) k"
  using assms(1-5)
proof (cases rule: execute_cases)
  case (1 e)
  with assms(9) show ?thesis by simp
next
  case (2 a' c)
  let ?c = "apply_transforms ports (in_profiles inputs) (pr_global_transforms (in_profiles inputs)) c"
  let ?g = "apply_guard (whitelist_filter ?c (stage1_fields (pr_valid (in_profiles inputs))) True) (in_guard inputs)"
  let ?b = "fold (builtin_config ports) (in_builtin_transforms inputs) ?g"
  have wf: "value_wf ?b"
    using assms(3) 2(2) by (intro builtins_wf value_wf_apply_guard value_wf_whitelist apply_transforms_wf)
  have "ra_final_config a = finalize ?b (in_tun inputs) True"
    using 2 assms(6,9) by (simp add: pipeline_config_def tail_config_def)
  then have "obj_get (ra_final_config a) k = obj_get ?g k"
    using handle_known [OF assms(7)] builtins_keep_fold [OF assms(8)] by (simp add: obj_get_finalize [OF wf])
  also have "\<dots> = guard_value (in_guard inputs) k"
    using stage1_no_handle [OF assms(7)] by (simp add: obj_get_apply_guard obj_get_whitelist split: option.splits)
  finally show ?thesis .
qed

theorem execute_guarded_witness:
  "\<exists>a. execute demo_ports demo_inputs = Inr a \<and> obj_get (ra_final_config a) ''secret'' = Some (String ''s3cret'')"
proof -
  have "\<exists>a. execute demo_ports demo_inputs = Inr a"
    using demo_execution(1) demo_execution(2-5)
  proof (cases rule: execute_cases)
    case (1 e)
    then show ?thesis
      using target_config_Inl [OF validate_valid_document [OF demo_execution(1)] demo_execution(2)] demo_no_failure
      by blast
  qed blast
  then obtain a where a: "execute demo_ports demo_inputs = Inr a" by blast
  have "obj_get (ra_final_config a) ''secret'' = guard_value (in_guard demo_inputs) ''secret''"
    by (rule execute_guarded [OF demo_execution _ _ _ a])
      (simp_all add: demo_inputs_def HANDLE_FIELDS_def builtins_keep_def)
  then show ?thesis using a
    by (simp add: demo_inputs_def guard_value_def demo_guard_def overrides_entries_def opt_field_def)
qed

text \<open>The proxies a configuration lists.\<close>

definition proxies_of :: "ConfigValue \<Rightarrow> ConfigValue list" where
  "proxies_of c = (case obj_get c ''proxies'' of Some (Array xs) \<Rightarrow> xs | _ \<Rightarrow> [])"

lemma append_proxies_spec:
  assumes "obj_get w ''proxies'' = Some (Array ps)"
  shows "obj_get (fst (append_proxies w m u)) k =
    (if k = ''proxies'' then Some (Array (ps @ proxies_of m)) else obj_get w k)"
  using assms
  by (cases "obj_get m ''proxies''")
    (auto simp: append_proxies_def proxies_of_def Let_def split: ConfigValue.split option.splits)

definition contributed :: "Ports \<Rightarrow> Profiles \<Rightarrow> ProfileId \<Rightarrow> ConfigValue list" where
  "contributed ports p u = (case file_config ports p u of Inr m \<Rightarrow> proxies_of m | Inl e \<Rightarrow> [])"

lemma extend_configs_proxies:
  "result_fold (extend_config ports p) us c = Inr c' \<Longrightarrow> obj_get c ''proxies'' = Some (Array ps) \<Longrightarrow>
   obj_get c' k = (if k = ''proxies'' then Some (Array (ps @ concat (map (contributed ports p) us))) else obj_get c k)"
proof (induction us arbitrary: c ps)
  case (Cons u us)
  then obtain m where m: "file_config ports p u = Inr m"
    "result_fold (extend_config ports p) us (fst (append_proxies c m u)) = Inr c'"
    by (cases "file_config ports p u") (auto simp: extend_config_def [of ports p u])
  note spec = append_proxies_spec [OF Cons.prems(2), of m u]
  from Cons.IH [OF m(2), of "ps @ proxies_of m"] spec m(1) show ?case by (simp add: contributed_def [of ports p u])
qed simp

text \<open>C22: a composition without transforms of its own is its base with proxies appended: the list of
proxies is the base's (empty without a base), followed by those of the contributors in declared
order, each after its own transforms; nothing is lost, reordered or deduplicated, and every other field
is the base's. A base whose \<^verbatim>\<open>proxies\<close> is a sequence is assumed.\<close>
theorem composition_concatenates:
  assumes "valid_document p" and "get_item p cid = Some it" and "it_definition it = Config (Composition c)"
    and "runner_wf (po_runner ports)" and "cc_transforms c = []"
    and "run_composition ports p logs cid c = Inr run" and "base_config ports p c = Inr b"
    and "obj_get b ''proxies'' = Some (Array ps)"
  shows "obj_get (run_value run) ''proxies'' =
      Some (Array (ps @ concat (map (contributed ports p) (cc_extend_proxies_from c)))) \<and>
    (\<forall>k. k \<noteq> ''proxies'' \<longrightarrow> obj_get (run_value run) k = obj_get b k)"
proof -
  have "yields ports (composition_keys p cid c) (Inr run) (composition_config ports p c)"
    using yields_composition [OF assms(4) valid_members [OF assms(1-3)], of cid logs] assms(6) by simp
  then have "composition_config ports p c = Inr (run_value run)" by (auto elim: yieldsE)
  then have "result_fold (extend_config ports p) (cc_extend_proxies_from c) b = Inr (run_value run)"
    using assms(5,7) by (simp add: composition_config_def apply_transforms_def split: sum.splits)
  from extend_configs_proxies [OF this assms(8)] show ?thesis by simp
qed

definition plain_composition :: CompositionConfig where
  "plain_composition = \<lparr>cc_base = Some ''a'', cc_extend_proxies_from = [''b''], cc_transforms = []\<rparr>"

definition plain_profiles :: Profiles where
  "plain_profiles = demo_profiles\<lparr>pr_items := im_insert ''c''
     (demo_item ''c'' (Config (Composition plain_composition))) (pr_items demo_profiles)\<rparr>"

theorem composition_concatenates_witness:
  "\<exists>run. run_composition demo_ports plain_profiles [] ''c'' plain_composition = Inr run \<and>
     obj_get (run_value run) ''proxies'' = Some (Array [String ''t'', String ''t'']) \<and>
     obj_get (run_value run) ''secret'' = Some (String ''leak'')"
proof -
  let ?item = "demo_item ''c'' (Config (Composition plain_composition))"
  have "validate plain_profiles = Inr ()" by code_simp
  then have doc: "valid_document plain_profiles" by (rule validate_valid_document)
  have it: "get_item plain_profiles ''c'' = Some ?item" "it_definition ?item = Config (Composition plain_composition)"
    by (simp_all add: plain_profiles_def get_item_def demo_profiles_def demo_item_def im_get_insert)
  have base: "base_config demo_ports plain_profiles plain_composition =
      Inr (Object [(''proxies'', Array [String ''t'']), (''secret'', String ''leak'')])"
    "contributed demo_ports plain_profiles ''b'' = [String ''t'']"
    "composition_config demo_ports plain_profiles plain_composition =
      Inr (Object [(''proxies'', Array [String ''t'', String ''t'']), (''secret'', String ''leak'')])"
    by code_simp+
  have "yields demo_ports (composition_keys plain_profiles ''c'' plain_composition)
      (run_composition demo_ports plain_profiles [] ''c'' plain_composition)
      (composition_config demo_ports plain_profiles plain_composition)"
    by (rule yields_composition [OF demo_execution(3) valid_members [OF doc it]])
  then obtain run where run: "run_composition demo_ports plain_profiles [] ''c'' plain_composition = Inr run"
    unfolding base(3) by (auto simp: yields_def)
  from composition_concatenates [OF doc it demo_execution(3) _ run base(1), of "[String ''t'']"] base(2) run show ?thesis
    by (simp add: plain_composition_def obj_get_def)
qed

end
