(* ===== verification/Invalidation.thy ===== *)
theory Invalidation
  imports Pipeline_Executor
begin

text \<open>
  What a change of one profile makes stale (\<^verbatim>\<open>runtime/invalidation.rs\<close>): the configs that depend on it,
  the nodes of the current graph that mention one of them, and whether the running configuration
  has to be rebuilt.

  The answer rests on the reverse index of \<open>Profile_Store\<close>. The main result connects it to the
  executor: where no rebuild is asked for, running the pipeline again would give the same artifact.
\<close>

section \<open>Definitions\<close>

datatype SnapshotRebuild = RebuildNone | FullCurrent

record SnapshotInvalidation =
  sv_affected_configs :: "ProfileId index_set"
  sv_stale_node_keys :: "SnapshotNodeKey index_set"
  sv_rebuild :: SnapshotRebuild

definition dependents_in :: "(ProfileId, ProfileId index_set) index_map \<Rightarrow> ProfileId \<Rightarrow> ProfileId list" where
  "dependents_in m u = (case im_get m u of Some s \<Rightarrow> s | None \<Rightarrow> [])"

text \<open>The profiles that take their base or proxies from \<open>u\<close>, in the order they join the queue.\<close>

definition config_dependents :: "ProfileDependencyIndex \<Rightarrow> ProfileId \<Rightarrow> ProfileId list" where
  "config_dependents ix u =
     dependents_in (composition_base_dependents ix) u @ dependents_in (extend_proxies_dependents ix) u"

definition all_dependents :: "ProfileDependencyIndex \<Rightarrow> ProfileId list" where
  "all_dependents ix =
     concat (im_values (composition_base_dependents ix)) @ concat (im_values (extend_proxies_dependents ix))"

lemma dependents_in_subset: "set (dependents_in m u) \<subseteq> set (concat (im_values m))"
proof (cases "im_get m u")
  case (Some s)
  then show ?thesis using map_of_SomeD [OF Some] by (force simp: dependents_in_def)
qed (simp add: dependents_in_def)

lemma config_dependents_subset: "set (config_dependents ix u) \<subseteq> set (all_dependents ix)"
  using dependents_in_subset [of "composition_base_dependents ix" u]
    dependents_in_subset [of "extend_proxies_dependents ix" u]
  by (auto simp: config_dependents_def all_dependents_def)

text \<open>The loop over the queue. Every round either shortens it or marks one more profile.\<close>

function affected_loop ::
    "ProfileDependencyIndex \<Rightarrow> ProfileId index_set \<Rightarrow> ProfileId list \<Rightarrow> ProfileId index_set" where
  "affected_loop ix affected [] = affected"
| "affected_loop ix affected (u # queue) =
     (if u \<in> set affected then affected_loop ix affected queue
      else affected_loop ix (affected @ [u]) (queue @ config_dependents ix u))"
  by pat_completeness auto
termination
proof (relation "measures [\<lambda>(ix, affected, queue). card ((set queue \<union> set (all_dependents ix)) - set affected),
    \<lambda>(ix, affected, queue). length queue]")
  fix ix u queue and affected :: "ProfileId index_set"
  have "(set queue \<union> set (all_dependents ix)) - set affected
      \<subseteq> (set (u # queue) \<union> set (all_dependents ix)) - set affected" by auto
  then have "card ((set queue \<union> set (all_dependents ix)) - set affected)
      \<le> card ((set (u # queue) \<union> set (all_dependents ix)) - set affected)"
    by (intro card_mono) auto
  then show "((ix, affected, queue), ix, affected, u # queue) \<in> measures
      [\<lambda>(ix, affected, queue). card ((set queue \<union> set (all_dependents ix)) - set affected),
       \<lambda>(ix, affected, queue). length queue]" by auto
  assume new: "u \<notin> set affected"
  have "(set (queue @ config_dependents ix u) \<union> set (all_dependents ix)) - set (affected @ [u])
      \<subset> (set (u # queue) \<union> set (all_dependents ix)) - set affected"
    using config_dependents_subset [of ix u] new by auto
  then have "card ((set (queue @ config_dependents ix u) \<union> set (all_dependents ix)) - set (affected @ [u]))
      < card ((set (u # queue) \<union> set (all_dependents ix)) - set affected)"
    by (intro psubset_card_mono) auto
  then show "((ix, affected @ [u], queue @ config_dependents ix u), ix, affected, u # queue) \<in> measures
      [\<lambda>(ix, affected, queue). card ((set queue \<union> set (all_dependents ix)) - set affected),
       \<lambda>(ix, affected, queue). length queue]" by simp
qed simp

definition transitive_config_dependents ::
    "ProfileId index_set \<Rightarrow> ProfileDependencyIndex \<Rightarrow> ProfileId index_set" where
  "transitive_config_dependents seeds ix = affected_loop ix [] seeds"

fun role_references_any_profile :: "ConfigExecutionRole \<Rightarrow> ProfileId index_set \<Rightarrow> bool" where
  "role_references_any_profile Selected profiles = False"
| "role_references_any_profile (CompositionBase cid) profiles = (cid \<in> set profiles)"
| "role_references_any_profile (CompositionContributor cid i) profiles = (cid \<in> set profiles)"

definition option_references :: "ProfileId option \<Rightarrow> ProfileId index_set \<Rightarrow> bool" where
  "option_references u profiles = (case u of Some v \<Rightarrow> v \<in> set profiles | None \<Rightarrow> False)"

fun tag_references_any_profile :: "OperatorTag \<Rightarrow> ProfileId index_set \<Rightarrow> bool" where
  "tag_references_any_profile (FileConfigRoot pid role) profiles =
     (pid \<in> set profiles \<or> role_references_any_profile role profiles)"
| "tag_references_any_profile (CompositionRoot pid base) profiles =
     (pid \<in> set profiles \<or> option_references base profiles)"
| "tag_references_any_profile (ExtendProxiesStep cid mid i) profiles =
     (cid \<in> set profiles \<or> mid \<in> set profiles)"
| "tag_references_any_profile (ScopedTransform host role tid kind i) profiles =
     (host \<in> set profiles \<or> tid \<in> set profiles \<or> role_references_any_profile role profiles)"
| "tag_references_any_profile (GlobalTransform sel tid kind i) profiles =
     (option_references sel profiles \<or> tid \<in> set profiles)"
| "tag_references_any_profile (BuiltinStep sel step) profiles = option_references sel profiles"
| "tag_references_any_profile BareRoot profiles = False"
| "tag_references_any_profile (BuiltinTransformTag sel name i) profiles = option_references sel profiles"

definition collect_stale_node_keys ::
    "StoredConfigSnapshotsGraph \<Rightarrow> ProfileId \<Rightarrow> ProfileId index_set \<Rightarrow> SnapshotNodeKey index_set" where
  "collect_stale_node_keys graph changed affected =
     is_collect (map (node_key \<circ> ss_tag)
       (filter (\<lambda>n. tag_references_any_profile (ss_tag n) (is_insert changed affected)) (sg_nodes graph)))"

definition invalidate_profile ::
    "ProfileId \<Rightarrow> ProfileCategory \<Rightarrow> ProfileId option \<Rightarrow> ProfileDependencyIndex \<Rightarrow>
     StoredConfigSnapshotsGraph option \<Rightarrow> SnapshotInvalidation" where
  "invalidate_profile changed changed_category current ix graph =
     (let seeds = is_extend (if changed_category = CategoryConfig then [changed] else [])
            (dependents_in (transform_dependents ix) changed);
          closed = transitive_config_dependents seeds ix;
          global_changed = changed \<in> set (global_transform_ids ix);
          affected = (case current of
              Some u \<Rightarrow> if global_changed then is_insert u closed else closed | None \<Rightarrow> closed);
          current_affected = (case current of Some u \<Rightarrow> u \<in> set affected | None \<Rightarrow> False)
      in \<lparr>sv_affected_configs = affected,
          sv_stale_node_keys = (case graph of
              Some g \<Rightarrow> collect_stale_node_keys g changed affected | None \<Rightarrow> []),
          sv_rebuild = (if current_affected \<or> global_changed then FullCurrent else RebuildNone)\<rparr>)"

section \<open>The loop computes the closure\<close>

text \<open>\<open>v\<close> is built from \<open>u\<close>: an edge of the dependency relation on configs.\<close>

definition feeds :: "ProfileDependencyIndex \<Rightarrow> (ProfileId \<times> ProfileId) set" where
  "feeds ix = {(u, v). v \<in> set (config_dependents ix u)}"

lemma affected_loop_least:
  assumes "set affected \<subseteq> S" and "set queue \<subseteq> S" and "\<And>u v. u \<in> S \<Longrightarrow> (u, v) \<in> feeds ix \<Longrightarrow> v \<in> S"
  shows "set (affected_loop ix affected queue) \<subseteq> S"
  using assms by (induction ix affected queue rule: affected_loop.induct) (auto simp: feeds_def)

lemma affected_loop_closed:
  assumes "\<And>u v. u \<in> set affected \<Longrightarrow> (u, v) \<in> feeds ix \<Longrightarrow> v \<in> set affected \<union> set queue"
  shows "set affected \<union> set queue \<subseteq> set (affected_loop ix affected queue) \<and>
    (\<forall>u v. u \<in> set (affected_loop ix affected queue) \<longrightarrow> (u, v) \<in> feeds ix \<longrightarrow>
       v \<in> set (affected_loop ix affected queue))"
  using assms
proof (induction ix affected queue rule: affected_loop.induct)
  case (2 ix affected u queue)
  show ?case
  proof (cases "u \<in> set affected")
    case True
    with "2.IH"(1) "2.prems" show ?thesis by auto
  next
    case False
    have "v \<in> set (affected @ [u]) \<union> set (queue @ config_dependents ix u)"
      if "w \<in> set (affected @ [u])" "(w, v) \<in> feeds ix" for w v
      using "2.prems" [of w v] that by (auto simp: feeds_def)
    from "2.IH"(2) [OF False this] False show ?thesis by auto
  qed
qed auto

lemma distinct_affected_loop: "distinct affected \<Longrightarrow> distinct (affected_loop ix affected queue)"
  by (induction ix affected queue rule: affected_loop.induct) auto

lemma transitive_config_dependents_exact:
  "set (transitive_config_dependents seeds ix) = (feeds ix)\<^sup>* `` set seeds"
proof
  show "set (transitive_config_dependents seeds ix) \<subseteq> (feeds ix)\<^sup>* `` set seeds"
    unfolding transitive_config_dependents_def
    by (rule affected_loop_least) (auto intro: rtrancl_into_rtrancl)
  have closed: "set seeds \<subseteq> set (transitive_config_dependents seeds ix)"
    "\<And>u v. u \<in> set (transitive_config_dependents seeds ix) \<Longrightarrow> (u, v) \<in> feeds ix \<Longrightarrow>
       v \<in> set (transitive_config_dependents seeds ix)"
    using affected_loop_closed [of "[]" ix seeds] by (auto simp: transitive_config_dependents_def)
  have "v \<in> set (transitive_config_dependents seeds ix)" if "(u, v) \<in> (feeds ix)\<^sup>*" "u \<in> set seeds" for u v
    using that by (induction rule: rtrancl_induct) (use closed in auto)
  then show "(feeds ix)\<^sup>* `` set seeds \<subseteq> set (transitive_config_dependents seeds ix)" by auto
qed

section \<open>What a run depends on\<close>

lemma set_dependents_in: "set (dependents_in m u) = deps_of m u"
  by (simp add: dependents_in_def deps_of_def split: option.splits)

lemma index_build_deps:
  "deps_of (composition_base_dependents (index_build p)) k =
     {u. \<exists>it. (u, it) \<in> set (pr_items p) \<and> k \<in> base_of (it_definition it)}"
  "deps_of (extend_proxies_dependents (index_build p)) k =
     {u. \<exists>it. (u, it) \<in> set (pr_items p) \<and> k \<in> contributors_of (it_definition it)}"
  "deps_of (transform_dependents (index_build p)) k =
     {u. \<exists>it. (u, it) \<in> set (pr_items p) \<and> k \<in> transforms_of (it_definition it)}"
  "set (global_transform_ids (index_build p)) = set (pr_global_transforms p)"
  unfolding index_build_def index_items_deps by (simp_all add: index_default_def deps_of_def)

text \<open>The profiles a run of the pipeline looks at.\<close>

definition used_by :: "Profiles \<Rightarrow> ProfileId \<Rightarrow> ProfileId set" where
  "used_by p u = insert u (refs_of p u \<union> (\<Union>v \<in> refs_of p u. refs_of p v))"

definition run_uses :: "Profiles \<Rightarrow> ProfileId option \<Rightarrow> ProfileId set" where
  "run_uses p current = set (pr_global_transforms p) \<union> (case current of Some u \<Rightarrow> used_by p u | None \<Rightarrow> {})"

lemma refs_of_cases:
  assumes "w \<in> refs_of p u"
  shows "(u, w) \<in> {(u, w). u \<in> deps_of (transform_dependents (index_build p)) w} \<or> (w, u) \<in> feeds (index_build p)"
proof -
  from assms obtain it where it: "get_item p u = Some it" by (auto simp: refs_of_def split: option.splits)
  then have "(u, it) \<in> set (pr_items p)" by (simp add: get_item_def im_get_Some_in)
  moreover have "w \<in> transforms_of (it_definition it) \<or> w \<in> base_of (it_definition it) \<or> w \<in> contributors_of (it_definition it)"
    using assms it by (auto simp: refs_of_def split: ProfileDefinition.splits ConfigDefinition.splits)
  ultimately show ?thesis
    by (auto simp: feeds_def config_dependents_def set_dependents_in index_build_deps)
qed

lemma feeds_file_config:
  assumes "valid_document p" and "(w, u) \<in> feeds (index_build p)"
  shows "refers_to is_direct_file_config p w"
proof -
  from assms(2) obtain it where it: "(u, it) \<in> set (pr_items p)"
    "w \<in> base_of (it_definition it) \<or> w \<in> contributors_of (it_definition it)"
    by (auto simp: feeds_def config_dependents_def set_dependents_in index_build_deps)
  with assms(1) have "valid_definition p u (it_definition it)" by (auto simp: valid_document_def)
  with it(2) show ?thesis
    by (cases "it_definition it" rule: base_of.cases)
      (auto simp: valid_definition_def valid_composition_def valid_member_def)
qed

lemma refers_to_config_category:
  "refers_to is_config p u \<Longrightarrow> get_item p u = Some it \<Longrightarrow> category (it_definition it) = CategoryConfig"
  by (cases "it_definition it") (auto simp: refers_to_def get_item_def)

lemma direct_file_is_config: "refers_to is_direct_file_config p u \<Longrightarrow> refers_to is_config p u"
  by (auto simp: refers_to_def elim: is_direct_file_config.elims split: option.splits)

lemma used_by_affected:
  assumes "valid_document p" and "pr_current p = Some u" and "get_item p changed = Some it" and "changed \<in> used_by p u"
  shows "u \<in> set (transitive_config_dependents
    (is_extend (if category (it_definition it) = CategoryConfig then [changed] else [])
       (dependents_in (transform_dependents (index_build p)) changed)) (index_build p))"
    (is "u \<in> set (transitive_config_dependents ?seeds ?ix)")
proof -
  have config_seed: "changed \<in> set ?seeds" if "refers_to is_config p changed"
    using refers_to_config_category [OF that assms(3)] by simp
  have edge: "(w, v) \<in> feeds ?ix \<or> v \<in> deps_of (transform_dependents ?ix) w" if "w \<in> refs_of p v" for v w
    using refs_of_cases [OF that] by auto
  have seed: "v \<in> (feeds ?ix)\<^sup>* `` set ?seeds" if "changed \<in> refs_of p v" for v
    using edge [OF that]
  proof
    assume e: "(changed, v) \<in> feeds ?ix"
    then have "changed \<in> set ?seeds" by (intro config_seed direct_file_is_config feeds_file_config [OF assms(1)])
    with e show ?thesis by blast
  qed (auto simp: set_dependents_in)
  have "u \<in> (feeds ?ix)\<^sup>* `` set ?seeds"
    using assms(4) unfolding used_by_def
  proof (elim insertE UnE UN_E)
    assume "changed = u"
    moreover from assms(1,2) have "refers_to is_config p u" by (simp add: valid_document_def)
    ultimately show ?thesis using config_seed by blast
  next
    fix v assume v: "v \<in> refs_of p u" "changed \<in> refs_of p v"
    with valid_refs [OF assms(1) v(1)] transform_no_refs [of p v] have direct: "refers_to is_direct_file_config p v" by auto
    have "u \<notin> deps_of (transform_dependents ?ix) v"
    proof
      assume "u \<in> deps_of (transform_dependents ?ix) v"
      then obtain iu where "(u, iu) \<in> set (pr_items p)" "v \<in> transforms_of (it_definition iu)"
        by (auto simp: index_build_deps)
      with assms(1) have "refers_to is_transform p v"
        by (cases "it_definition iu") (auto simp: valid_document_def valid_definition_def list_all_iff)
      with direct show False by (auto simp: refers_to_def elim: is_transform.elims split: option.splits)
    qed
    with edge [OF v(1)] seed [OF v(2)] show ?thesis by (blast intro: rtrancl_into_rtrancl)
  qed (rule seed)
  then show ?thesis by (simp add: transitive_config_dependents_exact)
qed

lemma no_rebuild_unused:
  assumes "valid_document p" and "get_item p changed = Some it"
    and "sv_rebuild (invalidate_profile changed (category (it_definition it)) (pr_current p) (index_build p) graph) = RebuildNone"
  shows "changed \<notin> run_uses p (pr_current p)"
proof -
  have "changed \<notin> set (pr_global_transforms p)"
    using assms(3) by (auto simp: invalidate_profile_def Let_def index_build_deps split: if_splits)
  moreover have "changed \<notin> used_by p u" if "pr_current p = Some u" for u
    using used_by_affected [OF assms(1) that assms(2)] assms(3) that
    by (auto simp: invalidate_profile_def Let_def split: if_splits)
  ultimately show ?thesis by (simp add: run_uses_def split: option.splits)
qed

section \<open>Runs that cannot see the difference\<close>

text \<open>What a run reads of a definition: not the url, the options or the traffic figures of a source.\<close>

abbreviation source_path :: "ProfileSource \<Rightarrow> ManagedProfilePath" where
  "source_path s \<equiv> mf_file (materialized s)"

fun same_view :: "ProfileDefinition \<Rightarrow> ProfileDefinition \<Rightarrow> bool" where
  "same_view (Config (File f)) (Config (File g)) =
     (source_path (fc_source f) = source_path (fc_source g) \<and> fc_transforms f = fc_transforms g)"
| "same_view (Config (Composition c)) (Config (Composition d)) = (c = d)"
| "same_view (Transform (Overlay s)) (Transform (Overlay t)) = (source_path (ot_source s) = source_path (ot_source t))"
| "same_view (Transform (Script s)) (Transform (Script t)) =
     (source_path (st_source s) = source_path (st_source t) \<and> st_runtime s = st_runtime t)"
| "same_view d e = False"

lemma same_view_refl [simp]: "same_view d d"
  by (cases "(d, d)" rule: same_view.cases) auto

text \<open>The two surroundings give the same view and the same file for the profile.\<close>

definition same_profile :: "Ports \<Rightarrow> Profiles \<Rightarrow> Ports \<Rightarrow> Profiles \<Rightarrow> ProfileId \<Rightarrow> bool" where
  "same_profile ports p ports' p' u =
     (rel_option (\<lambda>a b. same_view (it_definition a) (it_definition b)) (get_item p u) (get_item p' u) \<and>
      (\<forall>it s. get_item p u = Some it \<longrightarrow> definition_source (it_definition it) = Some s \<longrightarrow>
         po_read ports' (source_path s) = po_read ports (source_path s)))"

lemma same_profile_cases:
  assumes "same_profile ports p (ports\<lparr>po_read := r\<rparr>) p' u"
  obtains (missing) "get_item p u = None" "get_item p' u = None"
  | (file_config) a b f g where "get_item p u = Some a" "get_item p' u = Some b"
      "it_definition a = Config (File f)" "it_definition b = Config (File g)"
      "source_path (fc_source g) = source_path (fc_source f)" "fc_transforms g = fc_transforms f"
      "r (source_path (fc_source f)) = po_read ports (source_path (fc_source f))"
  | (composition) a b c where "get_item p u = Some a" "get_item p' u = Some b"
      "it_definition a = Config (Composition c)" "it_definition b = Config (Composition c)"
  | (overlay) a b s t where "get_item p u = Some a" "get_item p' u = Some b"
      "it_definition a = Transform (Overlay s)" "it_definition b = Transform (Overlay t)"
      "source_path (ot_source t) = source_path (ot_source s)"
      "r (source_path (ot_source s)) = po_read ports (source_path (ot_source s))"
  | (script) a b s t where "get_item p u = Some a" "get_item p' u = Some b"
      "it_definition a = Transform (Script s)" "it_definition b = Transform (Script t)"
      "source_path (st_source t) = source_path (st_source s)" "st_runtime t = st_runtime s"
      "r (source_path (st_source s)) = po_read ports (source_path (st_source s))"
proof (cases "get_item p u")
  case None
  with assms missing show thesis by (simp add: same_profile_def)
next
  case (Some a)
  with assms obtain b where b: "get_item p' u = Some b" "same_view (it_definition a) (it_definition b)"
    "\<And>s. definition_source (it_definition a) = Some s \<Longrightarrow> r (source_path s) = po_read ports (source_path s)"
    by (auto simp: same_profile_def option_rel_Some1)
  from b(2) b(3) show thesis
    by (cases "(it_definition a, it_definition b)" rule: same_view.cases)
      (auto intro: file_config [OF Some b(1)] composition [OF Some b(1)] overlay [OF Some b(1)] script [OF Some b(1)])
qed

lemma result_fold_cong:
  "xs = ys \<Longrightarrow> s = t \<Longrightarrow> (\<And>x s. x \<in> set ys \<Longrightarrow> f x s = g x s) \<Longrightarrow> result_fold f xs s = result_fold g ys t"
  by (induction ys arbitrary: xs s t) (auto split: sum.splits)

lemma enumerated_snd: "(i, x) \<in> set (enumerated xs) \<Longrightarrow> x \<in> set xs"
  by (auto simp: enumerated_def dest: set_zip_rightD)

lemma po_read_irrelevant [simp]:
  "parse_config_document (ports\<lparr>po_read := r\<rparr>) = parse_config_document ports"
  "advance (ports\<lparr>po_read := r\<rparr>) = advance ports"
  "push_step (ports\<lparr>po_read := r\<rparr>) = push_step ports"
  "builtin_step (ports\<lparr>po_read := r\<rparr>) = builtin_step ports"
  by (simp_all add: fun_eq_iff parse_config_document_def advance_def push_step_def builtin_step_def cong: sum.case_cong)


lemma same_transform:
  "same_profile ports p (ports\<lparr>po_read := r\<rparr>) p' u \<Longrightarrow>
     apply_transform (ports\<lparr>po_read := r\<rparr>) p' u c = apply_transform ports p u c"
  by (erule same_profile_cases) (simp_all add: apply_transform_def Let_def split: sum.split)

lemma same_transform_step:
  "same_profile ports p (ports\<lparr>po_read := r\<rparr>) p' u \<Longrightarrow>
     transform_step (ports\<lparr>po_read := r\<rparr>) p' tag (i, u) run = transform_step ports p tag (i, u) run"
  by (simp add: transform_step_def same_transform)

lemma same_transforms:
  assumes "\<And>u. u \<in> set us \<Longrightarrow> same_profile ports p (ports\<lparr>po_read := r\<rparr>) p' u"
  shows "result_fold (transform_step (ports\<lparr>po_read := r\<rparr>) p' tag) (enumerated us) run =
    result_fold (transform_step ports p tag) (enumerated us) run"
  using assms by (intro result_fold_cong) (auto dest!: enumerated_snd simp: same_transform_step)

lemma same_scoped_file:
  assumes "\<And>v. v \<in> insert u (refs_of p u) \<Longrightarrow> same_profile ports p (ports\<lparr>po_read := r\<rparr>) p' v"
  shows "build_scoped_file (ports\<lparr>po_read := r\<rparr>) p' logs u role = build_scoped_file ports p logs u role"
  using assms [OF insertI1]
proof (cases rule: same_profile_cases)
  case (file_config a b f g)
  then have "same_profile ports p (ports\<lparr>po_read := r\<rparr>) p' v" if "v \<in> set (fc_transforms f)" for v
    using assms that by (simp add: refs_of_def)
  note folds = same_transforms [OF this]
  from file_config show ?thesis by (simp add: build_scoped_file_def folds Let_def split: sum.split)
qed (simp_all add: build_scoped_file_def)

lemma same_composition:
  assumes "get_item p u = Some it" and "it_definition it = Config (Composition c)"
    and "\<And>v. v \<in> used_by p u \<Longrightarrow> same_profile ports p (ports\<lparr>po_read := r\<rparr>) p' v"
  shows "run_composition (ports\<lparr>po_read := r\<rparr>) p' logs u c = run_composition ports p logs u c"
proof -
  have refs: "refs_of p u = set_option (cc_base c) \<union> set (cc_extend_proxies_from c) \<union> set (cc_transforms c)"
    using assms(1,2) by (simp add: refs_of_def)
  have member: "build_scoped_file (ports\<lparr>po_read := r\<rparr>) p' l v role = build_scoped_file ports p l v role"
    if "v \<in> refs_of p u" for l v role
    using that assms(3) by (intro same_scoped_file) (auto simp: used_by_def)
  have root: "composition_root (ports\<lparr>po_read := r\<rparr>) p' logs u c = composition_root ports p logs u c"
    using member by (simp add: composition_root_def refs split: option.split)
  have step: "result_fold (extend_step (ports\<lparr>po_read := r\<rparr>) p' u) (enumerated (cc_extend_proxies_from c)) run =
      result_fold (extend_step ports p u) (enumerated (cc_extend_proxies_from c)) run" for run
    using member by (intro result_fold_cong) (auto dest!: enumerated_snd simp: extend_step_def refs cong: sum.case_cong prod.case_cong)
  have tail: "result_fold (transform_step (ports\<lparr>po_read := r\<rparr>) p' tag) (enumerated (cc_transforms c)) run =
      result_fold (transform_step ports p tag) (enumerated (cc_transforms c)) run" for tag run
    using assms(3) by (intro same_transforms) (auto simp: used_by_def refs)
  show ?thesis by (simp add: run_composition_def root step tail cong: sum.case_cong)
qed

definition target_of :: "ProfileId option \<Rightarrow> ExecutionTarget" where
  "target_of current = (case current of Some u \<Rightarrow> TargetSelected u | None \<Rightarrow> Bare)"

lemma same_root:
  assumes "\<And>v. v \<in> run_uses p current \<Longrightarrow> same_profile ports p (ports\<lparr>po_read := r\<rparr>) p' v"
  shows "execution_root (ports\<lparr>po_read := r\<rparr>) p' (target_of current) = execution_root ports p (target_of current)"
proof (cases current)
  case None
  then show ?thesis by (simp add: execution_root_def target_of_def)
next
  case (Some u)
  have used: "same_profile ports p (ports\<lparr>po_read := r\<rparr>) p' v" if "v \<in> used_by p u" for v
    using assms that Some by (simp add: run_uses_def)
  have direct: "build_scoped_file (ports\<lparr>po_read := r\<rparr>) p' l u role = build_scoped_file ports p l u role" for l role
    using used by (intro same_scoped_file) (auto simp: used_by_def)
  have "same_profile ports p (ports\<lparr>po_read := r\<rparr>) p' u" by (rule used) (simp add: used_by_def)
  then show ?thesis
    using same_composition [OF _ _ used]
    by (cases rule: same_profile_cases) (simp_all add: Some execution_root_def target_of_def direct)
qed

lemma same_execute:
  assumes "\<And>v. v \<in> run_uses p current \<Longrightarrow> same_profile ports p (ports\<lparr>po_read := r\<rparr>) p' v"
    and "pr_global_transforms p' = pr_global_transforms p" and "pr_valid p' = pr_valid p"
    and "in_profiles inputs = p" and "in_target inputs = target_of current"
  shows "execute (ports\<lparr>po_read := r\<rparr>) (inputs\<lparr>in_profiles := p'\<rparr>) = execute ports inputs"
proof -
  have globals: "result_fold (transform_step (ports\<lparr>po_read := r\<rparr>) p' tag) (enumerated (pr_global_transforms p)) run =
      result_fold (transform_step ports p tag) (enumerated (pr_global_transforms p)) run" for tag run
    using assms(1) by (intro same_transforms) (simp add: run_uses_def)
  have tail: "shared_tail (ports\<lparr>po_read := r\<rparr>) (inputs\<lparr>in_profiles := p'\<rparr>) = shared_tail ports inputs"
    using assms(3,4) by (simp add: fun_eq_iff shared_tail_def cong: sum.case_cong)
  show ?thesis
    using assms(2,4,5) by (simp add: execute_def same_root [OF assms(1)] globals tail cong: sum.case_cong prod.case_cong)
qed

lemma files_disjoint:
  assumes "distinct (item_files m)" and "(u, a) \<in> set m" and "(v, b) \<in> set m" and "u \<noteq> v"
    and "item_file a = Some f" and "item_file b = Some f"
  shows False
proof -
  have member: "f \<in> set (item_files m)" if "(w, c) \<in> set m" "item_file c = Some f" for w c m
    using that by (induction m) (auto simp: item_file_def split: option.split)
  show ?thesis
    using assms
  proof (induction m)
    case (Cons kv m)
    obtain w c where kv: "kv = (w, c)" by (cases kv)
    have rest: "distinct (item_files m)" "item_file c = Some f \<Longrightarrow> f \<notin> set (item_files m)"
      using Cons.prems(1) kv by (auto simp: item_file_def split: option.splits)
    show False
      using Cons.IH [OF rest(1)] Cons.prems(2-6) kv rest(2) member [of u a m] member [of v b m] by auto
  qed simp
qed

section \<open>No stale configuration is kept\<close>

text \<open>C28: invalidation is sound for the executor. Whatever happens to one profile of a valid document (its
  item is replaced, removed or its file rewritten), if the invalidation computed for it asks for no
  rebuild then running the pipeline on the new document and files gives exactly the artifact of the
  old one: configuration, graph, logs and errors alike.\<close>
theorem no_rebuild_same_artifact:
  assumes "validate p = Inr ()" and "get_item p changed = Some it"
    and "sv_rebuild (invalidate_profile changed (category (it_definition it)) (pr_current p) (index_build p) graph) =
      RebuildNone"
    and "\<And>u. u \<noteq> changed \<Longrightarrow> get_item p' u = get_item p u"
    and "\<And>path. item_file it \<noteq> Some path \<Longrightarrow> new_read path = po_read ports path"
    and "pr_global_transforms p' = pr_global_transforms p" and "pr_valid p' = pr_valid p"
    and "in_profiles inputs = p" and "in_target inputs = target_of (pr_current p)"
  shows "execute (ports\<lparr>po_read := new_read\<rparr>) (inputs\<lparr>in_profiles := p'\<rparr>) = execute ports inputs"
proof (rule same_execute [OF _ assms(6-9)])
  note doc = validate_valid_document [OF assms(1)]
  fix v assume "v \<in> run_uses p (pr_current p)"
  with no_rebuild_unused [OF doc assms(2,3)] have v: "v \<noteq> changed" by auto
  have "new_read (mf_file (materialized s)) = po_read ports (mf_file (materialized s))"
    if "get_item p v = Some iv" "definition_source (it_definition iv) = Some s" for iv s
  proof (rule assms(5), rule notI)
    assume "item_file it = Some (mf_file (materialized s))"
    then show False
      using files_disjoint [of "pr_items p" v iv changed it] doc that assms(2) v
      by (auto simp: valid_document_def get_item_def item_file_def dest: im_get_Some_in)
  qed
  with assms(4) v show "same_profile ports p (ports\<lparr>po_read := new_read\<rparr>) p' v"
    by (simp add: same_profile_def option.rel_refl)
qed


theorem no_rebuild_same_artifact_witness:
  "execute (demo_ports\<lparr>po_read := (\<lambda>path. if path = ManagedProfilePath ''b'' then Inl ''gone'' else Inr ''x'')\<rparr>)
     (demo_inputs\<lparr>in_target := TargetSelected ''a'',
        in_profiles := fst (remove_item_unchecked (demo_profiles\<lparr>pr_current := Some ''a''\<rparr>) ''b'')\<rparr>) =
   execute (demo_ports\<lparr>po_read := (\<lambda>path. Inr ''x'')\<rparr>)
     (demo_inputs\<lparr>in_target := TargetSelected ''a'', in_profiles := demo_profiles\<lparr>pr_current := Some ''a''\<rparr>\<rparr>)"
proof -
  let ?p = "demo_profiles\<lparr>pr_current := Some ''a''\<rparr>"
  have valid: "validate ?p = Inr ()" by code_simp
  have it: "get_item ?p ''b'' = Some (demo_remote ''b'')" by (simp add: get_item_def demo_profiles_def)
  have inv: "sv_rebuild (invalidate_profile ''b'' (category (it_definition (demo_remote ''b''))) (pr_current ?p)
      (index_build ?p) None) = RebuildNone" by code_simp
  have path: "item_file (demo_remote ''b'') = Some (ManagedProfilePath ''b'')" by code_simp
  let ?ports = "demo_ports\<lparr>po_read := (\<lambda>path. Inr ''x'')\<rparr>"
  let ?gone = "\<lambda>path. if path = ManagedProfilePath ''b'' then Inl ''gone'' else Inr ''x''"
  have "execute (?ports\<lparr>po_read := ?gone\<rparr>)
      (demo_inputs\<lparr>in_target := TargetSelected ''a'', in_profiles := ?p\<rparr>
        \<lparr>in_profiles := fst (remove_item_unchecked ?p ''b'')\<rparr>) =
    execute ?ports (demo_inputs\<lparr>in_target := TargetSelected ''a'', in_profiles := ?p\<rparr>)"
    by (rule no_rebuild_same_artifact [OF valid it inv])
      (auto simp: path get_item_def remove_item_unchecked_def im_get_remove target_of_def)
  then show ?thesis by simp
qed

end
