(* ===== verification/Actor_Rebuild.thy ===== *)
theory Actor_Rebuild
  imports Actor_Messages Invalidation
begin

text \<open>
  The actor and the pipeline: a message after which nobody is told to rebuild leaves the artifact of the
  pipeline as it was.

  \<open>current_closure\<close> is what the actor takes for the profiles of the running configuration. On a valid
  document it contains every profile a run of the pipeline reads (\<open>run_uses_closure\<close>); an edit whose
  rule says that it does not affect the current configuration keeps the view of each of them.
\<close>

section \<open>The closure of the current profile\<close>

lemma run_uses_closure:
  assumes "valid_document p"
  shows "run_uses p (pr_current p) \<subseteq> set (current_closure p)"
proof (cases "pr_current p")
  case None
  then show ?thesis by (simp add: run_uses_def current_closure_def)
next
  case (Some u)
  have direct: "w \<in> set (current_closure p)" if "w \<in> refs_of p u" for w
    using that by (auto simp: refs_of_def current_closure_def Some get_item_def
        split: option.splits ProfileDefinition.splits ConfigDefinition.splits)
  have top: "set (pr_global_transforms p) \<subseteq> set (current_closure p)" "u \<in> set (current_closure p)"
    by (auto simp: current_closure_def Some Let_def)
  have deep: "w \<in> set (current_closure p)" if v: "v \<in> refs_of p u" and w: "w \<in> refs_of p v" for v w
  proof -
    from valid_refs [OF assms v] transform_no_refs [of p v] w have "refers_to is_direct_file_config p v" by auto
    then obtain iv f where iv: "get_item p v = Some iv" "it_definition iv = Config (File f)"
      by (auto simp: refers_to_def get_item_def elim: is_direct_file_config.elims split: option.splits)
    then have wf: "w \<in> set (fc_transforms f)" and nt: "\<not> refers_to is_transform p v"
      using w by (auto simp: refs_of_def refers_to_def get_item_def)
    from v obtain it where it: "get_item p u = Some it" by (auto simp: refs_of_def split: option.splits)
    then have "(u, it) \<in> set (pr_items p)" by (simp add: get_item_def im_get_Some_in)
    with assms have "valid_definition p u (it_definition it)" by (auto simp: valid_document_def)
    with v nt it obtain c where "it_definition it = Config (Composition c)" "v \<in> set_option (cc_base c) \<union> set (cc_extend_proxies_from c)"
      by (auto simp: refs_of_def valid_definition_def valid_composition_def list_all_iff
          split: ProfileDefinition.splits ConfigDefinition.splits)
    with it iv wf show ?thesis
      by (auto simp: current_closure_def Some get_item_def split: option.splits)
        (metis config_transforms.simps(1))
  qed
  show ?thesis
    using direct deep top by (auto simp: run_uses_def used_by_def Some)
qed

lemma run_uses_exist:
  assumes "valid_document p" and "v \<in> run_uses p (pr_current p)"
  shows "get_item p v \<noteq> None"
proof -
  have ex: "get_item p w \<noteq> None" if "refers_to P p w" for P w
    using that by (auto simp: refers_to_def get_item_def split: option.splits)
  from assms(2) show ?thesis
    unfolding run_uses_def used_by_def
  proof (elim UnE, goal_cases)
    case 1
    with assms(1) show ?case by (auto simp: valid_document_def list_all_iff dest: ex)
  next
    case 2
    then obtain u where u: "pr_current p = Some u" "v = u \<or> (\<exists>w. v \<in> refs_of p w)" by (auto split: option.splits)
    with assms(1) valid_refs [OF assms(1)] show ?case by (auto simp: valid_document_def dest: ex)
  qed
qed

lemma unreferenced_unused:
  assumes "valid_document p" and "referrers_of (index_build p) p u = None"
  shows "u \<notin> run_uses p (pr_current p)"
proof -
  let ?ix = "index_build p"
  have none: "pr_current p \<noteq> Some u" "u \<notin> set (pr_global_transforms p)"
    "dependents_in (composition_base_dependents ?ix) u = []" "dependents_in (extend_proxies_dependents ?ix) u = []"
    "dependents_in (transform_dependents ?ix) u = []"
    using assms(2) by (auto simp: referrers_of_def dependents_in_def Let_def index_build_deps
        simp flip: set_empty split: if_splits)
  have "u \<notin> refs_of p v" for v
    using refs_of_cases [of u p v] none(3-5) by (auto simp: feeds_def config_dependents_def simp flip: set_dependents_in)
  with none(1,2) show ?thesis by (auto simp: run_uses_def used_by_def split: option.splits)
qed

section \<open>Edits that do not concern the run\<close>

text \<open>The profile a message is about: its file may be rewritten or removed with it.\<close>

fun subject_of :: "ProfilesActorMessage \<Rightarrow> ProfileId option" where
  "subject_of (Delete u r) = Some u"
| "subject_of (CommitRefreshed u url fingerprint outcome) = Some u"
| "subject_of (ExternalFileChanged u) = Some u"
| "subject_of (ReplaceDefinition u d r) = Some u"
| "subject_of msg = None"

text \<open>What two documents have to share for a run to see no difference.\<close>

definition same_run :: "Profiles \<Rightarrow> Profiles \<Rightarrow> bool" where
  "same_run p q =
     (pr_current q = pr_current p \<and> pr_global_transforms q = pr_global_transforms p \<and> pr_valid q = pr_valid p \<and>
      (\<forall>v \<in> run_uses p (pr_current p).
         rel_option (\<lambda>a b. same_view (it_definition a) (it_definition b)) (get_item p v) (get_item q v)))"

lemma same_view_item: "rel_option (\<lambda>a b. same_view (it_definition a) (it_definition b)) x x"
  by (simp add: option.rel_refl)

lemma same_run_items:
  assumes "pr_current q = pr_current p" and "pr_global_transforms q = pr_global_transforms p" and "pr_valid q = pr_valid p"
    and "\<And>v. v \<in> run_uses p (pr_current p) \<Longrightarrow> get_item q v = get_item p v"
  shows "same_run p q"
  using assms by (simp add: same_run_def same_view_item)

lemma update_item_simps [simp]:
  "pr_current (update_item u f p) = pr_current p" "pr_global_transforms (update_item u f p) = pr_global_transforms p"
  "pr_valid (update_item u f p) = pr_valid p"
  "get_item (update_item u f p) v = (if v = u then map_option f (get_item p u) else get_item p v)"
  by (auto simp: update_item_def get_item_def im_get_insert split: option.split)

lemma append_item_simps:
  assumes "get_item p (it_uid it) = None"
  shows "pr_current (fst (append_item p it)) = pr_current p" "pr_valid (fst (append_item p it)) = pr_valid p"
    "pr_global_transforms (fst (append_item p it)) = pr_global_transforms p"
    "get_item (fst (append_item p it)) v = (if v = it_uid it then Some it else get_item p v)"
  using assms by (simp_all add: append_item_def get_item_def im_get_insert)

lemma remove_item_simps:
  "pr_current (fst (remove_item_unchecked p u)) = pr_current p"
  "pr_global_transforms (fst (remove_item_unchecked p u)) = pr_global_transforms p"
  "pr_valid (fst (remove_item_unchecked p u)) = pr_valid p"
  "get_item (fst (remove_item_unchecked p u)) v = (if v = u then None else get_item p v)"
  by (simp_all add: remove_item_unchecked_def get_item_def im_get_remove)

lemma same_run_append:
  assumes "valid_document p" and "get_item p (it_uid it) = None"
  shows "same_run p (fst (append_item p it))"
proof -
  have "it_uid it \<notin> run_uses p (pr_current p)" using run_uses_exist [OF assms(1)] assms(2) by metis
  then show ?thesis by (intro same_run_items) (auto simp: append_item_simps [OF assms(2)])
qed

lemma same_run_update:
  "u \<notin> run_uses p (pr_current p) \<Longrightarrow> same_run p (update_item u f p)"
  by (rule same_run_items) auto

lemma same_run_view:
  "(\<And>it. get_item p u = Some it \<Longrightarrow> same_view (it_definition it) (it_definition (f it))) \<Longrightarrow> same_run p (update_item u f p)"
  by (cases "get_item p u") (auto simp: same_run_def same_view_item)

text \<open>Reordering keeps the items.\<close>

lemma take_in_order_get:
  "take_in_order us items acc = Inr m \<Longrightarrow> distinct us \<Longrightarrow>
     im_get m v = (if v \<in> set us then im_get items v else im_get acc v)"
proof (induction us items acc rule: take_in_order.induct)
  case (2 u us items acc)
  then show ?case by (auto simp: im_get_insert im_get_remove split: option.splits)
qed simp

lemma check_order_distinct: "check_order p seen us = Inr x \<Longrightarrow> distinct us \<and> set us \<inter> set seen = {} \<and> (\<forall>u \<in> set us. get_item p u \<noteq> None)"
proof (induction us arbitrary: seen)
  case (Cons u us)
  then have "check_order p (is_insert u seen) us = Inr x" "u \<notin> set seen" "get_item p u \<noteq> None"
    by (auto split: if_splits)
  with Cons.IH [of "is_insert u seen"] show ?case by auto
qed simp

lemma reorder_items_get:
  assumes "reorder_items reorder_op p = Inr q" and "im_wf (pr_items p)"
  shows "get_item q = get_item p"
proof (cases reorder_op)
  case (Move active over)
  then have q: "q = fst (reorder p active over)" using assms(1) by (auto split: if_splits)
  from reorder_moves [OF assms(2), of active over] assms(2) show ?thesis
    unfolding q get_item_def im_wf_def by (intro ext) (metis map_of_eqI map_of_inject_set)
next
  case (ByList us)
  with assms(1) obtain x items where len: "length us = length (pr_items p)" and order: "check_order p [] us = Inr x"
    and t: "take_in_order us (pr_items p) [] = Inr items" and q: "q = p\<lparr>pr_items := items\<rparr>"
    by (auto split: if_splits sum.splits)
  note d = check_order_distinct [OF order]
  then have "set us \<subseteq> set (im_keys (pr_items p))" using im_get_in_keys [of "pr_items p"] by (auto simp: get_item_def)
  moreover have "card (set us) = card (set (im_keys (pr_items p)))"
    using d assms(2) len distinct_card [of us] distinct_card [of "im_keys (pr_items p)"] by (simp add: im_wf_def)
  ultimately have "set us = set (im_keys (pr_items p))" by (simp add: card_subset_eq)
  with take_in_order_get [OF t] d show ?thesis
    by (auto simp: q get_item_def fun_eq_iff) (metis map_of_eq_None_iff)
qed

lemma reorder_items_rest:
  "reorder_items reorder_op p = Inr q \<Longrightarrow>
     pr_current q = pr_current p \<and> pr_global_transforms q = pr_global_transforms p \<and> pr_valid q = pr_valid p"
  by (cases reorder_op) (auto simp: reorder_def split: if_splits sum.splits option.splits)

lemma patch_options_view: "same_view d (map_source (patch_options patch) d)"
proof -
  have "source_path (patch_options patch s) = source_path s" for s :: ProfileSource by (cases s) simp_all
  then show ?thesis
    by (cases "(d, d)" rule: same_view.cases) (auto simp: map_source_def)
qed

lemma same_run_content:
  assumes "same_run p nx" and "same_content q nx"
  shows "same_run p q"
proof -
  have "pr_current q = pr_current nx" "pr_global_transforms q = pr_global_transforms nx" "pr_valid q = pr_valid nx"
    "pr_items q = pr_items nx"
    using assms(2) by (auto simp: same_content_def dest: arg_cong [where f = pr_current] arg_cong [where f = pr_items]
        arg_cong [where f = pr_global_transforms] arg_cong [where f = pr_valid])
  with assms(1) show ?thesis by (simp add: same_run_def get_item_def)
qed

lemma evaluate_affects_content:
  assumes "prepare_candidate nx = Inr q"
  shows "pr_current q = pr_current nx" and "pr_global_transforms q = pr_global_transforms nx"
    and "current_closure q = current_closure nx"
  using assms by (auto simp: prepare_candidate_def bump_revision_def current_closure_def Let_def
      split: sum.splits if_splits cong: option.case_cong)

lemma edits_same_run:
  assumes "edits imps msg p affects nx" and "prepare_candidate nx = Inr q" and "\<not> evaluate_affects affects p q"
    and "valid_document p" and "im_wf (pr_items p)"
  shows "same_run p nx"
proof -
  have untouched: "u \<notin> run_uses p (pr_current p)" if "affects = Touched u" for u
    using that assms(3) run_uses_closure [OF assms(4)] by (auto simp: Let_def)
  show ?thesis
    using assms(1)
  proof cases
    case (EditOptions u patch r)
    then show ?thesis using patch_options_view by (simp add: same_run_view on_definition_def)
  next
    case (EditRefreshOptions u patch origin rr)
    then show ?thesis using patch_options_view by (simp add: same_run_view on_definition_def)
  next
    case (EditMetadata u patch r)
    then show ?thesis by (auto intro!: same_run_view simp: apply_metadata_patch_def Let_def)
  next
    case (EditReorder reorder_op r)
    then show ?thesis
      using reorder_items_get [OF _ assms(5)] reorder_items_rest by (auto intro: same_run_items)
  next
    case (EditDelete u r)
    then show ?thesis
      using unreferenced_unused [OF assms(4)] by (auto intro!: same_run_items simp: remove_item_simps)
  qed (use assms(3) evaluate_affects_content [OF assms(2)] untouched in
      \<open>auto intro: same_run_append [OF assms(4)] same_run_update same_run_items simp: set_current_def get_item_def\<close>)
qed

section \<open>No rebuild is missed\<close>

text \<open>Nobody was told to rebuild.\<close>

definition quiet :: "Output list \<Rightarrow> bool" where
  "quiet outs =
     list_all (\<lambda>x. case x of
        RequestRebuild \<Rightarrow> False
      | Send r a \<Rightarrow> (case success a of Some report \<Rightarrow> \<not> cr_affects_current report | None \<Rightarrow> True)
      | _ \<Rightarrow> True) outs"

lemma told_quiet:
  assumes "told refresh affects p q outs" and "quiet outs" and "refresh \<Longrightarrow> affects = Never"
  shows "\<not> evaluate_affects affects p q"
proof (cases refresh)
  case False
  show ?thesis
  proof
    assume a: "evaluate_affects affects p q"
    with assms(1) consider "RequestRebuild \<in> set outs" | r x where "Send r x \<in> set outs" by (auto simp: told_def)
    then show False
    proof cases
      case 1
      with assms(2) show False by (auto simp: quiet_def list_all_iff)
    next
      case 2
      with assms(1) False a obtain report where "success x = Some report" "cr_affects_current report" by (fastforce simp: told_def)
      with 2 assms(2) show False by (force simp: quiet_def list_all_iff)
    qed
  qed
qed (use assms(3) in simp)

lemma performs_same_run:
  assumes "performs ports msg m m'" and "actor_ok ports m" and "mc_out m' = mc_out m @ outs" and "quiet outs"
  shows "same_run (current_state m) (current_state m')"
proof -
  have doc: "valid_document (current_state m)" using assms(2) validate_valid_document by (simp add: actor_ok_def)
  have wf: "im_wf (pr_items (current_state m))" using assms(2) by (rule actor_ok_items)
  from assms(1,3) consider (same) "same_content (current_state m') (current_state m)"
    | (edit) affects nx where "edits (as_pending_imports (mc_actor m)) msg (current_state m) affects nx"
      "prepare_candidate nx = Inr (current_state m')" "told (refreshes msg) affects (current_state m) (current_state m') outs"
    by (auto simp: performs_def unchanged_def)
  then show ?thesis
  proof cases
    case same
    then show ?thesis by (rule same_run_content [OF same_run_items, rotated -1]) simp_all
  next
    case (edit affects nx)
    have "affects = Never" if "refreshes msg" using edit(1) that by (auto elim: edits.cases)
    from told_quiet [OF edit(3) assms(4) this] have "\<not> evaluate_affects affects (current_state m) (current_state m')" .
    from edits_same_run [OF edit(1,2) this doc wf] validate_bump(3) [OF edit(2)] show ?thesis
      by (rule same_run_content)
  qed
qed

lemma same_run_profile:
  assumes "same_run p q" and "v \<in> run_uses p (pr_current p)"
    and "\<And>it path. get_item p v = Some it \<Longrightarrow> item_file it = Some path \<Longrightarrow> new_read path = po_read ports path"
  shows "same_profile ports p (ports\<lparr>po_read := new_read\<rparr>) q v"
  using assms by (auto simp: same_run_def same_profile_def item_file_def)

end
