(* ===== verification/Actor_Replies.thy ===== *)
theory Actor_Replies
  imports Actor_Messages
begin

text \<open>
  Who gets an answer. A message hands the actor at most one reply port; the actor answers it, or keeps
  it in one of its tables until the download it stands for has come in. No port is lost and none is
  answered twice. The one exception is deliberate: an import whose requester is gone is dropped.
\<close>

section \<open>Accounts of reply ports\<close>

fun asked :: "ProfilesActorMessage \<Rightarrow> reply multiset" where
  "asked (Get r) = {#r#}"
| "asked (SetCurrent u r) = {#r#}"
| "asked (SetCurrentIfNone u r) = {#r#}"
| "asked (SetGlobalTransforms us r) = {#r#}"
| "asked (SetValidFields names r) = {#r#}"
| "asked (Replace q r) = {#r#}"
| "asked (Add request initial_file r) = {#r#}"
| "asked (Delete u r) = {#r#}"
| "asked (Reorder reorder_op r) = {#r#}"
| "asked (PatchMetadata u patch r) = {#r#}"
| "asked (PatchRemoteOptions u patch r) = {#r#}"
| "asked (RefreshRemote u patch origin r) = mset (case r of Some q \<Rightarrow> [q] | None \<Rightarrow> [])"
| "asked (ImportRemote url metadata opt explicit r) = {#r#}"
| "asked (ReplaceDefinition u d r) = {#r#}"
| "asked msg = {#}"

fun reply_port :: "Output \<Rightarrow> reply option" where
  "reply_port (Send r a) = Some r"
| "reply_port x = None"

definition answered :: "Output list \<Rightarrow> reply multiset" where
  "answered outs = mset (List.map_filter reply_port outs)"

definition refresh_ports :: "(ProfileId, reply option) index_map \<Rightarrow> reply multiset" where
  "refresh_ports table = mset (List.map_filter snd table)"

definition import_ports :: "(ImportOperationToken, PendingImport) index_map \<Rightarrow> reply multiset" where
  "import_ports table = mset (map (pi_reply \<circ> snd) table)"

definition unanswered :: "'w Machine \<Rightarrow> reply multiset" where
  "unanswered m = refresh_ports (as_pending_refresh (mc_actor m)) + import_ports (as_pending_imports (mc_actor m))"

fun dropped :: "'w ActorPorts \<Rightarrow> ProfilesActorMessage \<Rightarrow> 'w Machine \<Rightarrow> reply multiset" where
  "dropped ports (CommitImported token outcome) m =
     (case im_get (as_pending_imports (mc_actor m)) token of
        Some p \<Rightarrow> if ap_closed ports (mc_world m) (pi_reply p) then {#pi_reply p#} else {#}
      | None \<Rightarrow> {#})"
| "dropped ports msg m = {#}"

text \<open>The tables have no duplicate keys and tokens are handed out in order.\<close>

definition tables_ok :: "'w Machine \<Rightarrow> bool" where
  "tables_ok m =
     (im_wf (as_pending_refresh (mc_actor m)) \<and> im_wf (as_pending_imports (mc_actor m)) \<and>
      (\<forall>t \<in> set (im_keys (as_pending_imports (mc_actor m))). t < as_next_import_token (mc_actor m)))"

definition follows :: "'w Machine \<Rightarrow> 'w Machine \<Rightarrow> bool" where
  "follows m m' = (tables_ok m \<longrightarrow> as_next_import_token (mc_actor m) \<noteq> - 1 \<longrightarrow> tables_ok m')"

lemma follows_refl [simp]: "follows m m"
  by (simp add: follows_def)

lemma tables_ok_fresh: "tables_ok m \<Longrightarrow> im_get (as_pending_imports (mc_actor m)) (as_next_import_token (mc_actor m)) = None"
  by (force simp: tables_ok_def map_of_eq_None_iff)

lemma follows_simps [simp]:
  "tables_ok (emit_output x m) = tables_ok m"
  "tables_ok (m\<lparr>mc_draws := n\<rparr>) = tables_ok m"
  "tables_ok (m\<lparr>mc_world := w\<rparr>) = tables_ok m"
  "follows m (emit_output x m1) = follows m m1"
  by (simp_all add: tables_ok_def follows_def emit_output_def)

lemma tables_ok_edit:
  assumes "tables_ok m"
  shows "tables_ok (m\<lparr>mc_actor := (mc_actor m)\<lparr>as_pending_refresh := im_insert u r (as_pending_refresh (mc_actor m))\<rparr>\<rparr>)"
    and "tables_ok (m\<lparr>mc_actor := (mc_actor m)\<lparr>as_pending_refresh := im_shift_remove u (as_pending_refresh (mc_actor m))\<rparr>\<rparr>)"
    and "tables_ok (m\<lparr>mc_actor := (mc_actor m)\<lparr>as_pending_imports := im_shift_remove t (as_pending_imports (mc_actor m))\<rparr>\<rparr>)"
  using assms by (auto simp: tables_ok_def delete_keys)

lemma answered_simps [simp]:
  "answered [] = {#}" "answered (x # outs) = mset (case reply_port x of Some r \<Rightarrow> [r] | None \<Rightarrow> []) + answered outs"
  "answered (outs @ outs') = answered outs + answered outs'"
  by (simp_all add: answered_def map_filter_simps List.map_filter_def split: option.split)

lemma im_insert_fresh: "im_get m k = None \<Longrightarrow> mset (im_insert k v m) = add_mset (k, v) (mset m)"
  by (induction m) (auto split: if_splits)

lemma im_remove_present: "im_get m k = Some v \<Longrightarrow> im_wf m \<Longrightarrow> mset m = add_mset (k, v) (mset (im_shift_remove k m))"
proof (induction m)
  case (Cons kv m)
  show ?case
  proof (cases "fst kv = k")
    case True
    with Cons.prems have "k \<notin> set (im_keys m)" by (cases kv) (auto simp: im_wf_def)
    then have "im_shift_remove k m = m" by (simp add: delete_id)
    with True Cons.prems show ?thesis by (cases kv) simp
  next
    case False
    with Cons show ?thesis by (cases kv) (auto simp: im_wf_def)
  qed
qed simp

lemma refresh_ports_mset: "refresh_ports table = (\<Sum>(u, r) \<in># mset table. mset (case r of Some q \<Rightarrow> [q] | None \<Rightarrow> []))"
  by (induction table) (auto simp: refresh_ports_def map_filter_simps split: option.split)

lemma import_ports_mset: "import_ports table = image_mset (pi_reply \<circ> snd) (mset table)"
  by (simp add: import_ports_def)

lemma refresh_ports_insert:
  "im_get table u = None \<Longrightarrow>
     refresh_ports (im_insert u r table) = mset (case r of Some q \<Rightarrow> [q] | None \<Rightarrow> []) + refresh_ports table"
  by (simp add: refresh_ports_mset im_insert_fresh)

lemma import_ports_insert:
  "im_get table t = None \<Longrightarrow> import_ports (im_insert t p table) = add_mset (pi_reply p) (import_ports table)"
  by (simp add: import_ports_mset im_insert_fresh)

lemma import_ports_remove:
  "im_get table t = Some p \<Longrightarrow> im_wf table \<Longrightarrow>
     import_ports table = add_mset (pi_reply p) (import_ports (im_shift_remove t table))"
  using im_remove_present [of table t p] by (simp add: import_ports_mset)

lemma refresh_ports_remove:
  assumes "im_wf table"
  shows "refresh_ports table =
    mset (case im_get table u of Some (Some q) \<Rightarrow> [q] | _ \<Rightarrow> []) + refresh_ports (im_shift_remove u table)"
proof (cases "im_get table u")
  case None
  then have "im_shift_remove u table = table" by (simp add: delete_id map_of_eq_None_iff)
  with None show ?thesis by simp
next
  case (Some r)
  with im_remove_present [OF Some assms] show ?thesis by (cases r) (simp_all add: refresh_ports_mset)
qed

section \<open>Every handler balances the account\<close>

definition balances :: "'w ActorPorts \<Rightarrow> ProfilesActorMessage \<Rightarrow> 'w Machine \<Rightarrow> 'w Machine \<times> unit outcome \<Rightarrow> bool" where
  "balances ports msg m res =
     (\<forall>m'. res = (m', Finished ()) \<longrightarrow>
        follows m m' \<and>
        (\<exists>outs. mc_out m' = mc_out m @ outs \<and>
           asked msg + unanswered m = answered outs + unanswered m' + dropped ports msg m))"

lemma ends_tables:
  "ends ports E m1 (m', out) \<Longrightarrow> mc_out m' = mc_out m1 \<and> unanswered m' = unanswered m1 \<and> (follows m m1 \<longrightarrow> follows m m')"
  by (simp add: ends_def concludes_def actor_step_def same_tables_def unanswered_def follows_def tables_ok_def)

lemma unanswered_emit [simp]: "unanswered (emit_output x m) = unanswered m"
  by (simp add: unanswered_def emit_output_def)

lemma balances_reply:
  assumes "ends ports E m1 res" and "mc_out m1 = mc_out m" and "follows m m1"
    and "asked msg + unanswered m = add_mset r (unanswered m1) + dropped ports msg m"
  shows "balances ports msg m (reply_with r wrap res)"
proof -
  obtain m' out where res: "res = (m', out)" by (cases res)
  have "mc_out m' = mc_out m" "unanswered m' = unanswered m1" "follows m m'"
    using ends_tables [OF assms(1)[unfolded res], of m] assms(2,3) by simp_all
  with assms(4) show ?thesis by (cases out) (auto simp: balances_def reply_with_def res)
qed

lemma balances_background:
  assumes "ends ports E m1 res" and "mc_out m1 = mc_out m" and "follows m m1"
    and "asked msg + unanswered m = unanswered m1 + dropped ports msg m"
  shows "balances ports msg m (background res)"
proof -
  obtain m' out where res: "res = (m', out)" by (cases res)
  have "mc_out m' = mc_out m" "unanswered m' = unanswered m1" "follows m m'"
    using ends_tables [OF assms(1)[unfolded res], of m] assms(2,3) by simp_all
  with assms(4) show ?thesis
    by (cases out) (auto simp: balances_def background_def request_rebuild_if_def res split: sum.split)
qed

lemma balances_output:
  assumes "asked msg + unanswered m = mset (case reply_port x of Some r \<Rightarrow> [r] | None \<Rightarrow> []) + unanswered m1 + dropped ports msg m"
    and "mc_out m1 = mc_out m" and "follows m m1"
  shows "balances ports msg m (emit_output x m1, Finished ())"
  using assms by (auto simp: balances_def)

lemma balances_silent:
  "asked msg + unanswered m = unanswered m1 + dropped ports msg m \<Longrightarrow> mc_out m1 = mc_out m \<Longrightarrow> follows m m1 \<Longrightarrow>
     balances ports msg m (m1, Finished ())"
  by (auto simp: balances_def)

lemma balances_unfinished [simp]: "balances ports msg m (m1, Waiting)" "balances ports msg m (m1, Panicked)"
  by (simp_all add: balances_def)

text \<open>The answer of a refresh is kept or given at once.\<close>

lemma send_error_balances:
  assumes "unanswered m1 = unanswered m" and "mc_out m1 = mc_out m" and "follows m m1"
  shows "balances ports (RefreshRemote u patch origin r) m (send_error r e m1, Finished ())"
  using assms by (cases r) (auto simp: send_error_def intro: balances_output balances_silent)

lemma start_refresh_balances:
  assumes "unanswered m1 = unanswered m" and "mc_out m1 = mc_out m" and "follows m m1"
    and "im_get (as_pending_refresh (mc_actor m1)) u = None"
  shows "balances ports (RefreshRemote u patch origin r) m (start_refresh ports u r m1, Finished ())"
proof -
  have kept: "balances ports (RefreshRemote u patch origin r) m
      (emit_output (SpawnRefresh u url opt d fingerprint)
        (m1\<lparr>mc_actor := (mc_actor m1)\<lparr>as_pending_refresh := im_insert u r (as_pending_refresh (mc_actor m1))\<rparr>\<rparr>), Finished ())"
    for url opt d fingerprint
    using assms by (intro balances_output) (auto simp: unanswered_def refresh_ports_insert follows_def tables_ok_edit)
  show ?thesis
    by (auto simp: start_refresh_def intro: send_error_balances [OF assms(1-3)] kept
        split: option.split ProfileSource.split sum.split)
qed

lemma refresh_balances:
  assumes "actor_ok ports m" and "mc_writes m + 3 < version_limit"
  shows "balances ports (RefreshRemote u patch origin r) m (handle_refresh ports u patch r m)"
proof (cases "im_get (as_pending_refresh (mc_actor m)) u = None")
  case False
  then have "im_contains_key u (as_pending_refresh (mc_actor m))" using im_get_in_keys [of "as_pending_refresh (mc_actor m)" u] by simp
  then show ?thesis by (simp add: handle_refresh_def send_error_balances)
next
  case True
  then have nc: "\<not> im_contains_key u (as_pending_refresh (mc_actor m))" using im_get_in_keys [of "as_pending_refresh (mc_actor m)" u] by simp
  show ?thesis
  proof (cases patch)
    case None
    with nc True show ?thesis by (simp add: handle_refresh_def start_refresh_balances)
  next
    case (Some pt)
    obtain m1 out where run: "run_state_write ports (patch_remote_options u pt) m = (m1, out)" by fastforce
    have "ends ports (\<lambda>affects nx. True) m (m1, out)"
      unfolding run [symmetric]
      by (intro run_state_write_ends [OF assms])
        (auto simp: patch_remote_options_def actor_ok_items [OF assms(1)]
          intro: items_wf split: option.splits ProfileSource.splits)
    then have tables: "mc_out m1 = mc_out m" "unanswered m1 = unanswered m"
      "as_pending_refresh (mc_actor m1) = as_pending_refresh (mc_actor m)"
      "follows m m1"
      by (simp_all add: ends_def concludes_def actor_step_def same_tables_def unanswered_def follows_def tables_ok_def)
    with Some run nc True show ?thesis
      by (auto simp: handle_refresh_def intro: send_error_balances start_refresh_balances split: outcome.split sum.split)
  qed
qed

lemma commit_refreshed_balances:
  assumes "actor_ok ports m" and "mc_writes m + 3 < version_limit" and "im_wf (as_pending_refresh (mc_actor m))"
  shows "balances ports (CommitRefreshed u url fingerprint outcome) m (handle_commit_refreshed ports u url fingerprint outcome m)"
proof -
  let ?m = "m\<lparr>mc_actor := (mc_actor m)\<lparr>as_pending_refresh := im_shift_remove u (as_pending_refresh (mc_actor m))\<rparr>\<rparr>"
  have c: "core ?m = core m" by simp
  have ok: "actor_ok ports ?m" using actor_ok_core [OF c [symmetric] assms(1)] .
  have e: "ends ports (edits [] (CommitRefreshed u url fingerprint outcome) (current_state ?m)) ?m
      (commit_refreshed ports u url fingerprint outcome ?m)"
    using commit_refreshed_ends [OF ok] assms(2) core_facts [OF c] by simp
  have split: "unanswered m = mset (case im_get (as_pending_refresh (mc_actor m)) u of Some (Some q) \<Rightarrow> [q] | _ \<Rightarrow> []) + unanswered ?m"
    using refresh_ports_remove [OF assms(3), of u] by (simp add: unanswered_def)
  have f: "follows m ?m" by (simp add: follows_def tables_ok_edit)
  obtain m1 out where res: "commit_refreshed ports u url fingerprint outcome ?m = (m1, out)" by fastforce
  note bg = balances_background [OF e, where m = m and msg = "CommitRefreshed u url fingerprint outcome"]
  note rp = balances_reply [OF e, where m = m and msg = "CommitRefreshed u url fingerprint outcome" and wrap = Report]
  show ?thesis
    using bg rp split f
    by (auto simp: handle_commit_refreshed_def Let_def res background_def reply_with_def
        split: outcome.splits option.splits prod.splits)
qed

lemma commit_imported_balances:
  assumes "actor_ok ports m" and "mc_writes m + 3 < version_limit" and "im_wf (as_pending_imports (mc_actor m))"
  shows "balances ports (CommitImported token outcome) m (handle_commit_imported ports token outcome m)"
proof (cases "im_get (as_pending_imports (mc_actor m)) token")
  case None
  then show ?thesis by (simp add: handle_commit_imported_def balances_silent)
next
  case (Some p)
  let ?m = "m\<lparr>mc_actor := (mc_actor m)\<lparr>as_pending_imports := im_shift_remove token (as_pending_imports (mc_actor m))\<rparr>\<rparr>"
  have c: "core ?m = core m" by simp
  have ok: "actor_ok ports ?m" using actor_ok_core [OF c [symmetric] assms(1)] .
  have e: "ends ports (edits (as_pending_imports (mc_actor m)) (CommitImported token outcome) (current_state ?m)) ?m
      (commit_imported ports p outcome ?m)"
    using commit_imported_ends [OF ok _ Some] assms(2) core_facts [OF c] by simp
  have split: "unanswered m = add_mset (pi_reply p) (unanswered ?m)"
    using import_ports_remove [OF Some assms(3)] by (simp add: unanswered_def)
  have f: "follows m ?m" by (simp add: follows_def tables_ok_edit)
  have "balances ports (CommitImported token outcome) m (reply_with (pi_reply p) Report (commit_imported ports p outcome ?m))"
    if "\<not> ap_closed ports (mc_world m) (pi_reply p)"
    using split Some that f by (intro balances_reply [OF e]) simp_all
  moreover have "balances ports (CommitImported token outcome) m (?m, Finished ())"
    if "ap_closed ports (mc_world m) (pi_reply p)"
    using split Some that f by (intro balances_silent) simp_all
  ultimately show ?thesis by (simp add: handle_commit_imported_def Some Let_def)
qed

lemma keys_im_insert: "fst ` set (im_insert k v m) = insert k (fst ` set m)"
  by (simp flip: dom_map_of_conv_image_fst add: update_conv')

lemma less_succ: "x \<noteq> - 1 \<Longrightarrow> x < x + 1" for x :: u64
proof -
  assume "x \<noteq> - 1"
  then have "x + 1 \<noteq> 0" by (simp add: add_eq_0_iff2)
  then have "unat (x + 1) = Suc (unat x)" using unatSuc [of x] by (simp add: add.commute)
  then show ?thesis by (simp add: word_less_nat_alt)
qed

lemma import_balances:
  assumes "tables_ok m"
  shows "balances ports (ImportRemote url metadata opt explicit r) m (handle_import ports url metadata opt explicit r m)"
proof -
  obtain m1 out where v: "validate_import_request ports (current_state m) metadata url opt m = (m1, out)" by fastforce
  then obtain n where m1: "m1 = m\<lparr>mc_draws := n\<rparr>" using import_request_near by blast
  have draws: "unanswered (m\<lparr>mc_draws := n\<rparr>) = unanswered m" "follows m (m\<lparr>mc_draws := n\<rparr>)"
    by (simp_all add: unanswered_def follows_def)
  let ?a = "mc_actor m" and ?p = "\<lparr>pi_reply = r, pi_metadata = metadata, pi_url = url, pi_option = opt,
    pi_update_interval_explicit = explicit\<rparr>"
  let ?t = "as_next_import_token ?a"
  let ?m = "m\<lparr>mc_draws := n, mc_actor := ?a\<lparr>as_next_import_token := max (?t + 1) 1,
    as_pending_imports := im_insert ?t ?p (as_pending_imports ?a)\<rparr>\<rparr>"
  have "?t < max (?t + 1) 1" if "?t \<noteq> - 1"
    using less_succ [OF that] by (auto simp: less_max_iff_disj)
  then have "follows m ?m"
    unfolding follows_def tables_ok_def by (auto simp: keys_im_insert)
  moreover have "unanswered ?m = add_mset r (unanswered m)"
    using tables_ok_fresh [OF assms] by (simp add: unanswered_def import_ports_insert)
  ultimately have "balances ports (ImportRemote url metadata opt explicit r) m
      (emit_output (SpawnImport ?t url opt) ?m, Finished ())"
    by (intro balances_output) simp_all
  with draws show ?thesis
    by (auto simp: handle_import_def v m1 Let_def intro!: balances_output split: outcome.split sum.split)
qed

lemma mirror_balances:
  assumes "actor_ok ports m" and "mc_writes m + 3 < version_limit"
  shows "balances ports (ExternalFileChanged u) m (mirror_changed ports u it target path m)"
proof -
  obtain w r where read: "ap_read_external ports target (mc_world m) = (w, r)" by fastforce
  let ?m = "m\<lparr>mc_world := w\<rparr>"
  have still: "balances ports (ExternalFileChanged u) m (m, Finished ())"
    "balances ports (ExternalFileChanged u) m (?m, Finished ())"
    by (rule balances_silent; simp add: unanswered_def follows_def)+
  note n = external_near [OF assms(1) read]
  have commit: "balances ports (ExternalFileChanged u) m (background (commit_file_first ports (mc_version m) (current_state m)
      (update_item u (on_definition (map_source (touched_at now))) (current_state m)) (Touched u) path content ?m))"
    for now content
    by (rule balances_background [OF file_first_ends [OF assms n, where E = "\<lambda>a x. True"]])
      (auto simp: items_wf actor_ok_items [OF assms(1)])
  have "current_state ?m = current_state m" by (simp add: current_state_def)
  with still commit read show ?thesis
    by (simp add: mirror_changed_def Let_def split: sum.split option.split prod.split)
qed

lemma external_balances:
  assumes "actor_ok ports m" and "mc_writes m + 3 < version_limit"
  shows "balances ports (ExternalFileChanged u) m (handle_external_changed ports u m)"
proof -
  have still: "balances ports (ExternalFileChanged u) m (m, Finished ())" by (rule balances_silent) simp_all
  have "balances ports (ExternalFileChanged u) m (background (run_state_write ports (touch_external now u) m))" for now
    by (rule balances_background [OF run_state_write_ends [OF assms, where E = "\<lambda>a x. True"]])
      (auto simp: touch_external_def actor_ok_items [OF assms(1)] intro: items_wf split: option.splits)
  with still mirror_balances [OF assms] show ?thesis
    by (simp add: handle_external_changed_def split: option.split)
qed

lemma write_balances:
  assumes "actor_ok ports m" and "mc_writes m + 3 < version_limit" and "message_ok msg"
    and "asked msg = {#r#}" and "dropped ports msg m = {#}" and "\<And>affects nx. mutate (current_state m) = Inr (affects, nx) \<Longrightarrow>
      edits (as_pending_imports (mc_actor m)) msg (current_state m) affects nx"
  shows "balances ports msg m (reply_with r wrap (run_state_write ports mutate m))"
  by (rule balances_reply [OF write_ends [OF assms(1-3,6)]]) (simp_all add: assms(4,5))

lemma handle_balances:
  assumes "actor_ok ports m" and "mc_writes m + 3 < version_limit" and "message_ok msg" and "tables_ok m"
  shows "balances ports msg m (handle ports msg m)"
proof -
  note wr = write_balances [OF assms(1,2)]
  show ?thesis
  proof (cases msg)
    case (Get r)
    have "balances ports (Get r) m (emit_output (Send r (Snapshot (current_state m))) m, Finished ())"
      by (rule balances_output) simp_all
    with Get show ?thesis by (simp add: reply_with_def)
  next
    case (SetCurrentIfNone u r)
    have "balances ports msg m (emit_output (Send r (Activated (Inr None))) m, Finished ())"
      by (rule balances_output) (simp_all add: SetCurrentIfNone)
    then have taken: "balances ports msg m (reply_with r Activated (m, Finished (Inr None)))" by (simp add: reply_with_def)
    have "balances ports msg m (reply_with r (Activated \<circ> map_sum (\<lambda>e. e) Some)
        (run_state_write ports (\<lambda>p. Inr (CurrentChanged, set_current p (Some u))) m))"
      if "pr_current (current_state m) = None"
      by (rule wr) (use that in \<open>auto simp: SetCurrentIfNone intro: EditIfNone\<close>)
    with SetCurrentIfNone taken show ?thesis by (simp add: set_current_if_none_def)
  next
    case (Add request initial_file r)
    then show ?thesis using handle_add_ends [OF assms(1,2)] by (auto intro!: balances_reply)
  next
    case (Delete u r)
    then show ?thesis using handle_delete_ends [OF assms(1,2)] by (auto intro!: balances_reply)
  next
    case (ReplaceDefinition u d r)
    then show ?thesis using handle_replace_definition_ends [OF assms(1,2)] by (auto intro!: balances_reply)
  next
    case (Reorder reorder_op r)
    then show ?thesis
      by (cases "reorder_items reorder_op (current_state m)") (auto intro!: wr intro: EditReorder)
  next
    case ReconcileMaterializations
    have "mc_out (fst (reconcile_materializations ports m)) = mc_out m"
      "unanswered (fst (reconcile_materializations ports m)) = unanswered m"
      "follows m (fst (reconcile_materializations ports m))"
      by (simp_all add: reconcile_materializations_def unanswered_def follows_def split_beta)
    with ReconcileMaterializations show ?thesis by (auto intro: balances_silent)
  qed (use assms(3,4) refresh_balances [OF assms(1,2)] commit_refreshed_balances [OF assms(1,2)]
        commit_imported_balances [OF assms(1,2)] import_balances [OF assms(4)] external_balances [OF assms(1,2)] in
      \<open>auto simp: tables_ok_def patch_metadata_def patch_remote_options_def intro!: wr intro: edits.intros
        split: option.splits ProfileSource.splits if_splits\<close>)
qed

end
