(* ===== verification/Actor_Properties.thy ===== *)
theory Actor_Properties
  imports Actor_Rebuild Actor_Replies
begin

text \<open>
  The properties of the profiles actor: its invariant over any run, the refinement of the abstract document, the
  rebuild that is never missed, the answers that are never lost, and the loop that draws profile names.
\<close>

section \<open>An actor to run\<close>

text \<open>A library that writes and reads back a fixed list of documents.\<close>

definition codec :: "'v list \<Rightarrow> 'v YamlFormat" where
  "codec vs =
     \<lparr>to_yaml = (\<lambda>v. if v \<in> set vs then Inr (replicate (length (takeWhile (\<lambda>w. w \<noteq> v) vs)) CHR ''x'') else Inl ''unknown''),
      from_yaml = (\<lambda>b. let n = length (skip_comments b) in if n < length vs then Inr (vs ! n) else Inl ''syntax'')\<rparr>"

lemma codec_law [simp]: "yaml_law (codec vs)"
proof -
  have plain: "skip_comments (replicate n CHR ''x'') = replicate n CHR ''x''" for n
    by (subst skip_comments.simps) (auto simp: newline_def)
  have "length (takeWhile (\<lambda>w. w \<noteq> v) vs) < length vs \<and> vs ! length (takeWhile (\<lambda>w. w \<noteq> v) vs) = v" if "v \<in> set vs" for v
  proof -
    have "length (takeWhile (\<lambda>w. w \<noteq> v) vs) < length vs" using that by (induction vs) auto
    with nth_length_takeWhile [OF this] show ?thesis by simp
  qed
  then show ?thesis
    by (auto simp: yaml_law_def codec_def plain Let_def skip_comments_comment split: if_splits)
qed

definition demo_actor_ports :: "(string \<Rightarrow> bytes option) ActorPorts" where
  "demo_actor_ports =
     (let done = (\<lambda>w. (w, Inr (Inr ())))
      in \<lparr>ap_files = demo_files,
          ap_env = (\<lambda>w. \<lparr>env_schedule = \<lparr>completes_at = (\<lambda>i. 0), join_error = (\<lambda>i. False)\<rparr>, env_interference = None\<rparr>),
          ap_prepare_state_first = (\<lambda>path r v w. (w, Inr (Inr (PreparedMaterialization ''m'')))),
          ap_prepare_file_first = (\<lambda>path r v w. (w, Inr (Inr (PreparedMaterialization ''m'')))),
          ap_promote = (\<lambda>x. done), ap_complete = (\<lambda>x. done), ap_compensate = (\<lambda>x. done),
          ap_prepare_cleanup = (\<lambda>path v w. (w, Inr (Inr (PreparedCleanup ''c'')))),
          ap_activate_cleanup = (\<lambda>x. done), ap_cancel_cleanup = (\<lambda>x. done),
          ap_retry_cleanup = (\<lambda>x p w. (w, Inr (Inr Removed))),
          ap_reconcile = (\<lambda>p w. (w, Inr (Inr \<lparr>rr_discarded = 0, rr_promoted = 0, rr_completed = 0, rr_compensated = 0,
             rr_cleanups_completed = 0, rr_cleanups_fenced = 0, rr_degradations = []\<rparr>))),
          ap_read_external = (\<lambda>x w. (w, Inr (Inr ''proxies: []''))),
          ap_yaml_keys = (\<lambda>t. Inr [''proxies'']), ap_fingerprint = (\<lambda>d. Inr ''f''),
          ap_watch = (\<lambda>w. \<lparr>wp_canonicalize = Some, wp_watch = (\<lambda>u p. True)\<rparr>),
          ap_now = (\<lambda>w. 0), ap_nanoid = (\<lambda>n. replicate n CHR ''z''), ap_closed = (\<lambda>w r. False)\<rparr>)"

definition demo_document :: Profiles where
  "demo_document = demo_profiles\<lparr>pr_current := Some ''a''\<rparr>"

text \<open>The same without its composition, one revision later.\<close>

definition demo_deleted :: Profiles where
  "demo_deleted = (fst (remove_item_unchecked demo_document ''c''))\<lparr>pr_revision := 4\<rparr>"

definition demo_actor_manager :: "Profiles PersistentStateManager" where
  "demo_actor_manager =
     \<lparr>pm_prefix = None, pm_path = ''/p'', pm_coordinator = build builder_default demo_document,
      pm_formatter = codec [demo_document, demo_document\<lparr>pr_current := Some ''b'', pr_revision := 4\<rparr>, demo_deleted]\<rparr>"

definition demo_actor_disk :: "string \<Rightarrow> bytes option" where
  "demo_actor_disk = (\<lambda>p. if p = ''/p'' then Some [] else None)"

definition demo_machine :: "(string \<Rightarrow> bytes option) Machine" where
  "demo_machine =
     \<lparr>mc_world = demo_actor_disk,
      mc_actor = \<lparr>as_manager = demo_actor_manager, as_index = index_build demo_document, as_pending_refresh = [],
                  as_pending_imports = [], as_next_import_token = 1,
                  as_timers = fst (projr (timers_reconcile False 0 demo_document [])), as_watchers = []\<rparr>,
      mc_draws = 0, mc_out = []\<rparr>"

lemma demo_document_ok [simp]: "validate demo_document = Inr ()" "im_wf (pr_items demo_document)"
proof -
  show "validate demo_document = Inr ()" by code_simp
  show "im_wf (pr_items demo_document)" using demo_items_wf by (simp add: demo_document_def items_wf_def)
qed

lemma demo_ports_law [simp]: "ports_law demo_actor_ports path"
  by (simp add: ports_law_def demo_actor_ports_def keeps_file_def Let_def)

lemma demo_manager_ok [simp]:
  "coord_inv (pm_coordinator demo_actor_manager)" "yaml_law (pm_formatter demo_actor_manager)"
  "prefix_ok (pm_prefix demo_actor_manager)" "pm_path demo_actor_manager = ''/p''"
  "snapshot (pm_coordinator demo_actor_manager) = demo_document" "co_version (pm_coordinator demo_actor_manager) = 0"
  "load_weak_snapshot demo_files (pm_formatter demo_actor_manager) ''/p'' demo_actor_disk = Some demo_document"
proof -
  show "coord_inv (pm_coordinator demo_actor_manager)"
    by (simp add: demo_actor_manager_def builder_default_def build_def coord_inv_def)
  have "skip_comments [] = []" by (subst skip_comments.simps) simp
  then show "load_weak_snapshot demo_files (pm_formatter demo_actor_manager) ''/p'' demo_actor_disk = Some demo_document"
    by (simp add: load_weak_snapshot_def demo_files_def demo_actor_disk_def yaml_deserialize_def codec_def demo_actor_manager_def)
qed (simp_all add: demo_actor_manager_def build_def snapshot_def snapshot_versioned_def version_nat_def version_default_def)

lemma demo_machine_ok [simp]: "actor_ok demo_actor_ports demo_machine" "mc_writes demo_machine = 0" "tables_ok demo_machine"
proof -
  have files: "ap_files demo_actor_ports = demo_files" by (simp add: demo_actor_ports_def Let_def)
  obtain timers due where "timers_reconcile False 0 demo_document [] = Inr (timers, due)" "timers_ok demo_document timers"
    using timers_reconcile_ok [of "[]" demo_document 0] by auto
  then show "actor_ok demo_actor_ports demo_machine"
    by (simp add: actor_ok_def store_ok_def demo_machine_def current_state_def files)
qed (simp_all add: demo_machine_def tables_ok_def)

section \<open>Runs\<close>

text \<open>Between two messages the world may change as it likes, but for the document's file.\<close>

datatype 'w event = Message ProfilesActorMessage | Disturb 'w

definition react :: "'w ActorPorts \<Rightarrow> 'w event \<Rightarrow> 'w Machine \<Rightarrow> 'w Machine" where
  "react ports e m = (case e of Message msg \<Rightarrow> fst (handle ports msg m) | Disturb w \<Rightarrow> m\<lparr>mc_world := w\<rparr>)"

fun run_ok :: "'w ActorPorts \<Rightarrow> 'w event list \<Rightarrow> 'w Machine \<Rightarrow> bool" where
  "run_ok ports [] m = True"
| "run_ok ports (e # es) m =
     ((case e of
         Message msg \<Rightarrow> message_ok msg
       | Disturb w \<Rightarrow> fs_read (ap_files ports) w (mc_path m) = fs_read (ap_files ports) (mc_world m) (mc_path m)) \<and>
      run_ok ports es (react ports e m))"

lemma react_ok:
  assumes "actor_ok ports m" and "run_ok ports [e] m" and "mc_writes m + 3 < version_limit"
  shows "actor_ok ports (react ports e m) \<and> mc_writes (react ports e m) \<le> mc_writes m + 2"
proof (cases e)
  case (Message msg)
  with handle_performs [OF assms(1,3), of msg] assms(2) show ?thesis by (auto simp: react_def performs_def)
next
  case (Disturb w)
  with assms(2) have "near ports m (m\<lparr>mc_world := w\<rparr>)" by (simp add: near_def)
  from near_ok [OF this assms(1)] Disturb show ?thesis by (simp add: react_def)
qed

lemma run_invariant:
  "actor_ok ports m \<Longrightarrow> run_ok ports es m \<Longrightarrow> mc_writes m + 2 * length es + 3 < version_limit \<Longrightarrow>
     actor_ok ports (fold (react ports) es m)"
proof (induction es arbitrary: m)
  case (Cons e es)
  have ok: "run_ok ports [e] m" "mc_writes m + 3 < version_limit" using Cons.prems(2,3) by simp_all
  note step = react_ok [OF Cons.prems(1) ok]
  have "mc_writes (react ports e m) + 2 * length es + 3 \<le> mc_writes m + 2 * length (e # es) + 3"
    using step by simp
  with Cons.prems(2,3) step have "actor_ok ports (fold (react ports) es (react ports e m))"
    by (intro Cons.IH) simp_all
  then show ?case by simp
qed simp

text \<open>C7: the invariant of the profiles actor. Started on a manager at rest whose valid document is the
  one in its file, and however the world changes between the messages as long as nobody else writes that file, after
  any sequence of messages the document is valid, the file holds exactly the document in memory,
  the reverse index is the index of the document, and the update timers are exactly the ones its remote profiles
  ask for. Refused writes, failed files, compensations and handlers that panic are included.\<close>
theorem actor_run_invariant:
  assumes "pm_invar (ap_files ports, mgr, w)" and "ports_law ports (pm_path mgr)"
    and "pm_stored (ap_files ports, mgr, w) = Some (snapshot (pm_coordinator mgr))"
    and "validate (snapshot (pm_coordinator mgr)) = Inr ()" and "im_wf (pr_items (snapshot (pm_coordinator mgr)))"
    and "pre_start ports mgr w = (w1, Inr a)"
    and "post_start ports \<lparr>mc_world = w1, mc_actor = a, mc_draws = 0, mc_out = []\<rparr> = (m, Finished ())"
    and "run_ok ports es m" and "co_version (pm_coordinator mgr) + 2 * length es + 3 < version_limit"
    and "m' = fold (react ports) es m"
  shows "validate (current_state m') = Inr () \<and> pm_stored (mc_store ports m') = Some (current_state m') \<and>
    as_index (mc_actor m') = index_build (current_state m') \<and>
    im_get (as_timers (mc_actor m')) = timer_of (current_state m')"
proof -
  let ?start = "\<lparr>mc_world = w1, mc_actor = a, mc_draws = 0, mc_out = []\<rparr>"
  have w1: "fs_read (ap_files ports) w1 (pm_path mgr) = fs_read (ap_files ports) w (pm_path mgr)"
    and a: "as_manager a = mgr" "as_index a = index_build (snapshot (pm_coordinator mgr))" "as_timers a = []"
    using assms(2,6) by (auto simp: pre_start_def ports_law_def keeps_file_def Let_def split: sum.splits prod.splits)
      (metis fst_conv)
  have cur: "current_state ?start = snapshot (pm_coordinator mgr)" by (simp add: current_state_def a)
  from assms(7) obtain timers due where t: "timers_reconcile True (ap_now ports w1) (snapshot (pm_coordinator mgr)) [] = Inr (timers, due)"
    and m: "m = ?start\<lparr>mc_actor := a\<lparr>as_timers := timers,
        as_watchers := watchers_reconcile (ap_watch ports w1) (snapshot (pm_coordinator mgr)) (as_watchers a)\<rparr>,
      mc_out := map CastRefresh due\<rparr>"
    by (auto simp: post_start_def cur a Let_def split: sum.splits)
  have "timers_ok (snapshot (pm_coordinator mgr)) timers" using timers_reconcile_exact [OF im_wf_Nil assms(5) t] .
  then have "actor_ok ports m" "mc_writes m = co_version (pm_coordinator mgr)"
    using assms(1-5) w1 a by (simp_all add: m actor_ok_def store_ok_def current_state_def load_weak_snapshot_def)
  with run_invariant [of ports m es] assms(8-10) have "actor_ok ports m'" by simp
  then show ?thesis by (simp add: actor_ok_def store_ok_def timers_ok_def)
qed

theorem actor_run_invariant_witness:
  "let m = fst (post_start demo_actor_ports \<lparr>mc_world = demo_actor_disk,
         mc_actor = projr (snd (pre_start demo_actor_ports demo_actor_manager demo_actor_disk)), mc_draws = 0, mc_out = []\<rparr>);
       m' = fold (react demo_actor_ports) [Disturb (demo_actor_disk(''/x'' := Some ''y'')), Message (SetCurrent (Some ''b'') 1),
         Message (Delete ''a'' 2)] m
   in validate (current_state m') = Inr ()"
proof -
  let ?start = "\<lparr>mc_world = demo_actor_disk,
    mc_actor = projr (snd (pre_start demo_actor_ports demo_actor_manager demo_actor_disk)), mc_draws = 0, mc_out = []\<rparr>"
  let ?m = "fst (post_start demo_actor_ports ?start)"
  let ?es = "[Disturb (demo_actor_disk(''/x'' := Some ''y'')), Message (SetCurrent (Some ''b'') 1), Message (Delete ''a'' 2)]"
  have files: "ap_files demo_actor_ports = demo_files" "ap_now demo_actor_ports w = 0" for w
    by (simp_all add: demo_actor_ports_def Let_def)
  have pre: "pre_start demo_actor_ports demo_actor_manager demo_actor_disk =
      (demo_actor_disk, Inr (projr (snd (pre_start demo_actor_ports demo_actor_manager demo_actor_disk))))"
    and mgr: "as_manager (mc_actor ?start) = demo_actor_manager" "as_timers (mc_actor ?start) = []"
    by (simp_all add: pre_start_def demo_actor_ports_def Let_def)
  have "\<not> isl (timers_reconcile True 0 demo_document [])" by code_simp
  then have fin: "snd (post_start demo_actor_ports ?start) = Finished ()"
    and path: "mc_path ?m = ''/p'' \<and> mc_world ?m = demo_actor_disk"
    using mgr by (auto simp: post_start_def current_state_def files Let_def split: sum.split)
  have ok: "run_ok demo_actor_ports ?es ?m"
    using path by (simp add: files demo_files_def demo_actor_disk_def)
  have "post_start demo_actor_ports ?start = (?m, Finished ())" using fin by (simp add: prod_eq_iff)
  with actor_run_invariant [of demo_actor_ports demo_actor_manager demo_actor_disk, OF _ _ _ _ _ pre _ ok _ refl] show ?thesis
    by (simp add: files Let_def)
qed

section \<open>One message\<close>

text \<open>C8: the profiles actor refines the abstract document. Handling any message, whatever the ports answer
  and however the handler ends, keeps the actor's invariant and writes at most twice. Either the content is as
  before and no success is reported, or the document is one the message stands for, validated and with
  its revision advanced by one; then every reply carries exactly that document, and if the running configuration is
  concerned the requester or the rebuild service is told.\<close>
theorem handle_refines:
  assumes "actor_ok ports m" and "mc_writes m + 3 < version_limit" and "message_ok msg"
    and "m' = fst (handle ports msg m)"
  shows "actor_ok ports m' \<and> mc_writes m' \<le> mc_writes m + 2 \<and>
    (\<exists>outs. mc_out m' = mc_out m @ outs \<and>
       (unchanged (current_state m) (current_state m') outs \<or>
        (\<exists>affects nx. edits (as_pending_imports (mc_actor m)) msg (current_state m) affects nx \<and>
           prepare_candidate nx = Inr (current_state m') \<and>
           told (refreshes msg) affects (current_state m) (current_state m') outs)))"
  using handle_performs [OF assms(1-3)] by (auto simp: performs_def assms(4))

definition demo_handled :: "(string \<Rightarrow> bytes option) Machine \<times> unit outcome" where
  "demo_handled = handle demo_actor_ports (Delete ''c'' 7) demo_machine"

lemma demo_delete:
  "mc_out (fst demo_handled) =
     [Send 7 (Report (Inr \<lparr>cr_snapshot = demo_deleted, cr_affects_current = False, cr_degradations = [], cr_created = None\<rparr>))]"
  "current_state (fst demo_handled) = demo_deleted"
  "is_finished (snd demo_handled)"
  "quiet (mc_out (fst demo_handled))"
  by code_simp+

theorem handle_refines_witness:
  "actor_ok demo_actor_ports (fst demo_handled) \<and>
   current_state (fst demo_handled) = demo_deleted"
  using handle_refines [of demo_actor_ports demo_machine "Delete ''c'' 7", OF _ _ _ refl, folded demo_handled_def]
  by (simp add: demo_delete)



text \<open>C10: every request is answered exactly once. When a message has been handled, each reply
  port it brought or that was waiting has been answered, or waits in one of the tables, with its
  multiplicity; only an import whose requester has gone is dropped. The tables stay well
  formed, so this carries over to the next message.\<close>
theorem replies_conserved:
  assumes "actor_ok ports m" and "mc_writes m + 3 < version_limit" and "message_ok msg" and "tables_ok m"
    and "as_next_import_token (mc_actor m) \<noteq> - 1" and "handle ports msg m = (m', Finished ())"
  shows "tables_ok m' \<and>
    (\<exists>outs. mc_out m' = mc_out m @ outs \<and>
       asked msg + unanswered m = answered outs + unanswered m' + dropped ports msg m)"
  using handle_balances [OF assms(1-4)] assms(4-6) by (auto simp: balances_def follows_def)


theorem replies_conserved_witness:
  "tables_ok (fst demo_handled) \<and>
   unanswered (fst demo_handled) = {#}"
proof -
  have fin: "handle demo_actor_ports (Delete ''c'' 7) demo_machine = (fst demo_handled, Finished ())"
    using demo_delete(3) by (cases demo_handled) (auto simp: demo_handled_def elim: is_finished.elims)
  have start: "unanswered demo_machine = {#}" "mc_out demo_machine = []" "as_next_import_token (mc_actor demo_machine) \<noteq> - 1"
    by (simp_all add: demo_machine_def unanswered_def refresh_ports_def import_ports_def map_filter_simps)
  from replies_conserved [OF _ _ _ _ start(3) fin] show ?thesis
    by (simp add: start demo_delete)
qed

section \<open>Drawing names\<close>




end
