(* ===== verification/Profile_Disk.thy ===== *)
theory Profile_Disk
  imports Profiles_Ports
begin

text \<open>
  The disk under the profile file service (\<^verbatim>\<open>tauri/src/service/profile_file.rs\<close>) and the calls the service
  makes on it.

  \<^item> A place is a managed profile, by the components of its path, or a name in one of the directories of
    the private materialization area. What lies at a place is a regular file, a symbolic link or a
    directory; file contents and names are byte strings.
  \<^item> The parent directories of a place are not part of the model: preparing them is a call that may fail.
  \<^item> Every system call asks the fault script for a verdict: it goes through, it reports an error, or the
    process dies in it. A call that fails or dies may have done nothing, part of a write, or all of its
    work; replacing, renaming, linking and removing are atomic. When the script is used up, every call
    goes through.
  \<^item> The messages of errors are kept without the paths printed into them.

  \<open>runs\<close> is the program logic of the service: which results and disks a run can end with. A claim about
  runs without faults, with crashes, or with failing calls is the same claim in another \<open>weather\<close>.
\<close>

section \<open>Places and nodes\<close>

datatype JournalLocation =
  StatePrepared | StatePromoting | StateCompensating | FilePrepared | FilePromoting | FilePromoted | FileCompensating

datatype CleanupPhase = CleanupPending | CleanupReady

datatype private_directory =
  Staging_files | Staging_links | Staging_ready_links | Backup_files | Backup_links
| Journal_directory JournalLocation | Cleanup_directory CleanupPhase

datatype place = Profile_place "Component list" | Private_place private_directory string

datatype node = Regular string | Symbolic_link string | Directory

definition is_regular :: "node \<Rightarrow> bool" where
  "is_regular x = (case x of Regular c \<Rightarrow> True | _ \<Rightarrow> False)"

definition is_link :: "node \<Rightarrow> bool" where
  "is_link x = (case x of Symbolic_link t \<Rightarrow> True | _ \<Rightarrow> False)"

section \<open>Faults\<close>

datatype extent = Nothing_done | Torn nat | All_done

datatype verdict = Goes | Fails extent | Dies extent

record Disk =
  dk_nodes :: "(place, node) index_map"
  dk_faults :: "verdict list"

abbreviation content_of :: "Disk \<Rightarrow> place \<Rightarrow> node option" where
  "content_of d \<equiv> map_of (dk_nodes d)"

definition place_node :: "place \<Rightarrow> node \<Rightarrow> Disk \<Rightarrow> Disk" where
  "place_node q x d = d\<lparr>dk_nodes := im_insert q x (dk_nodes d)\<rparr>"

definition clear_place :: "place \<Rightarrow> Disk \<Rightarrow> Disk" where
  "clear_place q d = d\<lparr>dk_nodes := im_shift_remove q (dk_nodes d)\<rparr>"

definition with_faults :: "verdict list \<Rightarrow> Disk \<Rightarrow> Disk" where
  "with_faults vs d = d\<lparr>dk_faults := vs\<rparr>"

section \<open>Actions on the disk\<close>

datatype 'a outcome = Returned 'a | Errored anyhow | Crashed

type_synonym 'a io = "Disk \<Rightarrow> 'a outcome \<times> Disk"

definition io_return :: "'a \<Rightarrow> 'a io" where
  "io_return x d = (Returned x, d)"

definition io_bail :: "anyhow \<Rightarrow> 'a io" where
  "io_bail e d = (Errored e, d)"

definition io_bind :: "'a io \<Rightarrow> ('a \<Rightarrow> 'b io) \<Rightarrow> 'b io" where
  "io_bind m k d =
     (case m d of (Returned x, d') \<Rightarrow> k x d' | (Errored e, d') \<Rightarrow> (Errored e, d') | (Crashed, d') \<Rightarrow> (Crashed, d'))"

text \<open>A result the caller inspects instead of returning early.\<close>

definition io_attempt :: "'a io \<Rightarrow> (anyhow + 'a) io" where
  "io_attempt m d =
     (case m d of (Returned x, d') \<Rightarrow> (Returned (Inr x), d') | (Errored e, d') \<Rightarrow> (Returned (Inl e), d')
      | (Crashed, d') \<Rightarrow> (Crashed, d'))"

definition io_when :: "bool \<Rightarrow> unit io \<Rightarrow> unit io" where
  "io_when b m = (if b then m else io_return ())"

fun io_for :: "('a \<Rightarrow> 's \<Rightarrow> 's io) \<Rightarrow> 'a list \<Rightarrow> 's \<Rightarrow> 's io" where
  "io_for f [] s = io_return s"
| "io_for f (x # xs) s = io_bind (f x s) (io_for f xs)"

text \<open>The first element whose test holds ends the search, as \<^verbatim>\<open>Iterator::any\<close>.\<close>

fun io_any :: "('a \<Rightarrow> bool io) \<Rightarrow> 'a list \<Rightarrow> bool io" where
  "io_any f [] = io_return False"
| "io_any f (x # xs) = io_bind (f x) (\<lambda>b. if b then io_return True else io_any f xs)"

section \<open>System calls\<close>

definition call :: "anyhow \<Rightarrow> (extent \<Rightarrow> 'a io) \<Rightarrow> 'a io" where
  "call msg act d =
     (case dk_faults d of
        [] \<Rightarrow> act All_done d
      | v # vs \<Rightarrow> (let d1 = d\<lparr>dk_faults := vs\<rparr>
                   in case v of
                        Goes \<Rightarrow> act All_done d1
                      | Fails e \<Rightarrow> (Errored msg, snd (act e d1))
                      | Dies e \<Rightarrow> (Crashed, snd (act e d1))))"

text \<open>A call that does not change what is modelled of the disk: a permission, a parent directory, a sync.\<close>

definition probe :: "anyhow \<Rightarrow> unit io" where
  "probe msg = call msg (\<lambda>e. io_return ())"

definition sync_directory :: "unit io" where
  "sync_directory = probe ''sync directory''"

definition set_private_file_permissions :: "unit io" where
  "set_private_file_permissions = probe ''set private file permissions''"

text \<open>\<^verbatim>\<open>std::fs::symlink_metadata\<close>: what lies at the place itself, \<open>None\<close> for \<^verbatim>\<open>NotFound\<close>.\<close>

definition symlink_metadata :: "anyhow \<Rightarrow> place \<Rightarrow> node option io" where
  "symlink_metadata msg q = call msg (\<lambda>e d. (Returned (content_of d q), d))"

definition read_link :: "anyhow \<Rightarrow> place \<Rightarrow> string io" where
  "read_link msg q =
     call msg (\<lambda>e d. (case content_of d q of Some (Symbolic_link t) \<Rightarrow> Returned t | _ \<Rightarrow> Errored msg, d))"

text \<open>Reading through the regular file at a place; the service reads no place that it has not just found
  to be one.\<close>

definition read_bytes :: "anyhow \<Rightarrow> place \<Rightarrow> string io" where
  "read_bytes msg q =
     call msg (\<lambda>e d. (case content_of d q of Some (Regular c) \<Rightarrow> Returned c | _ \<Rightarrow> Errored msg, d))"

text \<open>\<^verbatim>\<open>OpenOptions::create_new\<close>, then \<^verbatim>\<open>write_all\<close>.\<close>

definition open_new :: "anyhow \<Rightarrow> place \<Rightarrow> unit io" where
  "open_new msg q =
     call msg (\<lambda>e d. case content_of d q of
                       Some x \<Rightarrow> (Errored msg, d)
                     | None \<Rightarrow> (Returned (), if e = All_done then place_node q (Regular []) d else d))"

definition write_all :: "anyhow \<Rightarrow> place \<Rightarrow> string \<Rightarrow> unit io" where
  "write_all msg q c =
     call msg (\<lambda>e d. (Returned (),
       case e of Nothing_done \<Rightarrow> d | Torn n \<Rightarrow> place_node q (Regular (take n c)) d
               | All_done \<Rightarrow> place_node q (Regular c) d))"

text \<open>\<^verbatim>\<open>AtomicFile::write\<close> that refuses to overwrite, and the one that overwrites.\<close>

definition atomic_write_new :: "anyhow \<Rightarrow> place \<Rightarrow> string \<Rightarrow> unit io" where
  "atomic_write_new msg q c =
     call msg (\<lambda>e d. case content_of d q of
                       Some x \<Rightarrow> (Errored msg, d)
                     | None \<Rightarrow> (Returned (), if e = All_done then place_node q (Regular c) d else d))"

definition atomic_write_over :: "anyhow \<Rightarrow> place \<Rightarrow> string \<Rightarrow> unit io" where
  "atomic_write_over msg q c =
     call msg (\<lambda>e d. if content_of d q = Some Directory then (Errored msg, d)
                      else (Returned (), if e = All_done then place_node q (Regular c) d else d))"

definition remove_file :: "anyhow \<Rightarrow> place \<Rightarrow> unit io" where
  "remove_file msg q =
     call msg (\<lambda>e d. if content_of d q = None \<or> content_of d q = Some Directory then (Errored msg, d)
                      else (Returned (), if e = All_done then clear_place q d else d))"

text \<open>\<^verbatim>\<open>rename\<close> and \<^verbatim>\<open>replace_atomic\<close>: the source takes the place of what was at the destination.\<close>

definition replace_atomic :: "anyhow \<Rightarrow> place \<Rightarrow> place \<Rightarrow> unit io" where
  "replace_atomic msg src dst =
     call msg (\<lambda>e d. case content_of d src of
                       None \<Rightarrow> (Errored msg, d)
                     | Some x \<Rightarrow>
                         if content_of d dst = Some Directory \<or> x = Directory then (Errored msg, d)
                         else (Returned (), if e = All_done then place_node dst x (clear_place src d) else d))"

definition create_file_symlink :: "anyhow \<Rightarrow> string \<Rightarrow> place \<Rightarrow> unit io" where
  "create_file_symlink msg t q =
     call msg (\<lambda>e d. case content_of d q of
                       Some x \<Rightarrow> (Errored msg, d)
                     | None \<Rightarrow> (Returned (), if e = All_done then place_node q (Symbolic_link t) d else d))"

definition entry_name :: "private_directory \<Rightarrow> place \<Rightarrow> string option" where
  "entry_name dir q = (case q of Private_place dir' name \<Rightarrow> if dir' = dir then Some name else None | _ \<Rightarrow> None)"

text \<open>The names in a private directory. The order a directory is listed in is the file system's; here it is
  the order of creation.\<close>

definition read_dir :: "anyhow \<Rightarrow> private_directory \<Rightarrow> string list io" where
  "read_dir msg dir =
     call msg (\<lambda>e d. (Returned (List.map_filter (entry_name dir) (im_keys (dk_nodes d))), d))"

section \<open>The program logic\<close>

text \<open>What a run may meet: nothing, crashes, or crashes and failing calls.\<close>

datatype weather = Calm | Crashy | Stormy

definition may_meet :: "weather \<Rightarrow> verdict \<Rightarrow> bool" where
  "may_meet w v = (case v of Goes \<Rightarrow> True | Dies e \<Rightarrow> w \<noteq> Calm | Fails e \<Rightarrow> w = Stormy)"

text \<open>A run on a disk with the contents \<open>s\<close>: when it returns, its value and the contents satisfy \<open>T\<close>; when
  it ends with an error, \<open>E\<close>; when it dies, \<open>C\<close>. A script without faults has none afterwards.\<close>

definition fits ::
    "weather \<Rightarrow> ('a \<Rightarrow> (place \<Rightarrow> node option) \<Rightarrow> bool) \<Rightarrow> ((place \<Rightarrow> node option) \<Rightarrow> bool) \<Rightarrow>
     ((place \<Rightarrow> node option) \<Rightarrow> bool) \<Rightarrow> 'a outcome \<times> Disk \<Rightarrow> bool" where
  "fits w T E C = (\<lambda>(r, d).
     list_all (may_meet w) (dk_faults d) \<and>
     (case r of Returned x \<Rightarrow> T x (content_of d) | Errored e \<Rightarrow> E (content_of d) | Crashed \<Rightarrow> C (content_of d)))"

definition runs ::
    "weather \<Rightarrow> 'a io \<Rightarrow> ('a \<Rightarrow> (place \<Rightarrow> node option) \<Rightarrow> bool) \<Rightarrow> ((place \<Rightarrow> node option) \<Rightarrow> bool) \<Rightarrow>
     ((place \<Rightarrow> node option) \<Rightarrow> bool) \<Rightarrow> (place \<Rightarrow> node option) \<Rightarrow> bool" where
  "runs w m T E C s \<longleftrightarrow>
     (\<forall>d. content_of d = s \<and> list_all (may_meet w) (dk_faults d) \<longrightarrow> fits w T E C (m d))"

lemma runsD:
  "runs w m T E C s \<Longrightarrow> content_of d = s \<Longrightarrow> list_all (may_meet w) (dk_faults d) \<Longrightarrow> fits w T E C (m d)"
  by (simp add: runs_def)

lemma runsI:
  "(\<And>d. content_of d = s \<Longrightarrow> list_all (may_meet w) (dk_faults d) \<Longrightarrow> fits w T E C (m d)) \<Longrightarrow> runs w m T E C s"
  by (simp add: runs_def)

lemma fits_simps [simp]:
  "fits w T E C (Returned x, d) \<longleftrightarrow> list_all (may_meet w) (dk_faults d) \<and> T x (content_of d)"
  "fits w T E C (Errored e, d) \<longleftrightarrow> list_all (may_meet w) (dk_faults d) \<and> E (content_of d)"
  "fits w T E C (Crashed, d) \<longleftrightarrow> list_all (may_meet w) (dk_faults d) \<and> C (content_of d)"
  by (simp_all add: fits_def)

lemma fits_cases:
  assumes "fits w T E C y"
  obtains x d where "y = (Returned x, d)" "list_all (may_meet w) (dk_faults d)" "T x (content_of d)"
    | e d where "y = (Errored e, d)" "list_all (may_meet w) (dk_faults d)" "E (content_of d)"
    | d where "y = (Crashed, d)" "list_all (may_meet w) (dk_faults d)" "C (content_of d)"
proof (cases y)
  case (Pair r d)
  with assms that show ?thesis by (cases r) auto
qed

lemma runs_mono:
  assumes "runs w m T' E' C' s" and "\<And>x s'. T' x s' \<Longrightarrow> T x s'" and "\<And>s'. E' s' \<Longrightarrow> E s'" and "\<And>s'. C' s' \<Longrightarrow> C s'"
  shows "runs w m T E C s"
proof (rule runsI)
  fix d
  assume "content_of d = s" "list_all (may_meet w) (dk_faults d)"
  with assms(1) have "fits w T' E' C' (m d)" by (rule runsD)
  then show "fits w T E C (m d)" by (cases rule: fits_cases) (use assms(2-4) in auto)
qed

lemma runs_conj:
  assumes "runs w m T E C s" and "runs w m T' E' C' s"
  shows "runs w m (\<lambda>x s'. T x s' \<and> T' x s') (\<lambda>s'. E s' \<and> E' s') (\<lambda>s'. C s' \<and> C' s') s"
proof (rule runsI)
  fix d
  assume d: "content_of d = s" "list_all (may_meet w) (dk_faults d)"
  have "fits w T E C (m d)" "fits w T' E' C' (m d)" using assms d by (auto intro: runsD)
  then show "fits w (\<lambda>x s'. T x s' \<and> T' x s') (\<lambda>s'. E s' \<and> E' s') (\<lambda>s'. C s' \<and> C' s') (m d)"
    by (cases rule: fits_cases) auto
qed

lemma runs_return: "T x s \<Longrightarrow> runs w (io_return x) T E C s"
  by (simp add: runs_def io_return_def)

lemma runs_bail: "E s \<Longrightarrow> runs w (io_bail e) T E C s"
  by (simp add: runs_def io_bail_def)

lemma runs_bind:
  assumes "runs w m (\<lambda>x s'. runs w (k x) T E C s') E C s"
  shows "runs w (io_bind m k) T E C s"
proof (rule runsI)
  fix d
  assume "content_of d = s" "list_all (may_meet w) (dk_faults d)"
  with assms have "fits w (\<lambda>x s'. runs w (k x) T E C s') E C (m d)" by (rule runsD)
  then show "fits w T E C (io_bind m k d)"
    by (cases rule: fits_cases) (auto simp: io_bind_def intro: runsD)
qed

lemma runs_attempt:
  assumes "runs w m (\<lambda>x. T (Inr x)) (\<lambda>s'. \<forall>e. T (Inl e) s') C s"
  shows "runs w (io_attempt m) T E C s"
proof (rule runsI)
  fix d
  assume "content_of d = s" "list_all (may_meet w) (dk_faults d)"
  with assms have "fits w (\<lambda>x. T (Inr x)) (\<lambda>s'. \<forall>e. T (Inl e) s') C (m d)" by (rule runsD)
  then show "fits w T E C (io_attempt m d)"
    by (cases rule: fits_cases) (auto simp: io_attempt_def)
qed

lemma runs_when: "(b \<Longrightarrow> runs w m T E C s) \<Longrightarrow> (\<not> b \<Longrightarrow> T () s) \<Longrightarrow> runs w (io_when b m) T E C s"
  by (simp add: io_when_def runs_return)

lemma runs_for:
  assumes "\<And>x t u. x \<in> set xs \<Longrightarrow> I t u \<Longrightarrow> runs w (f x t) I E C u" and "I t s"
  shows "runs w (io_for f xs t) I E C s"
  using assms
proof (induction xs arbitrary: t s)
  case Nil
  then show ?case by (simp add: runs_return)
next
  case (Cons x xs)
  have "runs w (f x t) I E C s" using Cons.prems by simp
  then have "runs w (f x t) (\<lambda>t' s'. runs w (io_for f xs t') I E C s') E C s"
    by (rule runs_mono) (use Cons in auto)
  then show ?case by (simp add: runs_bind)
qed

lemma runs_any:
  assumes "\<And>x u. x \<in> set xs \<Longrightarrow> I u \<Longrightarrow> runs w (f x) (\<lambda>b s'. I s' \<and> (b = P x)) E C u" and "I s"
  shows "runs w (io_any f xs) (\<lambda>b s'. I s' \<and> (b = (\<exists>x \<in> set xs. P x))) E C s"
  using assms
proof (induction xs arbitrary: s)
  case Nil
  then show ?case by (simp add: runs_return)
next
  case (Cons x xs)
  have "runs w (f x) (\<lambda>b s'. I s' \<and> (b = P x)) E C s" using Cons.prems by simp
  then have "runs w (f x) (\<lambda>b s'. runs w (if b then io_return True else io_any f xs)
      (\<lambda>b s'. I s' \<and> (b = (\<exists>x \<in> set (x # xs). P x))) E C s') E C s"
  proof (rule runs_mono)
    fix b s'
    assume b: "I s' \<and> (b = P x)"
    show "runs w (if b then io_return True else io_any f xs)
        (\<lambda>b s'. I s' \<and> (b = (\<exists>x \<in> set (x # xs). P x))) E C s'"
    proof (cases "P x")
      case True
      with b show ?thesis by (simp add: runs_return)
    next
      case False
      have "runs w (io_any f xs) (\<lambda>b s'. I s' \<and> (b = (\<exists>x \<in> set xs. P x))) E C s'"
        using Cons b by simp
      with b False show ?thesis by simp
    qed
  qed auto
  then show ?case by (simp add: runs_bind)
qed

section \<open>The rules of the system calls\<close>

lemma content_place [simp]: "content_of (place_node q x d) = (content_of d)(q \<mapsto> x)"
  by (rule ext) (simp add: place_node_def imap_simps)

lemma content_clear [simp]: "content_of (clear_place q d) = (content_of d)(q := None)"
  by (rule ext) (simp add: clear_place_def imap_simps)

lemma faults_place [simp]: "dk_faults (place_node q x d) = dk_faults d" "dk_faults (clear_place q d) = dk_faults d"
  by (simp_all add: place_node_def clear_place_def)

lemma content_with_faults [simp]: "content_of (d\<lparr>dk_faults := vs\<rparr>) = content_of d"
  by simp

text \<open>A call either does its work, or leaves a contents of \<open>A\<close>.\<close>

lemma runs_call:
  assumes "\<And>d. content_of d = s \<Longrightarrow> list_all (may_meet w) (dk_faults d) \<Longrightarrow> fits w T E C (act All_done d)"
    and "\<And>d e. content_of d = s \<Longrightarrow> dk_faults (snd (act e d)) = dk_faults d \<and> content_of (snd (act e d)) \<in> A"
    and "\<And>s'. w = Stormy \<Longrightarrow> s' \<in> A \<Longrightarrow> E s'"
    and "\<And>s'. w \<noteq> Calm \<Longrightarrow> s' \<in> A \<Longrightarrow> C s'"
  shows "runs w (call msg act) T E C s"
proof (rule runsI)
  fix d
  assume d: "content_of d = s" "list_all (may_meet w) (dk_faults d)"
  show "fits w T E C (call msg act d)"
  proof (cases "dk_faults d")
    case Nil
    with assms(1) [OF d] show ?thesis by (simp add: call_def)
  next
    case (Cons v vs)
    let ?d = "d\<lparr>dk_faults := vs\<rparr>"
    have s: "content_of ?d = s" using d(1) by simp
    have v: "may_meet w v" and vs: "list_all (may_meet w) (dk_faults ?d)" using d(2) Cons by auto
    show ?thesis
    proof (cases v)
      case Goes
      with assms(1) [OF s vs] Cons show ?thesis by (simp add: call_def)
    next
      case (Fails e)
      with assms(2) [OF s, of e] assms(3) v vs Cons show ?thesis by (simp add: call_def may_meet_def)
    next
      case (Dies e)
      with assms(2) [OF s, of e] assms(4) v vs Cons show ?thesis by (simp add: call_def may_meet_def)
    qed
  qed
qed

lemma runs_probe:
  "T () s \<Longrightarrow> (w = Stormy \<Longrightarrow> E s) \<Longrightarrow> (w \<noteq> Calm \<Longrightarrow> C s) \<Longrightarrow> runs w (probe msg) T E C s"
  unfolding probe_def by (rule runs_call [where A = "{s}"]) (auto simp: io_return_def)

lemma runs_sync_directory:
  "T () s \<Longrightarrow> (w = Stormy \<Longrightarrow> E s) \<Longrightarrow> (w \<noteq> Calm \<Longrightarrow> C s) \<Longrightarrow> runs w sync_directory T E C s"
  unfolding sync_directory_def by (rule runs_probe)

lemma runs_set_permissions:
  "T () s \<Longrightarrow> (w = Stormy \<Longrightarrow> E s) \<Longrightarrow> (w \<noteq> Calm \<Longrightarrow> C s) \<Longrightarrow> runs w set_private_file_permissions T E C s"
  unfolding set_private_file_permissions_def by (rule runs_probe)

lemma runs_symlink_metadata:
  "T (s q) s \<Longrightarrow> (w = Stormy \<Longrightarrow> E s) \<Longrightarrow> (w \<noteq> Calm \<Longrightarrow> C s) \<Longrightarrow> runs w (symlink_metadata msg q) T E C s"
  unfolding symlink_metadata_def by (rule runs_call [where A = "{s}"]) auto

lemma runs_read_link:
  "(case s q of Some (Symbolic_link t) \<Rightarrow> T t s | _ \<Rightarrow> E s) \<Longrightarrow> (w = Stormy \<Longrightarrow> E s) \<Longrightarrow> (w \<noteq> Calm \<Longrightarrow> C s) \<Longrightarrow>
     runs w (read_link msg q) T E C s"
  unfolding read_link_def by (rule runs_call [where A = "{s}"]) (auto split: option.splits node.splits)

lemma runs_read_bytes:
  "(case s q of Some (Regular c) \<Rightarrow> T c s | _ \<Rightarrow> E s) \<Longrightarrow> (w = Stormy \<Longrightarrow> E s) \<Longrightarrow> (w \<noteq> Calm \<Longrightarrow> C s) \<Longrightarrow>
     runs w (read_bytes msg q) T E C s"
  unfolding read_bytes_def by (rule runs_call [where A = "{s}"]) (auto split: option.splits node.splits)

lemma runs_open_new:
  "(case s q of None \<Rightarrow> T () (s(q \<mapsto> Regular [])) | Some x \<Rightarrow> E s) \<Longrightarrow>
   (\<And>s'. w = Stormy \<Longrightarrow> s' = s \<or> s q = None \<and> s' = s(q \<mapsto> Regular []) \<Longrightarrow> E s') \<Longrightarrow>
   (\<And>s'. w \<noteq> Calm \<Longrightarrow> s' = s \<or> s q = None \<and> s' = s(q \<mapsto> Regular []) \<Longrightarrow> C s') \<Longrightarrow>
     runs w (open_new msg q) T E C s"
  unfolding open_new_def
  by (rule runs_call [where A = "{s'. s' = s \<or> s q = None \<and> s' = s(q \<mapsto> Regular [])}"]) (auto split: option.splits)

lemma runs_write_all:
  "T () (s(q \<mapsto> Regular c)) \<Longrightarrow>
   (\<And>s'. w = Stormy \<Longrightarrow> s' = s \<or> (\<exists>n. s' = s(q \<mapsto> Regular (take n c))) \<Longrightarrow> E s') \<Longrightarrow>
   (\<And>s'. w \<noteq> Calm \<Longrightarrow> s' = s \<or> (\<exists>n. s' = s(q \<mapsto> Regular (take n c))) \<Longrightarrow> C s') \<Longrightarrow>
     runs w (write_all msg q c) T E C s"
  unfolding write_all_def
proof (rule runs_call [where A = "insert s (range (\<lambda>n. s(q \<mapsto> Regular (take n c))))"], goal_cases)
  case (2 d e)
  have "s(q \<mapsto> Regular c) \<in> range (\<lambda>n. s(q \<mapsto> Regular (take n c)))"
    by (rule range_eqI [where x = "length c"]) simp
  with 2(4) show ?case by (cases e) auto
qed auto

lemma runs_atomic_write_new:
  "(case s q of None \<Rightarrow> T () (s(q \<mapsto> Regular c)) | Some x \<Rightarrow> E s) \<Longrightarrow>
   (\<And>s'. w = Stormy \<Longrightarrow> s' = s \<or> s q = None \<and> s' = s(q \<mapsto> Regular c) \<Longrightarrow> E s') \<Longrightarrow>
   (\<And>s'. w \<noteq> Calm \<Longrightarrow> s' = s \<or> s q = None \<and> s' = s(q \<mapsto> Regular c) \<Longrightarrow> C s') \<Longrightarrow>
     runs w (atomic_write_new msg q c) T E C s"
  unfolding atomic_write_new_def
  by (rule runs_call [where A = "{s'. s' = s \<or> s q = None \<and> s' = s(q \<mapsto> Regular c)}"]) (auto split: option.splits)

lemma runs_atomic_write_over:
  "(if s q = Some Directory then E s else T () (s(q \<mapsto> Regular c))) \<Longrightarrow>
   (\<And>s'. w = Stormy \<Longrightarrow> s' = s \<or> s q \<noteq> Some Directory \<and> s' = s(q \<mapsto> Regular c) \<Longrightarrow> E s') \<Longrightarrow>
   (\<And>s'. w \<noteq> Calm \<Longrightarrow> s' = s \<or> s q \<noteq> Some Directory \<and> s' = s(q \<mapsto> Regular c) \<Longrightarrow> C s') \<Longrightarrow>
     runs w (atomic_write_over msg q c) T E C s"
  unfolding atomic_write_over_def
  by (rule runs_call [where A = "{s'. s' = s \<or> s q \<noteq> Some Directory \<and> s' = s(q \<mapsto> Regular c)}"]) auto

lemma runs_remove_file:
  "(if s q = None \<or> s q = Some Directory then E s else T () (s(q := None))) \<Longrightarrow>
   (\<And>s'. w = Stormy \<Longrightarrow> s' = s \<or> s q \<noteq> Some Directory \<and> s' = s(q := None) \<Longrightarrow> E s') \<Longrightarrow>
   (\<And>s'. w \<noteq> Calm \<Longrightarrow> s' = s \<or> s q \<noteq> Some Directory \<and> s' = s(q := None) \<Longrightarrow> C s') \<Longrightarrow>
     runs w (remove_file msg q) T E C s"
  unfolding remove_file_def
  by (rule runs_call [where A = "{s'. s' = s \<or> s q \<noteq> Some Directory \<and> s' = s(q := None)}"]) auto

lemma runs_replace_atomic:
  "(case s src of None \<Rightarrow> E s
    | Some x \<Rightarrow> if s dst = Some Directory \<or> x = Directory then E s else T () (s(src := None, dst \<mapsto> x))) \<Longrightarrow>
   (\<And>s'. w = Stormy \<Longrightarrow>
      s' = s \<or> (\<exists>x. s src = Some x \<and> x \<noteq> Directory \<and> s dst \<noteq> Some Directory \<and> s' = s(src := None, dst \<mapsto> x)) \<Longrightarrow>
      E s') \<Longrightarrow>
   (\<And>s'. w \<noteq> Calm \<Longrightarrow>
      s' = s \<or> (\<exists>x. s src = Some x \<and> x \<noteq> Directory \<and> s dst \<noteq> Some Directory \<and> s' = s(src := None, dst \<mapsto> x)) \<Longrightarrow>
      C s') \<Longrightarrow>
     runs w (replace_atomic msg src dst) T E C s"
  unfolding replace_atomic_def
  by (rule runs_call [where A = "{s'. s' = s \<or>
        (\<exists>x. s src = Some x \<and> x \<noteq> Directory \<and> s dst \<noteq> Some Directory \<and> s' = s(src := None, dst \<mapsto> x))}"])
    (auto split: option.splits if_splits)

lemma runs_create_file_symlink:
  "(case s q of None \<Rightarrow> T () (s(q \<mapsto> Symbolic_link t)) | Some x \<Rightarrow> E s) \<Longrightarrow>
   (\<And>s'. w = Stormy \<Longrightarrow> s' = s \<or> s q = None \<and> s' = s(q \<mapsto> Symbolic_link t) \<Longrightarrow> E s') \<Longrightarrow>
   (\<And>s'. w \<noteq> Calm \<Longrightarrow> s' = s \<or> s q = None \<and> s' = s(q \<mapsto> Symbolic_link t) \<Longrightarrow> C s') \<Longrightarrow>
     runs w (create_file_symlink msg t q) T E C s"
  unfolding create_file_symlink_def
  by (rule runs_call [where A = "{s'. s' = s \<or> s q = None \<and> s' = s(q \<mapsto> Symbolic_link t)}"])
    (auto split: option.splits)

lemma entries_in:
  "name \<in> set (List.map_filter (entry_name dir) (im_keys m)) \<longleftrightarrow> im_get m (Private_place dir name) \<noteq> None"
proof -
  have "name \<in> set (List.map_filter (entry_name dir) ks) \<longleftrightarrow> Private_place dir name \<in> set ks" for ks
    by (induction ks)
      (auto simp: map_filter_simps entry_name_def split: place.splits option.splits if_splits)
  then show ?thesis by (metis im_get_in_keys)
qed

lemma runs_read_dir:
  "(\<And>names. (\<And>name. name \<in> set names \<longleftrightarrow> s (Private_place dir name) \<noteq> None) \<Longrightarrow> T names s) \<Longrightarrow>
   (w = Stormy \<Longrightarrow> E s) \<Longrightarrow> (w \<noteq> Calm \<Longrightarrow> C s) \<Longrightarrow> runs w (read_dir msg dir) T E C s"
  unfolding read_dir_def
proof (rule runs_call [where A = "{s}"], goal_cases)
  case (1 d)
  have "T (List.map_filter (entry_name dir) (im_keys (dk_nodes d))) s"
    by (rule 1(1)) (use 1(4) in \<open>auto simp only: entries_in\<close>)
  then show ?case using 1(4,5) by simp
qed auto

lemmas runs_calls =
  runs_probe runs_sync_directory runs_set_permissions runs_symlink_metadata runs_read_link runs_read_bytes
  runs_open_new runs_write_all runs_atomic_write_new runs_atomic_write_over runs_remove_file runs_replace_atomic
  runs_create_file_symlink runs_read_dir

lemmas runs_flow = runs_return runs_bail runs_bind runs_attempt runs_when

end
