(* ===== verification/Profile_Files.thy ===== *)
theory Profile_Files
  imports Profile_Disk "HOL-Library.List_Lexorder" "HOL-Library.Char_ord"
begin

text \<open>
  The profile file service (\<^verbatim>\<open>tauri/src/service/profile_file.rs\<close>), on Unix: every change of a managed
  profile is staged, backed up and journalled in a private area before the file itself is replaced, so
  that a later reconcile can finish or undo it; removing a profile's file is journalled the same way.

  \<^item> \<^verbatim>\<open>sha2\<close> (with its hex form) and \<^verbatim>\<open>serde_yaml\<close> on journals are parameters, the fields of \<open>FilePlatform\<close>; so is
    what can be read outside the profile directory, where a symbolic link leads.
  \<^item> \<^verbatim>\<open>nanoid\<close> is the stream of ids an allocation draws from.
  \<^item> Checking, creating and syncing parent directories is a probe (\<open>ensure_managed_parent\<close>,
    \<open>ensure_materialization_layout\<close>, the parent chain check of \<open>resolve\<close>).
  \<^item> On Unix the cleanup tombstones are never used: their two operations are \<open>Ok(())\<close> and \<open>Ok(0)\<close>.
\<close>

section \<open>Journals\<close>

record MaterializationJournal =
  mj_managed_path :: ManagedProfilePath
  mj_operation_id :: string
  mj_revision :: u64
  mj_hash :: string

record FilePlatform =
  fp_sha256_hex :: "string \<Rightarrow> string"
  fp_to_yaml :: "MaterializationJournal \<Rightarrow> string option"
  fp_from_yaml :: "string \<Rightarrow> MaterializationJournal option"
  fp_external :: "string \<Rightarrow> string option"

definition journal_locations :: "JournalLocation list" where
  "journal_locations =
     [StatePrepared, StatePromoting, StateCompensating, FilePrepared, FilePromoting, FilePromoted, FileCompensating]"

fun promoting :: "JournalLocation \<Rightarrow> JournalLocation option" where
  "promoting StatePrepared = Some StatePromoting"
| "promoting FilePrepared = Some FilePromoting"
| "promoting _ = None"

fun compensating :: "JournalLocation \<Rightarrow> JournalLocation" where
  "compensating StatePrepared = StateCompensating"
| "compensating StatePromoting = StateCompensating"
| "compensating StateCompensating = StateCompensating"
| "compensating _ = FileCompensating"

fun family :: "JournalLocation \<Rightarrow> nat" where
  "family StatePrepared = 0"
| "family StatePromoting = 0"
| "family StateCompensating = 0"
| "family _ = 1"

fun rank :: "JournalLocation \<Rightarrow> nat" where
  "rank StatePrepared = 0"
| "rank FilePrepared = 0"
| "rank StatePromoting = 1"
| "rank FilePromoting = 1"
| "rank StateCompensating = 2"
| "rank FilePromoted = 2"
| "rank FileCompensating = 3"

datatype StoredResource = StoredFile place | StoredSymlink ExternalProfilePath

section \<open>Names and paths\<close>

definition materialization_root :: string where
  "materialization_root = ''.profile-materialization-v1''"

definition absent_hash :: string where
  "absent_hash = ''b7c03610089b9f660990ee7db3290cc8d8564161b079319c9c7ba1f19dc2e190''"

definition is_materialization_root_name :: "Component \<Rightarrow> bool" where
  "is_materialization_root_name c = (c = Normal materialization_root)"

definition uses_private_storage :: "ManagedProfilePath \<Rightarrow> bool" where
  "uses_private_storage p = list_ex is_materialization_root_name (components (managed_str p))"

definition profile_place :: "ManagedProfilePath \<Rightarrow> place" where
  "profile_place p = Profile_place (components (managed_str p))"

definition resolve :: "ManagedProfilePath \<Rightarrow> place io" where
  "resolve p =
     (if uses_private_storage p then io_bail ''managed profile path uses reserved private storage''
      else io_bind (probe ''inspect profile parent'') (\<lambda>_. io_return (profile_place p)))"

definition ensure_managed_parent :: "unit io" where
  "ensure_managed_parent = probe ''ensure managed profile parent''"

definition ensure_materialization_layout :: "unit io" where
  "ensure_materialization_layout = probe ''ensure materialization layout''"

definition hash_tagged :: "FilePlatform \<Rightarrow> string \<Rightarrow> string \<Rightarrow> string" where
  "hash_tagged pf tag content = fp_sha256_hex pf (tag @ [CHR 0x00] @ content)"

definition is_ascii_alphanumeric :: "char \<Rightarrow> bool" where
  "is_ascii_alphanumeric c =
     (let x = (of_char c :: nat) in 48 \<le> x \<and> x \<le> 57 \<or> 65 \<le> x \<and> x \<le> 90 \<or> 97 \<le> x \<and> x \<le> 122)"

definition is_ascii_hexdigit :: "char \<Rightarrow> bool" where
  "is_ascii_hexdigit c =
     (let x = (of_char c :: nat) in 48 \<le> x \<and> x \<le> 57 \<or> 65 \<le> x \<and> x \<le> 70 \<or> 97 \<le> x \<and> x \<le> 102)"

definition valid_operation_id :: "string \<Rightarrow> bool" where
  "valid_operation_id op =
     (length op = 16 \<and> list_all (\<lambda>b. is_ascii_alphanumeric b \<or> b = CHR ''_'' \<or> b = CHR ''-'') op)"

definition stage_file_path :: "string \<Rightarrow> place" where
  "stage_file_path op = Private_place Staging_files op"

definition stage_link_path :: "string \<Rightarrow> place" where
  "stage_link_path op = Private_place Staging_links op"

definition restore_file_path :: "string \<Rightarrow> place" where
  "restore_file_path op = Private_place Staging_files (op @ ''.restore'')"

definition ready_link_path :: "string \<Rightarrow> place" where
  "ready_link_path op = Private_place Staging_ready_links op"

definition backup_file_path :: "string \<Rightarrow> place" where
  "backup_file_path op = Private_place Backup_files op"

definition backup_link_path :: "string \<Rightarrow> place" where
  "backup_link_path op = Private_place Backup_links op"

definition journal_path :: "JournalLocation \<Rightarrow> string \<Rightarrow> place" where
  "journal_path l op = Private_place (Journal_directory l) (op @ ''.yaml'')"

definition cleanup_path :: "CleanupPhase \<Rightarrow> string \<Rightarrow> place" where
  "cleanup_path ph op = Private_place (Cleanup_directory ph) (op @ ''.yaml'')"

definition strip_suffix :: "string \<Rightarrow> string \<Rightarrow> string option" where
  "strip_suffix suf s =
     (if length suf \<le> length s \<and> drop (length s - length suf) s = suf
      then Some (take (length s - length suf) s) else None)"

text \<open>\<^verbatim>\<open>std::str::from_utf8\<close>: how many continuation bytes the first byte asks for, with the bounds of the
  second byte.\<close>

definition utf8_width :: "nat \<Rightarrow> (nat \<times> nat \<times> nat) option" where
  "utf8_width x =
     (if x < 0x80 then Some (0, 0, 0)
      else if 0xC2 \<le> x \<and> x \<le> 0xDF then Some (1, 0x80, 0xBF)
      else if x = 0xE0 then Some (2, 0xA0, 0xBF)
      else if x = 0xED then Some (2, 0x80, 0x9F)
      else if 0xE1 \<le> x \<and> x \<le> 0xEF then Some (2, 0x80, 0xBF)
      else if x = 0xF0 then Some (3, 0x90, 0xBF)
      else if 0xF1 \<le> x \<and> x \<le> 0xF3 then Some (3, 0x80, 0xBF)
      else if x = 0xF4 then Some (3, 0x80, 0x8F)
      else None)"

definition continuation_bytes :: "nat \<Rightarrow> nat \<Rightarrow> nat \<Rightarrow> string \<Rightarrow> bool" where
  "continuation_bytes n lo hi bs =
     (length bs = n \<and>
      (case bs of [] \<Rightarrow> True
       | b # r \<Rightarrow> lo \<le> of_char b \<and> of_char b \<le> hi \<and> list_all (\<lambda>c. 0x80 \<le> (of_char c :: nat) \<and> of_char c \<le> (0xBF :: nat)) r))"

fun from_utf8 :: "string \<Rightarrow> bool" where
  "from_utf8 [] = True"
| "from_utf8 (b # bs) =
     (case utf8_width (of_char b) of
        None \<Rightarrow> False
      | Some (n, lo, hi) \<Rightarrow> continuation_bytes n lo hi (take n bs) \<and> from_utf8 (drop n bs))"

definition read_to_string :: "anyhow \<Rightarrow> place \<Rightarrow> string io" where
  "read_to_string msg q = io_bind (read_bytes msg q) (\<lambda>c. if from_utf8 c then io_return c else io_bail msg)"

section \<open>Files of the private area\<close>

definition write_private_file_new :: "place \<Rightarrow> string \<Rightarrow> unit io" where
  "write_private_file_new q content =
     io_bind (open_new ''create private file'' q) (\<lambda>_.
     io_bind (write_all ''write private file'' q content) (\<lambda>_.
     io_bind (probe ''sync private file'') (\<lambda>_.
     io_bind set_private_file_permissions (\<lambda>_.
     sync_directory))))"

definition write_journal_new :: "FilePlatform \<Rightarrow> place \<Rightarrow> MaterializationJournal \<Rightarrow> unit io" where
  "write_journal_new pf q journal =
     (case fp_to_yaml pf journal of
        None \<Rightarrow> io_bail ''serialize materialization journal''
      | Some content \<Rightarrow>
          io_bind (atomic_write_new ''write materialization journal'' q content) (\<lambda>_.
          io_bind set_private_file_permissions (\<lambda>_.
          sync_directory)))"

definition check_journal :: "string \<Rightarrow> MaterializationJournal \<Rightarrow> anyhow option" where
  "check_journal op journal =
     (if mj_operation_id journal \<noteq> op \<or> \<not> valid_operation_id (mj_operation_id journal)
      then Some ''materialization journal operation id mismatch''
      else if uses_private_storage (mj_managed_path journal)
      then Some ''materialization journal targets reserved private storage''
      else if length (mj_hash journal) \<noteq> 64 \<or> \<not> list_all is_ascii_hexdigit (mj_hash journal)
      then Some ''materialization journal hash is invalid''
      else None)"

definition read_journal :: "FilePlatform \<Rightarrow> place \<Rightarrow> string \<Rightarrow> MaterializationJournal io" where
  "read_journal pf q op =
     io_bind (symlink_metadata ''inspect materialization journal'' q) (\<lambda>metadata.
     if metadata = None then io_bail ''inspect materialization journal''
     else if \<not> is_regular (the metadata) then io_bail ''materialization journal is not a regular file''
     else
       io_bind (read_to_string ''read materialization journal'' q) (\<lambda>content.
       case fp_from_yaml pf content of
         None \<Rightarrow> io_bail ''parse materialization journal''
       | Some journal \<Rightarrow>
           (case check_journal op journal of Some e \<Rightarrow> io_bail e | None \<Rightarrow> io_return journal)))"

definition remove_nofollow :: "place \<Rightarrow> unit io" where
  "remove_nofollow q =
     io_bind (symlink_metadata ''inspect profile resource'' q) (\<lambda>metadata.
     case metadata of
       Some Directory \<Rightarrow> io_bail ''refusing to remove directory as a profile resource''
     | Some x \<Rightarrow> io_bind (remove_file ''remove profile resource'' q) (\<lambda>_. sync_directory)
     | None \<Rightarrow> io_return ())"

definition remove_private_regular :: "place \<Rightarrow> unit io" where
  "remove_private_regular q =
     io_bind (symlink_metadata ''inspect private artifact'' q) (\<lambda>metadata.
     case metadata of
       None \<Rightarrow> io_return ()
     | Some x \<Rightarrow>
         if \<not> is_regular x then io_bail ''private materialization artifact is not a regular file''
         else io_bind (remove_file ''remove private artifact'' q) (\<lambda>_. sync_directory))"

section \<open>Hashes\<close>

fun resource_hash :: "FilePlatform \<Rightarrow> MaterializationResource \<Rightarrow> string" where
  "resource_hash pf (FileResource content) = hash_tagged pf ''file'' content"
| "resource_hash pf (SymlinkResource target) = hash_tagged pf ''symlink'' (external_str target)"

definition path_hash :: "FilePlatform \<Rightarrow> place \<Rightarrow> string io" where
  "path_hash pf q =
     io_bind (symlink_metadata ''inspect'' q) (\<lambda>metadata.
     case metadata of
       Some (Symbolic_link _) \<Rightarrow>
         io_bind (read_link ''read managed symlink'' q) (\<lambda>target.
         if from_utf8 target then io_return (hash_tagged pf ''symlink'' target)
         else io_bail ''managed symlink target is not valid UTF-8'')
     | Some (Regular _) \<Rightarrow>
         io_bind (read_bytes ''read managed profile'' q) (\<lambda>content. io_return (hash_tagged pf ''file'' content))
     | Some Directory \<Rightarrow> io_bail ''managed target is not a file''
     | None \<Rightarrow> io_return absent_hash)"

definition ensure_replaceable_target :: "place \<Rightarrow> unit io" where
  "ensure_replaceable_target q =
     io_bind (symlink_metadata ''inspect'' q) (\<lambda>metadata.
     if metadata = Some Directory then io_bail ''managed target is not replaceable'' else io_return ())"

section \<open>Staging and backup\<close>

fun stage_resource :: "string \<Rightarrow> MaterializationResource \<Rightarrow> unit io" where
  "stage_resource op (FileResource content) = write_private_file_new (stage_file_path op) content"
| "stage_resource op (SymlinkResource target) = write_private_file_new (stage_link_path op) (external_str target)"

text \<open>\<^verbatim>\<open>ExternalProfilePath::new(target)?\<close>\<close>

definition external_path :: "string \<Rightarrow> ExternalProfilePath io" where
  "external_path target =
     (case external_new target of Inl e \<Rightarrow> io_bail ''external profile path must be absolute''
      | Inr p \<Rightarrow> io_return p)"

definition read_staged_resource :: "FilePlatform \<Rightarrow> string \<Rightarrow> string \<Rightarrow> StoredResource option io" where
  "read_staged_resource pf op expected_hash =
     io_bind (symlink_metadata ''inspect staged file'' (stage_file_path op)) (\<lambda>file_metadata.
     io_bind (symlink_metadata ''inspect staged symlink specification'' (stage_link_path op)) (\<lambda>link_metadata.
     case (file_metadata, link_metadata) of
       (Some _, Some _) \<Rightarrow> io_bail ''materialization has multiple staged resources''
     | (Some x, None) \<Rightarrow>
         if \<not> is_regular x then io_bail ''staged file is not a regular file''
         else
           io_bind (read_bytes ''read staged file'' (stage_file_path op)) (\<lambda>content.
           if hash_tagged pf ''file'' content \<noteq> expected_hash then io_bail ''staged file hash mismatch''
           else io_return (Some (StoredFile (stage_file_path op))))
     | (None, Some x) \<Rightarrow>
         if \<not> is_regular x then io_bail ''staged symlink specification is not a regular file''
         else
           io_bind (read_to_string ''read staged symlink'' (stage_link_path op)) (\<lambda>target.
           if hash_tagged pf ''symlink'' target \<noteq> expected_hash then io_bail ''staged symlink hash mismatch''
           else io_bind (external_path target) (\<lambda>p. io_return (Some (StoredSymlink p))))
     | (None, None) \<Rightarrow> io_return None))"

definition capture_backup :: "string \<Rightarrow> place \<Rightarrow> unit io" where
  "capture_backup op target =
     io_bind (symlink_metadata ''inspect'' target) (\<lambda>metadata.
     case metadata of
       Some (Symbolic_link _) \<Rightarrow>
         io_bind (read_link ''read managed symlink'' target) (\<lambda>link_target.
         if from_utf8 link_target then write_private_file_new (backup_link_path op) link_target
         else io_bail ''managed symlink target is not valid UTF-8'')
     | Some (Regular _) \<Rightarrow>
         io_bind (read_bytes ''read managed profile'' target) (\<lambda>content.
         write_private_file_new (backup_file_path op) content)
     | Some Directory \<Rightarrow> io_bail ''managed target is not a file''
     | None \<Rightarrow> io_return ())"

definition read_backup_resource :: "string \<Rightarrow> StoredResource option io" where
  "read_backup_resource op =
     io_bind (symlink_metadata ''inspect backup file'' (backup_file_path op)) (\<lambda>file_metadata.
     io_bind (symlink_metadata ''inspect backup link'' (backup_link_path op)) (\<lambda>link_metadata.
     case (file_metadata, link_metadata) of
       (Some _, Some _) \<Rightarrow> io_bail ''materialization has multiple backups''
     | (Some x, None) \<Rightarrow>
         if \<not> is_regular x then io_bail ''backup file is not a regular file''
         else io_return (Some (StoredFile (backup_file_path op)))
     | (None, Some x) \<Rightarrow>
         if \<not> is_regular x then io_bail ''backup symlink specification is not a regular file''
         else
           io_bind (read_to_string ''read backup symlink'' (backup_link_path op)) (\<lambda>target.
           io_bind (external_path target) (\<lambda>p. io_return (Some (StoredSymlink p))))
     | (None, None) \<Rightarrow> io_return None))"

definition create_ready_link :: "string \<Rightarrow> ExternalProfilePath \<Rightarrow> place io" where
  "create_ready_link op target =
     io_bind (symlink_metadata ''inspect ready symlink'' (ready_link_path op)) (\<lambda>metadata.
     case metadata of
       Some (Symbolic_link _) \<Rightarrow>
         io_bind (read_link ''read ready symlink'' (ready_link_path op)) (\<lambda>existing.
         if existing \<noteq> external_str target then io_bail ''ready symlink target mismatch''
         else io_return (ready_link_path op))
     | Some _ \<Rightarrow> io_bail ''ready symlink path is occupied by an unexpected node''
     | None \<Rightarrow>
         io_bind (create_file_symlink ''create staged symlink'' (external_str target) (ready_link_path op)) (\<lambda>_.
         io_bind sync_directory (\<lambda>_.
         io_return (ready_link_path op))))"

section \<open>Promotion and restoration\<close>

definition promote_resource :: "FilePlatform \<Rightarrow> string \<Rightarrow> place \<Rightarrow> string \<Rightarrow> unit io" where
  "promote_resource pf op target expected_hash =
     io_bind ensure_managed_parent (\<lambda>_.
     io_bind (ensure_replaceable_target target) (\<lambda>_.
     io_bind (read_staged_resource pf op expected_hash) (\<lambda>staged.
     case staged of
       None \<Rightarrow>
         io_bind (path_hash pf target) (\<lambda>h.
         if h = expected_hash then io_return ()
         else io_bail ''staged resource is missing and target hash does not match'')
     | Some resource \<Rightarrow>
         io_bind
           (case resource of
              StoredFile path \<Rightarrow>
                io_bind ensure_managed_parent (\<lambda>_.
                io_bind (ensure_replaceable_target target) (\<lambda>_.
                replace_atomic ''promote staged file'' path target))
            | StoredSymlink link_target \<Rightarrow>
                io_bind (create_ready_link op link_target) (\<lambda>ready.
                io_bind ensure_managed_parent (\<lambda>_.
                io_bind (ensure_replaceable_target target) (\<lambda>_.
                replace_atomic ''promote staged symlink'' ready target)))) (\<lambda>_.
         io_bind (path_hash pf target) (\<lambda>h.
         if h \<noteq> expected_hash then io_bail ''promoted target hash mismatch'' else io_return ())))))"

definition backup_hash :: "FilePlatform \<Rightarrow> string \<Rightarrow> string io" where
  "backup_hash pf op =
     io_bind (read_backup_resource op) (\<lambda>backup.
     case backup of
       Some (StoredFile path) \<Rightarrow>
         io_bind (read_bytes ''read backup file'' path) (\<lambda>content. io_return (hash_tagged pf ''file'' content))
     | Some (StoredSymlink target) \<Rightarrow> io_return (hash_tagged pf ''symlink'' (external_str target))
     | None \<Rightarrow> io_return absent_hash)"

definition target_is_pre_promote :: "FilePlatform \<Rightarrow> string \<Rightarrow> place \<Rightarrow> bool io" where
  "target_is_pre_promote pf op target =
     io_bind (path_hash pf target) (\<lambda>h.
     io_bind (backup_hash pf op) (\<lambda>b.
     io_return (h = b)))"

definition restore_backup :: "FilePlatform \<Rightarrow> string \<Rightarrow> place \<Rightarrow> string \<Rightarrow> bool io" where
  "restore_backup pf op target promoted_hash =
     io_bind (path_hash pf target) (\<lambda>current_hash.
     io_bind (backup_hash pf op) (\<lambda>b.
     if current_hash = b then io_return True
     else if current_hash \<noteq> promoted_hash then io_return False
     else
       io_bind ensure_managed_parent (\<lambda>_.
       io_bind (ensure_replaceable_target target) (\<lambda>_.
       io_bind (read_backup_resource op) (\<lambda>backup.
       io_bind
         (case backup of
            Some (StoredFile path) \<Rightarrow>
              io_bind (read_bytes ''read backup file'' path) (\<lambda>content.
              io_bind (remove_private_regular (restore_file_path op)) (\<lambda>_.
              io_bind (write_private_file_new (restore_file_path op) content) (\<lambda>_.
              io_bind ensure_managed_parent (\<lambda>_.
              io_bind (ensure_replaceable_target target) (\<lambda>_.
              replace_atomic ''restore backup'' (restore_file_path op) target)))))
          | Some (StoredSymlink link_target) \<Rightarrow>
              io_bind (create_ready_link op link_target) (\<lambda>ready.
              io_bind ensure_managed_parent (\<lambda>_.
              io_bind (ensure_replaceable_target target) (\<lambda>_.
              replace_atomic ''restore backup symlink'' ready target)))
          | None \<Rightarrow> if current_hash = promoted_hash then remove_nofollow target else io_return ()) (\<lambda>_.
       io_return True))))))"

section \<open>Removing what an operation left\<close>

fun io_each :: "('a \<Rightarrow> unit io) \<Rightarrow> 'a list \<Rightarrow> unit io" where
  "io_each f [] = io_return ()"
| "io_each f (x # xs) = io_bind (f x) (\<lambda>_. io_each f xs)"

definition remove_private_artifacts :: "string \<Rightarrow> unit io" where
  "remove_private_artifacts op =
     io_bind
       (io_each remove_private_regular
         [stage_file_path op, restore_file_path op, stage_link_path op, backup_file_path op, backup_link_path op])
       (\<lambda>_. remove_nofollow (ready_link_path op))"

definition remove_operation_artifacts :: "string \<Rightarrow> place \<Rightarrow> unit io" where
  "remove_operation_artifacts op journal =
     io_bind (remove_private_regular journal) (\<lambda>_. remove_private_artifacts op)"

text \<open>\<^verbatim>\<open>symlink_metadata(path).is_ok()\<close>: a failing call counts as a missing file.\<close>

definition metadata_is_ok :: "place \<Rightarrow> bool io" where
  "metadata_is_ok q =
     io_bind (io_attempt (symlink_metadata ''inspect'' q)) (\<lambda>r.
     io_return (case r of Inr (Some x) \<Rightarrow> True | _ \<Rightarrow> False))"

definition operation_id_in_use :: "string \<Rightarrow> bool io" where
  "operation_id_in_use op =
     io_bind
       (io_any metadata_is_ok
         [stage_file_path op, stage_link_path op, ready_link_path op, backup_file_path op, backup_link_path op,
          cleanup_path CleanupPending op, cleanup_path CleanupReady op])
       (\<lambda>used. if used then io_return True
               else io_any (\<lambda>l. metadata_is_ok (journal_path l op)) journal_locations)"

fun allocate_from :: "string list \<Rightarrow> string io" where
  "allocate_from [] = io_bail ''failed to allocate a unique profile materialization operation id''"
| "allocate_from (op # ops) =
     io_bind (operation_id_in_use op) (\<lambda>used. if used then allocate_from ops else io_return op)"

definition allocate_operation_id :: "(nat \<Rightarrow> string) \<Rightarrow> string io" where
  "allocate_operation_id draws = allocate_from (map draws [0..<16])"

section \<open>Preparing\<close>

definition prepare_materialization ::
    "FilePlatform \<Rightarrow> (nat \<Rightarrow> string) \<Rightarrow> ManagedProfilePath \<Rightarrow> MaterializationResource \<Rightarrow> u64 \<Rightarrow> JournalLocation \<Rightarrow>
     PreparedMaterialization io" where
  "prepare_materialization pf draws path resource expected_revision location =
     io_bind ensure_materialization_layout (\<lambda>_.
     io_bind (resolve path) (\<lambda>target.
     io_bind ensure_managed_parent (\<lambda>_.
     io_bind (ensure_replaceable_target target) (\<lambda>_.
     io_bind (allocate_operation_id draws) (\<lambda>op.
     io_bind
       (io_attempt
         (io_bind (stage_resource op resource) (\<lambda>_.
          io_bind (capture_backup op target) (\<lambda>_.
          write_journal_new pf (journal_path location op)
            \<lparr>mj_managed_path = path, mj_operation_id = op, mj_revision = expected_revision,
             mj_hash = resource_hash pf resource\<rparr>)))) (\<lambda>result.
     case result of
       Inl error \<Rightarrow>
         io_bind (io_attempt (remove_private_regular (stage_file_path op))) (\<lambda>_.
         io_bind (io_attempt (remove_private_regular (stage_link_path op))) (\<lambda>_.
         io_bind (io_attempt (remove_private_regular (backup_file_path op))) (\<lambda>_.
         io_bind (io_attempt (remove_private_regular (backup_link_path op))) (\<lambda>_.
         io_bail error))))
     | Inr u \<Rightarrow> io_return (PreparedMaterialization op)))))))"

definition prepare_state_first ::
    "FilePlatform \<Rightarrow> (nat \<Rightarrow> string) \<Rightarrow> ManagedProfilePath \<Rightarrow> MaterializationResource \<Rightarrow> u64 \<Rightarrow>
     PreparedMaterialization io" where
  "prepare_state_first pf draws path resource expected_revision =
     prepare_materialization pf draws path resource expected_revision StatePrepared"

definition prepare_file_first ::
    "FilePlatform \<Rightarrow> (nat \<Rightarrow> string) \<Rightarrow> ManagedProfilePath \<Rightarrow> MaterializationResource \<Rightarrow> u64 \<Rightarrow>
     PreparedMaterialization io" where
  "prepare_file_first pf draws path resource expected_revision =
     prepare_materialization pf draws path resource expected_revision FilePrepared"

section \<open>Locating and moving journals\<close>

type_synonym found_journal = "JournalLocation \<times> MaterializationJournal \<times> place"

text \<open>The journal of the latest phase wins; equal ones of earlier phases are removed. \<^verbatim>\<open>sort_by_key\<close> is stable.\<close>

definition converge_materialization_journals ::
    "found_journal list \<Rightarrow> (JournalLocation \<times> MaterializationJournal) option io" where
  "converge_materialization_journals found =
     (case found of
        [] \<Rightarrow> io_return None
      | first # _ \<Rightarrow>
          if list_ex (\<lambda>(l, j, q). family l \<noteq> family (fst first)) found
          then io_bail ''materialization operation has mixed transaction families''
          else
            (let sorted = sort_key (\<lambda>(l, j, q). rank l) found;
                 (location, journal, _) = last sorted
             in io_bind
                  (io_each (\<lambda>(l, duplicate, q).
                     if duplicate \<noteq> journal then io_bail ''materialization operation has conflicting journal payloads''
                     else remove_private_regular q) (butlast sorted))
                  (\<lambda>_. io_return (Some (location, journal)))))"

definition find_journal ::
    "FilePlatform \<Rightarrow> string \<Rightarrow> JournalLocation \<Rightarrow> found_journal list \<Rightarrow> found_journal list io" where
  "find_journal pf op location found =
     io_bind (symlink_metadata ''inspect journal'' (journal_path location op)) (\<lambda>metadata.
     case metadata of
       Some x \<Rightarrow>
         if \<not> is_regular x then io_bail ''materialization journal is not a regular file''
         else
           io_bind (read_journal pf (journal_path location op) op) (\<lambda>journal.
           io_return (found @ [(location, journal, journal_path location op)]))
     | None \<Rightarrow> io_return found)"

definition locate_materialization ::
    "FilePlatform \<Rightarrow> string \<Rightarrow> (JournalLocation \<times> MaterializationJournal) option io" where
  "locate_materialization pf op =
     (if \<not> valid_operation_id op then io_bail ''invalid profile materialization operation id''
      else io_bind (io_for (find_journal pf op) journal_locations []) converge_materialization_journals)"

definition rename_journal_same_filesystem :: "place \<Rightarrow> place \<Rightarrow> unit io" where
  "rename_journal_same_filesystem source destination =
     io_bind (symlink_metadata ''inspect journal source'' source) (\<lambda>metadata.
     if metadata = None then io_bail ''inspect journal source''
     else if \<not> is_regular (the metadata) then io_bail ''journal source is not a regular file''
     else
       io_bind (replace_atomic ''atomically rename journal'' source destination) (\<lambda>_.
       io_bind sync_directory (\<lambda>_.
       sync_directory)))"

definition transition_private_journal ::
    "FilePlatform \<Rightarrow> string \<Rightarrow> place \<Rightarrow> place \<Rightarrow> unit io" where
  "transition_private_journal pf op source destination =
     io_bind (read_journal pf source op) (\<lambda>source_journal.
     io_bind (symlink_metadata ''inspect journal destination'' destination) (\<lambda>metadata.
     case metadata of
       None \<Rightarrow> rename_journal_same_filesystem source destination
     | Some x \<Rightarrow>
         if \<not> is_regular x then io_bail ''journal destination is not a regular file''
         else
           io_bind (read_journal pf destination op) (\<lambda>existing.
           if existing \<noteq> source_journal then io_bail ''journal destination has a different payload''
           else remove_private_regular source)))"

definition transition_journal :: "FilePlatform \<Rightarrow> string \<Rightarrow> JournalLocation \<Rightarrow> JournalLocation \<Rightarrow> unit io" where
  "transition_journal pf op l l' = transition_private_journal pf op (journal_path l op) (journal_path l' op)"

definition transition_cleanup_journal :: "FilePlatform \<Rightarrow> string \<Rightarrow> CleanupPhase \<Rightarrow> CleanupPhase \<Rightarrow> unit io" where
  "transition_cleanup_journal pf op ph ph' =
     transition_private_journal pf op (cleanup_path ph op) (cleanup_path ph' op)"

definition discard_materialization :: "string \<Rightarrow> JournalLocation \<Rightarrow> unit io" where
  "discard_materialization op location = remove_operation_artifacts op (journal_path location op)"

section \<open>Listing and sweeping\<close>

text \<open>One entry of a journal directory; entries that cannot be inspected are passed over.\<close>

definition list_entry :: "private_directory \<Rightarrow> string \<Rightarrow> string list \<Rightarrow> string list io" where
  "list_entry dir name ids =
     io_bind (io_attempt (symlink_metadata ''inspect entry'' (Private_place dir name))) (\<lambda>metadata.
     io_return
       (case metadata of
          Inr (Some (Regular _)) \<Rightarrow>
            (case strip_suffix ''.yaml'' name of
               Some op \<Rightarrow> if valid_operation_id op then ids @ [op] else ids
             | None \<Rightarrow> ids)
        | _ \<Rightarrow> ids))"

definition list_operation_ids :: "private_directory \<Rightarrow> string list io" where
  "list_operation_ids dir =
     io_bind (read_dir ''list private journal directory'' dir) (\<lambda>names.
     io_bind (io_for (list_entry dir) names []) (\<lambda>ids. io_return (sort ids)))"

definition active_managed_paths :: "Profiles \<Rightarrow> ManagedProfilePath list" where
  "active_managed_paths profiles =
     List.map_filter (\<lambda>(u, it). map_option (\<lambda>src. mf_file (materialized src)) (definition_source (it_definition it)))
       (pr_items profiles)"

definition has_materialization_journal :: "string \<Rightarrow> bool io" where
  "has_materialization_journal op = io_any (\<lambda>l. metadata_is_ok (journal_path l op)) journal_locations"

definition sweep_entry :: "private_directory \<Rightarrow> bool \<Rightarrow> string \<Rightarrow> nat \<Rightarrow> nat io" where
  "sweep_entry dir permits_symlink name removed =
     io_bind (io_attempt (symlink_metadata ''inspect entry'' (Private_place dir name))) (\<lambda>metadata.
     case metadata of
       Inr (Some x) \<Rightarrow>
         let is_ready_link = (permits_symlink \<and> is_link x)
         in if \<not> is_ready_link \<and> \<not> is_regular x then io_return removed
            else
              (let op = (case strip_suffix ''.restore'' name of Some s \<Rightarrow> s | None \<Rightarrow> name)
               in if \<not> valid_operation_id op then io_return removed
                  else
                    io_bind (has_materialization_journal op) (\<lambda>live.
                    if live then io_return removed
                    else io_bind (remove_private_artifacts op) (\<lambda>_. io_return (removed + 1))))
     | _ \<Rightarrow> io_return removed)"

definition swept_directories :: "(private_directory \<times> bool) list" where
  "swept_directories =
     [(Staging_files, False), (Staging_links, False), (Staging_ready_links, True), (Backup_files, False),
      (Backup_links, False)]"

definition sweep_unreferenced_artifacts :: "nat io" where
  "sweep_unreferenced_artifacts =
     io_for (\<lambda>(dir, permits_symlink) removed.
       io_bind (read_dir ''list private directory'' dir) (\<lambda>names.
       io_for (sweep_entry dir permits_symlink) names removed)) swept_directories 0"

section \<open>Cleanup journals\<close>

definition find_cleanup :: "FilePlatform \<Rightarrow> string \<Rightarrow> CleanupPhase \<Rightarrow> MaterializationJournal option io" where
  "find_cleanup pf op ph =
     io_bind (symlink_metadata ''inspect cleanup journal'' (cleanup_path ph op)) (\<lambda>metadata.
     case metadata of
       Some x \<Rightarrow>
         if is_regular x then io_bind (read_journal pf (cleanup_path ph op) op) (\<lambda>j. io_return (Some j))
         else io_bail ''cleanup journal is not a regular file''
     | None \<Rightarrow> io_return None)"

definition locate_cleanup :: "FilePlatform \<Rightarrow> string \<Rightarrow> (CleanupPhase \<times> MaterializationJournal) option io" where
  "locate_cleanup pf op =
     (if \<not> valid_operation_id op then io_bail ''invalid profile cleanup operation id''
      else
        io_bind (find_cleanup pf op CleanupPending) (\<lambda>pending.
        io_bind (find_cleanup pf op CleanupReady) (\<lambda>ready.
        case (pending, ready) of
          (None, None) \<Rightarrow> io_return None
        | (Some journal, None) \<Rightarrow> io_return (Some (CleanupPending, journal))
        | (None, Some journal) \<Rightarrow> io_return (Some (CleanupReady, journal))
        | (Some p, Some r) \<Rightarrow>
            if p = r
            then io_bind (remove_private_regular (cleanup_path CleanupPending op)) (\<lambda>_.
                 io_return (Some (CleanupReady, r)))
            else io_bail ''cleanup journals have conflicting payloads'')))"

definition remove_cleanup_journal :: "string \<Rightarrow> unit io" where
  "remove_cleanup_journal op =
     io_bind (remove_private_regular (cleanup_path CleanupPending op)) (\<lambda>_.
     remove_private_regular (cleanup_path CleanupReady op))"

definition remove_cleanup_target :: "place \<Rightarrow> unit io" where
  "remove_cleanup_target target = remove_nofollow target"

section \<open>The file port\<close>

definition read_following :: "FilePlatform \<Rightarrow> anyhow \<Rightarrow> place \<Rightarrow> string io" where
  "read_following pf msg q =
     io_bind
       (call msg (\<lambda>e d. (case content_of d q of
                            Some (Regular c) \<Rightarrow> Returned c
                          | Some (Symbolic_link t) \<Rightarrow>
                              (case fp_external pf t of Some c \<Rightarrow> Returned c | None \<Rightarrow> Errored msg)
                          | _ \<Rightarrow> Errored msg, d)))
       (\<lambda>c. if from_utf8 c then io_return c else io_bail msg)"

definition fs_read :: "FilePlatform \<Rightarrow> ManagedProfilePath \<Rightarrow> string io" where
  "fs_read pf path = io_bind (resolve path) (read_following pf ''read profile file'')"

definition fs_ensure_not_symlink :: "ManagedProfilePath \<Rightarrow> unit io" where
  "fs_ensure_not_symlink path =
     io_bind (resolve path) (\<lambda>full.
     io_bind (symlink_metadata ''inspect profile file'' full) (\<lambda>metadata.
     case metadata of
       Some (Symbolic_link _) \<Rightarrow> io_bail ''refusing to write through unexpected symlink or reparse point''
     | _ \<Rightarrow> io_return ()))"

definition fs_write_atomic :: "ManagedProfilePath \<Rightarrow> string \<Rightarrow> unit io" where
  "fs_write_atomic path content =
     io_bind (resolve path) (\<lambda>full.
     io_bind ensure_managed_parent (\<lambda>_.
     io_bind (fs_ensure_not_symlink path) (\<lambda>_.
     atomic_write_over ''atomic write'' full content)))"

definition fs_remove :: "ManagedProfilePath \<Rightarrow> unit io" where
  "fs_remove path = io_bind (resolve path) remove_nofollow"

section \<open>The materialization port\<close>

definition promote :: "FilePlatform \<Rightarrow> PreparedMaterialization \<Rightarrow> unit io" where
  "promote pf prepared =
     io_bind ensure_materialization_layout (\<lambda>_.
     let op = materialization_id prepared
     in io_bind (locate_materialization pf op) (\<lambda>found.
        case found of
          None \<Rightarrow> io_bail ''materialization journal not found''
        | Some (start, journal) \<Rightarrow>
            io_bind
              (case promoting start of
                 Some l \<Rightarrow> io_bind (transition_journal pf op start l) (\<lambda>_. io_return l)
               | None \<Rightarrow> io_return start) (\<lambda>location.
            if location = StateCompensating \<or> location = FileCompensating
            then io_bail ''cannot promote a compensating materialization''
            else
              io_bind (resolve (mj_managed_path journal)) (\<lambda>target.
              io_bind (path_hash pf target) (\<lambda>h.
              io_bind (io_when (h \<noteq> mj_hash journal) (promote_resource pf op target (mj_hash journal))) (\<lambda>_.
              io_when (location = FilePromoting) (transition_journal pf op FilePromoting FilePromoted)))))))"

definition complete :: "FilePlatform \<Rightarrow> PreparedMaterialization \<Rightarrow> unit io" where
  "complete pf prepared =
     io_bind ensure_materialization_layout (\<lambda>_.
     let op = materialization_id prepared
     in io_bind (locate_materialization pf op) (\<lambda>found.
        case found of
          None \<Rightarrow> io_return ()
        | Some (start, journal) \<Rightarrow>
            io_bind (resolve (mj_managed_path journal)) (\<lambda>target.
            io_bind (path_hash pf target) (\<lambda>h.
            if h \<noteq> mj_hash journal then io_bail ''cannot complete materialization with a target hash mismatch''
            else
              io_bind
                (if start = FilePromoting
                 then io_bind (transition_journal pf op FilePromoting FilePromoted) (\<lambda>_. io_return FilePromoted)
                 else io_return start) (\<lambda>location.
              if location \<noteq> StatePromoting \<and> location \<noteq> FilePromoted
              then io_bail ''materialization is not in a completable phase''
              else remove_operation_artifacts op (journal_path location op))))))"

definition compensate :: "FilePlatform \<Rightarrow> PreparedMaterialization \<Rightarrow> unit io" where
  "compensate pf prepared =
     io_bind ensure_materialization_layout (\<lambda>_.
     let op = materialization_id prepared
     in io_bind (locate_materialization pf op) (\<lambda>found.
        case found of
          None \<Rightarrow> io_return ()
        | Some (start, journal) \<Rightarrow>
            io_bind (io_when (start \<noteq> compensating start) (transition_journal pf op start (compensating start))) (\<lambda>_.
            io_bind (resolve (mj_managed_path journal)) (\<lambda>target.
            io_bind (restore_backup pf op target (mj_hash journal)) (\<lambda>restored.
            if \<not> restored then io_bail ''compensation fenced by diverged target''
            else remove_operation_artifacts op (journal_path (compensating start) op))))))"

definition prepare_cleanup ::
    "FilePlatform \<Rightarrow> (nat \<Rightarrow> string) \<Rightarrow> ManagedProfilePath \<Rightarrow> u64 \<Rightarrow> PreparedCleanup io" where
  "prepare_cleanup pf draws path expected_revision =
     io_bind ensure_materialization_layout (\<lambda>_.
     io_bind (resolve path) (\<lambda>target.
     io_bind (allocate_operation_id draws) (\<lambda>op.
     io_bind (path_hash pf target) (\<lambda>h.
     io_bind
       (write_journal_new pf (cleanup_path CleanupPending op)
         \<lparr>mj_managed_path = path, mj_operation_id = op, mj_revision = expected_revision, mj_hash = h\<rparr>) (\<lambda>_.
     io_return (PreparedCleanup op))))))"

definition activate_cleanup :: "FilePlatform \<Rightarrow> PreparedCleanup \<Rightarrow> unit io" where
  "activate_cleanup pf cleanup =
     io_bind ensure_materialization_layout (\<lambda>_.
     let op = cleanup_id cleanup
     in io_bind (locate_cleanup pf op) (\<lambda>found.
        case found of
          Some (CleanupPending, journal) \<Rightarrow> transition_cleanup_journal pf op CleanupPending CleanupReady
        | _ \<Rightarrow> io_return ()))"

definition cancel_cleanup :: "FilePlatform \<Rightarrow> PreparedCleanup \<Rightarrow> unit io" where
  "cancel_cleanup pf cleanup =
     io_bind ensure_materialization_layout (\<lambda>_.
     let op = cleanup_id cleanup
     in io_bind (locate_cleanup pf op) (\<lambda>found.
        case found of
          None \<Rightarrow> io_return ()
        | Some (CleanupPending, journal) \<Rightarrow> remove_private_regular (cleanup_path CleanupPending op)
        | Some (CleanupReady, journal) \<Rightarrow> io_bail ''cannot cancel an activated cleanup operation''))"

definition retry_cleanup :: "FilePlatform \<Rightarrow> PreparedCleanup \<Rightarrow> Profiles \<Rightarrow> CleanupOutcome io" where
  "retry_cleanup pf cleanup profiles =
     io_bind ensure_materialization_layout (\<lambda>_.
     let op = cleanup_id cleanup
     in io_bind (locate_cleanup pf op) (\<lambda>found.
        case found of
          None \<Rightarrow> io_return AlreadyAbsent
        | Some (phase, journal) \<Rightarrow>
            io_bind (io_when (phase = CleanupPending) (activate_cleanup pf cleanup)) (\<lambda>_.
            if mj_managed_path journal \<in> set (active_managed_paths profiles)
            then io_bind (remove_cleanup_journal op) (\<lambda>_. io_return FencedActivePath)
            else
              io_bind (resolve (mj_managed_path journal)) (\<lambda>target.
              io_bind (path_hash pf target) (\<lambda>h.
              if h = absent_hash
              then io_bind (remove_cleanup_journal op) (\<lambda>_. io_return AlreadyAbsent)
              else if h \<noteq> mj_hash journal
              then io_bind (remove_cleanup_journal op) (\<lambda>_. io_return FencedHashMismatch)
              else
                io_bind (remove_cleanup_target target) (\<lambda>_.
                io_bind (remove_cleanup_journal op) (\<lambda>_.
                io_return Removed)))))))"

section \<open>Reconciling after a restart\<close>

datatype recovery = Untouched | Discarded | Promoted_completed | Completed | Compensated

text \<open>The counts of (discarded, promoted, completed, compensated) one recovered operation adds.\<close>

fun recovery_counts :: "recovery \<Rightarrow> nat \<times> nat \<times> nat \<times> nat" where
  "recovery_counts Untouched = (0, 0, 0, 0)"
| "recovery_counts Discarded = (1, 0, 0, 0)"
| "recovery_counts Promoted_completed = (0, 1, 1, 0)"
| "recovery_counts Completed = (0, 0, 1, 0)"
| "recovery_counts Compensated = (0, 0, 0, 1)"

definition io_yield :: "unit io \<Rightarrow> 'a \<Rightarrow> 'a io" where
  "io_yield m x = io_bind m (\<lambda>_. io_return x)"

text \<open>The document has moved past the revision of the journal.\<close>

definition recover_superseded ::
    "FilePlatform \<Rightarrow> string \<Rightarrow> JournalLocation \<Rightarrow> place \<Rightarrow> bool \<Rightarrow> bool \<Rightarrow> recovery io" where
  "recover_superseded pf op location target active target_matches =
     (let prepared = PreparedMaterialization op
      in if active then
           (if location = StatePrepared \<or> location = StatePromoting then
              (if target_matches then
                 (if location = StatePromoting then io_yield (complete pf prepared) Completed
                  else io_yield (discard_materialization op location) Discarded)
               else
                 io_bind (target_is_pre_promote pf op target) (\<lambda>pre.
                 if \<not> pre then io_bail ''active materialization target diverged before recovery''
                 else io_yield (compensate pf prepared) Compensated))
            else if location = FilePrepared \<and> target_matches then
              io_bind (promote pf prepared) (\<lambda>_. io_yield (complete pf prepared) Completed)
            else if target_matches then io_yield (complete pf prepared) Completed
            else io_yield (compensate pf prepared) Discarded)
         else
           io_bind (io_when target_matches (remove_nofollow target)) (\<lambda>_.
           io_yield (discard_materialization op location) Discarded))"

definition recover_current ::
    "FilePlatform \<Rightarrow> string \<Rightarrow> JournalLocation \<Rightarrow> bool \<Rightarrow> recovery io" where
  "recover_current pf op location target_matches =
     (let prepared = PreparedMaterialization op
      in if location = FilePrepared then
           (if target_matches then io_bind (promote pf prepared) (\<lambda>_. io_yield (complete pf prepared) Completed)
            else io_yield (compensate pf prepared) Discarded)
         else io_bind (promote pf prepared) (\<lambda>_. io_yield (complete pf prepared) Promoted_completed))"

definition recover_operation :: "FilePlatform \<Rightarrow> Profiles \<Rightarrow> JournalLocation \<Rightarrow> string \<Rightarrow> recovery io" where
  "recover_operation pf profiles location op =
     io_bind (locate_materialization pf op) (\<lambda>found.
     case found of
       None \<Rightarrow> io_return Untouched
     | Some (actual_location, journal) \<Rightarrow>
         if actual_location \<noteq> location then io_return Untouched
         else
           io_bind (resolve (mj_managed_path journal)) (\<lambda>target.
           io_bind (path_hash pf target) (\<lambda>h.
           let active = (mj_managed_path journal \<in> set (active_managed_paths profiles));
               target_matches = (h = mj_hash journal)
           in if actual_location = StateCompensating \<or> actual_location = FileCompensating
              then io_yield (compensate pf (PreparedMaterialization op)) Compensated
              else if mj_revision journal < pr_revision profiles
              then recover_superseded pf op actual_location target active target_matches
              else if pr_revision profiles < mj_revision journal \<or> \<not> active
              then io_yield (compensate pf (PreparedMaterialization op)) Compensated
              else recover_current pf op actual_location target_matches)))"

definition reconcile_default :: MaterializationReconcileReport where
  "reconcile_default =
     \<lparr>rr_discarded = 0, rr_promoted = 0, rr_completed = 0, rr_compensated = 0, rr_cleanups_completed = 0,
      rr_cleanups_fenced = 0, rr_degradations = []\<rparr>"

definition degraded ::
    "ProfileDegradationPhase \<Rightarrow> ProfileDegradationCode \<Rightarrow> anyhow \<Rightarrow> MaterializationReconcileReport \<Rightarrow>
     MaterializationReconcileReport" where
  "degraded phase code error report =
     report\<lparr>rr_degradations := rr_degradations report @ [\<lparr>dg_phase = phase, dg_code = code, dg_message = error\<rparr>]\<rparr>"

definition count_recovery :: "recovery \<Rightarrow> MaterializationReconcileReport \<Rightarrow> MaterializationReconcileReport" where
  "count_recovery r report =
     (case recovery_counts r of (discarded, promoted, completed, compensated) \<Rightarrow>
        report\<lparr>rr_discarded := rr_discarded report + discarded, rr_promoted := rr_promoted report + promoted,
               rr_completed := rr_completed report + completed, rr_compensated := rr_compensated report + compensated\<rparr>)"

definition reconcile_operation ::
    "FilePlatform \<Rightarrow> Profiles \<Rightarrow> JournalLocation \<Rightarrow> string \<Rightarrow> MaterializationReconcileReport \<Rightarrow>
     MaterializationReconcileReport io" where
  "reconcile_operation pf profiles location op report =
     io_bind (io_attempt (recover_operation pf profiles location op)) (\<lambda>recovered.
     io_return
       (case recovered of
          Inr r \<Rightarrow> count_recovery r report
        | Inl e \<Rightarrow> degraded PhaseReconcile MaterializationDeferred e report))"

definition reconcile_location ::
    "FilePlatform \<Rightarrow> Profiles \<Rightarrow> JournalLocation \<Rightarrow> MaterializationReconcileReport \<Rightarrow>
     MaterializationReconcileReport io" where
  "reconcile_location pf profiles location report =
     io_bind (io_attempt (list_operation_ids (Journal_directory location))) (\<lambda>listed.
     case listed of
       Inl e \<Rightarrow> io_return (degraded PhaseReconcile JournalInvalid e report)
     | Inr ids \<Rightarrow> io_for (reconcile_operation pf profiles location) ids report)"

definition settle_pending ::
    "FilePlatform \<Rightarrow> Profiles \<Rightarrow> string \<Rightarrow> MaterializationReconcileReport \<Rightarrow> MaterializationReconcileReport io" where
  "settle_pending pf profiles op report =
     io_bind
       (io_attempt
         (io_bind (locate_cleanup pf op) (\<lambda>found.
          case found of
            None \<Rightarrow> io_return ()
          | Some (phase, journal) \<Rightarrow>
              if mj_managed_path journal \<in> set (active_managed_paths profiles)
              then cancel_cleanup pf (PreparedCleanup op)
              else activate_cleanup pf (PreparedCleanup op)))) (\<lambda>result.
     io_return (case result of Inl e \<Rightarrow> degraded PhaseCleanup CleanupDeferred e report | Inr u \<Rightarrow> report))"

definition settle_ready ::
    "FilePlatform \<Rightarrow> Profiles \<Rightarrow> string \<Rightarrow> MaterializationReconcileReport \<Rightarrow> MaterializationReconcileReport io" where
  "settle_ready pf profiles op report =
     io_bind (io_attempt (retry_cleanup pf (PreparedCleanup op) profiles)) (\<lambda>result.
     io_return
       (case result of
          Inl e \<Rightarrow> degraded PhaseCleanup CleanupDeferred e report
        | Inr out \<Rightarrow>
            if out = Removed \<or> out = AlreadyAbsent
            then report\<lparr>rr_cleanups_completed := rr_cleanups_completed report + 1\<rparr>
            else report\<lparr>rr_cleanups_fenced := rr_cleanups_fenced report + 1\<rparr>))"

definition reconcile_cleanups ::
    "CleanupPhase \<Rightarrow> (string \<Rightarrow> MaterializationReconcileReport \<Rightarrow> MaterializationReconcileReport io) \<Rightarrow>
     MaterializationReconcileReport \<Rightarrow> MaterializationReconcileReport io" where
  "reconcile_cleanups phase settle report =
     io_bind (io_attempt (list_operation_ids (Cleanup_directory phase))) (\<lambda>listed.
     case listed of
       Inl e \<Rightarrow> io_return (degraded PhaseCleanup JournalInvalid e report)
     | Inr ids \<Rightarrow> io_for settle ids report)"

definition reconcile :: "FilePlatform \<Rightarrow> Profiles \<Rightarrow> MaterializationReconcileReport io" where
  "reconcile pf profiles =
     io_bind ensure_materialization_layout (\<lambda>_.
     io_bind (io_attempt sweep_unreferenced_artifacts) (\<lambda>swept.
     let report = (case swept of
                     Inl e \<Rightarrow> degraded PhaseReconcile MaterializationDeferred e reconcile_default
                   | Inr n \<Rightarrow> reconcile_default)
     in io_bind (io_for (reconcile_location pf profiles) journal_locations report) (\<lambda>report.
        io_bind (reconcile_cleanups CleanupPending (settle_pending pf profiles) report) (\<lambda>report.
        reconcile_cleanups CleanupReady (settle_ready pf profiles) report))))"

end
