(* ===== verification/Profile_Frames.thy ===== *)
theory Profile_Frames
  imports Profile_Files
begin

text \<open>
  What the operations of the profile file service leave alone: \<open>only w A m\<close> says that \<open>m\<close> changes no place
  outside \<open>A\<close>, however it ends. An operation works on its own names in the private area and on the managed
  file its journal names; the last section turns this into: handling one operation leaves every other
  operation, and every other managed file, as it found them.
\<close>

section \<open>The places an operation works on\<close>

definition artifact_places :: "string \<Rightarrow> place set" where
  "artifact_places op =
     {stage_file_path op, restore_file_path op, stage_link_path op, backup_file_path op, backup_link_path op,
      ready_link_path op}"

definition journal_places :: "string \<Rightarrow> place set" where
  "journal_places op = range (\<lambda>l. journal_path l op)"

definition cleanup_places :: "string \<Rightarrow> place set" where
  "cleanup_places op = {cleanup_path CleanupPending op, cleanup_path CleanupReady op}"

lemmas place_defs =
  stage_file_path_def stage_link_path_def restore_file_path_def ready_link_path_def backup_file_path_def
  backup_link_path_def journal_path_def cleanup_path_def profile_place_def

lemma places_in [simp]:
  "stage_file_path op \<in> artifact_places op" "restore_file_path op \<in> artifact_places op"
  "stage_link_path op \<in> artifact_places op" "backup_file_path op \<in> artifact_places op"
  "backup_link_path op \<in> artifact_places op" "ready_link_path op \<in> artifact_places op"
  "journal_path l op \<in> journal_places op" "cleanup_path ph op \<in> cleanup_places op"
  by (cases ph; simp add: artifact_places_def journal_places_def cleanup_places_def)+

definition same_outside :: "place set \<Rightarrow> (place \<Rightarrow> node option) \<Rightarrow> (place \<Rightarrow> node option) \<Rightarrow> bool" where
  "same_outside A s s' = (\<forall>q. q \<notin> A \<longrightarrow> s' q = s q)"

lemma same_outside_refl [simp]: "same_outside A s s"
  by (simp add: same_outside_def)

lemma same_outside_trans: "same_outside A s t \<Longrightarrow> same_outside A t u \<Longrightarrow> same_outside A s u"
  by (simp add: same_outside_def)

lemma same_outside_upd [simp]: "q \<in> A \<Longrightarrow> same_outside A s (s(q := x))"
  by (auto simp: same_outside_def)

lemma same_outside_upd2 [simp]: "q \<in> A \<Longrightarrow> r \<in> A \<Longrightarrow> same_outside A s (s(q := x, r := y))"
  by (auto simp: same_outside_def)

lemma same_outside_mono: "same_outside A s s' \<Longrightarrow> A \<subseteq> B \<Longrightarrow> same_outside B s s'"
  by (auto simp: same_outside_def)

section \<open>Actions that keep to their places\<close>

definition only :: "weather \<Rightarrow> place set \<Rightarrow> 'a io \<Rightarrow> bool" where
  "only w A m = (\<forall>s. runs w m (\<lambda>x. same_outside A s) (same_outside A s) (same_outside A s) s)"

named_theorems keeping \<open>actions that keep to their places\<close>

lemma only_mono: "only w A m \<Longrightarrow> A \<subseteq> B \<Longrightarrow> only w B m"
  unfolding only_def by (blast intro: runs_mono same_outside_mono)

lemma only_return [keeping]: "only w A (io_return x)"
  by (simp add: only_def runs_return)

lemma only_bail [keeping]: "only w A (io_bail e)"
  by (simp add: only_def runs_bail)

lemma only_bind [keeping]:
  assumes "only w A m" and "\<And>x. only w A (k x)"
  shows "only w A (io_bind m k)"
  unfolding only_def
proof (intro allI runs_bind)
  fix s
  have "runs w m (\<lambda>x. same_outside A s) (same_outside A s) (same_outside A s) s"
    using assms(1) by (simp add: only_def)
  then show "runs w m (\<lambda>x. runs w (k x) (\<lambda>x. same_outside A s) (same_outside A s) (same_outside A s))
      (same_outside A s) (same_outside A s) s"
  proof (rule runs_mono)
    fix x s'
    assume s': "same_outside A s s'"
    have "runs w (k x) (\<lambda>x. same_outside A s') (same_outside A s') (same_outside A s') s'"
      using assms(2) by (simp add: only_def)
    then show "runs w (k x) (\<lambda>x. same_outside A s) (same_outside A s) (same_outside A s) s'"
      by (rule runs_mono) (auto intro: same_outside_trans [OF s'])
  qed auto
qed

lemma only_attempt [keeping]: "only w A m \<Longrightarrow> only w A (io_attempt m)"
  unfolding only_def by (intro allI runs_attempt) (blast intro: runs_mono)

lemma only_when [keeping]: "(b \<Longrightarrow> only w A m) \<Longrightarrow> only w A (io_when b m)"
  by (simp add: io_when_def only_return)

lemma only_yield [keeping]: "only w A m \<Longrightarrow> only w A (io_yield m x)"
  unfolding io_yield_def by (intro keeping)

lemma only_for [keeping]: "(\<And>x t. x \<in> set xs \<Longrightarrow> only w A (f x t)) \<Longrightarrow> only w A (io_for f xs t)"
  by (induction xs arbitrary: t) (auto intro: keeping)

lemma only_each [keeping]: "(\<And>x. x \<in> set xs \<Longrightarrow> only w A (f x)) \<Longrightarrow> only w A (io_each f xs)"
  by (induction xs) (auto intro: keeping)

lemma only_any [keeping]: "(\<And>x. x \<in> set xs \<Longrightarrow> only w A (f x)) \<Longrightarrow> only w A (io_any f xs)"
  by (induction xs) (auto intro!: keeping)

lemma only_if [keeping]: "(b \<Longrightarrow> only w A m) \<Longrightarrow> (\<not> b \<Longrightarrow> only w A n) \<Longrightarrow> only w A (if b then m else n)"
  by simp

lemma only_calls [keeping]:
  "only w A (probe msg)" "only w A sync_directory" "only w A set_private_file_permissions"
  "only w A (symlink_metadata msg q)" "only w A (read_link msg q)" "only w A (read_bytes msg q)"
  "only w A (read_dir msg dir)" "only w A ensure_managed_parent" "only w A ensure_materialization_layout"
  unfolding only_def ensure_managed_parent_def ensure_materialization_layout_def
  by (auto intro!: runs_calls split: option.splits node.splits)

lemma only_open_new [keeping]: "q \<in> A \<Longrightarrow> only w A (open_new msg q)"
  unfolding only_def by (auto intro!: runs_open_new split: option.splits)

lemma only_write_all [keeping]: "q \<in> A \<Longrightarrow> only w A (write_all msg q c)"
  unfolding only_def by (auto intro!: runs_write_all)

lemma only_atomic_write_new [keeping]: "q \<in> A \<Longrightarrow> only w A (atomic_write_new msg q c)"
  unfolding only_def by (auto intro!: runs_atomic_write_new split: option.splits)

lemma only_atomic_write_over [keeping]: "q \<in> A \<Longrightarrow> only w A (atomic_write_over msg q c)"
  unfolding only_def by (auto intro!: runs_atomic_write_over)

lemma only_remove_file [keeping]: "q \<in> A \<Longrightarrow> only w A (remove_file msg q)"
  unfolding only_def by (auto intro!: runs_remove_file)

lemma only_replace_atomic [keeping]: "q \<in> A \<Longrightarrow> r \<in> A \<Longrightarrow> only w A (replace_atomic msg q r)"
  unfolding only_def by (auto intro!: runs_replace_atomic split: option.splits)

lemma only_create_file_symlink [keeping]: "q \<in> A \<Longrightarrow> only w A (create_file_symlink msg t q)"
  unfolding only_def by (auto intro!: runs_create_file_symlink split: option.splits)

lemma only_split_option [keeping]:
  "(x = None \<Longrightarrow> only w A m) \<Longrightarrow> (\<And>y. x = Some y \<Longrightarrow> only w A (n y)) \<Longrightarrow>
     only w A (case x of None \<Rightarrow> m | Some y \<Rightarrow> n y)"
  by (cases x) auto

lemma only_split_node [keeping]:
  "(\<And>c. x = Regular c \<Longrightarrow> only w A (f c)) \<Longrightarrow> (\<And>t. x = Symbolic_link t \<Longrightarrow> only w A (g t)) \<Longrightarrow>
   (x = Directory \<Longrightarrow> only w A h) \<Longrightarrow>
     only w A (case x of Regular c \<Rightarrow> f c | Symbolic_link t \<Rightarrow> g t | Directory \<Rightarrow> h)"
  by (cases x) auto

lemma only_split_stored [keeping]:
  "(\<And>q. x = StoredFile q \<Longrightarrow> only w A (f q)) \<Longrightarrow> (\<And>t. x = StoredSymlink t \<Longrightarrow> only w A (g t)) \<Longrightarrow>
     only w A (case x of StoredFile q \<Rightarrow> f q | StoredSymlink t \<Rightarrow> g t)"
  by (cases x) auto

lemma only_split_sum [keeping]:
  "(\<And>e. x = Inl e \<Longrightarrow> only w A (f e)) \<Longrightarrow> (\<And>y. x = Inr y \<Longrightarrow> only w A (g y)) \<Longrightarrow>
     only w A (case x of Inl e \<Rightarrow> f e | Inr y \<Rightarrow> g y)"
  by (cases x) auto

lemma only_split_prod [keeping]: "(\<And>y z. x = (y, z) \<Longrightarrow> only w A (f y z)) \<Longrightarrow> only w A (case x of (y, z) \<Rightarrow> f y z)"
  by (cases x) auto

section \<open>The operations\<close>

lemma only_resolve [keeping]: "only w A (resolve p)"
  unfolding resolve_def by (intro keeping)

lemma only_read_to_string [keeping]: "only w A (read_to_string msg q)"
  unfolding read_to_string_def by (intro keeping)

lemma only_read_journal [keeping]: "only w A (read_journal pf q op)"
  unfolding read_journal_def by (intro keeping)

lemma only_path_hash [keeping]: "only w A (path_hash pf q)"
  unfolding path_hash_def by (intro keeping)

lemma only_ensure_replaceable [keeping]: "only w A (ensure_replaceable_target q)"
  unfolding ensure_replaceable_target_def by (intro keeping)

lemma only_external_path [keeping]: "only w A (external_path t)"
  unfolding external_path_def by (intro keeping)

lemma only_read_staged [keeping]: "only w A (read_staged_resource pf op h)"
  unfolding read_staged_resource_def by (intro keeping)

lemma only_read_backup [keeping]: "only w A (read_backup_resource op)"
  unfolding read_backup_resource_def by (intro keeping)

lemma only_backup_hash [keeping]: "only w A (backup_hash pf op)"
  unfolding backup_hash_def by (intro keeping)

lemma only_pre_promote [keeping]: "only w A (target_is_pre_promote pf op q)"
  unfolding target_is_pre_promote_def by (intro keeping)

lemma only_metadata_is_ok [keeping]: "only w A (metadata_is_ok q)"
  unfolding metadata_is_ok_def by (intro keeping)

lemma only_has_journal [keeping]: "only w A (has_materialization_journal op)"
  unfolding has_materialization_journal_def by (intro keeping)

lemma only_list_operation_ids [keeping]: "only w A (list_operation_ids dir)"
  unfolding list_operation_ids_def list_entry_def by (intro keeping)

lemma only_write_private [keeping]: "q \<in> A \<Longrightarrow> only w A (write_private_file_new q c)"
  unfolding write_private_file_new_def by (intro keeping)

lemma only_remove_nofollow [keeping]: "q \<in> A \<Longrightarrow> only w A (remove_nofollow q)"
  unfolding remove_nofollow_def by (intro keeping)

lemma only_remove_private [keeping]: "q \<in> A \<Longrightarrow> only w A (remove_private_regular q)"
  unfolding remove_private_regular_def by (intro keeping)

text \<open>The operations on the artifacts and the target of one operation.\<close>

lemma only_create_ready_link [keeping]: "artifact_places op \<subseteq> A \<Longrightarrow> only w A (create_ready_link op t)"
  unfolding create_ready_link_def by (intro keeping) auto

lemma create_ready_link_place:
  "runs w (create_ready_link op t) (\<lambda>q s'. q = ready_link_path op) (\<lambda>_. True) (\<lambda>_. True) s"
  unfolding create_ready_link_def
  by (auto intro!: runs_flow runs_calls split: option.splits node.splits)

lemma only_ready_then:
  assumes "artifact_places op \<subseteq> A" and "only w A (k (ready_link_path op))"
  shows "only w A (io_bind (create_ready_link op t) k)"
  unfolding only_def
proof (intro allI runs_bind)
  fix s
  let ?O = "\<lambda>s'. same_outside A s s'"
  have "runs w (create_ready_link op t) (\<lambda>x. ?O) ?O ?O s"
    using only_create_ready_link [OF assms(1)] by (simp add: only_def)
  from runs_conj [OF this create_ready_link_place]
  show "runs w (create_ready_link op t) (\<lambda>x. runs w (k x) (\<lambda>x. ?O) ?O ?O) ?O ?O s"
  proof (rule runs_mono)
    fix q s'
    assume q: "?O s' \<and> q = ready_link_path op"
    have "runs w (k q) (\<lambda>x. same_outside A s') (same_outside A s') (same_outside A s') s'"
      using assms(2) q by (simp add: only_def)
    then show "runs w (k q) (\<lambda>x. ?O) ?O ?O s'"
      by (rule runs_mono) (use q in \<open>auto intro: same_outside_trans\<close>)
  qed auto
qed

text \<open>A staged file that is found is the staging place of the operation.\<close>

lemma read_staged_place:
  "runs w (read_staged_resource pf op h)
     (\<lambda>x s'. \<forall>q. x = Some (StoredFile q) \<longrightarrow> q = stage_file_path op) (\<lambda>_. True) (\<lambda>_. True) s"
  unfolding read_staged_resource_def read_to_string_def external_path_def
  by (auto intro!: runs_flow runs_calls split: option.splits node.splits sum.splits)

lemma only_bind_where:
  assumes "only w A m" and "\<And>s. runs w m (\<lambda>x s'. P x) (\<lambda>_. True) (\<lambda>_. True) s"
    and "\<And>x. P x \<Longrightarrow> only w A (k x)"
  shows "only w A (io_bind m k)"
  unfolding only_def
proof (intro allI runs_bind)
  fix s
  let ?O = "\<lambda>s'. same_outside A s s'"
  have "runs w m (\<lambda>x. ?O) ?O ?O s" using assms(1) by (simp add: only_def)
  from runs_conj [OF this assms(2)]
  show "runs w m (\<lambda>x. runs w (k x) (\<lambda>x. ?O) ?O ?O) ?O ?O s"
  proof (rule runs_mono)
    fix x s'
    assume x: "?O s' \<and> P x"
    then have "runs w (k x) (\<lambda>x. same_outside A s') (same_outside A s') (same_outside A s') s'"
      using assms(3) by (simp add: only_def)
    then show "runs w (k x) (\<lambda>x. ?O) ?O ?O s'"
      by (rule runs_mono) (use x in \<open>auto intro: same_outside_trans\<close>)
  qed auto
qed

lemma only_promote_resource [keeping]:
  assumes "artifact_places op \<subseteq> A" and "target \<in> A"
  shows "only w A (promote_resource pf op target h)"
  unfolding promote_resource_def
  by (intro only_bind_where [OF only_read_staged read_staged_place] only_ready_then only_split_option
      only_split_stored only_bind only_if only_calls only_ensure_replaceable only_path_hash only_return only_bail
      only_replace_atomic) (use assms in auto)

lemma only_restore_backup [keeping]:
  assumes "artifact_places op \<subseteq> A" and "target \<in> A"
  shows "only w A (restore_backup pf op target h)"
proof -
  have in_A: "restore_file_path op \<in> A" "ready_link_path op \<in> A" using assms(1) by auto
  show ?thesis
    unfolding restore_backup_def
    by (intro only_ready_then keeping in_A assms)
qed

lemma only_remove_artifacts [keeping]: "artifact_places op \<subseteq> A \<Longrightarrow> only w A (remove_private_artifacts op)"
  unfolding remove_private_artifacts_def by (intro keeping) auto

lemma only_remove_operation [keeping]:
  "artifact_places op \<subseteq> A \<Longrightarrow> journal \<in> A \<Longrightarrow> only w A (remove_operation_artifacts op journal)"
  unfolding remove_operation_artifacts_def by (intro keeping)

lemma only_discard [keeping]:
  "artifact_places op \<subseteq> A \<Longrightarrow> journal_places op \<subseteq> A \<Longrightarrow> only w A (discard_materialization op l)"
  unfolding discard_materialization_def by (intro keeping) auto

lemma only_transition_private [keeping]:
  "q \<in> A \<Longrightarrow> r \<in> A \<Longrightarrow> only w A (transition_private_journal pf op q r)"
  unfolding transition_private_journal_def rename_journal_same_filesystem_def by (intro keeping)

lemma only_transition [keeping]: "journal_places op \<subseteq> A \<Longrightarrow> only w A (transition_journal pf op l l')"
  unfolding transition_journal_def by (intro keeping) auto

lemma only_find_journal [keeping]: "only w A (find_journal pf op l found)"
  unfolding find_journal_def by (intro keeping)

section \<open>Locating the journal of an operation\<close>

text \<open>The managed files the journals under an operation's id name.\<close>

definition named_by ::
    "FilePlatform \<Rightarrow> place set \<Rightarrow> (place \<Rightarrow> node option) \<Rightarrow> place set" where
  "named_by pf J s =
     {profile_place (mj_managed_path j) | j q c. q \<in> J \<and> s q = Some (Regular c) \<and> fp_from_yaml pf c = Some j}"

lemma named_byI: "q \<in> J \<Longrightarrow> s q = Some (Regular c) \<Longrightarrow> fp_from_yaml pf c = Some j \<Longrightarrow>
    profile_place (mj_managed_path j) \<in> named_by pf J s"
  by (auto simp: named_by_def)

lemma named_by_subset: "(\<And>q. q \<in> J \<Longrightarrow> s' q = s q) \<Longrightarrow> named_by pf J s' \<subseteq> named_by pf J s"
  unfolding named_by_def by clarsimp metis

lemma read_journal_names:
  "q \<in> J \<Longrightarrow> runs w (read_journal pf q op) (\<lambda>j s'. s' = s \<and> profile_place (mj_managed_path j) \<in> named_by pf J s)
     (\<lambda>s'. s' = s) (\<lambda>s'. s' = s) s"
  unfolding read_journal_def read_to_string_def
  by (auto intro!: runs_flow runs_calls split: option.splits node.splits simp: is_regular_def) (blast intro: named_byI)

text \<open>The state of the file system as handling one operation may change it: its own names and the files \<open>N\<close>
  its journals named at the start.\<close>

definition within :: "FilePlatform \<Rightarrow> place set \<Rightarrow> place set \<Rightarrow> (place \<Rightarrow> node option) \<Rightarrow> (place \<Rightarrow> node option) \<Rightarrow> bool" where
  "within pf J A s s' \<longleftrightarrow> same_outside A s s' \<and> named_by pf J s' \<subseteq> named_by pf J s"

lemma within_refl [simp]: "within pf J A s s"
  by (simp add: within_def)

lemma within_trans: "within pf J A s t \<Longrightarrow> within pf J A t u \<Longrightarrow> within pf J A s u"
  by (auto simp: within_def intro: same_outside_trans)

definition stays :: "weather \<Rightarrow> FilePlatform \<Rightarrow> place set \<Rightarrow> place set \<Rightarrow> 'a io \<Rightarrow> (place \<Rightarrow> node option) \<Rightarrow> bool" where
  "stays w pf J A m s = runs w m (\<lambda>x. within pf J A s) (within pf J A s) (within pf J A s) s"

lemma stays_only: "only w B m \<Longrightarrow> B \<subseteq> A \<Longrightarrow> B \<inter> J = {} \<Longrightarrow> stays w pf J A m s"
  unfolding stays_def only_def
proof (erule allE [where x = s])
  assume B: "B \<subseteq> A" "B \<inter> J = {}" and r: "runs w m (\<lambda>x. same_outside B s) (same_outside B s) (same_outside B s) s"
  have "within pf J A s s'" if "same_outside B s s'" for s'
  proof -
    have "\<And>q. q \<in> J \<Longrightarrow> s' q = s q" using that B(2) by (auto simp: same_outside_def)
    then show ?thesis using that B(1) by (simp add: within_def named_by_subset same_outside_mono)
  qed
  with r show "runs w m (\<lambda>x. within pf J A s) (within pf J A s) (within pf J A s) s"
    by (blast intro: runs_mono)
qed

lemma stays_bind:
  assumes "stays w pf J A m s"
    and "runs w m P (\<lambda>_. True) (\<lambda>_. True) s"
    and "\<And>x t. P x t \<Longrightarrow> within pf J A s t \<Longrightarrow> stays w pf J A (k x) t"
  shows "stays w pf J A (io_bind m k) s"
  unfolding stays_def
proof (rule runs_bind)
  from runs_conj [OF assms(1) [unfolded stays_def] assms(2)]
  show "runs w m (\<lambda>x. runs w (k x) (\<lambda>x. within pf J A s) (within pf J A s) (within pf J A s))
      (within pf J A s) (within pf J A s) s"
  proof (rule runs_mono)
    fix x t
    assume t: "within pf J A s t \<and> P x t"
    then have "runs w (k x) (\<lambda>x. within pf J A t) (within pf J A t) (within pf J A t) t"
      using assms(3) by (simp add: stays_def)
    then show "runs w (k x) (\<lambda>x. within pf J A s) (within pf J A s) (within pf J A s) t"
      by (rule runs_mono) (use t in \<open>auto intro: within_trans\<close>)
  qed auto
qed

lemma runs_True: "runs w m (\<lambda>x s'. True) (\<lambda>_. True) (\<lambda>_. True) s" if "only w UNIV m" for m :: "'a io"
  using that unfolding only_def by (blast intro: runs_mono)

lemma stays_seq:
  assumes "stays w pf J A m s" and "\<And>x t. stays w pf J A (k x) t"
  shows "stays w pf J A (io_bind m k) s"
proof (rule stays_bind [OF assms(1), where P = "\<lambda>x t. True"])
  show "runs w m (\<lambda>x t. True) (\<lambda>_. True) (\<lambda>_. True) s"
    using assms(1) unfolding stays_def by (rule runs_mono) auto
qed (rule assms(2))

lemma stays_each: "(\<And>x t. x \<in> set xs \<Longrightarrow> stays w pf J A (f x) t) \<Longrightarrow> stays w pf J A (io_each f xs) s"
proof (induction xs arbitrary: s)
  case Nil
  then show ?case by (simp add: stays_def runs_return)
next
  case (Cons x xs)
  then show ?case by (auto intro: stays_seq)
qed

lemma stays_reading: "only w {} m \<Longrightarrow> stays w pf J A m s"
  by (rule stays_only) auto

lemma stays_readings:
  "stays w pf J A (io_return x) s" "stays w pf J A (io_bail e) s" "stays w pf J A (probe msg) s"
  "stays w pf J A (symlink_metadata msg q) s" "stays w pf J A (read_journal pf q op) s"
  "stays w pf J A (resolve p) s" "stays w pf J A (path_hash pf q) s" "stays w pf J A ensure_materialization_layout s"
  "stays w pf J A (target_is_pre_promote pf op q) s"
  by (rule stays_reading, rule keeping)+

lemma within_remove: "q \<in> A \<Longrightarrow> within pf J A s (s(q := None))"
  unfolding within_def named_by_def by (auto split: if_splits)

lemma within_move:
  assumes "q \<in> A" "r \<in> A" "q \<in> J" "s q = Some x"
  shows "within pf J A s (s(q := None, r \<mapsto> x))"
  using assms unfolding within_def named_by_def by (auto split: if_splits)

lemma stays_remove_private: "q \<in> A \<Longrightarrow> stays w pf J A (remove_private_regular q) s"
  unfolding stays_def remove_private_regular_def
  by (auto intro!: runs_flow runs_calls within_remove split: option.splits)

lemma stays_transition_private:
  assumes "q \<in> A" "r \<in> A" "q \<in> J"
  shows "stays w pf J A (transition_private_journal pf op q r) s"
proof -
  have "stays w pf J A (rename_journal_same_filesystem q r) t" for t
    unfolding stays_def rename_journal_same_filesystem_def
    by (auto intro!: runs_flow runs_calls within_move assms split: option.splits)
  then show ?thesis
    unfolding transition_private_journal_def
    by (auto intro!: stays_seq stays_remove_private stays_readings assms split: option.splits)
qed

lemma stays_transition: "journal_places op \<subseteq> A \<Longrightarrow> journal_places op \<subseteq> J \<Longrightarrow>
    stays w pf J A (transition_journal pf op l l') s"
  unfolding transition_journal_def by (rule stays_transition_private) auto

lemma stays_remove_operation:
  assumes "artifact_places op \<subseteq> A" "artifact_places op \<inter> J = {}" "q \<in> A"
  shows "stays w pf J A (remove_operation_artifacts op q) s"
  unfolding remove_operation_artifacts_def
  by (intro stays_seq stays_remove_private stays_only [where B = "artifact_places op"] only_remove_artifacts assms) simp

text \<open>What locating an operation returns names a file its journals named.\<close>

lemma find_journals_names:
  assumes "\<And>l. journal_path l op \<in> J"
  shows "runs w (io_for (find_journal pf op) ls [])
    (\<lambda>found t. t = s \<and> (\<forall>(l, j, q) \<in> set found. q \<in> J \<and> profile_place (mj_managed_path j) \<in> named_by pf J s))
    (\<lambda>t. t = s) (\<lambda>t. t = s) s"
proof (rule runs_for)
  fix l t and found :: "found_journal list"
  assume found: "t = s \<and> (\<forall>(l, j, q) \<in> set found. q \<in> J \<and> profile_place (mj_managed_path j) \<in> named_by pf J s)"
  have "runs w (read_journal pf (journal_path l op) op)
      (\<lambda>j t. t = s \<and> profile_place (mj_managed_path j) \<in> named_by pf J s) (\<lambda>t. t = s) (\<lambda>t. t = s) s"
    by (rule read_journal_names) (rule assms)
  then have "runs w (io_bind (read_journal pf (journal_path l op) op)
        (\<lambda>j. io_return (found @ [(l, j, journal_path l op)])))
      (\<lambda>found t. t = s \<and> (\<forall>(l, j, q) \<in> set found. q \<in> J \<and> profile_place (mj_managed_path j) \<in> named_by pf J s))
      (\<lambda>t. t = s) (\<lambda>t. t = s) s"
    by (intro runs_bind, rule runs_mono) (use found assms in \<open>auto intro!: runs_return\<close>)
  with found show "runs w (find_journal pf op l found)
      (\<lambda>found t. t = s \<and> (\<forall>(l, j, q) \<in> set found. q \<in> J \<and> profile_place (mj_managed_path j) \<in> named_by pf J s))
      (\<lambda>t. t = s) (\<lambda>t. t = s) t"
    unfolding find_journal_def by (auto intro!: runs_flow(3) runs_symlink_metadata intro: runs_return runs_bail split: option.splits)
qed simp

lemma converge_names:
  assumes "\<forall>(l, j, q) \<in> set found. q \<in> A \<and> profile_place (mj_managed_path j) \<in> N"
  shows "runs w (converge_materialization_journals found)
    (\<lambda>r t. within pf J A s t \<and> (\<forall>l j. r = Some (l, j) \<longrightarrow> profile_place (mj_managed_path j) \<in> N))
    (within pf J A s) (within pf J A s) s"
proof (cases found)
  case Nil
  then show ?thesis by (simp add: converge_materialization_journals_def runs_return)
next
  case (Cons f fs)
  define sorted where "sorted = sort_key (\<lambda>(l, j, q). rank l) found"
  have set_sorted: "set sorted = set found" by (simp add: sorted_def)
  then have sorted: "set sorted = set found" "sorted \<noteq> []" using Cons by auto
  obtain l j q where last: "last sorted = (l, j, q)" by (metis prod_cases3)
  have "last sorted \<in> set found" using sorted by (metis last_in_set)
  then have names: "profile_place (mj_managed_path j) \<in> N" using assms last by auto
  have "stays w pf J A (io_each (\<lambda>(l, duplicate, q).
      if duplicate \<noteq> j then io_bail ''materialization operation has conflicting journal payloads''
      else remove_private_regular q) (butlast sorted)) s"
  proof (rule stays_each)
    fix x t
    assume "x \<in> set (butlast sorted)"
    then have "snd (snd x) \<in> A" using assms sorted in_set_butlastD [of x sorted] by (cases x) auto
    then show "stays w pf J A (case x of (l, duplicate, q) \<Rightarrow>
        if duplicate \<noteq> j then io_bail ''materialization operation has conflicting journal payloads''
        else remove_private_regular q) t"
      by (cases x) (auto intro: stays_remove_private stays_readings)
  qed
  then have r: "runs w (io_bind (io_each (\<lambda>(l, duplicate, q).
      if duplicate \<noteq> j then io_bail ''materialization operation has conflicting journal payloads''
      else remove_private_regular q) (butlast sorted)) (\<lambda>_. io_return (Some (l, j))))
      (\<lambda>r t. within pf J A s t \<and> (\<forall>l j. r = Some (l, j) \<longrightarrow> profile_place (mj_managed_path j) \<in> N))
      (within pf J A s) (within pf J A s) s"
    unfolding stays_def by (intro runs_bind, elim runs_mono) (auto intro: runs_return simp: names)
  have "converge_materialization_journals found =
      (if list_ex (\<lambda>(l, j, q). family l \<noteq> family (fst f)) found
       then io_bail ''materialization operation has mixed transaction families''
       else io_bind (io_each (\<lambda>(l, duplicate, q).
         if duplicate \<noteq> j then io_bail ''materialization operation has conflicting journal payloads''
         else remove_private_regular q) (butlast sorted)) (\<lambda>_. io_return (Some (l, j))))"
    unfolding converge_materialization_journals_def sorted_def [symmetric] Let_def last using Cons by simp
  with r show ?thesis by (simp add: runs_bail)
qed

lemma locate_names:
  assumes "journal_places op \<subseteq> A"
  shows "runs w (locate_materialization pf op)
    (\<lambda>r t. within pf (journal_places op) A s t \<and>
       (\<forall>l j. r = Some (l, j) \<longrightarrow> profile_place (mj_managed_path j) \<in> named_by pf (journal_places op) s))
    (within pf (journal_places op) A s) (within pf (journal_places op) A s) s"
proof -
  let ?J = "journal_places op"
  have "runs w (io_for (find_journal pf op) journal_locations [])
      (\<lambda>found. runs w (converge_materialization_journals found)
        (\<lambda>r t. within pf ?J A s t \<and> (\<forall>l j. r = Some (l, j) \<longrightarrow> profile_place (mj_managed_path j) \<in> named_by pf ?J s))
        (within pf ?J A s) (within pf ?J A s))
      (within pf ?J A s) (within pf ?J A s) s"
    by (rule runs_mono [OF find_journals_names [where J = ?J]])
      (use assms in \<open>auto intro!: converge_names\<close>)
  then show ?thesis unfolding locate_materialization_def by (auto intro: runs_bail runs_bind)
qed

section \<open>Handling one operation\<close>

text \<open>The names of an operation's own files, and what it may touch: those and the files its journals name.\<close>

definition own_places :: "string \<Rightarrow> place set" where
  "own_places op = artifact_places op \<union> journal_places op"

definition reach :: "FilePlatform \<Rightarrow> string \<Rightarrow> (place \<Rightarrow> node option) \<Rightarrow> place set" where
  "reach pf op s = own_places op \<union> named_by pf (journal_places op) s"

abbreviation handled :: "weather \<Rightarrow> FilePlatform \<Rightarrow> string \<Rightarrow> place set \<Rightarrow> 'a io \<Rightarrow> (place \<Rightarrow> node option) \<Rightarrow> bool" where
  "handled w pf op A \<equiv> stays w pf (journal_places op) A"

lemma artifacts_journals [simp]: "artifact_places op \<inter> journal_places op' = {}"
  by (auto simp: artifact_places_def journal_places_def place_defs)

lemma profile_not_private [simp]:
  "profile_place p \<notin> artifact_places op" "profile_place p \<notin> journal_places op" "profile_place p \<notin> cleanup_places op"
  "profile_place p \<notin> own_places op"
  by (auto simp: artifact_places_def journal_places_def cleanup_places_def own_places_def place_defs)

lemma named_profile: "q \<in> named_by pf J s \<Longrightarrow> \<exists>p. q = profile_place p"
  by (auto simp: named_by_def)

lemma reach_parts [simp]:
  "artifact_places op \<subseteq> reach pf op s" "journal_places op \<subseteq> reach pf op s" "own_places op \<subseteq> reach pf op s"
  "named_by pf (journal_places op) s \<subseteq> reach pf op s"
  by (auto simp: reach_def own_places_def)

lemma handled_only_files:
  assumes "only w (insert (profile_place p) (artifact_places op)) m"
    and "own_places op \<subseteq> A" and "profile_place p \<in> A"
  shows "handled w pf op A m s"
  by (rule stays_only [OF assms(1)]) (use assms(2,3) in \<open>auto simp: own_places_def\<close>)

text \<open>A step after locating the journal: its file is one of those named at the start.\<close>

lemma handled_located:
  assumes own: "own_places op \<subseteq> A" and N: "named_by pf (journal_places op) s \<subseteq> A"
    and none: "\<And>t. handled w pf op A (k None) t"
    and some: "\<And>l j t. profile_place (mj_managed_path j) \<in> A \<Longrightarrow> named_by pf (journal_places op) t \<subseteq> A \<Longrightarrow>
      handled w pf op A (k (Some (l, j))) t"
  shows "handled w pf op A (io_bind (locate_materialization pf op) k) s"
proof (rule stays_bind)
  have J: "journal_places op \<subseteq> A" using own by (auto simp: own_places_def)
  note names = locate_names [OF J, of w pf s]
  show "handled w pf op A (locate_materialization pf op) s"
    unfolding stays_def by (rule runs_mono [OF names]) auto
  show "runs w (locate_materialization pf op)
      (\<lambda>(r :: (JournalLocation \<times> MaterializationJournal) option) t. \<forall>l j. r = Some (l, j) \<longrightarrow> profile_place (mj_managed_path j) \<in> named_by pf (journal_places op) s)
      (\<lambda>_. True) (\<lambda>_. True) s"
    by (rule runs_mono [OF names]) auto
  fix t and r :: "(JournalLocation \<times> MaterializationJournal) option"
  assume r: "\<forall>l j. r = Some (l, j) \<longrightarrow> profile_place (mj_managed_path j) \<in> named_by pf (journal_places op) s"
    and t: "within pf (journal_places op) A s t"
  show "handled w pf op A (k r) t"
  proof (cases r)
    case None
    then show ?thesis using none by simp
  next
    case (Some lj)
    then show ?thesis using r t N by (cases lj) (auto intro!: some simp: within_def)
  qed
qed

lemma resolve_place:
  "runs w (resolve p) (\<lambda>q s'. q = profile_place p) (\<lambda>_. True) (\<lambda>_. True) s"
  unfolding resolve_def by (auto intro!: runs_flow runs_probe)

lemma handled_resolve:
  "(\<And>t. handled w pf op A (k (profile_place p)) t) \<Longrightarrow> handled w pf op A (io_bind (resolve p) k) s"
  by (rule stays_bind [OF _ resolve_place]) (auto intro: stays_readings)

lemma handled_if: "(b \<Longrightarrow> handled w pf op A m s) \<Longrightarrow> (\<not> b \<Longrightarrow> handled w pf op A n s) \<Longrightarrow>
    handled w pf op A (if b then m else n) s"
  by simp

lemma handled_when: "(b \<Longrightarrow> handled w pf op A m s) \<Longrightarrow> handled w pf op A (io_when b m) s"
  by (simp add: io_when_def stays_readings)

lemma handled_transition: "own_places op \<subseteq> A \<Longrightarrow> handled w pf op A (transition_journal pf op l l') s"
  by (rule stays_transition) (auto simp: own_places_def)

lemma handled_layout:
  assumes "handled w pf op A (k ()) s"
  shows "handled w pf op A (io_bind ensure_materialization_layout k) s"
proof (rule stays_bind [where P = "\<lambda>x t. t = s"])
  show "runs w ensure_materialization_layout (\<lambda>x t. t = s) (\<lambda>_. True) (\<lambda>_. True) s"
    unfolding ensure_materialization_layout_def by (rule runs_probe) auto
qed (use assms in \<open>auto intro: stays_readings\<close>)

lemma handled_promote:
  assumes own: "own_places op \<subseteq> A" and "named_by pf (journal_places op) s \<subseteq> A"
  shows "handled w pf op A (promote pf (PreparedMaterialization op)) s"
  unfolding promote_def Let_def PreparedMaterialization.sel
proof (rule handled_layout, rule handled_located [OF assms], goal_cases)
  case (2 l j t)
  have res: "handled w pf op A (promote_resource pf op (profile_place (mj_managed_path j)) h) t'" for h t'
    by (rule handled_only_files [OF _ own 2(1)]) (auto intro!: keeping)
  show ?case
    by (auto intro!: stays_seq handled_if handled_resolve handled_when handled_transition [OF own] res
        stays_readings split: option.splits)
qed (simp add: stays_readings)

lemma handled_remove_operation:
  assumes "own_places op \<subseteq> A"
  shows "handled w pf op A (remove_operation_artifacts op (journal_path l op)) s"
proof (rule stays_remove_operation)
  have "journal_path l op \<in> own_places op" by (simp add: own_places_def)
  with assms show "journal_path l op \<in> A" by blast
qed (use assms in \<open>simp_all add: own_places_def\<close>)

lemma handled_complete:
  assumes own: "own_places op \<subseteq> A" and "named_by pf (journal_places op) s \<subseteq> A"
  shows "handled w pf op A (complete pf (PreparedMaterialization op)) s"
  unfolding complete_def Let_def PreparedMaterialization.sel
proof (rule handled_layout, rule handled_located [OF assms], goal_cases)
  case (2 l j t)
  show ?case
    by (auto intro!: stays_seq handled_if handled_resolve handled_transition [OF own] handled_remove_operation own
        stays_readings)
qed (simp add: stays_readings)

lemma handled_compensate:
  assumes own: "own_places op \<subseteq> A" and "named_by pf (journal_places op) s \<subseteq> A"
  shows "handled w pf op A (compensate pf (PreparedMaterialization op)) s"
  unfolding compensate_def Let_def PreparedMaterialization.sel
proof (rule handled_layout, rule handled_located [OF assms], goal_cases)
  case (2 l j t)
  have res: "handled w pf op A (restore_backup pf op (profile_place (mj_managed_path j)) h) t'" for h t'
    by (rule handled_only_files [OF _ own 2(1)]) (auto intro!: keeping)
  show ?case
    by (auto intro!: stays_seq handled_if handled_resolve handled_when handled_transition [OF own] res
        handled_remove_operation own stays_readings)
qed (simp add: stays_readings)

lemma handled_discard: "own_places op \<subseteq> A \<Longrightarrow> handled w pf op A (discard_materialization op l) s"
  unfolding discard_materialization_def by (rule handled_remove_operation)

lemma handled_then:
  assumes "handled w pf op A m s"
    and "\<And>x t. named_by pf (journal_places op) t \<subseteq> named_by pf (journal_places op) s \<Longrightarrow> handled w pf op A (k x) t"
  shows "handled w pf op A (io_bind m k) s"
  by (rule stays_bind [OF assms(1), where P = "\<lambda>x t. True"])
    (use assms in \<open>auto simp: stays_def within_def elim: runs_mono\<close>)

text \<open>Recovering an operation touches nothing but its own places and the file its journals name.\<close>

lemma handled_recover:
  assumes own: "own_places op \<subseteq> A" and N: "named_by pf (journal_places op) s \<subseteq> A"
  shows "handled w pf op A (recover_operation pf profiles l op) s"
  unfolding recover_operation_def
proof (rule handled_located [OF assms], goal_cases)
  case (2 l' j t)
  let ?p = "PreparedMaterialization op" and ?target = "profile_place (mj_managed_path j)"
  have sub: "named_by pf (journal_places op) u \<subseteq> A" if "named_by pf (journal_places op) u \<subseteq> named_by pf (journal_places op) t" for u
    using that 2(2) by blast
  note ops = handled_promote [OF own] handled_complete [OF own] handled_compensate [OF own] handled_discard [OF own]
  have rm: "handled w pf op A (remove_nofollow ?target) u" for u
    by (rule handled_only_files [OF _ own 2(1)]) (auto intro!: keeping)
  have superseded: "handled w pf op A (recover_superseded pf op l' ?target active match) u"
    if "named_by pf (journal_places op) u \<subseteq> A" for active match u
    unfolding recover_superseded_def Let_def io_yield_def
    by (intro handled_if handled_then ops handled_when rm stays_readings) (use that in blast)+
  have current: "handled w pf op A (recover_current pf op l' match) u"
    if "named_by pf (journal_places op) u \<subseteq> A" for match u
    unfolding recover_current_def Let_def io_yield_def
    by (intro handled_if handled_then ops stays_readings) (use that in blast)+
  have body: "handled w pf op A (io_bind (path_hash pf ?target) (\<lambda>h.
      let active = (mj_managed_path j \<in> set (active_managed_paths profiles)); target_matches = (h = mj_hash j)
      in if l' = StateCompensating \<or> l' = FileCompensating then io_yield (compensate pf ?p) Compensated
         else if mj_revision j < pr_revision profiles then recover_superseded pf op l' ?target active target_matches
         else if pr_revision profiles < mj_revision j \<or> \<not> active then io_yield (compensate pf ?p) Compensated
         else recover_current pf op l' target_matches)) u"
    if "named_by pf (journal_places op) u \<subseteq> A" for u
    unfolding Let_def io_yield_def
    by (intro handled_if handled_then superseded current ops stays_readings) (use that in blast)+
  have "handled w pf op A (io_bind (resolve (mj_managed_path j)) (\<lambda>target. io_bind (path_hash pf target) (\<lambda>h.
      let active = (mj_managed_path j \<in> set (active_managed_paths profiles)); target_matches = (h = mj_hash j)
      in if l' = StateCompensating \<or> l' = FileCompensating then io_yield (compensate pf ?p) Compensated
         else if mj_revision j < pr_revision profiles then recover_superseded pf op l' target active target_matches
         else if pr_revision profiles < mj_revision j \<or> \<not> active then io_yield (compensate pf ?p) Compensated
         else recover_current pf op l' target_matches))) t"
  proof (rule stays_bind [OF _ resolve_place])
    fix q u
    assume "q = profile_place (mj_managed_path j)" "within pf (journal_places op) A t u"
    then show "handled w pf op A (io_bind (path_hash pf q) (\<lambda>h.
      let active = (mj_managed_path j \<in> set (active_managed_paths profiles)); target_matches = (h = mj_hash j)
      in if l' = StateCompensating \<or> l' = FileCompensating then io_yield (compensate pf ?p) Compensated
         else if mj_revision j < pr_revision profiles then recover_superseded pf op l' q active target_matches
         else if pr_revision profiles < mj_revision j \<or> \<not> active then io_yield (compensate pf ?p) Compensated
         else recover_current pf op l' target_matches)) u"
      using body 2(2) by (auto simp: within_def)
  qed (rule stays_readings)
  then show ?case by (auto simp: stays_readings)
qed (simp add: stays_readings)

section \<open>Handling one cleanup\<close>

lemma stays_attempt: "stays w pf J A m s \<Longrightarrow> stays w pf J A (io_attempt m) s"
  unfolding stays_def by (rule runs_attempt) (erule runs_mono; simp)

lemma stays_if: "(b \<Longrightarrow> stays w pf J A m s) \<Longrightarrow> (\<not> b \<Longrightarrow> stays w pf J A n s) \<Longrightarrow> stays w pf J A (if b then m else n) s"
  by simp

lemma find_cleanup_names:
  "runs w (find_cleanup pf op ph)
     (\<lambda>r t. t = s \<and> (\<forall>j. r = Some j \<longrightarrow> profile_place (mj_managed_path j) \<in> named_by pf (cleanup_places op) s))
     (\<lambda>t. t = s) (\<lambda>t. t = s) s"
proof -
  have "runs w (io_bind (read_journal pf (cleanup_path ph op) op) (\<lambda>j. io_return (Some j)))
     (\<lambda>r t. t = s \<and> (\<forall>j. r = Some j \<longrightarrow> profile_place (mj_managed_path j) \<in> named_by pf (cleanup_places op) s))
     (\<lambda>t. t = s) (\<lambda>t. t = s) s"
    by (rule runs_bind, rule runs_mono [OF read_journal_names [where J = "cleanup_places op"]])
      (auto intro: runs_return)
  then show ?thesis
    unfolding find_cleanup_def
    by (auto intro!: runs_flow(3) runs_symlink_metadata intro: runs_return runs_bail split: option.splits)
qed

lemma locate_cleanup_names:
  assumes "cleanup_places op \<subseteq> A"
  shows "runs w (locate_cleanup pf op)
    (\<lambda>r t. within pf (cleanup_places op) A s t \<and>
       (\<forall>ph j. r = Some (ph, j) \<longrightarrow> profile_place (mj_managed_path j) \<in> named_by pf (cleanup_places op) s))
    (within pf (cleanup_places op) A s) (within pf (cleanup_places op) A s) s"
    (is "runs w _ ?T ?W ?W s")
proof -
  let ?N = "named_by pf (cleanup_places op) s"
  have final: "runs w
      (case (pending, ready) of
         (None, None) \<Rightarrow> io_return None
       | (Some journal, None) \<Rightarrow> io_return (Some (CleanupPending, journal))
       | (None, Some journal) \<Rightarrow> io_return (Some (CleanupReady, journal))
       | (Some p, Some r) \<Rightarrow>
           if p = r
           then io_bind (remove_private_regular (cleanup_path CleanupPending op)) (\<lambda>_. io_return (Some (CleanupReady, r)))
           else io_bail ''cleanup journals have conflicting payloads'') ?T ?W ?W s"
    if "\<forall>j. pending = Some j \<longrightarrow> profile_place (mj_managed_path j) \<in> ?N"
      "\<forall>j. ready = Some j \<longrightarrow> profile_place (mj_managed_path j) \<in> ?N" for pending ready
  proof -
    have "stays w pf (cleanup_places op) A (remove_private_regular (cleanup_path CleanupPending op)) s"
      by (rule stays_remove_private) (use assms places_in(8) [of CleanupPending op] in blast)
    then show ?thesis
      using that unfolding stays_def
      by (auto split: option.splits intro!: runs_return runs_bail runs_bind elim!: runs_mono)
  qed
  have W: "?W s" by simp
  show ?thesis
  proof (cases "valid_operation_id op")
    case True
    show ?thesis
      unfolding locate_cleanup_def
      apply (simp only: True not_True_eq_False if_False)
      apply (rule runs_bind, rule runs_mono [OF find_cleanup_names])
        apply (simp only:)
        apply (rule runs_bind, rule runs_mono [OF find_cleanup_names])
          apply (simp only:)
          apply (rule final)
      by auto
  next
    case False
    then show ?thesis by (simp add: locate_cleanup_def runs_bail)
  qed
qed

lemma stays_located_cleanup:
  assumes own: "cleanup_places op \<subseteq> A" and N: "named_by pf (cleanup_places op) s \<subseteq> A"
    and none: "\<And>t. stays w pf (cleanup_places op) A (k None) t"
    and some: "\<And>ph j t. profile_place (mj_managed_path j) \<in> A \<Longrightarrow> named_by pf (cleanup_places op) t \<subseteq> A \<Longrightarrow>
      stays w pf (cleanup_places op) A (k (Some (ph, j))) t"
  shows "stays w pf (cleanup_places op) A (io_bind (locate_cleanup pf op) k) s"
proof (rule stays_bind)
  note names = locate_cleanup_names [OF own, of w pf s]
  show "stays w pf (cleanup_places op) A (locate_cleanup pf op) s"
    unfolding stays_def by (rule runs_mono [OF names]) auto
  show "runs w (locate_cleanup pf op)
      (\<lambda>(r :: (CleanupPhase \<times> MaterializationJournal) option) t. \<forall>ph j. r = Some (ph, j) \<longrightarrow>
         profile_place (mj_managed_path j) \<in> named_by pf (cleanup_places op) s)
      (\<lambda>_. True) (\<lambda>_. True) s"
    by (rule runs_mono [OF names]) auto
  fix t and r :: "(CleanupPhase \<times> MaterializationJournal) option"
  assume r: "\<forall>ph j. r = Some (ph, j) \<longrightarrow> profile_place (mj_managed_path j) \<in> named_by pf (cleanup_places op) s"
    and t: "within pf (cleanup_places op) A s t"
  show "stays w pf (cleanup_places op) A (k r) t"
    using r t N by (cases r) (auto intro!: none some simp: within_def)
qed

lemma stays_layout:
  assumes "stays w pf J A (k ()) s"
  shows "stays w pf J A (io_bind ensure_materialization_layout k) s"
proof (rule stays_bind [where P = "\<lambda>x t. t = s"])
  show "runs w ensure_materialization_layout (\<lambda>x t. t = s) (\<lambda>_. True) (\<lambda>_. True) s"
    unfolding ensure_materialization_layout_def by (rule runs_probe) auto
qed (use assms in \<open>auto intro: stays_readings\<close>)

lemma stays_cleanup_journal:
  assumes "cleanup_places op \<subseteq> A"
  shows "stays w pf J A (remove_cleanup_journal op) s"
    and "stays w pf (cleanup_places op) A (transition_cleanup_journal pf op ph ph') s"
    and "stays w pf J A (remove_private_regular (cleanup_path ph op)) s"
proof -
  have q: "cleanup_path ph op \<in> A" for ph using assms places_in(8) [of ph op] by blast
  then show "stays w pf J A (remove_cleanup_journal op) s"
    unfolding remove_cleanup_journal_def by (intro stays_seq stays_remove_private)
  show "stays w pf (cleanup_places op) A (transition_cleanup_journal pf op ph ph') s"
    unfolding transition_cleanup_journal_def using q by (intro stays_transition_private) simp_all
  show "stays w pf J A (remove_private_regular (cleanup_path ph op)) s"
    using q by (rule stays_remove_private)
qed

lemma stays_activate:
  assumes "cleanup_places op \<subseteq> A" and "named_by pf (cleanup_places op) s \<subseteq> A"
  shows "stays w pf (cleanup_places op) A (activate_cleanup pf (PreparedCleanup op)) s"
  unfolding activate_cleanup_def Let_def PreparedCleanup.sel
  by (rule stays_layout, rule stays_located_cleanup [OF assms])
    (auto intro: stays_readings stays_cleanup_journal [OF assms(1)] split: CleanupPhase.splits)

lemma stays_cancel:
  assumes "cleanup_places op \<subseteq> A" and "named_by pf (cleanup_places op) s \<subseteq> A"
  shows "stays w pf (cleanup_places op) A (cancel_cleanup pf (PreparedCleanup op)) s"
  unfolding cancel_cleanup_def Let_def PreparedCleanup.sel
  by (rule stays_layout, rule stays_located_cleanup [OF assms])
    (auto intro: stays_readings stays_cleanup_journal [OF assms(1)] split: CleanupPhase.splits)

lemma cleanup_files [simp]: "cleanup_places op \<inter> journal_places op' = {}" "artifact_places op' \<inter> cleanup_places op = {}"
  by (auto simp: cleanup_places_def journal_places_def artifact_places_def place_defs)

lemma stays_then:
  assumes "stays w pf J A m s"
    and "\<And>x t. named_by pf J t \<subseteq> named_by pf J s \<Longrightarrow> stays w pf J A (k x) t"
  shows "stays w pf J A (io_bind m k) s"
  by (rule stays_bind [OF assms(1), where P = "\<lambda>x t. True"])
    (use assms in \<open>auto simp: stays_def within_def elim: runs_mono\<close>)

text \<open>Retrying a cleanup touches nothing but its journals and the file they name.\<close>

lemma stays_retry:
  assumes own: "cleanup_places op \<subseteq> A" and N: "named_by pf (cleanup_places op) s \<subseteq> A"
  shows "stays w pf (cleanup_places op) A (retry_cleanup pf (PreparedCleanup op) profiles) s"
  unfolding retry_cleanup_def Let_def PreparedCleanup.sel
proof (rule stays_layout, rule stays_located_cleanup [OF assms], goal_cases)
  case (2 ph j t)
  have rm: "stays w pf (cleanup_places op) A (remove_cleanup_target (profile_place (mj_managed_path j))) u" for u
    unfolding remove_cleanup_target_def
    by (rule stays_only [where B = "{profile_place (mj_managed_path j)}"]) (use 2 in \<open>auto intro!: keeping\<close>)
  note parts = stays_readings stays_cleanup_journal(1) [OF own] rm
  have act: "stays w pf (cleanup_places op) A (io_when (ph = CleanupPending) (activate_cleanup pf (PreparedCleanup op))) t"
    using stays_activate [OF own 2(2)] by (simp add: io_when_def stays_readings)
  have rest: "stays w pf (cleanup_places op) A
      (io_bind (resolve (mj_managed_path j)) (\<lambda>target. io_bind (path_hash pf target) (\<lambda>h.
        if h = absent_hash then io_bind (remove_cleanup_journal op) (\<lambda>_. io_return AlreadyAbsent)
        else if h \<noteq> mj_hash j then io_bind (remove_cleanup_journal op) (\<lambda>_. io_return FencedHashMismatch)
        else io_bind (remove_cleanup_target target) (\<lambda>_. io_bind (remove_cleanup_journal op) (\<lambda>_. io_return Removed))))) u" for u
    by (rule stays_bind [OF _ resolve_place]) (auto intro!: stays_seq stays_if parts)
  have "stays w pf (cleanup_places op) A
      (io_bind (io_when (ph = CleanupPending) (activate_cleanup pf (PreparedCleanup op))) (\<lambda>_.
       if mj_managed_path j \<in> set (active_managed_paths profiles)
       then io_bind (remove_cleanup_journal op) (\<lambda>_. io_return FencedActivePath)
       else io_bind (resolve (mj_managed_path j)) (\<lambda>target. io_bind (path_hash pf target) (\<lambda>h.
        if h = absent_hash then io_bind (remove_cleanup_journal op) (\<lambda>_. io_return AlreadyAbsent)
        else if h \<noteq> mj_hash j then io_bind (remove_cleanup_journal op) (\<lambda>_. io_return FencedHashMismatch)
        else io_bind (remove_cleanup_target target) (\<lambda>_. io_bind (remove_cleanup_journal op) (\<lambda>_. io_return Removed)))))) t"
    by (rule stays_seq [OF act], rule stays_if, rule stays_seq, rule parts, rule parts, rule rest)
  then show ?case by simp
qed (simp add: stays_readings)

end
