(* ===== verification/Profile_Recovery.thy ===== *)
theory Profile_Recovery
  imports Profile_Frames
begin

text \<open>
  One change of one managed profile, through the file service: the states its journal, its staged content,
  its backup and the file itself go through, and what each operation of the service makes of them,
  whatever call the run is stopped in.

  \<open>live ch l\<close> is the change with its journal at the location \<open>l\<close>: the backup is complete, and the file is
  the old one or the new one. \<open>gone ch x\<close> is the change without a journal, the file being \<open>x\<close>. Every
  operation leads from one of these states to another (\<open>promote_live\<close>, \<open>complete_live\<close>,
  \<open>compensate_live\<close>, \<open>prepare_acts\<close>), and recovering a live change without faults ends it
  (\<open>recover_live\<close>).
\<close>

section \<open>Runs that stop only for faults\<close>

text \<open>\<open>m\<close> returns with \<open>P\<close>, unless a fault stops it, then with \<open>A\<close>.\<close>

definition acts ::
    "weather \<Rightarrow> 'a io \<Rightarrow> ('a \<Rightarrow> (place \<Rightarrow> node option) \<Rightarrow> bool) \<Rightarrow> ((place \<Rightarrow> node option) \<Rightarrow> bool) \<Rightarrow>
     (place \<Rightarrow> node option) \<Rightarrow> bool" where
  "acts w m P A s = runs w m P (\<lambda>t. w = Stormy \<and> A t) (\<lambda>t. w \<noteq> Calm \<and> A t) s"

lemma acts_mono: "acts w m P' A' s \<Longrightarrow> (\<And>x t. P' x t \<Longrightarrow> P x t) \<Longrightarrow> (\<And>t. A' t \<Longrightarrow> A t) \<Longrightarrow> acts w m P A s"
  unfolding acts_def by (erule runs_mono) auto

lemma acts_return: "P x s \<Longrightarrow> acts w (io_return x) P A s"
  unfolding acts_def by (rule runs_return)

lemma acts_bind: "acts w m P A s \<Longrightarrow> (\<And>x t. P x t \<Longrightarrow> acts w (k x) Q A t) \<Longrightarrow> acts w (io_bind m k) Q A s"
  unfolding acts_def by (rule runs_bind) (erule runs_mono; simp)

lemma acts_when: "(b \<Longrightarrow> acts w m P A s) \<Longrightarrow> (\<not> b \<Longrightarrow> P () s) \<Longrightarrow> acts w (io_when b m) P A s"
  unfolding acts_def by (rule runs_when)

lemma acts_yield: "acts w m (\<lambda>_ t. P x t) A s \<Longrightarrow> acts w (io_yield m x) P A s"
  unfolding io_yield_def by (erule acts_bind) (rule acts_return)

lemma acts_calls:
  "P () s \<Longrightarrow> A s \<Longrightarrow> acts w (probe msg) P A s"
  "P () s \<Longrightarrow> A s \<Longrightarrow> acts w sync_directory P A s"
  "P () s \<Longrightarrow> A s \<Longrightarrow> acts w set_private_file_permissions P A s"
  "P () s \<Longrightarrow> A s \<Longrightarrow> acts w ensure_managed_parent P A s"
  "P () s \<Longrightarrow> A s \<Longrightarrow> acts w ensure_materialization_layout P A s"
  unfolding acts_def ensure_managed_parent_def ensure_materialization_layout_def
  by (rule runs_calls; simp)+

lemma acts_symlink_metadata: "P (s q) s \<Longrightarrow> A s \<Longrightarrow> acts w (symlink_metadata msg q) P A s"
  unfolding acts_def by (rule runs_calls) auto

lemma acts_read_link: "s q = Some (Symbolic_link t) \<Longrightarrow> P t s \<Longrightarrow> A s \<Longrightarrow> acts w (read_link msg q) P A s"
  unfolding acts_def by (rule runs_calls) auto

lemma acts_read_bytes: "s q = Some (Regular c) \<Longrightarrow> P c s \<Longrightarrow> A s \<Longrightarrow> acts w (read_bytes msg q) P A s"
  unfolding acts_def by (rule runs_calls) auto

lemma acts_open_new:
  "s q = None \<Longrightarrow> P () (s(q \<mapsto> Regular [])) \<Longrightarrow> A s \<Longrightarrow> A (s(q \<mapsto> Regular [])) \<Longrightarrow> acts w (open_new msg q) P A s"
  unfolding acts_def by (rule runs_calls) auto

lemma acts_write_all:
  "P () (s(q \<mapsto> Regular c)) \<Longrightarrow> A s \<Longrightarrow> (\<And>n. A (s(q \<mapsto> Regular (take n c)))) \<Longrightarrow> acts w (write_all msg q c) P A s"
  unfolding acts_def by (rule runs_calls) auto

lemma acts_atomic_write_new:
  "s q = None \<Longrightarrow> P () (s(q \<mapsto> Regular c)) \<Longrightarrow> A s \<Longrightarrow> A (s(q \<mapsto> Regular c)) \<Longrightarrow>
     acts w (atomic_write_new msg q c) P A s"
  unfolding acts_def by (rule runs_calls) auto

lemma acts_remove_file:
  "s q = Some x \<Longrightarrow> x \<noteq> Directory \<Longrightarrow> P () (s(q := None)) \<Longrightarrow> A s \<Longrightarrow> A (s(q := None)) \<Longrightarrow>
     acts w (remove_file msg q) P A s"
  unfolding acts_def by (rule runs_calls) auto

lemma acts_replace_atomic:
  "s q = Some x \<Longrightarrow> x \<noteq> Directory \<Longrightarrow> s r \<noteq> Some Directory \<Longrightarrow> P () (s(q := None, r \<mapsto> x)) \<Longrightarrow> A s \<Longrightarrow>
     A (s(q := None, r \<mapsto> x)) \<Longrightarrow> acts w (replace_atomic msg q r) P A s"
  unfolding acts_def by (rule runs_calls) auto

lemma acts_create_file_symlink:
  "s q = None \<Longrightarrow> P () (s(q \<mapsto> Symbolic_link t)) \<Longrightarrow> A s \<Longrightarrow> A (s(q \<mapsto> Symbolic_link t)) \<Longrightarrow>
     acts w (create_file_symlink msg t q) P A s"
  unfolding acts_def by (rule runs_calls) auto

text \<open>Reading: the file system is as before.\<close>

definition reads :: "weather \<Rightarrow> 'a io \<Rightarrow> 'a \<Rightarrow> (place \<Rightarrow> node option) \<Rightarrow> bool" where
  "reads w m x s = acts w m (\<lambda>y t. y = x \<and> t = s) (\<lambda>t. t = s) s"

lemma acts_reads: "reads w m x s \<Longrightarrow> P x s \<Longrightarrow> A s \<Longrightarrow> acts w m P A s"
  unfolding reads_def by (erule acts_mono) auto

lemma reads_bind: "reads w m x s \<Longrightarrow> reads w (k x) y s \<Longrightarrow> reads w (io_bind m k) y s"
  unfolding reads_def by (erule acts_bind) simp

lemma acts_reads_bind:
  assumes "reads w m x s" and "A s" and "acts w (k x) P A s"
  shows "acts w (io_bind m k) P A s"
  by (rule acts_bind [OF acts_reads [OF assms(1), where P = "\<lambda>y t. y = x \<and> t = s"]]) (use assms in auto)

lemma reads_return: "reads w (io_return x) x s"
  unfolding reads_def by (rule acts_return) simp

lemma reads_for:
  "(\<And>x f. reads w (g x f) (h x f) s) \<Longrightarrow> reads w (io_for g xs f) (fold h xs f) s"
proof (induction xs arbitrary: f)
  case Nil
  then show ?case by (simp add: reads_return)
next
  case (Cons x xs)
  then show ?case by (auto intro: reads_bind)
qed

lemma acts_each:
  assumes "\<And>x t. x \<in> set xs \<Longrightarrow> I t \<Longrightarrow> acts w (f x) (\<lambda>_ t'. t' = upd x t \<and> I t') A t"
    and "I s"
  shows "acts w (io_each f xs) (\<lambda>_ t. t = fold upd xs s \<and> I t) A s"
  using assms
proof (induction xs arbitrary: s)
  case Nil
  then show ?case by (simp add: acts_return)
next
  case (Cons x xs)
  show ?case
    unfolding io_each.simps
    by (rule acts_bind [OF Cons.prems(1)]) (use Cons in auto)
qed

section \<open>Changes\<close>

record Change =
  ch_op :: string
  ch_path :: ManagedProfilePath
  ch_revision :: u64
  ch_old :: "node option"
  ch_new :: node

definition node_hash :: "FilePlatform \<Rightarrow> node option \<Rightarrow> string" where
  "node_hash pf x =
     (case x of
        None \<Rightarrow> absent_hash
      | Some (Regular c) \<Rightarrow> hash_tagged pf ''file'' c
      | Some (Symbolic_link t) \<Rightarrow> hash_tagged pf ''symlink'' t
      | Some Directory \<Rightarrow> [])"

definition journal_of :: "FilePlatform \<Rightarrow> Change \<Rightarrow> MaterializationJournal" where
  "journal_of pf ch =
     \<lparr>mj_managed_path = ch_path ch, mj_operation_id = ch_op ch, mj_revision = ch_revision ch,
      mj_hash = node_hash pf (Some (ch_new ch))\<rparr>"

definition journal_text :: "FilePlatform \<Rightarrow> Change \<Rightarrow> string" where
  "journal_text pf ch = the (fp_to_yaml pf (journal_of pf ch))"

abbreviation target_of :: "Change \<Rightarrow> place" where
  "target_of ch \<equiv> profile_place (ch_path ch)"

text \<open>A file, or a symbolic link whose target can be recorded.\<close>

definition sound_node :: "node \<Rightarrow> bool" where
  "sound_node x =
     (case x of Regular c \<Rightarrow> True
      | Symbolic_link t \<Rightarrow> from_utf8 t \<and> external_new t = Inr (ExternalProfilePath t)
      | Directory \<Rightarrow> False)"

definition change_ok :: "FilePlatform \<Rightarrow> Change \<Rightarrow> bool" where
  "change_ok pf ch \<longleftrightarrow>
     valid_operation_id (ch_op ch) \<and> \<not> uses_private_storage (ch_path ch) \<and>
     sound_node (ch_new ch) \<and> pred_option sound_node (ch_old ch) \<and>
     length (node_hash pf (Some (ch_new ch))) = 64 \<and> list_all is_ascii_hexdigit (node_hash pf (Some (ch_new ch))) \<and>
     fp_to_yaml pf (journal_of pf ch) \<noteq> None \<and> from_utf8 (journal_text pf ch) \<and>
     fp_from_yaml pf (journal_text pf ch) = Some (journal_of pf ch) \<and>
     inj_on (node_hash pf) {None, ch_old ch, Some (ch_new ch)}"

lemma change_ok_parts:
  assumes "change_ok pf ch"
  shows "valid_operation_id (ch_op ch)" "\<not> uses_private_storage (ch_path ch)" "sound_node (ch_new ch)"
    "pred_option sound_node (ch_old ch)" "from_utf8 (journal_text pf ch)"
    "fp_from_yaml pf (journal_text pf ch) = Some (journal_of pf ch)"
    "fp_to_yaml pf (journal_of pf ch) = Some (journal_text pf ch)"
    "check_journal (ch_op ch) (journal_of pf ch) = None"
proof -
  note ok = assms [unfolded change_ok_def]
  show "valid_operation_id (ch_op ch)" "\<not> uses_private_storage (ch_path ch)" "sound_node (ch_new ch)"
    "pred_option sound_node (ch_old ch)" "from_utf8 (journal_text pf ch)"
    "fp_from_yaml pf (journal_text pf ch) = Some (journal_of pf ch)"
    using ok by blast+
  have "fp_to_yaml pf (journal_of pf ch) \<noteq> None" using ok by blast
  then show "fp_to_yaml pf (journal_of pf ch) = Some (journal_text pf ch)" unfolding journal_text_def by force
  have "length (node_hash pf (Some (ch_new ch))) = 64" "list_all is_ascii_hexdigit (node_hash pf (Some (ch_new ch)))"
    "valid_operation_id (ch_op ch)" "\<not> uses_private_storage (ch_path ch)"
    using ok by blast+
  then show "check_journal (ch_op ch) (journal_of pf ch) = None" by (simp add: check_journal_def journal_of_def)
qed

lemma change_hash:
  assumes "change_ok pf ch" and "x \<in> {None, ch_old ch, Some (ch_new ch)}" and "y \<in> {None, ch_old ch, Some (ch_new ch)}"
  shows "node_hash pf x = node_hash pf y \<longleftrightarrow> x = y"
proof -
  have "inj_on (node_hash pf) {None, ch_old ch, Some (ch_new ch)}" using assms(1) unfolding change_ok_def by blast
  then show ?thesis using assms(2,3) by (metis inj_onD)
qed

section \<open>States of a change\<close>

definition is_compensating :: "JournalLocation \<Rightarrow> bool" where
  "is_compensating l = (l = StateCompensating \<or> l = FileCompensating)"

definition journal_at :: "FilePlatform \<Rightarrow> Change \<Rightarrow> JournalLocation \<Rightarrow> (place \<Rightarrow> node option) \<Rightarrow> bool" where
  "journal_at pf ch l s =
     (\<forall>l'. s (journal_path l' (ch_op ch)) = (if l' = l then Some (Regular (journal_text pf ch)) else None))"

definition backed_up :: "Change \<Rightarrow> (place \<Rightarrow> node option) \<Rightarrow> bool" where
  "backed_up ch s \<longleftrightarrow>
     s (backup_file_path (ch_op ch)) = (case ch_old ch of Some (Regular c) \<Rightarrow> Some (Regular c) | _ \<Rightarrow> None) \<and>
     s (backup_link_path (ch_op ch)) = (case ch_old ch of Some (Symbolic_link t) \<Rightarrow> Some (Regular t) | _ \<Rightarrow> None)"

definition staged :: "Change \<Rightarrow> (place \<Rightarrow> node option) \<Rightarrow> bool" where
  "staged ch s \<longleftrightarrow>
     s (stage_file_path (ch_op ch)) = (case ch_new ch of Regular c \<Rightarrow> Some (Regular c) | _ \<Rightarrow> None) \<and>
     s (stage_link_path (ch_op ch)) = (case ch_new ch of Symbolic_link t \<Rightarrow> Some (Regular t) | _ \<Rightarrow> None)"

text \<open>A ready link is what the next replacement of the file will move into place.\<close>

definition ready_ok :: "Change \<Rightarrow> JournalLocation \<Rightarrow> (place \<Rightarrow> node option) \<Rightarrow> bool" where
  "ready_ok ch l s \<longleftrightarrow>
     (let ready = s (ready_link_path (ch_op ch)); target = s (target_of ch)
      in ready = None \<or>
         ready = Some (ch_new ch) \<and> is_link (ch_new ch) \<and> target = ch_old ch \<or>
         ready = ch_old ch \<and> pred_option is_link (ch_old ch) \<and> target = Some (ch_new ch) \<and> is_compensating l)"

definition private_files_ok :: "Change \<Rightarrow> (place \<Rightarrow> node option) \<Rightarrow> bool" where
  "private_files_ok ch s \<longleftrightarrow>
     (\<forall>q \<in> {stage_file_path (ch_op ch), restore_file_path (ch_op ch), stage_link_path (ch_op ch),
            backup_file_path (ch_op ch), backup_link_path (ch_op ch)}. pred_option is_regular (s q)) \<and>
     s (ready_link_path (ch_op ch)) \<noteq> Some Directory"

definition live :: "FilePlatform \<Rightarrow> Change \<Rightarrow> JournalLocation \<Rightarrow> (place \<Rightarrow> node option) \<Rightarrow> bool" where
  "live pf ch l s \<longleftrightarrow>
     journal_at pf ch l s \<and> backed_up ch s \<and> private_files_ok ch s \<and> ready_ok ch l s \<and>
     (s (target_of ch) = ch_old ch \<or> s (target_of ch) = Some (ch_new ch)) \<and>
     (is_compensating l \<or> s (target_of ch) = Some (ch_new ch) \<or> staged ch s)"

definition gone :: "Change \<Rightarrow> node option \<Rightarrow> (place \<Rightarrow> node option) \<Rightarrow> bool" where
  "gone ch x s \<longleftrightarrow>
     (\<forall>l. s (journal_path l (ch_op ch)) = None) \<and> s (target_of ch) = x \<and> private_files_ok ch s"

section \<open>Reading the files of a change\<close>

lemma reads_calls:
  "reads w (probe msg) () s" "reads w sync_directory () s" "reads w set_private_file_permissions () s"
  "reads w ensure_managed_parent () s" "reads w ensure_materialization_layout () s"
  unfolding reads_def by (rule acts_calls; simp)+

lemma reads_metadata: "reads w (symlink_metadata msg q) (s q) s"
  unfolding reads_def by (rule acts_symlink_metadata) auto

lemma reads_bytes: "s q = Some (Regular c) \<Longrightarrow> reads w (read_bytes msg q) c s"
  unfolding reads_def by (rule acts_read_bytes) auto

lemma reads_link: "s q = Some (Symbolic_link t) \<Longrightarrow> reads w (read_link msg q) t s"
  unfolding reads_def by (rule acts_read_link) auto

lemma reads_to_string: "s q = Some (Regular c) \<Longrightarrow> from_utf8 c \<Longrightarrow> reads w (read_to_string msg q) c s"
  unfolding read_to_string_def by (rule reads_bind [OF reads_bytes]) (auto intro: reads_return)

lemma reads_resolve: "\<not> uses_private_storage p \<Longrightarrow> reads w (resolve p) (profile_place p) s"
  unfolding resolve_def by (auto intro: reads_bind reads_calls reads_return)

lemma reads_replaceable: "s q \<noteq> Some Directory \<Longrightarrow> reads w (ensure_replaceable_target q) () s"
  unfolding ensure_replaceable_target_def by (rule reads_bind [OF reads_metadata]) (auto intro: reads_return)

lemma reads_external: "external_new t = Inr (ExternalProfilePath t) \<Longrightarrow> reads w (external_path t) (ExternalProfilePath t) s"
  by (simp add: external_path_def reads_return)

lemma reads_path_hash:
  "pred_option sound_node (s q) \<Longrightarrow> reads w (path_hash pf q) (node_hash pf (s q)) s"
  unfolding path_hash_def
  by (rule reads_bind [OF reads_metadata])
    (auto simp: node_hash_def sound_node_def split: option.splits node.splits
      intro!: reads_return reads_bind [OF reads_bytes] reads_bind [OF reads_link])

lemma reads_journal:
  assumes "change_ok pf ch" and "s q = Some (Regular (journal_text pf ch))"
  shows "reads w (read_journal pf q (ch_op ch)) (journal_of pf ch) s"
  unfolding read_journal_def
  apply (rule reads_bind [OF reads_metadata])
  using assms change_ok_parts [OF assms(1)]
  by (auto simp: is_regular_def intro!: reads_bind [OF reads_to_string] reads_return)

lemma reads_find_journal:
  assumes "change_ok pf ch" and "journal_at pf ch l s"
  shows "reads w (find_journal pf (ch_op ch) l' found)
    (if l' = l then found @ [(l, journal_of pf ch, journal_path l (ch_op ch))] else found) s"
proof (cases "l' = l")
  case True
  have q: "s (journal_path l (ch_op ch)) = Some (Regular (journal_text pf ch))"
    using assms(2) by (simp add: journal_at_def)
  show ?thesis
    unfolding find_journal_def
    by (rule reads_bind [OF reads_metadata])
      (auto simp: True q is_regular_def intro!: reads_bind [OF reads_journal [OF assms(1)]] reads_return)
next
  case False
  then have "s (journal_path l' (ch_op ch)) = None" using assms(2) by (simp add: journal_at_def)
  with False show ?thesis
    unfolding find_journal_def by (intro reads_bind [OF reads_metadata]) (auto intro: reads_return)
qed

lemma reads_locate:
  assumes "change_ok pf ch" and "journal_at pf ch l s"
  shows "reads w (locate_materialization pf (ch_op ch)) (Some (l, journal_of pf ch)) s"
proof -
  let ?f = "(l, journal_of pf ch, journal_path l (ch_op ch))"
  have all: "fold (\<lambda>l' found. if l' = l then found @ [?f] else found) journal_locations [] = [?f]"
    by (cases l) (simp_all add: journal_locations_def)
  have "reads w (io_for (find_journal pf (ch_op ch)) journal_locations []) [?f] s"
    using reads_for [of w "find_journal pf (ch_op ch)" _ s journal_locations "[]", OF reads_find_journal [OF assms]]
    unfolding all .
  moreover have "reads w (converge_materialization_journals [?f]) (Some (l, journal_of pf ch)) s"
    by (simp add: converge_materialization_journals_def)
      (rule reads_bind [where x = "()"], auto intro: reads_return)
  ultimately show ?thesis
    using change_ok_parts(1) [OF assms(1)]
    unfolding locate_materialization_def by (auto intro: reads_bind)
qed

lemma reads_locate_none:
  assumes "valid_operation_id op" and "\<And>l. s (journal_path l op) = None"
  shows "reads w (locate_materialization pf op) None s"
proof -
  have "reads w (find_journal pf op l found) found s" for l found
    unfolding find_journal_def by (rule reads_bind [OF reads_metadata]) (auto simp: assms(2) intro: reads_return)
  from reads_for [of w "find_journal pf op" "\<lambda>l found. found" s journal_locations "[]", OF this]
  have "reads w (io_for (find_journal pf op) journal_locations []) [] s"
    by (simp add: journal_locations_def)
  moreover have "reads w (converge_materialization_journals []) None s"
    by (simp add: converge_materialization_journals_def reads_return)
  ultimately show ?thesis
    using assms(1) unfolding locate_materialization_def by (auto intro: reads_bind)
qed

definition stored_backup :: "Change \<Rightarrow> StoredResource option" where
  "stored_backup ch =
     (case ch_old ch of
        Some (Regular c) \<Rightarrow> Some (StoredFile (backup_file_path (ch_op ch)))
      | Some (Symbolic_link t) \<Rightarrow> Some (StoredSymlink (ExternalProfilePath t))
      | _ \<Rightarrow> None)"

lemma reads_backup:
  assumes "change_ok pf ch" and "backed_up ch s"
  shows "reads w (read_backup_resource (ch_op ch)) (stored_backup ch) s"
  unfolding read_backup_resource_def
  apply (rule reads_bind [OF reads_metadata], rule reads_bind [OF reads_metadata])
  using assms(2) change_ok_parts(4) [OF assms(1)]
  by (auto simp: backed_up_def stored_backup_def sound_node_def is_regular_def pred_option_def
      split: option.splits node.splits
      intro!: reads_return reads_bind [OF reads_to_string] reads_bind [OF reads_external])

lemma reads_backup_hash:
  assumes "change_ok pf ch" and "backed_up ch s"
  shows "reads w (backup_hash pf (ch_op ch)) (node_hash pf (ch_old ch)) s"
  unfolding backup_hash_def
  apply (rule reads_bind [OF reads_backup [OF assms]])
  using assms(2) change_ok_parts(4) [OF assms(1)]
  by (auto simp: backed_up_def stored_backup_def node_hash_def pred_option_def sound_node_def
      split: option.splits node.splits intro!: reads_return reads_bind [OF reads_bytes])

definition stored_stage :: "Change \<Rightarrow> StoredResource option" where
  "stored_stage ch =
     (case ch_new ch of
        Regular c \<Rightarrow> Some (StoredFile (stage_file_path (ch_op ch)))
      | Symbolic_link t \<Rightarrow> Some (StoredSymlink (ExternalProfilePath t))
      | Directory \<Rightarrow> None)"

lemma reads_staged:
  assumes "change_ok pf ch" and "staged ch s"
  shows "reads w (read_staged_resource pf (ch_op ch) (node_hash pf (Some (ch_new ch)))) (stored_stage ch) s"
  unfolding read_staged_resource_def
  apply (rule reads_bind [OF reads_metadata], rule reads_bind [OF reads_metadata])
  using assms(2) change_ok_parts(3) [OF assms(1)]
  by (auto simp: staged_def stored_stage_def sound_node_def is_regular_def node_hash_def
      split: node.splits
      intro!: reads_return reads_bind [OF reads_bytes] reads_bind [OF reads_to_string] reads_bind [OF reads_external])

section \<open>Changing the files of a change\<close>

lemma place_neqs [simp]:
  "stage_file_path op \<noteq> restore_file_path op" "restore_file_path op \<noteq> stage_file_path op"
  "journal_path l op = journal_path l' op \<longleftrightarrow> l = l'"
  by (auto simp: place_defs)

lemmas live_defs = live_def journal_at_def backed_up_def private_files_ok_def ready_ok_def staged_def

lemma acts_remove_private:
  "pred_option is_regular (s q) \<Longrightarrow>
     acts w (remove_private_regular q) (\<lambda>_ t. t = s(q := None)) (\<lambda>t. t = s \<or> t = s(q := None)) s"
  unfolding remove_private_regular_def
  apply (rule acts_reads_bind [OF reads_metadata], simp)
  apply (cases "s q")
   apply (auto simp: is_regular_def split: node.splits intro!: acts_return acts_bind [OF acts_remove_file [where P = "\<lambda>_ t. t = s(q := None)"]] acts_calls)
  done

lemma acts_remove_nofollow:
  "s q \<noteq> Some Directory \<Longrightarrow>
     acts w (remove_nofollow q) (\<lambda>_ t. t = s(q := None)) (\<lambda>t. t = s \<or> t = s(q := None)) s"
  unfolding remove_nofollow_def
  apply (rule acts_reads_bind [OF reads_metadata], simp)
  apply (cases "s q")
   apply (auto split: node.splits intro!: acts_return acts_bind [OF acts_remove_file [where P = "\<lambda>_ t. t = s(q := None)"]] acts_calls)
  done

lemma acts_write_private:
  assumes "s q = None"
  shows "acts w (write_private_file_new q c) (\<lambda>_ t. t = s(q \<mapsto> Regular c))
    (\<lambda>t. t = s \<or> (\<exists>c'. t = s(q \<mapsto> Regular c'))) s"
  unfolding write_private_file_new_def
  apply (rule acts_bind [OF acts_open_new [where P = "\<lambda>_ t. t = s(q \<mapsto> Regular [])"]])
  using assms apply (auto)[4]
  apply (rule acts_bind [OF acts_write_all [where P = "\<lambda>_ t. t = s(q \<mapsto> Regular c)"]])
  by (auto intro!: acts_reads_bind [OF reads_calls(1)] acts_reads_bind [OF reads_calls(3)] acts_calls)

lemma acts_ready_link:
  assumes "s (ready_link_path op) = None \<or> s (ready_link_path op) = Some (Symbolic_link t)"
  shows "acts w (create_ready_link op (ExternalProfilePath t))
    (\<lambda>q u. q = ready_link_path op \<and> u = s(ready_link_path op \<mapsto> Symbolic_link t))
    (\<lambda>u. u = s \<or> u = s(ready_link_path op \<mapsto> Symbolic_link t)) s"
  unfolding create_ready_link_def
  apply (rule acts_reads_bind [OF reads_metadata], simp)
  using assms
  by (auto simp: fun_upd_idem intro!: acts_reads_bind [OF reads_link [where t = t]] acts_return acts_reads_bind [OF reads_calls(2)]
      acts_bind [OF acts_create_file_symlink [where P = "\<lambda>_ u. u = s(ready_link_path op \<mapsto> Symbolic_link t)"]])

lemma acts_transition:
  assumes "change_ok pf ch" and "journal_at pf ch l s" and "l \<noteq> l'"
  shows "acts w (transition_journal pf (ch_op ch) l l')
    (\<lambda>_ t. t = s(journal_path l (ch_op ch) := None, journal_path l' (ch_op ch) \<mapsto> Regular (journal_text pf ch)))
    (\<lambda>t. t = s \<or>
       t = s(journal_path l (ch_op ch) := None, journal_path l' (ch_op ch) \<mapsto> Regular (journal_text pf ch))) s"
proof -
  let ?q = "journal_path l (ch_op ch)" and ?r = "journal_path l' (ch_op ch)"
  let ?t = "s(?q := None, ?r \<mapsto> Regular (journal_text pf ch))"
  have q: "s ?q = Some (Regular (journal_text pf ch))" and r: "s ?r = None"
    using assms(2,3) by (simp_all add: journal_at_def)
  have "acts w (rename_journal_same_filesystem ?q ?r) (\<lambda>_ t. t = ?t) (\<lambda>t. t = s \<or> t = ?t) s"
    unfolding rename_journal_same_filesystem_def
    apply (rule acts_reads_bind [OF reads_metadata], simp)
    using q r by (auto simp: is_regular_def intro!: acts_bind [OF acts_replace_atomic [where P = "\<lambda>_ t. t = ?t"]]
        acts_reads_bind [OF reads_calls(2)] acts_calls)
  then show ?thesis
    unfolding transition_journal_def transition_private_journal_def
    by (intro acts_reads_bind [OF reads_journal [where s = s and q = ?q, OF assms(1) q]] acts_reads_bind [OF reads_metadata])
      (simp_all add: r)
qed

text \<open>The states under these changes.\<close>

lemma live_agree:
  assumes "live pf ch l s" and "\<And>q. q \<in> insert (target_of ch) (artifact_places (ch_op ch)) \<Longrightarrow> t q = s q"
    and "journal_at pf ch l' t" and "is_compensating l \<longrightarrow> is_compensating l'"
  shows "live pf ch l' t"
proof -
  have eqs: "t (target_of ch) = s (target_of ch)" "t (stage_file_path (ch_op ch)) = s (stage_file_path (ch_op ch))"
    "t (stage_link_path (ch_op ch)) = s (stage_link_path (ch_op ch))"
    "t (restore_file_path (ch_op ch)) = s (restore_file_path (ch_op ch))"
    "t (ready_link_path (ch_op ch)) = s (ready_link_path (ch_op ch))"
    "t (backup_file_path (ch_op ch)) = s (backup_file_path (ch_op ch))"
    "t (backup_link_path (ch_op ch)) = s (backup_link_path (ch_op ch))"
    using assms(2) by simp_all
  have "backed_up ch t = backed_up ch s" "private_files_ok ch t = private_files_ok ch s"
    "staged ch t = staged ch s" "ready_ok ch l' t = ready_ok ch l' s"
    by (simp_all only: backed_up_def private_files_ok_def staged_def ready_ok_def eqs ball_simps)
  moreover have "ready_ok ch l s \<Longrightarrow> ready_ok ch l' s" using assms(4) by (auto simp: ready_ok_def Let_def)
  ultimately show ?thesis using assms(1,3,4) by (auto simp: live_def eqs(1))
qed

lemma live_moved:
  assumes "live pf ch l s" and "l \<noteq> l'" and "is_compensating l \<longrightarrow> is_compensating l'"
  shows "live pf ch l' (s(journal_path l (ch_op ch) := None, journal_path l' (ch_op ch) \<mapsto> Regular (journal_text pf ch)))"
proof (rule live_agree [OF assms(1) _ _ assms(3)])
  show "journal_at pf ch l' (s(journal_path l (ch_op ch) := None, journal_path l' (ch_op ch) \<mapsto> Regular (journal_text pf ch)))"
    using assms(1,2) by (auto simp: live_def journal_at_def)
qed (auto simp: artifact_places_def place_defs)

lemma live_target: "live pf ch l s \<Longrightarrow> s (target_of ch) = ch_old ch \<or> s (target_of ch) = Some (ch_new ch)"
  by (simp add: live_def)

lemma live_target_sound: "change_ok pf ch \<Longrightarrow> live pf ch l s \<Longrightarrow> pred_option sound_node (s (target_of ch))"
  using live_target [of pf ch l s] change_ok_parts(3,4) [of pf ch] by auto

lemma live_target_hash:
  assumes "change_ok pf ch" and "live pf ch l s"
  shows "reads w (path_hash pf (target_of ch)) (node_hash pf (s (target_of ch))) s"
    and "node_hash pf (s (target_of ch)) = node_hash pf (Some (ch_new ch)) \<longleftrightarrow> s (target_of ch) = Some (ch_new ch)"
    and "node_hash pf (s (target_of ch)) = node_hash pf (ch_old ch) \<longleftrightarrow> s (target_of ch) = ch_old ch"
  using reads_path_hash [where s = s and q = "target_of ch", OF live_target_sound [OF assms]] live_target [OF assms(2)]
  by (auto simp: change_hash [OF assms(1)])

text \<open>The private files while the file itself or one of them changes.\<close>

lemma live_update:
  assumes "live pf ch l s"
    and "\<And>q. q \<notin> {stage_file_path (ch_op ch), stage_link_path (ch_op ch), restore_file_path (ch_op ch),
      ready_link_path (ch_op ch), target_of ch} \<Longrightarrow> t q = s q"
    and "\<And>q. q \<in> {stage_file_path (ch_op ch), stage_link_path (ch_op ch), restore_file_path (ch_op ch)} \<Longrightarrow>
      pred_option is_regular (t q)"
    and "ready_ok ch l t" and "t (ready_link_path (ch_op ch)) \<noteq> Some Directory"
    and "t (target_of ch) = ch_old ch \<or> t (target_of ch) = Some (ch_new ch)"
    and "is_compensating l \<or> t (target_of ch) = Some (ch_new ch) \<or> staged ch t"
  shows "live pf ch l t"
proof -
  have eqs: "t (backup_file_path (ch_op ch)) = s (backup_file_path (ch_op ch))"
    "t (backup_link_path (ch_op ch)) = s (backup_link_path (ch_op ch))"
    "\<And>l'. t (journal_path l' (ch_op ch)) = s (journal_path l' (ch_op ch))"
    by (rule assms(2); simp add: place_defs)+
  have "journal_at pf ch l t" "backed_up ch t"
    using assms(1) unfolding live_def journal_at_def backed_up_def eqs by blast+
  moreover have "private_files_ok ch t"
    using assms(1,3,5) unfolding live_def private_files_ok_def by (auto simp: eqs)
  ultimately show ?thesis using assms(4,6,7) by (simp add: live_def)
qed

lemma live_regular:
  "live pf ch l s \<Longrightarrow> q \<in> {stage_file_path (ch_op ch), stage_link_path (ch_op ch), restore_file_path (ch_op ch)} \<Longrightarrow>
     pred_option is_regular (s q)"
  by (auto simp: live_def private_files_ok_def)

lemma staged_upd: "q \<noteq> stage_file_path (ch_op ch) \<Longrightarrow> q \<noteq> stage_link_path (ch_op ch) \<Longrightarrow> staged ch (s(q := x)) = staged ch s"
  by (auto simp: staged_def)

lemma live_ready:
  assumes "live pf ch l s"
    and "x = None \<or> x = Some (ch_new ch) \<and> is_link (ch_new ch) \<and> s (target_of ch) = ch_old ch \<or>
      x = ch_old ch \<and> pred_option is_link (ch_old ch) \<and> s (target_of ch) = Some (ch_new ch) \<and> is_compensating l"
  shows "live pf ch l (s(ready_link_path (ch_op ch) := x))"
proof (rule live_update [OF assms(1)])
  have "x \<noteq> Some Directory" using assms(2) by (cases "ch_old ch") (auto simp: is_link_def)
  then show "(s(ready_link_path (ch_op ch) := x)) (ready_link_path (ch_op ch)) \<noteq> Some Directory" by simp
  show "ready_ok ch l (s(ready_link_path (ch_op ch) := x))"
    using assms(2) by (auto simp: ready_ok_def place_defs)
qed (use assms(1) live_regular [OF assms(1)] in \<open>auto simp: live_def staged_upd place_defs\<close>)

lemma live_restore:
  assumes "live pf ch l s" and "pred_option is_regular x"
  shows "live pf ch l (s(restore_file_path (ch_op ch) := x))"
  by (rule live_update [OF assms(1)])
    (use assms live_regular [OF assms(1)] in \<open>auto simp: live_def staged_upd ready_ok_def private_files_ok_def place_defs\<close>)

text \<open>The file becomes the new one out of staging, or the old one out of the backup.\<close>

lemma live_promoted_file:
  assumes "live pf ch l s" and "ch_new ch = Regular c" and "s (target_of ch) \<noteq> Some (ch_new ch)"
    and "\<not> is_compensating l"
  shows "live pf ch l (s(stage_file_path (ch_op ch) := None, target_of ch \<mapsto> Regular c))"
proof (rule live_update [OF assms(1)])
  show "ready_ok ch l (s(stage_file_path (ch_op ch) := None, target_of ch \<mapsto> Regular c))"
    using assms by (auto simp: live_def ready_ok_def is_link_def place_defs)
qed (use assms live_regular [OF assms(1)] in \<open>auto simp: live_def private_files_ok_def place_defs\<close>)

lemma live_promoted_link:
  assumes "live pf ch l s"
  shows "live pf ch l (s(ready_link_path (ch_op ch) := None, target_of ch \<mapsto> ch_new ch))"
  by (rule live_update [OF assms(1)])
    (use live_regular [OF assms(1)] in \<open>auto simp: ready_ok_def place_defs\<close>)

lemma live_restored_file:
  assumes "live pf ch l s" and "ch_old ch = Some x" and "is_compensating l"
    and "s (target_of ch) = Some (ch_new ch)" and "ch_old ch \<noteq> Some (ch_new ch)" and "is_regular x"
  shows "live pf ch l (s(restore_file_path (ch_op ch) := None, target_of ch \<mapsto> x))"
proof (rule live_update [OF assms(1)])
  show "ready_ok ch l (s(restore_file_path (ch_op ch) := None, target_of ch \<mapsto> x))"
    using assms by (auto simp: live_def ready_ok_def is_link_def is_regular_def place_defs split: node.splits)
qed (use assms live_regular [OF assms(1)] in \<open>auto simp: live_def private_files_ok_def place_defs\<close>)

lemma live_restored_link:
  assumes "live pf ch l s" and "ch_old ch = Some x" and "is_compensating l"
  shows "live pf ch l (s(ready_link_path (ch_op ch) := None, target_of ch \<mapsto> x))"
  by (rule live_update [OF assms(1)])
    (use assms live_regular [OF assms(1)] in \<open>auto simp: ready_ok_def place_defs\<close>)

lemma live_restored_absent:
  assumes "live pf ch l s" and "ch_old ch = None" and "is_compensating l"
    and "s (target_of ch) = Some (ch_new ch)"
  shows "live pf ch l (s(target_of ch := None))"
proof (rule live_update [OF assms(1)])
  show "ready_ok ch l (s(target_of ch := None))"
    using assms by (auto simp: live_def ready_ok_def place_defs)
qed (use assms live_regular [OF assms(1)] in \<open>auto simp: live_def private_files_ok_def place_defs\<close>)

section \<open>Promoting\<close>

lemma acts_promote_resource:
  assumes ok: "change_ok pf ch" and lv: "live pf ch l s" and nc: "\<not> is_compensating l"
    and new: "s (target_of ch) \<noteq> Some (ch_new ch)"
  shows "acts w (promote_resource pf (ch_op ch) (target_of ch) (node_hash pf (Some (ch_new ch))))
    (\<lambda>_ t. live pf ch l t \<and> t (target_of ch) = Some (ch_new ch)) (live pf ch l) s"
proof -
  let ?h = "node_hash pf (Some (ch_new ch))" and ?q = "target_of ch"
  have old: "s ?q = ch_old ch" and st: "staged ch s" using lv nc new by (auto simp: live_def)
  have not_dir: "t ?q \<noteq> Some Directory" if "live pf ch l t" for t
    using live_target_sound [OF ok that] by (auto simp: sound_node_def)
  have check: "acts w (io_bind (path_hash pf ?q) (\<lambda>h. if h \<noteq> ?h then io_bail ''promoted target hash mismatch'' else io_return ()))
      (\<lambda>_ t. live pf ch l t \<and> t ?q = Some (ch_new ch)) (live pf ch l) t"
    if t: "live pf ch l t" "t ?q = Some (ch_new ch)" for t
    by (rule acts_reads_bind, rule live_target_hash(1) [OF ok t(1)], rule t(1)) (use t in \<open>auto intro: acts_return\<close>)
  show ?thesis
  proof (cases "ch_new ch")
    case (Regular c)
    have stage: "s (stage_file_path (ch_op ch)) = Some (Regular c)" using st Regular by (simp add: staged_def)
    have promoted: "live pf ch l (s(stage_file_path (ch_op ch) := None, ?q \<mapsto> Regular c))"
      by (rule live_promoted_file [OF lv Regular new nc])
    show ?thesis
      unfolding promote_resource_def
      apply (rule acts_reads_bind, rule reads_calls(4), rule lv)
      apply (rule acts_reads_bind, rule reads_replaceable, rule not_dir, rule lv, rule lv)
      apply (rule acts_reads_bind, rule reads_staged [OF ok st], rule lv)
      apply (simp add: stored_stage_def Regular)
      apply (rule acts_bind [where P = "\<lambda>_ t. live pf ch l t \<and> t ?q = Some (ch_new ch)"])
       apply (rule acts_reads_bind, rule reads_calls(4), rule lv)
       apply (rule acts_reads_bind, rule reads_replaceable, rule not_dir, rule lv, rule lv)
       apply (rule acts_replace_atomic, rule stage)
      using promoted lv not_dir [OF lv] check by (auto simp: Regular)
  next
    case (Symbolic_link t)
    let ?r = "s(ready_link_path (ch_op ch) \<mapsto> Symbolic_link t)"
    have "s (ready_link_path (ch_op ch)) = None \<or> s (ready_link_path (ch_op ch)) = Some (Symbolic_link t)"
      using lv new Symbolic_link by (auto simp: live_def ready_ok_def Let_def)
    note ready = acts_ready_link [where s = s and op = "ch_op ch" and t = t and w = w, OF this]
    have lr: "live pf ch l ?r"
      by (rule live_ready [OF lv]) (simp add: Symbolic_link is_link_def old)
    have rq: "?r (ready_link_path (ch_op ch)) = Some (Symbolic_link t)" by simp
    have promoted: "live pf ch l (?r(ready_link_path (ch_op ch) := None, ?q \<mapsto> Symbolic_link t))"
      using live_promoted_link [OF lr] Symbolic_link by simp
    show ?thesis
      unfolding promote_resource_def
      apply (rule acts_reads_bind, rule reads_calls(4), rule lv)
      apply (rule acts_reads_bind, rule reads_replaceable, rule not_dir, rule lv, rule lv)
      apply (rule acts_reads_bind, rule reads_staged [OF ok st], rule lv)
      apply (simp add: stored_stage_def Symbolic_link)
      apply (rule acts_bind [where P = "\<lambda>_ t. live pf ch l t \<and> t ?q = Some (ch_new ch)"])
       apply (rule acts_bind [OF acts_mono [OF ready, where P = "\<lambda>q u. q = ready_link_path (ch_op ch) \<and> u = ?r"]])
         apply simp
      using lv lr apply blast
       apply clarify
       apply (rule acts_reads_bind, rule reads_calls(4), rule lr)
       apply (rule acts_reads_bind, rule reads_replaceable, rule not_dir, rule lr, rule lr)
       apply (rule acts_replace_atomic, rule rq)
      using promoted lr not_dir [OF lr] check by (auto simp: Symbolic_link)
  qed (use change_ok_parts(3) [OF ok] in \<open>simp add: sound_node_def\<close>)
qed

fun promoted_location :: "JournalLocation \<Rightarrow> JournalLocation" where
  "promoted_location StatePrepared = StatePromoting"
| "promoted_location StatePromoting = StatePromoting"
| "promoted_location FilePrepared = FilePromoted"
| "promoted_location FilePromoting = FilePromoted"
| "promoted_location FilePromoted = FilePromoted"
| "promoted_location l = l"

text \<open>While a promotion runs, the journal only moves forward in its family.\<close>

definition promoting_states ::
    "FilePlatform \<Rightarrow> Change \<Rightarrow> JournalLocation \<Rightarrow> (place \<Rightarrow> node option) \<Rightarrow> (place \<Rightarrow> node option) \<Rightarrow> bool" where
  "promoting_states pf ch l s t \<longleftrightarrow>
     (\<exists>l'. live pf ch l' t \<and> \<not> is_compensating l' \<and> family l' = family l \<and> rank l \<le> rank l' \<and>
        (s (target_of ch) = Some (ch_new ch) \<longrightarrow> t (target_of ch) = Some (ch_new ch)))"

lemma promoting_statesI:
  "live pf ch l' t \<Longrightarrow> \<not> is_compensating l' \<Longrightarrow> family l' = family l \<Longrightarrow> rank l \<le> rank l' \<Longrightarrow>
   (s (target_of ch) = Some (ch_new ch) \<Longrightarrow> t (target_of ch) = Some (ch_new ch)) \<Longrightarrow> promoting_states pf ch l s t"
  by (auto simp: promoting_states_def)

lemma location_cases:
  "promoting l = Some l' \<Longrightarrow> l \<noteq> l' \<and> \<not> is_compensating l \<and> \<not> is_compensating l' \<and> family l' = family l \<and> rank l \<le> rank l'"
  "\<not> is_compensating l \<Longrightarrow> family (promoted_location l) = family l \<and> rank l \<le> rank (promoted_location l) \<and>
     \<not> is_compensating (promoted_location l)"
  by (cases l; auto simp: is_compensating_def)+

lemma acts_promoting:
  assumes ok: "change_ok pf ch" and lv: "live pf ch l s" and nc: "\<not> is_compensating l"
  defines "l' \<equiv> (case promoting l of Some m \<Rightarrow> m | None \<Rightarrow> l)"
  shows "acts w (case promoting l of
                   Some m \<Rightarrow> io_bind (transition_journal pf (ch_op ch) l m) (\<lambda>_. io_return m)
                 | None \<Rightarrow> io_return l)
    (\<lambda>m t. m = l' \<and> live pf ch l' t \<and> t (target_of ch) = s (target_of ch)) (promoting_states pf ch l s) s"
proof (cases "promoting l")
  case None
  then show ?thesis using lv by (auto simp: l'_def intro: acts_return)
next
  case (Some m)
  let ?t = "s(journal_path l (ch_op ch) := None, journal_path m (ch_op ch) \<mapsto> Regular (journal_text pf ch))"
  note m = location_cases(1) [OF Some]
  have at: "journal_at pf ch l s" using lv by (simp add: live_def)
  have moved: "live pf ch m ?t" by (rule live_moved [OF lv]) (use m in auto)
  have target: "?t (target_of ch) = s (target_of ch)" by (simp add: place_defs)
  have "acts w (transition_journal pf (ch_op ch) l m) (\<lambda>_ t. t = ?t) (promoting_states pf ch l s) s"
    by (rule acts_mono [OF acts_transition [where l' = m, OF ok at]])
      (use m nc lv moved target in \<open>auto intro: promoting_statesI\<close>)
  then show ?thesis
    unfolding l'_def Some option.case
    by (rule acts_bind) (use moved target in \<open>auto intro: acts_return\<close>)
qed

theorem promote_live:
  assumes ok: "change_ok pf ch" and lv: "live pf ch l s" and nc: "\<not> is_compensating l"
  shows "acts w (promote pf (PreparedMaterialization (ch_op ch)))
    (\<lambda>_ t. live pf ch (promoted_location l) t \<and> t (target_of ch) = Some (ch_new ch)) (promoting_states pf ch l s) s"
proof -
  let ?q = "target_of ch" and ?A = "promoting_states pf ch l s"
  define l' where "l' = (case promoting l of Some m \<Rightarrow> m | None \<Rightarrow> l)"
  have l': "\<not> is_compensating l'" "family l' = family l" "rank l \<le> rank l'"
    "promoted_location l = (if l' = FilePromoting then FilePromoted else l')"
    using nc by (cases l; simp add: l'_def is_compensating_def)+
  have here: "?A s" by (rule promoting_statesI [OF lv nc]) auto
  have at: "journal_at pf ch l s" using lv by (simp add: live_def)
  have keep: "?A t" if "live pf ch l' t" "t ?q = s ?q \<or> t ?q = Some (ch_new ch)" for t
    using that l' by (auto intro!: promoting_statesI [where l' = l'])
  have path: "mj_managed_path (journal_of pf ch) = ch_path ch" "mj_hash (journal_of pf ch) = node_hash pf (Some (ch_new ch))"
    by (simp_all add: journal_of_def)
  have final: "acts w (io_when (l' = FilePromoting) (transition_journal pf (ch_op ch) FilePromoting FilePromoted))
      (\<lambda>_ t. live pf ch (promoted_location l) t \<and> t ?q = Some (ch_new ch)) ?A u"
    if u: "live pf ch l' u" "u ?q = Some (ch_new ch)" for u
  proof (rule acts_when)
    let ?u = "u(journal_path FilePromoting (ch_op ch) := None,
        journal_path FilePromoted (ch_op ch) \<mapsto> Regular (journal_text pf ch))"
    assume fp: "l' = FilePromoting"
    then have lu: "live pf ch FilePromoting u" and at: "journal_at pf ch FilePromoting u" using u by (auto simp: live_def)
    have moved: "live pf ch FilePromoted ?u" by (rule live_moved [OF lu]) (simp_all add: is_compensating_def)
    have target: "?u ?q = Some (ch_new ch)" using u(2) by (simp add: place_defs)
    have "?A ?u"
      by (rule promoting_statesI [OF moved]) (use l' fp target in \<open>auto simp: is_compensating_def\<close>)
    then show "acts w (transition_journal pf (ch_op ch) FilePromoting FilePromoted)
        (\<lambda>_ t. live pf ch (promoted_location l) t \<and> t ?q = Some (ch_new ch)) ?A u"
      by (intro acts_mono [OF acts_transition [where l' = FilePromoted, OF ok at]])
        (use fp l' moved target keep u in auto)
  qed (use l' u in auto)
  have body: "acts w (io_bind (path_hash pf ?q) (\<lambda>h.
      io_bind (io_when (h \<noteq> node_hash pf (Some (ch_new ch)))
        (promote_resource pf (ch_op ch) ?q (node_hash pf (Some (ch_new ch))))) (\<lambda>_.
      io_when (l' = FilePromoting) (transition_journal pf (ch_op ch) FilePromoting FilePromoted))))
      (\<lambda>_ t. live pf ch (promoted_location l) t \<and> t ?q = Some (ch_new ch)) ?A u"
    if u: "live pf ch l' u" "u ?q = s ?q" for u
  proof (rule acts_reads_bind, rule live_target_hash(1) [OF ok u(1)])
    show "?A u" using u by (intro keep) auto
    show "acts w (io_bind (io_when (node_hash pf (u ?q) \<noteq> node_hash pf (Some (ch_new ch)))
        (promote_resource pf (ch_op ch) ?q (node_hash pf (Some (ch_new ch))))) (\<lambda>_.
      io_when (l' = FilePromoting) (transition_journal pf (ch_op ch) FilePromoting FilePromoted)))
      (\<lambda>_ t. live pf ch (promoted_location l) t \<and> t ?q = Some (ch_new ch)) ?A u"
    proof (rule acts_bind [where P = "\<lambda>_ t. live pf ch l' t \<and> t ?q = Some (ch_new ch)"], rule acts_when)
      assume "node_hash pf (u ?q) \<noteq> node_hash pf (Some (ch_new ch))"
      then have new: "u ?q \<noteq> Some (ch_new ch)" using live_target_hash(2) [OF ok u(1)] by simp
      have "?A t" if "live pf ch l' t" for t
        using that live_target [OF that] live_target [OF u(1)] new u(2) by (intro keep) auto
      then show "acts w (promote_resource pf (ch_op ch) ?q (node_hash pf (Some (ch_new ch))))
          (\<lambda>_ t. live pf ch l' t \<and> t ?q = Some (ch_new ch)) ?A u"
        by (intro acts_mono [OF acts_promote_resource [OF ok u(1) l'(1) new]]) auto
    qed (use u live_target_hash(2) [OF ok u(1)] final in auto)
  qed
  show ?thesis
    unfolding promote_def Let_def PreparedMaterialization.sel
    apply (rule acts_reads_bind, rule reads_calls(5), rule here)
    apply (rule acts_reads_bind, rule reads_locate [OF ok at], rule here)
    apply (simp only: option.case prod.case path)
    apply (rule acts_bind [OF acts_promoting [OF ok lv nc, folded l'_def]])
    using l'(1)
    by (auto simp: is_compensating_def intro!: acts_reads_bind [OF reads_resolve [OF change_ok_parts(2) [OF ok]]] body keep)
qed

section \<open>Restoring\<close>

lemma acts_restore_backup:
  assumes ok: "change_ok pf ch" and lv: "live pf ch l s" and c: "is_compensating l"
  shows "acts w (restore_backup pf (ch_op ch) (target_of ch) (node_hash pf (Some (ch_new ch))))
    (\<lambda>b t. b \<and> live pf ch l t \<and> t (target_of ch) = ch_old ch) (live pf ch l) s"
proof -
  let ?q = "target_of ch"
  let ?P = "\<lambda>_ t. live pf ch l t \<and> t ?q = ch_old ch"
  have bk: "backed_up ch t" if "live pf ch l t" for t using that by (simp add: live_def)
  have not_dir: "t ?q \<noteq> Some Directory" if "live pf ch l t" for t
    using live_target_sound [OF ok that] by (auto simp: sound_node_def)
  have replace: "acts w (io_bind ensure_managed_parent (\<lambda>_. io_bind (ensure_replaceable_target ?q) (\<lambda>_.
      replace_atomic msg p ?q))) ?P (live pf ch l) u"
    if u: "live pf ch l u" "u p = Some x" "x \<noteq> Directory" "live pf ch l (u(p := None, ?q \<mapsto> x))" "ch_old ch = Some x"
    for u x p msg
    apply (rule acts_reads_bind, rule reads_calls(4), rule u(1))
    apply (rule acts_reads_bind, rule reads_replaceable, rule not_dir, rule u(1), rule u(1))
    apply (rule acts_replace_atomic, rule u(2), rule u(3), rule not_dir, rule u(1))
    using u by auto
  have restore: "acts w
      (case stored_backup ch of
         Some (StoredFile path) \<Rightarrow>
           io_bind (read_bytes ''read backup file'' path) (\<lambda>content.
           io_bind (remove_private_regular (restore_file_path (ch_op ch))) (\<lambda>_.
           io_bind (write_private_file_new (restore_file_path (ch_op ch)) content) (\<lambda>_.
           io_bind ensure_managed_parent (\<lambda>_. io_bind (ensure_replaceable_target ?q) (\<lambda>_.
           replace_atomic ''restore backup'' (restore_file_path (ch_op ch)) ?q)))))
       | Some (StoredSymlink link_target) \<Rightarrow>
           io_bind (create_ready_link (ch_op ch) link_target) (\<lambda>ready.
           io_bind ensure_managed_parent (\<lambda>_. io_bind (ensure_replaceable_target ?q) (\<lambda>_.
           replace_atomic ''restore backup symlink'' ready ?q)))
       | None \<Rightarrow> remove_nofollow ?q) ?P (live pf ch l) s"
    if new: "s ?q = Some (ch_new ch)" and diff: "ch_old ch \<noteq> Some (ch_new ch)"
  proof (cases "ch_old ch")
    case None
    have "live pf ch l (s(?q := None))" by (rule live_restored_absent [OF lv None c new])
    then show ?thesis
      using lv None by (auto simp: stored_backup_def intro!: acts_mono [OF acts_remove_nofollow [where s = s and q = ?q, OF not_dir [OF lv]]])
  next
    case (Some x)
    have "sound_node x" using change_ok_parts(4) [OF ok] Some by simp
    then consider (regular) c' where "x = Regular c'" | (link) t where "x = Symbolic_link t"
      by (cases x) (auto simp: sound_node_def)
    then show ?thesis
    proof cases
      case regular
      let ?r = "restore_file_path (ch_op ch)" and ?b = "backup_file_path (ch_op ch)"
      have b: "s ?b = Some (Regular c')" using bk [OF lv] Some regular by (simp add: backed_up_def)
      have lr: "live pf ch l (s(?r := y))" if "pred_option is_regular y" for y
        by (rule live_restore [OF lv that])
      have reg: "pred_option is_regular (s ?r)" using live_regular [OF lv, of ?r] by simp
      let ?u = "s(?r \<mapsto> Regular c')"
      have lu: "live pf ch l ?u" by (rule lr) (simp add: is_regular_def)
      have "live pf ch l (?u(?r := None, ?q \<mapsto> Regular c'))"
        by (rule live_restored_file [OF lu]) (use Some regular c new diff in \<open>auto simp: is_regular_def place_defs\<close>)
      note rep = replace [OF lu _ _ this]
      have none: "(s(?r := None)) ?r = None" by simp
      show ?thesis
        unfolding Some stored_backup_def regular option.case node.case StoredResource.case
        apply (rule acts_reads_bind, rule reads_bytes, rule b, rule lv)
        apply (rule acts_bind [OF acts_mono [OF acts_remove_private [where s = s and q = ?r, OF reg], where P = "\<lambda>_ t. t = s(?r := None)"]])
          apply simp
        using lv lr [of None] apply force
        apply clarify
        apply (rule acts_bind [OF acts_mono [OF acts_write_private [where s = "s(?r := None)" and q = ?r, OF none], where P = "\<lambda>_ t. t = ?u"]])
          apply simp
        using lr [of None] apply (auto intro!: lr simp: is_regular_def)[1]
        using rep Some regular by simp
    next
      case link
      let ?r = "ready_link_path (ch_op ch)"
      have "s ?r = None \<or> s ?r = Some (Symbolic_link t)"
        using lv new diff Some link by (auto simp: live_def ready_ok_def Let_def)
      note ready = acts_ready_link [where s = s and op = "ch_op ch" and t = t and w = w, OF this]
      let ?u = "s(?r \<mapsto> Symbolic_link t)"
      have lu: "live pf ch l ?u"
        by (rule live_ready [OF lv]) (use Some link new c in \<open>simp add: is_link_def\<close>)
      have "live pf ch l (?u(?r := None, ?q \<mapsto> Symbolic_link t))"
        by (rule live_restored_link [OF lu]) (use Some link c in auto)
      note rep = replace [OF lu _ _ this]
      show ?thesis
        unfolding Some stored_backup_def link option.case node.case StoredResource.case
        apply (rule acts_bind [OF acts_mono [OF ready, where P = "\<lambda>q u. q = ?r \<and> u = ?u"]])
          apply simp
        using lv lu apply blast
        apply clarify
        using rep Some link by simp
    qed
  qed
  show ?thesis
    unfolding restore_backup_def
    apply (rule acts_reads_bind, rule live_target_hash(1) [OF ok lv], rule lv)
    apply (rule acts_reads_bind, rule reads_backup_hash [OF ok bk [OF lv]], rule lv)
    unfolding live_target_hash(3) [OF ok lv] live_target_hash(2) [OF ok lv]
    apply (cases "s ?q = ch_old ch")
    using lv apply (simp add: acts_return)
    apply (subgoal_tac "s ?q = Some (ch_new ch)")
     apply simp
     apply (rule acts_reads_bind, rule reads_calls(4), rule lv)
     apply (rule acts_reads_bind, rule reads_replaceable, rule not_dir, rule lv, rule lv)
     apply (rule acts_reads_bind, rule reads_backup [OF ok bk [OF lv]], rule lv)
     apply (rule acts_bind [where P = ?P])
    using restore apply simp
    using live_target [OF lv] by (auto intro: acts_return)
qed

section \<open>Removing the journal and the artifacts\<close>

lemma acts_remove_artifacts:
  assumes "gone ch x s"
  shows "acts w (remove_private_artifacts (ch_op ch))
    (\<lambda>_ t. gone ch x t \<and> (\<forall>q \<in> artifact_places (ch_op ch). t q = None)) (gone ch x) s"
proof -
  let ?op = "ch_op ch"
  let ?qs = "[stage_file_path ?op, restore_file_path ?op, stage_link_path ?op, backup_file_path ?op, backup_link_path ?op]"
  have upd: "gone ch x (t(q := None))" if "gone ch x t" "q \<in> artifact_places ?op" for t q
    using that by (auto simp: gone_def private_files_ok_def artifact_places_def place_defs)
  have each: "acts w (io_each remove_private_regular ?qs)
      (\<lambda>_ t. t = fold (\<lambda>q t. t(q := None)) ?qs s \<and> gone ch x t) (gone ch x) s"
  proof (rule acts_each)
    show "gone ch x s" by (rule assms)
  next
    fix q t
    assume q: "q \<in> set ?qs" and t: "gone ch x t"
    have reg: "pred_option is_regular (t q)" using q t by (auto simp: gone_def private_files_ok_def)
    have "gone ch x (t(q := None))" using q by (intro upd t) auto
    then show "acts w (remove_private_regular q) (\<lambda>_ t'. t' = t(q := None) \<and> gone ch x t') (gone ch x) t"
      using t by (intro acts_mono [OF acts_remove_private [where s = t and q = q, OF reg]]) auto
  qed
  show ?thesis
    unfolding remove_private_artifacts_def
  proof (rule acts_bind [OF each])
    fix u t
    assume t: "t = fold (\<lambda>q t. t(q := None)) ?qs s \<and> gone ch x t"
    then have "gone ch x t" by blast
    then have nd: "t (ready_link_path ?op) \<noteq> Some Directory" unfolding gone_def private_files_ok_def by blast
    have g: "gone ch x (t(ready_link_path ?op := None))" using t by (intro upd) auto
    have none: "\<forall>q \<in> artifact_places ?op. (t(ready_link_path ?op := None)) q = None"
      using t by (auto simp: artifact_places_def)
    show "acts w (remove_nofollow (ready_link_path ?op))
        (\<lambda>_ t. gone ch x t \<and> (\<forall>q \<in> artifact_places ?op. t q = None)) (gone ch x) t"
      using t g none by (intro acts_mono [OF acts_remove_nofollow [where s = t and q = "ready_link_path ?op", OF nd]]) auto
  qed
qed

lemma acts_remove_operation:
  assumes "journal_at pf ch l s" and "private_files_ok ch s" and x: "s (target_of ch) = x" and "A s"
    and "\<And>t. gone ch x t \<Longrightarrow> A t"
  shows "acts w (remove_operation_artifacts (ch_op ch) (journal_path l (ch_op ch)))
    (\<lambda>_ t. gone ch x t \<and> (\<forall>q \<in> artifact_places (ch_op ch). t q = None)) A s"
proof -
  let ?t = "s(journal_path l (ch_op ch) := None)"
  have reg: "pred_option is_regular (s (journal_path l (ch_op ch)))"
    using assms(1) by (simp add: journal_at_def is_regular_def)
  have g: "gone ch x ?t"
    using assms(1-3) by (auto simp: gone_def journal_at_def private_files_ok_def place_defs)
  show ?thesis
    unfolding remove_operation_artifacts_def
    by (rule acts_bind [OF acts_mono [OF acts_remove_private [where s = s and q = "journal_path l (ch_op ch)", OF reg],
            where P = "\<lambda>_ t. t = ?t"]])
      (use assms(4,5) g in \<open>auto intro: acts_mono [OF acts_remove_artifacts [OF g]]\<close>)
qed

section \<open>Completing and compensating\<close>

text \<open>While a completed change is being forgotten, the file is the new one.\<close>

definition completing_states :: "FilePlatform \<Rightarrow> Change \<Rightarrow> JournalLocation \<Rightarrow> (place \<Rightarrow> node option) \<Rightarrow> bool" where
  "completing_states pf ch l t \<longleftrightarrow>
     gone ch (Some (ch_new ch)) t \<or>
     (\<exists>l'. live pf ch l' t \<and> \<not> is_compensating l' \<and> family l' = family l \<and> rank l \<le> rank l' \<and>
        t (target_of ch) = Some (ch_new ch))"

lemma live_parts:
  assumes "live pf ch l s"
  shows "journal_at pf ch l s" "backed_up ch s" "private_files_ok ch s"
  using assms by (auto simp: live_def)

abbreviation ended :: "Change \<Rightarrow> node option \<Rightarrow> (place \<Rightarrow> node option) \<Rightarrow> bool" where
  "ended ch x t \<equiv> gone ch x t \<and> (\<forall>q \<in> artifact_places (ch_op ch). t q = None)"

theorem complete_live:
  assumes ok: "change_ok pf ch" and lv: "live pf ch l s" and l: "l \<in> {StatePromoting, FilePromoting, FilePromoted}"
    and new: "s (target_of ch) = Some (ch_new ch)"
  shows "acts w (complete pf (PreparedMaterialization (ch_op ch))) (\<lambda>_. ended ch (Some (ch_new ch)))
    (completing_states pf ch l) s"
proof -
  let ?q = "target_of ch" and ?A = "completing_states pf ch l"
  define l' where "l' = (if l = FilePromoting then FilePromoted else l)"
  have A: "?A t" if "live pf ch m t" "m = l \<or> m = l'" "t ?q = Some (ch_new ch)" for m t
    using that l unfolding completing_states_def l'_def
    by (intro disjI2 exI [where x = m]) (auto simp: is_compensating_def)
  have here: "?A s" using A [OF lv] new by simp
  have path: "mj_managed_path (journal_of pf ch) = ch_path ch" "mj_hash (journal_of pf ch) = node_hash pf (Some (ch_new ch))"
    by (simp_all add: journal_of_def)
  have move: "acts w (if l = FilePromoting
        then io_bind (transition_journal pf (ch_op ch) FilePromoting FilePromoted) (\<lambda>_. io_return FilePromoted)
        else io_return l)
      (\<lambda>m t. m = l' \<and> live pf ch l' t \<and> t ?q = Some (ch_new ch)) ?A s"
  proof (cases "l = FilePromoting")
    case True
    let ?t = "s(journal_path FilePromoting (ch_op ch) := None,
        journal_path FilePromoted (ch_op ch) \<mapsto> Regular (journal_text pf ch))"
    have lv': "live pf ch FilePromoting s" using lv True by simp
    have moved: "live pf ch FilePromoted ?t" by (rule live_moved [OF lv']) (simp_all add: is_compensating_def)
    have target: "?t ?q = Some (ch_new ch)" using new by (simp add: place_defs)
    have At: "?A ?t" using A [OF moved] target True by (simp add: l'_def)
    have "acts w (transition_journal pf (ch_op ch) FilePromoting FilePromoted) (\<lambda>_ t. t = ?t) ?A s"
      by (rule acts_mono [OF acts_transition [where l' = FilePromoted, OF ok live_parts(1) [OF lv']]])
        (use here At in auto)
    then have "acts w (io_bind (transition_journal pf (ch_op ch) FilePromoting FilePromoted) (\<lambda>_. io_return FilePromoted))
        (\<lambda>m t. m = FilePromoted \<and> live pf ch FilePromoted t \<and> t ?q = Some (ch_new ch)) ?A s"
      by (rule acts_bind) (use moved target in \<open>auto intro: acts_return\<close>)
    then show ?thesis using True by (simp add: l'_def)
  next
    case False
    then show ?thesis using lv new by (simp add: l'_def acts_return)
  qed
  have forgotten: "acts w (if m \<noteq> StatePromoting \<and> m \<noteq> FilePromoted
        then io_bail ''materialization is not in a completable phase''
        else remove_operation_artifacts (ch_op ch) (journal_path m (ch_op ch)))
      (\<lambda>_. ended ch (Some (ch_new ch))) ?A t"
    if "m = l'" "live pf ch l' t" "t ?q = Some (ch_new ch)" for m t
    using acts_remove_operation [where A = ?A and w = w, OF live_parts(1,3) [OF that(2)] that(3)] A [OF that(2)] that l
    by (auto simp: l'_def completing_states_def split: if_splits)
  show ?thesis
    unfolding complete_def Let_def PreparedMaterialization.sel
    apply (rule acts_reads_bind, rule reads_calls(5), rule here)
    apply (rule acts_reads_bind, rule reads_locate [OF ok live_parts(1) [OF lv]], rule here)
    apply (simp only: option.case prod.case path)
    apply (rule acts_reads_bind, rule reads_resolve [OF change_ok_parts(2) [OF ok]], rule here)
    apply (rule acts_reads_bind, rule live_target_hash(1) [OF ok lv], rule here)
    apply (simp only: new simp_thms if_False not_True_eq_False)
    apply (rule acts_bind [OF move])
    using forgotten by blast
qed

text \<open>While a change is being undone, the file is the old or the new one until the journal goes; then it is the
  old one.\<close>

definition compensating_states ::
    "FilePlatform \<Rightarrow> Change \<Rightarrow> JournalLocation \<Rightarrow> (place \<Rightarrow> node option) \<Rightarrow> (place \<Rightarrow> node option) \<Rightarrow> bool" where
  "compensating_states pf ch l s t \<longleftrightarrow>
     gone ch (ch_old ch) t \<or> live pf ch l t \<and> t (target_of ch) = s (target_of ch) \<or> live pf ch (compensating l) t"

lemma compensating_location: "is_compensating (compensating l)" "is_compensating l \<longleftrightarrow> l = compensating l"
  by (cases l; simp add: is_compensating_def)+

theorem compensate_live:
  assumes ok: "change_ok pf ch" and lv: "live pf ch l s"
  shows "acts w (compensate pf (PreparedMaterialization (ch_op ch))) (\<lambda>_. ended ch (ch_old ch))
    (compensating_states pf ch l s) s"
proof -
  let ?q = "target_of ch" and ?A = "compensating_states pf ch l s" and ?l = "compensating l"
  have here: "?A s" using lv by (simp add: compensating_states_def)
  have path: "mj_managed_path (journal_of pf ch) = ch_path ch" "mj_hash (journal_of pf ch) = node_hash pf (Some (ch_new ch))"
    by (simp_all add: journal_of_def)
  have move: "acts w (io_when (l \<noteq> ?l) (transition_journal pf (ch_op ch) l ?l)) (\<lambda>_. live pf ch ?l) ?A s"
  proof (rule acts_when)
    assume neq: "l \<noteq> ?l"
    have moved: "live pf ch ?l (s(journal_path l (ch_op ch) := None,
        journal_path ?l (ch_op ch) \<mapsto> Regular (journal_text pf ch)))"
      by (rule live_moved [OF lv neq]) (simp add: compensating_location(1))
    show "acts w (transition_journal pf (ch_op ch) l ?l) (\<lambda>_. live pf ch ?l) ?A s"
      by (rule acts_mono [OF acts_transition [OF ok live_parts(1) [OF lv] neq]])
        (use moved here in \<open>auto simp: compensating_states_def\<close>)
  qed (use lv in simp)
  have restored: "acts w (if \<not> b then io_bail ''compensation fenced by diverged target''
        else remove_operation_artifacts (ch_op ch) (journal_path ?l (ch_op ch))) (\<lambda>_. ended ch (ch_old ch)) ?A t"
    if "b" "live pf ch ?l t" "t ?q = ch_old ch" for b t
    using acts_remove_operation [where A = ?A and w = w, OF live_parts(1,3) [OF that(2)] that(3)] that
    by (auto simp: compensating_states_def)
  show ?thesis
    unfolding compensate_def Let_def PreparedMaterialization.sel
    apply (rule acts_reads_bind, rule reads_calls(5), rule here)
    apply (rule acts_reads_bind, rule reads_locate [OF ok live_parts(1) [OF lv]], rule here)
    apply (simp only: option.case prod.case path)
    apply (rule acts_bind [OF move])
    apply (rule acts_reads_bind, rule reads_resolve [OF change_ok_parts(2) [OF ok]], simp add: compensating_states_def)
    apply (rule acts_bind [OF acts_mono [OF acts_restore_backup [OF ok _ compensating_location(1)],
            where P = "\<lambda>b t. b \<and> live pf ch ?l t \<and> t ?q = ch_old ch"]])
    using restored by (auto simp: compensating_states_def)
qed

section \<open>Preparing\<close>

fun resource_node :: "MaterializationResource \<Rightarrow> node" where
  "resource_node (FileResource c) = Regular c"
| "resource_node (SymlinkResource t) = Symbolic_link (external_str t)"

lemma resource_hash_node: "resource_hash pf r = node_hash pf (Some (resource_node r))"
  by (cases r) (simp_all add: node_hash_def)

definition used_places :: "string \<Rightarrow> place set" where
  "used_places op =
     {stage_file_path op, stage_link_path op, ready_link_path op, backup_file_path op, backup_link_path op,
      cleanup_path CleanupPending op, cleanup_path CleanupReady op} \<union> journal_places op"

definition fresh :: "string \<Rightarrow> (place \<Rightarrow> node option) \<Rightarrow> bool" where
  "fresh op s = (\<forall>q \<in> used_places op. s q = None)"

lemma reads_any: "(\<And>x. reads w (f x) (P x) s) \<Longrightarrow> reads w (io_any f xs) (\<exists>x \<in> set xs. P x) s"
proof (induction xs)
  case Nil
  then show ?case by (simp add: reads_return)
next
  case (Cons x xs)
  have "reads w (if P x then io_return True else io_any f xs) (P x \<or> (\<exists>x \<in> set xs. P x)) s"
    using Cons by (auto simp: reads_return)
  with Cons.prems [of x] show ?case by (auto intro: reads_bind)
qed

lemma reads_metadata_is_ok:
  assumes "w \<noteq> Stormy"
  shows "reads w (metadata_is_ok q) (s q \<noteq> None) s"
proof -
  have "acts w (io_attempt (symlink_metadata ''inspect'' q)) (\<lambda>r t. r = Inr (s q) \<and> t = s) (\<lambda>t. t = s) s"
    unfolding acts_def
    by (rule runs_attempt) (use assms in \<open>auto intro!: runs_symlink_metadata\<close>)
  then show ?thesis
    unfolding metadata_is_ok_def by (intro reads_bind [where x = "Inr (s q)"]) (auto simp: reads_def acts_return split: option.splits)
qed

lemma reads_in_use:
  assumes "w \<noteq> Stormy"
  shows "reads w (operation_id_in_use op) (\<not> fresh op s) s"
proof -
  let ?qs = "[stage_file_path op, stage_link_path op, ready_link_path op, backup_file_path op, backup_link_path op,
      cleanup_path CleanupPending op, cleanup_path CleanupReady op]"
  note ok = reads_metadata_is_ok [OF assms]
  have all: "set journal_locations = UNIV"
    by (auto simp: journal_locations_def) (metis JournalLocation.exhaust)
  have used: "\<not> fresh op s \<longleftrightarrow> (\<exists>q \<in> set ?qs. s q \<noteq> None) \<or> (\<exists>l \<in> set journal_locations. s (journal_path l op) \<noteq> None)"
    unfolding fresh_def used_places_def journal_places_def all by auto
  have "reads w (if b then io_return True else io_any (\<lambda>l. metadata_is_ok (journal_path l op)) journal_locations)
      (b \<or> (\<exists>l \<in> set journal_locations. s (journal_path l op) \<noteq> None)) s" for b
  proof (cases b)
    case True
    then show ?thesis by (simp add: reads_return)
  next
    case False
    have "reads w (io_any (\<lambda>l. metadata_is_ok (journal_path l op)) journal_locations)
        (\<exists>l \<in> set journal_locations. s (journal_path l op) \<noteq> None) s"
      by (rule reads_any) (rule ok)
    then show ?thesis by (simp only: False if_False simp_thms)
  qed
  then show ?thesis
    unfolding operation_id_in_use_def used by (rule reads_bind [OF reads_any [OF ok]])
qed

lemma runs_allocate:
  "w \<noteq> Stormy \<Longrightarrow>
     runs w (allocate_from ops) (\<lambda>op t. op \<in> set ops \<and> fresh op s \<and> t = s) (\<lambda>t. t = s) (\<lambda>t. t = s) s"
proof (induction ops)
  case Nil
  then show ?case by (simp add: runs_bail)
next
  case (Cons op ops)
  have "runs w (operation_id_in_use op)
      (\<lambda>used. runs w (if used then allocate_from ops else io_return op)
        (\<lambda>x t. x \<in> set (op # ops) \<and> fresh x s \<and> t = s) (\<lambda>t. t = s) (\<lambda>t. t = s)) (\<lambda>t. t = s) (\<lambda>t. t = s) s"
    by (rule runs_mono [OF reads_in_use [OF Cons.prems, of op s, unfolded reads_def acts_def]])
      (auto intro: runs_return runs_mono [OF Cons.IH [OF Cons.prems]])
  then show ?case by (simp add: runs_bind)
qed

text \<open>The change the operation \<open>op\<close> of a preparation makes.\<close>

definition change_for ::
    "ManagedProfilePath \<Rightarrow> MaterializationResource \<Rightarrow> u64 \<Rightarrow> node option \<Rightarrow> string \<Rightarrow> Change" where
  "change_for path resource revision old op =
     \<lparr>ch_op = op, ch_path = path, ch_revision = revision, ch_old = old, ch_new = resource_node resource\<rparr>"

lemma change_for_simps [simp]:
  "ch_op (change_for p r v old op) = op" "ch_path (change_for p r v old op) = p"
  "ch_revision (change_for p r v old op) = v" "ch_old (change_for p r v old op) = old"
  "ch_new (change_for p r v old op) = resource_node r"
  by (simp_all add: change_for_def)

definition prepared_states ::
    "FilePlatform \<Rightarrow> Change \<Rightarrow> JournalLocation \<Rightarrow> (place \<Rightarrow> node option) \<Rightarrow> (place \<Rightarrow> node option) \<Rightarrow> bool" where
  "prepared_states pf ch l s t \<longleftrightarrow>
     (live pf ch l t \<or> gone ch (ch_old ch) t) \<and> t (target_of ch) = ch_old ch \<and>
     same_outside (own_places (ch_op ch)) s t"

fun stage_place :: "string \<Rightarrow> node \<Rightarrow> place" where
  "stage_place op (Regular c) = stage_file_path op"
| "stage_place op x = stage_link_path op"

fun stage_content :: "node \<Rightarrow> string" where
  "stage_content (Regular c) = c"
| "stage_content (Symbolic_link t) = t"
| "stage_content Directory = []"

lemma acts_stage:
  assumes "s (stage_file_path op) = None" and "s (stage_link_path op) = None"
  shows "acts w (stage_resource op r)
    (\<lambda>_ t. t = s(stage_place op (resource_node r) \<mapsto> Regular (stage_content (resource_node r))))
    (\<lambda>t. t = s \<or> (\<exists>c. t = s(stage_place op (resource_node r) \<mapsto> Regular c))) s"
  using assms by (cases r) (auto intro: acts_write_private)

lemma acts_capture:
  assumes "s (backup_file_path op) = None" and "s (backup_link_path op) = None" and "pred_option sound_node (s q)"
  defines "t \<equiv> (case s q of
      Some (Regular c) \<Rightarrow> s(backup_file_path op \<mapsto> Regular c)
    | Some (Symbolic_link l) \<Rightarrow> s(backup_link_path op \<mapsto> Regular l)
    | _ \<Rightarrow> s)"
  shows "acts w (capture_backup op q) (\<lambda>_ u. u = t)
    (\<lambda>u. u = s \<or> (\<exists>c b. u = s(b \<mapsto> Regular c) \<and> (b = backup_file_path op \<or> b = backup_link_path op))) s"
proof -
  let ?A = "\<lambda>u. u = s \<or> (\<exists>c b. u = s(b \<mapsto> Regular c) \<and> (b = backup_file_path op \<or> b = backup_link_path op))"
  have wr: "acts w (write_private_file_new b c) (\<lambda>_ u. u = s(b \<mapsto> Regular c)) ?A s"
    if "b = backup_file_path op \<or> b = backup_link_path op" for b c
    by (rule acts_mono [OF acts_write_private]) (use that assms in auto)
  show ?thesis
    unfolding capture_backup_def
    apply (rule acts_reads_bind, rule reads_metadata, simp)
    using assms(3) wr unfolding t_def
    by (auto simp: sound_node_def split: option.splits node.splits
        intro!: acts_return acts_reads_bind [OF reads_bytes] acts_reads_bind [OF reads_link])
qed

text \<open>Before the journal is written the operation is nothing but files that no journal needs.\<close>

lemma gone_upd:
  assumes "gone ch x s" and "q \<in> artifact_places (ch_op ch)" and "q \<noteq> ready_link_path (ch_op ch)"
  shows "gone ch x (s(q \<mapsto> Regular c))"
  using assms by (auto simp: gone_def private_files_ok_def artifact_places_def place_defs is_regular_def)

lemma gone_fresh:
  assumes "fresh (ch_op ch) s" and "pred_option is_regular (s (restore_file_path (ch_op ch)))"
  shows "gone ch (s (target_of ch)) s"
  using assms by (auto simp: gone_def fresh_def used_places_def private_files_ok_def)

lemma node_option_cases:
  obtains "x = None" | c where "x = Some (Regular c)" | t where "x = Some (Symbolic_link t)" | "x = Some Directory"
  by (cases x) (metis node.exhaust)+

lemma acts_prepare_files:
  assumes ok: "change_ok pf ch" and fresh: "fresh (ch_op ch) s" and old: "s (target_of ch) = ch_old ch"
    and restore: "pred_option is_regular (s (restore_file_path (ch_op ch)))" and new: "ch_new ch = resource_node r"
    and nc: "\<not> is_compensating l"
  shows "acts w
    (io_bind (stage_resource (ch_op ch) r) (\<lambda>_.
     io_bind (capture_backup (ch_op ch) (target_of ch)) (\<lambda>_.
     write_journal_new pf (journal_path l (ch_op ch)) (journal_of pf ch))))
    (\<lambda>_ t. live pf ch l t \<and> t (target_of ch) = ch_old ch \<and> same_outside (own_places (ch_op ch)) s t)
    (prepared_states pf ch l s) s"
proof -
  let ?op = "ch_op ch" and ?q = "target_of ch" and ?A = "prepared_states pf ch l s"
  let ?own = "same_outside (own_places (ch_op ch)) s"
  define s1 where "s1 = s(stage_place ?op (ch_new ch) \<mapsto> Regular (stage_content (ch_new ch)))"
  define s2 where "s2 = (case ch_old ch of
      Some (Regular c) \<Rightarrow> s1(backup_file_path ?op \<mapsto> Regular c)
    | Some (Symbolic_link t) \<Rightarrow> s1(backup_link_path ?op \<mapsto> Regular t)
    | _ \<Rightarrow> s1)"
  have none: "\<And>q. q \<in> used_places ?op \<Longrightarrow> s q = None" using fresh by (simp add: fresh_def)
  have n: "s (stage_file_path ?op) = None" "s (stage_link_path ?op) = None" "s (ready_link_path ?op) = None"
    "s (backup_file_path ?op) = None" "s (backup_link_path ?op) = None"
    using none by (auto simp: used_places_def)
  have stage_in: "stage_place ?op x \<in> {stage_file_path ?op, stage_link_path ?op}" for x by (cases x) auto
  have own: "?own (t(q := x))" if "?own t" "q \<in> own_places ?op" for t q x
    using that by (auto simp: same_outside_def)
  have in_own: "q \<in> own_places ?op" if "q \<in> artifact_places ?op" for q using that by (simp add: own_places_def)
  have target: "(t(q := x)) ?q = t ?q" if "q \<in> own_places ?op" for t q x
    using that profile_not_private(4) [of "ch_path ch" ?op] by (auto simp: fun_upd_other)
  have step: "gone ch (ch_old ch) (t(q \<mapsto> Regular c)) \<and> ?own (t(q \<mapsto> Regular c))"
    if "gone ch (ch_old ch) t" "?own t" "q \<in> {stage_file_path ?op, stage_link_path ?op, backup_file_path ?op, backup_link_path ?op}"
    for t q c
    using that by (intro conjI gone_upd own in_own) (auto simp: place_defs artifact_places_def)
  have A: "?A t" if "gone ch (ch_old ch) t \<and> ?own t" for t
    using that by (simp add: prepared_states_def gone_def)
  have g0: "gone ch (ch_old ch) s \<and> ?own s" using gone_fresh [OF fresh restore] old by simp
  have g1: "gone ch (ch_old ch) s1 \<and> ?own s1"
    unfolding s1_def by (rule step) (use g0 stage_in in auto)
  have s1_target: "s1 ?q = ch_old ch" using g1 by (simp add: gone_def)
  have sound: "pred_option sound_node (s1 ?q)" using change_ok_parts(4) [OF ok] s1_target by simp
  have g2: "gone ch (ch_old ch) s2 \<and> ?own s2"
    using g1 step [of s1] by (auto simp: s2_def split: option.splits node.splits)
  have s1_backup: "s1 (backup_file_path ?op) = None" "s1 (backup_link_path ?op) = None"
    by (cases "ch_new ch"; use n in \<open>simp add: s1_def place_defs\<close>)+
  have jr: "journal_path l ?op \<in> own_places ?op" "s2 (journal_path l ?op) = None"
    using g2 by (auto simp: own_places_def gone_def)
  let ?t = "s2(journal_path l ?op \<mapsto> Regular (journal_text pf ch))"
  have files: "backed_up ch s2" "staged ch s2" "s2 (ready_link_path ?op) = None"
  proof -
    have new: "ch_new ch \<noteq> Directory" using change_ok_parts(3) [OF ok] by (auto simp: sound_node_def)
    show "backed_up ch s2"
      by (cases "ch_old ch" rule: node_option_cases; cases "ch_new ch")
        (use n new in \<open>simp_all add: backed_up_def s2_def s1_def place_defs\<close>)
    show "staged ch s2"
      by (cases "ch_old ch" rule: node_option_cases; cases "ch_new ch")
        (use n new in \<open>simp_all add: staged_def s2_def s1_def place_defs\<close>)
    show "s2 (ready_link_path ?op) = None"
      by (cases "ch_old ch" rule: node_option_cases; cases "ch_new ch")
        (use n new in \<open>simp_all add: s2_def s1_def place_defs\<close>)
  qed
  have other: "?t q = s2 q" if "q \<in> insert ?q (artifact_places ?op)" for q
  proof -
    have "journal_path l ?op \<notin> insert ?q (artifact_places ?op)"
      by (auto simp: artifact_places_def place_defs)
    with that show ?thesis by auto
  qed
  have s2_target: "s2 ?q = ch_old ch" using g2 by (simp add: gone_def)
  have lv: "live pf ch l ?t"
  proof -
    have "journal_at pf ch l ?t" using g2 by (auto simp: journal_at_def gone_def)
    moreover have "backed_up ch ?t" "staged ch ?t" "private_files_ok ch ?t" "ready_ok ch l ?t"
      using files g2 other
      by (simp_all add: backed_up_def staged_def private_files_ok_def ready_ok_def gone_def)
    ultimately show ?thesis using s2_target other [of ?q] by (simp add: live_def)
  qed
  have t: "live pf ch l ?t \<and> ?t ?q = ch_old ch \<and> ?own ?t"
    using lv s2_target target [OF jr(1)] own g2 jr(1) by auto
  have "?A ?t" using t by (simp add: prepared_states_def)
  have journal: "acts w (write_journal_new pf (journal_path l ?op) (journal_of pf ch))
      (\<lambda>_ t. live pf ch l t \<and> t ?q = ch_old ch \<and> ?own t) ?A s2"
    unfolding write_journal_new_def change_ok_parts(7) [OF ok] option.case
    apply (rule acts_bind [OF acts_atomic_write_new [where P = "\<lambda>_ u. u = ?t"]])
    using jr(2) A [OF g2] \<open>?A ?t\<close> t
    by (auto intro!: acts_reads_bind [OF reads_calls(3)] acts_calls)
  show ?thesis
  proof (rule acts_bind [OF acts_mono [OF acts_stage, where P = "\<lambda>_ t. t = s1"]])
    show "s (stage_file_path ?op) = None" "s (stage_link_path ?op) = None"
      using none by (auto simp: used_places_def)
    show "?A t" if "t = s \<or> (\<exists>c. t = s(stage_place ?op (resource_node r) \<mapsto> Regular c))" for t
      using that stage_in [of "resource_node r"] step [of s] g0 by (auto intro!: A)
    show "acts w (io_bind (capture_backup ?op ?q) (\<lambda>_. write_journal_new pf (journal_path l ?op) (journal_of pf ch)))
        (\<lambda>_ t. live pf ch l t \<and> t ?q = ch_old ch \<and> ?own t) ?A u" if "u = s1" for u
    proof (unfold that, rule acts_bind [OF acts_mono [OF acts_capture [where s = s1 and q = ?q and op = ?op and w = w],
            where P = "\<lambda>_ u. u = s2"]])
      show "pred_option sound_node (s1 ?q)" by (rule sound)
      show "?A v" if "v = s1 \<or> (\<exists>c b. v = s1(b \<mapsto> Regular c) \<and> (b = backup_file_path ?op \<or> b = backup_link_path ?op))" for v
        using that step [of s1] g1 by (auto intro!: A)
    qed (use s1_backup journal s1_target in \<open>auto simp: s2_def split: option.splits node.splits\<close>)
  qed (simp add: s1_def new)
qed

text \<open>A preparation, with crashes: it allocates a fresh operation, and either the operation is live with the
  file as it was, or it left nothing but private files.\<close>

lemma runs_reads_bind:
  assumes "reads w m x s" and "runs w (k x) T E C s" and "w = Stormy \<Longrightarrow> E s" and "w \<noteq> Calm \<Longrightarrow> C s"
  shows "runs w (io_bind m k) T E C s"
  by (rule runs_bind, rule runs_mono [OF assms(1) [unfolded reads_def acts_def]]) (use assms(2-4) in auto)

theorem prepare_crashy:
  assumes w: "w \<noteq> Stormy" and path: "\<not> uses_private_storage path" and old: "pred_option sound_node (s (profile_place path))"
    and nc: "\<not> is_compensating l"
    and ok: "\<And>op. op \<in> draws ` {..<16} \<Longrightarrow> change_ok pf (change_for path r v (s (profile_place path)) op) \<and>
      pred_option is_regular (s (restore_file_path op))"
  defines "ch \<equiv> change_for path r v (s (profile_place path))"
  shows "runs w (prepare_materialization pf draws path r v l)
    (\<lambda>p t. \<exists>op \<in> draws ` {..<16}. p = PreparedMaterialization op \<and> fresh op s \<and> live pf (ch op) l t \<and>
       t (profile_place path) = s (profile_place path) \<and> same_outside (own_places op) s t)
    (\<lambda>t. t = s)
    (\<lambda>t. t = s \<or> (\<exists>op \<in> draws ` {..<16}. fresh op s \<and> prepared_states pf (ch op) l s t)) s"
    (is "runs w _ ?T ?E ?C s")
proof -
  let ?q = "profile_place path" and ?D = "draws ` {..<16}"
  have not_dir: "s ?q \<noteq> Some Directory" using old by (auto simp: sound_node_def)
  have set: "set (map draws [0..<16]) = ?D" by (auto simp: atLeast0LessThan)
  have alloc: "runs w (allocate_operation_id draws) (\<lambda>op t. op \<in> ?D \<and> fresh op s \<and> t = s) ?E (\<lambda>t. t = s) s"
    unfolding allocate_operation_id_def using runs_allocate [OF w, of "map draws [0..<16]" s] unfolding set .
  have body: "runs w (io_bind (io_attempt
      (io_bind (stage_resource op r) (\<lambda>_. io_bind (capture_backup op ?q) (\<lambda>_.
       write_journal_new pf (journal_path l op)
         \<lparr>mj_managed_path = path, mj_operation_id = op, mj_revision = v, mj_hash = resource_hash pf r\<rparr>))))
      (\<lambda>result. case result of
         Inl error \<Rightarrow>
           io_bind (io_attempt (remove_private_regular (stage_file_path op))) (\<lambda>_.
           io_bind (io_attempt (remove_private_regular (stage_link_path op))) (\<lambda>_.
           io_bind (io_attempt (remove_private_regular (backup_file_path op))) (\<lambda>_.
           io_bind (io_attempt (remove_private_regular (backup_link_path op))) (\<lambda>_.
           io_bail error))))
       | Inr u \<Rightarrow> io_return (PreparedMaterialization op))) ?T ?E ?C s"
    if op: "op \<in> ?D" "fresh op s" for op
  proof -
    have j: "journal_of pf (ch op) =
        \<lparr>mj_managed_path = path, mj_operation_id = op, mj_revision = v, mj_hash = resource_hash pf r\<rparr>"
      by (simp add: journal_of_def ch_def resource_hash_node)
    have "acts w (io_bind (stage_resource (ch_op (ch op)) r) (\<lambda>_.
       io_bind (capture_backup (ch_op (ch op)) (target_of (ch op))) (\<lambda>_.
       write_journal_new pf (journal_path l (ch_op (ch op))) (journal_of pf (ch op)))))
      (\<lambda>_ t. live pf (ch op) l t \<and> t (target_of (ch op)) = ch_old (ch op) \<and> same_outside (own_places (ch_op (ch op))) s t)
      (prepared_states pf (ch op) l s) s"
      by (rule acts_prepare_files) (use op ok [OF op(1)] nc in \<open>simp_all add: ch_def\<close>)
    then have "acts w (io_bind (stage_resource op r) (\<lambda>_. io_bind (capture_backup op ?q) (\<lambda>_.
       write_journal_new pf (journal_path l op)
         \<lparr>mj_managed_path = path, mj_operation_id = op, mj_revision = v, mj_hash = resource_hash pf r\<rparr>)))
      (\<lambda>_ t. live pf (ch op) l t \<and> t ?q = s ?q \<and> same_outside (own_places op) s t)
      (prepared_states pf (ch op) l s) s"
      unfolding j [symmetric] by (simp add: ch_def)
    note r = this [unfolded acts_def]
    show ?thesis
      by (rule runs_bind, rule runs_attempt, rule runs_mono [OF r]) (use w op in \<open>auto intro!: runs_return\<close>)
  qed
  show ?thesis
    unfolding prepare_materialization_def
    apply (rule runs_reads_bind, rule reads_calls(5))
      apply (rule runs_reads_bind, rule reads_resolve, rule path)
        apply (rule runs_reads_bind, rule reads_calls(4))
          apply (rule runs_reads_bind, rule reads_replaceable, rule not_dir)
    apply (rule runs_bind, rule runs_mono [OF alloc])
      apply (clarify, rule body)
    by auto
qed

section \<open>Recovering a live change without faults\<close>

text \<open>What the change's file is after a reconcile with a document of revision \<open>rv\<close> in which the path is
  \<open>active\<close> or not.\<close>

definition recovered_file :: "Profiles \<Rightarrow> Change \<Rightarrow> JournalLocation \<Rightarrow> node option \<Rightarrow> node option" where
  "recovered_file profiles ch l x =
     (let active = (ch_path ch \<in> set (active_managed_paths profiles));
          matches = (x = Some (ch_new ch))
      in if is_compensating l then ch_old ch
         else if ch_revision ch < pr_revision profiles then
           (if active then x else if matches then None else x)
         else if pr_revision profiles < ch_revision ch \<or> \<not> active then ch_old ch
         else if l = FilePrepared then x
         else Some (ch_new ch))"

lemma calm_runs: "acts Calm m P A s \<Longrightarrow> (\<And>x t. P x t \<Longrightarrow> T x t) \<Longrightarrow> runs Calm m T E C s"
  unfolding acts_def by (erule runs_mono) auto

lemma calm_acts: "acts Calm m P A s \<Longrightarrow> acts Calm m P B s"
  unfolding acts_def by (erule runs_mono) auto

lemma ended_then: "(\<And>t. ended ch x t \<Longrightarrow> T t) \<Longrightarrow> acts Calm m (\<lambda>_. ended ch x) A s \<Longrightarrow> acts Calm (io_yield m y) (\<lambda>_. T) A s"
  by (rule acts_yield) (erule acts_mono, auto)

text \<open>The states on the way to \<open>x\<close>: the journal is gone and the file is \<open>x\<close>; or the change is live and
  recovers to \<open>x\<close>; or its file, no longer in the document, has just been removed.\<close>

definition abandoned :: "FilePlatform \<Rightarrow> Change \<Rightarrow> JournalLocation \<Rightarrow> (place \<Rightarrow> node option) \<Rightarrow> bool" where
  "abandoned pf ch l s \<longleftrightarrow>
     journal_at pf ch l s \<and> private_files_ok ch s \<and> s (target_of ch) = None \<and> \<not> is_compensating l"

definition resolving_at ::
    "FilePlatform \<Rightarrow> Profiles \<Rightarrow> Change \<Rightarrow> node option \<Rightarrow> JournalLocation \<Rightarrow> (place \<Rightarrow> node option) \<Rightarrow> bool" where
  "resolving_at pf profiles ch x l s \<longleftrightarrow>
     live pf ch l s \<and> recovered_file profiles ch l (s (target_of ch)) = x \<or>
     abandoned pf ch l s \<and> x = None \<and> ch_revision ch < pr_revision profiles \<and>
       ch_path ch \<notin> set (active_managed_paths profiles)"

definition resolving ::
    "FilePlatform \<Rightarrow> Profiles \<Rightarrow> Change \<Rightarrow> node option \<Rightarrow> (place \<Rightarrow> node option) \<Rightarrow> bool" where
  "resolving pf profiles ch x s \<longleftrightarrow> gone ch x s \<or> (\<exists>l. resolving_at pf profiles ch x l s)"

lemma resolving_live:
  "live pf ch l t \<Longrightarrow> recovered_file profiles ch l (t (target_of ch)) = x \<Longrightarrow> resolving pf profiles ch x t"
  by (auto simp: resolving_def resolving_at_def)

lemma resolving_gone: "gone ch x t \<Longrightarrow> resolving pf profiles ch x t"
  by (simp add: resolving_def)

lemma resolving_compensating:
  "compensating_states pf ch l s t \<Longrightarrow> recovered_file profiles ch l (s (target_of ch)) = ch_old ch \<Longrightarrow>
     resolving pf profiles ch (ch_old ch) t"
  unfolding compensating_states_def
  by (auto intro: resolving_gone resolving_live simp: recovered_file_def compensating_location(1))

lemma resolving_forward:
  assumes "live pf ch l' t" "\<not> is_compensating l'" "family l' = family l" "rank l \<le> rank l'"
    and "\<not> is_compensating l" and "t (target_of ch) = Some (ch_new ch) \<or>
      l \<noteq> FilePrepared \<and> pr_revision profiles = ch_revision ch"
    and "ch_path ch \<in> set (active_managed_paths profiles)" and "ch_revision ch \<le> pr_revision profiles"
  shows "resolving pf profiles ch (Some (ch_new ch)) t"
proof (rule resolving_live [OF assms(1)])
  have "l \<noteq> FilePrepared \<Longrightarrow> l' \<noteq> FilePrepared"
    using assms(3,4) by (cases l; auto simp: is_compensating_def)
  then show "recovered_file profiles ch l' (t (target_of ch)) = Some (ch_new ch)"
    using assms(2,6-8) by (auto simp: recovered_file_def Let_def)
qed

lemma acts_forward:
  assumes ok: "change_ok pf ch" and lv: "live pf ch l s" and nc: "\<not> is_compensating l"
    and active: "ch_path ch \<in> set (active_managed_paths profiles)" and rev: "ch_revision ch \<le> pr_revision profiles"
    and new: "s (target_of ch) = Some (ch_new ch) \<or> l \<noteq> FilePrepared \<and> pr_revision profiles = ch_revision ch"
  shows "acts w (io_bind (promote pf (PreparedMaterialization (ch_op ch)))
      (\<lambda>_. io_yield (complete pf (PreparedMaterialization (ch_op ch))) y))
    (\<lambda>_. ended ch (Some (ch_new ch))) (resolving pf profiles ch (Some (ch_new ch))) s"
proof (rule acts_bind [OF acts_mono [OF promote_live [OF ok lv nc]]])
  fix t
  assume "promoting_states pf ch l s t"
  then show "resolving pf profiles ch (Some (ch_new ch)) t"
    unfolding promoting_states_def
    using resolving_forward [OF _ _ _ _ nc _ active rev] new by blast
next
  fix t
  assume t: "live pf ch (promoted_location l) t \<and> t (target_of ch) = Some (ch_new ch)"
  have l: "promoted_location l \<in> {StatePromoting, FilePromoting, FilePromoted}"
    using nc by (cases l) (auto simp: is_compensating_def)
  have nc': "\<not> is_compensating (promoted_location l)" using location_cases(2) [OF nc] by simp
  show "acts w (io_yield (complete pf (PreparedMaterialization (ch_op ch))) y)
      (\<lambda>_. ended ch (Some (ch_new ch))) (resolving pf profiles ch (Some (ch_new ch))) t"
  proof (rule acts_yield, rule acts_mono [OF complete_live [OF ok conjunct1 [OF t] l conjunct2 [OF t]]])
    fix u
    assume "completing_states pf ch (promoted_location l) u"
    then show "resolving pf profiles ch (Some (ch_new ch)) u"
      unfolding completing_states_def
      using resolving_forward [OF _ _ _ _ nc' _ active rev] resolving_gone by blast
  qed
qed auto

lemma acts_backward:
  assumes ok: "change_ok pf ch" and lv: "live pf ch l s"
    and old: "recovered_file profiles ch l (s (target_of ch)) = ch_old ch"
  shows "acts w (io_yield (compensate pf (PreparedMaterialization (ch_op ch))) y)
    (\<lambda>_. ended ch (ch_old ch)) (resolving pf profiles ch (ch_old ch)) s"
  by (rule acts_yield, rule acts_mono [OF compensate_live [OF ok lv]])
    (use resolving_compensating [where s = s and ch = ch and pf = pf, OF _ old] in auto)

lemma acts_discard:
  assumes "resolving_at pf profiles ch x l s" and x: "s (target_of ch) = x"
  shows "acts w (io_yield (discard_materialization (ch_op ch) l) y) (\<lambda>_. ended ch x) (resolving pf profiles ch x) s"
proof (rule acts_yield)
  have "journal_at pf ch l s" "private_files_ok ch s"
    using assms(1) live_parts [of pf ch l s] by (auto simp: resolving_at_def abandoned_def)
  then show "acts w (discard_materialization (ch_op ch) l) (\<lambda>_. ended ch x) (resolving pf profiles ch x) s"
    unfolding discard_materialization_def
    by (rule acts_remove_operation [where s = s and ch = ch, OF _ _ x])
      (use assms(1) resolving_gone in \<open>auto simp: resolving_def\<close>)
qed

lemma acts_superseded:
  assumes ok: "change_ok pf ch" and lv: "live pf ch l s" and nc: "\<not> is_compensating l"
    and rev: "ch_revision ch < pr_revision profiles"
  defines "active \<equiv> ch_path ch \<in> set (active_managed_paths profiles)"
    and "x \<equiv> recovered_file profiles ch l (s (target_of ch))"
  shows "acts w (recover_superseded pf (ch_op ch) l (target_of ch) active (s (target_of ch) = Some (ch_new ch)))
    (\<lambda>_. ended ch x) (resolving pf profiles ch x) s"
proof (cases active)
  case True
  then have act: "ch_path ch \<in> set (active_managed_paths profiles)" by (simp add: active_def)
  have xs: "x = s (target_of ch)" using True nc rev by (simp add: x_def recovered_file_def active_def)
  show ?thesis
  proof (cases "s (target_of ch) = Some (ch_new ch)")
    case new: True
    have fwd: "acts w (io_bind (promote pf (PreparedMaterialization (ch_op ch)))
        (\<lambda>_. io_yield (complete pf (PreparedMaterialization (ch_op ch))) y))
      (\<lambda>_. ended ch x) (resolving pf profiles ch x) s" for y
      unfolding xs new by (rule acts_forward [OF ok lv nc act]) (use rev new in auto)
    have com: "acts w (io_yield (complete pf (PreparedMaterialization (ch_op ch))) y) (\<lambda>_. ended ch x)
        (resolving pf profiles ch x) s" if "l \<in> {StatePromoting, FilePromoting, FilePromoted}" for y
      unfolding xs new
    proof (rule acts_yield, rule acts_mono [OF complete_live [OF ok lv that new]])
      fix t
      assume "completing_states pf ch l t"
      then show "resolving pf profiles ch (Some (ch_new ch)) t"
        unfolding completing_states_def
        using resolving_forward [OF _ _ _ _ nc _ act] rev resolving_gone by (meson order_less_imp_le)
    qed auto
    have dis: "acts w (io_yield (discard_materialization (ch_op ch) l) y) (\<lambda>_. ended ch x) (resolving pf profiles ch x) s" for y
    proof (rule acts_discard)
      show "resolving_at pf profiles ch x l s" using lv by (simp add: resolving_at_def x_def)
    qed (simp add: xs)
    show ?thesis
      using True new fwd com dis nc
      by (cases l) (simp_all add: recover_superseded_def is_compensating_def Let_def)
  next
    case old: False
    then have so: "s (target_of ch) = ch_old ch" using live_target [OF lv] by simp
    have revert: "acts w (io_yield (compensate pf (PreparedMaterialization (ch_op ch))) y) (\<lambda>_. ended ch x)
        (resolving pf profiles ch x) s" for y
    proof -
      have "recovered_file profiles ch l (s (target_of ch)) = ch_old ch" using xs so by (simp add: x_def)
      from acts_backward [where s = s and ch = ch, OF ok lv this] show ?thesis unfolding xs so .
    qed
    have here: "resolving pf profiles ch x s" by (rule resolving_live [OF lv]) (simp add: x_def)
    have pre: "acts w (io_bind (target_is_pre_promote pf (ch_op ch) (target_of ch)) (\<lambda>pre.
        if \<not> pre then io_bail ''active materialization target diverged before recovery''
        else io_yield (compensate pf (PreparedMaterialization (ch_op ch))) Compensated)) (\<lambda>_. ended ch x)
        (resolving pf profiles ch x) s"
    proof (rule acts_reads_bind)
      show "reads w (target_is_pre_promote pf (ch_op ch) (target_of ch)) True s"
        unfolding target_is_pre_promote_def
        apply (rule reads_bind, rule live_target_hash(1) [OF ok lv])
        apply (rule reads_bind, rule reads_backup_hash [OF ok live_parts(2) [OF lv]])
        using live_target_hash(3) [OF ok lv] so by (simp add: reads_return)
    qed (use here revert in simp_all)
    show ?thesis
      using True old revert pre nc
      by (cases l) (simp_all add: recover_superseded_def is_compensating_def Let_def)
  qed
next
  case False
  then have inactive: "ch_path ch \<notin> set (active_managed_paths profiles)" by (simp add: active_def)
  let ?q = "target_of ch"
  have nd: "s ?q \<noteq> Some Directory" using live_target_sound [OF ok lv] by (auto simp: sound_node_def)
  have here: "resolving pf profiles ch x s" by (rule resolving_live [OF lv]) (simp add: x_def)
  have at: "resolving_at pf profiles ch x l s" using lv by (simp add: resolving_at_def x_def)
  have "acts w (io_bind (io_when (s ?q = Some (ch_new ch)) (remove_nofollow ?q)) (\<lambda>_.
      io_yield (discard_materialization (ch_op ch) l) Discarded)) (\<lambda>_. ended ch x) (resolving pf profiles ch x) s"
  proof (cases "s ?q = Some (ch_new ch)")
    case True
    let ?t = "s(?q := None)"
    have xn: "x = None" using True inactive nc rev by (simp add: x_def recovered_file_def)
    have "abandoned pf ch l ?t"
      using live_parts(1,3) [OF lv] nc
      by (auto simp: abandoned_def journal_at_def private_files_ok_def place_defs)
    then have gone: "resolving_at pf profiles ch x l ?t" using rev inactive xn by (simp add: resolving_at_def)
    show ?thesis
      unfolding True
    proof (rule acts_bind [where P = "\<lambda>_ t. t = ?t"], rule acts_when)
      show "acts w (remove_nofollow ?q) (\<lambda>_ t. t = ?t) (resolving pf profiles ch x) s"
        by (rule acts_mono [OF acts_remove_nofollow [where s = s and q = ?q, OF nd]])
          (use here gone in \<open>auto simp: resolving_def\<close>)
    qed (use acts_discard [OF gone] xn in auto)
  next
    case False
    then have "s ?q = x" using inactive nc rev by (simp add: x_def recovered_file_def)
    from acts_discard [where s = s and ch = ch, OF at this]
    have "acts w (io_bind (io_return ()) (\<lambda>_. io_yield (discard_materialization (ch_op ch) l) Discarded))
        (\<lambda>_. ended ch x) (resolving pf profiles ch x) s"
      by (intro acts_bind [OF acts_return [where P = "\<lambda>_ t. t = s"]]) auto
    with False show ?thesis by (simp add: io_when_def)
  qed
  then show ?thesis using False by (simp add: recover_superseded_def)
qed

text \<open>Recovering a change on the way to \<open>x\<close> ends it with \<open>x\<close>, and stopped anywhere it is still on the way.\<close>

theorem recover_live:
  assumes ok: "change_ok pf ch" and at: "resolving_at pf profiles ch x l s"
  shows "acts w (recover_operation pf profiles l (ch_op ch)) (\<lambda>_. ended ch x) (resolving pf profiles ch x) s"
proof -
  let ?q = "target_of ch" and ?h = "node_hash pf (Some (ch_new ch))"
  have here: "resolving pf profiles ch x s" using at by (auto simp: resolving_def)
  have jat: "journal_at pf ch l s" using at live_parts(1) [of pf ch l s] by (auto simp: resolving_at_def abandoned_def)
  have path: "mj_managed_path (journal_of pf ch) = ch_path ch" "mj_hash (journal_of pf ch) = ?h"
    "mj_revision (journal_of pf ch) = ch_revision ch"
    by (simp_all add: journal_of_def)
  have sound: "pred_option sound_node (s ?q)"
    using at live_target_sound [OF ok, of l s] by (auto simp: resolving_at_def abandoned_def)
  have hash: "node_hash pf (s ?q) = ?h \<longleftrightarrow> s ?q = Some (ch_new ch)"
    by (rule change_hash [OF ok]) (use at live_target [of pf ch l s] in \<open>auto simp: resolving_at_def abandoned_def\<close>)
  let ?active = "ch_path ch \<in> set (active_managed_paths profiles)" and ?match = "s ?q = Some (ch_new ch)"
  have body: "acts w
      (if l = StateCompensating \<or> l = FileCompensating
       then io_yield (compensate pf (PreparedMaterialization (ch_op ch))) Compensated
       else if ch_revision ch < pr_revision profiles
       then recover_superseded pf (ch_op ch) l ?q ?active ?match
       else if pr_revision profiles < ch_revision ch \<or> \<not> ?active
       then io_yield (compensate pf (PreparedMaterialization (ch_op ch))) Compensated
       else recover_current pf (ch_op ch) l ?match)
      (\<lambda>_. ended ch x) (resolving pf profiles ch x) s"
  proof (cases "live pf ch l s \<and> recovered_file profiles ch l (s ?q) = x")
    case False
    with at have dead: "x = None" "ch_revision ch < pr_revision profiles" "\<not> ?active" "s ?q = None" "\<not> is_compensating l"
      by (auto simp: resolving_at_def abandoned_def)
    have "acts w (recover_superseded pf (ch_op ch) l ?q ?active ?match) (\<lambda>_. ended ch x) (resolving pf profiles ch x) s"
      unfolding recover_superseded_def Let_def io_when_def
      using dead acts_discard [OF at, of w Discarded]
      by simp (rule acts_bind [where P = "\<lambda>_ t. t = s"], auto intro: acts_return)
    then show ?thesis using dead by (simp add: is_compensating_def)
  next
    case True
    then have lv: "live pf ch l s" and x: "recovered_file profiles ch l (s ?q) = x" by auto
    show ?thesis
    proof (cases "is_compensating l")
      case True
      then have "recovered_file profiles ch l (s ?q) = ch_old ch" by (simp add: recovered_file_def)
      with x have "x = ch_old ch" by simp
      then show ?thesis
        using True acts_backward [OF ok lv] x by (auto simp: is_compensating_def)
    next
      case nc: False
      then have loc: "\<not> (l = StateCompensating \<or> l = FileCompensating)" by (simp add: is_compensating_def)
      consider (superseded) "ch_revision ch < pr_revision profiles"
        | (ahead) "\<not> ch_revision ch < pr_revision profiles" "pr_revision profiles < ch_revision ch \<or> \<not> ?active"
        | (current) "pr_revision profiles = ch_revision ch" "?active"
        by force
      then show ?thesis
      proof cases
        case superseded
        then show ?thesis using loc acts_superseded [OF ok lv nc superseded] x by simp
      next
        case ahead
        then have "x = ch_old ch" using x nc by (auto simp: recovered_file_def Let_def)
        then show ?thesis using ahead loc acts_backward [OF ok lv] x by auto
      next
        case current
        show ?thesis
        proof (cases "l = FilePrepared \<and> \<not> ?match")
          case True
          then have "x = ch_old ch" using x nc current live_target [OF lv] by (auto simp: recovered_file_def Let_def)
          then show ?thesis using True current loc acts_backward [OF ok lv] x by (auto simp: recover_current_def Let_def)
        next
          case False
          then have "x = Some (ch_new ch)" using x nc current by (auto simp: recovered_file_def Let_def)
          moreover have "acts w (io_bind (promote pf (PreparedMaterialization (ch_op ch)))
              (\<lambda>_. io_yield (complete pf (PreparedMaterialization (ch_op ch))) y))
            (\<lambda>_. ended ch (Some (ch_new ch))) (resolving pf profiles ch (Some (ch_new ch))) s" for y
            by (rule acts_forward [OF ok lv nc]) (use False current in auto)
          ultimately show ?thesis using False current loc by (auto simp: recover_current_def Let_def)
        qed
      qed
    qed
  qed
  show ?thesis
    unfolding recover_operation_def
    apply (rule acts_reads_bind, rule reads_locate [OF ok jat], rule here)
    apply (simp only: option.case prod.case path simp_thms if_False not_True_eq_False)
    apply (rule acts_reads_bind, rule reads_resolve [OF change_ok_parts(2) [OF ok]], rule here)
    apply (rule acts_reads_bind, rule reads_path_hash, rule sound, rule here)
    unfolding Let_def hash by (rule body)
qed

text \<open>At other locations, and once it is gone, the operation is left alone.\<close>

lemma recover_elsewhere:
  assumes ok: "change_ok pf ch" and "resolving pf profiles ch x s" and "\<not> resolving_at pf profiles ch x l s"
  shows "reads w (recover_operation pf profiles l (ch_op ch)) Untouched s"
proof -
  consider "gone ch x s" | l' where "resolving_at pf profiles ch x l' s" "l' \<noteq> l"
    using assms(2,3) by (auto simp: resolving_def)
  then show ?thesis
  proof cases
    case 1
    then have "\<And>l. s (journal_path l (ch_op ch)) = None" by (simp add: gone_def)
    then show ?thesis
      unfolding recover_operation_def
      by (intro reads_bind [OF reads_locate_none [OF change_ok_parts(1) [OF ok]]]) (auto intro: reads_return)
  next
    case 2
    then have "journal_at pf ch l' s"
      using live_parts(1) [of pf ch l' s] by (auto simp: resolving_at_def abandoned_def)
    then show ?thesis
      unfolding recover_operation_def
      by (intro reads_bind [OF reads_locate [OF ok]]) (use 2(2) in \<open>auto intro: reads_return\<close>)
  qed
qed

end
