(* ===== verification/Profile_Crash.thy ===== *)
theory Profile_Crash
  imports Profile_Recovery
begin

text \<open>
  The profile file service as a whole: a reconcile of a private area holding any number of operations, and
  the histories of one change of a managed profile: prepared, committed to the document, promoted and
  completed, with the process dying anywhere, also in the reconciles after it.
\<close>

section \<open>Other operations\<close>

lemma own_disjoint:
  assumes "valid_operation_id op" "valid_operation_id op'" "op \<noteq> op'"
  shows "own_places op \<inter> own_places op' = {}" "cleanup_places op \<inter> cleanup_places op' = {}"
proof -
  have not_restore: "x @ ''.restore'' \<noteq> y" if "valid_operation_id x" "valid_operation_id y" for x y :: string
  proof
    assume "x @ ''.restore'' = y"
    then have "length (x @ ''.restore'') = length y" by (rule arg_cong)
    with that show False by (simp add: valid_operation_id_def)
  qed
  show "own_places op \<inter> own_places op' = {}"
    using assms not_restore [of op op'] not_restore [of op' op]
    by (auto simp: own_places_def artifact_places_def journal_places_def place_defs)
  show "cleanup_places op \<inter> cleanup_places op' = {}"
    using assms(3) by (auto simp: cleanup_places_def place_defs)
qed

lemma own_cleanup [simp]: "own_places op \<inter> cleanup_places op' = {}"
  by (auto simp: own_places_def artifact_places_def journal_places_def cleanup_places_def place_defs)

text \<open>Every place a journal can be at, and the state in which no journal but the change's own names its file.\<close>

definition all_journals :: "place set" where
  "all_journals = {Private_place (Journal_directory l) name | l name. True} \<union> {Private_place (Cleanup_directory ph) name | ph name. True}"

definition elsewhere :: "FilePlatform \<Rightarrow> Change \<Rightarrow> (place \<Rightarrow> node option) \<Rightarrow> bool" where
  "elsewhere pf ch s = (target_of ch \<notin> named_by pf (all_journals - journal_places (ch_op ch)) s)"

lemma journals_subset:
  "journal_places op \<subseteq> all_journals" "cleanup_places op \<subseteq> all_journals"
  by (auto simp: all_journals_def journal_places_def cleanup_places_def place_defs)

lemma artifacts_not_journals: "artifact_places op \<inter> all_journals = {}" "profile_place p \<notin> all_journals"
  by (auto simp: all_journals_def artifact_places_def place_defs)

lemma named_by_mono: "J \<subseteq> K \<Longrightarrow> named_by pf J s \<subseteq> named_by pf K s"
  by (auto simp: named_by_def)

text \<open>What a change sees of the disk.\<close>

definition seen_places :: "Change \<Rightarrow> place set" where
  "seen_places ch = insert (target_of ch) (own_places (ch_op ch))"

lemma seen_agree:
  assumes "\<And>q. q \<in> seen_places ch \<Longrightarrow> t q = s q"
  shows "gone ch x t = gone ch x s" "resolving_at pf profiles ch x l t = resolving_at pf profiles ch x l s"
    "live pf ch l t = live pf ch l s"
proof -
  have eqs: "t (target_of ch) = s (target_of ch)" "\<And>l. t (journal_path l (ch_op ch)) = s (journal_path l (ch_op ch))"
    "t (stage_file_path (ch_op ch)) = s (stage_file_path (ch_op ch))"
    "t (stage_link_path (ch_op ch)) = s (stage_link_path (ch_op ch))"
    "t (restore_file_path (ch_op ch)) = s (restore_file_path (ch_op ch))"
    "t (ready_link_path (ch_op ch)) = s (ready_link_path (ch_op ch))"
    "t (backup_file_path (ch_op ch)) = s (backup_file_path (ch_op ch))"
    "t (backup_link_path (ch_op ch)) = s (backup_link_path (ch_op ch))"
    by (rule assms; simp add: seen_places_def own_places_def)+
  have parts: "private_files_ok ch t = private_files_ok ch s" "\<And>l. journal_at pf ch l t = journal_at pf ch l s"
    "backed_up ch t = backed_up ch s" "staged ch t = staged ch s" "\<And>l. ready_ok ch l t = ready_ok ch l s"
    by (simp_all only: private_files_ok_def journal_at_def backed_up_def staged_def ready_ok_def eqs ball_simps)
  show "gone ch x t = gone ch x s" "live pf ch l t = live pf ch l s"
    by (simp_all only: gone_def live_def eqs parts)
  then show "resolving_at pf profiles ch x l t = resolving_at pf profiles ch x l s"
    by (simp only: resolving_at_def abandoned_def eqs parts live_def)
qed

text \<open>The states of a reconcile that has passed the locations \<open>ls\<close>: the change, on its way to \<open>x\<close>, is not at
  one of them any more.\<close>

definition passed ::
    "FilePlatform \<Rightarrow> Profiles \<Rightarrow> Change \<Rightarrow> node option \<Rightarrow> JournalLocation set \<Rightarrow> (place \<Rightarrow> node option) \<Rightarrow> bool" where
  "passed pf profiles ch x ls s \<longleftrightarrow>
     elsewhere pf ch s \<and> (gone ch x s \<or> (\<exists>l. l \<notin> ls \<and> resolving_at pf profiles ch x l s))"

lemma passed_resolving: "passed pf profiles ch x {} s \<longleftrightarrow> elsewhere pf ch s \<and> resolving pf profiles ch x s"
  by (simp add: passed_def resolving_def)

lemma passed_mono: "passed pf profiles ch x ls s \<Longrightarrow> ms \<subseteq> ls \<Longrightarrow> passed pf profiles ch x ms s"
  by (auto simp: passed_def)

text \<open>An action within the places of another operation and the files its journals name changes none of this.\<close>

lemma passed_within:
  assumes V: "passed pf profiles ch x ls s" and w: "within pf J A s t"
    and J: "J \<subseteq> all_journals - journal_places (ch_op ch)" and A: "A \<subseteq> B \<union> J \<union> named_by pf J s"
    and B: "B \<inter> all_journals = {}" "B \<inter> seen_places ch = {}"
  shows "passed pf profiles ch x ls t"
proof -
  have far: "target_of ch \<notin> named_by pf J s"
    using V J named_by_mono [of J "all_journals - journal_places (ch_op ch)" pf s] by (auto simp: passed_def elsewhere_def)
  have profile: "q \<in> named_by pf J s \<Longrightarrow> q \<notin> all_journals \<and> q \<notin> own_places (ch_op ch)" for q
    using named_profile [of q pf J s] artifacts_not_journals(2) by auto
  have own: "J \<inter> own_places (ch_op ch) = {}"
    using J artifacts_not_journals(1) [of "ch_op ch"] by (auto simp: own_places_def)
  have "seen_places ch \<inter> A = {}"
    using A B(2) far profile own J artifacts_not_journals(2) by (auto simp: seen_places_def)
  then have same: "t q = s q" if "q \<in> seen_places ch" for q
    using w that by (auto simp: within_def same_outside_def)
  have "elsewhere pf ch t"
  proof -
    have "named_by pf (all_journals - journal_places (ch_op ch)) t \<subseteq> named_by pf (all_journals - journal_places (ch_op ch)) s"
    proof
      fix q
      assume "q \<in> named_by pf (all_journals - journal_places (ch_op ch)) t"
      then obtain j p c where p: "q = profile_place (mj_managed_path j)" "p \<in> all_journals - journal_places (ch_op ch)"
        "t p = Some (Regular c)" "fp_from_yaml pf c = Some j"
        unfolding named_by_def by blast
      show "q \<in> named_by pf (all_journals - journal_places (ch_op ch)) s"
      proof (cases "p \<in> J")
        case True
        then have "q \<in> named_by pf J t" using p by (auto simp: named_by_def)
        then show ?thesis using w named_by_mono [OF J, of pf s] by (auto simp: within_def)
      next
        case False
        then have "p \<notin> A" using A B(1) p(2) profile by blast
        then have "s p = t p" using w by (simp add: within_def same_outside_def)
        then show ?thesis unfolding p(1) by (intro named_byI [of p]) (use p in simp_all)
      qed
    qed
    then show ?thesis using V by (auto simp: passed_def elsewhere_def)
  qed
  with V show ?thesis using seen_agree [OF same] by (simp add: passed_def)
qed

lemma stays_passed:
  assumes "stays w pf J A m s" and "passed pf profiles ch x ls s"
    and "J \<subseteq> all_journals - journal_places (ch_op ch)" "A \<subseteq> B \<union> J \<union> named_by pf J s"
    and "B \<inter> all_journals = {}" "B \<inter> seen_places ch = {}"
  shows "runs w m (\<lambda>_. passed pf profiles ch x ls) (passed pf profiles ch x ls) (passed pf profiles ch x ls) s"
  using assms(1) unfolding stays_def
  by (rule runs_mono) (rule passed_within [OF assms(2) _ assms(3-6)], assumption)+

lemma other_recover:
  assumes "valid_operation_id op" "valid_operation_id (ch_op ch)" "op \<noteq> ch_op ch" "passed pf profiles ch x ls s"
  shows "runs w (recover_operation pf profiles l op)
    (\<lambda>_. passed pf profiles ch x ls) (passed pf profiles ch x ls) (passed pf profiles ch x ls) s"
proof (rule stays_passed [OF handled_recover [where A = "reach pf op s"] assms(4)])
  show "journal_places op \<subseteq> all_journals - journal_places (ch_op ch)"
    using journals_subset(1) [of op] assms(3) by (auto simp: journal_places_def place_defs)
  show "reach pf op s \<subseteq> artifact_places op \<union> journal_places op \<union> named_by pf (journal_places op) s"
    by (auto simp: reach_def own_places_def)
  show "artifact_places op \<inter> seen_places ch = {}"
    using own_disjoint(1) [OF assms(1-3)] by (auto simp: seen_places_def own_places_def)
qed (simp_all add: artifacts_not_journals)

lemma other_cleanup:
  assumes "stays w pf (cleanup_places op) (cleanup_places op \<union> named_by pf (cleanup_places op) s) m s"
    and "passed pf profiles ch x ls s"
  shows "runs w m (\<lambda>_. passed pf profiles ch x ls) (passed pf profiles ch x ls) (passed pf profiles ch x ls) s"
  by (rule stays_passed [OF assms, where B = "{}"])
    (use journals_subset(2) [of op] cleanup_files(1) [of op "ch_op ch"] in blast)+

lemma only_passed:
  assumes "only w B m" "B \<inter> all_journals = {}" "B \<inter> seen_places ch = {}" "passed pf profiles ch x ls s"
  shows "runs w m (\<lambda>_. passed pf profiles ch x ls) (passed pf profiles ch x ls) (passed pf profiles ch x ls) s"
  by (rule stays_passed [OF stays_only [OF assms(1), where J = "{}" and A = B] assms(4), where B = B])
    (use assms in auto)

section \<open>Listing and sweeping\<close>

lemma strip_suffix_Some: "strip_suffix suf name = Some op \<longleftrightarrow> name = op @ suf"
proof
  assume "strip_suffix suf name = Some op"
  then show "name = op @ suf"
    unfolding strip_suffix_def by (metis append_take_drop_id option.distinct(1) option.inject)
qed (simp add: strip_suffix_def)

definition listed_entry :: "(place \<Rightarrow> node option) \<Rightarrow> private_directory \<Rightarrow> string \<Rightarrow> string list \<Rightarrow> string list" where
  "listed_entry s dir name ids =
     (case s (Private_place dir name) of
        Some (Regular c) \<Rightarrow>
          (case strip_suffix ''.yaml'' name of
             Some op \<Rightarrow> if valid_operation_id op then ids @ [op] else ids
           | None \<Rightarrow> ids)
      | _ \<Rightarrow> ids)"

lemma reads_attempt_metadata:
  assumes "w \<noteq> Stormy"
  shows "reads w (io_attempt (symlink_metadata msg q)) (Inr (s q)) s"
  unfolding reads_def acts_def by (rule runs_attempt) (use assms in \<open>auto intro!: runs_symlink_metadata\<close>)

lemma reads_list_entry: "w \<noteq> Stormy \<Longrightarrow> reads w (list_entry dir name ids) (listed_entry s dir name ids) s"
  unfolding list_entry_def
  by (rule reads_bind [OF reads_attempt_metadata]) (auto simp: listed_entry_def reads_return split: option.split node.split)

lemma listed_entry_iff:
  "op \<in> set (listed_entry s dir name ids) \<longleftrightarrow>
     op \<in> set ids \<or> op @ ''.yaml'' = name \<and> valid_operation_id op \<and>
       (\<exists>c. s (Private_place dir (op @ ''.yaml'')) = Some (Regular c))"
proof (cases "s (Private_place dir name)" rule: node_option_cases)
  case (2 c)
  show ?thesis
  proof (cases "strip_suffix ''.yaml'' name")
    case None
    then have "op @ ''.yaml'' \<noteq> name" by (metis option.distinct(1) strip_suffix_Some)
    with 2 None show ?thesis by (simp add: listed_entry_def)
  next
    case (Some op')
    then have name: "name = op' @ ''.yaml''" by (simp add: strip_suffix_Some)
    with 2 Some show ?thesis by (auto simp: listed_entry_def)
  qed
qed (auto simp: listed_entry_def)

lemma listed_entries:
  "op \<in> set (fold (listed_entry s dir) names ids) \<longleftrightarrow>
     op \<in> set ids \<or> op @ ''.yaml'' \<in> set names \<and> valid_operation_id op \<and>
       (\<exists>c. s (Private_place dir (op @ ''.yaml'')) = Some (Regular c))"
proof (induction names arbitrary: ids)
  case (Cons name names)
  show ?case
    unfolding fold.simps comp_apply Cons.IH listed_entry_iff list.set by blast
qed simp

lemma runs_list_ids:
  assumes w: "w \<noteq> Stormy"
  shows "runs w (list_operation_ids dir)
    (\<lambda>ids t. t = s \<and> (\<forall>op. op \<in> set ids \<longleftrightarrow>
       valid_operation_id op \<and> (\<exists>c. s (Private_place dir (op @ ''.yaml'')) = Some (Regular c))))
    (\<lambda>t. False) (\<lambda>t. t = s) s"
  unfolding list_operation_ids_def
proof (rule runs_bind, rule runs_read_dir)
  fix names
  assume names: "\<And>name. name \<in> set names \<longleftrightarrow> s (Private_place dir name) \<noteq> None"
  have "reads w (io_for (list_entry dir) names []) (fold (listed_entry s dir) names []) s"
    by (rule reads_for) (rule reads_list_entry [OF w])
  then show "runs w (io_bind (io_for (list_entry dir) names []) (\<lambda>ids. io_return (sort ids)))
      (\<lambda>ids t. t = s \<and> (\<forall>op. op \<in> set ids \<longleftrightarrow>
         valid_operation_id op \<and> (\<exists>c. s (Private_place dir (op @ ''.yaml'')) = Some (Regular c))))
      (\<lambda>t. False) (\<lambda>t. t = s) s"
    by (rule runs_reads_bind) (use w names in \<open>auto intro!: runs_return simp: listed_entries\<close>)
qed (use w in auto)

lemma resolving_unique:
  assumes "resolving_at pf profiles ch x l s"
  shows "\<not> gone ch y s" and "resolving_at pf profiles ch x l' s \<Longrightarrow> l' = l"
    and "\<exists>c. s (journal_path l (ch_op ch)) = Some (Regular c)"
proof -
  have at: "journal_at pf ch m s" if "resolving_at pf profiles ch x m s" for m
    using that live_parts(1) [of pf ch m s] by (auto simp: resolving_at_def abandoned_def)
  then show "\<exists>c. s (journal_path l (ch_op ch)) = Some (Regular c)" using assms by (simp add: journal_at_def)
  then show "\<not> gone ch y s" by (auto simp: gone_def)
  show "l' = l" if "resolving_at pf profiles ch x l' s"
    using at [OF that] at [OF assms] unfolding journal_at_def by (metis option.distinct(1))
qed

text \<open>What the own operation may touch names no file the others name.\<close>

lemma elsewhere_own:
  assumes "elsewhere pf ch s" and "same_outside A s t" and "A \<inter> (all_journals - journal_places (ch_op ch)) = {}"
  shows "elsewhere pf ch t"
proof -
  have "\<And>q. q \<in> all_journals - journal_places (ch_op ch) \<Longrightarrow> t q = s q"
    using assms(2,3) by (auto simp: same_outside_def)
  then have "named_by pf (all_journals - journal_places (ch_op ch)) t \<subseteq> named_by pf (all_journals - journal_places (ch_op ch)) s"
    by (rule named_by_subset)
  then show ?thesis using assms(1) by (auto simp: elsewhere_def)
qed

lemma reads_has_journal:
  assumes "w \<noteq> Stormy"
  shows "reads w (has_materialization_journal op) (\<exists>l \<in> set journal_locations. s (journal_path l op) \<noteq> None) s"
  unfolding has_materialization_journal_def by (rule reads_any) (rule reads_metadata_is_ok [OF assms])

lemma all_locations: "set journal_locations = UNIV"
  by (auto simp: journal_locations_def) (metis JournalLocation.exhaust)

lemma passed_gone: "passed pf profiles ch x ls s \<Longrightarrow> \<forall>l. s (journal_path l (ch_op ch)) = None \<Longrightarrow> gone ch x s"
  using resolving_unique(3) unfolding passed_def by fastforce

lemma sweep_entry_passed:
  assumes w: "w \<noteq> Stormy" and ok: "valid_operation_id (ch_op ch)" and V: "passed pf profiles ch x ls s"
  shows "runs w (sweep_entry dir permits name removed)
    (\<lambda>_. passed pf profiles ch x ls) (passed pf profiles ch x ls) (passed pf profiles ch x ls) s"
proof -
  have artifacts: "runs w (remove_private_artifacts op) (\<lambda>_. passed pf profiles ch x ls) (passed pf profiles ch x ls)
      (passed pf profiles ch x ls) s" if valid: "valid_operation_id op" and dead: "\<forall>l. s (journal_path l op) = None" for op
  proof (cases "op = ch_op ch")
    case True
    then have g: "gone ch x s" using passed_gone [OF V] dead by simp
    have "only w (artifact_places (ch_op ch)) (remove_private_artifacts (ch_op ch))" by (rule only_remove_artifacts) simp
    then have "runs w (remove_private_artifacts (ch_op ch)) (\<lambda>x. same_outside (artifact_places (ch_op ch)) s)
        (same_outside (artifact_places (ch_op ch)) s) (same_outside (artifact_places (ch_op ch)) s) s"
      by (simp add: only_def)
    from runs_conj [OF this acts_remove_artifacts [OF g, unfolded acts_def]]
    show ?thesis
      unfolding True
      by (rule runs_mono)
        (use V artifacts_not_journals(1) [of "ch_op ch"] in \<open>auto simp: passed_def intro: elsewhere_own\<close>)
  next
    case False
    show ?thesis
    proof (rule only_passed [where B = "artifact_places op", OF _ _ _ V])
      show "only w (artifact_places op) (remove_private_artifacts op)" by (rule only_remove_artifacts) simp
      show "artifact_places op \<inter> seen_places ch = {}"
        using own_disjoint(1) [OF valid ok False] by (auto simp: seen_places_def own_places_def)
    qed (rule artifacts_not_journals)
  qed
  have live: "runs w (io_bind (has_materialization_journal op) (\<lambda>live. if live then io_return removed
        else io_bind (remove_private_artifacts op) (\<lambda>_. io_return (removed + 1))))
      (\<lambda>_. passed pf profiles ch x ls) (passed pf profiles ch x ls) (passed pf profiles ch x ls) s"
    if valid: "valid_operation_id op" for op
    by (rule runs_reads_bind [OF reads_has_journal [OF w]])
      (use V artifacts [OF valid] in \<open>auto simp: all_locations intro!: runs_return runs_bind elim!: runs_mono\<close>)
  show ?thesis
    unfolding sweep_entry_def Let_def
    apply (rule runs_reads_bind, rule reads_attempt_metadata [OF w])
    using V live by (auto intro!: runs_return split: option.splits)
qed

lemma sweep_passed:
  assumes "w \<noteq> Stormy" and "valid_operation_id (ch_op ch)" and "passed pf profiles ch x ls s"
  shows "runs w sweep_unreferenced_artifacts
    (\<lambda>_. passed pf profiles ch x ls) (passed pf profiles ch x ls) (passed pf profiles ch x ls) s"
  unfolding sweep_unreferenced_artifacts_def
  by (rule runs_for) (use assms in \<open>auto intro!: runs_bind runs_read_dir runs_for sweep_entry_passed\<close>)

section \<open>A reconcile\<close>

lemma own_reach:
  "reach pf (ch_op ch) s \<inter> (all_journals - journal_places (ch_op ch)) = {}"
proof -
  have "q \<notin> all_journals" if "q \<in> named_by pf (journal_places (ch_op ch)) s" for q
    using named_profile [OF that] artifacts_not_journals(2) by auto
  then show ?thesis using artifacts_not_journals(1) [of "ch_op ch"] by (auto simp: reach_def own_places_def)
qed

text \<open>The change's own turn at its location, and its turns elsewhere.\<close>

lemma own_recover:
  assumes ok: "change_ok pf ch" and w: "w \<noteq> Stormy" and V: "passed pf profiles ch x (- {l}) s"
  shows "runs w (recover_operation pf profiles l (ch_op ch))
    (\<lambda>_. passed pf profiles ch x UNIV) (\<lambda>_. False) (passed pf profiles ch x {}) s"
proof (cases "resolving_at pf profiles ch x l s")
  case True
  have "handled w pf (ch_op ch) (reach pf (ch_op ch) s) (recover_operation pf profiles l (ch_op ch)) s"
    by (rule handled_recover) simp_all
  from runs_conj [OF this [unfolded stays_def] recover_live [OF ok True, unfolded acts_def]]
  show ?thesis
  proof (rule runs_mono)
    have "elsewhere pf ch s" using V by (simp add: passed_def)
    note there = elsewhere_own [OF this _ own_reach]
    show "passed pf profiles ch x UNIV t"
      if "within pf (journal_places (ch_op ch)) (reach pf (ch_op ch) s) s t \<and> ended ch x t" for t
      using that there by (auto simp: passed_def within_def)
    show "passed pf profiles ch x {} t"
      if "within pf (journal_places (ch_op ch)) (reach pf (ch_op ch) s) s t \<and> w \<noteq> Calm \<and> resolving pf profiles ch x t" for t
      using that there by (auto simp: passed_resolving within_def)
  qed (use w in auto)
next
  case False
  then have "resolving pf profiles ch x s" "passed pf profiles ch x UNIV s"
    using V by (auto simp: passed_def resolving_def)
  with reads_bind show ?thesis
    using recover_elsewhere [OF ok _ False, of w] w passed_mono [of pf profiles ch x UNIV s "{}"]
    unfolding reads_def acts_def by (auto elim!: runs_mono)
qed

lemma own_elsewhere:
  assumes ok: "change_ok pf ch" and w: "w \<noteq> Stormy" and V: "passed pf profiles ch x (insert l ls) s"
  shows "runs w (recover_operation pf profiles l (ch_op ch))
    (\<lambda>_. passed pf profiles ch x (insert l ls)) (\<lambda>_. False) (passed pf profiles ch x {}) s"
proof -
  have "\<not> resolving_at pf profiles ch x l s" "resolving pf profiles ch x s"
    using V resolving_unique(1,2) unfolding passed_def resolving_def by fastforce+
  from recover_elsewhere [OF ok this(2,1), of w] show ?thesis
    using V w passed_mono [OF V, of "{}"] unfolding reads_def acts_def by (auto elim!: runs_mono)
qed

lemma reconcile_operation_runs:
  assumes "runs w (recover_operation pf profiles l op) (\<lambda>_. P) P C s"
  shows "runs w (reconcile_operation pf profiles l op report) (\<lambda>_. P) (\<lambda>_. False) C s"
  unfolding reconcile_operation_def
  by (rule runs_bind, rule runs_attempt, rule runs_mono [OF assms]) (auto intro!: runs_return)

lemma reconcile_ids_keep:
  assumes ok: "change_ok pf ch" and w: "w \<noteq> Stormy" and V: "passed pf profiles ch x (insert l ls) s"
    and ids: "\<forall>op \<in> set ids. valid_operation_id op"
  shows "runs w (io_for (reconcile_operation pf profiles l) ids report)
    (\<lambda>_. passed pf profiles ch x (insert l ls)) (\<lambda>_. False) (passed pf profiles ch x {}) s"
proof (rule runs_for)
  fix op report t
  assume op: "op \<in> set ids" and t: "passed pf profiles ch x (insert l ls) t"
  show "runs w (reconcile_operation pf profiles l op report) (\<lambda>_. passed pf profiles ch x (insert l ls)) (\<lambda>_. False)
      (passed pf profiles ch x {}) t"
  proof (cases "op = ch_op ch")
    case True
    show ?thesis
      by (rule reconcile_operation_runs, unfold True, rule runs_mono [OF own_elsewhere [OF ok w t]]) auto
  next
    case False
    have "valid_operation_id op" using ids op by blast
    then show ?thesis
      by (intro reconcile_operation_runs runs_mono [OF other_recover [OF _ change_ok_parts(1) [OF ok] False t]])
        (auto intro: passed_mono)
  qed
qed (rule V)

lemma reconcile_ids_settle:
  assumes ok: "change_ok pf ch" and w: "w \<noteq> Stormy" and V: "passed pf profiles ch x (- {l}) s"
    and ids: "\<forall>op \<in> set ids. valid_operation_id op" and own: "ch_op ch \<in> set ids"
  shows "runs w (io_for (reconcile_operation pf profiles l) ids report)
    (\<lambda>_. passed pf profiles ch x UNIV) (\<lambda>_. False) (passed pf profiles ch x {}) s"
  using V ids own
proof (induction ids arbitrary: s report)
  case (Cons op ids)
  show ?case
  proof (cases "op = ch_op ch")
    case True
    have "runs w (reconcile_operation pf profiles l op report) (\<lambda>_. passed pf profiles ch x UNIV) (\<lambda>_. False)
        (passed pf profiles ch x {}) s"
      by (rule reconcile_operation_runs, unfold True, rule runs_mono [OF own_recover [OF ok w Cons.prems(1)]]) auto
    moreover have "runs w (io_for (reconcile_operation pf profiles l) ids r) (\<lambda>_. passed pf profiles ch x UNIV) (\<lambda>_. False)
        (passed pf profiles ch x {}) t" if "passed pf profiles ch x UNIV t" for r t
      using reconcile_ids_keep [OF ok w, of profiles x l UNIV t ids r] that Cons.prems(2) by simp
    ultimately show ?thesis
      unfolding io_for.simps by (intro runs_bind) (erule runs_mono, auto)
  next
    case False
    have "valid_operation_id op" using Cons.prems(2) by simp
    then have "runs w (reconcile_operation pf profiles l op report) (\<lambda>_. passed pf profiles ch x (- {l})) (\<lambda>_. False)
        (passed pf profiles ch x {}) s"
      by (intro reconcile_operation_runs
          runs_mono [OF other_recover [OF _ change_ok_parts(1) [OF ok] False Cons.prems(1)]]) (auto intro: passed_mono)
    then show ?thesis
      unfolding io_for.simps using Cons False by (intro runs_bind) (erule runs_mono, auto)
  qed
qed simp

lemma reconcile_location_passed:
  assumes ok: "change_ok pf ch" and w: "w \<noteq> Stormy" and V: "passed pf profiles ch x ls s"
  shows "runs w (reconcile_location pf profiles l report)
    (\<lambda>_. passed pf profiles ch x (insert l ls)) (\<lambda>_. False) (passed pf profiles ch x {}) s"
  unfolding reconcile_location_def
proof (rule runs_bind, rule runs_attempt, rule runs_mono [OF runs_list_ids [OF w]])
  fix ids t
  assume ids: "t = s \<and> (\<forall>op. op \<in> set ids \<longleftrightarrow> valid_operation_id op \<and>
      (\<exists>c. s (Private_place (Journal_directory l) (op @ ''.yaml'')) = Some (Regular c)))"
  have valid: "\<forall>op \<in> set ids. valid_operation_id op" using ids by simp
  have "runs w (io_for (reconcile_operation pf profiles l) ids report) (\<lambda>_. passed pf profiles ch x (insert l ls))
      (\<lambda>_. False) (passed pf profiles ch x {}) s"
  proof (cases "resolving_at pf profiles ch x l s")
    case True
    have "ch_op ch \<in> set ids"
      using ids resolving_unique(3) [OF True] change_ok_parts(1) [OF ok] by (simp add: journal_path_def)
    moreover have "passed pf profiles ch x (- {l}) s" using V True by (auto simp: passed_def)
    ultimately show ?thesis
      using reconcile_ids_settle [OF ok w _ valid, of profiles x l s report]
      by (auto elim!: runs_mono intro: passed_mono)
  next
    case False
    have "passed pf profiles ch x (insert l ls) s" using V False by (auto simp: passed_def)
    then show ?thesis by (rule reconcile_ids_keep [OF ok w _ valid])
  qed
  then show "runs w (case Inr ids of Inl e \<Rightarrow> io_return (degraded PhaseReconcile JournalInvalid e report)
        | Inr ids \<Rightarrow> io_for (reconcile_operation pf profiles l) ids report)
      (\<lambda>_. passed pf profiles ch x (insert l ls)) (\<lambda>_. False) (passed pf profiles ch x {}) t"
    using ids by simp
qed (use passed_mono [OF V, of "{}"] in auto)

lemma reconcile_locations_passed:
  assumes ok: "change_ok pf ch" and w: "w \<noteq> Stormy" and V: "passed pf profiles ch x ls s"
  shows "runs w (io_for (reconcile_location pf profiles) locations report)
    (\<lambda>_. passed pf profiles ch x (set locations \<union> ls)) (\<lambda>_. False) (passed pf profiles ch x {}) s"
  using V
proof (induction locations arbitrary: ls s report)
  case Nil
  then show ?case by (simp add: runs_return)
next
  case (Cons l locations)
  show ?case
    unfolding io_for.simps
    by (rule runs_bind, rule runs_mono [OF reconcile_location_passed [OF ok w Cons.prems]])
      (use Cons.IH [of "insert l ls"] in auto)
qed

lemma cleanup_body_passed:
  assumes "stays w pf (cleanup_places op) (cleanup_places op \<union> named_by pf (cleanup_places op) s) m s"
    and "passed pf profiles ch x ls s"
  shows "runs w (io_bind (io_attempt m) (\<lambda>r. io_return (f r)))
    (\<lambda>_. passed pf profiles ch x ls) (\<lambda>_. False) (passed pf profiles ch x ls) s"
  by (rule runs_bind, rule runs_attempt, rule runs_mono [OF other_cleanup [OF assms]]) (auto intro!: runs_return)

lemma settle_pending_passed:
  assumes "passed pf profiles ch x ls s"
  shows "runs w (settle_pending pf profiles op report)
    (\<lambda>_. passed pf profiles ch x ls) (\<lambda>_. False) (passed pf profiles ch x ls) s"
  unfolding settle_pending_def
proof (rule cleanup_body_passed [OF _ assms], rule stays_located_cleanup, goal_cases)
  case (4 ph j t)
  let ?A = "cleanup_places op \<union> named_by pf (cleanup_places op) s"
  have "stays w pf (cleanup_places op) ?A (if mj_managed_path j \<in> set (active_managed_paths profiles)
      then cancel_cleanup pf (PreparedCleanup op) else activate_cleanup pf (PreparedCleanup op)) t"
    using 4(2) by (auto intro!: stays_if stays_cancel stays_activate)
  then show ?case by simp
qed (auto intro: stays_readings)

lemma settle_ready_passed:
  assumes "passed pf profiles ch x ls s"
  shows "runs w (settle_ready pf profiles op report)
    (\<lambda>_. passed pf profiles ch x ls) (\<lambda>_. False) (passed pf profiles ch x ls) s"
  unfolding settle_ready_def by (rule cleanup_body_passed [OF stays_retry assms]) simp_all

lemma reconcile_cleanups_passed:
  assumes w: "w \<noteq> Stormy" and V: "passed pf profiles ch x ls s"
    and settle: "\<And>op report t. passed pf profiles ch x ls t \<Longrightarrow>
      runs w (settle op report) (\<lambda>_. passed pf profiles ch x ls) (\<lambda>_. False) (passed pf profiles ch x ls) t"
  shows "runs w (reconcile_cleanups phase settle report)
    (\<lambda>_. passed pf profiles ch x ls) (\<lambda>_. False) (passed pf profiles ch x ls) s"
  unfolding reconcile_cleanups_def
  by (rule runs_bind, rule runs_attempt, rule runs_mono [OF runs_list_ids [OF w]])
    (use V settle in \<open>auto intro!: runs_for\<close>)

text \<open>A reconcile, which may die anywhere, of any private area in which one change is on its way to \<open>x\<close>: when it
  returns, the change is over and its file is \<open>x\<close>; else the change is still on its way.\<close>

theorem reconcile_settles:
  assumes ok: "change_ok pf ch" and w: "w \<noteq> Stormy" and V: "passed pf profiles ch x {} s"
  shows "runs w (reconcile pf profiles)
    (\<lambda>_. passed pf profiles ch x UNIV) (\<lambda>_. False) (passed pf profiles ch x {}) s"
proof -
  have cleanups: "runs w (io_bind (reconcile_cleanups CleanupPending (settle_pending pf profiles) report)
      (reconcile_cleanups CleanupReady (settle_ready pf profiles)))
      (\<lambda>_. passed pf profiles ch x UNIV) (\<lambda>_. False) (passed pf profiles ch x {}) t"
    if t: "passed pf profiles ch x UNIV t" for t report
  proof (rule runs_bind, rule runs_mono [OF reconcile_cleanups_passed [OF w t settle_pending_passed]])
    fix report u
    assume u: "passed pf profiles ch x UNIV u"
    show "runs w (reconcile_cleanups CleanupReady (settle_ready pf profiles) report)
        (\<lambda>_. passed pf profiles ch x UNIV) (\<lambda>_. False) (passed pf profiles ch x {}) u"
      by (rule runs_mono [OF reconcile_cleanups_passed [OF w u settle_ready_passed]]) (auto intro: passed_mono)
  qed (auto intro: passed_mono)
  have rest: "runs w (io_bind (io_for (reconcile_location pf profiles) journal_locations report) (\<lambda>report.
      io_bind (reconcile_cleanups CleanupPending (settle_pending pf profiles) report)
        (reconcile_cleanups CleanupReady (settle_ready pf profiles))))
      (\<lambda>_. passed pf profiles ch x UNIV) (\<lambda>_. False) (passed pf profiles ch x {}) t"
    if t: "passed pf profiles ch x {} t" for t report
    by (rule runs_bind, rule runs_mono [OF reconcile_locations_passed [OF ok w t]])
      (use cleanups in \<open>auto simp: all_locations\<close>)
  show ?thesis
    unfolding reconcile_def Let_def
    apply (rule runs_reads_bind, rule reads_calls(5))
    apply (rule runs_bind, rule runs_attempt, rule runs_mono [OF sweep_passed [OF w change_ok_parts(1) [OF ok] V]])
    using rest V w by auto
qed

section \<open>Histories of a change\<close>

text \<open>
  The two protocols of the profiles actor. State first: prepare, commit the document, promote, complete. File
  first: prepare, promote, commit, complete; a change that is not committed is compensated. The process may
  stop between any two calls and, in a call, at any system call; after that it only reconciles, with the
  document it finds. Promoting, completing and compensating may meet failing system calls as well as crashes,
  the other calls crashes.
\<close>

datatype protocol = StateFirst | FileFirst

datatype stage = Starting | Prepared PreparedMaterialization | Promoted PreparedMaterialization | Halted

definition prepare_by ::
    "protocol \<Rightarrow> FilePlatform \<Rightarrow> (nat \<Rightarrow> string) \<Rightarrow> ManagedProfilePath \<Rightarrow> MaterializationResource \<Rightarrow> u64 \<Rightarrow>
     PreparedMaterialization io" where
  "prepare_by protocol =
     (case protocol of StateFirst \<Rightarrow> prepare_state_first | FileFirst \<Rightarrow> prepare_file_first)"

definition stage_after :: "stage \<Rightarrow> 'a outcome \<Rightarrow> stage" where
  "stage_after next out = (case out of Returned x \<Rightarrow> next | _ \<Rightarrow> Halted)"

definition crashes_only :: "verdict list \<Rightarrow> bool" where
  "crashes_only = list_all (may_meet Crashy)"

inductive history ::
    "FilePlatform \<Rightarrow> protocol \<Rightarrow> Profiles \<Rightarrow> Profiles \<Rightarrow> ManagedProfilePath \<Rightarrow> MaterializationResource \<Rightarrow> u64 \<Rightarrow>
     (nat \<Rightarrow> string) \<Rightarrow> Disk \<Rightarrow> stage \<Rightarrow> bool \<Rightarrow> Disk \<Rightarrow> bool"
  for pf protocol before after path r v draws d0 where
  start: "history pf protocol before after path r v draws d0 Starting False d0"
| prepare: "history pf protocol before after path r v draws d0 Starting False d \<Longrightarrow> crashes_only fs \<Longrightarrow>
    prepare_by protocol pf draws path r v (with_faults fs d) = (out, d') \<Longrightarrow>
    history pf protocol before after path r v draws d0 (case out of Returned p \<Rightarrow> Prepared p | _ \<Rightarrow> Halted) False d'"
| commit_state: "history pf protocol before after path r v draws d0 (Prepared p) False d \<Longrightarrow> protocol = StateFirst \<Longrightarrow>
    history pf protocol before after path r v draws d0 (Prepared p) True d"
| promote: "history pf protocol before after path r v draws d0 (Prepared p) committed d \<Longrightarrow>
    committed = (protocol = StateFirst) \<Longrightarrow> promote pf p (with_faults fs d) = (out, d') \<Longrightarrow>
    history pf protocol before after path r v draws d0 (stage_after (Promoted p) out) committed d'"
| commit_file: "history pf protocol before after path r v draws d0 (Promoted p) False d \<Longrightarrow>
    history pf protocol before after path r v draws d0 (Promoted p) True d"
| complete: "history pf protocol before after path r v draws d0 (Promoted p) True d \<Longrightarrow>
    complete pf p (with_faults fs d) = (out, d') \<Longrightarrow>
    history pf protocol before after path r v draws d0 Halted True d'"
| compensate: "history pf protocol before after path r v draws d0 st False d \<Longrightarrow> st = Prepared p \<or> st = Promoted p \<Longrightarrow>
    compensate pf p (with_faults fs d) = (out, d') \<Longrightarrow>
    history pf protocol before after path r v draws d0 Halted False d'"
| stop: "history pf protocol before after path r v draws d0 st committed d \<Longrightarrow>
    history pf protocol before after path r v draws d0 Halted committed d"
| recover: "history pf protocol before after path r v draws d0 Halted committed d \<Longrightarrow> crashes_only fs \<Longrightarrow>
    reconcile pf (if committed then after else before) (with_faults fs d) = (out, d') \<Longrightarrow>
    history pf protocol before after path r v draws d0 Halted committed d'"

text \<open>The setting of a change: an unclaimed file or place that can be recorded, the two documents, and ids of which
  one is free.\<close>

definition unclaimed :: "FilePlatform \<Rightarrow> ManagedProfilePath \<Rightarrow> (place \<Rightarrow> node option) \<Rightarrow> bool" where
  "unclaimed pf path s = (profile_place path \<notin> named_by pf all_journals s)"

definition change_setting ::
    "FilePlatform \<Rightarrow> Profiles \<Rightarrow> Profiles \<Rightarrow> ManagedProfilePath \<Rightarrow> MaterializationResource \<Rightarrow> u64 \<Rightarrow> (nat \<Rightarrow> string) \<Rightarrow>
     (place \<Rightarrow> node option) \<Rightarrow> bool" where
  "change_setting pf before after path r v draws s \<longleftrightarrow>
     pr_revision before < v \<and> pr_revision after = v \<and> path \<in> set (active_managed_paths after) \<and>
     unclaimed pf path s \<and>
     (\<forall>i < 16. change_ok pf (change_for path r v (s (profile_place path)) (draws i)) \<and>
        s (restore_file_path (draws i)) = None) \<and>
     (\<exists>i < 16. fresh (draws i) s)"

lemma may_meet_all [simp]: "list_all (may_meet Stormy) fs"
  by (induction fs) (auto simp: may_meet_def split: verdict.splits)

lemma content_with [simp]: "content_of (with_faults fs d) = content_of d" "dk_faults (with_faults fs d) = fs"
  by (simp_all add: with_faults_def)

lemma runs_stepD:
  assumes "runs w m T E C (content_of d)" and "list_all (may_meet w) fs" and "m (with_faults fs d) = (out, d')"
  shows "case out of Returned y \<Rightarrow> T y (content_of d') | Errored e \<Rightarrow> E (content_of d') | Crashed \<Rightarrow> C (content_of d')"
proof -
  have "fits w T E C (out, d')" using runsD [OF assms(1), of "with_faults fs d"] assms(2,3) by simp
  then show ?thesis by (simp add: fits_def)
qed

definition first_location :: "protocol \<Rightarrow> JournalLocation" where
  "first_location protocol = (case protocol of StateFirst \<Rightarrow> StatePrepared | FileFirst \<Rightarrow> FilePrepared)"

text \<open>The invariant of histories.\<close>

definition stage_ok ::
    "FilePlatform \<Rightarrow> protocol \<Rightarrow> Profiles \<Rightarrow> Profiles \<Rightarrow> ManagedProfilePath \<Rightarrow> MaterializationResource \<Rightarrow> u64 \<Rightarrow>
     (nat \<Rightarrow> string) \<Rightarrow> (place \<Rightarrow> node option) \<Rightarrow> stage \<Rightarrow> bool \<Rightarrow> (place \<Rightarrow> node option) \<Rightarrow> bool" where
  "stage_ok pf protocol before after path r v draws s0 st committed s =
     (let ch = change_for path r v (s0 (profile_place path)); l = first_location protocol
      in case st of
           Starting \<Rightarrow> \<not> committed \<and> s = s0
         | Prepared p \<Rightarrow> (committed \<longrightarrow> protocol = StateFirst) \<and>
             (\<exists>i < 16. p = PreparedMaterialization (draws i) \<and> elsewhere pf (ch (draws i)) s \<and> live pf (ch (draws i)) l s)
         | Promoted p \<Rightarrow> (committed \<or> protocol = FileFirst) \<and>
             (\<exists>i < 16. p = PreparedMaterialization (draws i) \<and> elsewhere pf (ch (draws i)) s \<and>
                live pf (ch (draws i)) (promoted_location l) s \<and> s (profile_place path) = Some (resource_node r))
         | Halted \<Rightarrow> (\<exists>i < 16. passed pf (if committed then after else before) (ch (draws i))
             (if committed then Some (resource_node r) else s0 (profile_place path)) {} s))"

lemma own_step:
  assumes "acts w m P A s" and "elsewhere pf ch s" and "handled w pf (ch_op ch) (reach pf (ch_op ch) s) m s"
  shows "runs w m (\<lambda>x t. P x t \<and> elsewhere pf ch t) (\<lambda>t. A t \<and> elsewhere pf ch t) (\<lambda>t. A t \<and> elsewhere pf ch t) s"
proof (rule runs_mono [OF runs_conj [OF assms(1) [unfolded acts_def] assms(3) [unfolded stays_def]]])
  fix t
  show "A t \<and> elsewhere pf ch t" if "(w = Stormy \<and> A t) \<and> within pf (journal_places (ch_op ch)) (reach pf (ch_op ch) s) s t"
    using that elsewhere_own [OF assms(2) _ own_reach] by (auto simp: within_def)
  show "A t \<and> elsewhere pf ch t" if "(w \<noteq> Calm \<and> A t) \<and> within pf (journal_places (ch_op ch)) (reach pf (ch_op ch) s) s t"
    using that elsewhere_own [OF assms(2) _ own_reach] by (auto simp: within_def)
  show "P x t \<and> elsewhere pf ch t" if "P x t \<and> within pf (journal_places (ch_op ch)) (reach pf (ch_op ch) s) s t" for x
    using that elsewhere_own [OF assms(2) _ own_reach] by (auto simp: within_def)
qed

lemma setting_parts:
  assumes "change_setting pf before after path r v draws s0"
  shows "pr_revision before < v" "pr_revision after = v" "path \<in> set (active_managed_paths after)"
    and "unclaimed pf path s0"
    and "i < 16 \<Longrightarrow> change_ok pf (change_for path r v (s0 (profile_place path)) (draws i))"
    and "i < 16 \<Longrightarrow> s0 (restore_file_path (draws i)) = None"
  using assms unfolding change_setting_def by blast+

text \<open>Where an uncommitted and a committed change stop.\<close>

lemma halted_uncommitted:
  assumes S: "change_setting pf before after path r v draws s0" and "i < 16"
  defines "ch \<equiv> change_for path r v (s0 (profile_place path)) (draws i)"
  assumes "elsewhere pf ch s" and "gone ch (s0 (profile_place path)) s \<or> (\<exists>l. live pf ch l s)"
  shows "stage_ok pf protocol before after path r v draws s0 Halted False s"
proof -
  have "recovered_file before ch l y = s0 (profile_place path)" for l y
    using setting_parts(1) [OF S] less_not_sym [OF setting_parts(1) [OF S]]
    by (simp add: recovered_file_def ch_def Let_def)
  with assms(4,5) have "passed pf before ch (s0 (profile_place path)) {} s"
    by (auto simp: passed_resolving intro: resolving_gone resolving_live)
  with assms(2) show ?thesis by (auto simp: stage_ok_def ch_def Let_def)
qed

lemma halted_committed:
  assumes S: "change_setting pf before after path r v draws s0" and "i < 16"
  defines "ch \<equiv> change_for path r v (s0 (profile_place path)) (draws i)"
  assumes "elsewhere pf ch s" and "gone ch (Some (resource_node r)) s \<or>
      (\<exists>l. live pf ch l s \<and> \<not> is_compensating l \<and> (l \<noteq> FilePrepared \<or> s (profile_place path) = Some (resource_node r)))"
  shows "stage_ok pf protocol before after path r v draws s0 Halted True s"
proof -
  have "recovered_file after ch l y = Some (resource_node r)"
    if "\<not> is_compensating l" "l \<noteq> FilePrepared \<or> y = Some (resource_node r)" for l y
    using setting_parts(2,3) [OF S] that by (auto simp: recovered_file_def ch_def Let_def)
  then have "resolving pf after ch (Some (resource_node r)) s"
    using assms(5) resolving_live [of pf ch _ s after "Some (resource_node r)"] resolving_gone
    by (auto simp: ch_def)
  with assms(4) have "passed pf after ch (Some (resource_node r)) {} s" by (simp add: passed_resolving)
  with assms(2) show ?thesis by (auto simp: stage_ok_def ch_def Let_def)
qed

lemma unclaimed_elsewhere: "unclaimed pf (ch_path ch) s \<Longrightarrow> elsewhere pf ch s"
  using named_by_mono [of "all_journals - journal_places (ch_op ch)" all_journals pf s]
  by (auto simp: unclaimed_def elsewhere_def)

lemma own_not_others: "own_places (ch_op ch) \<inter> (all_journals - journal_places (ch_op ch)) = {}"
  using artifacts_not_journals(1) [of "ch_op ch"] by (auto simp: own_places_def)

lemma first_not_compensating [simp]:
  "\<not> is_compensating (first_location protocol)" "\<not> is_compensating (promoted_location (first_location protocol))"
  by (cases protocol; simp add: first_location_def is_compensating_def)+

lemma stage_starting:
  assumes S: "change_setting pf before after path r v draws s0"
  shows "stage_ok pf protocol before after path r v draws s0 Halted False s0"
proof -
  obtain i where i: "i < 16" "fresh (draws i) s0" using S by (auto simp: change_setting_def)
  let ?ch = "change_for path r v (s0 (profile_place path)) (draws i)"
  have "gone ?ch (s0 (target_of ?ch)) s0"
    by (rule gone_fresh) (use i setting_parts(6) [OF S i(1)] in simp_all)
  moreover have "elsewhere pf ?ch s0" using setting_parts(4) [OF S] by (intro unclaimed_elsewhere) simp
  ultimately show ?thesis using i by (intro halted_uncommitted [OF S]) auto
qed

lemma stage_prepare:
  assumes S: "change_setting pf before after path r v draws s0" and fs: "crashes_only fs"
    and d: "content_of d = s0" and run: "prepare_by protocol pf draws path r v (with_faults fs d) = (out, d')"
  shows "stage_ok pf protocol before after path r v draws s0 (case out of Returned p \<Rightarrow> Prepared p | _ \<Rightarrow> Halted) False
    (content_of d')"
proof -
  let ?l = "first_location protocol" and ?q = "profile_place path"
  let ?ch = "\<lambda>op. change_for path r v (s0 ?q) op"
  have m: "prepare_by protocol pf draws path r v = prepare_materialization pf draws path r v ?l"
    by (cases protocol) (auto simp: prepare_by_def first_location_def prepare_state_first_def prepare_file_first_def)
  have ok0: "change_ok pf (?ch (draws 0))" using setting_parts(5) [OF S, of 0] by simp
  have "runs Crashy (prepare_materialization pf draws path r v ?l)
    (\<lambda>p t. \<exists>op \<in> draws ` {..<16}. p = PreparedMaterialization op \<and> fresh op s0 \<and> live pf (?ch op) ?l t \<and>
       t ?q = s0 ?q \<and> same_outside (own_places op) s0 t)
    (\<lambda>t. t = s0) (\<lambda>t. t = s0 \<or> (\<exists>op \<in> draws ` {..<16}. fresh op s0 \<and> prepared_states pf (?ch op) ?l s0 t)) s0"
    by (rule prepare_crashy)
      (use change_ok_parts(2,4) [OF ok0] setting_parts(5,6) [OF S] in auto)
  then have r: "runs Crashy (prepare_by protocol pf draws path r v)
    (\<lambda>p t. \<exists>op \<in> draws ` {..<16}. p = PreparedMaterialization op \<and> fresh op s0 \<and> live pf (?ch op) ?l t \<and>
       t ?q = s0 ?q \<and> same_outside (own_places op) s0 t)
    (\<lambda>t. t = s0) (\<lambda>t. t = s0 \<or> (\<exists>op \<in> draws ` {..<16}. fresh op s0 \<and> prepared_states pf (?ch op) ?l s0 t)) (content_of d)"
    unfolding m d .
  have else: "elsewhere pf (?ch (draws i)) t" if "same_outside (own_places (draws i)) s0 t" for i t
    using elsewhere_own [OF unclaimed_elsewhere [of pf "?ch (draws i)" s0] _ own_not_others [of "?ch (draws i)"], of t]
      that setting_parts(4) [OF S] by simp
  note step = runs_stepD [OF r fs [unfolded crashes_only_def] run]
  show ?thesis
  proof (cases out)
    case (Returned p)
    then show ?thesis using step else by (auto simp: stage_ok_def Let_def)
  next
    case (Errored e)
    then show ?thesis using step stage_starting [OF S] by simp
  next
    case Crashed
    then consider "content_of d' = s0" | i where "i < 16" "prepared_states pf (?ch (draws i)) ?l s0 (content_of d')"
      using step by auto
    then show ?thesis
    proof cases
      case 1
      then show ?thesis using Crashed stage_starting [OF S] by simp
    next
      case 2
      then show ?thesis
        using Crashed else [of i "content_of d'"]
        by (auto simp: prepared_states_def intro!: halted_uncommitted [OF S 2(1)])
    qed
  qed
qed

lemma stage_stop:
  assumes S: "change_setting pf before after path r v draws s0"
    and st: "stage_ok pf protocol before after path r v draws s0 st committed s"
  shows "stage_ok pf protocol before after path r v draws s0 Halted committed s"
proof (cases st)
  case Starting
  then show ?thesis using st stage_starting [OF S] by (simp add: stage_ok_def Let_def)
next
  case (Prepared p)
  then obtain i where i: "i < 16" "elsewhere pf (change_for path r v (s0 (profile_place path)) (draws i)) s"
    "live pf (change_for path r v (s0 (profile_place path)) (draws i)) (first_location protocol) s"
    "committed \<longrightarrow> protocol = StateFirst"
    using st by (auto simp: stage_ok_def Let_def)
  show ?thesis
  proof (cases committed)
    case True
    have "first_location protocol \<noteq> FilePrepared" using i(4) True by (simp add: first_location_def)
    then show ?thesis
      using True i first_not_compensating(1) by (auto intro!: halted_committed [OF S i(1)])
  next
    case False
    then show ?thesis using i by (auto intro!: halted_uncommitted [OF S i(1)])
  qed
next
  case (Promoted p)
  then obtain i where i: "i < 16" "elsewhere pf (change_for path r v (s0 (profile_place path)) (draws i)) s"
    "live pf (change_for path r v (s0 (profile_place path)) (draws i)) (promoted_location (first_location protocol)) s"
    "s (profile_place path) = Some (resource_node r)"
    using st by (auto simp: stage_ok_def Let_def)
  show ?thesis
  proof (cases committed)
    case True
    have "stage_ok pf protocol before after path r v draws s0 Halted True s"
      by (rule halted_committed [OF S i(1,2)]) (use i(3,4) first_not_compensating(2) in blast)
    with True show ?thesis by simp
  next
    case False
    have "stage_ok pf protocol before after path r v draws s0 Halted False s"
      by (rule halted_uncommitted [OF S i(1,2)]) (use i(3) in blast)
    with False show ?thesis by simp
  qed
next
  case Halted
  then show ?thesis using st by simp
qed

lemma stage_promote:
  assumes S: "change_setting pf before after path r v draws s0"
    and st: "stage_ok pf protocol before after path r v draws s0 (Prepared p) committed (content_of d)"
    and c: "committed = (protocol = StateFirst)"
    and run: "promote pf p (with_faults fs d) = (out, d')"
  shows "stage_ok pf protocol before after path r v draws s0 (stage_after (Promoted p) out) committed (content_of d')"
proof -
  let ?l = "first_location protocol" and ?q = "profile_place path"
  from st obtain i where i: "i < 16" "p = PreparedMaterialization (draws i)"
    "elsewhere pf (change_for path r v (s0 ?q) (draws i)) (content_of d)"
    "live pf (change_for path r v (s0 ?q) (draws i)) ?l (content_of d)"
    by (auto simp: stage_ok_def Let_def)
  define ch where "ch = change_for path r v (s0 ?q) (draws i)"
  have op: "ch_op ch = draws i" "ch_path ch = path" "ch_new ch = resource_node r" by (simp_all add: ch_def)
  have p: "p = PreparedMaterialization (ch_op ch)" using i(2) op by simp
  have ok: "change_ok pf ch" using setting_parts(5) [OF S i(1)] by (simp add: ch_def)
  have h: "handled Stormy pf (ch_op ch) (reach pf (ch_op ch) (content_of d)) (promote pf p) (content_of d)"
    unfolding p by (rule handled_promote) simp_all
  have "acts Stormy (promote pf p) (\<lambda>_ t. live pf ch (promoted_location ?l) t \<and> t (target_of ch) = Some (ch_new ch))
      (promoting_states pf ch ?l (content_of d)) (content_of d)"
    unfolding p by (rule promote_live [OF ok]) (use i(4) in \<open>simp_all add: ch_def\<close>)
  note step = runs_stepD [OF own_step [OF this _ h] _ run]
  have stopped: "stage_ok pf protocol before after path r v draws s0 Halted committed t"
    if t: "promoting_states pf ch ?l (content_of d) t \<and> elsewhere pf ch t" for t
  proof -
    obtain l' where l': "live pf ch l' t" "\<not> is_compensating l'" "family l' = family ?l"
      using t by (auto simp: promoting_states_def)
    show ?thesis
    proof (cases committed)
      case True
      then have "l' \<noteq> FilePrepared" using c l'(3) by (auto simp: first_location_def)
      then have "stage_ok pf protocol before after path r v draws s0 Halted True t"
        by (intro halted_committed [OF S i(1)]) (use t l' in \<open>auto simp: ch_def\<close>)
      with True show ?thesis by simp
    next
      case False
      have "stage_ok pf protocol before after path r v draws s0 Halted False t"
        by (intro halted_uncommitted [OF S i(1)]) (use t l' in \<open>auto simp: ch_def\<close>)
      with False show ?thesis by simp
    qed
  qed
  have "elsewhere pf ch (content_of d)" using i(3) by (simp add: ch_def)
  moreover have "protocol = FileFirst \<or> protocol = StateFirst" by (cases protocol) simp_all
  ultimately show ?thesis
    using step stopped i(1,2) c by (auto simp: stage_after_def stage_ok_def Let_def ch_def split: outcome.splits)
qed

lemma stage_complete:
  assumes S: "change_setting pf before after path r v draws s0"
    and st: "stage_ok pf protocol before after path r v draws s0 (Promoted p) True (content_of d)"
    and run: "complete pf p (with_faults fs d) = (out, d')"
  shows "stage_ok pf protocol before after path r v draws s0 Halted True (content_of d')"
proof -
  let ?l = "promoted_location (first_location protocol)" and ?q = "profile_place path"
  from st obtain i where i: "i < 16" "p = PreparedMaterialization (draws i)"
    "elsewhere pf (change_for path r v (s0 ?q) (draws i)) (content_of d)"
    "live pf (change_for path r v (s0 ?q) (draws i)) ?l (content_of d)"
    "content_of d ?q = Some (resource_node r)"
    by (auto simp: stage_ok_def Let_def)
  define ch where "ch = change_for path r v (s0 ?q) (draws i)"
  have p: "p = PreparedMaterialization (ch_op ch)" using i(2) by (simp add: ch_def)
  have ok: "change_ok pf ch" using setting_parts(5) [OF S i(1)] by (simp add: ch_def)
  have h: "handled Stormy pf (ch_op ch) (reach pf (ch_op ch) (content_of d)) (complete pf p) (content_of d)"
    unfolding p by (rule handled_complete) simp_all
  have l: "?l \<in> {StatePromoting, FilePromoting, FilePromoted}" by (cases protocol) (simp_all add: first_location_def)
  have "acts Stormy (complete pf p) (\<lambda>_. ended ch (Some (ch_new ch))) (completing_states pf ch ?l) (content_of d)"
    unfolding p by (rule complete_live [OF ok _ l]) (use i(4,5) in \<open>simp_all add: ch_def\<close>)
  note step = runs_stepD [OF own_step [OF this _ h] _ run]
  have stopped: "stage_ok pf protocol before after path r v draws s0 Halted True t"
    if t: "completing_states pf ch ?l t \<and> elsewhere pf ch t" for t
    by (rule halted_committed [OF S i(1)]) (use t in \<open>auto simp: ch_def completing_states_def\<close>)
  have fin: "stage_ok pf protocol before after path r v draws s0 Halted True t"
    if t: "ended ch (Some (ch_new ch)) t \<and> elsewhere pf ch t" for t
    by (rule halted_committed [OF S i(1)]) (use t in \<open>auto simp: ch_def\<close>)
  have "elsewhere pf ch (content_of d)" using i(3) by (simp add: ch_def)
  from step [OF this] show ?thesis using stopped fin by (auto split: outcome.splits)
qed

lemma stage_compensate:
  assumes S: "change_setting pf before after path r v draws s0"
    and st: "stage_ok pf protocol before after path r v draws s0 st False (content_of d)"
    and p: "st = Prepared p \<or> st = Promoted p"
    and run: "compensate pf p (with_faults fs d) = (out, d')"
  shows "stage_ok pf protocol before after path r v draws s0 Halted False (content_of d')"
proof -
  let ?q = "profile_place path"
  from st p obtain i l where i: "i < 16" "p = PreparedMaterialization (draws i)"
    "elsewhere pf (change_for path r v (s0 ?q) (draws i)) (content_of d)"
    "live pf (change_for path r v (s0 ?q) (draws i)) l (content_of d)"
    by (auto simp: stage_ok_def Let_def)
  define ch where "ch = change_for path r v (s0 ?q) (draws i)"
  have p: "p = PreparedMaterialization (ch_op ch)" using i(2) by (simp add: ch_def)
  have ok: "change_ok pf ch" using setting_parts(5) [OF S i(1)] by (simp add: ch_def)
  have h: "handled Stormy pf (ch_op ch) (reach pf (ch_op ch) (content_of d)) (compensate pf p) (content_of d)"
    unfolding p by (rule handled_compensate) simp_all
  have "acts Stormy (compensate pf p) (\<lambda>_. ended ch (ch_old ch)) (compensating_states pf ch l (content_of d)) (content_of d)"
    unfolding p by (rule compensate_live [OF ok]) (use i(4) in \<open>simp add: ch_def\<close>)
  note step = runs_stepD [OF own_step [OF this _ h] _ run]
  have stopped: "stage_ok pf protocol before after path r v draws s0 Halted False t"
    if t: "compensating_states pf ch l (content_of d) t \<and> elsewhere pf ch t" for t
    by (rule halted_uncommitted [OF S i(1)]) (use t in \<open>auto simp: ch_def compensating_states_def\<close>)
  have fin: "stage_ok pf protocol before after path r v draws s0 Halted False t"
    if t: "ended ch (ch_old ch) t \<and> elsewhere pf ch t" for t
    by (rule halted_uncommitted [OF S i(1)]) (use t in \<open>auto simp: ch_def\<close>)
  have "elsewhere pf ch (content_of d)" using i(3) by (simp add: ch_def)
  from step [OF this] show ?thesis using stopped fin by (auto split: outcome.splits)
qed

lemma stage_recover:
  assumes S: "change_setting pf before after path r v draws s0" and fs: "list_all (may_meet w) fs" "w \<noteq> Stormy"
    and st: "stage_ok pf protocol before after path r v draws s0 Halted committed (content_of d)"
    and run: "reconcile pf (if committed then after else before) (with_faults fs d) = (out, d')"
  defines "x \<equiv> (if committed then Some (resource_node r) else s0 (profile_place path))"
  shows "stage_ok pf protocol before after path r v draws s0 Halted committed (content_of d')"
    and "out = Returned report \<Longrightarrow> unclaimed pf path (content_of d') \<and> content_of d' (profile_place path) = x"
    and "out = Errored e \<Longrightarrow> False"
proof -
  let ?doc = "if committed then after else before"
  from st obtain i where i: "i < 16"
    "passed pf ?doc (change_for path r v (s0 (profile_place path)) (draws i)) x {} (content_of d)"
    by (auto simp: stage_ok_def Let_def x_def)
  define ch where "ch = change_for path r v (s0 (profile_place path)) (draws i)"
  have ok: "change_ok pf ch" using setting_parts(5) [OF S i(1)] by (simp add: ch_def)
  note step = runs_stepD [OF reconcile_settles [OF ok fs(2) i(2) [folded ch_def]] fs(1) run]
  have "passed pf ?doc ch x {} (content_of d')"
    using step by (auto split: outcome.splits intro: passed_mono)
  then show "stage_ok pf protocol before after path r v draws s0 Halted committed (content_of d')"
    using i(1) by (auto simp: stage_ok_def Let_def x_def ch_def)
  show "out = Errored e \<Longrightarrow> False" using step by simp
  show "unclaimed pf path (content_of d') \<and> content_of d' (profile_place path) = x" if "out = Returned report"
  proof -
    have g: "elsewhere pf ch (content_of d')" "gone ch x (content_of d')"
      using step that by (auto simp: passed_def)
    have "unclaimed pf path (content_of d')"
    proof (rule ccontr)
      assume "\<not> unclaimed pf path (content_of d')"
      then have "profile_place path \<in> named_by pf all_journals (content_of d')" by (simp add: unclaimed_def)
      then obtain j q c where q: "profile_place path = profile_place (mj_managed_path j)" "q \<in> all_journals"
        "content_of d' q = Some (Regular c)" "fp_from_yaml pf c = Some j"
        unfolding named_by_def by blast
      have "q \<notin> journal_places (ch_op ch)" using g(2) q(3) by (auto simp: gone_def journal_places_def)
      then have "profile_place path \<in> named_by pf (all_journals - journal_places (ch_op ch)) (content_of d')"
        unfolding q(1) by (intro named_byI [of q]) (use q in auto)
      then show False using g(1) by (simp add: elsewhere_def ch_def)
    qed
    then show ?thesis using g(2) by (simp add: gone_def ch_def)
  qed
qed

lemma history_stage:
  assumes S: "change_setting pf before after path r v draws (content_of d0)"
    and "history pf protocol before after path r v draws d0 st committed d"
  shows "stage_ok pf protocol before after path r v draws (content_of d0) st committed (content_of d)"
  using assms(2)
proof (induction rule: history.induct)
  case start
  then show ?case by (simp add: stage_ok_def Let_def)
next
  case (prepare d fs out d')
  have "content_of d = content_of d0" using prepare.IH by (simp add: stage_ok_def Let_def)
  then show ?case by (rule stage_prepare [OF S prepare.hyps(2) _ prepare.hyps(3)])
next
  case (commit_state p d)
  then show ?case by (auto simp: stage_ok_def Let_def)
next
  case (promote p committed d fs out d')
  then show ?case by (intro stage_promote [OF S])
next
  case (commit_file p d)
  then show ?case by (auto simp: stage_ok_def Let_def)
next
  case (complete p d fs out d')
  then show ?case by (intro stage_complete [OF S])
next
  case (compensate st d p fs out d')
  then show ?case by (intro stage_compensate [OF S])
next
  case (stop st committed d)
  then show ?case by (intro stage_stop [OF S])
next
  case (recover committed d fs out d')
  show ?case
    by (rule stage_recover(1) [OF S recover.hyps(2) [unfolded crashes_only_def] _ recover.IH recover.hyps(3)]) simp
qed

end
