(* ===== verification/Profile_Claims.thy ===== *)
theory Profile_Claims
  imports Profile_Crash
begin

text \<open>
  What the profile file service promises: however a change of a managed profile is interrupted, the next
  reconcile ends it on the side of the document; runs without faults do not stop halfway; a file removal is
  fenced. The demonstrations run the definitions on a small platform.
\<close>

section \<open>Runs without faults\<close>

definition quiet :: "'a io \<Rightarrow> bool" where
  "quiet m = (\<forall>d. dk_faults d = [] \<longrightarrow> fst (m d) \<noteq> Crashed \<and> dk_faults (snd (m d)) = [])"

named_theorems quieting \<open>actions that end by themselves\<close>

lemma quietD: "quiet m \<Longrightarrow> dk_faults d = [] \<Longrightarrow> fst (m d) \<noteq> Crashed \<and> dk_faults (snd (m d)) = []"
  by (simp add: quiet_def)

lemma quiet_return [quieting]: "quiet (io_return x)" "quiet (io_bail e)"
  by (simp_all add: quiet_def io_return_def io_bail_def)

lemma quiet_bind [quieting]:
  assumes "quiet m" and "\<And>x. quiet (k x)"
  shows "quiet (io_bind m k)"
  unfolding quiet_def
proof (intro allI impI)
  fix d :: Disk
  assume d: "dk_faults d = []"
  note m = quietD [OF assms(1) d]
  obtain r d' where e: "m d = (r, d')" by (cases "m d")
  show "fst (io_bind m k d) \<noteq> Crashed \<and> dk_faults (snd (io_bind m k d)) = []"
    using m e quietD [OF assms(2), of d'] by (cases r) (auto simp: io_bind_def)
qed

lemma quiet_attempt [quieting]: "quiet m \<Longrightarrow> quiet (io_attempt m)"
  unfolding quiet_def io_attempt_def by (auto split: prod.splits outcome.splits)

lemma quiet_when [quieting]: "quiet m \<Longrightarrow> quiet (io_when b m)"
  by (simp add: io_when_def quieting)

lemma quiet_yield [quieting]: "quiet m \<Longrightarrow> quiet (io_yield m x)"
  unfolding io_yield_def by (intro quieting)

lemma quiet_for [quieting]: "(\<And>x t. quiet (f x t)) \<Longrightarrow> quiet (io_for f xs t)"
  by (induction xs arbitrary: t) (auto intro: quieting)

lemma quiet_each [quieting]: "(\<And>x. quiet (f x)) \<Longrightarrow> quiet (io_each f xs)"
  by (induction xs) (auto intro: quieting)

lemma quiet_if [quieting]: "quiet m \<Longrightarrow> quiet n \<Longrightarrow> quiet (if b then m else n)"
  by simp

lemma quiet_any [quieting]: "(\<And>x. quiet (f x)) \<Longrightarrow> quiet (io_any f xs)"
  by (induction xs) (auto intro!: quieting)

lemma quiet_option [quieting]: "quiet m \<Longrightarrow> (\<And>y. quiet (n y)) \<Longrightarrow> quiet (case x of None \<Rightarrow> m | Some y \<Rightarrow> n y)"
  by (cases x) simp_all

lemma quiet_call:
  "(\<And>d. fst (act All_done d) \<noteq> Crashed \<and> dk_faults (snd (act All_done d)) = dk_faults d) \<Longrightarrow> quiet (call msg act)"
  by (simp add: quiet_def call_def)

lemma quiet_calls [quieting]:
  "quiet (probe msg)" "quiet sync_directory" "quiet set_private_file_permissions" "quiet (symlink_metadata msg q)"
  "quiet (read_link msg q)" "quiet (read_bytes msg q)" "quiet (open_new msg q)" "quiet (write_all msg q c)"
  "quiet (atomic_write_new msg q c)" "quiet (atomic_write_over msg q c)" "quiet (remove_file msg q)"
  "quiet (replace_atomic msg q q')" "quiet (create_file_symlink msg t q)" "quiet (read_dir msg dir)"
  unfolding probe_def sync_directory_def set_private_file_permissions_def symlink_metadata_def read_link_def
    read_bytes_def open_new_def write_all_def atomic_write_new_def atomic_write_over_def remove_file_def
    replace_atomic_def create_file_symlink_def read_dir_def
  by (auto intro!: quiet_call simp: io_return_def split: option.splits node.splits if_splits)

lemma quiet_private [quieting]:
  "quiet (remove_private_regular q)" "quiet (remove_nofollow q)" "quiet (read_to_string msg q)"
  "quiet (write_private_file_new q c)" "quiet (resolve p)" "quiet ensure_managed_parent"
  "quiet ensure_materialization_layout" "quiet (ensure_replaceable_target q)" "quiet (metadata_is_ok q)"
  unfolding remove_private_regular_def remove_nofollow_def read_to_string_def write_private_file_new_def
    resolve_def ensure_managed_parent_def ensure_materialization_layout_def ensure_replaceable_target_def
    metadata_is_ok_def
  by (auto intro!: quieting split: option.splits node.splits)

lemma quiet_journals [quieting]:
  "quiet (read_journal pf q op)" "quiet (rename_journal_same_filesystem q q')"
  "quiet (find_journal pf op l found)" "quiet (converge_materialization_journals found)"
  "quiet (find_cleanup pf op ph)"
proof -
  show r: "quiet (read_journal pf q op)" for q
    unfolding read_journal_def by (auto intro!: quieting split: option.splits)
  show "quiet (rename_journal_same_filesystem q q')"
    unfolding rename_journal_same_filesystem_def by (auto intro!: quieting)
  show "quiet (find_journal pf op l found)"
    unfolding find_journal_def by (auto intro!: quieting r split: option.splits)
  show "quiet (converge_materialization_journals found)"
    unfolding converge_materialization_journals_def Let_def
    by (auto intro!: quieting split: list.splits prod.splits)
  show "quiet (find_cleanup pf op ph)"
    unfolding find_cleanup_def by (auto intro!: quieting r split: option.splits)
qed

lemma quiet_moves [quieting]:
  "quiet (locate_materialization pf op)" "quiet (locate_cleanup pf op)"
  "quiet (transition_journal pf op l l')" "quiet (transition_cleanup_journal pf op ph ph')"
  "quiet (remove_private_artifacts op)" "quiet (remove_operation_artifacts op q)"
  "quiet (discard_materialization op l)" "quiet (remove_cleanup_journal op)"
  unfolding locate_materialization_def locate_cleanup_def transition_journal_def transition_cleanup_journal_def
    transition_private_journal_def remove_private_artifacts_def remove_operation_artifacts_def
    discard_materialization_def remove_cleanup_journal_def
  by (auto intro!: quieting split: option.splits)

lemma quiet_resources [quieting]:
  "quiet (path_hash pf q)" "quiet (external_path t)" "quiet (read_staged_resource pf op h)"
  "quiet (read_backup_resource op)" "quiet (create_ready_link op link)"
proof -
  show e: "quiet (external_path t)" for t
    unfolding external_path_def by (auto intro!: quieting split: sum.splits)
  show "quiet (path_hash pf q)" unfolding path_hash_def by (auto intro!: quieting split: option.splits node.splits)
  show "quiet (read_staged_resource pf op h)"
    unfolding read_staged_resource_def by (auto intro!: quieting e split: option.splits)
  show "quiet (read_backup_resource op)"
    unfolding read_backup_resource_def by (auto intro!: quieting e split: option.splits)
  show "quiet (create_ready_link op link)"
    unfolding create_ready_link_def by (auto intro!: quieting split: option.splits node.splits)
qed

lemma quiet_restoring [quieting]:
  "quiet (backup_hash pf op)" "quiet (target_is_pre_promote pf op q)" "quiet (promote_resource pf op q h)"
  "quiet (restore_backup pf op q h)"
proof -
  show b: "quiet (backup_hash pf op)"
    unfolding backup_hash_def by (auto intro!: quieting split: option.splits StoredResource.splits)
  show "quiet (target_is_pre_promote pf op q)" unfolding target_is_pre_promote_def by (intro quieting b)
  show "quiet (promote_resource pf op q h)"
    unfolding promote_resource_def by (auto intro!: quieting split: option.splits StoredResource.splits)
  show "quiet (restore_backup pf op q h)"
    unfolding restore_backup_def by (auto intro!: quieting b split: option.splits StoredResource.splits)
qed

lemma quiet_port [quieting]:
  "quiet (promote pf p)" "quiet (complete pf p)" "quiet (compensate pf p)" "quiet (activate_cleanup pf c)"
  "quiet (cancel_cleanup pf c)" "quiet (remove_cleanup_target q)"
  unfolding promote_def complete_def compensate_def activate_cleanup_def cancel_cleanup_def Let_def
    remove_cleanup_target_def
  by (auto intro!: quieting split: option.splits CleanupPhase.splits)

lemma quiet_recovery [quieting]:
  "quiet (recover_superseded pf op l q a m)" "quiet (recover_current pf op l m)"
  "quiet (retry_cleanup pf c profiles)"
  unfolding recover_superseded_def recover_current_def retry_cleanup_def Let_def
  by (auto intro!: quieting split: option.splits)

lemma quiet_listing [quieting]: "quiet (list_operation_ids dir)" "quiet sweep_unreferenced_artifacts"
  unfolding list_operation_ids_def list_entry_def sweep_unreferenced_artifacts_def sweep_entry_def
    has_materialization_journal_def Let_def
  by (auto intro!: quieting split: sum.splits option.splits prod.splits)

lemma quiet_reconciling [quieting]:
  "quiet (recover_operation pf profiles l op)" "quiet (reconcile_operation pf profiles l op r)"
  "quiet (reconcile_location pf profiles l r)" "quiet (settle_pending pf profiles op r)"
  "quiet (settle_ready pf profiles op r)"
proof -
  show o: "quiet (recover_operation pf profiles l op)" for l op
    unfolding recover_operation_def Let_def by (auto intro!: quieting split: option.splits)
  show p: "quiet (reconcile_operation pf profiles l op r)" for l op r
    unfolding reconcile_operation_def by (intro quieting o)
  show "quiet (reconcile_location pf profiles l r)"
    unfolding reconcile_location_def by (auto intro!: quieting p split: sum.splits)
  show "quiet (settle_pending pf profiles op r)"
    unfolding settle_pending_def by (auto intro!: quieting split: option.splits)
  show "quiet (settle_ready pf profiles op r)" unfolding settle_ready_def by (intro quieting)
qed


section \<open>A change is never left halfway\<close>


text \<open>A platform to run the service on: the hash spells out its input in hexadecimal, padded to 64 digits, and
  a journal is its fields one after another.\<close>

definition demo_digit :: "nat \<Rightarrow> char" where
  "demo_digit n = (''0123456789abcdef'' ! n)"

definition demo_hash :: "string \<Rightarrow> string" where
  "demo_hash s =
     take 64 (concat (map (\<lambda>c. [demo_digit (of_char c div 16), demo_digit (of_char c mod 16)]) s) @ replicate 64 CHR ''a'')"

definition demo_journal_text :: "MaterializationJournal \<Rightarrow> string option" where
  "demo_journal_text j =
     (if unat (mj_revision j) < 128
      then Some (mj_operation_id j @ mj_hash j @ [char_of (unat (mj_revision j))] @ managed_str (mj_managed_path j))
      else None)"

definition demo_journal_of :: "string \<Rightarrow> MaterializationJournal option" where
  "demo_journal_of s =
     (if length s < 81 then None
      else Some \<lparr>mj_managed_path = ManagedProfilePath (drop 81 s), mj_operation_id = take 16 s,
                 mj_revision = of_nat (of_char (s ! 80)), mj_hash = take 64 (drop 16 s)\<rparr>)"

definition demo_platform :: FilePlatform where
  "demo_platform = \<lparr>fp_sha256_hex = demo_hash, fp_to_yaml = demo_journal_text, fp_from_yaml = demo_journal_of,
     fp_external = (\<lambda>_. None)\<rparr>"

definition demo_path :: ManagedProfilePath where
  "demo_path = ManagedProfilePath ''a.yaml''"

definition demo_op :: string where
  "demo_op = ''aaaaaaaaaaaaaaaa''"

definition demo_after :: Profiles where
  "demo_after = profiles_default\<lparr>pr_revision := 1, pr_items :=
     [(''a'', demo_item ''a'' (Config (File \<lparr>fc_source = Local (Managed (demo_file ''a.yaml'')), fc_transforms = []\<rparr>)))]\<rparr>"

definition demo_old :: Disk where
  "demo_old = \<lparr>dk_nodes = [(profile_place demo_path, Regular ''old'')], dk_faults = []\<rparr>"

definition demo_prepared :: Disk where
  "demo_prepared =
     snd (prepare_by StateFirst demo_platform (\<lambda>_. demo_op) demo_path (FileResource ''new'') 1 (with_faults [] demo_old))"

text \<open>What preparing leaves on the disk, with the journal in one of its states.\<close>

definition demo_disk :: "JournalLocation \<Rightarrow> Disk" where
  "demo_disk l = \<lparr>dk_nodes =
     [(profile_place demo_path, Regular ''old''), (stage_file_path demo_op, Regular ''new''),
      (backup_file_path demo_op, Regular ''old''),
      (journal_path l demo_op,
       Regular (demo_op @ ''66696c65006e6577'' @ replicate 48 CHR ''a'' @ CHR 0x01 # ''a.yaml''))],
     dk_faults = []\<rparr>"

lemma demo_prepared_disk [code]: "demo_prepared = demo_disk StatePrepared"
  unfolding demo_prepared_def by code_simp

text \<open>Promoting the prepared change, up to the call that would replace the file.\<close>

definition demo_torn :: Disk where
  "demo_torn =
     snd (promote demo_platform (PreparedMaterialization demo_op)
       (with_faults (replicate 27 Goes @ [Dies Nothing_done]) demo_prepared))"

lemma demo_torn_disk [code]: "demo_torn = demo_disk StatePromoting"
  unfolding demo_torn_def by code_simp




section \<open>Where failing calls do harm\<close>

text \<open>Sweeping asks for the journals of an operation with \<^verbatim>\<open>symlink_metadata(..).is_ok()\<close>, so a failing call
  counts as a missing journal: the staged file and the backup of a live operation are removed, and the
  reconcile that goes on cannot apply the committed change any more.\<close>

lemma sweep_fails_open:
  "map fst (dk_nodes (snd (reconcile demo_platform demo_after
     (with_faults [Goes, Goes, Goes, Fails Nothing_done] demo_prepared)))) =
     [profile_place demo_path, journal_path StatePromoting demo_op]"
  by code_simp

text \<open>When syncing the directory of the new journal fails, preparing removes what it staged and backed up, but
  not the journal. If the new content is the one the file had, the next reconcile takes the file for the
  promoted one and the missing backup for a missing original: it removes the file.\<close>

definition demo_failed :: Disk where
  "demo_failed =
     snd (prepare_by StateFirst demo_platform (\<lambda>_. demo_op) demo_path (FileResource ''old'') 1
       (with_faults (replicate 32 Goes @ [Fails Nothing_done]) demo_old))"

lemma failed_prepare_loses_file:
  "map fst (dk_nodes demo_failed) = [profile_place demo_path, journal_path StatePrepared demo_op]"
  "dk_nodes (snd (reconcile demo_platform profiles_default (with_faults [] demo_failed))) = []"
  by code_simp+

section \<open>What a reconcile leaves alone\<close>

definition spared :: "FilePlatform \<Rightarrow> place \<Rightarrow> node option \<Rightarrow> (place \<Rightarrow> node option) \<Rightarrow> bool" where
  "spared pf q x s \<longleftrightarrow> s q = x \<and> q \<notin> named_by pf all_journals s"

lemma spared_within:
  assumes V: "spared pf (profile_place p) x s" and w: "within pf J A s t"
    and J: "J \<subseteq> all_journals" and A: "A \<subseteq> B \<union> J \<union> named_by pf J s"
    and B: "B \<inter> all_journals = {}" "profile_place p \<notin> B"
  shows "spared pf (profile_place p) x t"
proof -
  have profile: "q \<notin> all_journals" if "q \<in> named_by pf J s" for q
    using that named_profile [of q pf J s] artifacts_not_journals(2) by auto
  have "profile_place p \<notin> A"
    using V A B(2) J artifacts_not_journals(2) [of p] named_by_mono [OF J, of pf s] by (auto simp: spared_def)
  then have "t (profile_place p) = x" using V w by (simp add: spared_def within_def same_outside_def)
  moreover have "named_by pf all_journals t \<subseteq> named_by pf all_journals s"
  proof
    fix q
    assume "q \<in> named_by pf all_journals t"
    then obtain j r c where r: "q = profile_place (mj_managed_path j)" "r \<in> all_journals"
      "t r = Some (Regular c)" "fp_from_yaml pf c = Some j"
      unfolding named_by_def by blast
    show "q \<in> named_by pf all_journals s"
    proof (cases "r \<in> J")
      case True
      then have "q \<in> named_by pf J t" using r by (auto simp: named_by_def)
      then show ?thesis using w named_by_mono [OF J, of pf s] by (auto simp: within_def)
    next
      case False
      then have "r \<notin> A" using A B(1) r(2) profile by blast
      then have "s r = t r" using w by (simp add: within_def same_outside_def)
      then show ?thesis unfolding r(1) by (intro named_byI [of r]) (use r in simp_all)
    qed
  qed
  ultimately show ?thesis using V by (auto simp: spared_def)
qed

definition spares :: "FilePlatform \<Rightarrow> ManagedProfilePath \<Rightarrow> 'a io \<Rightarrow> bool" where
  "spares pf p m = (\<forall>x s. spared pf (profile_place p) x s \<longrightarrow>
     runs Stormy m (\<lambda>_. spared pf (profile_place p) x) (spared pf (profile_place p) x) (spared pf (profile_place p) x) s)"

named_theorems sparing \<open>actions that leave files alone no journal names\<close>

lemma spares_stays:
  assumes "\<And>s. stays Stormy pf J (A s) m s" and "J \<subseteq> all_journals" "\<And>s. A s \<subseteq> B \<union> J \<union> named_by pf J s"
    and "B \<inter> all_journals = {}" "profile_place p \<notin> B"
  shows "spares pf p m"
  unfolding spares_def
proof (intro allI impI)
  fix x s
  assume V: "spared pf (profile_place p) x s"
  show "runs Stormy m (\<lambda>_. spared pf (profile_place p) x) (spared pf (profile_place p) x) (spared pf (profile_place p) x) s"
    using assms(1) [of s] unfolding stays_def
    by (rule runs_mono) (rule spared_within [OF V _ assms(2-5)], assumption)+
qed

lemma spares_only:
  assumes "only Stormy B m" and "B \<inter> all_journals = {}" and "profile_place p \<notin> B"
  shows "spares pf p m"
  by (rule spares_stays [OF stays_only [OF assms(1), where J = "{}" and A = B], where B = B]) (use assms in auto)

lemma spares_reading: "only Stormy {} m \<Longrightarrow> spares pf p m"
  by (rule spares_only) auto

lemma spares_return [sparing]: "spares pf p (io_return x)" "spares pf p (io_bail e)"
  by (rule spares_reading, rule keeping)+

lemma spares_bind [sparing]:
  assumes "spares pf p m" and "\<And>x. spares pf p (k x)"
  shows "spares pf p (io_bind m k)"
  using assms unfolding spares_def by (blast intro: runs_bind runs_mono)

lemma spares_attempt [sparing]: "spares pf p m \<Longrightarrow> spares pf p (io_attempt m)"
  unfolding spares_def by (blast intro: runs_attempt runs_mono)

lemma spares_for [sparing]: "(\<And>x t. x \<in> set xs \<Longrightarrow> spares pf p (f x t)) \<Longrightarrow> spares pf p (io_for f xs t)"
  by (induction xs arbitrary: t) (auto intro: sparing)

lemma spares_if [sparing]: "(b \<Longrightarrow> spares pf p m) \<Longrightarrow> (\<not> b \<Longrightarrow> spares pf p n) \<Longrightarrow> spares pf p (if b then m else n)"
  by simp

lemma spares_cleanup:
  "(\<And>s. stays Stormy pf (cleanup_places op) (cleanup_places op \<union> named_by pf (cleanup_places op) s) m s) \<Longrightarrow> spares pf p m"
  by (rule spares_stays [where J = "cleanup_places op" and B = "{}"]) (use journals_subset(2) [of op] in auto)

lemma spares_recover [sparing]: "spares pf p (recover_operation pf profiles l op)"
proof (rule spares_stays [where J = "journal_places op" and B = "artifact_places op" and A = "reach pf op"])
  show "handled Stormy pf op (reach pf op s) (recover_operation pf profiles l op) s" for s
    by (rule handled_recover) simp_all
  show "reach pf op s \<subseteq> artifact_places op \<union> journal_places op \<union> named_by pf (journal_places op) s" for s
    by (auto simp: reach_def own_places_def)
qed (use journals_subset(1) artifacts_not_journals in \<open>auto simp: artifact_places_def place_defs\<close>)

lemma spares_settle [sparing]:
  "spares pf p (settle_pending pf profiles op report)" "spares pf p (settle_ready pf profiles op report)"
proof -
  let ?A = "\<lambda>s. cleanup_places op \<union> named_by pf (cleanup_places op) s"
  have "stays Stormy pf (cleanup_places op) (?A s) (retry_cleanup pf (PreparedCleanup op) profiles) s" for s
    by (rule stays_retry) simp_all
  then show "spares pf p (settle_ready pf profiles op report)"
    unfolding settle_ready_def by (intro spares_bind spares_attempt spares_cleanup spares_return)
  have "stays Stormy pf (cleanup_places op) (?A s) (io_bind (locate_cleanup pf op) (\<lambda>found.
      case found of
        None \<Rightarrow> io_return ()
      | Some (phase, journal) \<Rightarrow>
          if mj_managed_path journal \<in> set (active_managed_paths profiles)
          then cancel_cleanup pf (PreparedCleanup op) else activate_cleanup pf (PreparedCleanup op))) s" for s
  proof (rule stays_located_cleanup, goal_cases)
    case (4 ph j t)
    then have "stays Stormy pf (cleanup_places op) (?A s) (if mj_managed_path j \<in> set (active_managed_paths profiles)
        then cancel_cleanup pf (PreparedCleanup op) else activate_cleanup pf (PreparedCleanup op)) t"
      by (auto intro!: stays_if stays_cancel stays_activate)
    then show ?case by simp
  qed (auto intro: stays_readings)
  then show "spares pf p (settle_pending pf profiles op report)"
    unfolding settle_pending_def by (intro spares_bind spares_attempt spares_cleanup spares_return)
qed

lemma only_sweep_entry [keeping]: "only w (\<Union>(range artifact_places)) (sweep_entry dir permits name removed)"
proof -
  have "only w (\<Union>(range artifact_places)) (has_materialization_journal op)"
    "only w (\<Union>(range artifact_places)) (remove_private_artifacts op)" for op
    unfolding has_materialization_journal_def metadata_is_ok_def by (auto intro!: keeping)
  then show ?thesis
    unfolding sweep_entry_def Let_def by (auto intro!: keeping split: sum.splits option.splits)
qed

lemma spares_listing [sparing]: "spares pf p (list_operation_ids dir)" "spares pf p sweep_unreferenced_artifacts"
proof -
  show "spares pf p (list_operation_ids dir)"
    unfolding list_operation_ids_def list_entry_def by (intro spares_reading keeping)
  show "spares pf p sweep_unreferenced_artifacts"
  proof (rule spares_only)
    show "only Stormy (\<Union>(range artifact_places)) sweep_unreferenced_artifacts"
      unfolding sweep_unreferenced_artifacts_def by (auto intro!: keeping)
  qed (use artifacts_not_journals(1) in \<open>auto simp: artifact_places_def place_defs\<close>)
qed

lemma spares_layout [sparing]: "spares pf p ensure_materialization_layout"
  by (intro spares_reading keeping)

lemma spares_reconcile: "spares pf p (reconcile pf profiles)"
  unfolding reconcile_def reconcile_location_def reconcile_operation_def reconcile_cleanups_def Let_def
  by (auto intro!: sparing split: sum.splits)

text \<open>C18: A reconcile, whatever calls fail or kill the process in it, never touches a managed file that no
  journal of the private area names: it holds afterwards what it held before.\<close>

theorem reconcile_spares_unclaimed:
  assumes "unclaimed pf path (content_of d)" and "reconcile pf profiles d = (out, d')"
  shows "content_of d' (profile_place path) = content_of d (profile_place path) \<and> unclaimed pf path (content_of d')"
proof -
  let ?V = "spared pf (profile_place path) (content_of d (profile_place path))"
  have "?V (content_of d)" using assms(1) by (simp add: spared_def unclaimed_def)
  then have r: "runs Stormy (reconcile pf profiles) (\<lambda>_. ?V) ?V ?V (content_of d)"
    using spares_reconcile [of pf path profiles] by (simp add: spares_def)
  have "?V (content_of d')"
    using runs_stepD [OF r may_meet_all, of "dk_faults d" out d'] assms(2)
    by (auto simp: with_faults_def split: outcome.splits)
  then show ?thesis by (simp add: spared_def unclaimed_def)
qed

definition demo_other :: ManagedProfilePath where
  "demo_other = ManagedProfilePath ''b.yaml''"

definition demo_shared :: Disk where
  "demo_shared = with_faults (replicate 40 Goes @ [Dies Nothing_done])
     (place_node (profile_place demo_other) (Regular ''other'') demo_torn)"

text \<open>A sufficient check for \<open>unclaimed\<close> that runs over the contents.\<close>

definition names_elsewhere :: "FilePlatform \<Rightarrow> ManagedProfilePath \<Rightarrow> place \<times> node \<Rightarrow> bool" where
  "names_elsewhere pf path =
     (\<lambda>(q, x). case x of
        Regular c \<Rightarrow> (case fp_from_yaml pf c of
                       Some j \<Rightarrow> profile_place (mj_managed_path j) \<noteq> profile_place path | None \<Rightarrow> True)
      | _ \<Rightarrow> True)"

lemma unclaimed_check: "list_all (names_elsewhere pf path) (dk_nodes d) \<Longrightarrow> unclaimed pf path (content_of d)"
  unfolding unclaimed_def named_by_def names_elsewhere_def by (auto simp: list_all_iff dest!: map_of_SomeD)

theorem reconcile_spares_unclaimed_witness:
  "content_of (snd (reconcile demo_platform demo_after demo_shared)) (profile_place demo_other) = Some (Regular ''other'')"
proof -
  have "list_all (names_elsewhere demo_platform demo_other) (dk_nodes demo_shared)"
    "content_of demo_shared (profile_place demo_other) = Some (Regular ''other'')"
    by code_simp+
  with reconcile_spares_unclaimed [OF unclaimed_check [of demo_platform demo_other demo_shared],
      where profiles = demo_after] show ?thesis
    by (metis prod.collapse)
qed

section \<open>The fence of a cleanup\<close>

text \<open>The files a cleanup may remove: named by its journal, not used by the document, and as the journal records
  them.\<close>

definition cleanup_due :: "FilePlatform \<Rightarrow> string \<Rightarrow> Profiles \<Rightarrow> (place \<Rightarrow> node option) \<Rightarrow> place \<Rightarrow> bool" where
  "cleanup_due pf op profiles s q \<longleftrightarrow>
     (\<exists>ph c j. s (cleanup_path ph op) = Some (Regular c) \<and> fp_from_yaml pf c = Some j \<and>
        q = profile_place (mj_managed_path j) \<and> mj_managed_path j \<notin> set (active_managed_paths profiles) \<and>
        node_hash pf (s q) = mj_hash j)"

definition recorded :: "FilePlatform \<Rightarrow> string \<Rightarrow> MaterializationJournal \<Rightarrow> (place \<Rightarrow> node option) \<Rightarrow> bool" where
  "recorded pf op j s \<longleftrightarrow> (\<exists>ph c. s (cleanup_path ph op) = Some (Regular c) \<and> fp_from_yaml pf c = Some j)"

lemma runs_only_then:
  assumes "only w A m" and "\<And>x t. same_outside A s t \<Longrightarrow> runs w (k x) T E C t"
    and "\<And>t. same_outside A s t \<Longrightarrow> E t \<and> C t"
  shows "runs w (io_bind m k) T E C s"
  by (rule runs_bind, rule runs_mono [OF assms(1) [unfolded only_def, rule_format]]) (use assms in auto)

lemma runs_read_cleanup:
  "runs w (read_journal pf (cleanup_path ph op) op) (\<lambda>j t. t = s \<and> recorded pf op j s) (\<lambda>t. t = s) (\<lambda>t. t = s) s"
  unfolding read_journal_def read_to_string_def recorded_def
  by (auto intro!: runs_flow runs_calls split: option.splits node.splits simp: is_regular_def) blast

lemma runs_find_cleanup:
  "runs w (find_cleanup pf op ph) (\<lambda>r t. t = s \<and> (\<forall>j. r = Some j \<longrightarrow> recorded pf op j s)) (\<lambda>t. t = s) (\<lambda>t. t = s) s"
proof -
  have "runs w (io_bind (read_journal pf (cleanup_path ph op) op) (\<lambda>j. io_return (Some j)))
      (\<lambda>r t. t = s \<and> (\<forall>j. r = Some j \<longrightarrow> recorded pf op j s)) (\<lambda>t. t = s) (\<lambda>t. t = s) s"
    by (rule runs_bind, rule runs_mono [OF runs_read_cleanup]) (auto intro: runs_return)
  then show ?thesis
    unfolding find_cleanup_def
    by (auto intro!: runs_flow(3) runs_symlink_metadata intro: runs_return runs_bail split: option.splits)
qed

lemma only_remove_cleanup [keeping]:
  "only w (cleanup_places op) (remove_private_regular (cleanup_path ph op))"
  "only w (cleanup_places op) (remove_cleanup_journal op)"
  unfolding remove_cleanup_journal_def by (auto intro!: keeping)

lemma runs_locate_cleanup:
  "runs w (locate_cleanup pf op)
     (\<lambda>r t. same_outside (cleanup_places op) s t \<and> (\<forall>ph j. r = Some (ph, j) \<longrightarrow> recorded pf op j s))
     (same_outside (cleanup_places op) s) (same_outside (cleanup_places op) s) s"
    (is "runs w _ ?T ?W ?W s")
proof -
  have final: "runs w
      (case (pending, ready) of
         (None, None) \<Rightarrow> io_return None
       | (Some journal, None) \<Rightarrow> io_return (Some (CleanupPending, journal))
       | (None, Some journal) \<Rightarrow> io_return (Some (CleanupReady, journal))
       | (Some p, Some r) \<Rightarrow>
           if p = r
           then io_bind (remove_private_regular (cleanup_path CleanupPending op)) (\<lambda>_. io_return (Some (CleanupReady, r)))
           else io_bail ''cleanup journals have conflicting payloads'') ?T ?W ?W s"
    if "\<forall>j. pending = Some j \<longrightarrow> recorded pf op j s" "\<forall>j. ready = Some j \<longrightarrow> recorded pf op j s" for pending ready
    using that by (auto split: option.splits intro!: runs_return runs_bail runs_only_then [OF only_remove_cleanup(1)])
  show ?thesis
  proof (cases "valid_operation_id op")
    case True
    show ?thesis
      unfolding locate_cleanup_def
      apply (simp only: True not_True_eq_False if_False)
      apply (rule runs_bind, rule runs_mono [OF runs_find_cleanup])
        apply (simp only:)
        apply (rule runs_bind, rule runs_mono [OF runs_find_cleanup])
          apply (simp only:)
          apply (rule final)
      by auto
  next
    case False
    then show ?thesis by (simp add: locate_cleanup_def runs_bail)
  qed
qed

lemma runs_path_hash:
  "runs w (path_hash pf q) (\<lambda>h t. t = s \<and> h = node_hash pf (s q)) (\<lambda>t. t = s) (\<lambda>t. t = s) s"
  unfolding path_hash_def
  by (auto intro!: runs_flow runs_calls split: option.splits node.splits simp: node_hash_def)

lemma runs_remove_nofollow:
  "runs w (remove_nofollow q) (\<lambda>_ t. t = s \<or> t = s(q := None)) (\<lambda>t. t = s \<or> t = s(q := None))
     (\<lambda>t. t = s \<or> t = s(q := None)) s"
  unfolding remove_nofollow_def by (auto intro!: runs_flow runs_calls split: option.splits node.splits)

lemma only_activate [keeping]: "only w (cleanup_places op) (activate_cleanup pf (PreparedCleanup op))"
proof -
  have "only w (cleanup_places op) (locate_cleanup pf op)"
    unfolding locate_cleanup_def find_cleanup_def by (auto intro!: keeping split: option.splits)
  moreover have "only w (cleanup_places op) (transition_cleanup_journal pf op ph ph')" for ph ph'
    unfolding transition_cleanup_journal_def by (rule only_transition_private) simp_all
  ultimately show ?thesis
    unfolding activate_cleanup_def Let_def PreparedCleanup.sel
    by (auto intro!: keeping split: option.splits CleanupPhase.splits)
qed

definition fenced :: "FilePlatform \<Rightarrow> string \<Rightarrow> Profiles \<Rightarrow> (place \<Rightarrow> node option) \<Rightarrow> (place \<Rightarrow> node option) \<Rightarrow> bool" where
  "fenced pf op profiles s t \<longleftrightarrow>
     (\<forall>q. q \<notin> cleanup_places op \<longrightarrow> t q = s q \<or> cleanup_due pf op profiles s q \<and> t q = None)"

lemma fenced_same: "same_outside (cleanup_places op) s t \<Longrightarrow> fenced pf op profiles s t"
  by (auto simp: fenced_def same_outside_def)

lemma runs_retry_cleanup:
  "runs w (retry_cleanup pf (PreparedCleanup op) profiles) (\<lambda>_. fenced pf op profiles s) (fenced pf op profiles s)
     (fenced pf op profiles s) s"
    (is "runs w _ (\<lambda>_. ?F) ?F ?F s")
proof -
  let ?A = "cleanup_places op"
  have close: "runs w (io_bind (remove_cleanup_journal op) (\<lambda>_. io_return x)) (\<lambda>_. ?F) ?F ?F t"
    if "?F t" for x :: CleanupOutcome and t :: "place \<Rightarrow> node option"
    by (rule runs_only_then [OF only_remove_cleanup(2)])
      (use that in \<open>auto intro!: runs_return simp: fenced_def same_outside_def\<close>)
  have removing: "runs w (io_bind (remove_cleanup_target (profile_place (mj_managed_path j))) (\<lambda>_.
      io_bind (remove_cleanup_journal op) (\<lambda>_. io_return Removed))) (\<lambda>_. ?F) ?F ?F t"
    if t: "same_outside ?A s t" and j: "recorded pf op j s" "mj_managed_path j \<notin> set (active_managed_paths profiles)"
      and h: "node_hash pf (t (profile_place (mj_managed_path j))) = mj_hash j" for j t
  proof -
    let ?q = "profile_place (mj_managed_path j)"
    have "?q \<notin> ?A" using journals_subset(2) artifacts_not_journals(2) by blast
    then have "cleanup_due pf op profiles s ?q"
      using t j h by (auto simp: cleanup_due_def recorded_def same_outside_def)
    then have "?F u" if "u = t \<or> u = t(?q := None)" for u
      using that t by (auto simp: fenced_def same_outside_def split: if_splits)
    then show ?thesis
      unfolding remove_cleanup_target_def
      by (intro runs_bind [OF runs_mono [OF runs_remove_nofollow]] close) auto
  qed
  have checked: "runs w (io_bind (resolve (mj_managed_path j)) (\<lambda>target. io_bind (path_hash pf target) (\<lambda>h.
      if h = absent_hash then io_bind (remove_cleanup_journal op) (\<lambda>_. io_return AlreadyAbsent)
      else if h \<noteq> mj_hash j then io_bind (remove_cleanup_journal op) (\<lambda>_. io_return FencedHashMismatch)
      else io_bind (remove_cleanup_target target) (\<lambda>_. io_bind (remove_cleanup_journal op) (\<lambda>_. io_return Removed)))))
      (\<lambda>_. ?F) ?F ?F t"
    if t: "same_outside ?A s t" and j: "recorded pf op j s" "mj_managed_path j \<notin> set (active_managed_paths profiles)" for j t
  proof -
    have F: "?F t" by (rule fenced_same [OF t])
    have "runs w (io_bind (path_hash pf (profile_place (mj_managed_path j))) (\<lambda>h.
      if h = absent_hash then io_bind (remove_cleanup_journal op) (\<lambda>_. io_return AlreadyAbsent)
      else if h \<noteq> mj_hash j then io_bind (remove_cleanup_journal op) (\<lambda>_. io_return FencedHashMismatch)
      else io_bind (remove_cleanup_target (profile_place (mj_managed_path j))) (\<lambda>_.
        io_bind (remove_cleanup_journal op) (\<lambda>_. io_return Removed)))) (\<lambda>_. ?F) ?F ?F t"
      by (rule runs_bind, rule runs_mono [OF runs_path_hash])
        (use F close removing [OF t j] in auto)
    then show ?thesis
      unfolding resolve_def using F by (auto intro!: runs_bail runs_bind runs_probe runs_return)
  qed
  have found: "runs w (io_bind (io_when (ph = CleanupPending) (activate_cleanup pf (PreparedCleanup op))) (\<lambda>_.
      if mj_managed_path j \<in> set (active_managed_paths profiles)
      then io_bind (remove_cleanup_journal op) (\<lambda>_. io_return FencedActivePath)
      else io_bind (resolve (mj_managed_path j)) (\<lambda>target. io_bind (path_hash pf target) (\<lambda>h.
        if h = absent_hash then io_bind (remove_cleanup_journal op) (\<lambda>_. io_return AlreadyAbsent)
        else if h \<noteq> mj_hash j then io_bind (remove_cleanup_journal op) (\<lambda>_. io_return FencedHashMismatch)
        else io_bind (remove_cleanup_target target) (\<lambda>_. io_bind (remove_cleanup_journal op) (\<lambda>_. io_return Removed))))))
      (\<lambda>_. ?F) ?F ?F t"
    if t: "same_outside ?A s t" and j: "recorded pf op j s" for ph j t
  proof (rule runs_only_then [OF only_when [OF only_activate]])
    fix x u
    assume u: "same_outside ?A t u"
    have v: "same_outside ?A s u" by (rule same_outside_trans [OF t u])
    show "runs w (if mj_managed_path j \<in> set (active_managed_paths profiles)
      then io_bind (remove_cleanup_journal op) (\<lambda>_. io_return FencedActivePath)
      else io_bind (resolve (mj_managed_path j)) (\<lambda>target. io_bind (path_hash pf target) (\<lambda>h.
        if h = absent_hash then io_bind (remove_cleanup_journal op) (\<lambda>_. io_return AlreadyAbsent)
        else if h \<noteq> mj_hash j then io_bind (remove_cleanup_journal op) (\<lambda>_. io_return FencedHashMismatch)
        else io_bind (remove_cleanup_target target) (\<lambda>_. io_bind (remove_cleanup_journal op) (\<lambda>_. io_return Removed)))))
      (\<lambda>_. ?F) ?F ?F u"
      by (cases "mj_managed_path j \<in> set (active_managed_paths profiles)")
        (use close [OF fenced_same [OF v]] checked [OF v j] in simp_all)
  qed (use same_outside_trans [OF t] fenced_same in blast)
  have F: "?F s" by (simp add: fenced_same)
  have located: "runs w (io_bind (locate_cleanup pf op) (\<lambda>found. case found of
      None \<Rightarrow> io_return AlreadyAbsent
    | Some (phase, journal) \<Rightarrow>
        io_bind (io_when (phase = CleanupPending) (activate_cleanup pf (PreparedCleanup op))) (\<lambda>_.
        if mj_managed_path journal \<in> set (active_managed_paths profiles)
        then io_bind (remove_cleanup_journal op) (\<lambda>_. io_return FencedActivePath)
        else io_bind (resolve (mj_managed_path journal)) (\<lambda>target. io_bind (path_hash pf target) (\<lambda>h.
          if h = absent_hash then io_bind (remove_cleanup_journal op) (\<lambda>_. io_return AlreadyAbsent)
          else if h \<noteq> mj_hash journal then io_bind (remove_cleanup_journal op) (\<lambda>_. io_return FencedHashMismatch)
          else io_bind (remove_cleanup_target target) (\<lambda>_. io_bind (remove_cleanup_journal op) (\<lambda>_. io_return Removed)))))))
      (\<lambda>_. ?F) ?F ?F s"
  proof (rule runs_bind, rule runs_mono [OF runs_locate_cleanup], goal_cases)
    case (1 r t)
    then show ?case using found by (auto split: option.splits intro!: runs_return fenced_same)
  qed (auto intro: fenced_same)
  have start: "runs w ensure_materialization_layout (\<lambda>_ t. t = s) (\<lambda>t. t = s) (\<lambda>t. t = s) s"
    unfolding ensure_materialization_layout_def by (rule runs_probe) auto
  show ?thesis
    unfolding retry_cleanup_def Let_def PreparedCleanup.sel
    by (rule runs_bind, rule runs_mono [OF start]) (use located F in auto)
qed

text \<open>C17: Retrying a cleanup, whatever calls fail or kill the process in it, changes besides the journals of the
  cleanup at most the file its journal names, by removing it; and then only when no profile of the document
  uses that path and the file still is what the journal recorded.\<close>

theorem cleanup_fenced:
  assumes "retry_cleanup pf (PreparedCleanup op) profiles d = (out, d')"
    and "q \<notin> cleanup_places op" and "content_of d' q \<noteq> content_of d q"
  shows "content_of d' q = None \<and>
    (\<exists>ph c j. content_of d (cleanup_path ph op) = Some (Regular c) \<and> fp_from_yaml pf c = Some j \<and>
       q = profile_place (mj_managed_path j) \<and> mj_managed_path j \<notin> set (active_managed_paths profiles) \<and>
       node_hash pf (content_of d q) = mj_hash j)"
proof -
  let ?F = "fenced pf op profiles (content_of d)"
  have "?F (content_of d')"
    using runs_stepD [where d = d and fs = "dk_faults d", OF runs_retry_cleanup may_meet_all, of pf op profiles out d'] assms(1)
    by (auto simp: with_faults_def split: outcome.splits)
  then show ?thesis using assms(2,3) by (auto simp: fenced_def cleanup_due_def)
qed

definition demo_removal :: Disk where
  "demo_removal = snd (prepare_cleanup demo_platform (\<lambda>_. demo_op) demo_path 1 (with_faults [] demo_old))"

theorem cleanup_fenced_witness:
  "content_of (snd (retry_cleanup demo_platform (PreparedCleanup demo_op) profiles_default demo_removal))
     (profile_place demo_path) = None \<and>
   node_hash demo_platform (content_of demo_removal (profile_place demo_path)) = demo_hash (''file'' @ CHR 0x00 # ''old'')"
proof -
  let ?out = "retry_cleanup demo_platform (PreparedCleanup demo_op) profiles_default demo_removal"
  have q: "profile_place demo_path \<notin> cleanup_places demo_op" by (simp add: cleanup_places_def place_defs)
  have "content_of (snd ?out) (profile_place demo_path) \<noteq> content_of demo_removal (profile_place demo_path)"
    by code_simp
  from cleanup_fenced [OF prod.collapse [symmetric] q this]
  have "content_of (snd ?out) (profile_place demo_path) = None" by simp
  moreover have "node_hash demo_platform (content_of demo_removal (profile_place demo_path)) =
      demo_hash (''file'' @ CHR 0x00 # ''old'')" by code_simp
  ultimately show ?thesis by simp
qed

end
