(* ===== verification/Session_Ports.thy ===== *)
theory Session_Ports
  imports Overlay Builtin_Steps
begin

text \<open>
  The Clash settings (\<^verbatim>\<open>nyanpasu-config/src/clash/config\<close>) and the resolver that turns their port strategies
  into the ports of a session (\<^verbatim>\<open>tauri/src/client/ports.rs\<close>).

  \<^item> The \<^verbatim>\<open>port_scanner\<close> crate is a parameter: two questions to the operating system over a state of its own.
  \<^item> An IP address is what its \<^verbatim>\<open>Display\<close> prints.
  \<^item> The resolver is its cache: the strategies the last ports were picked for, and the ports.
\<close>

section \<open>Clash settings\<close>

type_synonym IpAddr = string

datatype PortStrategyKind = Fixed | Random | AllowFallback

record PortStrategy =
  st_kind :: PortStrategyKind
  st_start_port :: u16

record ExternalControllerStrategy =
  ec_host :: IpAddr
  ec_port :: PortStrategy

datatype ProxyChangeBreakMode = BreakOff | BreakProxyGroup | BreakAll

record BreakConnectionStrategy =
  bc_on_proxy_change :: ProxyChangeBreakMode
  bc_on_profile_change :: bool
  bc_on_mode_change :: bool

record ClashConfig =
  cl_overrides :: ClashGuardOverrides
  cl_enable_tun_mode :: bool
  cl_web_ui_list :: "string list"
  cl_enable_clash_fields :: bool
  cl_external_controller :: ExternalControllerStrategy
  cl_mixed_port :: PortStrategy
  cl_socks_port :: "PortStrategy option"
  cl_http_port :: "PortStrategy option"
  cl_break_connection :: BreakConnectionStrategy
  cl_tun_stack :: TunStack

definition new_allow_fallback :: "u16 \<Rightarrow> PortStrategy" where
  "new_allow_fallback p = \<lparr>st_kind = AllowFallback, st_start_port = p\<rparr>"

definition default_external_controller :: ExternalControllerStrategy where
  "default_external_controller = \<lparr>ec_host = ''127.0.0.1'', ec_port = new_allow_fallback 17650\<rparr>"

definition default_break_connection :: BreakConnectionStrategy where
  "default_break_connection =
     \<lparr>bc_on_proxy_change = BreakAll, bc_on_profile_change = True, bc_on_mode_change = True\<rparr>"

section \<open>Picking a port\<close>

record 's PortScanner =
  ps_available :: "u16 \<Rightarrow> 's \<Rightarrow> bool \<times> 's"
  ps_open_port :: "'s \<Rightarrow> u16 option \<times> 's"

datatype PickPortError = PortNotAvailable u16 | NoOpenPort

datatype PickedPort = OriginalPort u16 | FallbackPort u16

fun picked :: "PickedPort \<Rightarrow> u16" where
  "picked (OriginalPort p) = p"
| "picked (FallbackPort p) = p"

definition request_open :: "'s PortScanner \<Rightarrow> 's \<Rightarrow> (PickPortError + u16) \<times> 's" where
  "request_open ps s =
     (case ps_open_port ps s of (None, s') \<Rightarrow> (Inl NoOpenPort, s') | (Some p, s') \<Rightarrow> (Inr p, s'))"

definition pick_and_try_port :: "'s PortScanner \<Rightarrow> PortStrategy \<Rightarrow> 's \<Rightarrow> (PickPortError + PickedPort) \<times> 's" where
  "pick_and_try_port ps st s =
     (case st_kind st of
        Fixed \<Rightarrow>
          (case ps_available ps (st_start_port st) s of
             (False, s') \<Rightarrow> (Inl (PortNotAvailable (st_start_port st)), s')
           | (True, s') \<Rightarrow> (Inr (OriginalPort (st_start_port st)), s'))
      | Random \<Rightarrow>
          (case request_open ps s of
             (Inl e, s') \<Rightarrow> (Inl e, s')
           | (Inr p, s') \<Rightarrow>
               (case ps_available ps p s' of
                  (False, s'') \<Rightarrow> (Inl (PortNotAvailable p), s'')
                | (True, s'') \<Rightarrow> (Inr (FallbackPort p), s'')))
      | AllowFallback \<Rightarrow>
          (case ps_available ps (st_start_port st) s of
             (True, s') \<Rightarrow> (Inr (OriginalPort (st_start_port st)), s')
           | (False, s') \<Rightarrow>
               (case request_open ps s' of
                  (Inl e, s'') \<Rightarrow> (Inl e, s'')
                | (Inr p, s'') \<Rightarrow> (Inr (FallbackPort p), s''))))"

definition try_pick ::
    "'s PortScanner \<Rightarrow> ExternalControllerStrategy \<Rightarrow> 's \<Rightarrow> (PickPortError + IpAddr \<times> PickedPort) \<times> 's" where
  "try_pick ps ec s =
     (case pick_and_try_port ps (ec_port ec) s of
        (Inl e, s') \<Rightarrow> (Inl e, s') | (Inr p, s') \<Rightarrow> (Inr (ec_host ec, p), s'))"

section \<open>The resolver\<close>

record PortsFingerprint =
  fp_mixed :: PortStrategy
  fp_socks :: "PortStrategy option"
  fp_http :: "PortStrategy option"
  fp_ext :: ExternalControllerStrategy

definition fingerprint_of :: "ClashConfig \<Rightarrow> PortsFingerprint" where
  "fingerprint_of c =
     \<lparr>fp_mixed = cl_mixed_port c, fp_socks = cl_socks_port c, fp_http = cl_http_port c,
      fp_ext = cl_external_controller c\<rparr>"

type_synonym PortCache = "(PortsFingerprint \<times> ResolvedPortBindings) option"

text \<open>A field of the cache, when its strategy is unchanged.\<close>

definition unchanged :: "(PortsFingerprint \<Rightarrow> 'a) \<Rightarrow> PortsFingerprint \<Rightarrow> PortCache \<Rightarrow> ResolvedPortBindings option" where
  "unchanged field fp cached =
     (case cached of Some (prev, ports) \<Rightarrow> if field prev = field fp then Some ports else None | None \<Rightarrow> None)"

definition pick_port :: "anyhow \<Rightarrow> 's PortScanner \<Rightarrow> PortStrategy \<Rightarrow> 's \<Rightarrow> (anyhow + u16) \<times> 's" where
  "pick_port msg ps st s =
     (case pick_and_try_port ps st s of (Inl e, s') \<Rightarrow> (Inl msg, s') | (Inr p, s') \<Rightarrow> (Inr (picked p), s'))"

definition pick_optional :: "anyhow \<Rightarrow> 's PortScanner \<Rightarrow> PortStrategy option \<Rightarrow> 's \<Rightarrow> (anyhow + u16 option) \<times> 's" where
  "pick_optional msg ps st s =
     (case st of
        None \<Rightarrow> (Inr None, s)
      | Some st' \<Rightarrow>
          (case pick_port msg ps st' s of (Inl e, s') \<Rightarrow> (Inl e, s') | (Inr p, s') \<Rightarrow> (Inr (Some p), s')))"

text \<open>\<^verbatim>\<open>addr.rsplit(':').next()\<close> and \<^verbatim>\<open>parse::<u16>().ok()\<close>.\<close>

definition port_of_address :: "string \<Rightarrow> u16 option" where
  "port_of_address addr =
     (case parse_usize (last (split_char CHR '':'' addr)) of
        Some n \<Rightarrow> if n < 2 ^ 16 then Some (of_nat n) else None
      | None \<Rightarrow> None)"

definition and_next :: "(anyhow + 'a) \<times> 's \<Rightarrow> ('a \<Rightarrow> 's \<Rightarrow> (anyhow + 'b) \<times> 's) \<Rightarrow> (anyhow + 'b) \<times> 's" where
  "and_next r k = (case r of (Inl e, s) \<Rightarrow> (Inl e, s) | (Inr x, s) \<Rightarrow> k x s)"

definition resolve_fresh ::
    "'s PortScanner \<Rightarrow> ClashConfig \<Rightarrow> PortCache \<Rightarrow> 's \<Rightarrow> (anyhow + ResolvedPortBindings) \<times> 's" where
  "resolve_fresh ps clash cached s =
     (let fp = fingerprint_of clash
      in and_next
           (case unchanged fp_mixed fp cached of
              Some ports \<Rightarrow> (Inr (rp_mixed_port ports), s)
            | None \<Rightarrow> pick_port ''failed to resolve mixed port'' ps (cl_mixed_port clash) s) (\<lambda>mixed_port s.
         and_next
           (case unchanged fp_http fp cached of
              Some ports \<Rightarrow> (Inr (rp_port ports), s)
            | None \<Rightarrow> pick_optional ''failed to resolve http port'' ps (cl_http_port clash) s) (\<lambda>port s.
         and_next
           (case unchanged fp_socks fp cached of
              Some ports \<Rightarrow> (Inr (rp_socks_port ports), s)
            | None \<Rightarrow> pick_optional ''failed to resolve socks port'' ps (cl_socks_port clash) s) (\<lambda>socks_port s.
         and_next
           (case Option.bind (unchanged (\<lambda>f. ec_port (fp_ext f)) fp cached)
                   (\<lambda>ports. Option.bind (rp_external_controller ports) port_of_address) of
              Some p \<Rightarrow> (Inr p, s)
            | None \<Rightarrow> pick_port ''failed to resolve external controller port'' ps (ec_port (cl_external_controller clash)) s)
           (\<lambda>external_port s.
         (Inr \<lparr>rp_mixed_port = mixed_port, rp_port = port, rp_socks_port = socks_port,
               rp_external_controller =
                 Some (ec_host (cl_external_controller clash) @ '':'' @ show_nat (unat external_port))\<rparr>, s))))))"

definition resolve_ports ::
    "'s PortScanner \<Rightarrow> ClashConfig \<Rightarrow> PortCache \<Rightarrow> 's \<Rightarrow> (anyhow + ResolvedPortBindings) \<times> PortCache \<times> 's" where
  "resolve_ports ps clash cached s =
     (let fp = fingerprint_of clash
      in case (case cached of Some (previous, ports) \<Rightarrow> if previous = fp then Some ports else None | None \<Rightarrow> None) of
           Some ports \<Rightarrow> (Inr ports, cached, s)
         | None \<Rightarrow>
             (case resolve_fresh ps clash cached s of
                (Inl e, s') \<Rightarrow> (Inl e, cached, s')
              | (Inr ports, s') \<Rightarrow> (Inr ports, Some (fp, ports), s')))"

definition self_proxy_port :: "PortCache \<Rightarrow> u16 option" where
  "self_proxy_port cached = map_option (\<lambda>(fp, ports). rp_mixed_port ports) cached"

section \<open>What a session's ports are\<close>

text \<open>The text after the last colon of an address is its port, also for a host with colons of its own.\<close>

lemma split_char_none: "c \<notin> set s \<Longrightarrow> split_char c s = [s]"
  by (induction s) auto

lemma split_char_two: "tl (split_char c (s @ c # t)) \<noteq> []"
  by (induction s) (use split_char_nonempty in \<open>auto split: list.splits\<close>)

lemma last_split_char: "c \<notin> set t \<Longrightarrow> last (split_char c (s @ c # t)) = t"
proof (induction s)
  case Nil
  then show ?case by (simp add: split_char_none)
next
  case (Cons x s)
  then show ?case using split_char_two [of c s t] split_char_nonempty [of c "s @ c # t"]
    by (auto split: list.splits if_splits)
qed

lemma show_nat_digits: "c \<in> set (show_nat n) \<Longrightarrow> 48 \<le> (of_char c :: nat) \<and> of_char c \<le> (57 :: nat)"
proof (induction n rule: show_nat.induct)
  case (1 n)
  then show ?case by (subst (asm) show_nat.simps) (auto split: if_splits)
qed

lemma port_of_shown: "port_of_address (host @ '':'' @ show_nat (unat p)) = Some p" for p :: u16
proof -
  have "CHR '':'' \<notin> set (show_nat (unat p))" using show_nat_digits [of "CHR '':''" "unat p"] by auto
  then have "last (split_char CHR '':'' (host @ '':'' @ show_nat (unat p))) = show_nat (unat p)"
    using last_split_char [of "CHR '':''" "show_nat (unat p)" host] by simp
  moreover have b: "unat p < 2 ^ 16" using unsigned_less [of p] by simp
  moreover have "parse_usize (show_nat (unat p)) = Some (unat p)" using b by (intro parse_usize_show) simp
  ultimately show ?thesis by (simp add: port_of_address_def)
qed

lemma port_of_shown_cons [simp]: "port_of_address (host @ CHR '':'' # show_nat (unat p)) = Some p" for p :: u16
  using port_of_shown [of host p] by simp

text \<open>Ports that fit the strategies they were picked for.\<close>

definition port_fits :: "PortStrategy \<Rightarrow> u16 \<Rightarrow> bool" where
  "port_fits st p \<longleftrightarrow> (st_kind st = Fixed \<longrightarrow> p = st_start_port st)"

definition bindings_fit :: "PortsFingerprint \<Rightarrow> ResolvedPortBindings \<Rightarrow> bool" where
  "bindings_fit fp ports \<longleftrightarrow>
     port_fits (fp_mixed fp) (rp_mixed_port ports) \<and>
     rel_option port_fits (fp_http fp) (rp_port ports) \<and>
     rel_option port_fits (fp_socks fp) (rp_socks_port ports) \<and>
     (\<exists>p. port_fits (ec_port (fp_ext fp)) p \<and>
        rp_external_controller ports = Some (ec_host (fp_ext fp) @ '':'' @ show_nat (unat p)))"

definition cache_fits :: "PortCache \<Rightarrow> bool" where
  "cache_fits cached = (case cached of Some (fp, ports) \<Rightarrow> bindings_fit fp ports | None \<Rightarrow> True)"

lemma pick_port_fits: "pick_port msg ps st s = (Inr p, s') \<Longrightarrow> port_fits st p"
  by (auto simp: pick_port_def pick_and_try_port_def request_open_def port_fits_def
      split: PortStrategyKind.splits prod.splits sum.splits bool.splits option.splits)

lemma pick_optional_fits: "pick_optional msg ps st s = (Inr p, s') \<Longrightarrow> rel_option port_fits st p"
  by (auto simp: pick_optional_def pick_port_fits split: option.splits prod.splits sum.splits)

lemma and_next_Inr: "and_next r k = (Inr y, s') \<longleftrightarrow> (\<exists>x s. r = (Inr x, s) \<and> k x s = (Inr y, s'))"
  by (auto simp: and_next_def split: prod.splits sum.splits)

lemma unchanged_Some: "unchanged f fp cached = Some ports \<longleftrightarrow> (\<exists>prev. cached = Some (prev, ports) \<and> f prev = f fp)"
  by (auto simp: unchanged_def split: option.splits prod.splits if_splits)

lemma resolve_fresh_fits:
  assumes "resolve_fresh ps clash cached s = (Inr ports, s')" and "cache_fits cached"
  shows "bindings_fit (fingerprint_of clash) ports"
proof -
  obtain mp hp sp xp s1 s2 s3 s4 where
    m: "(case unchanged fp_mixed (fingerprint_of clash) cached of
          Some ports \<Rightarrow> (Inr (rp_mixed_port ports), s)
        | None \<Rightarrow> pick_port ''failed to resolve mixed port'' ps (cl_mixed_port clash) s) = (Inr mp, s1)" and
    h: "(case unchanged fp_http (fingerprint_of clash) cached of
          Some ports \<Rightarrow> (Inr (rp_port ports), s1)
        | None \<Rightarrow> pick_optional ''failed to resolve http port'' ps (cl_http_port clash) s1) = (Inr hp, s2)" and
    k: "(case unchanged fp_socks (fingerprint_of clash) cached of
          Some ports \<Rightarrow> (Inr (rp_socks_port ports), s2)
        | None \<Rightarrow> pick_optional ''failed to resolve socks port'' ps (cl_socks_port clash) s2) = (Inr sp, s3)" and
    x: "(case Option.bind (unchanged (\<lambda>f. ec_port (fp_ext f)) (fingerprint_of clash) cached)
            (\<lambda>ports. Option.bind (rp_external_controller ports) port_of_address) of
          Some p \<Rightarrow> (Inr p, s3)
        | None \<Rightarrow> pick_port ''failed to resolve external controller port'' ps (ec_port (cl_external_controller clash)) s3)
        = (Inr xp, s4)" and
    ports: "ports = \<lparr>rp_mixed_port = mp, rp_port = hp, rp_socks_port = sp,
       rp_external_controller = Some (ec_host (cl_external_controller clash) @ '':'' @ show_nat (unat xp))\<rparr>"
    using assms(1) unfolding resolve_fresh_def Let_def and_next_Inr by fast
  have "port_fits (cl_mixed_port clash) mp"
    using m assms(2) by (auto simp: unchanged_Some cache_fits_def bindings_fit_def fingerprint_of_def
        intro: pick_port_fits split: option.splits)
  moreover have "rel_option port_fits (cl_http_port clash) hp"
    using h assms(2) by (auto simp: unchanged_Some cache_fits_def bindings_fit_def fingerprint_of_def
        intro: pick_optional_fits split: option.splits)
  moreover have "rel_option port_fits (cl_socks_port clash) sp"
    using k assms(2) by (auto simp: unchanged_Some cache_fits_def bindings_fit_def fingerprint_of_def
        intro: pick_optional_fits split: option.splits)
  moreover have "port_fits (ec_port (cl_external_controller clash)) xp"
    using x assms(2) port_of_shown by (auto simp: unchanged_Some cache_fits_def bindings_fit_def fingerprint_of_def
        bind_eq_Some_conv intro: pick_port_fits split: option.splits)
  ultimately show ?thesis by (auto simp: ports bindings_fit_def fingerprint_of_def)
qed

text \<open>Any sequence of resolutions; what was decided earlier is the cache.\<close>

fun resolve_all :: "'s PortScanner \<Rightarrow> ClashConfig list \<Rightarrow> PortCache \<Rightarrow> 's \<Rightarrow> PortCache \<times> 's" where
  "resolve_all ps [] cached s = (cached, s)"
| "resolve_all ps (c # cs) cached s =
     (case resolve_ports ps c cached s of (r, cached', s') \<Rightarrow> resolve_all ps cs cached' s')"

lemma resolve_ports_fits:
  "cache_fits cached \<Longrightarrow> resolve_ports ps clash cached s = (r, cached', s') \<Longrightarrow> cache_fits cached'"
  by (auto simp: resolve_ports_def Let_def cache_fits_def dest!: resolve_fresh_fits
      split: option.splits prod.splits sum.splits if_splits)

lemma resolve_all_fits: "cache_fits cached \<Longrightarrow> cache_fits (fst (resolve_all ps cs cached s))"
proof (induction cs arbitrary: cached s)
  case (Cons c cs)
  obtain r cached' s' where r: "resolve_ports ps c cached s = (r, cached', s')" by (cases "resolve_ports ps c cached s")
  show ?case using Cons.IH [of cached' s'] resolve_ports_fits [OF Cons.prems r] by (simp add: r)
qed simp

lemma resolve_fresh_keeps:
  assumes r: "resolve_fresh ps clash (Some (prev, old)) s = (Inr ports, s')" and fits: "bindings_fit prev old"
  shows "fp_mixed prev = cl_mixed_port clash \<Longrightarrow> rp_mixed_port ports = rp_mixed_port old"
    and "fp_http prev = cl_http_port clash \<Longrightarrow> rp_port ports = rp_port old"
    and "fp_socks prev = cl_socks_port clash \<Longrightarrow> rp_socks_port ports = rp_socks_port old"
    and "ec_port (fp_ext prev) = ec_port (cl_external_controller clash) \<Longrightarrow>
      \<exists>p :: u16. rp_external_controller old = Some (ec_host (fp_ext prev) @ '':'' @ show_nat (unat p)) \<and>
          rp_external_controller ports = Some (ec_host (cl_external_controller clash) @ '':'' @ show_nat (unat p))"
  using r fits unfolding resolve_fresh_def Let_def and_next_Inr
  by (auto simp: unchanged_def fingerprint_of_def bindings_fit_def)

text \<open>C37: The ports of a session are stable. After any resolutions, resolving again gives ports that fit the
  strategies (a fixed strategy gives its port, a port exists exactly where a strategy does), keeps every port
  whose strategy is unchanged, which the running core may be holding, also when only the controller's host
  changes, and asks the operating system nothing when no strategy changed.\<close>

theorem session_ports_stable:
  assumes "fst (resolve_all ps history None s0) = cached" and "resolve_ports ps clash cached s = (Inr ports, cached', s')"
  shows "bindings_fit (fingerprint_of clash) ports \<and> cached' = Some (fingerprint_of clash, ports) \<and>
    (case cached of None \<Rightarrow> True | Some (prev, old) \<Rightarrow>
       (prev = fingerprint_of clash \<longrightarrow> ports = old \<and> s' = s) \<and>
       (fp_mixed prev = cl_mixed_port clash \<longrightarrow> rp_mixed_port ports = rp_mixed_port old) \<and>
       (fp_http prev = cl_http_port clash \<longrightarrow> rp_port ports = rp_port old) \<and>
       (fp_socks prev = cl_socks_port clash \<longrightarrow> rp_socks_port ports = rp_socks_port old) \<and>
       (ec_port (fp_ext prev) = ec_port (cl_external_controller clash) \<longrightarrow>
          (\<exists>p :: u16. rp_external_controller old = Some (ec_host (fp_ext prev) @ '':'' @ show_nat (unat p)) \<and>
               rp_external_controller ports = Some (ec_host (cl_external_controller clash) @ '':'' @ show_nat (unat p)))))"
proof -
  have fits: "cache_fits cached" using resolve_all_fits [of None ps history s0] assms(1) by (simp add: cache_fits_def)
  show ?thesis
  proof (cases "\<exists>old. cached = Some (fingerprint_of clash, old)")
    case True
    then obtain old where c: "cached = Some (fingerprint_of clash, old)" by blast
    then have "ports = old" "s' = s" "cached' = cached" using assms(2) by (auto simp: resolve_ports_def)
    moreover have "bindings_fit (fingerprint_of clash) old" using fits c by (simp add: cache_fits_def)
    moreover obtain p :: u16 where
      "rp_external_controller old = Some (ec_host (cl_external_controller clash) @ '':'' @ show_nat (unat p))"
      using calculation(4) by (auto simp: bindings_fit_def fingerprint_of_def)
    ultimately show ?thesis using c by (simp add: fingerprint_of_def) blast
  next
    case False
    then have r: "resolve_fresh ps clash cached s = (Inr ports, s')" "cached' = Some (fingerprint_of clash, ports)"
      using assms(2) by (auto simp: resolve_ports_def Let_def split: option.splits prod.splits sum.splits if_splits)
    have "bindings_fit (fingerprint_of clash) ports" by (rule resolve_fresh_fits [OF r(1) fits])
    moreover have "prev \<noteq> fingerprint_of clash" if "cached = Some (prev, old)" for prev old using False that by blast
    ultimately show ?thesis
      using r fits resolve_fresh_keeps [of ps clash _ _ s ports s'] by (auto simp: cache_fits_def split: option.splits)
  qed
qed

text \<open>Every port below 8000 is taken; the next open port is counted up.\<close>

definition demo_scanner :: "u16 PortScanner" where
  "demo_scanner = \<lparr>ps_available = (\<lambda>p s. (8000 \<le> p, s)), ps_open_port = (\<lambda>s. (Some s, s + 1))\<rparr>"

definition demo_clash :: ClashConfig where
  "demo_clash =
     \<lparr>cl_overrides = \<lparr>go_log_level = Info, go_allow_lan = False, go_mode = Rule, go_secret = [], go_unified_delay = None,
        go_tcp_concurrent = None, go_ipv6 = False\<rparr>,
      cl_enable_tun_mode = False, cl_web_ui_list = [], cl_enable_clash_fields = True,
      cl_external_controller = default_external_controller, cl_mixed_port = new_allow_fallback 7890,
      cl_socks_port = None, cl_http_port = None, cl_break_connection = default_break_connection, cl_tun_stack = Gvisor\<rparr>"

definition demo_lan :: ClashConfig where
  "demo_lan = demo_clash\<lparr>cl_external_controller := \<lparr>ec_host = ''0.0.0.0'', ec_port = new_allow_fallback 17650\<rparr>\<rparr>"

lemma shown_port: "show_nat 17650 = ''17650''" "port_of_address ''127.0.0.1:17650'' = Some 17650"
proof -
  show s: "show_nat 17650 = ''17650''" by (simp add: show_nat.simps char_of_eq_iff)
  show "port_of_address ''127.0.0.1:17650'' = Some 17650" using port_of_shown [of "''127.0.0.1''" 17650] s by simp
qed

lemmas demo_port_simps =
  resolve_ports_def resolve_fresh_def Let_def unchanged_def and_next_def pick_port_def pick_optional_def
  pick_and_try_port_def demo_scanner_def demo_clash_def demo_lan_def new_allow_fallback_def
  default_external_controller_def fingerprint_of_def request_open_def shown_port

theorem session_ports_stable_witness:
  "\<exists>ports. fst (resolve_ports demo_scanner demo_lan (fst (resolve_all demo_scanner [demo_clash] None 9000)) 9500) = Inr ports \<and>
     rp_mixed_port ports = 9000 \<and> rp_external_controller ports = Some ''0.0.0.0:17650''"
proof -
  let ?cached = "fst (resolve_all demo_scanner [demo_clash] None 9000)"
  let ?ports = "\<lparr>rp_mixed_port = 9000, rp_port = None, rp_socks_port = None, rp_external_controller = Some ''0.0.0.0:17650''\<rparr>"
  have r: "resolve_ports demo_scanner demo_lan ?cached 9500 = (Inr ?ports, Some (fingerprint_of demo_lan, ?ports), 9500)"
    by (simp add: demo_port_simps)
  from session_ports_stable [OF refl r] r show ?thesis by auto
qed

text \<open>An IPv6 host is written without brackets.\<close>

lemma ipv6_controller_unbracketed:
  "fst (resolve_ports demo_scanner
     (demo_clash\<lparr>cl_external_controller := \<lparr>ec_host = ''::1'', ec_port = new_allow_fallback 17650\<rparr>\<rparr>) None 9000) =
   Inr \<lparr>rp_mixed_port = 9000, rp_port = None, rp_socks_port = None, rp_external_controller = Some ''::1:17650''\<rparr>"
  by (simp add: demo_port_simps)

end
