(* ===== verification/Runtime_Builder.thy ===== *)
theory Runtime_Builder
  imports Pipeline_Executor Session_Ports
begin

text \<open>
  From the application's documents to the text of the configuration the core reads
  (\<^verbatim>\<open>tauri/src/enhance/runtime_builder.rs\<close>, \<^verbatim>\<open>artifact_bridge.rs\<close>, \<^verbatim>\<open>chain.rs\<close>, serializing of \<^verbatim>\<open>runtime/value/ser.rs\<close>).

  \<^item> Of the application settings the builder reads the core and one switch; the record has just these.
  \<^item> The texts of the built-in scripts are files beside the source, a parameter.
  \<^item> Writing YAML text is the library's, a field of \<open>BuildPorts\<close>.
\<close>

section \<open>Settings\<close>

datatype ClashCore = ClashPremium | ClashRsCore | Mihomo | MihomoAlpha | ClashRsAlpha | Meow

record NyanpasuAppConfig =
  ap_core :: ClashCore
  ap_enable_builtin_enhanced :: bool

record RuntimeBuildInput =
  ri_profiles :: Profiles
  ri_clash :: ClashConfig
  ri_app :: NyanpasuAppConfig
  ri_resolved_ports :: ResolvedPortBindings

record BuildPorts =
  bp_ports :: Ports
  bp_builtin_source :: "string \<Rightarrow> string"
  bp_to_yaml_text :: "(YamlValue \<times> YamlValue) list \<Rightarrow> anyhow + string"

datatype RuntimeBuildError = ValidationFailure "ProfileValidationError list" | PipelineFailure RuntimePipelineError

section \<open>The builder\<close>

definition MIHOMO_FAMILY :: "ClashCore list" where
  "MIHOMO_FAMILY = [Mihomo, MihomoAlpha, Meow]"

definition ALL_CORES :: "ClashCore list" where
  "ALL_CORES = [ClashPremium, ClashRsCore, Mihomo, MihomoAlpha, ClashRsAlpha, Meow]"

definition CLASH_RS_ONLY :: "ClashCore list" where
  "CLASH_RS_ONLY = [ClashRsCore]"

definition builtin_transforms_for :: "(string \<Rightarrow> string) \<Rightarrow> ClashCore \<Rightarrow> BuiltinTransform list" where
  "builtin_transforms_for source core =
     map (\<lambda>(gate, name, runtime, file). \<lparr>bt_name = name, bt_runtime = runtime, bt_source = source file\<rparr>)
       (filter (\<lambda>(gate, name, runtime, file). core \<in> set gate)
         [(MIHOMO_FAMILY, ''verge_hy_alpn'', JavaScript, ''./builtin/meta_hy_alpn.js''),
          (MIHOMO_FAMILY, ''verge_meta_guard'', JavaScript, ''./builtin/meta_guard.js''),
          (ALL_CORES, ''config_fixer'', JavaScript, ''./builtin/config_fixer.js''),
          (CLASH_RS_ONLY, ''clash_rs_comp'', Lua, ''./builtin/clash_rs_comp.lua'')])"

definition derive_tun_flavor :: "ClashCore \<Rightarrow> TunStack \<Rightarrow> TunFlavor" where
  "derive_tun_flavor core stack =
     (if core = ClashRsCore then ClashRs
      else Standard (if core = ClashPremium \<and> stack = Mixed then Gvisor else stack))"

definition pipeline_inputs :: "BuildPorts \<Rightarrow> RuntimeBuildInput \<Rightarrow> RuntimePipelineInputs" where
  "pipeline_inputs bp input =
     \<lparr>in_profiles = ri_profiles input,
      in_target = (case pr_current (ri_profiles input) of Some uid \<Rightarrow> TargetSelected uid | None \<Rightarrow> Bare),
      in_guard = \<lparr>gi_overrides = cl_overrides (ri_clash input), gi_ports = ri_resolved_ports input\<rparr>,
      in_whitelist_enabled = cl_enable_clash_fields (ri_clash input),
      in_tun = \<lparr>tun_enable = cl_enable_tun_mode (ri_clash input),
                tun_flavor = derive_tun_flavor (ap_core (ri_app input)) (cl_tun_stack (ri_clash input)),
                tun_windows_fake_ip_filter = False\<rparr>,
      in_builtin_transforms =
        (if ap_enable_builtin_enhanced (ri_app input)
         then builtin_transforms_for (bp_builtin_source bp) (ap_core (ri_app input)) else [])\<rparr>"

definition runtime_build :: "BuildPorts \<Rightarrow> RuntimeBuildInput \<Rightarrow> RuntimeBuildError + RuntimeArtifact" where
  "runtime_build bp input =
     (case validate (ri_profiles input) of
        Inl es \<Rightarrow> Inl (ValidationFailure es)
      | Inr u \<Rightarrow>
          (case execute (bp_ports bp) (pipeline_inputs bp input) of
             Inl e \<Rightarrow> Inl (PipelineFailure e)
           | Inr artifact \<Rightarrow> Inr artifact))"

section \<open>Configuration values as YAML\<close>

text \<open>\<^verbatim>\<open>impl Serialize for ConfigValue\<close>, into a YAML value.\<close>

fun to_yaml_value :: "ConfigValue \<Rightarrow> YamlValue" where
  "to_yaml_value Null = YNull"
| "to_yaml_value (Bool b) = YBool b"
| "to_yaml_value (Number (PosInt n)) = YNumber (YPosInt n)"
| "to_yaml_value (Number (NegInt i)) = YNumber (if i < 0 then YNegInt i else YPosInt (word_of_int i))"
| "to_yaml_value (Number (Float s)) = YNumber (YFloat (Finite s))"
| "to_yaml_value (String s) = YString s"
| "to_yaml_value (Array xs) = YSequence (map to_yaml_value xs)"
| "to_yaml_value (Object m) = YMapping (map (\<lambda>(k, v). (YString k, to_yaml_value v)) m)"

section \<open>Postprocessing output\<close>

datatype LogSpan = SpanLog | SpanInfo | SpanWarn | SpanError

type_synonym Logs = "(LogSpan \<times> string) list"

fun span :: "StepLogLevel \<Rightarrow> LogSpan" where
  "span LevelLog = SpanLog"
| "span LevelInfo = SpanInfo"
| "span LevelWarn = SpanWarn"
| "span LevelError = SpanError"

record PostProcessingOutput =
  pp_scopes :: "(string, (string, Logs) index_map) index_map"
  pp_global :: "(string, Logs) index_map"
  pp_advice :: Logs

definition nth_option :: "'a list \<Rightarrow> nat \<Rightarrow> 'a option" where
  "nth_option xs n = (if n < length xs then Some (xs ! n) else None)"

definition transform_uid_of :: "Profiles \<Rightarrow> ProfileId \<Rightarrow> u32 \<Rightarrow> string option" where
  "transform_uid_of profiles host step_index =
     (case get_item profiles host of
        None \<Rightarrow> None
      | Some item \<Rightarrow>
          (case it_definition item of
             Config config \<Rightarrow> nth_option (config_transforms config) (unat step_index)
           | _ \<Rightarrow> None))"

definition map_step_log ::
    "Profiles \<Rightarrow> string list \<Rightarrow> StepLog \<Rightarrow> PostProcessingOutput \<Rightarrow> PostProcessingOutput" where
  "map_step_log profiles builtin_names log out =
     (let logs = map (\<lambda>entry. (span (log_level entry), log_message entry)) (sl_entries log)
      in if logs = [] then out
         else case sl_key log of
           KeyScopedTransform host role step_index \<Rightarrow>
             let transform = (case transform_uid_of profiles host step_index of
                                Some t \<Rightarrow> t | None \<Rightarrow> ''step-'' @ show_nat (unat step_index));
                 scope = (case im_get (pp_scopes out) host of Some s \<Rightarrow> s | None \<Rightarrow> [])
             in out\<lparr>pp_scopes := im_insert host (im_insert transform logs scope) (pp_scopes out)\<rparr>
         | KeyGlobalTransform sel step_index \<Rightarrow>
             let uid = (case nth_option (pr_global_transforms profiles) (unat step_index) of
                          Some t \<Rightarrow> t | None \<Rightarrow> ''global-'' @ show_nat (unat step_index))
             in out\<lparr>pp_global := im_insert uid logs (pp_global out)\<rparr>
         | KeyBuiltinTransform sel step_index \<Rightarrow>
             let name = (case nth_option builtin_names (unat step_index) of
                           Some t \<Rightarrow> t | None \<Rightarrow> ''builtin-'' @ show_nat (unat step_index))
             in out\<lparr>pp_global := im_insert name logs (pp_global out)\<rparr>
         | _ \<Rightarrow> out\<lparr>pp_advice := pp_advice out @ logs\<rparr>)"

definition map_postprocessing :: "StepLog list \<Rightarrow> Profiles \<Rightarrow> string list \<Rightarrow> PostProcessingOutput" where
  "map_postprocessing step_logs profiles builtin_names =
     fold (map_step_log profiles builtin_names) step_logs \<lparr>pp_scopes = [], pp_global = [], pp_advice = []\<rparr>"

section \<open>The data of a snapshot\<close>

type_synonym YamlMapping = "(YamlValue \<times> YamlValue) list"

record RuntimeSnapshotData =
  sd_config :: YamlMapping
  sd_exists_keys :: "string list"
  sd_postprocessing_output :: PostProcessingOutput

definition runtime_snapshot_data_from_artifact ::
    "BuildPorts \<Rightarrow> RuntimeArtifact \<Rightarrow> Profiles \<Rightarrow> ClashCore \<Rightarrow> bool \<Rightarrow> anyhow + RuntimeSnapshotData" where
  "runtime_snapshot_data_from_artifact bp artifact profiles core builtin_enabled =
     (case to_yaml_value (ra_final_config artifact) of
        YMapping config \<Rightarrow>
          Inr \<lparr>sd_config = config, sd_exists_keys = ra_applied_fields artifact,
               sd_postprocessing_output =
                 map_postprocessing (ra_step_logs artifact) profiles
                   (if builtin_enabled then map bt_name (builtin_transforms_for (bp_builtin_source bp) core) else [])\<rparr>
      | _ \<Rightarrow> Inl ''final config is not a mapping'')"

section \<open>What the builder computes\<close>

lemma result_map_map: "(\<And>x. x \<in> set xs \<Longrightarrow> f (g x) = Inr (h x)) \<Longrightarrow> result_map f (map g xs) = Inr (map h xs)"
  by (induction xs) simp_all

text \<open>Numbers as \<^verbatim>\<open>serde_json\<close> keeps them: the negative form is for negative integers.\<close>

fun canonical :: "ConfigValue \<Rightarrow> bool" where
  "canonical (Number (NegInt i)) = (i < 0)"
| "canonical (Array xs) = list_all canonical xs"
| "canonical (Object m) = list_all (\<lambda>kv. canonical (snd kv)) m"
| "canonical _ = True"

lemma from_yaml_to_yaml: "value_wf v \<Longrightarrow> canonical v \<Longrightarrow> from_yaml_value (to_yaml_value v) = Inr v"
proof (induction v rule: to_yaml_value.induct)
  case (3 n)
  then show ?case by (auto simp: number_from_i64_def)
next
  case (4 i)
  then show ?case by (simp add: number_from_i64_def)
next
  case (7 xs)
  have "result_map from_yaml_value (map to_yaml_value xs) = Inr (map id xs)"
    using 7 by (intro result_map_map) (auto simp: list_all_iff)
  then show ?case by simp
next
  case (8 m)
  let ?f = "\<lambda>kv. case fst kv of
      YString k \<Rightarrow> (case from_yaml_value (snd kv) of Inl e \<Rightarrow> Inl e | Inr v \<Rightarrow> Inr (k, v)) | _ \<Rightarrow> Inl NonStringYamlKey"
  have "result_map ?f (map (\<lambda>(k, v). (YString k, to_yaml_value v)) m) = Inr (map id m)"
    using 8 by (intro result_map_map) (fastforce simp: list_all_iff)
  then show ?case using 8 by (simp add: im_collect_distinct)
qed simp_all

text \<open>C39: A configuration written as YAML and read back is itself, for every configuration value the program can
  hold: keys once per mapping, integers in the form of their sign.\<close>

theorem yaml_round_trip:
  assumes "value_wf v" and "canonical v"
  shows "from_yaml_value (to_yaml_value v) = Inr v"
  using assms by (rule from_yaml_to_yaml)

theorem yaml_round_trip_witness:
  "from_yaml_value (to_yaml_value (Object [(''port'', Number (PosInt 7890)), (''rules'', Array [Null, Number (NegInt (- 1))])])) =
     Inr (Object [(''port'', Number (PosInt 7890)), (''rules'', Array [Null, Number (NegInt (- 1))])])"
  by (rule yaml_round_trip) simp_all

text \<open>The configuration the documents stand for.\<close>

definition desired_config :: "BuildPorts \<Rightarrow> RuntimeBuildInput \<Rightarrow> RuntimeBuildError + ConfigValue" where
  "desired_config bp input =
     (case validate (ri_profiles input) of
        Inl es \<Rightarrow> Inl (ValidationFailure es)
      | Inr u \<Rightarrow> map_sum PipelineFailure (\<lambda>c. c) (pipeline_config (bp_ports bp) (pipeline_inputs bp input)))"

definition ports_ok :: "BuildPorts \<Rightarrow> RuntimeBuildInput \<Rightarrow> bool" where
  "ports_ok bp input \<longleftrightarrow>
     runner_wf (po_runner (bp_ports bp)) \<and> patch_law (po_json (bp_ports bp)) \<and>
     length (pipeline_keys (pipeline_inputs bp input)) \<le> Suc MAX_MATERIALIZE_DEPTH"

lemma pipeline_target_ok:
  "validate (ri_profiles input) = Inr () \<Longrightarrow>
     target_ok (in_profiles (pipeline_inputs bp input)) (in_target (pipeline_inputs bp input))"
  using validate_valid_document [of "ri_profiles input"]
  by (auto simp: target_ok_def pipeline_inputs_def valid_document_def split: option.splits)

lemma is_object_yaml: "is_object c \<Longrightarrow> \<exists>m. to_yaml_value c = YMapping m"
  by (cases c) (simp_all add: is_object_def)

lemma build_cases:
  assumes "ports_ok bp input"
  obtains e where "desired_config bp input = Inl e" "runtime_build bp input = Inl e"
  | a config where "desired_config bp input = Inr (ra_final_config a)" "runtime_build bp input = Inr a"
    "to_yaml_value (ra_final_config a) = YMapping config"
proof (cases "validate (ri_profiles input)")
  case (Inl es)
  then show thesis by (intro that(1) [of "ValidationFailure es"]) (simp_all add: desired_config_def runtime_build_def)
next
  case (Inr u)
  then have valid: "validate (ri_profiles input) = Inr ()" by simp
  then have v: "validate (in_profiles (pipeline_inputs bp input)) = Inr ()" by (simp add: pipeline_inputs_def)
  have laws: "runner_wf (po_runner (bp_ports bp))" "patch_law (po_json (bp_ports bp))"
    "length (pipeline_keys (pipeline_inputs bp input)) \<le> Suc MAX_MATERIALIZE_DEPTH"
    using assms by (simp_all add: ports_ok_def)
  show thesis
  proof (cases rule: execute_cases [OF v pipeline_target_ok [OF valid] laws])
    case (1 e)
    then show thesis using valid by (intro that(1) [of "PipelineFailure e"]) (simp_all add: desired_config_def runtime_build_def)
  next
    case (2 a c)
    have "is_object (ra_final_config a)"
      using 2(1,3) unfolding pipeline_config_def tail_config_def by simp (metis is_object_finalize)
    then obtain config where "to_yaml_value (ra_final_config a) = YMapping config" using is_object_yaml by blast
    then show thesis using 2 valid by (intro that(2) [of a config]) (simp_all add: desired_config_def runtime_build_def)
  qed
qed

section \<open>The product\<close>

fun build_message :: "RuntimeBuildError \<Rightarrow> anyhow" where
  "build_message (ValidationFailure es) = ''profiles snapshot failed validation''"
| "build_message (PipelineFailure e) = ''runtime pipeline failed''"

definition product_header :: string where
  "product_header = ''# Generated by Clash Nyanpasu'' @ [CHR 0x0A, CHR 0x0A]"

text \<open>The blocking task of \<^verbatim>\<open>regenerate_runtime_with\<close>: the data of the snapshot and the text of the product.\<close>

definition build_product :: "BuildPorts \<Rightarrow> RuntimeBuildInput \<Rightarrow> anyhow + RuntimeSnapshotData \<times> string" where
  "build_product bp input =
     (case runtime_build bp input of
        Inl e \<Rightarrow> Inl (build_message e)
      | Inr artifact \<Rightarrow>
          (case runtime_snapshot_data_from_artifact bp artifact (ri_profiles input) (ap_core (ri_app input))
                  (ap_enable_builtin_enhanced (ri_app input)) of
             Inl e \<Rightarrow> Inl e
           | Inr data \<Rightarrow>
               (case bp_to_yaml_text bp (sd_config data) of
                  Inl e \<Rightarrow> Inl e
                | Inr text \<Rightarrow> Inr (data, product_header @ text))))"

lemma build_product_desired:
  assumes "ports_ok bp input"
  shows "case desired_config bp input of
      Inl e \<Rightarrow> build_product bp input = Inl (build_message e)
    | Inr c \<Rightarrow> \<exists>data. to_yaml_value c = YMapping (sd_config data) \<and>
        build_product bp input =
          (case bp_to_yaml_text bp (sd_config data) of Inl e \<Rightarrow> Inl e | Inr text \<Rightarrow> Inr (data, product_header @ text))"
  using assms
proof (cases rule: build_cases)
  case (2 a config)
  let ?names = "if ap_enable_builtin_enhanced (ri_app input)
    then map bt_name (builtin_transforms_for (bp_builtin_source bp) (ap_core (ri_app input))) else []"
  let ?data = "\<lparr>sd_config = config, sd_exists_keys = ra_applied_fields a,
    sd_postprocessing_output = map_postprocessing (ra_step_logs a) (ri_profiles input) ?names\<rparr>"
  have "to_yaml_value (ra_final_config a) = YMapping (sd_config ?data)" using 2 by simp
  moreover have "build_product bp input =
      (case bp_to_yaml_text bp (sd_config ?data) of Inl e \<Rightarrow> Inl e | Inr text \<Rightarrow> Inr (?data, product_header @ text))"
    using 2 by (simp add: build_product_def runtime_snapshot_data_from_artifact_def)
  ultimately show ?thesis using 2(1) by (simp only: sum.case) blast
qed (simp add: build_product_def)

text \<open>C38: The product of a rebuild is the text of exactly the configuration the documents stand for: an invalid
  profile document, an unreadable file of the selected profile, or the text writer's own error are the only ways to fail;
  otherwise the data's mapping is the pipeline's final configuration and the product is its text after the header.\<close>

theorem build_product_exact:
  assumes "ports_ok bp input"
  shows "case desired_config bp input of
      Inl e \<Rightarrow> build_product bp input = Inl (build_message e)
    | Inr c \<Rightarrow> \<exists>data. to_yaml_value c = YMapping (sd_config data) \<and>
        build_product bp input =
          (case bp_to_yaml_text bp (sd_config data) of Inl e \<Rightarrow> Inl e | Inr text \<Rightarrow> Inr (data, product_header @ text))"
  using assms by (rule build_product_desired)

definition demo_build_ports :: BuildPorts where
  "demo_build_ports =
     \<lparr>bp_ports = demo_ports, bp_builtin_source = (\<lambda>f. f),
      bp_to_yaml_text = (\<lambda>m. Inr ''text'')\<rparr>"

definition demo_build_input :: RuntimeBuildInput where
  "demo_build_input =
     \<lparr>ri_profiles = demo_profiles, ri_clash = demo_clash,
      ri_app = \<lparr>ap_core = Mihomo, ap_enable_builtin_enhanced = True\<rparr>,
      ri_resolved_ports = \<lparr>rp_mixed_port = 9000, rp_port = None, rp_socks_port = None, rp_external_controller = None\<rparr>\<rparr>"

lemma demo_build_ok: "ports_ok demo_build_ports demo_build_input"
proof -
  have "length (pipeline_keys (pipeline_inputs demo_build_ports demo_build_input)) = 14" by code_simp
  then show ?thesis
    by (simp add: ports_ok_def runner_wf_def demo_build_ports_def demo_ports_def MAX_MATERIALIZE_DEPTH_def)
qed

theorem build_product_exact_witness:
  "\<exists>data. build_product demo_build_ports demo_build_input = Inr (data, product_header @ ''text'')"
proof -
  have "case desired_config demo_build_ports demo_build_input of Inl e \<Rightarrow> False | Inr c \<Rightarrow> True" by code_simp
  then obtain c where "desired_config demo_build_ports demo_build_input = Inr c" by (auto split: sum.splits)
  with build_product_exact [OF demo_build_ok] show ?thesis by (auto simp: demo_build_ports_def)
qed

end
