(* ===== verification/Runtime_Lifecycle.thy ===== *)
theory Runtime_Lifecycle
  imports Runtime_Builder
begin

text \<open>
  From a built configuration to the running core: the facade's runtime lifecycle (\<^verbatim>\<open>tauri/src/client/runtime.rs\<close>,
  the runtime part of \<^verbatim>\<open>client/mod.rs\<close> and \<^verbatim>\<open>client/rebuild.rs\<close>), the core lease (\<^verbatim>\<open>client/core_bridge.rs\<close>) and what
  it does to the core process (\<^verbatim>\<open>core/clash/core.rs\<close>).

  \<^item> Every operation holds \<^verbatim>\<open>rebuild_gate\<close> and the lease of the core from its first effect to its last, so one operation
    is one step of the world; an operation that fails on the way returns the world it left behind.
  \<^item> Every call to the outside asks \<open>cp_fate\<close> for its fate: it goes through, it reports an error with or without having
    had its effect, or (for a read) somebody else has replaced the file before.
  \<^item> A file content is a byte string; SHA-256, the YAML reader, the conversion of the legacy settings
    (\<^verbatim>\<open>bridge::typed_config_from_legacy_parts\<close>), the server address they name and the verdict of the core's checker are parameters.
  \<^item> The running core is known by its type, by the bytes it has loaded last and the patches sent to it since.
  \<^item> \<open>nc_checked\<close> records what the checker has accepted; no operation reads it.
\<close>

section \<open>Snapshots\<close>

record RuntimeSnapshot =
  sn_revision :: u64
  sn_target_core :: ClashCore
  sn_product_sha256 :: string
  sn_product_bytes :: string
  sn_data :: RuntimeSnapshotData

definition from_data :: "(string \<Rightarrow> string) \<Rightarrow> u64 \<Rightarrow> ClashCore \<Rightarrow> string \<Rightarrow> RuntimeSnapshotData \<Rightarrow> RuntimeSnapshot" where
  "from_data sha256 revision core bytes data =
     \<lparr>sn_revision = revision, sn_target_core = core, sn_product_sha256 = sha256 bytes,
      sn_product_bytes = bytes, sn_data = data\<rparr>"

definition identity_eq :: "RuntimeSnapshot \<Rightarrow> RuntimeSnapshot \<Rightarrow> bool" where
  "identity_eq a b \<longleftrightarrow>
     sn_revision a = sn_revision b \<and> sn_target_core a = sn_target_core b \<and> sn_product_sha256 a = sn_product_sha256 b"

record RuntimeLifecycleState =
  lf_promoted :: "RuntimeSnapshot option"
  lf_applied :: "RuntimeSnapshot option"

section \<open>Legacy drafts\<close>

record 'a Draft =
  dr_data :: 'a
  dr_draft :: "'a option"

definition draft_latest :: "'a Draft \<Rightarrow> 'a" where
  "draft_latest d = (case dr_draft d of None \<Rightarrow> dr_data d | Some x \<Rightarrow> x)"

definition draft_edit :: "('a \<Rightarrow> 'a) \<Rightarrow> 'a Draft \<Rightarrow> 'a Draft" where
  "draft_edit f d = d\<lparr>dr_draft := Some (f (draft_latest d))\<rparr>"

definition draft_apply :: "'a Draft \<Rightarrow> 'a Draft" where
  "draft_apply d = (case dr_draft d of Some x \<Rightarrow> \<lparr>dr_data = x, dr_draft = None\<rparr> | None \<Rightarrow> d)"

definition draft_discard :: "'a Draft \<Rightarrow> 'a Draft" where
  "draft_discard d = d\<lparr>dr_draft := None\<rparr>"

text \<open>Of the legacy settings, what is read here.\<close>

datatype ExternalControllerPortStrategy = ExternalFixed | ExternalRandom | ExternalAllowFallback

record IVerge =
  vg_clash_core :: "ClashCore option"
  vg_enable_random_port :: "bool option"
  vg_verge_mixed_port :: "u16 option"
  vg_clash_strategy :: "ExternalControllerPortStrategy option"

section \<open>The world\<close>

record RunningCore =
  rc_type :: ClashCore
  rc_bytes :: string
  rc_patches :: "YamlMapping list"

record 's Client =
  nc_clock :: nat
  nc_revisions :: u64
  nc_lifecycle :: RuntimeLifecycleState
  nc_product :: "string option"
  nc_candidates :: "string \<Rightarrow> string option"
  nc_core :: "RunningCore option"
  nc_checked :: "(ClashCore \<times> string) list"
  nc_port_cache :: PortCache
  nc_system :: 's
  nc_verge :: "IVerge Draft"
  nc_clash :: "YamlMapping Draft"
  nc_profiles :: Profiles
  nc_clash_config :: ClashConfig
  nc_app_config :: NyanpasuAppConfig

datatype ClientCall =
  BeginLease | PrivateDir | OpenCandidate | WriteCandidate | SyncCandidate | ReadCandidate | RemoveCandidate
| CheckConfig | WriteProduct | ReadProduct | RemoveProduct | StopCore | NewInstance | StartCore | PutConfigs | PatchConfigs
| GetProfiles | GetClashConfig | GetAppConfig | BuildTask | SaveVerge | SaveClash

datatype fate = Through | Refused bool | Swapped string

record 's ClientPorts =
  cp_fate :: "nat \<Rightarrow> ClientCall \<Rightarrow> fate"
  cp_build :: "nat \<Rightarrow> BuildPorts"
  cp_scanner :: "'s PortScanner"
  cp_sha256 :: "string \<Rightarrow> string"
  cp_parse_yaml :: "string \<Rightarrow> anyhow + YamlMapping"
  cp_typed_config :: "IVerge \<Rightarrow> YamlMapping \<Rightarrow> anyhow + NyanpasuAppConfig \<times> ClashConfig"
  cp_client_server :: "YamlMapping \<Rightarrow> string"
  cp_accepts :: "nat \<Rightarrow> ClashCore \<Rightarrow> string \<Rightarrow> bool"
  cp_nanoid :: "nat \<Rightarrow> nat \<Rightarrow> string"

type_synonym ('s, 'a) client = "'s Client \<Rightarrow> (anyhow + 'a) \<times> 's Client"

definition tick :: "'s Client \<Rightarrow> 's Client" where
  "tick w = w\<lparr>nc_clock := Suc (nc_clock w)\<rparr>"

definition done_with :: "'a \<Rightarrow> ('s, 'a) client" where
  "done_with x w = (Inr x, w)"

definition fail_with :: "anyhow \<Rightarrow> ('s, 'a) client" where
  "fail_with e w = (Inl e, w)"

definition io_error :: anyhow where
  "io_error = ''input/output error''"

text \<open>A call with an effect.\<close>

definition client_call :: "'s ClientPorts \<Rightarrow> ClientCall \<Rightarrow> anyhow \<Rightarrow> ('s Client \<Rightarrow> 's Client) \<Rightarrow> ('s, unit) client" where
  "client_call cp c msg effect w =
     (case cp_fate cp (nc_clock w) c of
        Refused had_effect \<Rightarrow> (Inl msg, if had_effect then effect (tick w) else tick w)
      | _ \<Rightarrow> (Inr (), effect (tick w)))"

definition with_lease :: "'s ClientPorts \<Rightarrow> ('s, 'a) client \<Rightarrow> ('s, 'a) client" where
  "with_lease cp m w = and_next (client_call cp BeginLease ''core lifecycle is not available'' (\<lambda>w. w) w) (\<lambda>_. m)"

section \<open>Revisions and candidates\<close>

definition allocate :: "('s, u64) client" where
  "allocate w =
     (if nc_revisions w = - 1 then (Inl ''runtime revision space exhausted'', w)
      else (Inr (nc_revisions w + 1), w\<lparr>nc_revisions := nc_revisions w + 1\<rparr>))"

record CandidateFile =
  cf_path :: string
  cf_bytes_sha256 :: string

definition set_candidate :: "string \<Rightarrow> string option \<Rightarrow> 's Client \<Rightarrow> 's Client" where
  "set_candidate path content w = w\<lparr>nc_candidates := (nc_candidates w)(path := content)\<rparr>"

fun create_candidate_with_names :: "'s ClientPorts \<Rightarrow> string \<Rightarrow> string list \<Rightarrow> ('s, CandidateFile) client" where
  "create_candidate_with_names cp bytes [] w =
     fail_with ''failed to allocate a unique runtime candidate after 16 attempts'' w"
| "create_candidate_with_names cp bytes (name # names) w =
     (let path = ''candidate-'' @ name @ ''.yaml''
      in if nc_candidates w path \<noteq> None then create_candidate_with_names cp bytes names (tick w)
         else
           and_next (client_call cp OpenCandidate io_error (set_candidate path (Some [])) w) (\<lambda>_ w.
           and_next (client_call cp WriteCandidate io_error (set_candidate path (Some bytes)) w) (\<lambda>_ w.
           and_next (client_call cp SyncCandidate io_error (\<lambda>w. w) w) (\<lambda>_.
           done_with \<lparr>cf_path = path, cf_bytes_sha256 = cp_sha256 cp bytes\<rparr>))))"

definition create_candidate :: "'s ClientPorts \<Rightarrow> string \<Rightarrow> ('s, CandidateFile) client" where
  "create_candidate cp bytes w =
     (let names = map (cp_nanoid cp (nc_clock w)) [0..<16]
      in and_next (client_call cp PrivateDir ''runtime candidate path is not a private directory'' (\<lambda>w. w) w)
           (\<lambda>_. create_candidate_with_names cp bytes names))"

text \<open>Dropping a candidate that was not cleaned tries to remove it once more.\<close>

definition drop_candidate :: "'s ClientPorts \<Rightarrow> CandidateFile \<Rightarrow> 's Client \<Rightarrow> 's Client" where
  "drop_candidate cp candidate w = snd (client_call cp RemoveCandidate io_error (set_candidate (cf_path candidate) None) w)"

definition cleanup_candidate :: "'s ClientPorts \<Rightarrow> CandidateFile \<Rightarrow> 's Client \<Rightarrow> 's Client" where
  "cleanup_candidate cp candidate w =
     (if nc_candidates w (cf_path candidate) = None then tick w
      else case client_call cp RemoveCandidate io_error (set_candidate (cf_path candidate) None) w of
             (Inr u, w') \<Rightarrow> w'
           | (Inl e, w') \<Rightarrow> drop_candidate cp candidate w')"

definition read_candidate :: "'s ClientPorts \<Rightarrow> CandidateFile \<Rightarrow> ('s, string) client" where
  "read_candidate cp candidate w =
     (case cp_fate cp (nc_clock w) ReadCandidate of
        Refused b \<Rightarrow> (Inl io_error, tick w)
      | Swapped content \<Rightarrow> (Inr content, set_candidate (cf_path candidate) (Some content) (tick w))
      | Through \<Rightarrow>
          (case nc_candidates w (cf_path candidate) of None \<Rightarrow> (Inl io_error, tick w) | Some content \<Rightarrow> (Inr content, tick w)))"

text \<open>\<open>None\<close> is a file that does not exist.\<close>

definition read_product :: "'s ClientPorts \<Rightarrow> ('s, string option) client" where
  "read_product cp w =
     (case cp_fate cp (nc_clock w) ReadProduct of
        Refused b \<Rightarrow> (Inl io_error, tick w)
      | Swapped content \<Rightarrow> (Inr (Some content), (tick w)\<lparr>nc_product := Some content\<rparr>)
      | Through \<Rightarrow> (Inr (nc_product w), tick w))"

definition read_existing_product :: "'s ClientPorts \<Rightarrow> ('s, string) client" where
  "read_existing_product cp w =
     and_next (read_product cp w) (\<lambda>content. case content of Some bytes \<Rightarrow> done_with bytes | None \<Rightarrow> fail_with io_error)"

definition ensure :: "bool \<Rightarrow> anyhow \<Rightarrow> ('s, unit) client" where
  "ensure b msg = (if b then done_with () else fail_with msg)"

section \<open>The lease of the core\<close>

definition check_config :: "'s ClientPorts \<Rightarrow> CandidateFile \<Rightarrow> ClashCore \<Rightarrow> ('s, unit) client" where
  "check_config cp candidate core w =
     and_next (client_call cp CheckConfig ''failed to check config'' (\<lambda>w. w) w) (\<lambda>_ w'.
       case nc_candidates w' (cf_path candidate) of
         None \<Rightarrow> fail_with ''failed to check config'' w'
       | Some bytes \<Rightarrow>
           if cp_accepts cp (nc_clock w) core bytes then done_with () (w'\<lparr>nc_checked := (core, bytes) # nc_checked w'\<rparr>)
           else fail_with ''failed to check config'' w')"

definition restore_product :: "'s ClientPorts \<Rightarrow> string \<Rightarrow> ('s, unit) client" where
  "restore_product cp bytes = client_call cp WriteProduct ''failed to promote runtime config'' (nc_product_update (\<lambda>_. Some bytes))"

definition check_and_promote :: "'s ClientPorts \<Rightarrow> CandidateFile \<Rightarrow> ClashCore \<Rightarrow> ('s, string) client" where
  "check_and_promote cp candidate core w =
     and_next (read_candidate cp candidate w) (\<lambda>bytes w.
     and_next (check_config cp candidate core w) (\<lambda>_ w.
     and_next (read_candidate cp candidate w) (\<lambda>after w.
     and_next (ensure (after = bytes) ''candidate config changed between check and promote'' w) (\<lambda>_ w.
     and_next (ensure (cp_sha256 cp bytes = cf_bytes_sha256 candidate) ''candidate config hash changed before promotion'' w) (\<lambda>_ w.
     and_next (restore_product cp bytes w) (\<lambda>_ w.
     and_next (read_existing_product cp w) (\<lambda>promoted w.
     and_next (ensure (cp_sha256 cp promoted = cf_bytes_sha256 candidate)
                 ''promoted runtime product hash does not match candidate'' w) (\<lambda>_.
     done_with (cp_sha256 cp promoted)))))))))"

text \<open>\<^verbatim>\<open>PUT /configs\<close> with the path of a file, which the core loads.\<close>

definition put_configs :: "'s ClientPorts \<Rightarrow> ('s Client \<Rightarrow> string option) \<Rightarrow> ('s, unit) client" where
  "put_configs cp file w =
     (case (nc_core w, file w) of
        (Some core, Some bytes) \<Rightarrow>
          client_call cp PutConfigs ''put configs failed''
            (nc_core_update (\<lambda>_. Some (core\<lparr>rc_bytes := bytes, rc_patches := []\<rparr>))) w
      | _ \<Rightarrow> (Inl ''put configs failed'', tick w))"

primrec put_attempts :: "'s ClientPorts \<Rightarrow> ('s Client \<Rightarrow> string option) \<Rightarrow> nat \<Rightarrow> ('s, unit) client" where
  "put_attempts cp file 0 w = (Inr (), w)"
| "put_attempts cp file (Suc n) w =
     (case put_configs cp file w of
        (Inr u, w') \<Rightarrow> (Inr (), w')
      | (Inl e, w') \<Rightarrow> if n = 0 then (Inl e, w') else put_attempts cp file n w')"

definition apply_config_from :: "'s ClientPorts \<Rightarrow> ('s Client \<Rightarrow> string option) \<Rightarrow> ('s, unit) client" where
  "apply_config_from cp file = put_attempts cp file 5"

definition apply_candidate :: "'s ClientPorts \<Rightarrow> CandidateFile \<Rightarrow> ClashCore \<Rightarrow> ('s, unit) client" where
  "apply_candidate cp candidate core w =
     and_next (read_candidate cp candidate w) (\<lambda>bytes w.
     and_next (ensure (cp_sha256 cp bytes = cf_bytes_sha256 candidate) ''candidate config hash changed before check'' w) (\<lambda>_ w.
     and_next (check_config cp candidate core w) (\<lambda>_ w.
     and_next (read_candidate cp candidate w) (\<lambda>after w.
     and_next (ensure (after = bytes) ''candidate config changed between check and apply'' w) (\<lambda>_.
     apply_config_from cp (\<lambda>w. nc_candidates w (cf_path candidate)))))))"

definition apply_promoted :: "'s ClientPorts \<Rightarrow> ('s, unit) client" where
  "apply_promoted cp = apply_config_from cp nc_product"

definition stop_running :: "'s ClientPorts \<Rightarrow> ('s, unit) client" where
  "stop_running cp w =
     (if nc_core w \<noteq> None then client_call cp StopCore ''failed to stop the core'' (nc_core_update (\<lambda>_. None)) w
      else done_with () w)"

definition selected_core :: "IVerge \<Rightarrow> ClashCore" where
  "selected_core v = (case vg_clash_core v of Some c \<Rightarrow> c | None \<Rightarrow> ClashPremium)"

definition start_core :: "'s ClientPorts \<Rightarrow> ClashCore \<Rightarrow> ('s, unit) client" where
  "start_core cp core w =
     (case nc_product w of
        None \<Rightarrow> (Inl ''failed to start the core'', tick w)
      | Some bytes \<Rightarrow>
          client_call cp StartCore ''failed to start the core''
            (nc_core_update (\<lambda>_. Some \<lparr>rc_type = core, rc_bytes = bytes, rc_patches = []\<rparr>)) w)"

text \<open>\<^verbatim>\<open>run_core_with_lease\<close>: the type of the new instance is the selected core of the legacy settings, drafts included.\<close>

definition restart :: "'s ClientPorts \<Rightarrow> ('s, unit) client" where
  "restart cp w =
     and_next (stop_running cp w) (\<lambda>_ w.
     let core = selected_core (draft_latest (nc_verge w))
     in and_next (client_call cp NewInstance ''failed to prepare the core'' (\<lambda>w. w) w) (\<lambda>_. start_core cp core))"

section \<open>Publishing\<close>

definition set_lifecycle :: "(RuntimeLifecycleState \<Rightarrow> RuntimeLifecycleState) \<Rightarrow> 's Client \<Rightarrow> 's Client" where
  "set_lifecycle f w = w\<lparr>nc_lifecycle := f (nc_lifecycle w)\<rparr>"

definition publish_promoted :: "RuntimeSnapshot \<Rightarrow> ('s, unit) client" where
  "publish_promoted snapshot w =
     (case lf_promoted (nc_lifecycle w) of
        Some current \<Rightarrow>
          if sn_revision snapshot \<le> sn_revision current then fail_with ''runtime promoted revision must advance'' w
          else done_with () (set_lifecycle (lf_promoted_update (\<lambda>_. Some snapshot)) w)
      | None \<Rightarrow> done_with () (set_lifecycle (lf_promoted_update (\<lambda>_. Some snapshot)) w))"

definition publish_applied :: "RuntimeSnapshot \<Rightarrow> ('s, unit) client" where
  "publish_applied snapshot w =
     (case lf_promoted (nc_lifecycle w) of
        None \<Rightarrow> fail_with ''cannot publish applied runtime without promoted runtime'' w
      | Some promoted \<Rightarrow>
          if identity_eq promoted snapshot then done_with () (set_lifecycle (lf_applied_update (\<lambda>_. Some snapshot)) w)
          else fail_with ''cannot publish stale applied runtime revision'' w)"

definition restore_promoted :: "RuntimeSnapshot option \<Rightarrow> ('s, unit) client" where
  "restore_promoted promoted w = done_with () (set_lifecycle (lf_promoted_update (\<lambda>_. promoted)) w)"

section \<open>Regenerating\<close>

text \<open>\<^verbatim>\<open>SessionPortResolver::resolve\<close>, on the cache of the client.\<close>

definition resolve_session_ports :: "'s ClientPorts \<Rightarrow> ClashConfig \<Rightarrow> ('s, ResolvedPortBindings) client" where
  "resolve_session_ports cp clash w =
     (case resolve_ports (cp_scanner cp) clash (nc_port_cache w) (nc_system w) of
        (r, cache, s) \<Rightarrow> (r, w\<lparr>nc_port_cache := cache, nc_system := s\<rparr>))"

definition lift_result :: "anyhow + 'a \<Rightarrow> ('s, 'a) client" where
  "lift_result r w = (r, w)"

text \<open>From a finished product to the Promoted runtime: candidate, check, promote, publish.\<close>

definition promote_snapshot :: "'s ClientPorts \<Rightarrow> CandidateFile \<Rightarrow> RuntimeSnapshot \<Rightarrow> ('s, unit) client" where
  "promote_snapshot cp candidate snapshot w =
     (case check_and_promote cp candidate (sn_target_core snapshot) w of
        (checked, w') \<Rightarrow>
          and_next (checked, cleanup_candidate cp candidate w') (\<lambda>_. publish_promoted snapshot))"

definition regenerate_runtime_with ::
    "'s ClientPorts \<Rightarrow> u64 \<Rightarrow> Profiles \<Rightarrow> ClashConfig \<Rightarrow> NyanpasuAppConfig \<Rightarrow> ('s, RuntimeSnapshot) client" where
  "regenerate_runtime_with cp revision profiles clash app w =
     and_next (resolve_session_ports cp clash w) (\<lambda>ports w.
     and_next (client_call cp BuildTask ''runtime build task failed'' (\<lambda>w. w) w) (\<lambda>_ w'.
     and_next (lift_result (build_product (cp_build cp (nc_clock w))
                 \<lparr>ri_profiles = profiles, ri_clash = clash, ri_app = app, ri_resolved_ports = ports\<rparr>) w')
       (\<lambda>(data, product_bytes) w.
     let snapshot = from_data (cp_sha256 cp) revision (ap_core app) product_bytes data
     in and_next (create_candidate cp product_bytes w) (\<lambda>candidate w.
        if cf_bytes_sha256 candidate \<noteq> sn_product_sha256 snapshot
        then fail_with ''runtime snapshot hash does not match candidate bytes'' (drop_candidate cp candidate w)
        else and_next (promote_snapshot cp candidate snapshot w) (\<lambda>_. done_with snapshot)))))"

definition regenerate_runtime_inner :: "'s ClientPorts \<Rightarrow> ('s, RuntimeSnapshot) client" where
  "regenerate_runtime_inner cp w =
     and_next (allocate w) (\<lambda>revision w.
     and_next (client_call cp GetProfiles ''profiles actor is gone'' (\<lambda>w. w) w) (\<lambda>_ w.
     let profiles = nc_profiles w
     in and_next (client_call cp GetClashConfig ''clash config actor is gone'' (\<lambda>w. w) w) (\<lambda>_ w.
     let clash = nc_clash_config w
     in and_next (client_call cp GetAppConfig ''application actor is gone'' (\<lambda>w. w) w) (\<lambda>_ w.
     regenerate_runtime_with cp revision profiles clash (nc_app_config w) w))))"

definition legacy_regen_inputs :: "'s ClientPorts \<Rightarrow> 's Client \<Rightarrow> anyhow + NyanpasuAppConfig \<times> ClashConfig" where
  "legacy_regen_inputs cp w = cp_typed_config cp (draft_latest (nc_verge w)) (draft_latest (nc_clash w))"

definition regenerate_for_legacy_inner :: "'s ClientPorts \<Rightarrow> ('s, RuntimeSnapshot) client" where
  "regenerate_for_legacy_inner cp w =
     and_next (allocate w) (\<lambda>revision w.
     and_next (lift_result (legacy_regen_inputs cp w) w) (\<lambda>(app, clash) w.
     and_next (client_call cp GetProfiles ''profiles actor is gone'' (\<lambda>w. w) w) (\<lambda>_ w.
     regenerate_runtime_with cp revision (nc_profiles w) clash app w)))"

section \<open>Operations of the facade\<close>

definition regenerate_runtime :: "'s ClientPorts \<Rightarrow> ('s, unit) client" where
  "regenerate_runtime cp = with_lease cp (\<lambda>w. and_next (regenerate_runtime_inner cp w) (\<lambda>_. done_with ()))"

definition regenerate_runtime_for_legacy :: "'s ClientPorts \<Rightarrow> ('s, unit) client" where
  "regenerate_runtime_for_legacy cp =
     with_lease cp (\<lambda>w. and_next (regenerate_for_legacy_inner cp w) (\<lambda>_. done_with ()))"

definition rebuild_running_config :: "'s ClientPorts \<Rightarrow> ('s, unit) client" where
  "rebuild_running_config cp =
     with_lease cp (\<lambda>w.
       and_next (regenerate_runtime_inner cp w) (\<lambda>promoted w.
       and_next (apply_promoted cp w) (\<lambda>_. publish_applied promoted)))"

definition regenerate_and_apply_for_legacy :: "'s ClientPorts \<Rightarrow> ('s, unit) client" where
  "regenerate_and_apply_for_legacy cp =
     with_lease cp (\<lambda>w.
       and_next (regenerate_for_legacy_inner cp w) (\<lambda>promoted w.
       and_next (apply_promoted cp w) (\<lambda>_. publish_applied promoted)))"

definition regenerate_and_restart_for_legacy :: "'s ClientPorts \<Rightarrow> ('s, unit) client" where
  "regenerate_and_restart_for_legacy cp =
     with_lease cp (\<lambda>w.
       and_next (regenerate_for_legacy_inner cp w) (\<lambda>promoted w.
       and_next (restart cp w) (\<lambda>_. publish_applied promoted)))"

definition start_promoted_runtime :: "'s ClientPorts \<Rightarrow> ('s, unit) client" where
  "start_promoted_runtime cp w =
     (case lf_promoted (nc_lifecycle w) of
        None \<Rightarrow> fail_with ''cannot start core without a promoted runtime'' w
      | Some promoted \<Rightarrow>
          with_lease cp (\<lambda>w. and_next (restart cp w) (\<lambda>_. publish_applied promoted)) w)"

definition yaml_string_keys :: "YamlMapping \<Rightarrow> string list" where
  "yaml_string_keys m = List.map_filter (\<lambda>(k, v). case k of YString s \<Rightarrow> Some s | _ \<Rightarrow> None) m"

definition plain_data :: "YamlMapping \<Rightarrow> RuntimeSnapshotData" where
  "plain_data config =
     \<lparr>sd_config = config, sd_exists_keys = yaml_string_keys config,
      sd_postprocessing_output = \<lparr>pp_scopes = [], pp_global = [], pp_advice = []\<rparr>\<rparr>"

text \<open>The lease is taken after the candidate was written; a candidate that is not handed on is dropped.\<close>

definition promote_with_lease :: "'s ClientPorts \<Rightarrow> RuntimeSnapshot \<Rightarrow> ('s, unit) client" where
  "promote_with_lease cp snapshot w =
     and_next (create_candidate cp (sn_product_bytes snapshot) w) (\<lambda>candidate w.
       case client_call cp BeginLease ''core lifecycle is not available'' (\<lambda>w. w) w of
         (Inl e, w') \<Rightarrow> (Inl e, drop_candidate cp candidate w')
       | (Inr u, w') \<Rightarrow> promote_snapshot cp candidate snapshot w')"

definition promote_existing_runtime_product :: "'s ClientPorts \<Rightarrow> ('s, RuntimeSnapshot) client" where
  "promote_existing_runtime_product cp w =
     and_next (allocate w) (\<lambda>revision w.
     and_next (read_existing_product cp w) (\<lambda>bytes w.
     and_next (lift_result (cp_parse_yaml cp bytes) w) (\<lambda>config w.
     and_next (client_call cp GetAppConfig ''application actor is gone'' (\<lambda>w. w) w) (\<lambda>_ w.
     let snapshot = from_data (cp_sha256 cp) revision (ap_core (nc_app_config w)) bytes (plain_data config)
     in and_next (promote_with_lease cp snapshot w) (\<lambda>_. done_with snapshot)))))"

definition fallback_header :: string where
  "fallback_header = ''# Clash Nyanpasu Runtime (default fallback)'' @ [CHR 0x0A, CHR 0x0A]"

definition promote_default_runtime_config :: "'s ClientPorts \<Rightarrow> ('s, unit) client" where
  "promote_default_runtime_config cp w =
     and_next (allocate w) (\<lambda>revision w.
     let mapping = draft_latest (nc_clash w)
     in and_next (lift_result (legacy_regen_inputs cp w) w) (\<lambda>(app, clash) w.
        and_next (lift_result (bp_to_yaml_text (cp_build cp (nc_clock w)) mapping) w) (\<lambda>yaml.
        promote_with_lease cp (from_data (cp_sha256 cp) revision (ap_core app) (fallback_header @ yaml) (plain_data mapping)))))"

section \<open>Switching the core\<close>

definition discard_verge :: "'s Client \<Rightarrow> 's Client" where
  "discard_verge = nc_verge_update draft_discard"

text \<open>The product before the switch comes back; without one before, the file is removed.\<close>

definition restore_captured_product :: "'s ClientPorts \<Rightarrow> string option \<Rightarrow> ('s, unit) client" where
  "restore_captured_product cp product w =
     (case product of
        Some bytes \<Rightarrow> restore_product cp bytes w
      | None \<Rightarrow>
          if nc_product w = None then done_with () (tick w)
          else client_call cp RemoveProduct io_error (nc_product_update (\<lambda>_. None)) w)"

definition roll_back_core ::
    "'s ClientPorts \<Rightarrow> string option \<Rightarrow> RuntimeLifecycleState \<Rightarrow> anyhow \<Rightarrow> ('s, unit) client" where
  "roll_back_core cp product lifecycle new_core_error w =
     (case regenerate_for_legacy_inner cp (discard_verge w) of
        (Inr rollback_snapshot, w) \<Rightarrow>
          (case restart cp w of
             (Inl restart_error, w) \<Rightarrow> fail_with (''old core restart failed after rollback: '' @ restart_error) w
           | (Inr u, w) \<Rightarrow> and_next (publish_applied rollback_snapshot w) (\<lambda>_. fail_with new_core_error))
      | (Inl rebuild_error, w) \<Rightarrow>
          (case restore_captured_product cp product w of
             (Inl restore_error, w) \<Rightarrow> fail_with (''product restore failed: '' @ restore_error @ ''; core left stopped'') w
           | (Inr u, w) \<Rightarrow>
               and_next (restore_promoted (lf_promoted lifecycle) w) (\<lambda>_ w.
                 case restart cp w of
                   (Inl restart_error, w) \<Rightarrow> fail_with (''old core restart failed: '' @ restart_error) w
                 | (Inr u, w) \<Rightarrow>
                     and_next (case lf_promoted lifecycle of
                                 Some restored \<Rightarrow> publish_applied restored w
                               | None \<Rightarrow> done_with () w)
                       (\<lambda>_. fail_with (''rollback rebuild failed: '' @ rebuild_error @ ''; restored previous product'')))))"

definition change_core :: "'s ClientPorts \<Rightarrow> ClashCore \<Rightarrow> ('s, unit) client" where
  "change_core cp new_core = with_lease cp (\<lambda>w.
     and_next (read_product cp w) (\<lambda>product w.
     let lifecycle = nc_lifecycle w;
         w = w\<lparr>nc_verge := draft_edit (vg_clash_core_update (\<lambda>_. Some new_core)) (nc_verge w)\<rparr>
     in case regenerate_for_legacy_inner cp w of
          (Inl e, w) \<Rightarrow> fail_with e (discard_verge w)
        | (Inr new_snapshot, w) \<Rightarrow>
            (case restart cp w of
               (Inr u, w) \<Rightarrow>
                 publish_applied new_snapshot
                   (snd (client_call cp SaveVerge io_error (\<lambda>w. w) (w\<lparr>nc_verge := draft_apply (nc_verge w)\<rparr>)))
             | (Inl new_core_error, w) \<Rightarrow> roll_back_core cp product lifecycle new_core_error w)))"

text \<open>The watchdog: a core that ended on its own is started again on the product.\<close>

definition recover_core :: "'s ClientPorts \<Rightarrow> ('s, unit) client" where
  "recover_core cp w = restart cp w"

section \<open>What the calls leave alone\<close>

definition undisturbed :: "'s ClientPorts \<Rightarrow> bool" where
  "undisturbed cp \<longleftrightarrow> (\<forall>n c b. cp_fate cp n c \<noteq> Swapped b)"

text \<open>A call that reports an error had no effect, and the product can be read.\<close>

definition clean_faults :: "'s ClientPorts \<Rightarrow> bool" where
  "clean_faults cp \<longleftrightarrow> undisturbed cp \<and> (\<forall>n c. cp_fate cp n c \<noteq> Refused True) \<and> (\<forall>n b. cp_fate cp n ReadProduct \<noteq> Refused b)"

lemma and_next_cases:
  "and_next p k = (r, w') \<longleftrightarrow>
     (\<exists>e. p = (Inl e, w') \<and> r = Inl e) \<or> (\<exists>x w0. p = (Inr x, w0) \<and> k x w0 = (r, w'))"
  by (cases p) (auto simp: and_next_def split: sum.splits)

lemma client_call_cases:
  assumes "client_call cp c msg f w = (r, w')"
  obtains "r = Inr ()" "w' = f (tick w)"
  | "r = Inl msg" "w' = tick w"
  | "r = Inl msg" "w' = f (tick w)" "\<not> clean_faults cp"
  using assms by (auto simp: client_call_def clean_faults_def split: fate.splits if_splits)

lemmas step_defs = done_with_def fail_with_def ensure_def lift_result_def tick_def set_candidate_def set_lifecycle_def

text \<open>All but the disk, the ports and the clock; then also the product.\<close>

definition same_rest :: "'s Client \<Rightarrow> 's Client \<Rightarrow> bool" where
  "same_rest w w' \<longleftrightarrow>
     nc_verge w' = nc_verge w \<and> nc_clash w' = nc_clash w \<and> nc_profiles w' = nc_profiles w \<and>
     nc_clash_config w' = nc_clash_config w \<and> nc_app_config w' = nc_app_config w \<and>
     nc_revisions w \<le> nc_revisions w' \<and> set (nc_checked w) \<subseteq> set (nc_checked w')"

definition kept :: "'s Client \<Rightarrow> 's Client \<Rightarrow> bool" where
  "kept w w' \<longleftrightarrow> same_rest w w' \<and> nc_core w' = nc_core w \<and> nc_lifecycle w' = nc_lifecycle w \<and> nc_revisions w' = nc_revisions w"

definition kept_product :: "'s Client \<Rightarrow> 's Client \<Rightarrow> bool" where
  "kept_product w w' \<longleftrightarrow> kept w w' \<and> nc_product w' = nc_product w"

lemma same_rest_refl [simp]: "same_rest w w"
  by (simp add: same_rest_def)

lemma same_rest_trans [trans]: "same_rest a b \<Longrightarrow> same_rest b c \<Longrightarrow> same_rest a c"
  by (auto simp: same_rest_def)

lemma kept_refl [simp]: "kept w w" "kept_product w w"
  by (simp_all add: kept_def kept_product_def)

lemma kept_trans [trans]: "kept a b \<Longrightarrow> kept b c \<Longrightarrow> kept a c"
  using same_rest_trans by (auto simp: kept_def)

lemma kept_product_trans [trans]: "kept_product a b \<Longrightarrow> kept_product b c \<Longrightarrow> kept_product a c"
  using kept_trans by (auto simp: kept_product_def)

lemma kept_product_tick [simp]: "kept_product w (tick w)"
  by (simp add: kept_product_def kept_def same_rest_def tick_def)

lemma kept_product_candidate [simp]: "kept_product w (set_candidate p c w)"
  by (simp add: kept_product_def kept_def same_rest_def set_candidate_def)

lemma kept_product_call: "client_call cp c msg f w = (r, w') \<Longrightarrow> (\<And>w. kept_product w (f w)) \<Longrightarrow> kept_product w w'"
  by (erule client_call_cases) (auto intro: kept_product_trans [OF kept_product_tick])

lemma call_tick: "client_call cp c msg (\<lambda>w. w) w = (r, w') \<Longrightarrow> w' = tick w"
  by (erule client_call_cases) auto

lemma create_candidate_with_names_keeps:
  "create_candidate_with_names cp bytes names w = (r, w') \<Longrightarrow>
     kept_product w w' \<and>
     (\<forall>c. r = Inr c \<longrightarrow> nc_candidates w' (cf_path c) = Some bytes \<and> cf_bytes_sha256 c = cp_sha256 cp bytes)"
proof (induction names arbitrary: w)
  case Nil
  then show ?case by (auto simp: fail_with_def)
next
  case (Cons name names)
  let ?path = "''candidate-'' @ name @ ''.yaml''"
  show ?case
  proof (cases "nc_candidates w ?path")
    case None
    show ?thesis using Cons.prems None
      by (auto simp: Let_def and_next_cases done_with_def set_candidate_def dest!: call_tick simp: tick_def
          elim!: client_call_cases) (simp_all add: kept_product_def kept_def same_rest_def)
  next
    case (Some b)
    then show ?thesis using Cons.prems Cons.IH [of "tick w"] kept_product_trans [OF kept_product_tick [of w]]
      by (auto simp: Let_def)
  qed
qed

lemma create_candidate_keeps:
  assumes "create_candidate cp bytes w = (r, w')"
  shows "kept_product w w'"
    and "r = Inr c \<Longrightarrow> nc_candidates w' (cf_path c) = Some bytes \<and> cf_bytes_sha256 c = cp_sha256 cp bytes"
  using assms kept_product_trans [OF kept_product_tick [of w]]
  by (auto simp: create_candidate_def Let_def and_next_cases dest!: call_tick create_candidate_with_names_keeps)

lemma drop_candidate_keeps: "kept_product w (drop_candidate cp c w)"
  unfolding drop_candidate_def
  by (cases "client_call cp RemoveCandidate io_error (set_candidate (cf_path c) None) w") (auto dest: kept_product_call)

lemma cleanup_candidate_keeps: "kept_product w (cleanup_candidate cp c w)"
  unfolding cleanup_candidate_def using kept_product_trans [OF _ drop_candidate_keeps]
  by (auto split: prod.splits sum.splits dest!: kept_product_call)

lemma read_candidate_keeps:
  assumes "read_candidate cp c w = (r, w')"
  shows "kept_product w w'"
    and "undisturbed cp \<Longrightarrow> nc_candidates w' = nc_candidates w \<and> (\<forall>b. r = Inr b \<longrightarrow> nc_candidates w (cf_path c) = Some b)"
  using assms kept_product_trans [OF kept_product_tick kept_product_candidate]
  by (auto simp: read_candidate_def undisturbed_def split: fate.splits option.splits) (simp_all add: tick_def)

lemma check_config_keeps:
  assumes "check_config cp c core w = (r, w')"
  shows "kept_product w w' \<and> nc_candidates w' = nc_candidates w \<and>
    (\<forall>u. r = Inr u \<longrightarrow> (\<exists>b. nc_candidates w (cf_path c) = Some b \<and> (core, b) \<in> set (nc_checked w')))"
proof -
  obtain r0 w0 where 0: "client_call cp CheckConfig ''failed to check config'' (\<lambda>w. w) w = (r0, w0)"
    by (cases "client_call cp CheckConfig ''failed to check config'' (\<lambda>w. w) w")
  then have w0: "w0 = tick w" by (rule call_tick)
  have e: "check_config cp c core w =
      (case r0 of Inl e \<Rightarrow> (Inl e, tick w)
       | Inr u \<Rightarrow> (case nc_candidates (tick w) (cf_path c) of
           None \<Rightarrow> fail_with ''failed to check config'' (tick w)
         | Some bytes \<Rightarrow>
             if cp_accepts cp (nc_clock w) core bytes
             then done_with () ((tick w)\<lparr>nc_checked := (core, bytes) # nc_checked (tick w)\<rparr>)
             else fail_with ''failed to check config'' (tick w)))"
    unfolding check_config_def 0 w0 and_next_def by simp
  have t: "nc_candidates (tick w) = nc_candidates w" by (simp add: tick_def)
  have k: "kept_product w ((tick w)\<lparr>nc_checked := x # nc_checked (tick w)\<rparr>)" for x
    by (auto simp: kept_product_def kept_def same_rest_def tick_def)
  show ?thesis using assms k unfolding e t
    by (cases r0; cases "nc_candidates w (cf_path c)") (auto simp: done_with_def fail_with_def t split: if_splits)
qed

lemma read_product_keeps:
  assumes "read_product cp w = (r, w')"
  shows "kept w w' \<and> nc_candidates w' = nc_candidates w"
    and "undisturbed cp \<Longrightarrow> kept_product w w' \<and> (\<forall>p. r = Inr p \<longrightarrow> p = nc_product w)"
    and "clean_faults cp \<Longrightarrow> r = Inr (nc_product w)"
  using assms
  by (auto simp: read_product_def undisturbed_def clean_faults_def kept_product_def kept_def same_rest_def tick_def
      split: fate.splits)

lemma read_existing_product_keeps:
  assumes "read_existing_product cp w = (r, w')"
  shows "kept w w' \<and> nc_candidates w' = nc_candidates w"
    and "undisturbed cp \<Longrightarrow> kept_product w w' \<and> (\<forall>b. r = Inr b \<longrightarrow> nc_product w = Some b)"
    and "clean_faults cp \<Longrightarrow> nc_product w = Some b \<Longrightarrow> r = Inr b"
  using assms read_product_keeps [of cp w]
  by (auto simp: read_existing_product_def and_next_cases step_defs split: option.splits)

lemma restore_product_keeps:
  assumes "restore_product cp b w = (r, w')"
  shows "kept w w' \<and> nc_candidates w' = nc_candidates w \<and> nc_checked w' = nc_checked w"
    and "r = Inr () \<Longrightarrow> nc_product w' = Some b"
    and "nc_product w' = Some b \<or> nc_product w' = nc_product w"
    and "clean_faults cp \<Longrightarrow> r = Inl e \<Longrightarrow> nc_product w' = nc_product w"
  using assms unfolding restore_product_def
  by (auto elim!: client_call_cases simp: kept_def same_rest_def tick_def)

text \<open>The part of a promotion before the product is written: the bytes of the candidate, accepted by the checker.\<close>

definition certified :: "'s ClientPorts \<Rightarrow> CandidateFile \<Rightarrow> ClashCore \<Rightarrow> ('s, string) client" where
  "certified cp candidate core w =
     and_next (read_candidate cp candidate w) (\<lambda>bytes w.
     and_next (check_config cp candidate core w) (\<lambda>_ w.
     and_next (read_candidate cp candidate w) (\<lambda>after w.
     and_next (ensure (after = bytes) ''candidate config changed between check and promote'' w) (\<lambda>_ w.
     and_next (ensure (cp_sha256 cp bytes = cf_bytes_sha256 candidate) ''candidate config hash changed before promotion'' w) (\<lambda>_.
     done_with bytes)))))"

lemma and_next_assoc: "and_next (and_next p k) l = and_next p (\<lambda>x w. and_next (k x w) l)"
  by (cases p) (auto simp: and_next_def split: sum.splits)

lemma and_next_done [simp]: "and_next (done_with x w) k = k x w"
  by (simp add: and_next_def done_with_def)

lemma check_and_promote_certified:
  "check_and_promote cp candidate core w =
     and_next (certified cp candidate core w) (\<lambda>bytes w.
     and_next (restore_product cp bytes w) (\<lambda>_ w.
     and_next (read_existing_product cp w) (\<lambda>promoted w.
     and_next (ensure (cp_sha256 cp promoted = cf_bytes_sha256 candidate)
                 ''promoted runtime product hash does not match candidate'' w) (\<lambda>_.
     done_with (cp_sha256 cp promoted)))))"
  by (simp add: check_and_promote_def certified_def and_next_assoc)

lemma certified_keeps:
  assumes "certified cp c core w = (r, w')"
  shows "kept_product w w'"
    and "undisturbed cp \<Longrightarrow> nc_candidates w (cf_path c) = Some b \<Longrightarrow> r = Inr b' \<Longrightarrow> b' = b \<and> (core, b) \<in> set (nc_checked w')"
    and "r = Inr b' \<Longrightarrow> cp_sha256 cp b' = cf_bytes_sha256 c"
proof -
  obtain r1 w1 where 1: "read_candidate cp c w = (r1, w1)" by (cases "read_candidate cp c w")
  obtain r2 w2 where 2: "check_config cp c core w1 = (r2, w2)" by (cases "check_config cp c core w1")
  obtain r3 w3 where 3: "read_candidate cp c w2 = (r3, w3)" by (cases "read_candidate cp c w2")
  note k1 = read_candidate_keeps [OF 1] and k2 = check_config_keeps [OF 2] and k3 = read_candidate_keeps [OF 3]
  have k: "kept_product w w1" "kept_product w w2" "kept_product w w3"
    using k1(1) k2 k3(1) kept_product_trans by blast+
  have m: "set (nc_checked w2) \<subseteq> set (nc_checked w3)" using k3(1) by (simp add: kept_product_def kept_def same_rest_def)
  have e: "certified cp c core w =
      (case r1 of Inl e \<Rightarrow> (Inl e, w1) | Inr bytes \<Rightarrow>
       (case r2 of Inl e \<Rightarrow> (Inl e, w2) | Inr u \<Rightarrow>
       (case r3 of Inl e \<Rightarrow> (Inl e, w3) | Inr after \<Rightarrow>
          if after \<noteq> bytes then (Inl ''candidate config changed between check and promote'', w3)
          else if cp_sha256 cp bytes \<noteq> cf_bytes_sha256 c then (Inl ''candidate config hash changed before promotion'', w3)
          else (Inr bytes, w3))))"
    unfolding certified_def 1 and_next_def
    by (cases r1; cases r2; cases r3) (simp_all add: 2 3 ensure_def done_with_def fail_with_def)
  show "kept_product w w'" using assms k unfolding e by (auto split: sum.splits if_splits)
  show "b' = b \<and> (core, b) \<in> set (nc_checked w')"
    if "undisturbed cp" "nc_candidates w (cf_path c) = Some b" "r = Inr b'"
    using assms that k1(2) k2 m unfolding e by (auto split: sum.splits if_splits)
  show "cp_sha256 cp b' = cf_bytes_sha256 c" if "r = Inr b'"
    using assms that unfolding e by (auto split: sum.splits if_splits)
qed

lemma check_and_promote_keeps:
  assumes "check_and_promote cp c core w = (r, w')"
  shows "kept w w'"
    and "undisturbed cp \<Longrightarrow> nc_candidates w (cf_path c) = Some b \<Longrightarrow>
      nc_product w' = Some b \<and> (core, b) \<in> set (nc_checked w') \<or> nc_product w' = nc_product w \<and> (\<forall>h. r \<noteq> Inr h)"
    and "clean_faults cp \<Longrightarrow> r = Inl e \<Longrightarrow> nc_product w' = nc_product w"
proof -
  obtain r1 w1 where 1: "certified cp c core w = (r1, w1)" by (cases "certified cp c core w")
  note k1 = certified_keeps [OF 1]
  have thesis: "kept w w' \<and>
      (undisturbed cp \<longrightarrow> nc_candidates w (cf_path c) = Some b \<longrightarrow>
        nc_product w' = Some b \<and> (core, b) \<in> set (nc_checked w') \<or> nc_product w' = nc_product w \<and> (\<forall>h. r \<noteq> Inr h)) \<and>
      (clean_faults cp \<longrightarrow> (\<forall>e. r = Inl e \<longrightarrow> nc_product w' = nc_product w))"
  proof (cases r1)
    case (Inl e1)
    then have "r = Inl e1" "w' = w1" using assms 1 by (auto simp: check_and_promote_certified and_next_def)
    then show ?thesis using k1(1) by (simp add: kept_product_def)
  next
    case (Inr bytes)
    obtain r2 w2 where 2: "restore_product cp bytes w1 = (r2, w2)" by (cases "restore_product cp bytes w1")
    obtain r3 w3 where 3: "read_existing_product cp w2 = (r3, w3)" by (cases "read_existing_product cp w2")
    note k2 = restore_product_keeps [OF 2] and k3 = read_existing_product_keeps [OF 3]
    have e: "check_and_promote cp c core w =
      (case r2 of Inl e \<Rightarrow> (Inl e, w2) | Inr u \<Rightarrow>
       (case r3 of Inl e \<Rightarrow> (Inl e, w3) | Inr promoted \<Rightarrow>
          if cp_sha256 cp promoted \<noteq> cf_bytes_sha256 c then (Inl ''promoted runtime product hash does not match candidate'', w3)
          else (Inr (cp_sha256 cp promoted), w3)))"
      unfolding check_and_promote_certified 1 Inr and_next_def
      by (cases r2; cases r3) (simp_all add: 2 3 ensure_def done_with_def fail_with_def)
    have w: "w' = w2 \<or> w' = w3" and ok: "\<And>h. r = Inr h \<Longrightarrow> w' = w3 \<and> r2 = Inr ()"
      using assms unfolding e by (auto split: sum.splits if_splits)
    have kept: "kept w w2" "kept w w3" using k1(1) k2(1) k3(1) kept_trans by (metis kept_product_def)+
    have checked: "set (nc_checked w1) \<subseteq> set (nc_checked w')"
      using w k2(1) k3(1) kept_trans by (auto simp: kept_def same_rest_def)
    have product: "nc_product w3 = nc_product w2" if "undisturbed cp" using k3(2) [OF that] by (simp add: kept_product_def)
    have old: "nc_product w1 = nc_product w" using k1(1) by (simp add: kept_product_def)
    have b: "bytes = b \<and> (core, b) \<in> set (nc_checked w1)" if "undisturbed cp" "nc_candidates w (cf_path c) = Some b"
      using k1(2) [OF that] Inr by blast
    have "nc_product w' = Some b \<and> (core, b) \<in> set (nc_checked w') \<or> nc_product w' = nc_product w \<and> (\<forall>h. r \<noteq> Inr h)"
      if u: "undisturbed cp" and c: "nc_candidates w (cf_path c) = Some b"
    proof (cases "nc_product w' = Some b")
      case True then show ?thesis using b [OF u c] checked by auto
    next
      case False
      then have n: "nc_product w2 \<noteq> Some b" using w product [OF u] by auto
      then have "r2 \<noteq> Inr ()" using k2(2) b [OF u c] by auto
      then show ?thesis using n k2(3) b [OF u c] old ok w product [OF u] by auto
    qed
    moreover have "nc_product w' = nc_product w" if c: "clean_faults cp" and f: "r = Inl e" for e
    proof (cases r2)
      case (Inl e2)
      then show ?thesis using k2(4) [OF c Inl] old assms unfolding e by auto
    next
      case (Inr u)
      then have "nc_product w2 = Some bytes" using k2(2) by simp
      then have "r3 = Inr bytes" using k3(3) [OF c] by simp
      then show ?thesis using assms f Inr k1(3) \<open>r1 = Inr bytes\<close> unfolding e by auto
    qed
    ultimately show ?thesis using kept w by auto
  qed
  show "kept w w'" using thesis by blast
  show "undisturbed cp \<Longrightarrow> nc_candidates w (cf_path c) = Some b \<Longrightarrow>
      nc_product w' = Some b \<and> (core, b) \<in> set (nc_checked w') \<or> nc_product w' = nc_product w \<and> (\<forall>h. r \<noteq> Inr h)"
    using thesis by blast
  show "clean_faults cp \<Longrightarrow> r = Inl e \<Longrightarrow> nc_product w' = nc_product w" using thesis by blast
qed

definition snapshot_wf :: "'s ClientPorts \<Rightarrow> RuntimeSnapshot \<Rightarrow> bool" where
  "snapshot_wf cp s \<longleftrightarrow> sn_product_sha256 s = cp_sha256 cp (sn_product_bytes s)"

definition accepted :: "'s Client \<Rightarrow> RuntimeSnapshot \<Rightarrow> bool" where
  "accepted w s \<longleftrightarrow> (sn_target_core s, sn_product_bytes s) \<in> set (nc_checked w)"

text \<open>What an attempt to promote a snapshot leaves: the new Promoted, or everything but an accepted product as it was.\<close>

definition promoted_or_not :: "'s ClientPorts \<Rightarrow> RuntimeSnapshot \<Rightarrow> 's Client \<Rightarrow> (anyhow + 'a) \<Rightarrow> 's Client \<Rightarrow> bool" where
  "promoted_or_not cp s w r w' \<longleftrightarrow>
     same_rest w w' \<and> nc_core w' = nc_core w \<and>
     (case r of
        Inr x \<Rightarrow> nc_lifecycle w' = (nc_lifecycle w)\<lparr>lf_promoted := Some s\<rparr> \<and>
          (undisturbed cp \<longrightarrow> nc_product w' = Some (sn_product_bytes s) \<and> accepted w' s)
      | Inl e \<Rightarrow> nc_lifecycle w' = nc_lifecycle w \<and>
          (undisturbed cp \<longrightarrow> nc_product w' = nc_product w \<or> nc_product w' = Some (sn_product_bytes s) \<and> accepted w' s) \<and>
          (clean_faults cp \<longrightarrow> nc_product w' = nc_product w))"

definition newer :: "RuntimeSnapshot \<Rightarrow> 's Client \<Rightarrow> bool" where
  "newer s w \<longleftrightarrow> (\<forall>p. lf_promoted (nc_lifecycle w) = Some p \<longrightarrow> sn_revision p < sn_revision s)"

lemma publish_promoted_newer:
  "newer s w \<Longrightarrow> publish_promoted s w = (Inr (), set_lifecycle (lf_promoted_update (\<lambda>_. Some s)) w)"
  by (auto simp: publish_promoted_def newer_def done_with_def split: option.splits)

lemma promote_snapshot_result:
  assumes "promote_snapshot cp c s w = (r, w')" and "nc_candidates w (cf_path c) = Some (sn_product_bytes s)" and "newer s w"
  shows "promoted_or_not cp s w r w' \<and> nc_revisions w' = nc_revisions w"
proof -
  obtain r1 w1 where 1: "check_and_promote cp c (sn_target_core s) w = (r1, w1)"
    by (cases "check_and_promote cp c (sn_target_core s) w")
  let ?w2 = "cleanup_candidate cp c w1"
  note k1 = check_and_promote_keeps [OF 1] and k2 = cleanup_candidate_keeps [of w1 cp c]
  have k: "kept w ?w2" using k1(1) k2 kept_trans by (auto simp: kept_product_def)
  have m: "set (nc_checked w1) \<subseteq> set (nc_checked ?w2)" "nc_product ?w2 = nc_product w1"
    using k2 by (auto simp: kept_product_def kept_def same_rest_def)
  have "newer s ?w2" using k assms(3) by (simp add: newer_def kept_def)
  then have "and_next (r1, ?w2) (\<lambda>_. publish_promoted s) =
      (case r1 of Inl e \<Rightarrow> (Inl e, ?w2) | Inr h \<Rightarrow> (Inr (), set_lifecycle (lf_promoted_update (\<lambda>_. Some s)) ?w2))"
    by (cases r1) (simp_all add: and_next_def publish_promoted_newer)
  then have e: "(r, w') =
      (case r1 of Inl e \<Rightarrow> (Inl e, ?w2) | Inr h \<Rightarrow> (Inr (), set_lifecycle (lf_promoted_update (\<lambda>_. Some s)) ?w2))"
    using assms(1) by (simp add: promote_snapshot_def 1)
  show ?thesis
  proof (cases r1)
    case (Inl e1)
    then have "r = Inl e1" "w' = ?w2" using e by auto
    then show ?thesis using k m k1(2) [OF _ assms(2)] k1(3) [OF _ Inl]
      by (auto simp: promoted_or_not_def kept_def accepted_def)
  next
    case (Inr h)
    then have "r = Inr ()" "w' = set_lifecycle (lf_promoted_update (\<lambda>_. Some s)) ?w2" using e by auto
    then show ?thesis using k m k1(2) [OF _ assms(2)] Inr
      by (auto simp: promoted_or_not_def kept_def accepted_def set_lifecycle_def same_rest_def)
  qed
qed

lemma promoted_or_not_first:
  assumes "kept_product w w0" and "promoted_or_not cp s w0 r w'"
  shows "promoted_or_not cp s w r w'"
  using assms by (auto simp: promoted_or_not_def kept_product_def kept_def intro: same_rest_trans split: sum.splits)

lemma promoted_or_not_failed:
  "kept_product w w' \<Longrightarrow> promoted_or_not cp s w (Inl e) w'"
  by (simp add: promoted_or_not_def kept_product_def kept_def)

lemma newer_kept: "kept_product w w' \<Longrightarrow> newer s w \<Longrightarrow> newer s w'"
  by (simp add: newer_def kept_product_def kept_def)

lemma kept_revisions: "kept_product w w' \<Longrightarrow> nc_revisions w' = nc_revisions w"
  by (simp add: kept_product_def kept_def)

lemma promote_with_lease_result:
  assumes "promote_with_lease cp s w = (r, w')" and "newer s w"
  shows "promoted_or_not cp s w r w' \<and> nc_revisions w' = nc_revisions w"
proof -
  obtain r1 w1 where 1: "create_candidate cp (sn_product_bytes s) w = (r1, w1)"
    by (cases "create_candidate cp (sn_product_bytes s) w")
  note k1 = create_candidate_keeps [OF 1]
  show ?thesis
  proof (cases r1)
    case (Inl e)
    then have "r = Inl e" "w' = w1" using assms(1) by (simp_all add: promote_with_lease_def 1 and_next_def)
    then show ?thesis using k1(1) by (simp add: promoted_or_not_failed kept_revisions)
  next
    case (Inr c)
    obtain r2 w2 where 2: "client_call cp BeginLease ''core lifecycle is not available'' (\<lambda>w. w) w1 = (r2, w2)"
      by (cases "client_call cp BeginLease ''core lifecycle is not available'' (\<lambda>w. w) w1")
    have w2: "w2 = tick w1" using 2 by (rule call_tick)
    have k2: "kept_product w w2" using kept_product_trans [OF k1(1) kept_product_tick] w2 by simp
    show ?thesis
    proof (cases r2)
      case (Inl e)
      then have "r = Inl e" "w' = drop_candidate cp c w2"
        using assms(1) \<open>r1 = Inr c\<close> by (simp_all add: promote_with_lease_def 1 2 and_next_def)
      moreover have "kept_product w (drop_candidate cp c w2)" by (rule kept_product_trans [OF k2 drop_candidate_keeps])
      ultimately show ?thesis by (simp add: promoted_or_not_failed kept_revisions)
    next
      case (Inr u)
      then have "promote_snapshot cp c s w2 = (r, w')"
        using assms(1) \<open>r1 = Inr c\<close> by (simp add: promote_with_lease_def 1 2 and_next_def)
      moreover have "nc_candidates w2 (cf_path c) = Some (sn_product_bytes s)"
        using k1(2) \<open>r1 = Inr c\<close> by (simp add: w2 tick_def)
      ultimately have "promoted_or_not cp s w2 r w' \<and> nc_revisions w' = nc_revisions w2"
        using newer_kept [OF k2 assms(2)] by (intro promote_snapshot_result) auto
      then show ?thesis using kept_revisions [OF k2] by (auto intro: promoted_or_not_first [OF k2])
    qed
  qed
qed

text \<open>A regeneration, from the world and the revision it was allotted.\<close>

lemma resolve_session_ports_keeps: "resolve_session_ports cp clash w = (r, w') \<Longrightarrow> kept_product w w'"
  by (auto simp: resolve_session_ports_def kept_product_def kept_def same_rest_def split: prod.splits)

definition built_from :: "'s ClientPorts \<Rightarrow> Profiles \<Rightarrow> ClashConfig \<Rightarrow> NyanpasuAppConfig \<Rightarrow> RuntimeSnapshot \<Rightarrow> bool" where
  "built_from cp profiles clash app s \<longleftrightarrow>
     (\<exists>n ports. build_product (cp_build cp n)
         \<lparr>ri_profiles = profiles, ri_clash = clash, ri_app = app, ri_resolved_ports = ports\<rparr> =
       Inr (sn_data s, sn_product_bytes s)) \<and>
     sn_target_core s = ap_core app \<and> snapshot_wf cp s"

lemma regenerate_with_result:
  assumes "regenerate_runtime_with cp revision profiles clash app w = (r, w')"
    and "\<And>p. lf_promoted (nc_lifecycle w) = Some p \<Longrightarrow> sn_revision p < revision"
  shows "(\<exists>s. promoted_or_not cp s w r w' \<and> (\<forall>x. r = Inr x \<longrightarrow> x = s) \<and>
           sn_revision s = revision \<and> built_from cp profiles clash app s) \<and> nc_revisions w' = nc_revisions w
       \<or> kept_product w w' \<and> (\<exists>e. r = Inl e)"
proof -
  obtain r1 w1 where 1: "resolve_session_ports cp clash w = (r1, w1)" by (cases "resolve_session_ports cp clash w")
  note k1 = resolve_session_ports_keeps [OF 1]
  show ?thesis
  proof (cases r1)
    case (Inl e)
    then show ?thesis using assms(1) k1 by (auto simp: regenerate_runtime_with_def 1 and_next_def)
  next
    case (Inr ports)
    let ?call = "client_call cp BuildTask ''runtime build task failed'' (\<lambda>w. w) w1"
    obtain r2 where 2: "?call = (r2, tick w1)" by (cases ?call) (auto dest: call_tick)
    let ?input = "\<lparr>ri_profiles = profiles, ri_clash = clash, ri_app = app, ri_resolved_ports = ports\<rparr>"
    let ?built = "build_product (cp_build cp (nc_clock w1)) ?input"
    have k2: "kept_product w (tick w1)" by (rule kept_product_trans [OF k1 kept_product_tick])
    show ?thesis
    proof (cases "\<exists>u data bytes. r2 = Inr u \<and> ?built = Inr (data, bytes)")
      case False
      then have "w' = tick w1 \<and> (\<exists>e. r = Inl e)" using assms(1) \<open>r1 = Inr ports\<close>
        by (cases r2; cases ?built) (auto simp: regenerate_runtime_with_def 1 2 and_next_def lift_result_def)
      then show ?thesis using k2 by auto
    next
      case True
      then obtain u data bytes where b: "r2 = Inr u" "?built = Inr (data, bytes)" by blast
      define s where "s = from_data (cp_sha256 cp) revision (ap_core app) bytes data"
      have s: "sn_revision s = revision" "sn_product_bytes s = bytes" "built_from cp profiles clash app s"
        using b(2) by (auto simp: s_def from_data_def built_from_def snapshot_wf_def)
      obtain r3 w3 where 3: "create_candidate cp bytes (tick w1) = (r3, w3)" by (cases "create_candidate cp bytes (tick w1)")
      note k3 = create_candidate_keeps [OF 3]
      have k: "kept_product w w3" by (rule kept_product_trans [OF k2 k3(1)])
      have e: "regenerate_runtime_with cp revision profiles clash app w = and_next (r3, w3) (\<lambda>candidate w.
          if cf_bytes_sha256 candidate \<noteq> sn_product_sha256 s
          then fail_with ''runtime snapshot hash does not match candidate bytes'' (drop_candidate cp candidate w)
          else and_next (promote_snapshot cp candidate s w) (\<lambda>_. done_with s))"
        unfolding regenerate_runtime_with_def 1 \<open>r1 = Inr ports\<close> s_def
        by (simp add: and_next_def 2 b lift_result_def 3 Let_def)
      show ?thesis
      proof (cases r3)
        case (Inl e1)
        then show ?thesis using assms(1) k unfolding e by (auto simp: and_next_def)
      next
        case (Inr c)
        obtain r4 w4 where 4: "promote_snapshot cp c s w3 = (r4, w4)" by (cases "promote_snapshot cp c s w3")
        have cand: "nc_candidates w3 (cf_path c) = Some (sn_product_bytes s)" "cf_bytes_sha256 c = sn_product_sha256 s"
          using k3(2) [OF Inr] by (simp_all add: s_def from_data_def)
        have "newer s w" using assms(2) s(1) by (simp add: newer_def)
        then have p: "promoted_or_not cp s w3 r4 w4 \<and> nc_revisions w4 = nc_revisions w3"
          using promote_snapshot_result [OF 4 cand(1)] newer_kept [OF k] by simp
        have "(r, w') = (case r4 of Inl e \<Rightarrow> Inl e | Inr u \<Rightarrow> Inr s, w4)"
          using assms(1) cand(2) unfolding e Inr and_next_def by (cases r4) (simp_all add: 4 done_with_def)
        moreover have "promoted_or_not cp s w r4 w4" using p promoted_or_not_first [OF k] by blast
        ultimately have "promoted_or_not cp s w r w'" "\<forall>x. r = Inr x \<longrightarrow> x = s" "nc_revisions w' = nc_revisions w"
          using p kept_revisions [OF k] by (auto simp: promoted_or_not_def split: sum.splits)
        then show ?thesis using s by blast
      qed
    qed
  qed
qed

section \<open>What the core operations change\<close>

definition kept_but_core :: "'s Client \<Rightarrow> 's Client \<Rightarrow> bool" where
  "kept_but_core w w' \<longleftrightarrow>
     same_rest w w' \<and> nc_lifecycle w' = nc_lifecycle w \<and> nc_revisions w' = nc_revisions w \<and>
     nc_product w' = nc_product w"

lemma kept_but_core_simps [simp]:
  "kept_but_core w w" "kept_but_core w (tick w)" "kept_but_core w (nc_core_update f w)"
  by (simp_all add: kept_but_core_def same_rest_def tick_def)

lemma kept_but_core_trans [trans]: "kept_but_core a b \<Longrightarrow> kept_but_core b c \<Longrightarrow> kept_but_core a c"
  using same_rest_trans by (auto simp: kept_but_core_def)

text \<open>The core took the file it was told to load, which then stands in \<open>rc_bytes\<close>.\<close>

definition loaded :: "string \<Rightarrow> 's Client \<Rightarrow> 's Client \<Rightarrow> bool" where
  "loaded bytes w w' \<longleftrightarrow> (\<exists>c. nc_core w = Some c \<and> nc_core w' = Some (c\<lparr>rc_bytes := bytes, rc_patches := []\<rparr>))"

lemma put_attempts_result:
  assumes "put_attempts cp file n w = (r, w')" and "n \<noteq> 0"
    and "\<And>w. file (tick w) = file w" and "\<And>w f. file (nc_core_update f w) = file w"
  shows "kept_but_core w w' \<and>
    (nc_core w' = nc_core w \<and> (\<exists>e. r = Inl e) \<or> (\<exists>b. file w = Some b \<and> loaded b w w' \<and> (clean_faults cp \<longrightarrow> r = Inr ())))"
  using assms
proof (induction n arbitrary: w)
  case (Suc n)
  show ?case
  proof (cases "\<exists>c b. nc_core w = Some c \<and> file w = Some b")
    case False
    then have p: "put_configs cp file w = (Inl ''put configs failed'', tick w)"
      by (auto simp: put_configs_def split: option.splits)
    show ?thesis
    proof (cases "n = 0")
      case True
      then show ?thesis using Suc.prems(1) p by (auto simp: tick_def kept_but_core_def same_rest_def)
    next
      case False
      then show ?thesis using Suc.IH [of "tick w"] Suc.prems p kept_but_core_trans [OF kept_but_core_simps(2) [of w]]
        by (auto simp: loaded_def tick_def)
    qed
  next
    case True
    then obtain c b where cb: "nc_core w = Some c" "file w = Some b" by blast
    let ?load = "nc_core_update (\<lambda>_. Some (c\<lparr>rc_bytes := b, rc_patches := []\<rparr>))"
    obtain r1 w1 where 1: "client_call cp PutConfigs ''put configs failed'' ?load w = (r1, w1)"
      by (cases "client_call cp PutConfigs ''put configs failed'' ?load w")
    then have p: "put_configs cp file w = (r1, w1)" by (simp add: put_configs_def cb)
    have k: "kept_but_core w (?load (tick w))"
      by (rule kept_but_core_trans [OF kept_but_core_simps(2) kept_but_core_simps(3)])
    from 1 show ?thesis
    proof (cases rule: client_call_cases)
      case 1
      then show ?thesis using Suc.prems(1) p k cb by (auto simp: loaded_def tick_def)
    next
      case 2
      show ?thesis
      proof (cases "n = 0")
        case True
        then show ?thesis using Suc.prems(1) p 2 by (auto simp: tick_def kept_but_core_def same_rest_def)
      next
        case False
        then show ?thesis using Suc.IH [of "tick w"] Suc.prems p 2 kept_but_core_trans [OF kept_but_core_simps(2) [of w]]
          by (auto simp: loaded_def tick_def)
      qed
    next
      case 3
      show ?thesis
      proof (cases "n = 0")
        case True
        then show ?thesis using Suc.prems(1) p 3 k cb by (auto simp: loaded_def tick_def)
      next
        case False
        then show ?thesis using Suc.IH [of w1] Suc.prems p 3 kept_but_core_trans [OF k] cb
          by (auto simp: loaded_def tick_def)
      qed
    qed
  qed
qed simp

lemma apply_promoted_result:
  assumes "apply_promoted cp w = (r, w')"
  shows "kept_but_core w w'"
    and "nc_core w' = nc_core w \<and> (\<exists>e. r = Inl e) \<or>
         (\<exists>b. nc_product w = Some b \<and> loaded b w w' \<and> (clean_faults cp \<longrightarrow> r = Inr ()))"
  using put_attempts_result [of cp nc_product 5 w r w'] assms
  by (simp_all add: apply_promoted_def apply_config_from_def tick_def)

definition started :: "ClashCore \<Rightarrow> string \<Rightarrow> 's Client \<Rightarrow> bool" where
  "started core bytes w \<longleftrightarrow> nc_core w = Some \<lparr>rc_type = core, rc_bytes = bytes, rc_patches = []\<rparr>"

lemma restart_result:
  assumes "restart cp w = (r, w')"
  shows "kept_but_core w w' \<and>
    ((\<exists>b. nc_product w = Some b \<and> started (selected_core (draft_latest (nc_verge w))) b w' \<and> (clean_faults cp \<longrightarrow> r = Inr ())) \<or>
     (\<exists>e. r = Inl e) \<and> (nc_core w' = nc_core w \<or> nc_core w' = None))"
proof -
  obtain r1 w1 where 1: "stop_running cp w = (r1, w1)" by (cases "stop_running cp w")
  have k1: "kept_but_core w w1 \<and> (nc_core w1 = None \<or> (\<exists>e. r1 = Inl e) \<and> nc_core w1 = nc_core w)"
    using 1 by (auto simp: stop_running_def done_with_def tick_def kept_but_core_def same_rest_def
        elim!: client_call_cases split: if_splits)
  show ?thesis
  proof (cases r1)
    case (Inl e)
    then show ?thesis using assms k1 by (auto simp: restart_def 1 and_next_def)
  next
    case (Inr u)
    let ?call = "client_call cp NewInstance ''failed to prepare the core'' (\<lambda>w. w) w1"
    let ?core = "selected_core (draft_latest (nc_verge w1))"
    obtain r2 where 2: "?call = (r2, tick w1)" by (cases ?call) (auto dest: call_tick)
    have v: "nc_verge w1 = nc_verge w" "nc_product w1 = nc_product w" using k1 by (auto simp: kept_but_core_def same_rest_def)
    have none: "nc_core w1 = None" using k1 Inr by auto
    have kt: "kept_but_core w (tick w1)" using k1 kept_but_core_trans kept_but_core_simps(2) by blast
    show ?thesis
    proof (cases r2)
      case (Inl e)
      then show ?thesis using assms none kt \<open>r1 = Inr u\<close>
        by (auto simp: restart_def 1 2 and_next_def Let_def tick_def)
    next
      case (Inr u2)
      then have s: "start_core cp ?core (tick w1) = (r, w')"
        using assms \<open>r1 = Inr u\<close> by (simp add: restart_def 1 2 and_next_def Let_def)
      show ?thesis
      proof (cases "nc_product w")
        case None
        then show ?thesis using s none kt v kept_but_core_trans [OF kt kept_but_core_simps(2)]
          by (auto simp: start_core_def tick_def)
      next
        case (Some b)
        let ?start = "nc_core_update (\<lambda>_. Some \<lparr>rc_type = ?core, rc_bytes = b, rc_patches = []\<rparr>)"
        have "client_call cp StartCore ''failed to start the core'' ?start (tick w1) = (r, w')"
          using s Some v by (simp add: start_core_def tick_def)
        then show ?thesis
          using Some none v kept_but_core_trans [OF kt kept_but_core_simps(2)]
            kept_but_core_trans [OF kept_but_core_trans [OF kt kept_but_core_simps(2)] kept_but_core_simps(3) [of _ "\<lambda>_. Some \<lparr>rc_type = ?core, rc_bytes = b, rc_patches = []\<rparr>"]]
          by (cases rule: client_call_cases) (auto simp: started_def tick_def)
      qed
    qed
  qed
qed

section \<open>The lifecycle invariant\<close>

text \<open>Applied never runs ahead of Promoted, Promoted never ahead of the allocator, and both are what their hash says.\<close>

definition ordered :: "'s ClientPorts \<Rightarrow> 's Client \<Rightarrow> bool" where
  "ordered cp w \<longleftrightarrow>
     (\<forall>p. lf_promoted (nc_lifecycle w) = Some p \<longrightarrow> snapshot_wf cp p \<and> sn_revision p \<le> nc_revisions w) \<and>
     (\<forall>a. lf_applied (nc_lifecycle w) = Some a \<longrightarrow>
        snapshot_wf cp a \<and> (\<exists>p. lf_promoted (nc_lifecycle w) = Some p \<and> sn_revision a \<le> sn_revision p))"

text \<open>A file content the core's checker has accepted, or the product the program was started with.\<close>

definition fit_to_run :: "string option \<Rightarrow> 's Client \<Rightarrow> string \<Rightarrow> bool" where
  "fit_to_run p0 w bytes \<longleftrightarrow> p0 = Some bytes \<or> (\<exists>core. (core, bytes) \<in> set (nc_checked w))"

definition only_accepted :: "string option \<Rightarrow> 's Client \<Rightarrow> bool" where
  "only_accepted p0 w \<longleftrightarrow>
     (\<forall>b. nc_product w = Some b \<longrightarrow> fit_to_run p0 w b) \<and>
     (\<forall>c. nc_core w = Some c \<longrightarrow> fit_to_run p0 w (rc_bytes c)) \<and>
     (\<forall>p. lf_promoted (nc_lifecycle w) = Some p \<longrightarrow> accepted w p) \<and>
     (\<forall>a. lf_applied (nc_lifecycle w) = Some a \<longrightarrow> accepted w a)"

text \<open>The product is the Promoted configuration, and a running core runs the Applied one, where these are known.\<close>

definition truthful :: "'s Client \<Rightarrow> bool" where
  "truthful w \<longleftrightarrow>
     (\<forall>p. lf_promoted (nc_lifecycle w) = Some p \<longrightarrow> nc_product w = Some (sn_product_bytes p)) \<and>
     (\<forall>a c. lf_applied (nc_lifecycle w) = Some a \<longrightarrow> nc_core w = Some c \<longrightarrow>
        rc_bytes c = sn_product_bytes a \<and> rc_patches c = [])"

definition lifecycle_inv :: "'s ClientPorts \<Rightarrow> string option \<Rightarrow> bool \<Rightarrow> 's Client \<Rightarrow> bool" where
  "lifecycle_inv cp p0 t w \<longleftrightarrow>
     ordered cp w \<and> (undisturbed cp \<longrightarrow> only_accepted p0 w) \<and> (t \<and> clean_faults cp \<longrightarrow> truthful w)"

lemma fit_to_run_mono: "same_rest w w' \<Longrightarrow> fit_to_run p0 w b \<Longrightarrow> fit_to_run p0 w' b"
  by (auto simp: fit_to_run_def same_rest_def)

lemma accepted_mono: "same_rest w w' \<Longrightarrow> accepted w s \<Longrightarrow> accepted w' s"
  by (auto simp: accepted_def same_rest_def)

lemma accepted_fit: "accepted w s \<Longrightarrow> fit_to_run p0 w (sn_product_bytes s)"
  by (auto simp: accepted_def fit_to_run_def)

lemma kept_product_inv:
  assumes "lifecycle_inv cp p0 t w" and "kept_product w w'"
  shows "lifecycle_inv cp p0 t w'"
proof -
  have "same_rest w w'" using assms(2) by (simp add: kept_product_def kept_def)
  then show ?thesis using assms fit_to_run_mono accepted_mono
    by (auto simp: lifecycle_inv_def ordered_def only_accepted_def truthful_def kept_product_def kept_def)
qed

lemma promoted_or_not_inv:
  assumes "lifecycle_inv cp p0 t w" and "promoted_or_not cp s w r w'" and "snapshot_wf cp s"
    and "nc_revisions w < sn_revision s" and "sn_revision s \<le> nc_revisions w'"
  shows "lifecycle_inv cp p0 t w'"
proof -
  have same: "same_rest w w'" "nc_core w' = nc_core w" using assms(2) by (auto simp: promoted_or_not_def)
  have rev: "nc_revisions w \<le> nc_revisions w'" using same(1) by (simp add: same_rest_def)
  note mono = fit_to_run_mono [OF same(1)] accepted_mono [OF same(1)] accepted_fit [of w' s p0]
  have "ordered cp w'" using assms rev
    by (auto simp: lifecycle_inv_def ordered_def promoted_or_not_def split: sum.splits) (force | fastforce)+
  moreover have "only_accepted p0 w'" if "undisturbed cp"
    using assms(1,2) that mono same(2)
    by (auto simp: lifecycle_inv_def only_accepted_def promoted_or_not_def split: sum.splits)
  moreover have "truthful w'" if "t" "clean_faults cp"
    using assms(1,2) that same(2)
    by (auto simp: lifecycle_inv_def truthful_def promoted_or_not_def clean_faults_def split: sum.splits)
  ultimately show ?thesis by (simp add: lifecycle_inv_def)
qed

text \<open>The ends of the operations that reach the core: apply or restart, then publish.\<close>

lemma publish_applied_promoted:
  "lf_promoted (nc_lifecycle w) = Some s \<Longrightarrow>
     publish_applied s w = (Inr (), set_lifecycle (lf_applied_update (\<lambda>_. Some s)) w)"
  by (simp add: publish_applied_def identity_eq_def done_with_def)

lemma publish_inv:
  assumes "lifecycle_inv cp p0 t w" and "kept_but_core w w1" and "lf_promoted (nc_lifecycle w) = Some s"
    and "nc_core w1 = Some c" and "nc_product w = Some (rc_bytes c)" and "rc_patches c = []"
  shows "lifecycle_inv cp p0 t (set_lifecycle (lf_applied_update (\<lambda>_. Some s)) w1)"
proof -
  have same: "same_rest w w1" using assms(2) by (simp add: kept_but_core_def)
  note mono = fit_to_run_mono [OF same] accepted_mono [OF same]
  let ?w = "set_lifecycle (lf_applied_update (\<lambda>_. Some s)) w1"
  have fit: "fit_to_run p0 ?w b = fit_to_run p0 w1 b" "accepted ?w x = accepted w1 x" for b x
    by (simp_all add: fit_to_run_def accepted_def set_lifecycle_def)
  have parts: "lf_promoted (nc_lifecycle ?w) = Some s" "lf_applied (nc_lifecycle ?w) = Some s" "nc_core ?w = Some c"
    "nc_product ?w = Some (rc_bytes c)" "nc_revisions ?w = nc_revisions w"
    using assms(2-5) by (auto simp: set_lifecycle_def kept_but_core_def)
  have "ordered cp ?w" using assms(1,3) parts by (auto simp: lifecycle_inv_def ordered_def)
  moreover have "only_accepted p0 ?w" if "undisturbed cp"
    using assms(1,3,5) that mono parts fit by (auto simp: lifecycle_inv_def only_accepted_def)
  moreover have "truthful ?w" if "t" "clean_faults cp"
    using assms(1,3,5,6) that parts by (auto simp: lifecycle_inv_def truthful_def)
  ultimately show ?thesis by (simp add: lifecycle_inv_def)
qed

lemma kept_but_core_inv:
  assumes "lifecycle_inv cp p0 t w" and "kept_but_core w w'"
    and "\<And>c. nc_core w' = Some c \<Longrightarrow> nc_core w = Some c \<or> nc_product w = Some (rc_bytes c) \<and> \<not> (t \<and> clean_faults cp)"
  shows "lifecycle_inv cp p0 t w'"
proof -
  have same: "same_rest w w'" using assms(2) by (simp add: kept_but_core_def)
  note mono = fit_to_run_mono [OF same] accepted_mono [OF same]
  have parts: "nc_lifecycle w' = nc_lifecycle w" "nc_product w' = nc_product w" "nc_revisions w' = nc_revisions w"
    using assms(2) by (auto simp: kept_but_core_def)
  have "ordered cp w'" using assms(1) parts by (auto simp: lifecycle_inv_def ordered_def)
  moreover have "only_accepted p0 w'" if "undisturbed cp"
    using assms(1,3) that mono parts by (auto simp: lifecycle_inv_def only_accepted_def)
  moreover have "truthful w'" if "t" "clean_faults cp"
    using assms(1,3) that parts unfolding lifecycle_inv_def truthful_def by metis
  ultimately show ?thesis by (simp add: lifecycle_inv_def)
qed

section \<open>Regenerating keeps the invariant\<close>

definition regenerated ::
    "'s ClientPorts \<Rightarrow> Profiles \<Rightarrow> ClashConfig \<Rightarrow> NyanpasuAppConfig \<Rightarrow> 's Client \<Rightarrow> (anyhow + RuntimeSnapshot) \<Rightarrow> 's Client \<Rightarrow> bool" where
  "regenerated cp profiles clash app w r w' \<longleftrightarrow>
     same_rest w w' \<and> nc_core w' = nc_core w \<and>
     (case r of
        Inr s \<Rightarrow> nc_lifecycle w' = (nc_lifecycle w)\<lparr>lf_promoted := Some s\<rparr> \<and> nc_revisions w < sn_revision s \<and>
          built_from cp profiles clash app s \<and> (undisturbed cp \<longrightarrow> nc_product w' = Some (sn_product_bytes s) \<and> accepted w' s)
      | Inl e \<Rightarrow> nc_lifecycle w' = nc_lifecycle w \<and> (clean_faults cp \<longrightarrow> nc_product w' = nc_product w))"

definition allotted :: "u64 \<Rightarrow> 's Client \<Rightarrow> 's Client" where
  "allotted v w = w\<lparr>nc_revisions := v\<rparr>"

lemma allotted_inv: "lifecycle_inv cp p0 t w \<Longrightarrow> nc_revisions w \<le> v \<Longrightarrow> lifecycle_inv cp p0 t (allotted v w)"
  by (force simp: lifecycle_inv_def ordered_def only_accepted_def truthful_def accepted_def fit_to_run_def allotted_def)

lemma promoted_or_not_allotted:
  "promoted_or_not cp s (allotted v w) r w' \<Longrightarrow> nc_revisions w \<le> v \<Longrightarrow> promoted_or_not cp s w r w'"
  by (auto simp: promoted_or_not_def same_rest_def allotted_def split: sum.splits)

lemma next_greater:
  fixes n :: u64
  assumes "n \<noteq> - 1"
  shows "n < n + 1"
proof -
  have "unat (- 1 :: u64) = 2 ^ 64 - 1" by (simp add: unsigned_minus_1_eq_mask mask_eq_exp_minus_1)
  then have "unat n \<noteq> 2 ^ 64 - 1" using assms by (metis unsigned_word_eqI)
  moreover have "unat n < 2 ^ 64" using unsigned_less [of n] by simp
  ultimately show ?thesis by (simp add: word_less_nat_alt unat_word_ariths)
qed

lemma allocate_cases:
  assumes "allocate w = (r, w')"
  obtains "r = Inl ''runtime revision space exhausted''" "w' = w"
  | v where "r = Inr v" "w' = allotted v w" "nc_revisions w < v"
proof (cases "nc_revisions w = - 1")
  case False
  then have "nc_revisions w < nc_revisions w + 1" by (rule next_greater)
  then show thesis using that(2) assms False by (auto simp: allocate_def allotted_def)
qed (use that(1) assms in \<open>simp add: allocate_def\<close>)

lemma kept_product_regenerated:
  assumes "lifecycle_inv cp p0 t w" and "nc_revisions w \<le> v" and "kept_product (allotted v w) w'"
  shows "lifecycle_inv cp p0 t w' \<and> regenerated cp profiles clash app w (Inl e) w'"
proof -
  have "lifecycle_inv cp p0 t w'" by (rule kept_product_inv [OF allotted_inv [OF assms(1,2)] assms(3)])
  then show ?thesis using assms(2,3)
    by (auto simp: regenerated_def kept_product_def kept_def same_rest_def allotted_def)
qed

lemma regenerate_from_allotted:
  assumes inv: "lifecycle_inv cp p0 t w" and v: "nc_revisions w < v" and k: "kept_product (allotted v w) w1"
    and r: "regenerate_runtime_with cp v profiles clash app w1 = (r, w')"
  shows "lifecycle_inv cp p0 t w' \<and> regenerated cp profiles clash app w r w'"
proof -
  have w1: "nc_lifecycle w1 = nc_lifecycle w" "nc_revisions w1 = v"
    using k by (simp_all add: kept_product_def kept_def allotted_def)
  have "sn_revision p < v" if "lf_promoted (nc_lifecycle w1) = Some p" for p
    using that inv v w1(1) by (auto simp: lifecycle_inv_def ordered_def)
  from regenerate_with_result [OF r this] show ?thesis
  proof
    assume "(\<exists>s. promoted_or_not cp s w1 r w' \<and> (\<forall>x. r = Inr x \<longrightarrow> x = s) \<and>
           sn_revision s = v \<and> built_from cp profiles clash app s) \<and> nc_revisions w' = nc_revisions w1"
    then obtain s where s: "promoted_or_not cp s w1 r w'" "\<forall>x. r = Inr x \<longrightarrow> x = s" "sn_revision s = v"
      "built_from cp profiles clash app s" and e: "nc_revisions w' = nc_revisions w1" by blast
    have p: "promoted_or_not cp s w r w'"
      using promoted_or_not_allotted [OF promoted_or_not_first [OF k s(1)]] v by simp
    have "lifecycle_inv cp p0 t w'"
      by (rule promoted_or_not_inv [OF inv p]) (use s v e w1 in \<open>simp_all add: built_from_def\<close>)
    then show ?thesis using p s v by (auto simp: regenerated_def promoted_or_not_def split: sum.splits)
  next
    assume "kept_product w1 w' \<and> (\<exists>e. r = Inl e)"
    then obtain e where "kept_product w1 w'" "r = Inl e" by blast
    then show ?thesis using kept_product_regenerated [OF inv _ kept_product_trans [OF k]] v by auto
  qed
qed

lemma regenerate_runtime_inner_result:
  assumes inv: "lifecycle_inv cp p0 t w" and r: "regenerate_runtime_inner cp w = (r, w')"
  shows "lifecycle_inv cp p0 t w' \<and> regenerated cp (nc_profiles w) (nc_clash_config w) (nc_app_config w) w r w'"
proof -
  obtain r1 w1 where 1: "allocate w = (r1, w1)" by (cases "allocate w")
  then show ?thesis
  proof (cases rule: allocate_cases)
    case 1
    then have "r = Inl ''runtime revision space exhausted''" "w' = w"
      using r by (auto simp: regenerate_runtime_inner_def \<open>allocate w = (r1, w1)\<close> and_next_def)
    then show ?thesis using inv by (simp add: regenerated_def)
  next
    case (2 v)
    let ?w = "allotted v w"
    have k: "kept_product ?w (tick ?w)" "kept_product ?w (tick (tick ?w))" "kept_product ?w (tick (tick (tick ?w)))"
      using kept_product_tick kept_product_trans by blast+
    have docs: "nc_profiles (tick ?w) = nc_profiles w" "nc_clash_config (tick (tick ?w)) = nc_clash_config w"
      "nc_app_config (tick (tick (tick ?w))) = nc_app_config w"
      by (simp_all add: tick_def allotted_def)
    have "(\<exists>e. r = Inl e) \<and> kept_product ?w w' \<or>
      regenerate_runtime_with cp v (nc_profiles w) (nc_clash_config w) (nc_app_config w) (tick (tick (tick ?w))) = (r, w')"
      using r docs k unfolding regenerate_runtime_inner_def 1 2
      by (auto simp: and_next_cases Let_def dest!: call_tick)
    then show ?thesis
      using kept_product_regenerated [OF inv, of v w'] regenerate_from_allotted [OF inv 2(3) k(3)] 2(3) by auto
  qed
qed

lemma regenerate_for_legacy_inner_result:
  assumes inv: "lifecycle_inv cp p0 t w" and r: "regenerate_for_legacy_inner cp w = (r, w')"
  shows "lifecycle_inv cp p0 t w'"
    and "r = Inl e \<Longrightarrow> regenerated cp profiles clash app w r w'"
    and "r = Inr s \<Longrightarrow> \<exists>app clash. legacy_regen_inputs cp w = Inr (app, clash) \<and> regenerated cp (nc_profiles w) clash app w r w'"
proof -
  obtain r1 w1 where 1: "allocate w = (r1, w1)" by (cases "allocate w")
  have "lifecycle_inv cp p0 t w' \<and> (\<forall>e. r = Inl e \<longrightarrow> regenerated cp profiles clash app w r w') \<and>
    (\<forall>s. r = Inr s \<longrightarrow> (\<exists>app clash. legacy_regen_inputs cp w = Inr (app, clash) \<and> regenerated cp (nc_profiles w) clash app w r w'))"
    using 1
  proof (cases rule: allocate_cases)
    case 1
    then have "r = Inl ''runtime revision space exhausted''" "w' = w"
      using r by (auto simp: regenerate_for_legacy_inner_def \<open>allocate w = (r1, w1)\<close> and_next_def)
    then show ?thesis using inv by (simp add: regenerated_def)
  next
    case (2 v)
    let ?w = "allotted v w"
    have in_w: "legacy_regen_inputs cp ?w = legacy_regen_inputs cp w" by (simp add: legacy_regen_inputs_def allotted_def)
    have docs: "nc_profiles (tick ?w) = nc_profiles w" by (simp add: tick_def allotted_def)
    have "(\<exists>e. r = Inl e) \<and> kept_product ?w w' \<or>
      (\<exists>app clash. legacy_regen_inputs cp w = Inr (app, clash) \<and>
         regenerate_runtime_with cp v (nc_profiles w) clash app (tick ?w) = (r, w'))"
      using r docs unfolding regenerate_for_legacy_inner_def 1 2
      by (auto simp: and_next_cases lift_result_def in_w dest!: call_tick)
    then show ?thesis
    proof
      assume "(\<exists>e. r = Inl e) \<and> kept_product ?w w'"
      then show ?thesis using kept_product_regenerated [OF inv, of v w'] 2(3) by auto
    next
      assume "\<exists>app clash. legacy_regen_inputs cp w = Inr (app, clash) \<and>
         regenerate_runtime_with cp v (nc_profiles w) clash app (tick ?w) = (r, w')"
      then obtain app' clash' where a: "legacy_regen_inputs cp w = Inr (app', clash')"
        "regenerate_runtime_with cp v (nc_profiles w) clash' app' (tick ?w) = (r, w')" by blast
      from regenerate_from_allotted [OF inv 2(3) kept_product_tick a(2)] a(1) show ?thesis
        by (auto simp: regenerated_def)
    qed
  qed
  then show "lifecycle_inv cp p0 t w'" and "r = Inl e \<Longrightarrow> regenerated cp profiles clash app w r w'"
    and "r = Inr s \<Longrightarrow> \<exists>app clash. legacy_regen_inputs cp w = Inr (app, clash) \<and> regenerated cp (nc_profiles w) clash app w r w'"
    by blast+
qed

section \<open>Every operation keeps the invariant\<close>

lemma inv_verge [simp]: "lifecycle_inv cp p0 t (nc_verge_update f w) = lifecycle_inv cp p0 t w"
  by (simp add: lifecycle_inv_def ordered_def only_accepted_def truthful_def accepted_def fit_to_run_def)

lemma tick_inv [simp]: "lifecycle_inv cp p0 t w \<Longrightarrow> lifecycle_inv cp p0 t (tick w)"
  using kept_product_inv kept_product_tick by blast

lemma with_lease_cases:
  assumes "with_lease cp m w = (r, w')"
  obtains "r = Inl ''core lifecycle is not available''" "w' = tick w" | "m (tick w) = (r, w')"
  using assms by (auto simp: with_lease_def and_next_cases elim!: client_call_cases)

lemma restart_then_publish:
  assumes inv: "lifecycle_inv cp p0 t w" and s: "lf_promoted (nc_lifecycle w) = Some s"
    and r: "and_next (restart cp w) (\<lambda>_. publish_applied s) = (r, w')"
  shows "lifecycle_inv cp p0 t w' \<and> same_rest w w' \<and> lf_promoted (nc_lifecycle w') = Some s \<and>
    (case r of
       Inr u \<Rightarrow> lf_applied (nc_lifecycle w') = Some s \<and>
         (\<exists>b. nc_product w = Some b \<and> started (selected_core (draft_latest (nc_verge w))) b w')
     | Inl e \<Rightarrow> nc_lifecycle w' = nc_lifecycle w)"
proof -
  obtain r1 w1 where 1: "restart cp w = (r1, w1)" by (cases "restart cp w")
  note res = restart_result [OF 1]
  have k: "kept_but_core w w1" using res by blast
  show ?thesis
  proof (cases r1)
    case (Inl e)
    then have e: "r = Inl e" "w' = w1" using r by (simp_all add: 1 and_next_def)
    have "lifecycle_inv cp p0 t w1" by (rule kept_but_core_inv [OF inv k]) (use res Inl in \<open>auto simp: started_def\<close>)
    then show ?thesis using e k s by (simp add: kept_but_core_def)
  next
    case (Inr u)
    then obtain b where b: "nc_product w = Some b" "started (selected_core (draft_latest (nc_verge w))) b w1"
      using res by auto
    have "lf_promoted (nc_lifecycle w1) = Some s" using k s by (simp add: kept_but_core_def)
    then have w': "r = Inr ()" "w' = set_lifecycle (lf_applied_update (\<lambda>_. Some s)) w1"
      using r Inr by (auto simp: 1 and_next_def publish_applied_promoted)
    have "lifecycle_inv cp p0 t w'"
      unfolding w'(2) by (rule publish_inv [OF inv k s]) (use b in \<open>auto simp: started_def\<close>)
    then show ?thesis using w' b k s by (auto simp: started_def set_lifecycle_def kept_but_core_def same_rest_def)
  qed
qed

lemma apply_then_publish:
  assumes inv: "lifecycle_inv cp p0 t w" and s: "lf_promoted (nc_lifecycle w) = Some s"
    and r: "and_next (apply_promoted cp w) (\<lambda>_. publish_applied s) = (r, w')"
  shows "lifecycle_inv cp p0 t w' \<and> same_rest w w' \<and> lf_promoted (nc_lifecycle w') = Some s \<and>
    (case r of
       Inr u \<Rightarrow> lf_applied (nc_lifecycle w') = Some s \<and> (\<exists>b. nc_product w = Some b \<and> loaded b w w')
     | Inl e \<Rightarrow> nc_lifecycle w' = nc_lifecycle w)"
proof -
  obtain r1 w1 where 1: "apply_promoted cp w = (r1, w1)" by (cases "apply_promoted cp w")
  note res = apply_promoted_result [OF 1]
  note k = res(1)
  show ?thesis
  proof (cases r1)
    case (Inl e)
    then have e: "r = Inl e" "w' = w1" using r by (simp_all add: 1 and_next_def)
    have "lifecycle_inv cp p0 t w1" by (rule kept_but_core_inv [OF inv k]) (use res Inl in \<open>auto simp: loaded_def\<close>)
    then show ?thesis using e k s by (simp add: kept_but_core_def)
  next
    case (Inr u)
    then obtain b where b: "nc_product w = Some b" "loaded b w w1" using res by auto
    have "lf_promoted (nc_lifecycle w1) = Some s" using k s by (simp add: kept_but_core_def)
    then have w': "r = Inr ()" "w' = set_lifecycle (lf_applied_update (\<lambda>_. Some s)) w1"
      using r Inr by (auto simp: 1 and_next_def publish_applied_promoted)
    obtain c where c: "nc_core w1 = Some c" "rc_bytes c = b" "rc_patches c = []" using b(2) by (auto simp: loaded_def)
    have "lifecycle_inv cp p0 t w'"
      unfolding w'(2) by (rule publish_inv [OF inv k s c(1)]) (use b c in simp_all)
    then show ?thesis using w' b k s by (auto simp: loaded_def set_lifecycle_def kept_but_core_def same_rest_def)
  qed
qed

lemma regenerated_promoted: "regenerated cp profiles clash app w (Inr s) w' \<Longrightarrow> lf_promoted (nc_lifecycle w') = Some s"
  by (simp add: regenerated_def)

lemma rebuild_running_config_result:
  assumes inv: "lifecycle_inv cp p0 t w" and r: "rebuild_running_config cp w = (r, w')"
  shows "lifecycle_inv cp p0 t w'"
    and "r = Inr () \<Longrightarrow> \<exists>s b c. lf_promoted (nc_lifecycle w') = Some s \<and> lf_applied (nc_lifecycle w') = Some s \<and>
      built_from cp (nc_profiles w) (nc_clash_config w) (nc_app_config w) s \<and> nc_revisions w < sn_revision s \<and>
      nc_core w = Some c \<and> nc_core w' = Some (c\<lparr>rc_bytes := b, rc_patches := []\<rparr>) \<and> (undisturbed cp \<longrightarrow> b = sn_product_bytes s)"
proof -
  have "lifecycle_inv cp p0 t w' \<and> (r = Inr () \<longrightarrow> (\<exists>s b c. lf_promoted (nc_lifecycle w') = Some s \<and>
      lf_applied (nc_lifecycle w') = Some s \<and> built_from cp (nc_profiles w) (nc_clash_config w) (nc_app_config w) s \<and>
      nc_revisions w < sn_revision s \<and>
      nc_core w = Some c \<and> nc_core w' = Some (c\<lparr>rc_bytes := b, rc_patches := []\<rparr>) \<and> (undisturbed cp \<longrightarrow> b = sn_product_bytes s)))"
    using r unfolding rebuild_running_config_def
  proof (cases rule: with_lease_cases)
    case 1
    then show ?thesis using inv by simp
  next
    case 2
    obtain r1 w1 where 1: "regenerate_runtime_inner cp (tick w) = (r1, w1)" by (cases "regenerate_runtime_inner cp (tick w)")
    note reg = regenerate_runtime_inner_result [OF tick_inv [OF inv] 1]
    show ?thesis
    proof (cases r1)
      case (Inl e)
      then show ?thesis using 2 reg by (auto simp: 1 and_next_def)
    next
      case (Inr s)
      then have p: "lf_promoted (nc_lifecycle w1) = Some s" using reg regenerated_promoted by blast
      have "and_next (apply_promoted cp w1) (\<lambda>_. publish_applied s) = (r, w')"
        using 2 Inr by (simp add: 1 and_next_def)
      from apply_then_publish [OF conjunct1 [OF reg] p this] reg Inr show ?thesis
        by (auto simp: regenerated_def loaded_def tick_def) blast+
    qed
  qed
  then show "lifecycle_inv cp p0 t w'"
    and "r = Inr () \<Longrightarrow> \<exists>s b c. lf_promoted (nc_lifecycle w') = Some s \<and> lf_applied (nc_lifecycle w') = Some s \<and>
      built_from cp (nc_profiles w) (nc_clash_config w) (nc_app_config w) s \<and> nc_revisions w < sn_revision s \<and>
      nc_core w = Some c \<and> nc_core w' = Some (c\<lparr>rc_bytes := b, rc_patches := []\<rparr>) \<and> (undisturbed cp \<longrightarrow> b = sn_product_bytes s)"
    by blast+
qed

lemma regenerate_runtime_inv:
  "lifecycle_inv cp p0 t w \<Longrightarrow> regenerate_runtime cp w = (r, w') \<Longrightarrow> lifecycle_inv cp p0 t w'"
  "lifecycle_inv cp p0 t w \<Longrightarrow> regenerate_runtime_for_legacy cp w = (r, w') \<Longrightarrow> lifecycle_inv cp p0 t w'"
  unfolding regenerate_runtime_def regenerate_runtime_for_legacy_def
  by (erule with_lease_cases; auto simp: and_next_cases done_with_def
      dest: regenerate_runtime_inner_result [OF tick_inv] regenerate_for_legacy_inner_result(1) [OF tick_inv])+

lemma legacy_rebuild_inv:
  assumes inv: "lifecycle_inv cp p0 t w"
    and r: "regenerate_and_apply_for_legacy cp w = (r, w') \<or> regenerate_and_restart_for_legacy cp w = (r, w')"
  shows "lifecycle_inv cp p0 t w'"
proof -
  obtain r1 w1 where 1: "regenerate_for_legacy_inner cp (tick w) = (r1, w1)" by (cases "regenerate_for_legacy_inner cp (tick w)")
  note reg = regenerate_for_legacy_inner_result [OF tick_inv [OF inv] 1]
  have "w' = tick w \<or> and_next (r1, w1) (\<lambda>s w. and_next (apply_promoted cp w) (\<lambda>_. publish_applied s)) = (r, w') \<or>
      and_next (r1, w1) (\<lambda>s w. and_next (restart cp w) (\<lambda>_. publish_applied s)) = (r, w')"
    using r unfolding regenerate_and_apply_for_legacy_def regenerate_and_restart_for_legacy_def
    by (auto elim!: with_lease_cases simp: 1)
  then show ?thesis
  proof (cases r1)
    case (Inr s)
    then have p: "lf_promoted (nc_lifecycle w1) = Some s" using reg(3) regenerated_promoted by blast
    show ?thesis using \<open>w' = tick w \<or> _\<close> Inr inv apply_then_publish [OF reg(1) p] restart_then_publish [OF reg(1) p]
      by (auto simp: and_next_def)
  qed (use reg(1) inv in \<open>auto simp: and_next_def\<close>)
qed

lemma start_promoted_runtime_inv:
  assumes inv: "lifecycle_inv cp p0 t w" and r: "start_promoted_runtime cp w = (r, w')"
  shows "lifecycle_inv cp p0 t w'"
proof (cases "lf_promoted (nc_lifecycle w)")
  case None
  then show ?thesis using r inv by (simp add: start_promoted_runtime_def fail_with_def)
next
  case (Some s)
  then have "with_lease cp (\<lambda>w. and_next (restart cp w) (\<lambda>_. publish_applied s)) w = (r, w')"
    using r by (simp add: start_promoted_runtime_def)
  then show ?thesis
  proof (cases rule: with_lease_cases)
    case 2
    have "lf_promoted (nc_lifecycle (tick w)) = Some s" using Some by (simp add: tick_def)
    from restart_then_publish [OF tick_inv [OF inv] this 2] show ?thesis by blast
  qed (use inv in simp)
qed

lemma promote_snapshot_inv:
  assumes inv: "lifecycle_inv cp p0 t w" and v: "nc_revisions w < v" and k: "kept_product (allotted v w) w1"
    and r: "promote_with_lease cp s w1 = (r, w')" and s: "snapshot_wf cp s" "sn_revision s = v"
  shows "lifecycle_inv cp p0 t w'"
proof -
  have w1: "nc_lifecycle w1 = nc_lifecycle w" "nc_revisions w1 = v"
    using k by (simp_all add: kept_product_def kept_def allotted_def)
  have "newer s w1" using inv v s(2) w1(1) by (auto simp: newer_def lifecycle_inv_def ordered_def)
  with promote_with_lease_result [OF r] have p: "promoted_or_not cp s w1 r w'" "nc_revisions w' = v" using w1(2) by simp_all
  have "promoted_or_not cp s w r w'"
    using promoted_or_not_allotted [OF promoted_or_not_first [OF k p(1)]] v by simp
  then show ?thesis by (rule promoted_or_not_inv [OF inv _ s(1)]) (use s(2) v p(2) in simp_all)
qed

lemma promote_default_runtime_config_inv:
  assumes inv: "lifecycle_inv cp p0 t w" and r: "promote_default_runtime_config cp w = (r, w')"
  shows "lifecycle_inv cp p0 t w'"
proof -
  obtain r1 w1 where 1: "allocate w = (r1, w1)" by (cases "allocate w")
  then show ?thesis
  proof (cases rule: allocate_cases)
    case 1
    then show ?thesis using r inv by (simp add: promote_default_runtime_config_def \<open>allocate w = (r1, w1)\<close> and_next_def)
  next
    case (2 v)
    have "w' = allotted v w \<or> (\<exists>s. promote_with_lease cp s (allotted v w) = (r, w') \<and> snapshot_wf cp s \<and> sn_revision s = v)"
      using r unfolding promote_default_runtime_config_def 1 2
      by (auto simp: and_next_cases lift_result_def Let_def snapshot_wf_def from_data_def)
    then show ?thesis using allotted_inv [OF inv] promote_snapshot_inv [OF inv 2(3) kept_refl(2)] 2(3) by auto
  qed
qed

lemma kept_inv:
  assumes "lifecycle_inv cp p0 t w" and "kept w w'" and "undisturbed cp \<Longrightarrow> kept_product w w'"
  shows "lifecycle_inv cp p0 t w'"
proof (cases "undisturbed cp")
  case True
  then show ?thesis using kept_product_inv [OF assms(1)] assms(3) by blast
next
  case False
  then show ?thesis using assms(1,2) by (auto simp: lifecycle_inv_def ordered_def kept_def clean_faults_def)
qed

lemma promote_existing_runtime_product_inv:
  assumes inv: "lifecycle_inv cp p0 t w" and r: "promote_existing_runtime_product cp w = (r, w')"
  shows "lifecycle_inv cp p0 t w'"
proof -
  obtain r1 w1 where 1: "allocate w = (r1, w1)" by (cases "allocate w")
  then show ?thesis
  proof (cases rule: allocate_cases)
    case 1
    then show ?thesis using r inv
      by (simp add: promote_existing_runtime_product_def \<open>allocate w = (r1, w1)\<close> and_next_def)
  next
    case (2 v)
    obtain r2 w2 where b: "read_existing_product cp (allotted v w) = (r2, w2)" by (cases "read_existing_product cp (allotted v w)")
    note k = read_existing_product_keeps [OF b]
    have i2: "lifecycle_inv cp p0 t w2"
      by (rule kept_inv [OF allotted_inv [OF inv, of v]]) (use 2(3) k in auto)
    have "w' = w2 \<or> w' = tick w2 \<or>
        (\<exists>s r3. promote_with_lease cp s (tick w2) = (r3, w') \<and> snapshot_wf cp s \<and> sn_revision s = v)"
      using r unfolding promote_existing_runtime_product_def 1 2
      by (auto simp: and_next_cases lift_result_def Let_def b done_with_def snapshot_wf_def from_data_def dest!: call_tick)
    then show ?thesis
    proof (elim disjE exE conjE)
      fix s r3
      assume p: "promote_with_lease cp s (tick w2) = (r3, w')" "snapshot_wf cp s" "sn_revision s = v"
      define w0 where "w0 = w2\<lparr>nc_revisions := nc_revisions w\<rparr>"
      have w0: "w2 = allotted v w0" "nc_revisions w0 < v"
        using k(1) 2(3) by (simp_all add: w0_def allotted_def kept_def)
      have "lifecycle_inv cp p0 t w0"
      proof (rule kept_inv [OF inv])
        show "kept w w0" using k(1) by (simp add: w0_def kept_def same_rest_def allotted_def)
        show "kept_product w w0" if "undisturbed cp"
          using k(2) [OF that] by (simp add: w0_def kept_product_def kept_def same_rest_def allotted_def)
      qed
      from promote_snapshot_inv [OF this w0(2) _ p] show ?thesis using w0(1) kept_product_tick by metis
    qed (use i2 in simp_all)
  qed
qed

text \<open>The world before a switch, with the state of the core of now: what the rollback goes back to.\<close>

definition rolled_back :: "string option \<Rightarrow> RuntimeLifecycleState \<Rightarrow> 's Client \<Rightarrow> 's Client" where
  "rolled_back product lifecycle w = w\<lparr>nc_lifecycle := lifecycle, nc_product := product\<rparr>"

lemma rolled_back_step:
  assumes "lifecycle_inv cp p0 t (rolled_back product lifecycle w)" and same: "same_rest w w'"
    and "\<And>c. nc_core w' = Some c \<Longrightarrow>
      nc_core w = Some c \<or> (undisturbed cp \<longrightarrow> fit_to_run p0 w' (rc_bytes c)) \<and> \<not> (t \<and> clean_faults cp)"
  shows "lifecycle_inv cp p0 t (rolled_back product lifecycle w')"
proof -
  let ?w = "rolled_back product lifecycle w" and ?w' = "rolled_back product lifecycle w'"
  have same': "same_rest ?w ?w'" using same by (simp add: same_rest_def rolled_back_def)
  have fit: "fit_to_run p0 ?w' b = fit_to_run p0 w' b" for b by (simp add: fit_to_run_def rolled_back_def)
  have mono: "fit_to_run p0 ?w b \<Longrightarrow> fit_to_run p0 w' b" "accepted ?w s \<Longrightarrow> accepted ?w' s" for b s
    using fit_to_run_mono [OF same', of p0 b] accepted_mono [OF same'] by (simp_all add: fit)
  have parts: "nc_lifecycle ?w' = nc_lifecycle ?w" "nc_product ?w' = nc_product ?w" "nc_core ?w' = nc_core w'"
    "nc_core ?w = nc_core w" "nc_revisions ?w \<le> nc_revisions ?w'"
    using same by (simp_all add: rolled_back_def same_rest_def)
  have "ordered cp ?w'" using assms(1) parts by (force simp: lifecycle_inv_def ordered_def)
  moreover have "only_accepted p0 ?w'" if "undisturbed cp"
    using assms(1,3) that mono parts fit by (auto simp: lifecycle_inv_def only_accepted_def)
  moreover have "truthful ?w'" if "t" "clean_faults cp"
    using assms(1,3) that parts unfolding lifecycle_inv_def truthful_def by metis
  ultimately show ?thesis by (simp add: lifecycle_inv_def)
qed

lemma restore_captured_product_keeps:
  assumes "restore_captured_product cp product w = (r, w')"
  shows "kept w w'" and "r = Inr () \<Longrightarrow> nc_product w' = product"
    and "nc_product w' = product \<or> nc_product w' = nc_product w"
    and "clean_faults cp \<Longrightarrow> r = Inl e \<Longrightarrow> nc_product w' = nc_product w"
proof -
  have "kept w w' \<and> (r = Inr () \<longrightarrow> nc_product w' = product) \<and> (nc_product w' = product \<or> nc_product w' = nc_product w) \<and>
    (clean_faults cp \<longrightarrow> (\<forall>e. r = Inl e \<longrightarrow> nc_product w' = nc_product w))"
  proof (cases product)
    case (Some b)
    then have "restore_product cp b w = (r, w')" using assms by (simp add: restore_captured_product_def)
    from restore_product_keeps [OF this] Some show ?thesis by auto
  next
    case None
    show ?thesis
    proof (cases "nc_product w = None")
      case True
      then have "r = Inr ()" "w' = tick w" using assms None by (simp_all add: restore_captured_product_def done_with_def)
      then show ?thesis using None True by (simp add: kept_def same_rest_def tick_def)
    next
      case False
      then have "client_call cp RemoveProduct io_error (nc_product_update (\<lambda>_. None)) w = (r, w')"
        using assms unfolding restore_captured_product_def None by (simp only: option.case if_False)
      then show ?thesis by (rule client_call_cases) (simp_all add: kept_def same_rest_def tick_def None)
    qed
  qed
  then show "kept w w'" and "r = Inr () \<Longrightarrow> nc_product w' = product"
    and "nc_product w' = product \<or> nc_product w' = nc_product w"
    and "clean_faults cp \<Longrightarrow> r = Inl e \<Longrightarrow> nc_product w' = nc_product w"
    by blast+
qed

text \<open>What can be running after a rollback.\<close>

definition old_core_or_none :: "ClashCore \<Rightarrow> 's Client \<Rightarrow> 's Client \<Rightarrow> bool" where
  "old_core_or_none core w w' \<longleftrightarrow>
     nc_core w' = nc_core w \<or> nc_core w' = None \<or> (\<exists>b. started core b w')"

lemma roll_back_core_result:
  assumes inv: "lifecycle_inv cp p0 t w" and old: "lifecycle_inv cp p0 t (rolled_back product lifecycle w)"
    and r: "roll_back_core cp product lifecycle msg w = (r, w')" and applied: "lf_applied (nc_lifecycle w) = lf_applied lifecycle"
  shows "lifecycle_inv cp p0 t w' \<and> (\<exists>e. r = Inl e) \<and> nc_verge w' = draft_discard (nc_verge w) \<and>
    old_core_or_none (selected_core (dr_data (nc_verge w))) w w'"
proof -
  let ?w = "discard_verge w"
  have d: "lifecycle_inv cp p0 t ?w" using inv by (simp add: discard_verge_def)
  have latest: "draft_latest (nc_verge ?w) = dr_data (nc_verge w)"
    by (simp add: discard_verge_def draft_discard_def draft_latest_def)
  obtain r1 w1 where 1: "regenerate_for_legacy_inner cp ?w = (r1, w1)" by (cases "regenerate_for_legacy_inner cp ?w")
  note reg = regenerate_for_legacy_inner_result [OF d 1]
  obtain prof clash app where g: "regenerated cp prof clash app ?w r1 w1"
  proof (cases r1)
    case (Inl e)
    then show thesis using reg(2) that by blast
  next
    case (Inr s)
    obtain app clash where "regenerated cp (nc_profiles ?w) clash app ?w r1 w1" using reg(3) [OF Inr] by blast
    then show thesis by (rule that)
  qed
  have w1: "same_rest ?w w1" "nc_core w1 = nc_core w" using g by (auto simp: regenerated_def discard_verge_def)
  have v1: "nc_verge w1 = draft_discard (nc_verge w)" using w1(1) by (simp add: same_rest_def discard_verge_def)
  have sel: "selected_core (draft_latest (nc_verge w1)) = selected_core (dr_data (nc_verge w))"
    using v1 latest by (simp add: discard_verge_def)
  obtain r2 w2 where 2: "restart cp w1 = (r2, w2)" by (cases "restart cp w1")
  show ?thesis
  proof (cases r1)
    case (Inr s)
    have p: "lf_promoted (nc_lifecycle w1) = Some s" using reg(3) [OF Inr] Inr regenerated_promoted by blast
    obtain r3 w3 where 3: "and_next (r2, w2) (\<lambda>_. publish_applied s) = (r3, w3)" by (cases "and_next (r2, w2) (\<lambda>_. publish_applied s)")
    have pub: "and_next (restart cp w1) (\<lambda>_. publish_applied s) = (r3, w3)" using 2 3 by simp
    note ends = restart_then_publish [OF reg(1) p pub]
    have res: "w' = w3 \<and> (\<exists>e. r = Inl e)"
    proof (cases r2)
      case (Inl e)
      then show ?thesis using r 3 by (auto simp: roll_back_core_def 1 \<open>r1 = Inr s\<close> 2 fail_with_def and_next_def)
    next
      case (Inr u)
      then show ?thesis using r 3 by (auto simp: roll_back_core_def 1 \<open>r1 = Inr s\<close> 2 and_next_cases fail_with_def)
    qed
    have core3: "nc_core w3 = nc_core w2"
      using 3 by (auto simp: and_next_cases publish_applied_def done_with_def fail_with_def set_lifecycle_def
          split: option.splits if_splits)
    have "old_core_or_none (selected_core (dr_data (nc_verge w))) w w3"
      using restart_result [OF 2] core3 w1(2) sel by (auto simp: old_core_or_none_def started_def)
    then show ?thesis using ends res v1 by (auto simp: same_rest_def)
  next
    case (Inl e)
    have same_life: "nc_lifecycle w1 = nc_lifecycle w"
      using g Inl by (simp add: regenerated_def discard_verge_def)
    obtain r3 w3 where 3: "restore_captured_product cp product w1 = (r3, w3)" by (cases "restore_captured_product cp product w1")
    note res3 = restore_captured_product_keeps [OF 3]
    have old1: "lifecycle_inv cp p0 t (rolled_back product lifecycle w1)"
    proof (rule rolled_back_step)
      show "lifecycle_inv cp p0 t (rolled_back product lifecycle ?w)"
        using old by (simp add: rolled_back_def discard_verge_def lifecycle_inv_def ordered_def only_accepted_def truthful_def
            accepted_def fit_to_run_def)
    qed (use w1 in \<open>auto simp: discard_verge_def\<close>)
    have old3: "lifecycle_inv cp p0 t (rolled_back product lifecycle w3)"
      by (rule rolled_back_step [OF old1]) (use res3(1) in \<open>auto simp: kept_def\<close>)
    have v3: "nc_verge w3 = draft_discard (nc_verge w)" "nc_core w3 = nc_core w"
      using res3(1) v1 w1(2) by (auto simp: kept_def same_rest_def)
    show ?thesis
    proof (cases r3)
      case (Inl e3)
      then have w': "w' = w3" "\<exists>e. r = Inl e"
        using r by (auto simp: roll_back_core_def 1 \<open>r1 = Inl e\<close> 3 fail_with_def)
      have "fit_to_run p0 w3 b" if "nc_product w3 = Some b" "undisturbed cp" for b
      proof -
        have "fit_to_run p0 (rolled_back product lifecycle w3) b \<or> fit_to_run p0 w1 b"
        proof (cases "nc_product w3 = product")
          case True
          then have "nc_product (rolled_back product lifecycle w3) = Some b" using that by (simp add: rolled_back_def)
          then show ?thesis using old3 that(2) unfolding lifecycle_inv_def only_accepted_def by blast
        next
          case False
          then have "nc_product w1 = Some b" using res3(3) that by auto
          then show ?thesis using reg(1) that(2) unfolding lifecycle_inv_def only_accepted_def by blast
        qed
        moreover have "same_rest w1 w3" using res3(1) by (simp add: kept_def)
        ultimately show ?thesis using fit_to_run_mono by (auto simp: fit_to_run_def rolled_back_def same_rest_def)
      qed
      then have "lifecycle_inv cp p0 t w3"
        using reg(1) res3(1) res3(4) [OF _ Inl] fit_to_run_mono [of w1 w3] accepted_mono [of w1 w3]
        by (auto simp: lifecycle_inv_def ordered_def only_accepted_def truthful_def kept_def)
      then show ?thesis using w' v3 by (simp add: old_core_or_none_def)
    next
      case (Inr u)
      let ?w4 = "set_lifecycle (lf_promoted_update (\<lambda>_. lf_promoted lifecycle)) w3"
      have life3: "nc_lifecycle w3 = nc_lifecycle w" using res3(1) same_life by (simp add: kept_def)
      have "nc_lifecycle ?w4 = lifecycle" using applied life3 by (cases lifecycle) (simp add: set_lifecycle_def)
      then have w4: "?w4 = rolled_back product lifecycle w3"
        using res3(2) Inr by (simp add: set_lifecycle_def rolled_back_def)
      have i4: "lifecycle_inv cp p0 t ?w4" using old3 w4 by simp
      have v4: "nc_verge ?w4 = draft_discard (nc_verge w)" "nc_core ?w4 = nc_core w" using v3 by (simp_all add: set_lifecycle_def)
      obtain r5 w5 where 5: "restart cp ?w4 = (r5, w5)" by (cases "restart cp ?w4")
      note res5 = restart_result [OF 5]
      have sel4: "selected_core (draft_latest (nc_verge ?w4)) = selected_core (dr_data (nc_verge w))"
        using v4(1) latest by (simp add: discard_verge_def)
      have oc: "old_core_or_none (selected_core (dr_data (nc_verge w))) w w5"
        using res5 v4(2) sel4 by (auto simp: old_core_or_none_def)
      have v5: "nc_verge w5 = draft_discard (nc_verge w)" using res5 v4 by (simp add: kept_but_core_def same_rest_def)
      have i5: "lifecycle_inv cp p0 t w5" if "\<exists>e. r5 = Inl e"
        by (rule kept_but_core_inv [OF i4]) (use res5 that in \<open>auto simp: started_def\<close>)
      have e: "(r, w') = (case (r5, w5) of
             (Inl restart_error, w) \<Rightarrow> fail_with (''old core restart failed: '' @ restart_error) w
           | (Inr u, w) \<Rightarrow>
               and_next (case lf_promoted lifecycle of
                           Some restored \<Rightarrow> publish_applied restored w
                         | None \<Rightarrow> done_with () w)
                 (\<lambda>_. fail_with (''rollback rebuild failed: '' @ e @ ''; restored previous product'')))"
        unfolding r [symmetric] roll_back_core_def 1 \<open>r1 = Inl e\<close> prod.case sum.case 3 Inr
        by (simp only: and_next_def prod.case sum.case restore_promoted_def done_with_def 5)
      show ?thesis
      proof (cases "lf_promoted lifecycle")
        case None
        have res: "w' = w5" "\<exists>e. r = Inl e" using e None
          by (cases r5; simp add: done_with_def fail_with_def and_next_def)+
        have "lifecycle_inv cp p0 t w5"
        proof -
          have none: "lf_promoted (nc_lifecycle w5) = None" "lf_applied (nc_lifecycle w5) = None"
            using res5 None i4 \<open>nc_lifecycle ?w4 = lifecycle\<close> by (auto simp: kept_but_core_def lifecycle_inv_def ordered_def)
          have "fit_to_run p0 w5 (rc_bytes c)" if "nc_core w5 = Some c" "undisturbed cp" for c
          proof -
            have "nc_core ?w4 = Some c \<or> nc_product ?w4 = Some (rc_bytes c)" using res5 that by (auto simp: started_def)
            then have "fit_to_run p0 ?w4 (rc_bytes c)" using i4 that by (auto simp: lifecycle_inv_def only_accepted_def)
            then show ?thesis using res5 fit_to_run_mono by (auto simp: kept_but_core_def)
          qed
          moreover have "fit_to_run p0 w5 b" if "nc_product w5 = Some b" "undisturbed cp" for b
          proof -
            have "fit_to_run p0 ?w4 b" using i4 that res5 by (auto simp: lifecycle_inv_def only_accepted_def kept_but_core_def)
            then show ?thesis using res5 fit_to_run_mono by (auto simp: kept_but_core_def)
          qed
          ultimately show ?thesis using none by (simp add: lifecycle_inv_def ordered_def only_accepted_def truthful_def)
        qed
        then show ?thesis using res v5 oc by simp
      next
        case (Some s)
        obtain r6 w6 where 6: "and_next (r5, w5) (\<lambda>_. publish_applied s) = (r6, w6)"
          by (cases "and_next (r5, w5) (\<lambda>_. publish_applied s)")
        have p4: "lf_promoted (nc_lifecycle ?w4) = Some s" using Some by (simp add: set_lifecycle_def)
        have pub: "and_next (restart cp ?w4) (\<lambda>_. publish_applied s) = (r6, w6)" using 5 6 by simp
        note ends = restart_then_publish [OF i4 p4 pub]
        have res: "w' = w6 \<and> (\<exists>e. r = Inl e)"
          using e Some 6 by (cases r5) (auto simp: and_next_cases fail_with_def and_next_def split: sum.splits prod.splits)
        have "nc_core w6 = nc_core w5"
          using 6 by (auto simp: and_next_cases publish_applied_def done_with_def fail_with_def set_lifecycle_def
              split: option.splits if_splits)
        then have "old_core_or_none (selected_core (dr_data (nc_verge w))) w w6" using oc by (simp add: old_core_or_none_def started_def)
        moreover have "nc_verge w6 = draft_discard (nc_verge w)" using ends v4 by (simp add: same_rest_def)
        ultimately show ?thesis using ends res by simp
      qed
    qed
  qed
qed

lemma read_product_value: "read_product cp w = (Inr p, w') \<Longrightarrow> nc_product w' = p"
  by (auto simp: read_product_def tick_def split: fate.splits)

lemma change_core_result:
  assumes inv: "lifecycle_inv cp p0 t w" and r: "change_core cp c w = (r, w')"
  shows "lifecycle_inv cp p0 t w' \<and>
    (case r of
       Inr u \<Rightarrow>
         dr_draft (nc_verge w') = None \<and> vg_clash_core (dr_data (nc_verge w')) = Some c \<and>
         (\<exists>s b app clash. lf_promoted (nc_lifecycle w') = Some s \<and> lf_applied (nc_lifecycle w') = Some s \<and> started c b w' \<and>
           (undisturbed cp \<longrightarrow> b = sn_product_bytes s) \<and>
           cp_typed_config cp (dr_data (nc_verge w')) (draft_latest (nc_clash w)) = Inr (app, clash) \<and>
           built_from cp (nc_profiles w) clash app s)
     | Inl e \<Rightarrow>
         (nc_verge w' = nc_verge w \<or> nc_verge w' = draft_discard (nc_verge w)) \<and>
         (clean_faults cp \<longrightarrow> old_core_or_none (selected_core (dr_data (nc_verge w))) w w'))"
  using r unfolding change_core_def
proof (cases rule: with_lease_cases)
  case 1
  then show ?thesis using inv by (simp add: tick_def old_core_or_none_def) (simp add: tick_inv [unfolded tick_def])
next
  case 2
  note run = 2
  obtain r0 w0 where 0: "read_product cp (tick w) = (r0, w0)" by (cases "read_product cp (tick w)")
  note k0 = read_product_keeps [OF 0]
  have i0: "lifecycle_inv cp p0 t w0" by (rule kept_inv [OF tick_inv [OF inv]]) (use k0 in auto)
  have same0: "nc_core w0 = nc_core w" "nc_verge w0 = nc_verge w" "nc_clash w0 = nc_clash w" "nc_profiles w0 = nc_profiles w"
    using k0(1) by (auto simp: kept_def same_rest_def tick_def)
  show ?thesis
  proof (cases r0)
    case (Inl e)
    then have "r = Inl e" "w' = w0" using 2 by (simp_all add: 0 and_next_def)
    then show ?thesis using i0 same0 by (simp add: old_core_or_none_def)
  next
    case (Inr product)
    let ?w = "w0\<lparr>nc_verge := draft_edit (vg_clash_core_update (\<lambda>_. Some c)) (nc_verge w0)\<rparr>"
    obtain r1 w1 where 1: "regenerate_for_legacy_inner cp ?w = (r1, w1)" by (cases "regenerate_for_legacy_inner cp ?w")
    have iw: "lifecycle_inv cp p0 t ?w" using i0 by simp
    note reg = regenerate_for_legacy_inner_result [OF iw 1]
    show ?thesis
    proof (cases r1)
      case (Inl e)
      have g: "regenerated cp prof clash app ?w (Inl e) w1" for prof clash app using reg(2) [OF Inl] Inl by simp
      have "r = Inl e" "w' = discard_verge w1" using 2 Inl \<open>r0 = Inr product\<close>
        by (simp_all add: 0 and_next_def Let_def 1 fail_with_def)
      then show ?thesis using reg(1) g same0
        by (simp add: regenerated_def same_rest_def discard_verge_def draft_discard_def draft_edit_def old_core_or_none_def)
    next
      case (Inr s)
      obtain app clash where in1: "legacy_regen_inputs cp ?w = Inr (app, clash)" and
        g: "regenerated cp (nc_profiles ?w) clash app ?w (Inr s) w1" using reg(3) [OF Inr] Inr by blast
      have same1: "same_rest ?w w1" "nc_core w1 = nc_core w" using g same0 by (auto simp: regenerated_def)
      have v1: "nc_verge w1 = draft_edit (vg_clash_core_update (\<lambda>_. Some c)) (nc_verge w)"
        using same1(1) same0(2) by (simp add: same_rest_def)
      have sel: "selected_core (draft_latest (nc_verge w1)) = c"
        by (simp add: v1 draft_edit_def draft_latest_def selected_core_def)
      obtain r2 w2 where 2: "restart cp w1 = (r2, w2)" by (cases "restart cp w1")
      note res = restart_result [OF 2]
      have k2: "kept_but_core w1 w2" using res by blast
      have v2: "nc_verge w2 = draft_edit (vg_clash_core_update (\<lambda>_. Some c)) (nc_verge w)"
        using k2 v1 by (simp add: kept_but_core_def same_rest_def)
      have p1: "lf_promoted (nc_lifecycle w1) = Some s" by (rule regenerated_promoted [OF g])
      have e: "(r, w') = (case r2 of
          Inr u \<Rightarrow> publish_applied s
                   (snd (client_call cp SaveVerge io_error (\<lambda>w. w) (w2\<lparr>nc_verge := draft_apply (nc_verge w2)\<rparr>)))
        | Inl new_core_error \<Rightarrow> roll_back_core cp product (nc_lifecycle w0) new_core_error w2)"
        unfolding run [symmetric] 0 \<open>r0 = Inr product\<close>
        by (simp add: and_next_def Let_def 1 Inr 2 split: sum.splits)
      show ?thesis
      proof (cases r2)
        case (Inr u)
        obtain b where b: "nc_product w1 = Some b" "started c b w2" using res Inr sel by auto
        let ?w3 = "w2\<lparr>nc_verge := draft_apply (nc_verge w2)\<rparr>"
        have save: "snd (client_call cp SaveVerge io_error (\<lambda>w. w) ?w3) = tick ?w3"
          by (cases "client_call cp SaveVerge io_error (\<lambda>w. w) ?w3") (auto dest: call_tick)
        have p3: "lf_promoted (nc_lifecycle (tick ?w3)) = Some s" using p1 k2 by (simp add: kept_but_core_def tick_def)
        have w': "r = Inr ()" "w' = set_lifecycle (lf_applied_update (\<lambda>_. Some s)) (tick ?w3)"
          using e Inr by (simp_all add: save publish_applied_promoted [OF p3])
        let ?w1 = "w1\<lparr>nc_verge := draft_apply (nc_verge w2)\<rparr>"
        have "kept_but_core ?w1 (tick ?w3)" using k2 by (simp add: kept_but_core_def same_rest_def tick_def)
        then have "lifecycle_inv cp p0 t w'"
          unfolding w'(2)
          by (rule publish_inv [where w = ?w1 and c = "\<lparr>rc_type = c, rc_bytes = b, rc_patches = []\<rparr>", rotated])
             (use reg(1) p1 b in \<open>simp_all add: started_def tick_def\<close>)
        moreover have "nc_verge w' = draft_apply (nc_verge w2)" using w'(2) by (simp add: set_lifecycle_def tick_def)
        then have "dr_draft (nc_verge w') = None \<and> dr_data (nc_verge w') = draft_latest (nc_verge ?w)"
          using v2 same0(2) by (simp add: draft_apply_def draft_edit_def draft_latest_def)
        moreover have "vg_clash_core (draft_latest (nc_verge ?w)) = Some c" by (simp add: draft_edit_def draft_latest_def)
        moreover have "b = sn_product_bytes s" if "undisturbed cp" using g that b(1) by (simp add: regenerated_def)
        moreover have "started c b w'" using b(2) w'(2) by (simp add: started_def set_lifecycle_def tick_def)
        moreover have "lf_promoted (nc_lifecycle w') = Some s" "lf_applied (nc_lifecycle w') = Some s"
          using w'(2) p3 by (simp_all add: set_lifecycle_def)
        moreover have "built_from cp (nc_profiles w) clash app s" using g same0(4) by (simp add: regenerated_def)
        moreover have "cp_typed_config cp (draft_latest (nc_verge ?w)) (draft_latest (nc_clash w)) = Inr (app, clash)"
          using in1 same0(3) by (simp add: legacy_regen_inputs_def)
        ultimately show ?thesis using w'(1) by (simp only: sum.case) metis
      next
        case (Inl msg)
        have rb: "roll_back_core cp product (nc_lifecycle w0) msg w2 = (r, w')" using e Inl by simp
        have i2: "lifecycle_inv cp p0 t w2"
          by (rule kept_but_core_inv [OF reg(1) k2]) (use res Inl in \<open>auto simp: started_def\<close>)
        have prod: "nc_product w0 = product" using read_product_value 0 \<open>r0 = Inr product\<close> by blast
        have "rolled_back product (nc_lifecycle w0) ?w = ?w" by (simp add: rolled_back_def prod [symmetric])
        then have old: "lifecycle_inv cp p0 t (rolled_back product (nc_lifecycle w0) ?w)" using iw by simp
        have same2: "same_rest ?w w2" using same1(1) k2 same_rest_trans by (auto simp: kept_but_core_def)
        have core2: "nc_core w2 = nc_core ?w \<or> nc_core w2 = None \<or>
            \<not> clean_faults cp \<and> (\<exists>b. nc_product w1 = Some b \<and> started c b w2)"
          using res Inl sel same0(1) same1(2) by auto
        have old2: "lifecycle_inv cp p0 t (rolled_back product (nc_lifecycle w0) w2)"
        proof (rule rolled_back_step [OF old same2])
          fix d assume d: "nc_core w2 = Some d"
          have "fit_to_run p0 w2 (rc_bytes d)" if "undisturbed cp"
            using i2 d that by (simp add: lifecycle_inv_def only_accepted_def)
          then show "nc_core ?w = Some d \<or>
              (undisturbed cp \<longrightarrow> fit_to_run p0 w2 (rc_bytes d)) \<and> \<not> (t \<and> clean_faults cp)"
            using core2 d by auto
        qed
        have life2: "lf_applied (nc_lifecycle w2) = lf_applied (nc_lifecycle w0)"
          using g k2 by (simp add: regenerated_def kept_but_core_def)
        have data2: "dr_data (nc_verge w2) = dr_data (nc_verge w)" using v2 by (simp add: draft_edit_def)
        note fin = roll_back_core_result [OF i2 old2 rb life2]
        have "old_core_or_none (selected_core (dr_data (nc_verge w))) w w'" if "clean_faults cp"
          using fin core2 that same0(1) data2 by (auto simp: old_core_or_none_def)
        moreover have "nc_verge w' = draft_discard (nc_verge w)"
          using fin v2 by (simp add: draft_discard_def draft_edit_def)
        ultimately show ?thesis using fin by auto
      qed
    qed
  qed
qed

end
