(* ===== verification/Runtime_Patch.thy ===== *)
theory Runtime_Patch
  imports Runtime_Lifecycle
begin

text \<open>
  Changing a setting of the running core (\<^verbatim>\<open>NyanpasuClient::patch_running_config\<close> of \<^verbatim>\<open>client/mod.rs\<close>,
  \<^verbatim>\<open>feat::patch_clash_with_rebuild\<close>, \<^verbatim>\<open>compensation_for\<close> of \<^verbatim>\<open>client/runtime.rs\<close>, \<^verbatim>\<open>IClashTemp\<close> of \<^verbatim>\<open>config/clash\<close>):
  the patch goes to the core first, then into the legacy settings, from which the configuration is built again; when the
  rebuild fails, the Applied configuration is loaded back into the core.

  \<^item> A panic ends the operation with an error and leaves the draft of the settings where it was.
  \<^item> System proxy, tray and UI refresh after the rebuild change nothing here and are left out.
\<close>

section \<open>Legacy Clash settings\<close>

definition yaml_get :: "string \<Rightarrow> YamlMapping \<Rightarrow> YamlValue option" where
  "yaml_get key m = map_of m (YString key)"

definition patch_config :: "YamlMapping \<Rightarrow> YamlMapping \<Rightarrow> YamlMapping" where
  "patch_config patch m = fold (\<lambda>(k, v). im_insert k v) patch m"

fun yaml_as_u64 :: "YamlValue \<Rightarrow> u64 option" where
  "yaml_as_u64 (YNumber (YPosInt n)) = Some n"
| "yaml_as_u64 _ = None"

text \<open>\<^verbatim>\<open>u as u16\<close> keeps the low bits; the port 0 is no port.\<close>

definition guard_mixed_port :: "YamlMapping \<Rightarrow> u16" where
  "guard_mixed_port config =
     (let port = (case yaml_get ''mixed-port'' config of
          Some (YString s) \<Rightarrow> (case parse_usize s of Some n \<Rightarrow> if n < 2 ^ 16 then of_nat n else 7890 | None \<Rightarrow> 7890)
        | Some v \<Rightarrow> (case yaml_as_u64 v of Some n \<Rightarrow> ucast n | None \<Rightarrow> 7890)
        | None \<Rightarrow> 7890)
      in if port = 0 then 7890 else port)"

definition requires_core_restart :: "YamlMapping \<Rightarrow> bool" where
  "requires_core_restart patch \<longleftrightarrow>
     yaml_get ''mixed-port'' patch \<noteq> None \<or> yaml_get ''secret'' patch \<noteq> None \<or>
     yaml_get ''external-controller'' patch \<noteq> None"

definition external_controller_port_strategy :: "IVerge \<Rightarrow> ExternalControllerPortStrategy" where
  "external_controller_port_strategy v = (case vg_clash_strategy v of Some s \<Rightarrow> s | None \<Rightarrow> ExternalAllowFallback)"

section \<open>Ports named by a patch\<close>

definition local_port_available :: "'s ClientPorts \<Rightarrow> u16 \<Rightarrow> 's Client \<Rightarrow> bool \<times> 's Client" where
  "local_port_available cp port w =
     (case ps_available (cp_scanner cp) port (nc_system w) of (b, s) \<Rightarrow> (b, w\<lparr>nc_system := s\<rparr>))"

definition request_open_port :: "'s ClientPorts \<Rightarrow> 's Client \<Rightarrow> u16 option \<times> 's Client" where
  "request_open_port cp w = (case ps_open_port (cp_scanner cp) (nc_system w) of (p, s) \<Rightarrow> (p, w\<lparr>nc_system := s\<rparr>))"

definition get_clash_external_port :: "'s ClientPorts \<Rightarrow> ExternalControllerPortStrategy \<Rightarrow> u16 \<Rightarrow> ('s, u16) client" where
  "get_clash_external_port cp strategy port w =
     (case strategy of
        ExternalFixed \<Rightarrow>
          (case local_port_available cp port w of
             (False, w') \<Rightarrow> (Inl ''Port is not available'', w') | (True, w') \<Rightarrow> (Inr port, w'))
      | _ \<Rightarrow>
          (case (if strategy = ExternalAllowFallback then local_port_available cp port w else (False, w)) of
             (True, w') \<Rightarrow> (Inr port, w')
           | (False, w') \<Rightarrow>
               (case request_open_port cp w' of
                  (None, w'') \<Rightarrow> (Inl ''Can't find an open port'', w'') | (Some p, w'') \<Rightarrow> (Inr p, w''))))"

datatype patch_stop = StopError anyhow | StopPanic

definition check_mixed_port :: "'s ClientPorts \<Rightarrow> YamlMapping \<Rightarrow> 's Client \<Rightarrow> patch_stop option \<times> 's Client" where
  "check_mixed_port cp patch w =
     (let verge = draft_latest (nc_verge w)
      in case yaml_get ''mixed-port'' patch of
           Some mixed_port \<Rightarrow>
             if vg_enable_random_port verge = Some True then (None, w)
             else
               let current = (case vg_verge_mixed_port verge of Some p \<Rightarrow> p | None \<Rightarrow> guard_mixed_port (dr_data (nc_clash w)))
               in (case yaml_as_u64 mixed_port of
                     None \<Rightarrow> (None, w)
                   | Some port \<Rightarrow>
                       if port = ucast current then (None, w)
                       else (case local_port_available cp (ucast port) w of
                               (True, w') \<Rightarrow> (None, w')
                             | (False, w') \<Rightarrow> (Some (StopError ''port already in use''), w')))
         | None \<Rightarrow> (None, w))"

text \<open>\<^verbatim>\<open>split_once(':')\<close>\<close>

fun split_once_colon :: "string \<Rightarrow> (string \<times> string) option" where
  "split_once_colon [] = None"
| "split_once_colon (x # xs) =
     (if x = CHR '':'' then Some ([], xs)
      else case split_once_colon xs of Some (a, b) \<Rightarrow> Some (x # a, b) | None \<Rightarrow> None)"

definition check_external_controller :: "'s ClientPorts \<Rightarrow> YamlMapping \<Rightarrow> 's Client \<Rightarrow> patch_stop option \<times> 's Client" where
  "check_external_controller cp patch w =
     (case yaml_get ''external-controller'' patch of
        None \<Rightarrow> (None, w)
      | Some (YString address) \<Rightarrow>
          if address = cp_client_server cp (dr_data (nc_clash w)) then (None, w)
          else (case split_once_colon address of
                  None \<Rightarrow> (Some StopPanic, w)
                | Some (host, port) \<Rightarrow>
                    (case parse_usize port of
                       None \<Rightarrow> (Some (StopError ''invalid port''), w)
                     | Some n \<Rightarrow>
                         if n \<ge> 2 ^ 16 then (Some (StopError ''invalid port''), w)
                         else if nc_core w = None then (None, w)
                         else (case get_clash_external_port cp (external_controller_port_strategy (draft_latest (nc_verge w)))
                                      (of_nat n) w of
                                 (Inr p, w') \<Rightarrow> (None, w')
                               | (Inl e, w') \<Rightarrow>
                                   (Some (StopError ''can not select fixed: current port is not available.''), w'))))
      | Some v \<Rightarrow> (Some StopPanic, w))"

definition check_patch_ports :: "'s ClientPorts \<Rightarrow> YamlMapping \<Rightarrow> 's Client \<Rightarrow> patch_stop option \<times> 's Client" where
  "check_patch_ports cp patch w =
     (case check_mixed_port cp patch w of
        (Some stop, w') \<Rightarrow> (Some stop, w') | (None, w') \<Rightarrow> check_external_controller cp patch w')"

section \<open>Patching with a rebuild\<close>

definition discard_clash :: "'s Client \<Rightarrow> 's Client" where
  "discard_clash = nc_clash_update draft_discard"

definition patch_clash_with_rebuild ::
    "'s ClientPorts \<Rightarrow> YamlMapping \<Rightarrow> (bool \<Rightarrow> ('s, 'a) client) \<Rightarrow> ('s, 'a) client" where
  "patch_clash_with_rebuild cp patch rebuild w =
     (case check_patch_ports cp patch (nc_clash_update (draft_edit (patch_config patch)) w) of
        (Some StopPanic, w) \<Rightarrow> (Inl ''panicked'', w)
      | (Some (StopError e), w) \<Rightarrow> (Inl e, discard_clash w)
      | (None, w) \<Rightarrow>
          (case rebuild (requires_core_restart patch) w of
             (Inl e, w) \<Rightarrow> (Inl e, discard_clash w)
           | (Inr rebuilt, w) \<Rightarrow>
               and_next (client_call cp SaveClash ''failed to save the clash settings'' (\<lambda>w. w) (nc_clash_update draft_apply w))
                 (\<lambda>_. done_with rebuilt)))"

section \<open>Compensation\<close>

datatype PatchCompensationOp = SetKey string YamlValue | RemoveKey string

record PatchCompensationPlan =
  pl_expected_applied_revision :: u64
  pl_ops :: "PatchCompensationOp list"

text \<open>\<open>None\<close> for a key that is not a string, which the source expects never to happen.\<close>

definition compensation_op :: "RuntimeSnapshot \<Rightarrow> YamlValue \<Rightarrow> PatchCompensationOp option" where
  "compensation_op applied key =
     (case key of
        YString k \<Rightarrow>
          (case map_of (sd_config (sn_data applied)) key of Some v \<Rightarrow> Some (SetKey k v) | None \<Rightarrow> Some (RemoveKey k))
      | _ \<Rightarrow> None)"

text \<open>A sum for the panic, an option for the result.\<close>

definition compensation_for :: "YamlMapping \<Rightarrow> RuntimeSnapshot option \<Rightarrow> anyhow + PatchCompensationPlan option" where
  "compensation_for patch applied =
     (case applied of
        None \<Rightarrow> Inr None
      | Some a \<Rightarrow>
          if patch = [] then Inr None
          else (case those (map (\<lambda>(k, v). compensation_op a k) patch) of
                  None \<Rightarrow> Inl ''panicked''
                | Some ops \<Rightarrow> Inr (Some \<lparr>pl_expected_applied_revision = sn_revision a, pl_ops = ops\<rparr>)))"

definition fence_matches :: "PatchCompensationPlan \<Rightarrow> RuntimeSnapshot option \<Rightarrow> bool" where
  "fence_matches plan applied =
     (case applied of Some s \<Rightarrow> sn_revision s = pl_expected_applied_revision plan | None \<Rightarrow> False)"

text \<open>Loads the captured Applied configuration into the core; every end is an error.\<close>

definition restore_applied_after_patch_failure ::
    "'s ClientPorts \<Rightarrow> RuntimeLifecycleState \<Rightarrow> PatchCompensationPlan \<Rightarrow> anyhow \<Rightarrow> ('s, RuntimeSnapshot) client" where
  "restore_applied_after_patch_failure cp captured plan primary w =
     (if \<not> fence_matches plan (lf_applied (nc_lifecycle w))
      then fail_with ''compensation refused because Applied revision changed'' w
      else case lf_applied captured of
        None \<Rightarrow> fail_with ''compensation refused because Applied runtime was unknown'' w
      | Some applied \<Rightarrow>
          and_next (create_candidate cp (sn_product_bytes applied) w) (\<lambda>candidate w.
          if cf_bytes_sha256 candidate \<noteq> sn_product_sha256 applied
          then fail_with ''compensation candidate hash does not match Applied snapshot'' (drop_candidate cp candidate w)
          else case apply_candidate cp candidate (sn_target_core applied) w of
            (restored, w') \<Rightarrow>
              and_next (restored, cleanup_candidate cp candidate w') (\<lambda>_ w.
              and_next (read_existing_product cp w) (\<lambda>product w.
              case lf_promoted (nc_lifecycle w) of
                None \<Rightarrow> fail_with ''compensation completed without a Promoted runtime'' w
              | Some promoted \<Rightarrow>
                  if cp_sha256 cp product \<noteq> sn_product_sha256 promoted
                  then fail_with ''compensation refused to publish Applied because product no longer matches Promoted'' w
                  else fail_with (''desired clash patch failed after the running core was patched; Applied snapshot restored: '' @ primary)
                         (set_lifecycle (lf_applied_update (\<lambda>_. Some applied)) w)))))"

definition send_patch :: "'s ClientPorts \<Rightarrow> YamlMapping \<Rightarrow> ('s, unit) client" where
  "send_patch cp patch w =
     (case nc_core w of
        None \<Rightarrow> fail_with ''patch configs failed'' (tick w)
      | Some core \<Rightarrow>
          client_call cp PatchConfigs ''patch configs failed''
            (nc_core_update (\<lambda>_. Some (core\<lparr>rc_patches := rc_patches core @ [patch]\<rparr>))) w)"

text \<open>The rebuild of a patch: regenerate, then restart or apply; on failure, compensate.\<close>

definition patch_rebuild ::
    "'s ClientPorts \<Rightarrow> RuntimeLifecycleState \<Rightarrow> PatchCompensationPlan \<Rightarrow> bool \<Rightarrow> ('s, RuntimeSnapshot) client" where
  "patch_rebuild cp captured plan needs_restart w =
     (case and_next (regenerate_for_legacy_inner cp w) (\<lambda>snapshot w.
            and_next (if needs_restart then restart cp w else apply_promoted cp w) (\<lambda>_. done_with snapshot)) of
        (Inr snapshot, w) \<Rightarrow> (Inr snapshot, w)
      | (Inl primary, w) \<Rightarrow> restore_applied_after_patch_failure cp captured plan primary w)"

definition patch_running_config :: "'s ClientPorts \<Rightarrow> YamlMapping \<Rightarrow> ('s, unit) client" where
  "patch_running_config cp patch =
     with_lease cp (\<lambda>w.
       let captured = nc_lifecycle w
       in case lf_applied captured of
            None \<Rightarrow> fail_with ''running-core patch requires a known Applied runtime'' w
          | Some applied \<Rightarrow>
              (case compensation_for patch (Some applied) of
                 Inl e \<Rightarrow> fail_with e w
               | Inr None \<Rightarrow> done_with () w
               | Inr (Some plan) \<Rightarrow>
                   and_next (send_patch cp patch w) (\<lambda>_ w.
                   and_next (patch_clash_with_rebuild cp patch (patch_rebuild cp captured plan) w) publish_applied)))"

section \<open>The invariant through a patch\<close>

lemma kept_product_but_core: "kept_product w w' \<Longrightarrow> kept_but_core w w'"
  by (simp add: kept_product_def kept_def kept_but_core_def)

text \<open>Without the claim about what runs, the invariant asks of a running core only accepted bytes.\<close>

lemma kept_but_core_fit_inv:
  assumes "lifecycle_inv cp p0 False w" and k: "kept_but_core w w'"
    and "\<And>c. nc_core w' = Some c \<Longrightarrow> undisturbed cp \<Longrightarrow> fit_to_run p0 w' (rc_bytes c)"
  shows "lifecycle_inv cp p0 False w'"
proof -
  have same: "same_rest w w'" using k by (simp add: kept_but_core_def)
  note mono = fit_to_run_mono [OF same, of p0] accepted_mono [OF same]
  have "ordered cp w'" using assms(1) k by (auto simp: lifecycle_inv_def ordered_def kept_but_core_def)
  moreover have "only_accepted p0 w'" if "undisturbed cp"
    using assms(1,3) that mono k by (auto simp: lifecycle_inv_def only_accepted_def kept_but_core_def)
  ultimately show ?thesis by (simp add: lifecycle_inv_def)
qed

lemma set_applied_inv:
  assumes "lifecycle_inv cp p0 False w" and "lf_promoted (nc_lifecycle w) = Some s"
  shows "lifecycle_inv cp p0 False (set_lifecycle (lf_applied_update (\<lambda>_. Some s)) w)"
  using assms by (auto simp: lifecycle_inv_def ordered_def only_accepted_def accepted_def fit_to_run_def set_lifecycle_def)

lemma inv_mono: "lifecycle_inv cp p0 t w \<Longrightarrow> lifecycle_inv cp p0 False w"
  by (simp add: lifecycle_inv_def)

lemma inv_clash [simp]: "lifecycle_inv cp p0 t (nc_clash_update f w) = lifecycle_inv cp p0 t w"
  by (simp add: lifecycle_inv_def ordered_def only_accepted_def truthful_def accepted_def fit_to_run_def)

lemma running_fit:
  "lifecycle_inv cp p0 t w \<Longrightarrow> undisturbed cp \<Longrightarrow> nc_core w = Some c \<Longrightarrow> fit_to_run p0 w (rc_bytes c)"
  "lifecycle_inv cp p0 t w \<Longrightarrow> undisturbed cp \<Longrightarrow> nc_product w = Some b \<Longrightarrow> fit_to_run p0 w b"
  by (auto simp: lifecycle_inv_def only_accepted_def)

definition checked_candidate :: "'s ClientPorts \<Rightarrow> CandidateFile \<Rightarrow> ClashCore \<Rightarrow> ('s, unit) client" where
  "checked_candidate cp candidate core w =
     and_next (read_candidate cp candidate w) (\<lambda>bytes w.
     and_next (ensure (cp_sha256 cp bytes = cf_bytes_sha256 candidate) ''candidate config hash changed before check'' w) (\<lambda>_ w.
     and_next (check_config cp candidate core w) (\<lambda>_ w.
     and_next (read_candidate cp candidate w) (\<lambda>after.
     ensure (after = bytes) ''candidate config changed between check and apply''))))"

lemma apply_candidate_checked:
  "apply_candidate cp candidate core w =
     and_next (checked_candidate cp candidate core w) (\<lambda>_. apply_config_from cp (\<lambda>w. nc_candidates w (cf_path candidate)))"
  by (simp add: apply_candidate_def checked_candidate_def and_next_assoc)

lemma checked_candidate_keeps:
  assumes "checked_candidate cp c core w = (r, w')"
  shows "kept_product w w'"
    and "undisturbed cp \<Longrightarrow> nc_candidates w (cf_path c) = Some b \<Longrightarrow> r = Inr u \<Longrightarrow>
      nc_candidates w' (cf_path c) = Some b \<and> (core, b) \<in> set (nc_checked w')"
proof -
  obtain r1 w1 where 1: "read_candidate cp c w = (r1, w1)" by (cases "read_candidate cp c w")
  obtain r2 w2 where 2: "check_config cp c core w1 = (r2, w2)" by (cases "check_config cp c core w1")
  obtain r3 w3 where 3: "read_candidate cp c w2 = (r3, w3)" by (cases "read_candidate cp c w2")
  note k1 = read_candidate_keeps [OF 1] and k2 = check_config_keeps [OF 2] and k3 = read_candidate_keeps [OF 3]
  have k: "kept_product w w1" "kept_product w w2" "kept_product w w3"
    using k1(1) k2 k3(1) kept_product_trans by blast+
  have m: "set (nc_checked w2) \<subseteq> set (nc_checked w3)" using k3(1) by (simp add: kept_product_def kept_def same_rest_def)
  have e: "checked_candidate cp c core w =
      (case r1 of Inl e \<Rightarrow> (Inl e, w1) | Inr bytes \<Rightarrow>
       if cp_sha256 cp bytes \<noteq> cf_bytes_sha256 c then (Inl ''candidate config hash changed before check'', w1)
       else (case r2 of Inl e \<Rightarrow> (Inl e, w2) | Inr u \<Rightarrow>
       (case r3 of Inl e \<Rightarrow> (Inl e, w3) | Inr after \<Rightarrow>
          if after \<noteq> bytes then (Inl ''candidate config changed between check and apply'', w3) else (Inr (), w3))))"
    unfolding checked_candidate_def 1 and_next_def
    by (cases r1; cases r2; cases r3) (simp_all add: 2 3 ensure_def done_with_def fail_with_def)
  show "kept_product w w'" using assms k unfolding e by (auto split: sum.splits if_splits)
  show "nc_candidates w' (cf_path c) = Some b \<and> (core, b) \<in> set (nc_checked w')"
    if "undisturbed cp" "nc_candidates w (cf_path c) = Some b" "r = Inr u"
    using assms that k1(2) k2 k3(2) m unfolding e by (auto split: sum.splits if_splits)
qed

lemma apply_candidate_result:
  assumes "apply_candidate cp c core w = (r, w')"
  shows "kept_but_core w w' \<and>
    (nc_core w' = nc_core w \<and> (\<exists>e. r = Inl e) \<or>
     (\<exists>b. loaded b w w' \<and>
        (undisturbed cp \<longrightarrow> (\<forall>d. nc_candidates w (cf_path c) = Some d \<longrightarrow> b = d \<and> (core, b) \<in> set (nc_checked w')))))"
proof -
  let ?file = "\<lambda>w. nc_candidates w (cf_path c)"
  obtain r1 w1 where 1: "checked_candidate cp c core w = (r1, w1)" by (cases "checked_candidate cp c core w")
  note k1 = checked_candidate_keeps [OF 1]
  have same: "nc_core w1 = nc_core w" using k1(1) by (simp add: kept_product_def kept_def)
  show ?thesis
  proof (cases r1)
    case (Inl e)
    then have "r = Inl e" "w' = w1" using assms by (simp_all add: apply_candidate_checked 1 and_next_def)
    then show ?thesis using kept_product_but_core [OF k1(1)] same by simp
  next
    case (Inr u)
    then have "put_attempts cp ?file 5 w1 = (r, w')"
      using assms by (simp add: apply_candidate_checked 1 and_next_def apply_config_from_def)
    then have p: "kept_but_core w1 w' \<and> (nc_core w' = nc_core w1 \<and> (\<exists>e. r = Inl e) \<or> (\<exists>b. ?file w1 = Some b \<and> loaded b w1 w'))"
      using put_attempts_result [of cp ?file 5 w1 r w'] by (auto simp: tick_def)
    have "set (nc_checked w1) \<subseteq> set (nc_checked w')" using p by (simp add: kept_but_core_def same_rest_def)
    then show ?thesis using p kept_but_core_trans [OF kept_product_but_core [OF k1(1)]] same k1(2) [OF _ _ Inr]
      by (fastforce simp: loaded_def)
  qed
qed

text \<open>A compensation always ends in an error and leaves Promoted and Applied as they are.\<close>

lemma restore_applied_result:
  assumes inv: "lifecycle_inv cp p0 False w" and same: "lf_applied (nc_lifecycle w) = lf_applied captured"
    and r: "restore_applied_after_patch_failure cp captured plan primary w = (r, w')"
  shows "lifecycle_inv cp p0 False w' \<and> same_rest w w' \<and> nc_lifecycle w' = nc_lifecycle w \<and> (\<exists>e. r = Inl e) \<and>
    (nc_core w = None \<longrightarrow> nc_core w' = None)"
proof (cases "fence_matches plan (lf_applied (nc_lifecycle w)) \<and> lf_applied captured \<noteq> None")
  case False
  then have "w' = w \<and> (\<exists>e. r = Inl e)"
    using r by (auto simp: restore_applied_after_patch_failure_def fail_with_def split: if_splits)
  then show ?thesis using inv by simp
next
  case True
  then obtain a where a: "lf_applied captured = Some a" by auto
  obtain r1 w1 where 1: "create_candidate cp (sn_product_bytes a) w = (r1, w1)" by (cases "create_candidate cp (sn_product_bytes a) w")
  note k1 = create_candidate_keeps [OF 1]
  have simple: ?thesis if "kept_product w w'" "\<exists>e. r = Inl e"
    using that kept_product_inv [OF inv that(1)] by (simp add: kept_product_def kept_def)
  show ?thesis
  proof (cases "\<exists>c. r1 = Inr c \<and> cf_bytes_sha256 c = sn_product_sha256 a")
    case False
    have w': "w' = w1 \<or> (\<exists>c. w' = drop_candidate cp c w1)" and e: "\<exists>e. r = Inl e"
      using r True a False
      by (cases r1; simp add: restore_applied_after_patch_failure_def 1 and_next_def fail_with_def; blast)+
    have "kept_product w w'" using w' by (auto intro: k1(1) kept_product_trans [OF k1(1) drop_candidate_keeps])
    then show ?thesis using e by (rule simple)
  next
    case True
    then obtain c where c: "r1 = Inr c" "cf_bytes_sha256 c = sn_product_sha256 a" by blast
    obtain r2 w2 where 2: "apply_candidate cp c (sn_target_core a) w1 = (r2, w2)" by (cases "apply_candidate cp c (sn_target_core a) w1")
    note k2 = apply_candidate_result [OF 2]
    let ?w3 = "cleanup_candidate cp c w2"
    obtain r4 w4 where 4: "read_existing_product cp ?w3 = (r4, w4)" by (cases "read_existing_product cp ?w3")
    note k4 = read_existing_product_keeps [OF 4]
    have i1: "lifecycle_inv cp p0 False w1" by (rule kept_product_inv [OF inv k1(1)])
    have i2: "lifecycle_inv cp p0 False w2"
    proof (rule kept_but_core_fit_inv [OF i1])
      show "kept_but_core w1 w2" using k2 by blast
      fix d assume d: "nc_core w2 = Some d" and u: "undisturbed cp"
      show "fit_to_run p0 w2 (rc_bytes d)"
      proof (cases "nc_core w2 = nc_core w1")
        case True
        then have "fit_to_run p0 w1 (rc_bytes d)" using running_fit(1) [OF i1 u] d by simp
        then show ?thesis using k2 fit_to_run_mono by (auto simp: kept_but_core_def)
      next
        case False
        then show ?thesis using k2 d u k1(2) [OF c(1)] by (auto simp: loaded_def fit_to_run_def)
      qed
    qed
    have i3: "lifecycle_inv cp p0 False ?w3" by (rule kept_product_inv [OF i2 cleanup_candidate_keeps])
    have i4: "lifecycle_inv cp p0 False w4" by (rule kept_inv [OF i3]) (use k4 in auto)
    have life: "nc_lifecycle w2 = nc_lifecycle w" "nc_lifecycle ?w3 = nc_lifecycle w" "nc_lifecycle w4 = nc_lifecycle w"
      using k1(1) k2 cleanup_candidate_keeps [of w2 cp c] k4(1) by (auto simp: kept_product_def kept_def kept_but_core_def)
    have same: "same_rest w w2" "same_rest w ?w3" "same_rest w w4"
      using k1(1) k2 cleanup_candidate_keeps [of w2 cp c] k4(1) same_rest_trans
      by (auto simp: kept_product_def kept_def kept_but_core_def) blast+
    have core: "nc_core w = None \<longrightarrow> nc_core w2 = None \<and> nc_core ?w3 = None \<and> nc_core w4 = None"
      using k1(1) k2 cleanup_candidate_keeps [of w2 cp c] k4(1) by (auto simp: kept_product_def kept_def loaded_def)
    have noop: "set_lifecycle (lf_applied_update (\<lambda>_. Some a)) w4 = w4"
      using life(3) a assms(2) by (cases "nc_lifecycle w4") (simp add: set_lifecycle_def)
    have "restore_applied_after_patch_failure cp captured plan primary w =
      and_next (r2, ?w3) (\<lambda>_ w.
              and_next (read_existing_product cp w) (\<lambda>product w.
              case lf_promoted (nc_lifecycle w) of
                None \<Rightarrow> fail_with ''compensation completed without a Promoted runtime'' w
              | Some promoted \<Rightarrow>
                  if cp_sha256 cp product \<noteq> sn_product_sha256 promoted
                  then fail_with ''compensation refused to publish Applied because product no longer matches Promoted'' w
                  else fail_with (''desired clash patch failed after the running core was patched; Applied snapshot restored: '' @ primary)
                         (set_lifecycle (lf_applied_update (\<lambda>_. Some a)) w)))"
      using \<open>_ \<and> lf_applied captured \<noteq> None\<close> c(2)
      by (simp only: restore_applied_after_patch_failure_def a option.case 1 c(1) and_next_def prod.case sum.case 2
          simp_thms if_False if_True)
    note e = this [unfolded r]
    have "(w' = ?w3 \<or> w' = w4) \<and> (\<exists>e. r = Inl e)"
    proof (cases r2)
      case (Inl e2)
      then show ?thesis using e by (simp add: and_next_def)
    next
      case (Inr u)
      then have e: "(r, w') = and_next (r4, w4) (\<lambda>product w.
              case lf_promoted (nc_lifecycle w) of
                None \<Rightarrow> fail_with ''compensation completed without a Promoted runtime'' w
              | Some promoted \<Rightarrow>
                  if cp_sha256 cp product \<noteq> sn_product_sha256 promoted
                  then fail_with ''compensation refused to publish Applied because product no longer matches Promoted'' w
                  else fail_with (''desired clash patch failed after the running core was patched; Applied snapshot restored: '' @ primary)
                         (set_lifecycle (lf_applied_update (\<lambda>_. Some a)) w))"
        using e by (simp only: and_next_def prod.case sum.case 4)
      show ?thesis
      proof (cases r4)
        case (Inl e4)
        then show ?thesis using e by (simp only: and_next_def prod.case sum.case prod.inject) blast
      next
        case (Inr b)
        show ?thesis
        proof (cases "lf_promoted (nc_lifecycle w4)")
          case None
          then show ?thesis using e Inr by (simp only: and_next_def prod.case sum.case option.case fail_with_def prod.inject) blast
        next
          case (Some p)
          then show ?thesis using e Inr noop
            by (simp only: and_next_def prod.case sum.case option.case fail_with_def) (metis prod.inject)
        qed
      qed
    qed
    then show ?thesis using i3 i4 life same core by auto
  qed
qed

lemma send_patch_result:
  assumes "send_patch cp patch w = (r, w')"
  shows "kept_but_core w w' \<and>
    (nc_core w' = nc_core w \<and> (\<exists>e. r = Inl e) \<or>
     (\<exists>c. nc_core w = Some c \<and> nc_core w' = Some (c\<lparr>rc_patches := rc_patches c @ [patch]\<rparr>) \<and> (clean_faults cp \<longrightarrow> r = Inr ())))"
proof (cases "nc_core w")
  case None
  then show ?thesis using assms by (simp add: send_patch_def fail_with_def) (auto simp: tick_def kept_but_core_def same_rest_def)
next
  case (Some c)
  let ?send = "nc_core_update (\<lambda>_. Some (c\<lparr>rc_patches := rc_patches c @ [patch]\<rparr>))"
  have "client_call cp PatchConfigs ''patch configs failed'' ?send w = (r, w')"
    using assms Some by (simp add: send_patch_def)
  then show ?thesis using Some
    by (cases rule: client_call_cases) (auto simp: kept_but_core_def same_rest_def tick_def)
qed

lemma patch_rebuild_result:
  assumes inv: "lifecycle_inv cp p0 False w" and same: "lf_applied (nc_lifecycle w) = lf_applied captured"
    and r: "patch_rebuild cp captured plan restart_needed w = (r, w')"
  shows "lifecycle_inv cp p0 False w' \<and> same_rest w w' \<and> lf_applied (nc_lifecycle w') = lf_applied (nc_lifecycle w) \<and>
    (\<forall>s. r = Inr s \<longrightarrow> lf_promoted (nc_lifecycle w') = Some s \<and>
       (\<exists>app clash. legacy_regen_inputs cp w = Inr (app, clash) \<and> built_from cp (nc_profiles w) clash app s) \<and>
       (\<exists>c b. nc_core w' = Some c \<and> rc_bytes c = b \<and> rc_patches c = [] \<and> (undisturbed cp \<longrightarrow> b = sn_product_bytes s)))"
proof -
  obtain r1 w1 where 1: "regenerate_for_legacy_inner cp w = (r1, w1)" by (cases "regenerate_for_legacy_inner cp w")
  note reg = regenerate_for_legacy_inner_result [OF inv 1]
  show ?thesis
  proof (cases r1)
    case (Inl e)
    have g: "regenerated cp prof clash app w (Inl e) w1" for prof clash app using reg(2) [OF Inl] Inl by simp
    have "restore_applied_after_patch_failure cp captured plan e w1 = (r, w')"
      using r by (simp add: patch_rebuild_def 1 Inl and_next_def)
    from restore_applied_result [OF reg(1) _ this] g same show ?thesis
      by (auto simp: regenerated_def intro: same_rest_trans)
  next
    case (Inr s)
    obtain app clash where in1: "legacy_regen_inputs cp w = Inr (app, clash)" and
      g: "regenerated cp (nc_profiles w) clash app w (Inr s) w1" using reg(3) [OF Inr] Inr by blast
    let ?go = "if restart_needed then restart cp w1 else apply_promoted cp w1"
    obtain r2 w2 where 2: "?go = (r2, w2)" by (cases ?go)
    have k2: "kept_but_core w1 w2"
      and core2: "\<And>c. nc_core w2 = Some c \<Longrightarrow> nc_core w1 = Some c \<or> nc_product w1 = Some (rc_bytes c) \<and> rc_patches c = []"
      and ok2: "\<And>u. r2 = Inr u \<Longrightarrow> \<exists>c. nc_core w2 = Some c \<and> nc_product w1 = Some (rc_bytes c) \<and> rc_patches c = []"
      using 2 restart_result [of cp w1 r2 w2] apply_promoted_result [of cp w1 r2 w2]
      by (auto simp: started_def loaded_def split: if_splits)
    have i2: "lifecycle_inv cp p0 False w2"
    proof (rule kept_but_core_fit_inv [OF reg(1) k2])
      fix c assume "nc_core w2 = Some c" "undisturbed cp"
      then have "fit_to_run p0 w1 (rc_bytes c)" using core2 running_fit [OF reg(1)] by blast
      then show "fit_to_run p0 w2 (rc_bytes c)" using k2 fit_to_run_mono by (auto simp: kept_but_core_def)
    qed
    have same2: "same_rest w w2" "nc_lifecycle w2 = nc_lifecycle w1"
      using g k2 same_rest_trans by (auto simp: regenerated_def kept_but_core_def)
    have life: "lf_applied (nc_lifecycle w2) = lf_applied (nc_lifecycle w)" "lf_promoted (nc_lifecycle w2) = Some s"
      using g same2(2) by (auto simp: regenerated_def)
    show ?thesis
    proof (cases r2)
      case (Inl e)
      have "restore_applied_after_patch_failure cp captured plan e w2 = (r, w')"
        using r 2 Inl \<open>r1 = Inr s\<close> by (simp add: patch_rebuild_def 1 and_next_def)
      from restore_applied_result [OF i2 _ this] life same same2 show ?thesis by (auto intro: same_rest_trans)
    next
      case (Inr u)
      then have "r = Inr s" "w' = w2" using r 2 \<open>r1 = Inr s\<close> by (simp_all add: patch_rebuild_def 1 and_next_def done_with_def)
      moreover have "\<exists>c b. nc_core w2 = Some c \<and> rc_bytes c = b \<and> rc_patches c = [] \<and> (undisturbed cp \<longrightarrow> b = sn_product_bytes s)"
        using ok2 [OF Inr] g by (auto simp: regenerated_def)
      moreover have "built_from cp (nc_profiles w) clash app s" using g by (simp add: regenerated_def)
      ultimately show ?thesis using i2 same2(1) life in1 by simp
    qed
  qed
qed

lemma check_patch_ports_keeps:
  assumes "check_patch_ports cp patch w = (stop, w')"
  shows "kept_product w w'"
proof -
  have sys: "kept_product w (w\<lparr>nc_system := s\<rparr>)" for w :: "'a Client" and s
    by (simp add: kept_product_def kept_def same_rest_def)
  have av: "kept_product w w'" if "local_port_available cp p w = (b, w')" for p w b w'
    using that sys by (auto simp: local_port_available_def split: prod.splits)
  have rq: "kept_product w w'" if "request_open_port cp w = (b, w')" for w b w'
    using that sys by (auto simp: request_open_port_def split: prod.splits)
  have ext: "kept_product w w'" if "get_clash_external_port cp strategy p w = (b, w')" for strategy p w b w'
    using that kept_product_trans
    by (auto simp: get_clash_external_port_def split: ExternalControllerPortStrategy.splits prod.splits bool.splits option.splits if_splits
        dest!: av rq)
  have m: "kept_product w w'" if "check_mixed_port cp patch w = (stop, w')" for w stop w'
    using that by (auto simp: check_mixed_port_def Let_def split: option.splits prod.splits bool.splits if_splits dest!: av)
  have x: "kept_product w w'" if "check_external_controller cp patch w = (stop, w')" for w stop w'
    using that by (auto simp: check_external_controller_def split: option.splits prod.splits sum.splits YamlValue.splits if_splits dest!: ext)
  show ?thesis using assms kept_product_trans
    by (auto simp: check_patch_ports_def split: prod.splits option.splits dest!: m x)
qed

lemma with_clash_keeps:
  assumes "kept_product (nc_clash_update f w) w1"
  shows "kept_but_core w (nc_clash_update (\<lambda>_. nc_clash w) w1)" and "nc_clash w1 = f (nc_clash w)" and "nc_core w1 = nc_core w"
  using assms by (auto simp: kept_product_def kept_def kept_but_core_def same_rest_def)

lemma patch_running_config_result:
  assumes inv: "lifecycle_inv cp p0 False w" and r: "patch_running_config cp patch w = (r, w')"
  shows "lifecycle_inv cp p0 False w' \<and> nc_profiles w' = nc_profiles w \<and> nc_verge w' = nc_verge w \<and>
    (case r of
       Inl e \<Rightarrow> lf_applied (nc_lifecycle w') = lf_applied (nc_lifecycle w)
     | Inr u \<Rightarrow> patch = [] \<and> w' = tick w \<or>
         (\<exists>s c app clash. lf_promoted (nc_lifecycle w') = Some s \<and> lf_applied (nc_lifecycle w') = Some s \<and>
           nc_core w' = Some c \<and> rc_patches c = [] \<and> (undisturbed cp \<longrightarrow> rc_bytes c = sn_product_bytes s) \<and>
           nc_clash w' = \<lparr>dr_data = patch_config patch (draft_latest (nc_clash w)), dr_draft = None\<rparr> \<and>
           cp_typed_config cp (draft_latest (nc_verge w)) (dr_data (nc_clash w')) = Inr (app, clash) \<and>
           built_from cp (nc_profiles w) clash app s))"
  using r unfolding patch_running_config_def
proof (cases rule: with_lease_cases)
  case 1
  then show ?thesis using inv by (simp add: tick_def) (simp add: tick_inv [unfolded tick_def])
next
  case 2
  let ?w = "tick w"
  have iw: "lifecycle_inv cp p0 False ?w" using inv by simp
  have docs: "nc_profiles ?w = nc_profiles w" "nc_verge ?w = nc_verge w" "nc_clash ?w = nc_clash w"
    "nc_lifecycle ?w = nc_lifecycle w" by (simp_all add: tick_def)
  show ?thesis
  proof (cases "\<exists>a plan. lf_applied (nc_lifecycle w) = Some a \<and> compensation_for patch (Some a) = Inr (Some plan)")
    case False
    have "(r = Inr () \<and> patch = [] \<or> (\<exists>e. r = Inl e)) \<and> w' = ?w"
      using 2 False
      by (auto simp: Let_def docs fail_with_def done_with_def compensation_for_def split: option.splits sum.splits if_splits)
    then show ?thesis using iw docs by auto
  next
    case True
    then obtain a plan where a: "lf_applied (nc_lifecycle w) = Some a" "compensation_for patch (Some a) = Inr (Some plan)" by blast
    obtain r1 w1 where 1: "send_patch cp patch ?w = (r1, w1)" by (cases "send_patch cp patch ?w")
    note k1 = send_patch_result [OF 1]
    have i1: "lifecycle_inv cp p0 False w1"
    proof (rule kept_but_core_fit_inv [OF iw])
      show "kept_but_core ?w w1" using k1 by blast
      fix c assume "nc_core w1 = Some c" "undisturbed cp"
      then have "fit_to_run p0 ?w (rc_bytes c)" using k1 running_fit(1) [OF iw] by auto
      then show "fit_to_run p0 w1 (rc_bytes c)" using k1 fit_to_run_mono by (auto simp: kept_but_core_def)
    qed
    have docs1: "nc_profiles w1 = nc_profiles w" "nc_verge w1 = nc_verge w" "nc_clash w1 = nc_clash w"
      "nc_lifecycle w1 = nc_lifecycle w"
      using k1 docs by (auto simp: kept_but_core_def same_rest_def)
    have e: "(r, w') = and_next (r1, w1) (\<lambda>_ w.
        and_next (patch_clash_with_rebuild cp patch (patch_rebuild cp (nc_lifecycle w1) plan) w) publish_applied)"
      using 2 a by (simp add: Let_def docs docs1 1)
    show ?thesis
    proof (cases r1)
      case (Inl e1)
      then show ?thesis using e i1 docs1 by (simp add: and_next_def)
    next
      case (Inr u)
      let ?d = "nc_clash_update (draft_edit (patch_config patch)) w1"
      obtain stop w2 where 3: "check_patch_ports cp patch ?d = (stop, w2)" by (cases "check_patch_ports cp patch ?d")
      note k3 = check_patch_ports_keeps [OF 3]
      have i2: "lifecycle_inv cp p0 False w2" by (rule kept_product_inv [OF _ k3]) (use i1 in simp)
      have docs2: "nc_profiles w2 = nc_profiles w" "nc_verge w2 = nc_verge w"
        "nc_clash w2 = draft_edit (patch_config patch) (nc_clash w)" "nc_lifecycle w2 = nc_lifecycle w"
        using k3 docs1 by (auto simp: kept_product_def kept_def same_rest_def)
      show ?thesis
      proof (cases stop)
        case (Some s)
        have "w' = w2 \<or> w' = discard_clash w2" "\<exists>e. r = Inl e"
          using e Inr Some 3 by (cases s; simp add: patch_clash_with_rebuild_def and_next_def)+
        then show ?thesis using i2 docs2 by (auto simp: discard_clash_def)
      next
        case None
        let ?rebuild = "patch_rebuild cp (nc_lifecycle w1) plan (requires_core_restart patch) w2"
        obtain r4 w4 where 4: "?rebuild = (r4, w4)" by (cases ?rebuild)
        have "lf_applied (nc_lifecycle w2) = lf_applied (nc_lifecycle w1)" by (simp add: docs1 docs2)
        note k4 = patch_rebuild_result [OF i2 this 4]
        have docs4: "nc_profiles w4 = nc_profiles w" "nc_verge w4 = nc_verge w"
          "nc_clash w4 = draft_edit (patch_config patch) (nc_clash w)"
          "lf_applied (nc_lifecycle w4) = lf_applied (nc_lifecycle w)"
          using k4 docs2 by (auto simp: same_rest_def)
        have ed: "(r, w') = and_next (case r4 of Inl e \<Rightarrow> (Inl e, discard_clash w4)
            | Inr s \<Rightarrow> and_next (client_call cp SaveClash ''failed to save the clash settings'' (\<lambda>w. w) (nc_clash_update draft_apply w4))
                (\<lambda>_. done_with s)) publish_applied"
          unfolding e Inr patch_clash_with_rebuild_def
          by (simp add: and_next_def 3 None 4 split: sum.splits)
        show ?thesis
        proof (cases r4)
          case (Inl e4)
          then show ?thesis using ed k4 docs4 by (simp add: and_next_def discard_clash_def)
        next
          case (Inr s)
          let ?w5 = "nc_clash_update draft_apply w4"
          let ?save = "client_call cp SaveClash ''failed to save the clash settings'' (\<lambda>w. w) ?w5"
          obtain r6 where 6: "?save = (r6, tick ?w5)" by (cases ?save) (auto dest: call_tick)
          have i6: "lifecycle_inv cp p0 False (tick ?w5)" using k4 by simp
          have docs6: "nc_profiles (tick ?w5) = nc_profiles w" "nc_verge (tick ?w5) = nc_verge w"
            "nc_clash (tick ?w5) = \<lparr>dr_data = patch_config patch (draft_latest (nc_clash w)), dr_draft = None\<rparr>"
            "lf_applied (nc_lifecycle (tick ?w5)) = lf_applied (nc_lifecycle w)"
            "lf_promoted (nc_lifecycle (tick ?w5)) = Some s" "nc_core (tick ?w5) = nc_core w4"
            using docs4 k4 Inr by (simp_all add: tick_def draft_edit_def draft_apply_def)
          show ?thesis
          proof (cases r6)
            case (Inl e6)
            then show ?thesis using ed Inr i6 docs6 by (simp add: 6 and_next_def)
          next
            case ok: (Inr u6)
            have w': "r = Inr ()" "w' = set_lifecycle (lf_applied_update (\<lambda>_. Some s)) (tick ?w5)"
              using ed Inr ok by (simp_all add: 6 and_next_def done_with_def publish_applied_promoted [OF docs6(5)])
            have "lifecycle_inv cp p0 False w'" unfolding w'(2) by (rule set_applied_inv [OF i6 docs6(5)])
            moreover have "nc_profiles w' = nc_profiles w" "nc_verge w' = nc_verge w" "nc_clash w' = nc_clash (tick ?w5)"
              "lf_promoted (nc_lifecycle w') = Some s" "lf_applied (nc_lifecycle w') = Some s" "nc_core w' = nc_core w4"
              using w'(2) docs6 by (simp_all add: set_lifecycle_def)
            moreover obtain app clash c where "legacy_regen_inputs cp w2 = Inr (app, clash)" "built_from cp (nc_profiles w2) clash app s"
              "nc_core w4 = Some c" "rc_patches c = []" "undisturbed cp \<longrightarrow> rc_bytes c = sn_product_bytes s"
              using k4 Inr by blast
            ultimately show ?thesis using w'(1) docs2 docs6(3)
              by (auto simp: legacy_regen_inputs_def draft_edit_def draft_latest_def)
          qed
        qed
      qed
    qed
  qed
qed

end
