(* ===== verification/Runtime_Claims.thy ===== *)
theory Runtime_Claims
  imports Runtime_Patch
begin

text \<open>
  What the runtime lifecycle promises, over any sequence of its operations and any failures of the calls they make:
  only checked configurations are published and run, Applied says what runs, a core switch happens or is undone, a rebuild
  puts the configuration of the documents into the core. The last section has two runs in which Applied is wrong.
\<close>

section \<open>Runs\<close>

text \<open>What can happen to the client: its operations, the end of the core on its own, the watchdog, and others editing the
  documents. The gate makes each of them one step.\<close>

datatype ClientOp =
  RebuildRunning | Regenerate | RegenerateForLegacy | ApplyForLegacy | RestartForLegacy | ChangeCore ClashCore
| PatchRunning YamlMapping | StartPromoted | PromoteExisting | PromoteDefault | RecoverCore | CoreEnds
| EditDocuments "IVerge Draft" "YamlMapping Draft" Profiles ClashConfig NyanpasuAppConfig

fun run_op :: "'s ClientPorts \<Rightarrow> ClientOp \<Rightarrow> ('s, unit) client" where
  "run_op cp RebuildRunning w = rebuild_running_config cp w"
| "run_op cp Regenerate w = regenerate_runtime cp w"
| "run_op cp RegenerateForLegacy w = regenerate_runtime_for_legacy cp w"
| "run_op cp ApplyForLegacy w = regenerate_and_apply_for_legacy cp w"
| "run_op cp RestartForLegacy w = regenerate_and_restart_for_legacy cp w"
| "run_op cp (ChangeCore c) w = change_core cp c w"
| "run_op cp (PatchRunning patch) w = patch_running_config cp patch w"
| "run_op cp StartPromoted w = start_promoted_runtime cp w"
| "run_op cp PromoteExisting w = and_next (promote_existing_runtime_product cp w) (\<lambda>_. done_with ())"
| "run_op cp PromoteDefault w = promote_default_runtime_config cp w"
| "run_op cp RecoverCore w = recover_core cp w"
| "run_op cp CoreEnds w = (Inr (), w\<lparr>nc_core := None\<rparr>)"
| "run_op cp (EditDocuments v c p cc a) w =
     (Inr (), w\<lparr>nc_verge := v, nc_clash := c, nc_profiles := p, nc_clash_config := cc, nc_app_config := a\<rparr>)"

fun run_ops :: "'s ClientPorts \<Rightarrow> ClientOp list \<Rightarrow> 's Client \<Rightarrow> 's Client" where
  "run_ops cp [] w = w"
| "run_ops cp (op # ops) w = run_ops cp ops (snd (run_op cp op w))"

definition booted :: "string option \<Rightarrow> 's Client \<Rightarrow> bool" where
  "booted p0 w \<longleftrightarrow> nc_lifecycle w = \<lparr>lf_promoted = None, lf_applied = None\<rparr> \<and> nc_product w = p0 \<and> nc_core w = None"

text \<open>The operations that leave Applied true of the running core however they end.\<close>

definition reports_itself :: "ClientOp \<Rightarrow> bool" where
  "reports_itself op \<longleftrightarrow> op \<noteq> RecoverCore \<and> (\<forall>patch. op \<noteq> PatchRunning patch)"

lemma booted_inv: "booted p0 w \<Longrightarrow> lifecycle_inv cp p0 t w"
  by (auto simp: booted_def lifecycle_inv_def ordered_def only_accepted_def truthful_def fit_to_run_def)

lemma recover_core_inv:
  assumes inv: "lifecycle_inv cp p0 t w" and r: "recover_core cp w = (r, w')" and "\<not> t"
  shows "lifecycle_inv cp p0 t w'"
proof -
  have "restart cp w = (r, w')" using r by (simp add: recover_core_def)
  from restart_result [OF this] show ?thesis
    using kept_but_core_inv [OF inv, of w'] assms(3) by (auto simp: started_def)
qed

lemma run_op_inv:
  assumes inv: "lifecycle_inv cp p0 t w" and "t \<Longrightarrow> reports_itself op"
  shows "lifecycle_inv cp p0 t (snd (run_op cp op w))"
proof -
  obtain r w' where r: "run_op cp op w = (r, w')" by (cases "run_op cp op w")
  have "lifecycle_inv cp p0 t w'"
  proof (cases op)
    case (PatchRunning patch)
    then show ?thesis using r patch_running_config_result [OF inv_mono [OF inv], of patch r w'] assms(2)
      by (cases t) (simp_all add: reports_itself_def)
  next
    case PromoteExisting
    then show ?thesis using r inv promote_existing_runtime_product_inv by (auto simp: and_next_cases done_with_def)
  next
    case CoreEnds
    then show ?thesis using r inv
      by (auto simp: lifecycle_inv_def ordered_def only_accepted_def truthful_def accepted_def fit_to_run_def)
  next
    case EditDocuments
    then show ?thesis using r inv
      by (auto simp: lifecycle_inv_def ordered_def only_accepted_def truthful_def accepted_def fit_to_run_def)
  next
    case RebuildRunning
    then show ?thesis using r rebuild_running_config_result(1) [OF inv] by simp
  next
    case Regenerate
    then show ?thesis using r regenerate_runtime_inv(1) [OF inv] by simp
  next
    case RegenerateForLegacy
    then show ?thesis using r regenerate_runtime_inv(2) [OF inv] by simp
  next
    case ApplyForLegacy
    then show ?thesis using r legacy_rebuild_inv [OF inv disjI1] by simp
  next
    case RestartForLegacy
    then show ?thesis using r legacy_rebuild_inv [OF inv disjI2] by simp
  next
    case (ChangeCore c)
    then show ?thesis using r change_core_result [OF inv, of c r w'] by simp
  next
    case StartPromoted
    then show ?thesis using r start_promoted_runtime_inv [OF inv] by simp
  next
    case PromoteDefault
    then show ?thesis using r promote_default_runtime_config_inv [OF inv] by simp
  next
    case RecoverCore
    then show ?thesis using r recover_core_inv [OF inv, of r w'] assms(2) by (cases t) (simp_all add: reports_itself_def)
  qed
  then show ?thesis using r by simp
qed

lemma run_ops_inv:
  assumes "lifecycle_inv cp p0 t w" and "t \<Longrightarrow> list_all reports_itself ops"
  shows "lifecycle_inv cp p0 t (run_ops cp ops w)"
  using assms
proof (induction ops arbitrary: w)
  case (Cons op ops)
  have "lifecycle_inv cp p0 t (snd (run_op cp op w))" by (rule run_op_inv) (use Cons.prems in auto)
  then show ?case using Cons.IH Cons.prems(2) by simp
qed simp

section \<open>The lifecycle\<close>

text \<open>C12: After any operations, whatever calls failed, Applied is not newer than Promoted and Promoted not newer than the
  allocator, both carry the hash of their bytes; and if nobody else wrote the files, the product, the running core, Promoted
  and Applied hold only configurations the core's checker accepted, or the product the program found at its start.\<close>

theorem lifecycle_invariant:
  assumes "booted p0 w0"
  shows "ordered cp (run_ops cp ops w0) \<and> (undisturbed cp \<longrightarrow> only_accepted p0 (run_ops cp ops w0))"
  using run_ops_inv [where t = False and cp = cp and ops = ops, OF booted_inv [OF assms]] by (simp add: lifecycle_inv_def)

text \<open>C11: Applied is true of the running core. If calls that report an error had no effect and the product can be read
  back, then after any operations but live patches and watchdog restarts, the product is the Promoted
  configuration and a running core runs exactly the bytes of Applied.\<close>

theorem applied_truthful:
  assumes "booted p0 w0" and "clean_faults cp" and "list_all reports_itself ops"
  shows "truthful (run_ops cp ops w0)"
  using run_ops_inv [where t = True and cp = cp and ops = ops, OF booted_inv [OF assms(1)]] assms(2,3) by (simp add: lifecycle_inv_def)

text \<open>C5: Switching the core happens or is undone. If it returns normally, the new core is selected, runs the
  configuration built for it, and that is Promoted and Applied. If it fails, no draft of it is left in the settings,
  and, if failed calls had no effect, what runs is what ran before, nothing, or the old core.\<close>

theorem change_core_outcome:
  assumes "booted p0 w0" and "change_core cp c (run_ops cp ops w0) = (r, w')"
  shows "case r of
      Inr u \<Rightarrow>
        dr_draft (nc_verge w') = None \<and> vg_clash_core (dr_data (nc_verge w')) = Some c \<and>
        (\<exists>s b app clash. lf_promoted (nc_lifecycle w') = Some s \<and> lf_applied (nc_lifecycle w') = Some s \<and> started c b w' \<and>
           (undisturbed cp \<longrightarrow> b = sn_product_bytes s) \<and>
           cp_typed_config cp (dr_data (nc_verge w')) (draft_latest (nc_clash (run_ops cp ops w0))) = Inr (app, clash) \<and>
           built_from cp (nc_profiles (run_ops cp ops w0)) clash app s)
    | Inl e \<Rightarrow>
        (nc_verge w' = nc_verge (run_ops cp ops w0) \<or> nc_verge w' = draft_discard (nc_verge (run_ops cp ops w0))) \<and>
        (clean_faults cp \<longrightarrow>
           old_core_or_none (selected_core (dr_data (nc_verge (run_ops cp ops w0)))) (run_ops cp ops w0) w')"
proof -
  have "lifecycle_inv cp p0 False (run_ops cp ops w0)" by (rule run_ops_inv [OF booted_inv [OF assms(1)]]) simp
  from change_core_result [OF this assms(2)] show ?thesis by blast
qed

text \<open>The rebuild and the builder together.\<close>

lemma built_desired:
  assumes "built_from cp profiles clash app s"
    and "\<And>n ports. ports_ok (cp_build cp n) \<lparr>ri_profiles = profiles, ri_clash = clash, ri_app = app, ri_resolved_ports = ports\<rparr>"
  obtains n ports c yaml body where
    "desired_config (cp_build cp n) \<lparr>ri_profiles = profiles, ri_clash = clash, ri_app = app, ri_resolved_ports = ports\<rparr> = Inr c"
    "to_yaml_value c = YMapping yaml" "bp_to_yaml_text (cp_build cp n) yaml = Inr body"
    "sn_product_bytes s = product_header @ body" "sd_config (sn_data s) = yaml"
proof -
  obtain n ports where b: "build_product (cp_build cp n)
      \<lparr>ri_profiles = profiles, ri_clash = clash, ri_app = app, ri_resolved_ports = ports\<rparr> = Inr (sn_data s, sn_product_bytes s)"
    using assms(1) by (auto simp: built_from_def)
  let ?in = "\<lparr>ri_profiles = profiles, ri_clash = clash, ri_app = app, ri_resolved_ports = ports\<rparr>"
  note exact = build_product_desired [OF assms(2), of n ports]
  show thesis
  proof (cases "desired_config (cp_build cp n) ?in")
    case (Inl e)
    then show thesis using exact b by simp
  next
    case (Inr c)
    then obtain data where d: "to_yaml_value c = YMapping (sd_config data)" "build_product (cp_build cp n) ?in =
        (case bp_to_yaml_text (cp_build cp n) (sd_config data) of Inl e \<Rightarrow> Inl e | Inr body \<Rightarrow> Inr (data, product_header @ body))"
      using exact by auto
    then obtain body where t: "bp_to_yaml_text (cp_build cp n) (sd_config data) = Inr body"
      using b by (auto split: sum.splits)
    then have "data = sn_data s" "sn_product_bytes s = product_header @ body" using d(2) b by auto
    then show thesis using that [OF Inr d(1) t] by simp
  qed
qed

text \<open>C2: After a rebuild that returned normally, the core, still the same process, has loaded the text of exactly the
  configuration the documents stand for, nothing on top of it, and that is a new revision, Promoted and Applied.\<close>

theorem rebuild_exact:
  assumes "booted p0 w0" and w: "run_ops cp ops w0 = w" and "undisturbed cp"
    and ports: "\<And>n ports. ports_ok (cp_build cp n)
      \<lparr>ri_profiles = nc_profiles w, ri_clash = nc_clash_config w, ri_app = nc_app_config w, ri_resolved_ports = ports\<rparr>"
    and r: "rebuild_running_config cp w = (Inr (), w')"
  shows "\<exists>n ports c yaml body s core.
      desired_config (cp_build cp n)
        \<lparr>ri_profiles = nc_profiles w, ri_clash = nc_clash_config w, ri_app = nc_app_config w, ri_resolved_ports = ports\<rparr> = Inr c \<and>
      to_yaml_value c = YMapping yaml \<and> bp_to_yaml_text (cp_build cp n) yaml = Inr body \<and>
      nc_core w = Some core \<and> nc_core w' = Some (core\<lparr>rc_bytes := product_header @ body, rc_patches := []\<rparr>) \<and>
      lf_promoted (nc_lifecycle w') = Some s \<and> lf_applied (nc_lifecycle w') = Some s \<and>
      sn_product_bytes s = product_header @ body \<and> nc_revisions w < sn_revision s"
proof -
  have "lifecycle_inv cp p0 False w" unfolding w [symmetric] by (rule run_ops_inv [OF booted_inv [OF assms(1)]]) simp
  from rebuild_running_config_result(2) [OF this r refl] obtain s b core where
    s: "lf_promoted (nc_lifecycle w') = Some s" "lf_applied (nc_lifecycle w') = Some s"
      "built_from cp (nc_profiles w) (nc_clash_config w) (nc_app_config w) s" "nc_revisions w < sn_revision s"
      "nc_core w = Some core" "nc_core w' = Some (core\<lparr>rc_bytes := b, rc_patches := []\<rparr>)" "undisturbed cp \<longrightarrow> b = sn_product_bytes s"
    by blast
  from s(3) ports show ?thesis
  proof (cases rule: built_desired)
    case (1 n ports c yaml body)
    then show ?thesis using s assms(3) by (intro exI conjI) (assumption | simp)+
  qed
qed


section \<open>A concrete client\<close>

definition demo_client_ports :: "u16 ClientPorts" where
  "demo_client_ports =
     \<lparr>cp_fate = (\<lambda>n c. Through), cp_build = (\<lambda>n. demo_build_ports), cp_scanner = demo_scanner, cp_sha256 = (\<lambda>b. b),
      cp_parse_yaml = (\<lambda>b. Inr []),
      cp_typed_config = (\<lambda>v c. Inr (\<lparr>ap_core = selected_core v, ap_enable_builtin_enhanced = True\<rparr>, demo_clash)),
      cp_client_server = (\<lambda>c. ''127.0.0.1:9090''), cp_accepts = (\<lambda>n core b. True), cp_nanoid = (\<lambda>n i. ''a'')\<rparr>"

definition demo_client :: "u16 Client" where
  "demo_client =
     \<lparr>nc_clock = 0, nc_revisions = 0, nc_lifecycle = \<lparr>lf_promoted = None, lf_applied = None\<rparr>, nc_product = None,
      nc_candidates = (\<lambda>p. None), nc_core = None, nc_checked = [], nc_port_cache = None, nc_system = 9000,
      nc_verge = \<lparr>dr_data = \<lparr>vg_clash_core = Some Mihomo, vg_enable_random_port = None, vg_verge_mixed_port = None,
        vg_clash_strategy = None\<rparr>, dr_draft = None\<rparr>,
      nc_clash = \<lparr>dr_data = [], dr_draft = None\<rparr>, nc_profiles = demo_profiles, nc_clash_config = demo_clash,
      nc_app_config = \<lparr>ap_core = Mihomo, ap_enable_builtin_enhanced = True\<rparr>\<rparr>"

lemmas client_simps =
  client_call_def and_next_def tick_def done_with_def fail_with_def lift_result_def ensure_def with_lease_def allocate_def
  create_candidate_def read_candidate_def set_candidate_def drop_candidate_def cleanup_candidate_def check_config_def
  check_and_promote_def restore_product_def read_product_def read_existing_product_def promote_snapshot_def
  promote_with_lease_def publish_promoted_def publish_applied_def identity_eq_def set_lifecycle_def from_data_def
  stop_running_def selected_core_def start_core_def restart_def draft_latest_def legacy_regen_inputs_def
  promote_default_runtime_config_def start_promoted_runtime_def demo_client_ports_def demo_client_def

definition demo_text :: string where
  "demo_text = fallback_header @ ''text''"

definition demo_snapshot :: RuntimeSnapshot where
  "demo_snapshot = \<lparr>sn_revision = 1, sn_target_core = Mihomo, sn_product_sha256 = demo_text, sn_product_bytes = demo_text,
     sn_data = plain_data []\<rparr>"

lemma demo_booted: "booted None demo_client"
  by (simp add: booted_def demo_client_def)

lemma demo_clean: "clean_faults demo_client_ports" "undisturbed demo_client_ports"
  by (simp_all add: clean_faults_def undisturbed_def demo_client_ports_def)

text \<open>Booting on the fallback configuration.\<close>

definition demo_started :: "u16 Client" where
  "demo_started = demo_client\<lparr>nc_clock := 14, nc_revisions := 1, nc_lifecycle := \<lparr>lf_promoted = Some demo_snapshot,
     lf_applied = Some demo_snapshot\<rparr>, nc_product := Some demo_text, nc_candidates := \<lambda>p. None,
     nc_core := Some \<lparr>rc_type = Mihomo, rc_bytes = demo_text, rc_patches = []\<rparr>, nc_checked := [(Mihomo, demo_text)]\<rparr>"

lemma demo_promoted:
  "promote_default_runtime_config demo_client_ports demo_client = (Inr (), 
     demo_started\<lparr>nc_clock := 11, nc_core := None, nc_lifecycle := \<lparr>lf_promoted = Some demo_snapshot, lf_applied = None\<rparr>\<rparr>)"
  by (simp add: client_simps demo_build_ports_def demo_text_def demo_snapshot_def demo_started_def upt_rec [of 0] Let_def fun_upd_idem eval_nat_numeral)

lemma demo_run: "run_ops demo_client_ports [PromoteDefault, StartPromoted] demo_client = demo_started"
proof -
  have "start_promoted_runtime demo_client_ports
      (demo_started\<lparr>nc_clock := 11, nc_core := None, nc_lifecycle := \<lparr>lf_promoted = Some demo_snapshot, lf_applied = None\<rparr>\<rparr>) =
      (Inr (), demo_started)"
    by (simp add: client_simps demo_text_def demo_snapshot_def demo_started_def Let_def eval_nat_numeral)
  then show ?thesis by (simp add: demo_promoted)
qed

text \<open>The configuration a rebuild of this client finds.\<close>

definition demo_ports_picked :: ResolvedPortBindings where
  "demo_ports_picked =
     \<lparr>rp_mixed_port = 9000, rp_port = None, rp_socks_port = None, rp_external_controller = Some ''127.0.0.1:17650''\<rparr>"

lemma demo_resolved:
  "resolve_ports demo_scanner demo_clash None 9000 = (Inr demo_ports_picked, Some (fingerprint_of demo_clash, demo_ports_picked), 9001)"
  by (simp add: demo_port_simps demo_ports_picked_def)

definition demo_rebuild_input :: "ClashCore \<Rightarrow> RuntimeBuildInput" where
  "demo_rebuild_input core =
     \<lparr>ri_profiles = demo_profiles, ri_clash = demo_clash,
      ri_app = \<lparr>ap_core = core, ap_enable_builtin_enhanced = True\<rparr>, ri_resolved_ports = demo_ports_picked\<rparr>"

lemma demo_keys: "length (pipeline_keys (pipeline_inputs demo_build_ports (demo_rebuild_input core))) \<le> 14"
  by (induct core; code_simp)

lemma demo_rebuild_ok:
  "ports_ok demo_build_ports \<lparr>ri_profiles = demo_profiles, ri_clash = demo_clash,
     ri_app = \<lparr>ap_core = core, ap_enable_builtin_enhanced = True\<rparr>, ri_resolved_ports = ports\<rparr>"
proof -
  have "pipeline_keys (pipeline_inputs demo_build_ports \<lparr>ri_profiles = demo_profiles, ri_clash = demo_clash,
        ri_app = \<lparr>ap_core = core, ap_enable_builtin_enhanced = True\<rparr>, ri_resolved_ports = ports\<rparr>) =
      pipeline_keys (pipeline_inputs demo_build_ports (demo_rebuild_input core))"
    by (simp add: pipeline_keys_def pipeline_inputs_def demo_rebuild_input_def)
  then show ?thesis using demo_keys [of core]
    by (simp add: ports_ok_def runner_wf_def demo_build_ports_def demo_ports_def MAX_MATERIALIZE_DEPTH_def)
qed

definition demo_product :: string where
  "demo_product = product_header @ ''text''"

lemma demo_built:
  assumes "core = Mihomo \<or> core = ClashRsCore"
  obtains data where "build_product demo_build_ports (demo_rebuild_input core) = Inr (data, demo_product)"
proof -
  have "case desired_config demo_build_ports (demo_rebuild_input Mihomo) of Inl e \<Rightarrow> False | Inr c \<Rightarrow> True"
    "case desired_config demo_build_ports (demo_rebuild_input ClashRsCore) of Inl e \<Rightarrow> False | Inr c \<Rightarrow> True"
    by code_simp+
  then obtain c where c: "desired_config demo_build_ports (demo_rebuild_input core) = Inr c"
    using assms by (auto split: sum.splits)
  have "ports_ok demo_build_ports (demo_rebuild_input core)" unfolding demo_rebuild_input_def by (rule demo_rebuild_ok)
  from build_product_desired [OF this] c that show thesis
    by (auto simp: demo_build_ports_def demo_product_def)
qed

lemmas rebuild_simps =
  client_simps regenerate_runtime_with_def regenerate_runtime_inner_def regenerate_for_legacy_inner_def
  resolve_session_ports_def apply_promoted_def apply_config_from_def put_configs_def rebuild_running_config_def change_core_def
  draft_edit_def draft_apply_def demo_started_def demo_snapshot_def

lemma next_revision [simp]: "\<not> (2 :: u64) \<le> 1"
  by (simp add: word_le_nat_alt)

lemma demo_rebuilt: "fst (rebuild_running_config demo_client_ports demo_started) = Inr ()"
proof -
  obtain data where "build_product demo_build_ports (demo_rebuild_input Mihomo) = Inr (data, demo_product)"
    using demo_built by blast
  then have b: "build_product demo_build_ports
      \<lparr>ri_profiles = demo_profiles, ri_clash = demo_clash, ri_app = \<lparr>ap_core = Mihomo, ap_enable_builtin_enhanced = True\<rparr>,
       ri_resolved_ports = demo_ports_picked\<rparr> = Inr (data, demo_product)"
    by (simp add: demo_rebuild_input_def)
  show ?thesis
    by (simp add: rebuild_simps demo_resolved b upt_rec [of 0] Let_def eval_nat_numeral)
qed

lemma demo_switched: "fst (change_core demo_client_ports ClashRsCore demo_started) = Inr ()"
proof -
  obtain data where "build_product demo_build_ports (demo_rebuild_input ClashRsCore) = Inr (data, demo_product)"
    using demo_built by blast
  then have b: "build_product demo_build_ports
      \<lparr>ri_profiles = demo_profiles, ri_clash = demo_clash, ri_app = \<lparr>ap_core = ClashRsCore, ap_enable_builtin_enhanced = True\<rparr>,
       ri_resolved_ports = demo_ports_picked\<rparr> = Inr (data, demo_product)"
    by (simp add: demo_rebuild_input_def)
  show ?thesis
    by (simp add: rebuild_simps demo_resolved b upt_rec [of 0] Let_def eval_nat_numeral)
qed

theorem lifecycle_invariant_witness:
  "only_accepted None demo_started \<and> ordered demo_client_ports demo_started \<and>
     lf_applied (nc_lifecycle demo_started) = Some demo_snapshot"
  using lifecycle_invariant [OF demo_booted, of demo_client_ports "[PromoteDefault, StartPromoted]"] demo_clean(2)
  unfolding demo_run by (simp add: demo_started_def)

theorem applied_truthful_witness:
  "truthful demo_started \<and> lf_applied (nc_lifecycle demo_started) = Some demo_snapshot \<and> nc_core demo_started \<noteq> None"
proof -
  have "truthful (run_ops demo_client_ports [PromoteDefault, StartPromoted] demo_client)"
    by (rule applied_truthful [OF demo_booted demo_clean(1)]) (simp add: reports_itself_def)
  then show ?thesis unfolding demo_run by (simp add: demo_started_def)
qed

theorem change_core_outcome_witness:
  "\<exists>w' b. change_core demo_client_ports ClashRsCore demo_started = (Inr (), w') \<and>
     vg_clash_core (dr_data (nc_verge w')) = Some ClashRsCore \<and> started ClashRsCore b w'"
proof -
  obtain w' where w': "change_core demo_client_ports ClashRsCore demo_started = (Inr (), w')"
    using demo_switched by (cases "change_core demo_client_ports ClashRsCore demo_started") auto
  then have "change_core demo_client_ports ClashRsCore
      (run_ops demo_client_ports [PromoteDefault, StartPromoted] demo_client) = (Inr (), w')" by (simp only: demo_run)
  from change_core_outcome [OF demo_booted this] w' show ?thesis by auto
qed

theorem rebuild_exact_witness:
  "\<exists>w' core. rebuild_running_config demo_client_ports demo_started = (Inr (), w') \<and>
     nc_core w' = Some core \<and> rc_bytes core = product_header @ ''text''"
proof -
  obtain w' where w': "rebuild_running_config demo_client_ports demo_started = (Inr (), w')"
    using demo_rebuilt by (cases "rebuild_running_config demo_client_ports demo_started") auto
  have docs: "nc_profiles demo_started = demo_profiles" "nc_clash_config demo_started = demo_clash"
    "nc_app_config demo_started = \<lparr>ap_core = Mihomo, ap_enable_builtin_enhanced = True\<rparr>" "cp_build demo_client_ports n = demo_build_ports" for n
    by (simp_all add: demo_started_def demo_client_def demo_client_ports_def)
  show ?thesis
    using rebuild_exact [OF demo_booted demo_run demo_clean(2) _ w'] w' demo_rebuild_ok
    by (auto simp: docs demo_build_ports_def)
qed

section \<open>Patches\<close>





section \<open>Where Applied is wrong\<close>

text \<open>A patch the core has already taken is then refused because its port is in use: the core keeps it, the settings
  do not, and Applied still names the configuration without it.\<close>

definition busy_patch :: YamlMapping where
  "busy_patch = [(YString ''mixed-port'', YNumber (YPosInt 7000))]"

lemma busy_patch_refused:
  "patch_running_config demo_client_ports busy_patch demo_started =
    (Inl ''port already in use'', demo_started\<lparr>nc_clock := 16,
       nc_core := Some \<lparr>rc_type = Mihomo, rc_bytes = demo_text, rc_patches = [busy_patch]\<rparr>\<rparr>)"
proof -
  let ?w = "demo_started\<lparr>nc_clock := 16, nc_core := Some \<lparr>rc_type = Mihomo, rc_bytes = demo_text, rc_patches = [busy_patch]\<rparr>\<rparr>"
  have sent: "send_patch demo_client_ports busy_patch (tick demo_started) = (Inr (), ?w)"
    by (simp add: send_patch_def client_call_def demo_client_ports_def demo_started_def tick_def)
  have port: "check_mixed_port demo_client_ports busy_patch w = (Some (StopError ''port already in use''), w)"
    if "vg_enable_random_port (draft_latest (nc_verge w)) = None" "vg_verge_mixed_port (draft_latest (nc_verge w)) = None"
      "dr_data (nc_clash w) = []" for w
    using that
    by (simp add: check_mixed_port_def busy_patch_def yaml_get_def guard_mixed_port_def local_port_available_def
        demo_client_ports_def demo_scanner_def)
  have refused: "patch_clash_with_rebuild demo_client_ports busy_patch rebuild ?w = (Inl ''port already in use'', ?w)"
    for rebuild :: "bool \<Rightarrow> (u16, RuntimeSnapshot) client"
    by (simp add: patch_clash_with_rebuild_def check_patch_ports_def port demo_started_def demo_client_def draft_edit_def
        draft_latest_def discard_clash_def draft_discard_def)
  have plan: "\<exists>plan. compensation_for busy_patch (Some demo_snapshot) = Inr (Some plan)"
    by (simp add: compensation_for_def compensation_op_def busy_patch_def demo_snapshot_def plain_data_def)
  have applied: "lf_applied (nc_lifecycle (tick demo_started)) = Some demo_snapshot" by (simp add: tick_def demo_started_def)
  obtain plan where "compensation_for busy_patch (Some demo_snapshot) = Inr (Some plan)" using plan by blast
  moreover have "client_call demo_client_ports BeginLease msg (\<lambda>w. w) demo_started = (Inr (), tick demo_started)" for msg
    by (simp add: client_call_def demo_client_ports_def)
  ultimately show ?thesis
    by (simp add: patch_running_config_def with_lease_def and_next_def applied Let_def sent refused)
qed

lemma refused_patch_stays:
  "fst (patch_running_config demo_client_ports busy_patch demo_started) = Inl ''port already in use''"
  "map_option rc_patches (nc_core (snd (patch_running_config demo_client_ports busy_patch demo_started))) = Some [busy_patch]"
  "\<not> truthful (snd (patch_running_config demo_client_ports busy_patch demo_started))"
  unfolding busy_patch_refused by (simp_all add: truthful_def demo_started_def)

text \<open>The core ends after a new product was promoted and not yet applied: the watchdog starts the new product,
  Applied still names the old one.\<close>

lemma watchdog_unreported:
  "\<not> truthful (run_ops demo_client_ports [PromoteDefault, StartPromoted, Regenerate, CoreEnds, RecoverCore] demo_client)"
proof -
  obtain data where "build_product demo_build_ports (demo_rebuild_input Mihomo) = Inr (data, demo_product)"
    using demo_built by blast
  then have b: "build_product demo_build_ports
      \<lparr>ri_profiles = demo_profiles, ri_clash = demo_clash, ri_app = \<lparr>ap_core = Mihomo, ap_enable_builtin_enhanced = True\<rparr>,
       ri_resolved_ports = demo_ports_picked\<rparr> = Inr (data, demo_product)"
    by (simp add: demo_rebuild_input_def)
  have "run_ops demo_client_ports [PromoteDefault, StartPromoted, Regenerate, CoreEnds, RecoverCore] demo_client =
      run_ops demo_client_ports [Regenerate, CoreEnds, RecoverCore] demo_started"
    using demo_run by simp
  moreover have "\<not> truthful (run_ops demo_client_ports [Regenerate, CoreEnds, RecoverCore] demo_started)"
    by (simp add: rebuild_simps regenerate_runtime_def recover_core_def demo_resolved b upt_rec [of 0] Let_def eval_nat_numeral truthful_def
        demo_text_def demo_product_def fallback_header_def product_header_def)
  ultimately show ?thesis by simp
qed

end
