(* ===== verification/Spec2Isabelle.thy ===== *)
theory Spec2Isabelle
  imports Actor_Properties Profile_Claims Runtime_Claims
begin

text \<open>
  A verification of the core of clash-nyanpasu, the desktop client of the Clash family of proxies.
  Paths below are relative to \<^verbatim>\<open>backend/\<close>.

  \<^bold>\<open>The program.\<close> The client keeps a few versioned documents (application settings, profile document,
  session state), each behind a coordinator that serialises writers, asks subscribers for consent and
  saves a file (\<^verbatim>\<open>nyanpasu-core/src/state\<close>). The profile document (\<^verbatim>\<open>nyanpasu-config/src/profile\<close>) says which
  subscription files, compositions and transforms make up a configuration. The runtime
  (\<^verbatim>\<open>nyanpasu-config/src/runtime\<close>) executes it: it reads the files, applies overlays and scripts, forces
  the application's own settings, and records every intermediate configuration in a snapshot graph.
  The result is written to the Clash core.

  \<^bold>\<open>Theories.\<close>
  \<^item> \<open>Prelude\<close>: machine words, results as sums, the insertion-ordered maps and sets of \<^verbatim>\<open>indexmap\<close> with
    the locale \<open>ordered_map\<close>, and folds over results.
  \<^item> \<open>State_Ack\<close>, \<open>State_Notify\<close>, \<open>State_Transaction\<close>, \<open>State_Coordinator\<close>: versions and
    acknowledgements (\<^verbatim>\<open>version.rs ack.rs error.rs\<close>), the two dispatch strategies
    (\<^verbatim>\<open>transaction/notify.rs\<close>), the transaction with its rollback guard (\<^verbatim>\<open>transaction.rs\<close>), the
    coordinator and its builder (\<^verbatim>\<open>coordinator.rs snapshot.rs\<close>).
  \<^item> \<open>State_Protocol\<close>: what these promise. A write is atomic, no accepted write overwrites a foreign
    one, the subscribers see a two-phase protocol, deadlines end every wait, versions never wrap; a
    sequence of writes is a run of a versioned register (locale \<open>versioned_register\<close>).
  \<^item> \<open>State_Managers\<close>: the managers that add a file (\<^verbatim>\<open>manager/*.rs format.rs\<close>): file and memory agree
    after every sequence of writes (locale \<open>durable_register\<close>), what was reported saved survives a
    restart, and where this fails.
  \<^item> \<open>Profile_Types\<close>, \<open>Profile_Store\<close>: the document, its patches, its validator with an independent
    meaning of validity, sanitizing, the dependency index.
  \<^item> \<open>Config_Value\<close>: configuration values, typed and dotted paths (locale \<open>path_lens\<close>), deep merge, JSON
    and YAML conversion (\<^verbatim>\<open>runtime/value executor/value_util.rs\<close>).
  \<^item> \<open>Overlay\<close>, \<open>Builtin_Steps\<close>: the overlay language and the built-in steps (\<^verbatim>\<open>executor/overlay.rs
    builtin.rs\<close>).
  \<^item> \<open>Snapshot_Graph\<close>: the builder, its validation, delta encoding and expansion (\<^verbatim>\<open>runtime/snapshot.rs\<close>).
  \<^item> \<open>Pipeline_Executor\<close>: the executor. It is shown to compute a pure pipeline, to fail only on
    unreadable member files, and to enforce the application's settings end to end.

  \<^item> \<open>Invalidation\<close>: which change of which profile asks for a rebuild (\<^verbatim>\<open>profile/invalidation.rs\<close>), and that a change
    nobody has to hear of leaves the built artifact as it was.
  \<^item> \<open>Profiles_Ports\<close>, \<open>Profiles_Actor\<close>: the actor that owns the profile document, its messages, its timers and
    watchers (\<^verbatim>\<open>tauri/src/state/profiles\<close>). \<open>Actor_Commits\<close>, \<open>Actor_Messages\<close>, \<open>Actor_Rebuild\<close>, \<open>Actor_Replies\<close> hold the
    lemmas, \<open>Actor_Properties\<close> the promises: a run of messages keeps document, file, index and timers together
    and refines edits of an abstract document, every reply port is answered once, no rebuild is missed.
  \<^item> \<open>Profile_Disk\<close>, \<open>Profile_Files\<close>: the file service under the actor (\<^verbatim>\<open>tauri/src/service/profile_file.rs\<close>), on a
    disk where any system call may fail, be torn or kill the process. \<open>Profile_Frames\<close>: what an operation
    leaves alone. \<open>Profile_Recovery\<close>, \<open>Profile_Crash\<close>: the states a change passes through and that every
    recovery keeps them. \<open>Profile_Claims\<close>: a change interrupted anywhere is ended by the next reconcile on the
    side of the document; cleanups are fenced; unnamed files are left alone; two runs that lose data.
  \<^item> \<open>Session_Ports\<close>: the Clash settings and the resolver of the session's ports (\<^verbatim>\<open>nyanpasu-config/src/clash/config
    tauri/src/client/ports.rs\<close>). \<open>Runtime_Builder\<close>: from the documents to the text of the product
    (\<^verbatim>\<open>tauri/src/enhance/runtime_builder.rs artifact_bridge.rs\<close>).
  \<^item> \<open>Runtime_Lifecycle\<close>, \<open>Runtime_Patch\<close>: how a product reaches the core: candidate, check, promotion, apply or
    restart, the switch of the core with its rollback, live patches with their compensation (\<^verbatim>\<open>tauri/src/client/runtime.rs
    mod.rs rebuild.rs core_bridge.rs core/clash/core.rs feat.rs\<close>). \<open>Runtime_Claims\<close>: what holds after any sequence of
    these under any failures, and two runs in which Applied is wrong.

  \<^bold>\<open>Correspondence.\<close> Records, constructors and functions keep the names of the source, with a prefix of
  two letters on record fields. A \<^verbatim>\<open>Result\<close> is a sum with the error on the left. Asynchronous code is
  sequential code over an explicit world; what a scheduler or another task may do in between is
  a parameter every theorem quantifies over. A list of pushed errors or log entries is returned.

  \<^bold>\<open>Parameters and laws.\<close> Code outside the repository is a record of functions: the file system and the
  YAML library of the managers (\<open>files_law\<close>, \<open>yaml_law\<close>), the JSON patch library (\<open>patch_law\<close>: applying
  a difference gives the right-hand document), the script engine (\<open>runner_wf\<close>: its results are
  values of the program), the subscribers of a coordinator, the ports of the profiles actor (\<open>ActorPorts\<close>),
  SHA-256, the YAML of journals and the random ids of the file service (\<open>FilePlatform\<close>; the crash theorem
  assumes that the three resources of a change have different hashes and that its journal can be read back). The runtime lifecycle adds the core's checker,
  the YAML reader, the conversion of the legacy settings and the fate of every call (\<open>ClientPorts\<close>). Each law is satisfied by a concrete
  instance in the witnesses.

  \<^bold>\<open>Bounds.\<close> Versions and change ids are 64-bit words; the theorems on writes assume that the next one
  exists and one theorem says what happens at the last. Snapshot node ids are 32-bit; the materializer
  limits depth to 1024, so the executor's theorems speak of runs with at most 1025 steps, which is the
  exact limit of the source. Runtime revisions are 64-bit words whose end is an error. An operation id and a candidate name are looked for 16 times; the crash theorem assumes that one draw is
  free. The file service is modelled without loss of completed writes that were not yet synced. No definition uses fuel: loops that are not structural have measures
  (the unvisited nodes of a graph, the length of a text).

  \<^bold>\<open>Not modelled.\<close> Logging, metrics, \<^verbatim>\<open>Display\<close> and \<^verbatim>\<open>serde\<close> derive glue, the exported snapshot tree and its
  on-disk form, memory sharing by \<^verbatim>\<open>Arc\<close> where no code compares pointers, Windows path prefixes
  and tombstones, the parent directories of managed files (a call that may fail), the download of subscriptions,
  the application settings and their migration, the core process beyond its type and what it has loaded, the background worker that
  triggers rebuilds, the rest of the Tauri shell (windows, tray, IPC, updater, downloads), the egui widgets, the script engines and the
  TypeScript front end.
\<close>

end
